(* ===== verification/Prelude.thy ===== *)
theory Prelude
  imports Main "HOL-Library.Word" "HOL-Library.Multiset" "HOL-Library.Char_ord" "HOL-Library.List_Lexorder"
begin

text \<open>
  The vocabulary the component theories share: Go's 64-bit \<open>int\<close> with its wrap-around, Go's
  error values (\<open>errors.New\<close>, \<open>fmt.Errorf\<close> with \<open>%w\<close>, \<open>errors.Join\<close>, \<open>errors.Is\<close>), the loops
  the sources write over calls that may fail, the ``seen'' map loops that drop repeated keys,
  and sorting by a comparison function (\<open>slices.SortFunc\<close>, \<open>slices.SortStableFunc\<close>,
  \<open>sort.Strings\<close>).
\<close>

unbundle bit_operations_syntax

named_theorems inv_intros \<open>rules that a loop or a sequence of calls keeps an invariant\<close>
named_theorems go_simps \<open>equations of the shared Go vocabulary\<close>

section \<open>Machine integers\<close>

type_synonym u32 = "32 word"
type_synonym u64 = "64 word"
type_synonym byte = "8 word"

text \<open>Go's \<open>int\<close> has 64 bits on the platforms this program runs on; arithmetic wraps.\<close>

definition go_int :: "int \<Rightarrow> int" where
  "go_int x = (x + 2 ^ 63) mod 2 ^ 64 - 2 ^ 63"

definition is_go_int :: "int \<Rightarrow> bool" where
  "is_go_int x \<longleftrightarrow> - (2 ^ 63) \<le> x \<and> x < 2 ^ 63"

lemma go_int_id [simp]: "is_go_int x \<Longrightarrow> go_int x = x"
  by (simp add: go_int_def is_go_int_def)

lemma is_go_int_go_int [simp]: "is_go_int (go_int x)"
proof -
  have "0 \<le> (x + 2 ^ 63) mod 2 ^ 64" and "(x + 2 ^ 63) mod 2 ^ 64 < 2 ^ 64"
    by simp_all
  then show ?thesis by (simp add: go_int_def is_go_int_def)
qed

section \<open>Errors\<close>

text \<open>
  An error is the text given to \<open>errors.New\<close>, a system error number, the format, the arguments
  and the wrapped errors of a \<open>fmt.Errorf\<close>, or the list given to \<open>errors.Join\<close>. The message is
  not rendered: the format and its arguments are kept as they are.
\<close>

datatype goArg = AInt int | AStr string

datatype goError =
    ErrorsNew string
  | Errno int
  | Errorf string "goArg list" "goError list"
  | Joined "goError list"

definition EEXIST :: goError where "EEXIST = Errno 17"
definition ESRCH :: goError where "ESRCH = Errno 3"
definition EBUSY :: goError where "EBUSY = Errno 16"

text \<open>\<open>errors.Is\<close>: the error itself or one of the errors it wraps.\<close>

fun errors_is :: "goError \<Rightarrow> goError \<Rightarrow> bool" where
  "errors_is (ErrorsNew s) t \<longleftrightarrow> ErrorsNew s = t"
| "errors_is (Errno n) t \<longleftrightarrow> Errno n = t"
| "errors_is (Errorf f as es) t \<longleftrightarrow> Errorf f as es = t \<or> list_ex (\<lambda>e. errors_is e t) es"
| "errors_is (Joined es) t \<longleftrightarrow> Joined es = t \<or> list_ex (\<lambda>e. errors_is e t) es"

text \<open>\<open>errors.Join\<close> drops nil errors and is nil when nothing is left.\<close>

definition errors_join :: "goError option list \<Rightarrow> goError option" where
  "errors_join es = (case List.map_filter (\<lambda>e. e) es of [] \<Rightarrow> None | xs \<Rightarrow> Some (Joined xs))"

lemma errors_join_Nil [simp]: "errors_join [] = None"
  by (simp add: errors_join_def)

lemma errors_join_None [simp]: "errors_join (None # es) = errors_join es"
  by (simp add: errors_join_def)

lemma errors_join_Some [simp]: "errors_join (Some e # es) \<noteq> None"
  by (simp add: errors_join_def split: list.split)

lemma errors_join_eq_None: "errors_join es = None \<longleftrightarrow> set es \<subseteq> {None}"
proof (induction es)
  case (Cons e es)
  then show ?case by (cases e) simp_all
qed simp

section \<open>Calls that may fail, on a world of their own\<close>

text \<open>
  A method that returns only an error, called on a world \<open>'k\<close> (the kernel, a daemon, a file
  system): \<open>None\<close> is the nil error. A method that also returns a value gives \<open>Inl\<close> on an error.
\<close>

type_synonym 'k act = "'k \<Rightarrow> goError option \<times> 'k"
type_synonym ('k, 'a) query = "'k \<Rightarrow> (goError + 'a) \<times> 'k"

text \<open>\<open>for _, x := range xs { if err := f(x); err != nil { return err } }\<close>\<close>

fun forE :: "('a \<Rightarrow> 'k act) \<Rightarrow> 'a list \<Rightarrow> 'k act" where
  "forE f [] k = (None, k)"
| "forE f (x # xs) k =
     (case f x k of (Some e, k') \<Rightarrow> (Some e, k') | (None, k') \<Rightarrow> forE f xs k')"

text \<open>\<open>for _, x := range xs { errs = append(errs, f(x)) }\<close>\<close>

fun forAll :: "('a \<Rightarrow> 'k act) \<Rightarrow> 'a list \<Rightarrow> 'k \<Rightarrow> goError option list \<times> 'k" where
  "forAll f [] k = ([], k)"
| "forAll f (x # xs) k =
     (case f x k of (e, k') \<Rightarrow> (case forAll f xs k' of (es, k'') \<Rightarrow> (e # es, k'')))"

text \<open>One call after another, stopping at the first error; the rewording of an error.\<close>

definition thenE :: "'k act \<Rightarrow> 'k act \<Rightarrow> 'k act" where
  "thenE f g k = (case f k of (Some e, k') \<Rightarrow> (Some e, k') | (None, k') \<Rightarrow> g k')"

definition wrapE :: "(goError \<Rightarrow> goError) \<Rightarrow> 'k act \<Rightarrow> 'k act" where
  "wrapE w f k = (case f k of (e, k') \<Rightarrow> (map_option w e, k'))"

definition joinAll :: "goError option list \<times> 'k \<Rightarrow> goError option \<times> 'k" where
  "joinAll r = (errors_join (fst r), snd r)"

text \<open>An action keeps an invariant when it holds afterwards whether or not the call failed.\<close>

definition keeps :: "('k \<Rightarrow> bool) \<Rightarrow> ('k \<Rightarrow> 'a \<times> 'k) \<Rightarrow> bool" where
  "keeps I f \<longleftrightarrow> (\<forall>k. I k \<longrightarrow> I (snd (f k)))"

lemma keepsI [intro?]: "(\<And>k. I k \<Longrightarrow> I (snd (f k))) \<Longrightarrow> keeps I f"
  by (simp add: keeps_def)

lemma keepsD: "keeps I f \<Longrightarrow> I k \<Longrightarrow> I (snd (f k))"
  by (simp add: keeps_def)

lemma keeps_forE [inv_intros]:
  assumes "\<And>x. x \<in> set xs \<Longrightarrow> keeps I (f x)"
  shows "keeps I (forE f xs)"
  using assms
proof (induction xs)
  case (Cons x xs)
  have "I (snd (forE f (x # xs) k))" if "I k" for k
  proof -
    obtain e k' where f: "f x k = (e, k')" by force
    moreover have "I k'" using keepsD [of I "f x" k] Cons.prems that f by simp
    ultimately show ?thesis using Cons by (cases e) (auto dest: keepsD)
  qed
  then show ?case by (rule keepsI)
qed (simp add: keeps_def)

lemma forAll_keeps:
  assumes "\<And>x. x \<in> set xs \<Longrightarrow> keeps I (f x)" and "I k"
  shows "I (snd (forAll f xs k))"
  using assms
proof (induction xs arbitrary: k)
  case (Cons x xs)
  obtain e k' where f: "f x k = (e, k')" by force
  moreover have "I k'" using keepsD [of I "f x" k] Cons.prems f by simp
  ultimately show ?case using Cons.IH [of k'] Cons.prems(1) by (auto split: prod.split)
qed simp

lemma keeps_joinAll [inv_intros]:
  assumes "\<And>x. x \<in> set xs \<Longrightarrow> keeps I (f x)"
  shows "keeps I (\<lambda>k. joinAll (forAll f xs k))"
  by (rule keepsI) (simp add: joinAll_def forAll_keeps [OF assms])

lemma keeps_thenE [inv_intros]: "keeps I f \<Longrightarrow> keeps I g \<Longrightarrow> keeps I (thenE f g)"
  by (auto simp: keeps_def thenE_def split: prod.split option.split)

lemma keeps_wrapE [inv_intros]: "keeps I f \<Longrightarrow> keeps I (wrapE w f)"
  by (auto simp: keeps_def wrapE_def split: prod.split)

lemma forE_append: "forE f (xs @ ys) k = thenE (forE f xs) (forE f ys) k"
  by (induction xs arbitrary: k) (auto simp: thenE_def split: prod.split option.split)

lemma forE_map: "forE f (map g xs) k = forE (\<lambda>x. f (g x)) xs k"
  by (induction xs arbitrary: k) (auto split: prod.split option.split)

lemma thenE_None:
  "thenE f g k = (None, k'') \<longleftrightarrow> (\<exists>k'. f k = (None, k') \<and> g k' = (None, k''))"
  by (auto simp: thenE_def split: prod.splits option.splits)

lemma wrapE_None: "wrapE w f k = (None, k') \<longleftrightarrow> f k = (None, k')"
  by (auto simp: wrapE_def split: prod.splits)

lemma forE_Cons_None:
  "forE f (x # xs) k = (None, k'') \<longleftrightarrow> (\<exists>k'. f x k = (None, k') \<and> forE f xs k' = (None, k''))"
  by (auto split: prod.splits option.splits)

lemmas act_None = thenE_None wrapE_None forE_Cons_None

section \<open>Loops that keep the results there are\<close>

lemma set_map_filter_Some: "set (List.map_filter f xs) = {y. \<exists>x \<in> set xs. f x = Some y}"
  by (induction xs) (auto simp: map_filter_simps split: option.splits)

section \<open>Loops with a map of the keys seen\<close>

text \<open>
  The loops \<open>if seen[key(x)] { continue }; seen[key(x)] = true; out = append(out, x)\<close>: the first
  element of each key is kept, in order.
\<close>

fun dedup_from :: "('a \<Rightarrow> 'b) \<Rightarrow> 'b list \<Rightarrow> 'a list \<Rightarrow> 'a list" where
  "dedup_from key seen [] = []"
| "dedup_from key seen (x # xs) =
     (if key x \<in> set seen then dedup_from key seen xs
      else x # dedup_from key (key x # seen) xs)"

abbreviation dedup_by :: "('a \<Rightarrow> 'b) \<Rightarrow> 'a list \<Rightarrow> 'a list" where
  "dedup_by key \<equiv> dedup_from key []"

lemma set_dedup_from: "set (dedup_from key seen xs) \<subseteq> set xs"
  by (induction xs arbitrary: seen) auto

lemma dedup_from_keys:
  "key ` set (dedup_from key seen xs) = key ` set xs - set seen"
  by (induction xs arbitrary: seen) auto

lemma dedup_by_keys [simp]: "key ` set (dedup_by key xs) = key ` set xs"
  by (simp add: dedup_from_keys)

lemma set_dedup_by_id [simp]: "set (dedup_by (\<lambda>x. x) xs) = set xs"
  using dedup_by_keys [of "\<lambda>x. x"] by simp

lemma distinct_dedup_from: "distinct (map key (dedup_from key seen xs))"
proof (induction xs arbitrary: seen)
  case (Cons x xs)
  then show ?case using dedup_from_keys [of key "key x # seen" xs] by auto
qed simp

lemma distinct_dedup_by_id [simp]: "distinct (dedup_by (\<lambda>x. x) xs)"
  using distinct_dedup_from [of "\<lambda>x. x"] by simp

lemma dedup_from_distinct:
  "distinct (map key xs) \<Longrightarrow> key ` set xs \<inter> set seen = {} \<Longrightarrow> dedup_from key seen xs = xs"
  by (induction xs arbitrary: seen) auto

lemma dedup_from_set: "set s = set t \<Longrightarrow> dedup_from key s xs = dedup_from key t xs"
proof (induction xs arbitrary: s t)
  case (Cons x xs)
  have "dedup_from key (key x # s) xs = dedup_from key (key x # t) xs" by (rule Cons.IH) (simp add: Cons.prems)
  then show ?case by (simp add: Cons.prems Cons.IH [OF Cons.prems])
qed simp

section \<open>Sorting by a comparison function\<close>

text \<open>
  \<open>slices.SortStableFunc\<close> and \<open>slices.SortFunc\<close> with a comparison that returns a negative number,
  zero or a positive number. The sort is the stable one; where the sources use the unstable
  \<open>SortFunc\<close>, elements that compare equal are equal, so that the two give the same list.
\<close>

fun insort_by :: "('a \<Rightarrow> 'a \<Rightarrow> int) \<Rightarrow> 'a \<Rightarrow> 'a list \<Rightarrow> 'a list" where
  "insort_by cmp x [] = [x]"
| "insort_by cmp x (y # ys) = (if cmp x y \<le> 0 then x # y # ys else y # insort_by cmp x ys)"

primrec sort_by :: "('a \<Rightarrow> 'a \<Rightarrow> int) \<Rightarrow> 'a list \<Rightarrow> 'a list" where
  "sort_by cmp [] = []"
| "sort_by cmp (x # xs) = insort_by cmp x (sort_by cmp xs)"

definition cmp_preorder :: "('a \<Rightarrow> 'a \<Rightarrow> int) \<Rightarrow> bool" where
  "cmp_preorder cmp \<longleftrightarrow>
     (\<forall>a b. 0 < cmp a b \<longrightarrow> cmp b a \<le> 0) \<and> (\<forall>a b c. cmp a b \<le> 0 \<longrightarrow> cmp b c \<le> 0 \<longrightarrow> cmp a c \<le> 0)"

lemma mset_insort_by [simp]: "mset (insort_by cmp x xs) = add_mset x (mset xs)"
  by (induction xs) auto

lemma mset_sort_by [simp]: "mset (sort_by cmp xs) = mset xs"
  by (induction xs) auto

lemma set_sort_by [simp]: "set (sort_by cmp xs) = set xs"
  by (metis mset_sort_by set_mset_mset)

lemma sorted_insort_by:
  assumes "cmp_preorder cmp" and "sorted_wrt (\<lambda>a b. cmp a b \<le> 0) xs"
  shows "sorted_wrt (\<lambda>a b. cmp a b \<le> 0) (insort_by cmp x xs)"
  using assms(2)
proof (induction xs)
  case (Cons y ys)
  have set: "set (insort_by cmp x ys) = insert x (set ys)"
    by (metis mset_insort_by set_mset_add_mset_insert set_mset_mset)
  show ?case
  proof (cases "cmp x y \<le> 0")
    case True
    with Cons.prems assms(1) show ?thesis unfolding cmp_preorder_def by auto
  next
    case False
    with assms(1) have "cmp y x \<le> 0" unfolding cmp_preorder_def by auto
    with False Cons set show ?thesis by auto
  qed
qed simp

lemma sorted_sort_by:
  "cmp_preorder cmp \<Longrightarrow> sorted_wrt (\<lambda>a b. cmp a b \<le> 0) (sort_by cmp xs)"
  by (induction xs) (auto simp: sorted_insort_by)

text \<open>\<open>cmp.Compare\<close>, and the comparison that looks at one key first and at another then.\<close>

definition cmp_Compare :: "'a::linorder \<Rightarrow> 'a \<Rightarrow> int" where
  "cmp_Compare a b = (if a < b then -1 else if b < a then 1 else 0)"

definition cmp_then :: "int \<Rightarrow> int \<Rightarrow> int" where
  "cmp_then m n = (if m \<noteq> 0 then m else n)"

lemma cmp_eq_0 [simp]: "cmp_Compare a b = 0 \<longleftrightarrow> a = b" "cmp_then m n = 0 \<longleftrightarrow> m = 0 \<and> n = 0"
  by (auto simp: cmp_Compare_def cmp_then_def)

text \<open>A comparison is lawful when its sign reverses with its arguments and it is transitive.\<close>

definition lawful_cmp :: "('a \<Rightarrow> 'a \<Rightarrow> int) \<Rightarrow> bool" where
  "lawful_cmp cmp \<longleftrightarrow> (\<forall>a b. cmp a b < 0 \<longleftrightarrow> 0 < cmp b a) \<and>
     (\<forall>a b c. cmp a b \<le> 0 \<longrightarrow> cmp b c \<le> 0 \<longrightarrow> cmp a c \<le> 0)"

lemma lawful_cmpD:
  assumes "lawful_cmp cmp"
  shows "cmp a b < 0 \<longleftrightarrow> 0 < cmp b a" and "cmp a b \<le> 0 \<Longrightarrow> cmp b c \<le> 0 \<Longrightarrow> cmp a c \<le> 0"
  using assms unfolding lawful_cmp_def by blast+

lemma lawful_cmp_zero: "lawful_cmp cmp \<Longrightarrow> cmp a b = 0 \<longleftrightarrow> cmp b a = 0"
  using lawful_cmpD(1) [of cmp a b] lawful_cmpD(1) [of cmp b a] by linarith

lemma lawful_cmp_preorder: "lawful_cmp cmp \<Longrightarrow> cmp_preorder cmp"
  unfolding cmp_preorder_def using lawful_cmpD [of cmp] by (metis order_less_imp_le)

lemma lawful_cmp_Compare: "lawful_cmp (\<lambda>a b. cmp_Compare (f a) (f b))"
  by (auto simp: lawful_cmp_def cmp_Compare_def split: if_splits)

lemma lawful_cmp_then:
  assumes f: "lawful_cmp f" and g: "lawful_cmp g"
  shows "lawful_cmp (\<lambda>a b. cmp_then (f a b) (g a b))"
proof -
  note f1 = lawful_cmpD(1) [OF f] and f2 = lawful_cmpD(2) [OF f] and f0 = lawful_cmp_zero [OF f]
  have flip: "cmp_then (f a b) (g a b) < 0 \<longleftrightarrow> 0 < cmp_then (f b a) (g b a)" for a b
    using f1 [of a b] f0 [of a b] lawful_cmpD(1) [OF g, of a b] by (auto simp: cmp_then_def)
  have trans: "cmp_then (f a c) (g a c) \<le> 0"
    if "cmp_then (f a b) (g a b) \<le> 0" and "cmp_then (f b c) (g b c) \<le> 0" for a b c
  proof -
    have ab: "f a b \<le> 0" and bc: "f b c \<le> 0" using that by (auto simp: cmp_then_def split: if_splits)
    then have ac: "f a c \<le> 0" by (rule f2)
    show ?thesis
    proof (cases "f a c = 0")
      case True
      then have "f c a = 0" using f0 by blast
      then have "f b a \<le> 0" and "f c b \<le> 0" using ab bc f2 [of b c a] f2 [of c a b] by simp_all
      then have "f a b = 0" and "f b c = 0" using ab bc f1 [of a b] f1 [of b c] by linarith+
      with that True show ?thesis using lawful_cmpD(2) [OF g, of a b c] by (auto simp: cmp_then_def)
    qed (use ac in \<open>simp add: cmp_then_def\<close>)
  qed
  from flip trans show ?thesis unfolding lawful_cmp_def by blast
qed

end
