(* ===== verification/Netip.thy ===== *)
theory Netip
  imports Prelude
begin

text \<open>
  What the sources use of Go's \<open>net/netip\<close>: addresses (none, IPv4, IPv6 with a zone), prefixes,
  their classification, ordering, masking and containment. An IPv4-mapped IPv6 address is an
  \<open>Addr6\<close>, as in Go. An invalid prefix has the length -1, as \<open>Prefix.Bits\<close> reports it.
\<close>

datatype Addr = NoAddr | Addr4 u32 | Addr6 "128 word" string

datatype Prefix = Prefix (pfxAddr: Addr) (pfxBits: int)

section \<open>Addresses\<close>

fun addrIsValid :: "Addr \<Rightarrow> bool" where
  "addrIsValid NoAddr = False"
| "addrIsValid _ = True"

fun addrIs4 :: "Addr \<Rightarrow> bool" where
  "addrIs4 (Addr4 _) = True"
| "addrIs4 _ = False"

fun addrIs6 :: "Addr \<Rightarrow> bool" where
  "addrIs6 (Addr6 _ _) = True"
| "addrIs6 _ = False"

fun addrIs4In6 :: "Addr \<Rightarrow> bool" where
  "addrIs4In6 (Addr6 w _) = (drop_bit 32 w = 0xffff)"
| "addrIs4In6 _ = False"

fun addrZone :: "Addr \<Rightarrow> string" where
  "addrZone (Addr6 _ z) = z"
| "addrZone _ = ''''"

fun addrBitLen :: "Addr \<Rightarrow> int" where
  "addrBitLen NoAddr = 0"
| "addrBitLen (Addr4 _) = 32"
| "addrBitLen (Addr6 _ _) = 128"

fun addrUnmap :: "Addr \<Rightarrow> Addr" where
  "addrUnmap (Addr6 w z) = (if drop_bit 32 w = 0xffff then Addr4 (ucast w) else Addr6 w z)"
| "addrUnmap a = a"

fun addrWithoutZone :: "Addr \<Rightarrow> Addr" where
  "addrWithoutZone (Addr6 w _) = Addr6 w ''''"
| "addrWithoutZone a = a"

definition addrIsUnspecified :: "Addr \<Rightarrow> bool" where
  "addrIsUnspecified a \<longleftrightarrow> a = Addr4 0 \<or> a = Addr6 0 ''''"

definition addrIsLoopback :: "Addr \<Rightarrow> bool" where
  "addrIsLoopback a = (case addrUnmap a of
     Addr4 w \<Rightarrow> drop_bit 24 w = 127 | Addr6 w _ \<Rightarrow> w = 1 | NoAddr \<Rightarrow> False)"

definition addrIsMulticast :: "Addr \<Rightarrow> bool" where
  "addrIsMulticast a = (case addrUnmap a of
     Addr4 w \<Rightarrow> drop_bit 28 w = 0xe | Addr6 w _ \<Rightarrow> drop_bit 120 w = 0xff | NoAddr \<Rightarrow> False)"

definition addrIsLinkLocalUnicast :: "Addr \<Rightarrow> bool" where
  "addrIsLinkLocalUnicast a = (case addrUnmap a of
     Addr4 w \<Rightarrow> drop_bit 16 w = 0xa9fe | Addr6 w _ \<Rightarrow> drop_bit 118 w = 0x3fa | NoAddr \<Rightarrow> False)"

definition addrIsGlobalUnicast :: "Addr \<Rightarrow> bool" where
  "addrIsGlobalUnicast a =
     (let b = addrUnmap a in
      a \<noteq> NoAddr \<and> b \<noteq> Addr4 0 \<and> b \<noteq> Addr4 0xffffffff \<and> b \<noteq> Addr6 0 '''' \<and>
      \<not> addrIsLoopback b \<and> \<not> addrIsMulticast b \<and> \<not> addrIsLinkLocalUnicast b)"

text \<open>\<open>Addr.Compare\<close>: by length, by value, by zone.\<close>

fun addrValue :: "Addr \<Rightarrow> nat" where
  "addrValue NoAddr = 0"
| "addrValue (Addr4 w) = unat w"
| "addrValue (Addr6 w _) = unat w"

definition addrCompare :: "Addr \<Rightarrow> Addr \<Rightarrow> int" where
  "addrCompare a b = cmp_then (cmp_Compare (addrBitLen a) (addrBitLen b))
     (cmp_then (cmp_Compare (addrValue a) (addrValue b)) (cmp_Compare (addrZone a) (addrZone b)))"

section \<open>Prefixes\<close>

definition NoPrefix :: Prefix where
  "NoPrefix = Prefix NoAddr (-1)"

definition prefixFrom :: "Addr \<Rightarrow> int \<Rightarrow> Prefix" where
  "prefixFrom a b = Prefix (addrWithoutZone a)
     (if addrIsValid a \<and> 0 \<le> b \<and> b \<le> addrBitLen a then b else -1)"

text \<open>\<open>IsValid\<close>: the length is in the range of the address.\<close>

definition prefixIsValid :: "Prefix \<Rightarrow> bool" where
  "prefixIsValid p \<longleftrightarrow> addrIsValid (pfxAddr p) \<and> 0 \<le> pfxBits p \<and> pfxBits p \<le> addrBitLen (pfxAddr p)"

fun addrMask :: "Addr \<Rightarrow> int \<Rightarrow> Addr" where
  "addrMask NoAddr b = NoAddr"
| "addrMask (Addr4 w) b = Addr4 (push_bit (nat (32 - b)) (drop_bit (nat (32 - b)) w))"
| "addrMask (Addr6 w z) b = Addr6 (push_bit (nat (128 - b)) (drop_bit (nat (128 - b)) w)) z"

definition prefixMasked :: "Prefix \<Rightarrow> Prefix" where
  "prefixMasked p =
     (let a = pfxAddr p; b = pfxBits p in
      if b < 0 \<or> \<not> addrIsValid a \<or> addrBitLen a < b then NoPrefix
      else prefixFrom (addrMask a b) b)"

fun addrSharesPrefix :: "Addr \<Rightarrow> Addr \<Rightarrow> int \<Rightarrow> bool" where
  "addrSharesPrefix (Addr4 v) (Addr4 w) b = (drop_bit (nat (32 - b)) (w XOR v) = 0)"
| "addrSharesPrefix (Addr6 v _) (Addr6 w _) b = (drop_bit (nat (128 - b)) (w XOR v) = 0)"
| "addrSharesPrefix _ _ b = False"

definition prefixContains :: "Prefix \<Rightarrow> Addr \<Rightarrow> bool" where
  "prefixContains p a \<longleftrightarrow>
     prefixIsValid p \<and> addrZone a = '''' \<and> addrSharesPrefix (pfxAddr p) a (pfxBits p)"

text \<open>The prefixes that \<open>PrefixFrom\<close> and the parsers can make.\<close>

definition wf_prefix :: "Prefix \<Rightarrow> bool" where
  "wf_prefix p \<longleftrightarrow> addrZone (pfxAddr p) = '''' \<and>
     (pfxBits p = -1 \<or> addrIsValid (pfxAddr p) \<and> 0 \<le> pfxBits p \<and> pfxBits p \<le> addrBitLen (pfxAddr p))"

section \<open>Their laws\<close>

lemma addrIs4_iff: "addrIs4 a \<longleftrightarrow> (\<exists>w. a = Addr4 w)"
  by (cases a) auto

lemma addrIs6_iff: "addrIs6 a \<longleftrightarrow> (\<exists>w z. a = Addr6 w z)"
  by (cases a) auto

lemma addrIsValid_iff: "addrIsValid a \<longleftrightarrow> a \<noteq> NoAddr"
  by (cases a) auto

lemma not_4_and_6 [simp]: "\<not> (addrIs4 a \<and> addrIs6 a)"
  by (cases a) auto

lemma addrZone_withoutZone [simp]: "addrZone (addrWithoutZone a) = ''''"
  by (cases a) auto

lemma addrBitLen_simps [simp]:
  "addrBitLen (addrWithoutZone a) = addrBitLen a"
  "addrBitLen (addrMask a b) = addrBitLen a"
  by (cases a; simp)+

lemma addrIsValid_simps [simp]:
  "addrIsValid (addrWithoutZone a) = addrIsValid a"
  "addrIsValid (addrMask a b) = addrIsValid a"
  by (cases a; simp)+

lemma addrIs4_simps [simp]:
  "addrIs4 (addrWithoutZone a) = addrIs4 a"
  "addrIs4 (addrMask a b) = addrIs4 a"
  by (cases a; simp)+

lemma wf_prefixFrom [simp]: "wf_prefix (prefixFrom a b)"
  by (auto simp: wf_prefix_def prefixFrom_def)

lemma wf_NoPrefix [simp]: "wf_prefix NoPrefix"
  by (simp add: wf_prefix_def NoPrefix_def)

lemma wf_prefixMasked [simp]: "wf_prefix (prefixMasked p)"
  by (simp add: prefixMasked_def Let_def)

lemma lawful_addrCompare: "lawful_cmp (\<lambda>a b. addrCompare (f a) (f b))"
  unfolding addrCompare_def by (intro lawful_cmp_then lawful_cmp_Compare)

lemma addrCompare_eq_0: "addrCompare a b = 0 \<longleftrightarrow> a = b"
  by (cases a; cases b) (simp_all add: addrCompare_def word_unat_eq_iff)

text \<open>Masking clears the host bits: it is idempotent, and a masked prefix contains the same
  addresses as the prefix it comes from.\<close>

lemma drop_push_drop: "drop_bit n (push_bit n (drop_bit n w)) = drop_bit n (w :: 'a::len word)"
  by (rule bit_word_eqI) (auto simp: bit_simps dest: bit_imp_le_length)

lemma xor_zero_iff [simp]: "v XOR w = 0 \<longleftrightarrow> v = (w :: 'a::len word)"
  by (metis bit.xor_left_self bit.xor_self xor.right_neutral)

lemma addrMask_idem [simp]: "addrMask (addrMask a b) b = addrMask a b"
  by (cases a) (simp_all add: drop_push_drop)

lemma addrMask_withoutZone [simp]: "addrMask (addrWithoutZone a) b = addrWithoutZone (addrMask a b)"
  by (cases a) simp_all

lemma addrWithoutZone_idem [simp]: "addrWithoutZone (addrWithoutZone a) = addrWithoutZone a"
  by (cases a) simp_all

lemma pfxBits_masked:
  "wf_prefix p \<Longrightarrow> pfxBits (prefixMasked p) = pfxBits p"
  by (auto simp: wf_prefix_def prefixMasked_def prefixFrom_def NoPrefix_def Let_def)

lemma prefixMasked_idem: "prefixMasked (prefixMasked p) = prefixMasked p"
  by (auto simp: prefixMasked_def prefixFrom_def NoPrefix_def Let_def)

lemma addrSharesPrefix_masked:
  "addrSharesPrefix (addrWithoutZone (addrMask a b)) c b = addrSharesPrefix a c b"
  by (cases a; cases c) (simp_all add: drop_push_drop)

lemma prefixContains_masked:
  "wf_prefix p \<Longrightarrow> prefixContains (prefixMasked p) c = prefixContains p c"
  by (auto simp: wf_prefix_def prefixContains_def prefixIsValid_def prefixMasked_def prefixFrom_def
      NoPrefix_def Let_def addrSharesPrefix_masked)

text \<open>A prefix inside another one by \<open>Bits\<close> and \<open>Contains\<close> holds only addresses of the other.\<close>

lemma drop_bit_eq_mono:
  "drop_bit m v = drop_bit m (w :: 'a::len word) \<Longrightarrow> m \<le> n \<Longrightarrow> drop_bit n v = drop_bit n w"
  by (metis drop_bit_drop_bit le_add_diff_inverse2)

lemma drop_bit_eq_trans:
  assumes "drop_bit k v = drop_bit k (u :: 'a::len word)" and "drop_bit m w = drop_bit m v" and "m \<le> k"
  shows "drop_bit k w = drop_bit k u"
  using assms drop_bit_eq_mono by metis

lemma addrSharesPrefix_trans:
  assumes "addrSharesPrefix a b m" and "addrSharesPrefix b c n" and "m \<le> n"
  shows "addrSharesPrefix a c m"
proof (cases b)
  case (Addr4 v)
  with assms obtain u w where "a = Addr4 u" and "c = Addr4 w"
    by (cases a; cases c) simp_all
  then show ?thesis using assms Addr4 drop_bit_eq_trans [of "nat (32 - m)" v u "nat (32 - n)" w]
    by simp
next
  case (Addr6 v z)
  with assms obtain u y w x where "a = Addr6 u y" and "c = Addr6 w x"
    by (cases a; cases c) simp_all
  then show ?thesis using assms Addr6 drop_bit_eq_trans [of "nat (128 - m)" v u "nat (128 - n)" w]
    by simp
qed (use assms in \<open>cases a; simp\<close>)

lemma prefixContains_sub:
  assumes "prefixContains p (pfxAddr q)" and "pfxBits p \<le> pfxBits q" and "prefixContains q c"
  shows "prefixContains p c"
  using assms addrSharesPrefix_trans unfolding prefixContains_def by blast

end
