(* ===== verification/Strconv.thy ===== *)
theory Strconv
  imports Prelude
begin

text \<open>
  What the sources use of Go's \<open>strconv\<close> and of the integer verbs of \<open>fmt\<close>: decimal and
  hexadecimal formatting, \<open>Itoa\<close>, and \<open>ParseUint\<close> in base 10 with its size in bits. Formatting
  and parsing are inverse to each other.
\<close>

definition digit_char :: "nat \<Rightarrow> char" where
  "digit_char d = (if d < 10 then char_of (48 + d) else char_of (87 + d))"

fun format_nat :: "nat \<Rightarrow> nat \<Rightarrow> string" where
  "format_nat base n =
     (if base < 2 \<or> n < base then [digit_char n]
      else format_nat base (n div base) @ [digit_char (n mod base)])"

declare format_nat.simps [simp del]

definition itoa :: "int \<Rightarrow> string" where
  "itoa i = (if i < 0 then CHR ''-'' # format_nat 10 (nat (- i)) else format_nat 10 (nat i))"

definition ErrSyntax :: goError where "ErrSyntax = ErrorsNew ''invalid syntax''"
definition ErrRange :: goError where "ErrRange = ErrorsNew ''value out of range''"

definition is_digit :: "char \<Rightarrow> bool" where
  "is_digit c \<longleftrightarrow> CHR ''0'' \<le> c \<and> c \<le> CHR ''9''"

definition digit_val :: "char \<Rightarrow> nat" where
  "digit_val c = of_char c - 48"

text \<open>The loop of \<open>ParseUint\<close> over the digits, with the value so far.\<close>

fun parse_digits :: "nat \<Rightarrow> nat \<Rightarrow> string \<Rightarrow> goError + nat" where
  "parse_digits lim n [] = Inr n"
| "parse_digits lim n (c # cs) =
     (if \<not> is_digit c then Inl ErrSyntax
      else let m = 10 * n + digit_val c in
        if lim < m then Inl ErrRange else parse_digits lim m cs)"

definition parseUint :: "nat \<Rightarrow> string \<Rightarrow> goError + nat" where
  "parseUint bits s = (if s = [] then Inl ErrSyntax else parse_digits (2 ^ bits - 1) 0 s)"

section \<open>Parsing what was formatted\<close>

lemma is_digit_iff: "is_digit c \<longleftrightarrow> 48 \<le> (of_char c :: nat) \<and> (of_char c :: nat) \<le> 57"
  by (simp add: is_digit_def less_eq_char_def)

lemma of_char_digit_char: "d < 10 \<Longrightarrow> of_char (digit_char d) = 48 + d"
  by (simp add: digit_char_def)

lemma digit_char_simps [simp]:
  assumes "d < 10"
  shows "is_digit (digit_char d)" and "digit_val (digit_char d) = d"
  using of_char_digit_char [OF assms] assms by (simp_all add: is_digit_iff digit_val_def)

lemma parse_digits_append:
  "parse_digits lim n (xs @ ys) =
     (case parse_digits lim n xs of Inl e \<Rightarrow> Inl e | Inr m \<Rightarrow> parse_digits lim m ys)"
  by (induction xs arbitrary: n) (auto simp: Let_def)

lemma format_nat_nonempty [simp]: "format_nat base n \<noteq> []"
  by (subst format_nat.simps) simp

lemma parse_format_nat: "n \<le> lim \<Longrightarrow> parse_digits lim 0 (format_nat 10 n) = Inr n"
proof (induction n rule: less_induct)
  case (less n)
  show ?case
  proof (cases "n < 10")
    case True
    with less.prems show ?thesis by (simp add: format_nat.simps [of 10 n] Let_def)
  next
    case False
    moreover have "10 * (n div 10) + n mod 10 = n" by simp
    ultimately show ?thesis using less
      by (simp add: format_nat.simps [of 10 n] parse_digits_append Let_def)
  qed
qed

lemma parseUint_format: "n < 2 ^ bits \<Longrightarrow> parseUint bits (format_nat 10 n) = Inr n"
  by (simp add: parseUint_def parse_format_nat)

lemma parse_digits_bound: "parse_digits lim n s = Inr m \<Longrightarrow> n \<le> lim \<Longrightarrow> m \<le> lim"
  by (induction s arbitrary: n) (auto simp: Let_def split: if_splits)

lemma parseUint_bound:
  assumes "parseUint bits s = Inr n"
  shows "n < 2 ^ bits"
proof -
  from assms have "n \<le> 2 ^ bits - 1"
    by (auto simp: parseUint_def dest!: parse_digits_bound split: if_splits)
  then show ?thesis using zero_less_power [of "2::nat" bits] by linarith
qed

lemma parseUint_digits: "parseUint bits s = Inr n \<Longrightarrow> s \<noteq> [] \<and> (\<forall>c \<in> set s. is_digit c)"
proof -
  have "parse_digits lim m s = Inr n \<Longrightarrow> \<forall>c \<in> set s. is_digit c" for lim m
    by (induction s arbitrary: m) (auto simp: Let_def split: if_splits)
  then show "parseUint bits s = Inr n \<Longrightarrow> ?thesis" by (auto simp: parseUint_def split: if_splits)
qed

end
