(* ===== verification/Routing_Config.thy ===== *)
theory Routing_Config
  imports Netip Strconv
begin

text \<open>
  The data model of \<open>routing/model.go\<close> and the configuration of \<open>routing/config.go\<close> with its
  validation: which configurations a manager accepts, and what the accepted ones guarantee (table
  numbers that are free, disjoint mark selectors, normalized source routes). Nil and empty slices
  are both the empty list.
\<close>

section \<open>Constants of the Linux headers\<close>

abbreviation AF_INET :: int where "AF_INET \<equiv> 2"
abbreviation AF_INET6 :: int where "AF_INET6 \<equiv> 10"
abbreviation RT_TABLE_DEFAULT :: int where "RT_TABLE_DEFAULT \<equiv> 253"
abbreviation RT_TABLE_MAIN :: int where "RT_TABLE_MAIN \<equiv> 254"
abbreviation RT_TABLE_LOCAL :: int where "RT_TABLE_LOCAL \<equiv> 255"
abbreviation RTNH_F_PERVASIVE :: int where "RTNH_F_PERVASIVE \<equiv> 2"
abbreviation RTNH_F_ONLINK :: int where "RTNH_F_ONLINK \<equiv> 4"

section \<open>Rules and routes\<close>

datatype RuleAction = RuleLookup | RuleUnreachable

record Rule =
  rule_Family :: int
  rule_Priority :: int
  rule_Action :: RuleAction
  rule_Table :: int
  rule_Mark :: u32
  rule_Mask :: u32

datatype RouteType = RouteTypeUnicast | RouteTypeUnsupported

record Nexthop =
  hop_LinkIndex :: int
  hop_Gateway :: Addr
  hop_Flags :: int

record Route =
  route_Family :: int
  route_Table :: int
  route_Dst :: Prefix
  route_Gateway :: Addr
  route_PreferredSource :: Addr
  route_LinkIndex :: int
  route_Priority :: int
  route_Scope :: int
  route_Flags :: int
  route_Type :: RouteType
  route_Multipath :: "Nexthop list"

record SourceRoute =
  sr_Destination :: Prefix
  sr_Source :: Addr

record Snapshot =
  snap_MainRoutes :: "Route list"

record FamilySet =
  fam_IPv4 :: bool
  fam_IPv6 :: bool

definition BothFamilies :: FamilySet where
  "BothFamilies = \<lparr>fam_IPv4 = True, fam_IPv6 = True\<rparr>"

section \<open>Configuration\<close>

definition DefaultAppBypassMark :: u32 where "DefaultAppBypassMark = 0xeb9f0001"
definition DefaultMarkMask :: u32 where "DefaultMarkMask = 0xffffffff"
abbreviation DefaultPrioritySpan :: int where "DefaultPrioritySpan \<equiv> 32"
abbreviation DefaultPriorityBase :: int where "DefaultPriorityBase \<equiv> 10000"
abbreviation DefaultVPNTable :: int where "DefaultVPNTable \<equiv> 51820"
abbreviation DefaultSafeTable :: int where "DefaultSafeTable \<equiv> 51821"
abbreviation firstKernelBuiltinPriority :: int where "firstKernelBuiltinPriority \<equiv> 32766"

abbreviation ruleOffsetAppMain :: int where "ruleOffsetAppMain \<equiv> 0"
abbreviation ruleOffsetAppUnreachable :: int where "ruleOffsetAppUnreachable \<equiv> 1"
abbreviation ruleOffsetTransitionGuard :: int where "ruleOffsetTransitionGuard \<equiv> 2"
abbreviation ruleOffsetUserFirst :: int where "ruleOffsetUserFirst \<equiv> 3"

text \<open>\<open>Mode\<close> and \<open>Strictness\<close> are integers in Go: a caller may pass a value that is no constant,
  which \<open>validate\<close> refuses.\<close>

type_synonym Mode = int
type_synonym Strictness = int

abbreviation ModeExclude :: Mode where "ModeExclude \<equiv> 0"
abbreviation ModeInclude :: Mode where "ModeInclude \<equiv> 1"
abbreviation Strict :: Strictness where "Strict \<equiv> 0"
abbreviation NonStrict :: Strictness where "NonStrict \<equiv> 1"

definition mode_String :: "Mode \<Rightarrow> string" where
  "mode_String m = (if m = ModeExclude then ''exclude'' else if m = ModeInclude then ''include''
     else ''Mode('' @ itoa m @ '')'')"

definition strictness_String :: "Strictness \<Rightarrow> string" where
  "strictness_String s = (if s = Strict then ''strict'' else if s = NonStrict then ''non-strict''
     else ''Strictness('' @ itoa s @ '')'')"

record Config =
  cfg_TUNIndex :: int
  cfg_SourceRoutes :: "SourceRoute list"
  cfg_VPNTable :: int
  cfg_SafeTable :: int
  cfg_PriorityBase :: int
  cfg_PrioritySpan :: int
  cfg_AppBypassMark :: u32
  cfg_AppBypassMask :: u32
  cfg_UserMark :: u32
  cfg_UserMarkMask :: u32
  cfg_Mode :: Mode
  cfg_Strictness :: Strictness
  cfg_Families :: FamilySet
  cfg_TunnelFamilies :: FamilySet

record DesiredState =
  ds_Config :: Config
  ds_Rules :: "Rule list"
  ds_VPNRoutes :: "Route list"
  ds_SafeRoutes :: "Route list"

definition DefaultConfig :: Config where
  "DefaultConfig =
     \<lparr>cfg_TUNIndex = 0, cfg_SourceRoutes = [], cfg_VPNTable = DefaultVPNTable,
      cfg_SafeTable = DefaultSafeTable, cfg_PriorityBase = DefaultPriorityBase,
      cfg_PrioritySpan = DefaultPrioritySpan, cfg_AppBypassMark = DefaultAppBypassMark,
      cfg_AppBypassMask = DefaultMarkMask, cfg_UserMark = 0, cfg_UserMarkMask = DefaultMarkMask,
      cfg_Mode = ModeExclude, cfg_Strictness = Strict, cfg_Families = BothFamilies,
      cfg_TunnelFamilies = \<lparr>fam_IPv4 = False, fam_IPv6 = False\<rparr>\<rparr>"

section \<open>Validation\<close>

definition ErrInvalidConfig :: goError where
  "ErrInvalidConfig = ErrorsNew ''routing: invalid config''"

definition ErrTUNLinkNotFound :: goError where
  "ErrTUNLinkNotFound = ErrorsNew ''routing: TUN link not found''"

definition invalid :: "string \<Rightarrow> goArg list \<Rightarrow> goError option" where
  "invalid fmt args = Some (Errorf fmt args [ErrInvalidConfig])"

definition reservedRouteTable :: "int \<Rightarrow> bool" where
  "reservedRouteTable t \<longleftrightarrow>
     t = 0 \<or> t = RT_TABLE_MAIN \<or> t = RT_TABLE_LOCAL \<or> t = RT_TABLE_DEFAULT \<or> t < 0"

definition marksOverlap :: "u32 \<Rightarrow> u32 \<Rightarrow> u32 \<Rightarrow> u32 \<Rightarrow> bool" where
  "marksOverlap aValue aMask bValue bMask =
     (let common = aMask AND bMask in aValue AND common = bValue AND common)"

definition familyConstants :: "FamilySet \<Rightarrow> int list" where
  "familyConstants f =
     (if fam_IPv4 f then [AF_INET] else []) @ (if fam_IPv6 f then [AF_INET6] else [])"

definition familyDefaultPrefix :: "int \<Rightarrow> Prefix" where
  "familyDefaultPrefix family =
     (if family = AF_INET6 then Prefix (Addr6 0 '''') 0 else Prefix (Addr4 0) 0)"

definition familyEnabled :: "FamilySet \<Rightarrow> int \<Rightarrow> bool" where
  "familyEnabled fs family \<longleftrightarrow>
     family = AF_INET \<and> fam_IPv4 fs \<or> family = AF_INET6 \<and> fam_IPv6 fs"

definition effectiveTunnelFamilies :: "Config \<Rightarrow> FamilySet" where
  "effectiveTunnelFamilies c =
     (if \<not> fam_IPv4 (cfg_TunnelFamilies c) \<and> \<not> fam_IPv6 (cfg_TunnelFamilies c)
      then cfg_Families c else cfg_TunnelFamilies c)"

definition validPreferredSource :: "Addr \<Rightarrow> bool" where
  "validPreferredSource a \<longleftrightarrow>
     addrIsValid a \<and> \<not> addrIs4In6 a \<and> \<not> addrIsUnspecified a \<and> \<not> addrIsMulticast a \<and>
     \<not> addrIsLoopback a \<and> addrZone a = '''' \<and> (addrIsGlobalUnicast a \<or> addrIsLinkLocalUnicast a)"

text \<open>The loop over the source routes, with the destinations seen so far. The two errors for a
  destination that was seen differ only in their text; the prefix they print is left out.\<close>

fun validateSourceRoutes ::
    "FamilySet \<Rightarrow> int \<Rightarrow> (Prefix \<times> Addr) list \<Rightarrow> SourceRoute list \<Rightarrow> goError option" where
  "validateSourceRoutes tunnel i seen [] = None"
| "validateSourceRoutes tunnel i seen (r # rs) =
     (let dst = sr_Destination r; src = sr_Source r;
          family = (if addrIs4 src then AF_INET else AF_INET6)
      in if \<not> prefixIsValid dst \<or> addrIs4In6 (pfxAddr dst) then
           invalid ''%w: source route %d has an invalid destination prefix'' [AInt i]
         else if prefixMasked dst \<noteq> dst then
           invalid ''%w: source route %d destination is not masked'' [AInt i]
         else if \<not> validPreferredSource src then
           invalid ''%w: source route %d has an invalid source address'' [AInt i]
         else if addrIs4 (pfxAddr dst) \<noteq> addrIs4 src then
           invalid ''%w: source route %d uses different address families'' [AInt i]
         else if \<not> familyEnabled tunnel family then
           invalid ''%w: source route %d uses a family not carried by the TUN'' [AInt i]
         else (case map_of seen dst of
             Some source \<Rightarrow>
               (if source \<noteq> src then
                  invalid ''%w: source route destination %s has conflicting sources'' []
                else invalid ''%w: duplicate source route destination %s'' [])
           | None \<Rightarrow> validateSourceRoutes tunnel (i + 1) ((dst, src) # seen) rs))"

definition validate :: "Config \<Rightarrow> goError option" where
  "validate c =
     (if cfg_TUNIndex c \<le> 0 then
        invalid ''%w: TUN interface index must be positive'' []
      else if reservedRouteTable (cfg_VPNTable c) then
        invalid ''%w: VPN table %d is reserved'' [AInt (cfg_VPNTable c)]
      else if reservedRouteTable (cfg_SafeTable c) then
        invalid ''%w: safe table %d is reserved'' [AInt (cfg_SafeTable c)]
      else if cfg_VPNTable c = cfg_SafeTable c then
        invalid ''%w: VPN and safe tables must differ'' []
      else if cfg_PriorityBase c \<le> 0 then
        invalid ''%w: priority base must be above kernel priority 0'' []
      else if cfg_PrioritySpan c < DefaultPrioritySpan then
        invalid ''%w: priority span %d is smaller than %d''
          [AInt (cfg_PrioritySpan c), AInt DefaultPrioritySpan]
      else if go_int (cfg_PriorityBase c + cfg_PrioritySpan c) > firstKernelBuiltinPriority then
        invalid ''%w: priority range overlaps kernel built-in rules'' []
      else if cfg_AppBypassMask c = 0 then
        invalid ''%w: app bypass mark mask must be non-zero'' []
      else if cfg_UserMarkMask c = 0 then
        invalid ''%w: user mark mask must be non-zero'' []
      else if marksOverlap (cfg_AppBypassMark c) (cfg_AppBypassMask c)
                (cfg_UserMark c) (cfg_UserMarkMask c) then
        invalid ''%w: app bypass and user mark selectors overlap'' []
      else if cfg_Mode c \<noteq> ModeExclude \<and> cfg_Mode c \<noteq> ModeInclude then
        invalid ''%w: unsupported mode %s'' [AStr (mode_String (cfg_Mode c))]
      else if cfg_Strictness c \<noteq> Strict \<and> cfg_Strictness c \<noteq> NonStrict then
        invalid ''%w: unsupported strictness %s'' [AStr (strictness_String (cfg_Strictness c))]
      else if \<not> fam_IPv4 (cfg_Families c) \<and> \<not> fam_IPv6 (cfg_Families c) then
        invalid ''%w: at least one IP family must be enabled'' []
      else if fam_IPv4 (cfg_TunnelFamilies c) \<and> \<not> fam_IPv4 (cfg_Families c) \<or>
              fam_IPv6 (cfg_TunnelFamilies c) \<and> \<not> fam_IPv6 (cfg_Families c) then
        invalid ''%w: tunnel families must be covered by policy families'' []
      else validateSourceRoutes (effectiveTunnelFamilies c) 0 [] (cfg_SourceRoutes c))"

definition ValidateConfig :: "Config \<Rightarrow> goError option" where
  "ValidateConfig c = validate c"

definition cloneConfig :: "Config \<Rightarrow> Config" where
  "cloneConfig c = c\<lparr>cfg_SourceRoutes := cfg_SourceRoutes c\<rparr>"

section \<open>What validation guarantees\<close>

lemma invalid_not_None [simp]: "invalid fmt args \<noteq> None" "\<exists>e. invalid fmt args = Some e"
  by (simp_all add: invalid_def)

lemma cloneConfig_eq [simp]: "cloneConfig c = c"
  by (simp add: cloneConfig_def)

lemma set_familyConstants: "family \<in> set (familyConstants fs) \<longleftrightarrow> familyEnabled fs family"
  by (auto simp: familyConstants_def familyEnabled_def)

lemma distinct_familyConstants [simp]: "distinct (familyConstants fs)"
  by (simp add: familyConstants_def)

lemma familyEnabled_cases: "familyEnabled fs family \<Longrightarrow> family = AF_INET \<or> family = AF_INET6"
  by (auto simp: familyEnabled_def)

lemma effectiveTunnelFamilies_sub:
  assumes "fam_IPv4 (cfg_TunnelFamilies c) \<longrightarrow> fam_IPv4 (cfg_Families c)"
    and "fam_IPv6 (cfg_TunnelFamilies c) \<longrightarrow> fam_IPv6 (cfg_Families c)"
    and "familyEnabled (effectiveTunnelFamilies c) family"
  shows "familyEnabled (cfg_Families c) family"
  using assms by (auto simp: familyEnabled_def effectiveTunnelFamilies_def split: if_splits)

text \<open>Two selectors overlap exactly when some mark is matched by both.\<close>

lemma marksOverlap_common:
  "marksOverlap a am b bm \<longleftrightarrow> (\<exists>m. m AND am = a AND am \<and> m AND bm = b AND bm)"
proof
  assume "marksOverlap a am b bm"
  then have *: "bit am n \<Longrightarrow> bit bm n \<Longrightarrow> bit a n = bit b n" for n
    unfolding marksOverlap_def Let_def by (metis bit_and_iff)
  let ?m = "(a AND am) OR (b AND (bm AND NOT am))"
  have "?m AND am = a AND am" and "?m AND bm = b AND bm"
    by (rule bit_word_eqI; use * in \<open>auto simp: bit_simps\<close>)+
  then show "\<exists>m. m AND am = a AND am \<and> m AND bm = b AND bm" by blast
next
  assume "\<exists>m. m AND am = a AND am \<and> m AND bm = b AND bm"
  then obtain m where a: "m AND am = a AND am" and b: "m AND bm = b AND bm" by blast
  have "a AND (am AND bm) = m AND am AND bm" by (simp add: a flip: and.assoc)
  also have "\<dots> = b AND (am AND bm)"
    by (metis (no_types) b and.assoc and.commute)
  finally show "marksOverlap a am b bm" by (simp add: marksOverlap_def Let_def)
qed

text \<open>What one source route must satisfy, as a specification.\<close>

definition source_route_ok :: "FamilySet \<Rightarrow> SourceRoute \<Rightarrow> bool" where
  "source_route_ok tunnel r \<longleftrightarrow>
     prefixIsValid (sr_Destination r) \<and> \<not> addrIs4In6 (pfxAddr (sr_Destination r)) \<and>
     prefixMasked (sr_Destination r) = sr_Destination r \<and> validPreferredSource (sr_Source r) \<and>
     addrIs4 (pfxAddr (sr_Destination r)) = addrIs4 (sr_Source r) \<and>
     familyEnabled tunnel (if addrIs4 (sr_Source r) then AF_INET else AF_INET6)"

lemma validateSourceRoutes_None:
  "validateSourceRoutes tunnel i seen rs = None \<longleftrightarrow>
     (\<forall>r \<in> set rs. source_route_ok tunnel r) \<and> distinct (map sr_Destination rs) \<and>
     sr_Destination ` set rs \<inter> fst ` set seen = {}"
proof (induction rs arbitrary: i seen)
  case (Cons r rs)
  show ?case
  proof (cases "source_route_ok tunnel r")
    case ok: True
    then have *: "validateSourceRoutes tunnel i seen (r # rs) = None \<longleftrightarrow>
        map_of seen (sr_Destination r) = None \<and>
        validateSourceRoutes tunnel (i + 1) ((sr_Destination r, sr_Source r) # seen) rs = None"
      unfolding source_route_ok_def by (simp add: Let_def invalid_def split: option.split)
    show ?thesis unfolding * Cons.IH using ok by (auto simp: map_of_eq_None_iff)
  next
    case False
    then have "validateSourceRoutes tunnel i seen (r # rs) \<noteq> None"
      unfolding source_route_ok_def validateSourceRoutes.simps Let_def de_Morgan_conj
      by (elim disjE) simp_all
    with False show ?thesis by simp
  qed
qed simp

definition valid_config :: "Config \<Rightarrow> bool" where
  "valid_config c \<longleftrightarrow>
     0 < cfg_TUNIndex c \<and> \<not> reservedRouteTable (cfg_VPNTable c) \<and>
     \<not> reservedRouteTable (cfg_SafeTable c) \<and> cfg_VPNTable c \<noteq> cfg_SafeTable c \<and>
     0 < cfg_PriorityBase c \<and> DefaultPrioritySpan \<le> cfg_PrioritySpan c \<and>
     go_int (cfg_PriorityBase c + cfg_PrioritySpan c) \<le> firstKernelBuiltinPriority \<and>
     cfg_AppBypassMask c \<noteq> 0 \<and> cfg_UserMarkMask c \<noteq> 0 \<and>
     (\<nexists>m. m AND cfg_AppBypassMask c = cfg_AppBypassMark c AND cfg_AppBypassMask c \<and>
          m AND cfg_UserMarkMask c = cfg_UserMark c AND cfg_UserMarkMask c) \<and>
     cfg_Mode c \<in> {ModeExclude, ModeInclude} \<and> cfg_Strictness c \<in> {Strict, NonStrict} \<and>
     (fam_IPv4 (cfg_Families c) \<or> fam_IPv6 (cfg_Families c)) \<and>
     (fam_IPv4 (cfg_TunnelFamilies c) \<longrightarrow> fam_IPv4 (cfg_Families c)) \<and>
     (fam_IPv6 (cfg_TunnelFamilies c) \<longrightarrow> fam_IPv6 (cfg_Families c)) \<and>
     (\<forall>r \<in> set (cfg_SourceRoutes c). source_route_ok (effectiveTunnelFamilies c) r) \<and>
     distinct (map sr_Destination (cfg_SourceRoutes c))"

lemma validate_None_iff: "validate c = None \<longleftrightarrow> valid_config c"
  unfolding validate_def valid_config_def
  by (simp add: validateSourceRoutes_None not_le linorder_not_less flip: marksOverlap_common)

lemma validate_is_invalid: "validate c = Some e \<Longrightarrow> errors_is e ErrInvalidConfig"
proof -
  have inv: "invalid f as = Some e \<Longrightarrow> errors_is e ErrInvalidConfig" for f as
    by (auto simp: invalid_def ErrInvalidConfig_def)
  have "validateSourceRoutes t i seen rs = Some e \<Longrightarrow> errors_is e ErrInvalidConfig" for t i seen rs
    by (induction rs arbitrary: i seen)
      (auto simp: Let_def intro: inv split: if_splits option.splits)
  then show "validate c = Some e \<Longrightarrow> ?thesis"
    unfolding validate_def by (auto intro: inv split: if_splits)
qed

text \<open>A configuration whose priority block does not run past the range of \<open>int\<close>.\<close>

definition no_priority_overflow :: "Config \<Rightarrow> bool" where
  "no_priority_overflow c \<longleftrightarrow> cfg_PriorityBase c + cfg_PrioritySpan c < 2 ^ 63"

lemma valid_configD:
  assumes "valid_config c"
  shows "0 < cfg_TUNIndex c" "\<not> reservedRouteTable (cfg_VPNTable c)"
    "\<not> reservedRouteTable (cfg_SafeTable c)" "cfg_VPNTable c \<noteq> cfg_SafeTable c"
    "0 < cfg_PriorityBase c" "DefaultPrioritySpan \<le> cfg_PrioritySpan c"
    "cfg_Mode c = ModeExclude \<or> cfg_Mode c = ModeInclude"
    "cfg_Strictness c = Strict \<or> cfg_Strictness c = NonStrict"
    "\<And>f. familyEnabled (effectiveTunnelFamilies c) f \<Longrightarrow> familyEnabled (cfg_Families c) f"
    "familyConstants (cfg_Families c) \<noteq> []"
    "\<And>r. r \<in> set (cfg_SourceRoutes c) \<Longrightarrow> source_route_ok (effectiveTunnelFamilies c) r"
    "distinct (map sr_Destination (cfg_SourceRoutes c))"
  using assms effectiveTunnelFamilies_sub [of c]
  unfolding valid_config_def by (auto simp: familyConstants_def)

lemma valid_config_priorities:
  assumes "valid_config c" and "no_priority_overflow c"
  shows "cfg_PriorityBase c + cfg_PrioritySpan c \<le> firstKernelBuiltinPriority"
    and "0 \<le> i \<Longrightarrow> i < cfg_PrioritySpan c \<Longrightarrow> go_int (cfg_PriorityBase c + i) = cfg_PriorityBase c + i"
    and "go_int (cfg_PriorityBase c + cfg_PrioritySpan c) = cfg_PriorityBase c + cfg_PrioritySpan c"
  using assms unfolding valid_config_def no_priority_overflow_def
  by (auto simp: go_int_id is_go_int_def)

end
