(* ===== verification/Routing_Safe.thy ===== *)
theory Routing_Safe
  imports Routing_Config
begin

text \<open>
  The classifier of \<open>routing/safe.go\<close>: which routes of the main table may be replayed into the
  safe table, where they are used before the VPN. A route that is classified as safe is never a
  default route, never leaves through the TUN, and uses a gateway only towards private or
  link-local destinations; this holds for each nexthop of a multipath route.
\<close>

datatype SafeClassification = RouteIgnored | RouteSafe | RouteUnsafe

definition safeDestinationPrefixes :: "Addr \<Rightarrow> Prefix list" where
  "safeDestinationPrefixes addr =
     (if addrIs4 addr then
        [Prefix (Addr4 0x0a000000) 8, Prefix (Addr4 0xac100000) 12,
         Prefix (Addr4 0xc0a80000) 16, Prefix (Addr4 0xa9fe0000) 16]
      else
        [Prefix (Addr6 0xfc000000000000000000000000000000 '''') 7,
         Prefix (Addr6 0xfe800000000000000000000000000000 '''') 10])"

definition privateOrLocalPrefix :: "Prefix \<Rightarrow> bool" where
  "privateOrLocalPrefix prefix \<longleftrightarrow>
     prefixIsValid prefix \<and>
     list_ex (\<lambda>allowed. pfxBits allowed \<le> pfxBits prefix \<and> prefixContains allowed (pfxAddr prefix))
       (safeDestinationPrefixes (pfxAddr prefix))"

text \<open>\<open>ClassifySafeRoute\<close> calls itself on each nexthop, with the multipath list removed.\<close>

function (sequential) ClassifySafeRoute :: "Route \<Rightarrow> int \<Rightarrow> SafeClassification" where
  "ClassifySafeRoute route tunIndex =
     (if route_Type route \<noteq> RouteTypeUnicast then RouteIgnored
      else if \<not> prefixIsValid (route_Dst route) then RouteIgnored
      else if pfxBits (route_Dst route) = 0 then RouteUnsafe
      else if route_LinkIndex route = tunIndex then RouteUnsafe
      else if route_Multipath route \<noteq> [] then
        (if list_all (\<lambda>hop. ClassifySafeRoute
               (route\<lparr>route_LinkIndex := hop_LinkIndex hop, route_Gateway := hop_Gateway hop,
                      route_Multipath := []\<rparr>) tunIndex = RouteSafe) (route_Multipath route)
         then RouteSafe else RouteUnsafe)
      else if addrIsValid (route_Gateway route) \<and> \<not> privateOrLocalPrefix (route_Dst route)
        then RouteUnsafe
      else RouteSafe)"
  by pat_completeness auto
termination
  by (relation "measure (\<lambda>(route, _). length (route_Multipath route))") auto

declare ClassifySafeRoute.simps [simp del]

section \<open>What a safe route is\<close>

text \<open>The ways a packet may leave through a route: its own link and gateway, or its nexthops'.\<close>

definition route_hops :: "Route \<Rightarrow> (int \<times> Addr) list" where
  "route_hops r =
     (if route_Multipath r = [] then [(route_LinkIndex r, route_Gateway r)]
      else map (\<lambda>h. (hop_LinkIndex h, hop_Gateway h)) (route_Multipath r))"

definition hop_safe :: "Prefix \<Rightarrow> int \<Rightarrow> int \<times> Addr \<Rightarrow> bool" where
  "hop_safe dst tunIndex h \<longleftrightarrow>
     fst h \<noteq> tunIndex \<and> (addrIsValid (snd h) \<longrightarrow> privateOrLocalPrefix dst)"

lemma Classify_single:
  "route_Multipath route = [] \<Longrightarrow> ClassifySafeRoute route tunIndex =
     (if route_Type route \<noteq> RouteTypeUnicast \<or> \<not> prefixIsValid (route_Dst route) then RouteIgnored
      else if pfxBits (route_Dst route) \<noteq> 0 \<and>
          hop_safe (route_Dst route) tunIndex (route_LinkIndex route, route_Gateway route)
        then RouteSafe else RouteUnsafe)"
  by (subst ClassifySafeRoute.simps) (auto simp: hop_safe_def)

lemma Classify_safe_iff:
  "ClassifySafeRoute route tunIndex = RouteSafe \<longleftrightarrow>
     route_Type route = RouteTypeUnicast \<and> prefixIsValid (route_Dst route) \<and>
     0 < pfxBits (route_Dst route) \<and> route_LinkIndex route \<noteq> tunIndex \<and>
     (\<forall>h \<in> set (route_hops route). hop_safe (route_Dst route) tunIndex h)"
proof (cases "route_Multipath route = []")
  case True
  have "prefixIsValid (route_Dst route) \<Longrightarrow> 0 \<le> pfxBits (route_Dst route)" by (simp add: prefixIsValid_def)
  with True show ?thesis
    by (auto simp: Classify_single route_hops_def hop_safe_def)
next
  case False
  have "prefixIsValid (route_Dst route) \<Longrightarrow> 0 \<le> pfxBits (route_Dst route)" by (simp add: prefixIsValid_def)
  with False show ?thesis
    by (subst ClassifySafeRoute.simps) (auto simp: Classify_single route_hops_def list_all_iff)
qed

text \<open>Everything inside a private or link-local prefix is a private or link-local address.\<close>

lemma privateOrLocal_contains:
  assumes "privateOrLocalPrefix p" and "prefixContains p a"
  shows "\<exists>allowed \<in> set (safeDestinationPrefixes (pfxAddr p)). prefixContains allowed a"
  using assms prefixContains_sub unfolding privateOrLocalPrefix_def list_ex_iff by blast

end
