(* ===== verification/Routing_Compiler.thy ===== *)
theory Routing_Compiler
  imports Routing_Safe
begin

text \<open>
  The compiler of \<open>routing/compiler.go\<close>: from a validated configuration and a snapshot of the main
  table to policy rules, VPN routes and safe routes. The rules are given a meaning by
  \<open>policy_lookup\<close>, the documented evaluation of Linux policy rules, and the lemmas show what each
  mode does with a packet: nothing but the VPN or a drop in the strict modes, main or a drop for
  the marked transport sockets of the VPN itself, and so on.
\<close>

section \<open>Rules\<close>

definition markRule :: "int \<Rightarrow> int \<Rightarrow> RuleAction \<Rightarrow> int \<Rightarrow> u32 \<Rightarrow> u32 \<Rightarrow> Rule" where
  "markRule family priority action table mark msk =
     \<lparr>rule_Family = family, rule_Priority = priority, rule_Action = action, rule_Table = table,
      rule_Mark = mark, rule_Mask = msk\<rparr>"

text \<open>The closure \<open>add\<close>: each rule takes the next priority.\<close>

fun addRules :: "int \<Rightarrow> Rule list \<Rightarrow> Rule list" where
  "addRules nextPriority [] = []"
| "addRules nextPriority (r # rs) =
     r\<lparr>rule_Priority := nextPriority\<rparr> # addRules (go_int (nextPriority + 1)) rs"

definition allRule :: "int \<Rightarrow> RuleAction \<Rightarrow> int \<Rightarrow> Rule" where
  "allRule family action table = markRule family 0 action table 0 0"

definition userRule :: "Config \<Rightarrow> int \<Rightarrow> RuleAction \<Rightarrow> int \<Rightarrow> Rule" where
  "userRule c family action table =
     markRule family 0 action table (cfg_UserMark c) (cfg_UserMarkMask c)"

definition modeRules :: "Config \<Rightarrow> int \<Rightarrow> Rule list" where
  "modeRules c family =
     (let all = allRule family; user = userRule c family in
      if cfg_Mode c = ModeExclude \<and> cfg_Strictness c = Strict then
        [user RuleUnreachable 0,
         all RuleLookup (cfg_VPNTable c),
         all RuleUnreachable 0]
      else if cfg_Mode c = ModeExclude \<and> cfg_Strictness c = NonStrict then
        [user RuleLookup RT_TABLE_MAIN,
         user RuleUnreachable 0,
         all RuleLookup (cfg_SafeTable c),
         all RuleLookup (cfg_VPNTable c),
         all RuleUnreachable 0]
      else if cfg_Mode c = ModeInclude \<and> cfg_Strictness c = Strict then
        [user RuleLookup (cfg_VPNTable c),
         user RuleUnreachable 0,
         all RuleUnreachable 0]
      else if cfg_Mode c = ModeInclude \<and> cfg_Strictness c = NonStrict then
        [all RuleLookup (cfg_SafeTable c),
         user RuleLookup (cfg_VPNTable c),
         user RuleUnreachable 0,
         all RuleLookup RT_TABLE_MAIN]
      else [])"

definition compileRules :: "Config \<Rightarrow> int \<Rightarrow> Rule list" where
  "compileRules c family =
     [markRule family (go_int (cfg_PriorityBase c + ruleOffsetAppMain)) RuleLookup RT_TABLE_MAIN
        (cfg_AppBypassMark c) (cfg_AppBypassMask c),
      markRule family (go_int (cfg_PriorityBase c + ruleOffsetAppUnreachable)) RuleUnreachable 0
        (cfg_AppBypassMark c) (cfg_AppBypassMask c)] @
     addRules (go_int (cfg_PriorityBase c + ruleOffsetUserFirst))
       (if \<not> familyEnabled (effectiveTunnelFamilies c) family
        then [allRule family RuleUnreachable 0]
        else modeRules c family)"

definition transitionGuard :: "Config \<Rightarrow> int \<Rightarrow> Rule" where
  "transitionGuard c family =
     markRule family (go_int (cfg_PriorityBase c + ruleOffsetTransitionGuard)) RuleUnreachable 0 0 0"

definition TransitionGuardRules :: "Config \<Rightarrow> goError + Rule list" where
  "TransitionGuardRules c = (case validate c of Some e \<Rightarrow> Inl e
     | None \<Rightarrow> Inr (map (transitionGuard c) (familyConstants (cfg_Families c))))"

section \<open>Routes\<close>

definition sourceRouteFamily :: "SourceRoute \<Rightarrow> int" where
  "sourceRouteFamily r = (if addrIs4 (pfxAddr (sr_Destination r)) then AF_INET else AF_INET6)"

definition cmpSourceRoute :: "SourceRoute \<Rightarrow> SourceRoute \<Rightarrow> int" where
  "cmpSourceRoute a b =
     cmp_then (addrCompare (pfxAddr (sr_Destination a)) (pfxAddr (sr_Destination b)))
       (cmp_then (cmp_Compare (pfxBits (sr_Destination a)) (pfxBits (sr_Destination b)))
         (addrCompare (sr_Source a) (sr_Source b)))"

definition sortSourceRoutes :: "SourceRoute list \<Rightarrow> SourceRoute list" where
  "sortSourceRoutes rs = sort_by cmpSourceRoute rs"

definition desiredNexthopFlags :: "int \<Rightarrow> int" where
  "desiredNexthopFlags flags = flags AND (RTNH_F_ONLINK OR RTNH_F_PERVASIVE)"

definition safeTableRoute :: "Route \<Rightarrow> int \<Rightarrow> Route" where
  "safeTableRoute route table = route
     \<lparr>route_Table := table, route_Flags := desiredNexthopFlags (route_Flags route),
      route_Multipath :=
        map (\<lambda>h. h\<lparr>hop_Flags := desiredNexthopFlags (hop_Flags h)\<rparr>) (route_Multipath route)\<rparr>"

definition routeDependsOnGateway :: "Route \<Rightarrow> bool" where
  "routeDependsOnGateway route \<longleftrightarrow>
     addrIsValid (route_Gateway route) \<or>
     list_ex (\<lambda>hop. addrIsValid (hop_Gateway hop)) (route_Multipath route)"

definition cmpSafeRoute :: "Route \<Rightarrow> Route \<Rightarrow> int" where
  "cmpSafeRoute a b =
     (if routeDependsOnGateway a \<noteq> routeDependsOnGateway b
      then (if routeDependsOnGateway a then 1 else -1)
      else cmp_then (cmp_Compare (route_Family a) (route_Family b))
        (cmp_then (addrCompare (pfxAddr (route_Dst a)) (pfxAddr (route_Dst b)))
          (cmp_Compare (pfxBits (route_Dst a)) (pfxBits (route_Dst b)))))"

definition sortSafeRoutesForInstall :: "Route list \<Rightarrow> Route list" where
  "sortSafeRoutesForInstall rs = sort_by cmpSafeRoute rs"

definition vpnRoute :: "Config \<Rightarrow> int \<Rightarrow> Prefix \<Rightarrow> Addr \<Rightarrow> Route" where
  "vpnRoute c family dst src =
     \<lparr>route_Family = family, route_Table = cfg_VPNTable c, route_Dst = dst,
      route_Gateway = NoAddr, route_PreferredSource = src, route_LinkIndex = cfg_TUNIndex c,
      route_Priority = 0, route_Scope = 0, route_Flags = 0, route_Type = RouteTypeUnicast,
      route_Multipath = []\<rparr>"

text \<open>The loop over the source routes of one family: a route to the default destination only sets
  the preferred source of the default route; the others are kept in order.\<close>

fun splitSourceRoutes ::
    "int \<Rightarrow> Prefix \<Rightarrow> SourceRoute list \<Rightarrow> Addr \<times> SourceRoute list \<Rightarrow> Addr \<times> SourceRoute list" where
  "splitSourceRoutes family dflt [] (src, specific) = (src, specific)"
| "splitSourceRoutes family dflt (r # rs) (src, specific) =
     (if sourceRouteFamily r \<noteq> family then splitSourceRoutes family dflt rs (src, specific)
      else if sr_Destination r = dflt then splitSourceRoutes family dflt rs (sr_Source r, specific)
      else splitSourceRoutes family dflt rs (src, specific @ [r]))"

definition compileVPNRoutes :: "Config \<Rightarrow> int \<Rightarrow> Route list" where
  "compileVPNRoutes c family =
     (let dflt = familyDefaultPrefix family;
          (src, specific) = splitSourceRoutes family dflt (cfg_SourceRoutes c) (NoAddr, [])
      in vpnRoute c family dflt src #
         map (\<lambda>r. vpnRoute c family (sr_Destination r) (sr_Source r)) (sortSourceRoutes specific))"

definition CompileDesiredState :: "Config \<Rightarrow> Snapshot \<Rightarrow> goError + DesiredState" where
  "CompileDesiredState config snapshot = (case validate config of Some e \<Rightarrow> Inl e
     | None \<Rightarrow>
       (let c = cloneConfig config;
            tunnel = effectiveTunnelFamilies c;
            families = familyConstants (cfg_Families c);
            safe = filter (\<lambda>r. familyEnabled (cfg_Families c) (route_Family r) \<and>
                       ClassifySafeRoute r (cfg_TUNIndex c) = RouteSafe) (snap_MainRoutes snapshot)
        in Inr \<lparr>ds_Config = c,
              ds_Rules = concat (map (compileRules c) families),
              ds_VPNRoutes = concat (map (\<lambda>f. if familyEnabled tunnel f then compileVPNRoutes c f
                                              else []) families),
              ds_SafeRoutes = sortSafeRoutesForInstall
                (map (\<lambda>r. safeTableRoute r (cfg_SafeTable c)) safe)\<rparr>))"

section \<open>The meaning of policy rules\<close>

text \<open>
  A rule matches a packet when they agree on the bits of the mask. The kernel goes through the
  rules by priority; a matching lookup rule decides only if its table has a route for the packet
  (\<open>hit\<close> says which tables have one), an unreachable rule drops the packet.
\<close>

datatype verdict = Via int | Unreachable | NoDecision

definition rule_matches :: "u32 \<Rightarrow> Rule \<Rightarrow> bool" where
  "rule_matches mark r \<longleftrightarrow> mark AND rule_Mask r = rule_Mark r AND rule_Mask r"

fun policy_lookup :: "(int \<Rightarrow> bool) \<Rightarrow> u32 \<Rightarrow> Rule list \<Rightarrow> verdict" where
  "policy_lookup hit mark [] = NoDecision"
| "policy_lookup hit mark (r # rs) =
     (if \<not> rule_matches mark r then policy_lookup hit mark rs
      else case rule_Action r of
          RuleUnreachable \<Rightarrow> Unreachable
        | RuleLookup \<Rightarrow> (if hit (rule_Table r) then Via (rule_Table r)
                         else policy_lookup hit mark rs))"

definition app_marked :: "Config \<Rightarrow> u32 \<Rightarrow> bool" where
  "app_marked c mark \<longleftrightarrow> mark AND cfg_AppBypassMask c = cfg_AppBypassMark c AND cfg_AppBypassMask c"

definition user_marked :: "Config \<Rightarrow> u32 \<Rightarrow> bool" where
  "user_marked c mark \<longleftrightarrow> mark AND cfg_UserMarkMask c = cfg_UserMark c AND cfg_UserMarkMask c"

text \<open>The tables a mode tries for a packet, in order, and whether it drops it afterwards.\<close>

definition wanted_tables :: "Config \<Rightarrow> int \<Rightarrow> u32 \<Rightarrow> int list \<times> bool" where
  "wanted_tables c family mark =
     (let user = user_marked c mark; vpn = cfg_VPNTable c; safe = cfg_SafeTable c in
      if app_marked c mark then ([RT_TABLE_MAIN], True)
      else if \<not> familyEnabled (effectiveTunnelFamilies c) family then ([], True)
      else if cfg_Mode c = ModeExclude \<and> cfg_Strictness c = Strict
        then (if user then [] else [vpn], True)
      else if cfg_Mode c = ModeExclude then (if user then [RT_TABLE_MAIN] else [safe, vpn], True)
      else if cfg_Strictness c = Strict then (if user then [vpn] else [], True)
      else if user then ([safe, vpn], True) else ([safe, RT_TABLE_MAIN], False))"

definition first_table :: "(int \<Rightarrow> bool) \<Rightarrow> int list \<times> bool \<Rightarrow> verdict" where
  "first_table hit w = (case find hit (fst w) of Some t \<Rightarrow> Via t
     | None \<Rightarrow> if snd w then Unreachable else NoDecision)"

section \<open>What the compiled rules do\<close>

lemma rule_matches_simps [simp]:
  "rule_matches mark (r\<lparr>rule_Priority := p\<rparr>) = rule_matches mark r"
  "rule_matches mark (markRule f p a t m k) = (mark AND k = m AND k)"
  "rule_matches mark (allRule f a t)"
  "rule_matches mark (userRule c f a t) = user_marked c mark"
  by (simp_all add: rule_matches_def markRule_def allRule_def userRule_def user_marked_def)

lemma rule_fields_simps [simp]:
  "rule_Action (markRule f p a t m k) = a" "rule_Table (markRule f p a t m k) = t"
  "rule_Family (markRule f p a t m k) = f" "rule_Priority (markRule f p a t m k) = p"
  "rule_Action (allRule f a t) = a" "rule_Table (allRule f a t) = t"
  "rule_Action (userRule c f a t) = a" "rule_Table (userRule c f a t) = t"
  "rule_Family (allRule f a t) = f" "rule_Family (userRule c f a t) = f"
  by (simp_all add: markRule_def allRule_def userRule_def)

lemma policy_lookup_addRules [simp]:
  "policy_lookup hit mark (addRules p rs) = policy_lookup hit mark rs"
  by (induction rs arbitrary: p) (simp_all split: RuleAction.split)

lemma policy_lookup_compileRules:
  assumes "valid_config c"
  shows "policy_lookup hit mark (compileRules c family) = first_table hit (wanted_tables c family mark)"
proof (cases "app_marked c mark")
  case True
  then show ?thesis
    by (simp add: compileRules_def first_table_def wanted_tables_def Let_def app_marked_def)
next
  case app: False
  show ?thesis
  proof (cases "familyEnabled (effectiveTunnelFamilies c) family")
    case True
    with app valid_configD(7,8) [OF assms] show ?thesis
      by (auto simp: compileRules_def modeRules_def first_table_def wanted_tables_def Let_def
          app_marked_def)
  next
    case False
    with app show ?thesis
      by (simp add: compileRules_def first_table_def wanted_tables_def Let_def app_marked_def)
  qed
qed

lemma length_addRules [simp]: "length (addRules p rs) = length rs"
  by (induction rs arbitrary: p) simp_all

lemma addRules_nth:
  assumes "is_go_int (p + int (length rs))" and "is_go_int p" and "i < length rs"
  shows "addRules p rs ! i = (rs ! i)\<lparr>rule_Priority := p + int i\<rparr>"
  using assms
proof (induction rs arbitrary: p i)
  case (Cons r rs)
  have "is_go_int (p + 1)" using Cons.prems by (auto simp: is_go_int_def)
  then show ?case using Cons by (cases i) (auto simp: algebra_simps)
qed simp

lemma length_modeRules: "length (modeRules c family) \<le> 5"
  by (simp add: modeRules_def Let_def)

definition userRules :: "Config \<Rightarrow> int \<Rightarrow> Rule list" where
  "userRules c family = (if \<not> familyEnabled (effectiveTunnelFamilies c) family
     then [allRule family RuleUnreachable 0] else modeRules c family)"

lemma length_userRules: "length (userRules c family) \<le> 5"
  using length_modeRules by (simp add: userRules_def)

lemma addRules_nth_userRules:
  assumes "valid_config c" and "no_priority_overflow c" and "i < length (userRules c family)"
  shows "addRules (go_int (cfg_PriorityBase c + ruleOffsetUserFirst)) (userRules c family) ! i =
    (userRules c family ! i)\<lparr>rule_Priority := cfg_PriorityBase c + 3 + int i\<rparr>"
  using assms length_userRules [of c family] valid_configD(5,6) [OF assms(1)]
  by (subst addRules_nth) (auto simp: is_go_int_def no_priority_overflow_def)

lemma compileRules_split:
  "compileRules c family =
     [markRule family (go_int (cfg_PriorityBase c)) RuleLookup RT_TABLE_MAIN
        (cfg_AppBypassMark c) (cfg_AppBypassMask c),
      markRule family (go_int (cfg_PriorityBase c + 1)) RuleUnreachable 0
        (cfg_AppBypassMark c) (cfg_AppBypassMask c)] @
     addRules (go_int (cfg_PriorityBase c + ruleOffsetUserFirst)) (userRules c family)"
  by (simp add: compileRules_def userRules_def)

text \<open>Priorities: the offsets 0, 1, 3, 4, \<dots> of the block, the offset 2 being the guard's.\<close>

lemma compileRules_priorities:
  assumes "valid_config c" and "no_priority_overflow c"
  shows "map rule_Priority (compileRules c family) =
    map (\<lambda>i. cfg_PriorityBase c + i) ([0, 1] @ map (\<lambda>i. 3 + int i) [0..<length (userRules c family)])"
proof -
  let ?u = "addRules (go_int (cfg_PriorityBase c + ruleOffsetUserFirst)) (userRules c family)"
  have "map rule_Priority ?u = map (\<lambda>i. cfg_PriorityBase c + (3 + int i)) [0..<length (userRules c family)]"
    by (rule nth_equalityI) (simp_all add: addRules_nth_userRules [OF assms])
  moreover have "go_int (cfg_PriorityBase c) = cfg_PriorityBase c"
    and "go_int (cfg_PriorityBase c + 1) = cfg_PriorityBase c + 1"
    using valid_config_priorities(2) [OF assms, of 0] valid_config_priorities(2) [OF assms, of 1]
      valid_configD(6) [OF assms(1)] by simp_all
  ultimately show ?thesis by (simp add: compileRules_split)
qed

lemma addRules_family: "r \<in> set (addRules p rs) \<Longrightarrow> \<exists>q. r\<lparr>rule_Priority := q\<rparr> \<in> set rs"
proof (induction rs arbitrary: p)
  case (Cons a rs)
  then show ?case by (auto intro: exI [of _ "rule_Priority a"])
qed simp

lemma compileRules_family: "r \<in> set (compileRules c family) \<Longrightarrow> rule_Family r = family"
proof -
  have "r \<in> set (modeRules c family) \<Longrightarrow> rule_Family r = family" for r
    by (auto simp: modeRules_def Let_def split: if_splits)
  then have "r \<in> set (userRules c family) \<Longrightarrow> rule_Family r = family" for r
    by (auto simp: userRules_def split: if_splits)
  then show "r \<in> set (compileRules c family) \<Longrightarrow> ?thesis"
    by (fastforce simp: compileRules_split dest!: addRules_family)
qed

text \<open>With the guard in its place, between the two rules of the marked transport and the rest.\<close>

lemma policy_lookup_guarded:
  assumes "\<not> app_marked c mark"
  shows "policy_lookup hit mark (take 2 (compileRules c family) @ transitionGuard c family #
    drop 2 (compileRules c family)) = Unreachable"
  using assms by (simp add: compileRules_def transitionGuard_def app_marked_def)

section \<open>The compiled routes\<close>

lemma splitSourceRoutes_snd:
  "snd (splitSourceRoutes family dflt rs (src, specific)) =
     specific @ filter (\<lambda>r. sourceRouteFamily r = family \<and> sr_Destination r \<noteq> dflt) rs"
  by (induction rs arbitrary: src specific) simp_all

lemma splitSourceRoutes_fst:
  "fst (splitSourceRoutes family dflt rs (src, specific)) =
     (case filter (\<lambda>r. sourceRouteFamily r = family \<and> sr_Destination r = dflt) rs of
        [] \<Rightarrow> src | x # xs \<Rightarrow> sr_Source (last (x # xs)))"
  by (induction rs arbitrary: src specific) (auto split: list.split)

lemma vpnRoute_simps [simp]:
  "route_LinkIndex (vpnRoute c f d s) = cfg_TUNIndex c" "route_Table (vpnRoute c f d s) = cfg_VPNTable c"
  "route_Family (vpnRoute c f d s) = f" "route_Dst (vpnRoute c f d s) = d"
  "route_PreferredSource (vpnRoute c f d s) = s" "route_Type (vpnRoute c f d s) = RouteTypeUnicast"
  "route_Multipath (vpnRoute c f d s) = []" "route_Gateway (vpnRoute c f d s) = NoAddr"
  by (simp_all add: vpnRoute_def)

lemma compileVPNRoutes_shape:
  "r \<in> set (compileVPNRoutes c family) \<Longrightarrow> \<exists>dst src. r = vpnRoute c family dst src"
  by (auto simp: compileVPNRoutes_def Let_def split: prod.splits)

text \<open>The destinations: the default first, then those of the source routes, each once.\<close>

lemma compileVPNRoutes_dsts:
  assumes "distinct (map sr_Destination (cfg_SourceRoutes c))"
  shows "distinct (map route_Dst (compileVPNRoutes c family))"
    and "route_Dst ` set (compileVPNRoutes c family) = insert (familyDefaultPrefix family)
      (sr_Destination ` {r \<in> set (cfg_SourceRoutes c). sourceRouteFamily r = family})"
proof -
  let ?d = "familyDefaultPrefix family"
  let ?spec = "filter (\<lambda>r. sourceRouteFamily r = family \<and> sr_Destination r \<noteq> ?d) (cfg_SourceRoutes c)"
  obtain src where split: "splitSourceRoutes family ?d (cfg_SourceRoutes c) (NoAddr, []) = (src, ?spec)"
    using splitSourceRoutes_snd [of family ?d "cfg_SourceRoutes c" NoAddr "[]"]
    by (metis append_Nil prod.collapse)
  have dsts: "map route_Dst (compileVPNRoutes c family) = ?d # map sr_Destination (sortSourceRoutes ?spec)"
    by (simp add: compileVPNRoutes_def split Let_def comp_def)
  have "mset (map sr_Destination (sortSourceRoutes ?spec)) = mset (map sr_Destination ?spec)"
    by (simp add: sortSourceRoutes_def)
  moreover have "distinct (map sr_Destination ?spec)" using assms by (simp add: distinct_map_filter)
  ultimately have "distinct (map sr_Destination (sortSourceRoutes ?spec))"
    using mset_eq_imp_distinct_iff by blast
  moreover have sorted: "set (sortSourceRoutes ?spec) = set ?spec" by (simp add: sortSourceRoutes_def)
  then have "?d \<notin> set (map sr_Destination (sortSourceRoutes ?spec))" by auto
  ultimately show "distinct (map route_Dst (compileVPNRoutes c family))"
    unfolding dsts distinct.simps by blast
  have "route_Dst ` set (compileVPNRoutes c family) = set (map route_Dst (compileVPNRoutes c family))"
    by simp
  also have "\<dots> = insert ?d (sr_Destination ` set ?spec)"
    unfolding dsts list.set set_map sorted by simp
  also have "\<dots> = insert ?d
      (sr_Destination ` {r \<in> set (cfg_SourceRoutes c). sourceRouteFamily r = family})"
    unfolding set_filter by blast
  finally show "route_Dst ` set (compileVPNRoutes c family) = insert ?d
      (sr_Destination ` {r \<in> set (cfg_SourceRoutes c). sourceRouteFamily r = family})" .
qed

text \<open>Each source route is the preferred source of the VPN route to its destination.\<close>

lemma distinct_filter_key:
  "distinct (map f xs) \<Longrightarrow> x \<in> set xs \<Longrightarrow> P x \<Longrightarrow> filter (\<lambda>y. P y \<and> f y = f x) xs = [x]"
proof (induction xs)
  case (Cons a xs)
  have "filter (\<lambda>y. P y \<and> f y = f a) xs = []" using Cons.prems(1) by (auto simp: filter_empty_conv image_iff)
  then show ?case using Cons by (auto simp: image_iff)
qed simp

lemma compileVPNRoutes_source:
  assumes "distinct (map sr_Destination (cfg_SourceRoutes c))"
    and "r \<in> set (cfg_SourceRoutes c)"
  shows "vpnRoute c (sourceRouteFamily r) (sr_Destination r) (sr_Source r)
    \<in> set (compileVPNRoutes c (sourceRouteFamily r))"
proof (cases "sr_Destination r = familyDefaultPrefix (sourceRouteFamily r)")
  case True
  let ?f = "sourceRouteFamily r"
  have "filter (\<lambda>y. sourceRouteFamily y = ?f \<and> sr_Destination y = sr_Destination r) (cfg_SourceRoutes c) = [r]"
    by (rule distinct_filter_key [OF assms]) simp
  then have "fst (splitSourceRoutes ?f (sr_Destination r) (cfg_SourceRoutes c) (NoAddr, [])) = sr_Source r"
    by (simp add: splitSourceRoutes_fst)
  with True show ?thesis by (simp add: compileVPNRoutes_def Let_def case_prod_unfold)
next
  case False
  then have "r \<in> set (snd (splitSourceRoutes (sourceRouteFamily r)
      (familyDefaultPrefix (sourceRouteFamily r)) (cfg_SourceRoutes c) (NoAddr, [])))"
    using assms(2) by (simp add: splitSourceRoutes_snd)
  then show ?thesis
    by (simp add: compileVPNRoutes_def sortSourceRoutes_def Let_def case_prod_unfold)
qed

section \<open>The compiled state\<close>

lemma CompileDesiredState_ok: "validate c = None \<Longrightarrow> \<exists>ds. CompileDesiredState c snap = Inr ds"
  by (simp add: CompileDesiredState_def Let_def)

lemma CompileDesiredState_Inr:
  assumes "CompileDesiredState c snap = Inr ds"
  shows "valid_config c" and "ds_Config ds = c"
    and "ds_Rules ds = concat (map (compileRules c) (familyConstants (cfg_Families c)))"
    and "ds_VPNRoutes ds = concat (map (\<lambda>f. if familyEnabled (effectiveTunnelFamilies c) f
           then compileVPNRoutes c f else []) (familyConstants (cfg_Families c)))"
    and "mset (ds_SafeRoutes ds) = mset (map (\<lambda>r. safeTableRoute r (cfg_SafeTable c))
           (filter (\<lambda>r. familyEnabled (cfg_Families c) (route_Family r) \<and>
              ClassifySafeRoute r (cfg_TUNIndex c) = RouteSafe) (snap_MainRoutes snap)))"
  using assms unfolding CompileDesiredState_def validate_None_iff [symmetric]
  by (auto simp: Let_def sortSafeRoutesForInstall_def split: option.splits)

lemma lawful_cmpSafeRoute: "lawful_cmp cmpSafeRoute"
proof -
  have "cmpSafeRoute = (\<lambda>a b. cmp_then
      (cmp_Compare (routeDependsOnGateway a) (routeDependsOnGateway b))
      (cmp_then (cmp_Compare (route_Family a) (route_Family b))
        (cmp_then (addrCompare (pfxAddr (route_Dst a)) (pfxAddr (route_Dst b)))
          (cmp_Compare (pfxBits (route_Dst a)) (pfxBits (route_Dst b))))))"
    by (intro ext) (auto simp: cmpSafeRoute_def cmp_Compare_def cmp_then_def)
  then show ?thesis
    using lawful_cmp_then [OF lawful_cmp_Compare [of routeDependsOnGateway]
      lawful_cmp_then [OF lawful_cmp_Compare [of route_Family]
        lawful_cmp_then [OF lawful_addrCompare [of "\<lambda>r. pfxAddr (route_Dst r)"]
          lawful_cmp_Compare [of "\<lambda>r. pfxBits (route_Dst r)"]]]] by simp
qed

text \<open>Direct routes are installed before the routes that need a gateway.\<close>

lemma sortSafeRoutes_direct_first:
  "sorted_wrt (\<lambda>a b. routeDependsOnGateway a \<longrightarrow> routeDependsOnGateway b) (sortSafeRoutesForInstall rs)"
  using sorted_sort_by [OF lawful_cmp_preorder [OF lawful_cmpSafeRoute], of rs]
  unfolding sortSafeRoutesForInstall_def
  by (rule sorted_wrt_mono_rel [rotated]) (auto simp: cmpSafeRoute_def split: if_splits)

lemma safeTableRoute_hops [simp]: "route_hops (safeTableRoute r t) = route_hops r"
  by (auto simp: route_hops_def safeTableRoute_def comp_def)

lemma safeTableRoute_simps [simp]:
  "route_Table (safeTableRoute r t) = t" "route_Dst (safeTableRoute r t) = route_Dst r"
  "route_Type (safeTableRoute r t) = route_Type r" "route_Family (safeTableRoute r t) = route_Family r"
  "route_LinkIndex (safeTableRoute r t) = route_LinkIndex r"
  by (simp_all add: safeTableRoute_def)

end
