(* ===== verification/Routing_Manager.thy ===== *)
theory Routing_Manager
  imports Routing_Compiler
begin

text \<open>
  The reconciling manager of \<open>routing/manager.go\<close> over the interface \<open>netlinkAdapter\<close> of
  \<open>routing/adapter.go\<close>: \<open>Apply\<close>, \<open>Refresh\<close>, \<open>Status\<close>, \<open>Rollback\<close> and \<open>Close\<close> with every step between
  two calls of the adapter. The locale \<open>netlink_adapter\<close> says what an adapter promises about the
  rules and the routes of the kernel; the lemmas about the manager are proved in it. A method of
  the manager holds its mutex from its first to its last step, so that it is one function from
  the state before to the state after. The calls of the route monitor (\<open>beginRouteChange\<close>,
  \<open>refreshAfterRouteChange\<close>) are here because they are methods of the manager on the same state.
  Messages that print a prefix leave the prefix out.
\<close>

section \<open>The adapter and the manager\<close>

record 'k netlinkAdapter =
  ad_LinkByIndex :: "int \<Rightarrow> 'k act"
  ad_ListRoutes :: "int \<Rightarrow> int \<Rightarrow> ('k, Route list) query"
  ad_ReplaceRoute :: "Route \<Rightarrow> 'k act"
  ad_DeleteRoute :: "Route \<Rightarrow> 'k act"
  ad_ListRules :: "int \<Rightarrow> ('k, Rule list) query"
  ad_AddRule :: "Rule \<Rightarrow> 'k act"
  ad_DeleteRule :: "Rule \<Rightarrow> 'k act"
  ad_Close :: "'k act"

text \<open>
  The fields of \<open>Manager\<close> that its methods change or read. \<open>mgr_monitorDone\<close> says whether the
  channel that stops the monitor is set, \<open>mgr_monitorNSClose\<close> is the closing function of the pinned
  namespace.
\<close>

record 'k Manager =
  mgr_adapter :: "'k netlinkAdapter"
  mgr_closed :: bool
  mgr_applied :: "DesiredState option"
  mgr_closeErr :: "goError option"
  mgr_monitorDone :: bool
  mgr_monitorNSClose :: "'k act option"

definition ErrApplyFailedGuardActive :: goError where
  "ErrApplyFailedGuardActive = ErrorsNew ''routing: apply failed with transition guard active''"

definition ErrRollbackIncomplete :: goError where
  "ErrRollbackIncomplete = ErrorsNew ''routing: rollback incomplete''"

definition newManagerWithAdapter :: "'k netlinkAdapter \<Rightarrow> 'k Manager" where
  "newManagerWithAdapter adapter =
     \<lparr>mgr_adapter = adapter, mgr_closed = False, mgr_applied = None, mgr_closeErr = None,
      mgr_monitorDone = False, mgr_monitorNSClose = None\<rparr>"

definition ensureOpen :: "'k Manager \<Rightarrow> goError option" where
  "ensureOpen m = (if mgr_closed m then Some (ErrorsNew ''routing: manager is closed'') else None)"

section \<open>Scopes the package owns\<close>

record ownedRuleScope =
  scope_config :: Config
  scope_family :: int

definition ownedRuleScopes :: "Config list \<Rightarrow> ownedRuleScope list" where
  "ownedRuleScopes configs =
     dedup_by (\<lambda>s. (scope_family s, cfg_PriorityBase (scope_config s), cfg_PrioritySpan (scope_config s)))
       (concat (map (\<lambda>c. map (\<lambda>f. \<lparr>scope_config = c, scope_family = f\<rparr>)
                        (familyConstants (cfg_Families c))) configs))"

type_synonym ownedTableTarget = "int \<times> int"

definition ownedTableTargets :: "Config list \<Rightarrow> ownedTableTarget list" where
  "ownedTableTargets configs =
     dedup_by (\<lambda>t. t)
       (concat (map (\<lambda>c. concat (map (\<lambda>f. map (\<lambda>t. (f, t)) [cfg_VPNTable c, cfg_SafeTable c])
                                (familyConstants (cfg_Families c)))) configs))"

definition transitionGuards :: "Config list \<Rightarrow> Rule list" where
  "transitionGuards configs =
     dedup_by (\<lambda>g. g)
       (concat (map (\<lambda>c. map (transitionGuard c) (familyConstants (cfg_Families c))) configs))"

definition listedRule :: "Rule \<Rightarrow> Rule" where
  "listedRule r = r\<lparr>rule_Action := RuleLookup,
     rule_Table := (if rule_Table r < 256 then 0 else rule_Table r)\<rparr>"

fun keepRule :: "Rule \<Rightarrow> Rule list \<Rightarrow> bool" where
  "keepRule rule [] = False"
| "keepRule rule (candidate # keep) =
     (if rule = candidate \<or> rule = listedRule candidate then True else keepRule rule keep)"

fun sameRulePriorityAsGuard :: "Rule \<Rightarrow> Rule list \<Rightarrow> bool" where
  "sameRulePriorityAsGuard rule [] = False"
| "sameRulePriorityAsGuard rule (guard # guards) =
     (if rule_Family rule = rule_Family guard \<and> rule_Priority rule = rule_Priority guard then True
      else sameRulePriorityAsGuard rule guards)"

text \<open>The test of \<open>deleteOwnedRules\<close> that a priority lies in the block of a configuration.\<close>

definition inPriorityBlock :: "Config \<Rightarrow> int \<Rightarrow> bool" where
  "inPriorityBlock c p \<longleftrightarrow>
     \<not> (p < cfg_PriorityBase c \<or> p \<ge> go_int (cfg_PriorityBase c + cfg_PrioritySpan c))"

section \<open>Calls on the kernel\<close>

definition deleteOwnedRules :: "'k netlinkAdapter \<Rightarrow> Config \<Rightarrow> int \<Rightarrow> Rule list \<Rightarrow> 'k act" where
  "deleteOwnedRules A config family keep k = (case ad_ListRules A family k of
       (Inl e, k') \<Rightarrow> (Some (Errorf ''list rules: %w'' [] [e]), k')
     | (Inr rules, k') \<Rightarrow> joinAll (forAll (ad_DeleteRule A)
         (filter (\<lambda>r. inPriorityBlock config (rule_Priority r) \<and> \<not> keepRule r keep) rules) k'))"

definition flushTableFamily :: "'k netlinkAdapter \<Rightarrow> int \<Rightarrow> int \<Rightarrow> 'k act" where
  "flushTableFamily A family table k = (case ad_ListRoutes A family table k of
       (Inl e, k') \<Rightarrow> (Some (Errorf ''list table %d: %w'' [AInt table] [e]), k')
     | (Inr routes, k') \<Rightarrow> joinAll (forAll (ad_DeleteRoute A) routes k'))"

definition flushTable :: "'k netlinkAdapter \<Rightarrow> Config \<Rightarrow> int \<Rightarrow> 'k act" where
  "flushTable A config table k =
     joinAll (forAll (\<lambda>f. flushTableFamily A f table) (familyConstants (cfg_Families config)) k)"

fun snapshotFamilies ::
    "'k netlinkAdapter \<Rightarrow> int list \<Rightarrow> Snapshot \<Rightarrow> ('k, Snapshot) query" where
  "snapshotFamilies A [] snapshot k = (Inr snapshot, k)"
| "snapshotFamilies A (family # families) snapshot k =
     (case ad_ListRoutes A family RT_TABLE_MAIN k of
        (Inl e, k') \<Rightarrow> (Inl (Errorf ''list main routes: %w'' [] [e]), k')
      | (Inr routes, k') \<Rightarrow> snapshotFamilies A families
          (snapshot\<lparr>snap_MainRoutes := snap_MainRoutes snapshot @ routes\<rparr>) k')"

definition snapshotMain :: "'k netlinkAdapter \<Rightarrow> Config \<Rightarrow> ('k, Snapshot) query" where
  "snapshotMain A config =
     snapshotFamilies A (familyConstants (cfg_Families config)) \<lparr>snap_MainRoutes = []\<rparr>"

text \<open>The local function \<open>fail\<close> of \<open>applyDesired\<close> and \<open>refreshLocked\<close>, with the flag it reads.\<close>

definition failWith :: "bool \<Rightarrow> goError \<Rightarrow> goError" where
  "failWith guardInstalled e =
     (if guardInstalled then Errorf ''%w: %w'' [] [ErrApplyFailedGuardActive, e] else e)"

text \<open>The first loop of both: the flag is set after the first guard.\<close>

fun installGuards :: "'k netlinkAdapter \<Rightarrow> bool \<Rightarrow> Rule list \<Rightarrow> 'k act" where
  "installGuards A guardInstalled [] k = (None, k)"
| "installGuards A guardInstalled (guard # guards) k = (case ad_AddRule A guard k of
       (Some e, k') \<Rightarrow> (Some (failWith guardInstalled (Errorf ''install transition guard: %w'' [] [e])), k')
     | (None, k') \<Rightarrow> installGuards A True guards k')"

definition removeGuards :: "'k netlinkAdapter \<Rightarrow> Rule list \<Rightarrow> 'k act" where
  "removeGuards A guards = forE (\<lambda>guard.
     wrapE (\<lambda>e. Errorf ''remove transition guard: %w'' [] [e]) (ad_DeleteRule A guard)) guards"

text \<open>\<open>if m.applied != nil { configs = append(configs, m.applied.Config) }\<close>\<close>

definition withApplied :: "Config \<Rightarrow> DesiredState option \<Rightarrow> Config list" where
  "withApplied config applied =
     config # (case applied of None \<Rightarrow> [] | Some a \<Rightarrow> [ds_Config a])"

text \<open>The rules of the applied state that the first loop over them removes.\<close>

definition obsoleteAtGuard :: "Rule list \<Rightarrow> Rule list \<Rightarrow> DesiredState option \<Rightarrow> Rule list" where
  "obsoleteAtGuard desiredRules guards applied = (case applied of None \<Rightarrow> []
     | Some a \<Rightarrow> filter (\<lambda>r. \<not> (r \<in> set desiredRules \<or> keepRule r guards) \<and>
                         sameRulePriorityAsGuard r guards) (ds_Rules a))"

text \<open>The part of \<open>applyDesired\<close> between the installation and the removal of the guards.\<close>

definition reconcile ::
    "'k netlinkAdapter \<Rightarrow> DesiredState option \<Rightarrow> DesiredState \<Rightarrow> 'k act" where
  "reconcile A applied desired =
     (let configs = withApplied (ds_Config desired) applied;
          guards = transitionGuards configs
      in thenE (forE (\<lambda>r. wrapE (\<lambda>e. Errorf ''remove obsolete rule at transition priority: %w'' [] [e])
                  (ad_DeleteRule A r)) (obsoleteAtGuard (ds_Rules desired) guards applied))
        (thenE (forE (\<lambda>t. flushTableFamily A (fst t) (snd t)) (ownedTableTargets configs))
        (thenE (forE (\<lambda>r. wrapE (\<lambda>e. Errorf ''install VPN route %s: %w'' [] [e])
                  (ad_ReplaceRoute A r)) (ds_VPNRoutes desired))
        (thenE (forE (\<lambda>r. wrapE (\<lambda>e. Errorf ''install safe route %s: %w'' [] [e])
                  (ad_ReplaceRoute A r)) (ds_SafeRoutes desired))
        (thenE (forE (\<lambda>s. deleteOwnedRules A (scope_config s) (scope_family s) guards)
                  (ownedRuleScopes configs))
          (forE (\<lambda>r. wrapE (\<lambda>e. Errorf ''install rule priority %d: %w'' [AInt (rule_Priority r)] [e])
                  (ad_AddRule A r)) (ds_Rules desired)))))))"

definition applyDesired ::
    "'k netlinkAdapter \<Rightarrow> DesiredState option \<Rightarrow> DesiredState \<Rightarrow> 'k act" where
  "applyDesired A applied desired =
     (let guards = transitionGuards (withApplied (ds_Config desired) applied)
      in thenE (installGuards A False guards)
        (wrapE (failWith (guards \<noteq> []))
          (thenE (reconcile A applied desired)
            (removeGuards A (filter (\<lambda>g. g \<notin> set (ds_Rules desired)) guards)))))"

section \<open>The methods\<close>

definition Apply :: "'k Manager \<Rightarrow> Config \<Rightarrow> 'k \<Rightarrow> goError option \<times> 'k Manager \<times> 'k" where
  "Apply m config0 k =
     (let A = mgr_adapter m; config = cloneConfig config0 in
      case ensureOpen m of Some e \<Rightarrow> (Some e, m, k) | None \<Rightarrow>
      (case validate config of Some e \<Rightarrow> (Some e, m, k) | None \<Rightarrow>
      (case ad_LinkByIndex A (cfg_TUNIndex config) k of
         (Some e, k1) \<Rightarrow>
           (Some (if errors_is e ErrTUNLinkNotFound then e
                  else Errorf ''lookup TUN link %d: %w'' [AInt (cfg_TUNIndex config)] [e]), m, k1)
       | (None, k1) \<Rightarrow>
      (case snapshotMain A config k1 of
         (Inl e, k2) \<Rightarrow> (Some e, m, k2)
       | (Inr snapshot, k2) \<Rightarrow>
      (case CompileDesiredState config snapshot of
         Inl e \<Rightarrow> (Some e, m, k2)
       | Inr desired \<Rightarrow>
      (case applyDesired A (mgr_applied m) desired k2 of
         (Some e, k3) \<Rightarrow> (Some e, m, k3)
       | (None, k3) \<Rightarrow> (None, m\<lparr>mgr_applied := Some desired\<rparr>, k3)))))))"

text \<open>The body of \<open>refreshLocked\<close> once the guards are in: the snapshot, the safe table and the
  removal of the guards; it returns the new desired state.\<close>

definition refreshGuarded :: "'k netlinkAdapter \<Rightarrow> Config \<Rightarrow> ('k, DesiredState) query" where
  "refreshGuarded A config k =
     (let guards = map (transitionGuard config) (familyConstants (cfg_Families config)) in
      case snapshotMain A config k of
        (Inl e, k1) \<Rightarrow> (Inl e, k1)
      | (Inr snapshot, k1) \<Rightarrow>
     (case CompileDesiredState config snapshot of
        Inl e \<Rightarrow> (Inl e, k1)
      | Inr desired \<Rightarrow>
     (case thenE (flushTable A config (cfg_SafeTable config))
            (thenE (forE (\<lambda>r. wrapE (\<lambda>e. Errorf ''install safe route %s: %w'' [] [e])
                      (ad_ReplaceRoute A r)) (ds_SafeRoutes desired))
              (removeGuards A guards)) k1 of
        (Some e, k2) \<Rightarrow> (Inl e, k2)
      | (None, k2) \<Rightarrow> (Inr desired, k2))))"

definition refreshLocked ::
    "'k Manager \<Rightarrow> DesiredState \<Rightarrow> 'k \<Rightarrow> goError option \<times> 'k Manager \<times> 'k" where
  "refreshLocked m applied k =
     (let A = mgr_adapter m; config = ds_Config applied;
          guards = map (transitionGuard config) (familyConstants (cfg_Families config)) in
      case installGuards A False guards k of
        (Some e, k1) \<Rightarrow> (Some e, m, k1)
      | (None, k1) \<Rightarrow>
     (case refreshGuarded A config k1 of
        (Inl e, k2) \<Rightarrow> (Some (failWith (guards \<noteq> []) e), m, k2)
      | (Inr desired, k2) \<Rightarrow> (None, m\<lparr>mgr_applied := Some desired\<rparr>, k2)))"

definition Refresh :: "'k Manager \<Rightarrow> 'k \<Rightarrow> goError option \<times> 'k Manager \<times> 'k" where
  "Refresh m k = (case ensureOpen m of Some e \<Rightarrow> (Some e, m, k)
     | None \<Rightarrow> (case mgr_applied m of
         None \<Rightarrow> (Some (ErrorsNew ''routing: refresh called before apply''), m, k)
       | Some applied \<Rightarrow> refreshLocked m applied k))"

definition Status :: "'k Manager \<Rightarrow> DesiredState option" where
  "Status m = (case mgr_applied m of None \<Rightarrow> None
     | Some state \<Rightarrow> Some (state\<lparr>ds_Config := cloneConfig (ds_Config state)\<rparr>))"

definition Rollback :: "'k Manager \<Rightarrow> Config \<Rightarrow> 'k \<Rightarrow> goError option \<times> 'k Manager \<times> 'k" where
  "Rollback m config k =
     (let A = mgr_adapter m in
      case ensureOpen m of Some e \<Rightarrow> (Some e, m, k) | None \<Rightarrow>
     (case validate config of Some e \<Rightarrow> (Some e, m, k) | None \<Rightarrow>
       (let configs = withApplied config (mgr_applied m);
            (errs1, k1) = forAll (\<lambda>s. deleteOwnedRules A (scope_config s) (scope_family s) [])
                            (ownedRuleScopes configs) k;
            (errs2, k2) = forAll (\<lambda>t. flushTableFamily A (fst t) (snd t))
                            (ownedTableTargets configs) k1
        in case errors_join (errs1 @ errs2) of
             Some e \<Rightarrow> (Some (Errorf ''%w: %w'' [] [ErrRollbackIncomplete, e]), m, k2)
           | None \<Rightarrow> (None, m\<lparr>mgr_applied := None\<rparr>, k2))))"

text \<open>\<open>Close\<close> without the waiting for the monitor: a second call returns the stored error, the first
  one closes the adapter and the pinned namespace.\<close>

definition Close :: "'k Manager \<Rightarrow> 'k \<Rightarrow> goError option \<times> 'k Manager \<times> 'k" where
  "Close m k =
     (if mgr_closed m then (mgr_closeErr m, m, k)
      else let (err1, k1) = ad_Close (mgr_adapter m) k;
               (err, k2) = (case mgr_monitorNSClose m of
                   None \<Rightarrow> (err1, k1)
                 | Some nsClose \<Rightarrow>
                     (case nsClose k1 of (err2, k2) \<Rightarrow> (errors_join [err1, err2], k2)))
           in (err, m\<lparr>mgr_closed := True, mgr_monitorDone := False, mgr_closeErr := err\<rparr>, k2))"

text \<open>The two calls of the route monitor.\<close>

definition beginRouteChange :: "'k Manager \<Rightarrow> 'k act" where
  "beginRouteChange m k = (case mgr_applied m of None \<Rightarrow> (None, k)
     | Some a \<Rightarrow>
       (if mgr_closed m \<or> cfg_Strictness (ds_Config a) = Strict then (None, k)
        else forE (\<lambda>f. wrapE (\<lambda>e. Errorf ''install route-change guard: %w'' [] [e])
               (ad_AddRule (mgr_adapter m) (transitionGuard (ds_Config a) f)))
             (familyConstants (cfg_Families (ds_Config a))) k))"

definition refreshAfterRouteChange ::
    "'k Manager \<Rightarrow> 'k \<Rightarrow> goError option \<times> 'k Manager \<times> 'k" where
  "refreshAfterRouteChange m k = (case mgr_applied m of None \<Rightarrow> (None, m, k)
     | Some a \<Rightarrow>
       (if mgr_closed m \<or> cfg_Strictness (ds_Config a) = Strict then (None, m, k)
        else refreshLocked m a k))"

end
