(* ===== verification/Routing_Reconcile.thy ===== *)
theory Routing_Reconcile
  imports Routing_Manager
begin

text \<open>
  What the manager of \<open>routing/manager.go\<close> does to the kernel. The locale \<open>netlink_adapter\<close> states
  what an adapter promises about the rules and the routes it changes and lists; its lemmas are
  the frame of every operation (nothing outside the owned priority blocks and tables changes),
  the guard that stays installed while the state is being reconciled, and the exact rules and
  tables left by a successful call.
\<close>

section \<open>The rules the package writes\<close>

text \<open>A rule that survives the conversion to a netlink rule: an unreachable rule has no table, a rule
  without a mask has no mark. A proper rule also is not a listing that lost its table.\<close>

definition canonical_rule :: "Rule \<Rightarrow> bool" where
  "canonical_rule r \<longleftrightarrow> (rule_Action r = RuleUnreachable \<longrightarrow> rule_Table r = 0) \<and>
     (rule_Mask r = 0 \<longrightarrow> rule_Mark r = 0)"

definition proper_rule :: "Rule \<Rightarrow> bool" where
  "proper_rule r \<longleftrightarrow> canonical_rule r \<and> (rule_Action r = RuleLookup \<longrightarrow> rule_Table r \<noteq> 0)"

text \<open>The priorities and the tables a list of configurations owns.\<close>

definition owned_priority :: "Config list \<Rightarrow> int \<Rightarrow> int \<Rightarrow> bool" where
  "owned_priority cs f p \<longleftrightarrow>
     (\<exists>c \<in> set cs. familyEnabled (cfg_Families c) f \<and> inPriorityBlock c p)"

definition owned_rule :: "Config list \<Rightarrow> Rule \<Rightarrow> bool" where
  "owned_rule cs r \<longleftrightarrow> owned_priority cs (rule_Family r) (rule_Priority r)"

definition owned_table :: "Config list \<Rightarrow> int \<Rightarrow> int \<Rightarrow> bool" where
  "owned_table cs f t \<longleftrightarrow>
     (\<exists>c \<in> set cs. familyEnabled (cfg_Families c) f \<and> (t = cfg_VPNTable c \<or> t = cfg_SafeTable c))"

lemma listedRule_simps [simp]:
  "rule_Family (listedRule r) = rule_Family r" "rule_Priority (listedRule r) = rule_Priority r"
  "rule_Action (listedRule r) = RuleLookup" "rule_Mark (listedRule r) = rule_Mark r"
  "rule_Mask (listedRule r) = rule_Mask r"
  by (simp_all add: listedRule_def)

lemma keepRule_iff: "keepRule r keep \<longleftrightarrow> (\<exists>g \<in> set keep. r = g \<or> r = listedRule g)"
  by (induction keep) auto

lemma sameRulePriorityAsGuard_iff:
  "sameRulePriorityAsGuard r gs \<longleftrightarrow>
     (\<exists>g \<in> set gs. rule_Family r = rule_Family g \<and> rule_Priority r = rule_Priority g)"
  by (induction gs) auto

lemma listedRule_proper: "canonical_rule r \<Longrightarrow> proper_rule x \<Longrightarrow> x = listedRule r \<Longrightarrow> x = r"
  by (cases r; cases "rule_Action r")
    (auto simp: listedRule_def proper_rule_def canonical_rule_def split: if_splits)

lemma transitionGuard_simps [simp]:
  "rule_Family (transitionGuard c f) = f" "rule_Action (transitionGuard c f) = RuleUnreachable"
  "rule_Priority (transitionGuard c f) = go_int (cfg_PriorityBase c + 2)"
  "proper_rule (transitionGuard c f)"
  by (simp_all add: transitionGuard_def proper_rule_def canonical_rule_def markRule_def)

lemma set_transitionGuards:
  "set (transitionGuards cs) = {transitionGuard c f | c f. c \<in> set cs \<and> familyEnabled (cfg_Families c) f}"
  by (auto simp: transitionGuards_def simp flip: set_familyConstants)

lemma set_ownedTableTargets: "(f, t) \<in> set (ownedTableTargets cs) \<longleftrightarrow> owned_table cs f t"
  by (auto simp: ownedTableTargets_def owned_table_def simp flip: set_familyConstants)

lemma ownedRuleScopes_sub:
  "s \<in> set (ownedRuleScopes cs) \<Longrightarrow>
     scope_config s \<in> set cs \<and> familyEnabled (cfg_Families (scope_config s)) (scope_family s)"
  using set_dedup_from unfolding ownedRuleScopes_def by (fastforce simp flip: set_familyConstants)

text \<open>One scope is kept for equal blocks, so that the scopes together own exactly the blocks.\<close>

lemma ownedRuleScopes_owned:
  "owned_priority cs f p \<longleftrightarrow>
     (\<exists>s \<in> set (ownedRuleScopes cs). f = scope_family s \<and> inPriorityBlock (scope_config s) p)"
proof
  let ?key = "\<lambda>s. (scope_family s, cfg_PriorityBase (scope_config s), cfg_PrioritySpan (scope_config s))"
  let ?all = "concat (map (\<lambda>c. map (\<lambda>f. \<lparr>scope_config = c, scope_family = f\<rparr>)
    (familyConstants (cfg_Families c))) cs)"
  assume "owned_priority cs f p"
  then obtain c where c: "c \<in> set cs" "familyEnabled (cfg_Families c) f" "inPriorityBlock c p"
    unfolding owned_priority_def by blast
  then have "?key \<lparr>scope_config = c, scope_family = f\<rparr> \<in> ?key ` set ?all"
    by (intro imageI) (force simp: set_familyConstants)
  then have "?key \<lparr>scope_config = c, scope_family = f\<rparr> \<in> ?key ` set (ownedRuleScopes cs)"
    unfolding ownedRuleScopes_def dedup_by_keys .
  then obtain s where "s \<in> set (ownedRuleScopes cs)" "scope_family s = f"
    "cfg_PriorityBase (scope_config s) = cfg_PriorityBase c"
    "cfg_PrioritySpan (scope_config s) = cfg_PrioritySpan c" by auto
  with c(3) show "\<exists>s \<in> set (ownedRuleScopes cs). f = scope_family s \<and> inPriorityBlock (scope_config s) p"
    unfolding inPriorityBlock_def by (intro bexI [of _ s]) simp_all
next
  assume "\<exists>s \<in> set (ownedRuleScopes cs). f = scope_family s \<and> inPriorityBlock (scope_config s) p"
  then show "owned_priority cs f p" unfolding owned_priority_def using ownedRuleScopes_sub by blast
qed

section \<open>Invariants of the loops, for any adapter\<close>

lemma deleteOwnedRules_keeps:
  assumes "keeps I (ad_ListRules A f)"
    and "\<And>k xs k' x. ad_ListRules A f k = (Inr xs, k') \<Longrightarrow> x \<in> set xs \<Longrightarrow>
      inPriorityBlock c (rule_Priority x) \<Longrightarrow> \<not> keepRule x keep \<Longrightarrow> keeps I (ad_DeleteRule A x)"
  shows "keeps I (deleteOwnedRules A c f keep)"
proof
  fix k assume "I k"
  obtain z k' where a: "ad_ListRules A f k = (z, k')" by force
  have k': "I k'" using keepsD [OF assms(1) \<open>I k\<close>] a by simp
  show "I (snd (deleteOwnedRules A c f keep k))"
  proof (cases z)
    case (Inr xs)
    have "I (snd (forAll (ad_DeleteRule A)
        (filter (\<lambda>r. inPriorityBlock c (rule_Priority r) \<and> \<not> keepRule r keep) xs) k'))"
      by (rule forAll_keeps [where I = I]) (use k' a Inr assms(2) [of k xs k'] in simp_all)
    with a Inr show ?thesis by (simp add: deleteOwnedRules_def joinAll_def)
  qed (use k' a in \<open>simp add: deleteOwnedRules_def\<close>)
qed

lemma flushTableFamily_keeps:
  assumes "keeps I (ad_ListRoutes A f t)"
    and "\<And>k qs k' q. ad_ListRoutes A f t k = (Inr qs, k') \<Longrightarrow> q \<in> set qs \<Longrightarrow> keeps I (ad_DeleteRoute A q)"
  shows "keeps I (flushTableFamily A f t)"
proof
  fix k assume "I k"
  obtain z k' where a: "ad_ListRoutes A f t k = (z, k')" by force
  have k': "I k'" using keepsD [OF assms(1) \<open>I k\<close>] a by simp
  show "I (snd (flushTableFamily A f t k))"
  proof (cases z)
    case (Inr qs)
    have "I (snd (forAll (ad_DeleteRoute A) qs k'))"
      by (rule forAll_keeps [where I = I]) (use k' a Inr assms(2) [of k qs k'] in simp_all)
    with a Inr show ?thesis by (simp add: flushTableFamily_def joinAll_def)
  qed (use k' a in \<open>simp add: flushTableFamily_def\<close>)
qed

lemma snapshotFamilies_keeps:
  assumes "\<And>f. keeps I (ad_ListRoutes A f RT_TABLE_MAIN)"
  shows "keeps I (snapshotFamilies A fs snap)"
proof (induction fs arbitrary: snap)
  case (Cons f fs)
  show ?case
  proof
    fix k assume "I k"
    obtain z k' where a: "ad_ListRoutes A f RT_TABLE_MAIN k = (z, k')" by force
    then have "I k'" using keepsD [OF assms \<open>I k\<close>, of f] by simp
    with a keepsD [OF Cons.IH] show "I (snd (snapshotFamilies A (f # fs) snap k))" by (cases z) auto
  qed
qed (simp add: keeps_def)

lemma installGuards_keeps:
  assumes "\<And>g. g \<in> set gs \<Longrightarrow> keeps I (ad_AddRule A g)"
  shows "keeps I (installGuards A b gs)"
  using assms
proof (induction gs arbitrary: b)
  case (Cons g gs)
  show ?case
  proof
    fix k assume "I k"
    obtain z k' where a: "ad_AddRule A g k = (z, k')" by force
    then have "I k'" using keepsD [of I "ad_AddRule A g" k] Cons.prems \<open>I k\<close> by simp
    with a keepsD [OF Cons.IH] Cons.prems show "I (snd (installGuards A b (g # gs) k))" by (cases z) auto
  qed
qed (simp add: keeps_def)

lemma removeGuards_keeps:
  assumes "\<And>g. g \<in> set gs \<Longrightarrow> keeps I (ad_DeleteRule A g)"
  shows "keeps I (removeGuards A gs)"
  unfolding removeGuards_def using assms by (intro inv_intros)

lemma reconcile_keeps:
  fixes applied desired
  defines "cs \<equiv> withApplied (ds_Config desired) applied"
  assumes "\<And>f t. keeps I (ad_ListRoutes A f t)" and "\<And>f. keeps I (ad_ListRules A f)"
    and "\<And>r. r \<in> set (obsoleteAtGuard (ds_Rules desired) (transitionGuards cs) applied) \<Longrightarrow>
      keeps I (ad_DeleteRule A r)"
    and "\<And>f t k qs k' q. (f, t) \<in> set (ownedTableTargets cs) \<Longrightarrow>
      ad_ListRoutes A f t k = (Inr qs, k') \<Longrightarrow> q \<in> set qs \<Longrightarrow> keeps I (ad_DeleteRoute A q)"
    and "\<And>q. q \<in> set (ds_VPNRoutes desired) \<union> set (ds_SafeRoutes desired) \<Longrightarrow>
      keeps I (ad_ReplaceRoute A q)"
    and "\<And>s k xs k' x. s \<in> set (ownedRuleScopes cs) \<Longrightarrow>
      ad_ListRules A (scope_family s) k = (Inr xs, k') \<Longrightarrow> x \<in> set xs \<Longrightarrow>
      inPriorityBlock (scope_config s) (rule_Priority x) \<Longrightarrow>
      \<not> keepRule x (transitionGuards cs) \<Longrightarrow> keeps I (ad_DeleteRule A x)"
    and "\<And>r. r \<in> set (ds_Rules desired) \<Longrightarrow> keeps I (ad_AddRule A r)"
  shows "keeps I (reconcile A applied desired)"
  unfolding reconcile_def Let_def cs_def [symmetric]
  using assms(2-) by (intro inv_intros flushTableFamily_keeps deleteOwnedRules_keeps) auto

section \<open>What an adapter promises\<close>

text \<open>The frame of an operation, for a view of the rules and of the routes: nothing changes but
  rules whose family and priority \<open>P\<close> allows and routes of the tables \<open>T\<close> allows.\<close>

definition kernel_framed :: "('k \<Rightarrow> Rule multiset) \<Rightarrow> ('k \<Rightarrow> int \<Rightarrow> int \<Rightarrow> Route set) \<Rightarrow>
    (int \<Rightarrow> int \<Rightarrow> bool) \<Rightarrow> (int \<Rightarrow> int \<Rightarrow> bool) \<Rightarrow> 'k \<Rightarrow> 'k \<Rightarrow> bool" where
  "kernel_framed rules routes P T k0 k \<longleftrightarrow>
     filter_mset (\<lambda>r. \<not> P (rule_Family r) (rule_Priority r)) (rules k) =
       filter_mset (\<lambda>r. \<not> P (rule_Family r) (rule_Priority r)) (rules k0) \<and>
     (\<forall>f t. \<not> T f t \<longrightarrow> routes k f t = routes k0 f t)"

text \<open>The routes of a list that belong to one table, as they read when they are listed.\<close>

definition installed_routes :: "(Route \<Rightarrow> Route) \<Rightarrow> Route list \<Rightarrow> int \<Rightarrow> int \<Rightarrow> Route set" where
  "installed_routes shown qs f t = shown ` {q \<in> set qs. route_Family q = f \<and> route_Table q = t}"

definition supported :: "Route set \<Rightarrow> Route set" where
  "supported S = {r \<in> S. route_Type r \<noteq> RouteTypeUnsupported}"

lemma supported_sub: "S \<subseteq> T \<Longrightarrow> supported T = T \<Longrightarrow> supported S = S"
  by (auto simp: supported_def)

lemma supported_simps [simp]: "supported {} = {}" "supported (S \<union> T) = supported S \<union> supported T"
  by (auto simp: supported_def)

text \<open>
  \<open>rules k\<close> are the policy rules of the kernel in state \<open>k\<close>, \<open>routes k f t\<close> the routes of family
  \<open>f\<close> in table \<open>t\<close> as the adapter lists them, \<open>lst\<close> is how a rule reads when it is listed (as it is,
  or with the action and the small table number lost), \<open>shown\<close> how a route that was installed
  reads when it is listed.
\<close>

locale netlink_adapter =
  fixes A :: "'k netlinkAdapter"
    and rules :: "'k \<Rightarrow> Rule multiset"
    and routes :: "'k \<Rightarrow> int \<Rightarrow> int \<Rightarrow> Route set"
    and lst :: "Rule \<Rightarrow> Rule"
    and shown :: "Route \<Rightarrow> Route"
  assumes lst_cases: "lst r = r \<or> lst r = listedRule r"
    and lst_lst [simp]: "lst (lst r) = lst r"
    and rules_canonical: "r \<in># rules k \<Longrightarrow> canonical_rule r"
    and link_same: "ad_LinkByIndex A i k = (z, k') \<Longrightarrow> rules k' = rules k \<and> routes k' = routes k"
    and list_routes_same: "ad_ListRoutes A f t k = (w, k') \<Longrightarrow> rules k' = rules k \<and> routes k' = routes k"
    and list_routes: "ad_ListRoutes A f t k = (Inr rs, k') \<Longrightarrow> set rs = routes k f t"
    and list_rules_same: "ad_ListRules A f k = (y, k') \<Longrightarrow> rules k' = rules k \<and> routes k' = routes k"
    and list_rules: "ad_ListRules A f k = (Inr xs, k') \<Longrightarrow>
      mset xs = image_mset lst (filter_mset (\<lambda>r. rule_Family r = f) (rules k))"
    and add_rule: "ad_AddRule A r k = (None, k') \<Longrightarrow> canonical_rule r \<Longrightarrow>
      rules k' = (if r \<in># rules k then rules k else add_mset r (rules k))"
    and add_rule_fail: "ad_AddRule A r k = (Some e, k') \<Longrightarrow> rules k' = rules k"
    and add_rule_routes: "ad_AddRule A r k = (z, k') \<Longrightarrow> routes k' = routes k"
    and delete_rule: "ad_DeleteRule A x k = (None, k') \<Longrightarrow> canonical_rule x \<Longrightarrow>
      (\<exists>r. r \<in># rules k \<and> (x = r \<or> x = lst r) \<and> rules k' = rules k - {#r#}) \<or>
      (\<forall>r. r \<in># rules k \<longrightarrow> x \<noteq> r \<and> x \<noteq> lst r) \<and> rules k' = rules k"
    and delete_rule_fail: "ad_DeleteRule A x k = (Some e, k') \<Longrightarrow> rules k' = rules k"
    and delete_rule_routes: "ad_DeleteRule A x k = (z, k') \<Longrightarrow> routes k' = routes k"
    and replace_route: "ad_ReplaceRoute A q k = (None, k') \<Longrightarrow>
      shown q \<in> routes k' (route_Family q) (route_Table q)"
    and replace_route_sub: "ad_ReplaceRoute A q k = (z, k') \<Longrightarrow>
      routes k' f t \<subseteq> (if z = None \<and> f = route_Family q \<and> t = route_Table q
        then insert (shown q) (routes k f t) else routes k f t)"
    and replace_route_keeps: "ad_ReplaceRoute A q k = (z, k') \<Longrightarrow> x' \<in> routes k f t \<Longrightarrow>
      x' \<notin> routes k' f t \<Longrightarrow>
      z = None \<and> f = route_Family q \<and> t = route_Table q \<and>
      (route_Dst x' = route_Dst (shown q) \<or> route_Type x' = RouteTypeUnsupported)"
    and shown_supported: "route_Type (shown q) \<noteq> RouteTypeUnsupported"
    and replace_route_rules: "ad_ReplaceRoute A q k = (z, k') \<Longrightarrow> rules k' = rules k"
    and delete_route: "ad_DeleteRoute A q k = (None, k') \<Longrightarrow> q \<notin> routes k' f t"
    and delete_route_sub: "ad_DeleteRoute A q k = (z, k') \<Longrightarrow> routes k' f t \<subseteq> routes k f t"
    and delete_route_keeps: "ad_DeleteRoute A q k = (z, k') \<Longrightarrow> q \<in> routes k'' f t \<Longrightarrow>
      (f', t') \<noteq> (f, t) \<Longrightarrow> routes k' f' t' = routes k f' t'"
    and delete_route_rules: "ad_DeleteRoute A q k = (z, k') \<Longrightarrow> rules k' = rules k"
begin

lemma lst_simps [simp]:
  "rule_Family (lst r) = rule_Family r" "rule_Priority (lst r) = rule_Priority r"
  using lst_cases [of r] by auto

lemma lst_canonical: "canonical_rule r \<Longrightarrow> canonical_rule (lst r)"
  using lst_cases [of r] by (auto simp: canonical_rule_def)

lemma lst_proper: "canonical_rule r \<Longrightarrow> proper_rule x \<Longrightarrow> x = lst r \<Longrightarrow> x = r"
  using lst_cases [of r] listedRule_proper by metis

lemma listed_canonical:
  assumes "ad_ListRules A f k = (Inr xs, k')" and "x \<in> set xs"
  shows "canonical_rule x" and "rule_Family x = f"
proof -
  have "x \<in># image_mset lst (filter_mset (\<lambda>r. rule_Family r = f) (rules k))"
    using assms(2) list_rules [OF assms(1)] by (metis set_mset_mset)
  then show "canonical_rule x" and "rule_Family x = f"
    using rules_canonical lst_canonical by (auto simp del: image_mset_filter_mset_swap)
qed

section \<open>The frame\<close>

abbreviation framed :: "(int \<Rightarrow> int \<Rightarrow> bool) \<Rightarrow> (int \<Rightarrow> int \<Rightarrow> bool) \<Rightarrow> 'k \<Rightarrow> 'k \<Rightarrow> bool" where
  "framed \<equiv> kernel_framed rules routes"

lemmas framed_def = kernel_framed_def

lemma framed_refl [simp]: "framed P T k k"
  by (simp add: framed_def)

lemma framed_cong: "rules k' = rules k \<Longrightarrow> routes k' = routes k \<Longrightarrow> framed P T k0 k' = framed P T k0 k"
  by (simp add: framed_def)

lemma framed_weaken:
  assumes "framed P T k0 k" and "\<And>f p. P f p \<Longrightarrow> P' f p" and "\<And>f t. T f t \<Longrightarrow> T' f t"
  shows "framed P' T' k0 k"
proof -
  have *: "filter_mset (\<lambda>r. \<not> P' (rule_Family r) (rule_Priority r)) M =
      filter_mset (\<lambda>r. \<not> P' (rule_Family r) (rule_Priority r))
        (filter_mset (\<lambda>r. \<not> P (rule_Family r) (rule_Priority r)) M)" for M
    using assms(2) by (auto simp: multiset_eq_iff)
  show ?thesis using assms(1,3) unfolding framed_def * [of "rules k"] * [of "rules k0"] by metis
qed

lemma AddRule_framed [inv_intros]:
  assumes "canonical_rule r" and "P (rule_Family r) (rule_Priority r)"
  shows "keeps (framed P T k0) (ad_AddRule A r)"
proof
  fix k assume k: "framed P T k0 k"
  obtain z k' where a: "ad_AddRule A r k = (z, k')" by force
  have "rules k' = rules k \<or> rules k' = add_mset r (rules k)"
    using add_rule [of r k k'] add_rule_fail [of r k] a assms(1) by (cases z) (auto split: if_splits)
  with k assms(2) add_rule_routes [OF a] show "framed P T k0 (snd (ad_AddRule A r k))"
    unfolding a framed_def by auto
qed

lemma DeleteRule_framed [inv_intros]:
  assumes "canonical_rule x" and "P (rule_Family x) (rule_Priority x)"
  shows "keeps (framed P T k0) (ad_DeleteRule A x)"
proof
  fix k assume k: "framed P T k0 k"
  obtain z k' where a: "ad_DeleteRule A x k = (z, k')" by force
  have "rules k' = rules k \<or> (\<exists>r. (x = r \<or> x = lst r) \<and> rules k' = rules k - {#r#})"
    using delete_rule [of x k k'] delete_rule_fail [of x k] a assms(1) by (cases z) auto
  with k assms(2) delete_rule_routes [OF a] show "framed P T k0 (snd (ad_DeleteRule A x k))"
    unfolding a framed_def by (elim disjE) auto
qed

lemma ReplaceRoute_framed [inv_intros]:
  assumes "T (route_Family q) (route_Table q)"
  shows "keeps (framed P T k0) (ad_ReplaceRoute A q)"
proof
  fix k assume k: "framed P T k0 k"
  obtain z k' where a: "ad_ReplaceRoute A q k = (z, k')" by force
  have "routes k' f t = routes k f t" if "\<not> T f t" for f t
    using that assms replace_route_sub [OF a, of f t] replace_route_keeps [OF a, of _ f t]
    by (auto split: if_splits)
  with k replace_route_rules [OF a] show "framed P T k0 (snd (ad_ReplaceRoute A q k))"
    unfolding a framed_def by simp
qed

lemma DeleteRoute_framed:
  assumes "T f t" and "q \<in> routes k'' f t"
  shows "keeps (framed P T k0) (ad_DeleteRoute A q)"
proof
  fix k assume k: "framed P T k0 k"
  obtain z k' where a: "ad_DeleteRoute A q k = (z, k')" by force
  have "routes k' f' t' = routes k f' t'" if "\<not> T f' t'" for f' t'
    using delete_route_keeps [OF a assms(2), of f' t'] that assms(1) by auto
  with k delete_route_rules [OF a] show "framed P T k0 (snd (ad_DeleteRoute A q k))"
    unfolding a framed_def by simp
qed

section \<open>The guard stays\<close>

text \<open>A rule is removed only by a request that is the rule or its listing.\<close>

lemma AddRule_present [inv_intros]:
  assumes "canonical_rule r"
  shows "keeps (\<lambda>k. g \<in># rules k) (ad_AddRule A r)"
proof
  fix k assume k: "g \<in># rules k"
  obtain z k' where a: "ad_AddRule A r k = (z, k')" by force
  with k assms add_rule [of r k k'] add_rule_fail [of r k] show "g \<in># rules (snd (ad_AddRule A r k))"
    by (cases z) auto
qed

lemma DeleteRule_present [inv_intros]:
  assumes "canonical_rule x" and "x \<noteq> g" and "x \<noteq> lst g"
  shows "keeps (\<lambda>k. g \<in># rules k) (ad_DeleteRule A x)"
proof
  fix k assume k: "g \<in># rules k"
  obtain z k' where a: "ad_DeleteRule A x k = (z, k')" by force
  have "rules k' = rules k \<or> (\<exists>r. (x = r \<or> x = lst r) \<and> rules k' = rules k - {#r#})"
    using delete_rule [of x k k'] delete_rule_fail [of x k] a assms(1) by (cases z) auto
  with k assms(2,3) show "g \<in># rules (snd (ad_DeleteRule A x k))"
    unfolding a by (auto simp: in_diff_count)
qed

lemma ReplaceRoute_rules [inv_intros]: "keeps (\<lambda>k. I (rules k)) (ad_ReplaceRoute A q)"
  by (rule keepsI) (metis prod.collapse replace_route_rules)

section \<open>Exact effects of successful calls\<close>

abbreviation rule_set :: "'k \<Rightarrow> Rule set" where
  "rule_set k \<equiv> set_mset (rules k)"

text \<open>No rule is there twice: the kernel refuses a rule it has.\<close>

abbreviation no_dup :: "'k \<Rightarrow> bool" where
  "no_dup k \<equiv> \<forall>r. count (rules k) r \<le> 1"

lemma AddRule_None:
  assumes "ad_AddRule A r k = (None, k')" and "canonical_rule r" and "no_dup k"
  shows "rule_set k' = insert r (rule_set k)" and "no_dup k'" and "routes k' = routes k"
  using add_rule [OF assms(1,2)] assms(3) add_rule_routes [OF assms(1)]
  by (auto simp: not_in_iff split: if_splits)

lemma DeleteRule_None:
  assumes "ad_DeleteRule A x k = (None, k')" and "proper_rule x" and "no_dup k"
  shows "rule_set k' = rule_set k - {x}" and "no_dup k'" and "routes k' = routes k"
proof -
  have "canonical_rule x" using assms(2) by (simp add: proper_rule_def)
  from delete_rule [OF assms(1) this]
  consider r where "r \<in># rules k" "x = r \<or> x = lst r" "rules k' = rules k - {#r#}"
    | "x \<notin># rules k" "rules k' = rules k" by blast
  then have k': "rules k' = rules k - {#x#}"
  proof cases
    case 1
    then have "x = r" using lst_proper [OF rules_canonical assms(2)] by blast
    with 1 show ?thesis by simp
  qed (simp add: diff_single_trivial)
  have one: "count (rules k) r \<le> 1" for r using assms(3) by blast
  show "rule_set k' = rule_set k - {x}"
  proof (rule set_eqI)
    fix r show "r \<in># rules k' \<longleftrightarrow> r \<in> rule_set k - {x}"
      using one [of x] unfolding k' in_diff_count by (cases "r = x") simp_all
  qed
  show "no_dup k'" unfolding k' using one le_trans diff_le_self by (metis count_diff)
  show "routes k' = routes k" using delete_rule_routes [OF assms(1)] .
qed

lemma forE_AddRule:
  assumes "forE (\<lambda>r. wrapE (w r) (ad_AddRule A r)) rs k = (None, k')"
    and "\<forall>r \<in> set rs. canonical_rule r" and "no_dup k"
  shows "rule_set k' = set rs \<union> rule_set k \<and> no_dup k' \<and> routes k' = routes k"
  using assms
proof (induction rs arbitrary: k)
  case (Cons r rs)
  then obtain k1 where k1: "ad_AddRule A r k = (None, k1)"
    "forE (\<lambda>r. wrapE (w r) (ad_AddRule A r)) rs k1 = (None, k')" by (auto simp: act_None simp del: forE.simps)
  note one = AddRule_None [OF k1(1)]
  show ?case using Cons.IH [OF k1(2)] Cons.prems one by auto
qed simp

lemma forE_DeleteRule:
  assumes "forE (\<lambda>r. wrapE (w r) (ad_DeleteRule A r)) rs k = (None, k')"
    and "\<forall>r \<in> set rs. proper_rule r" and "no_dup k"
  shows "rule_set k' = rule_set k - set rs \<and> no_dup k' \<and> routes k' = routes k"
  using assms
proof (induction rs arbitrary: k)
  case (Cons r rs)
  then obtain k1 where k1: "ad_DeleteRule A r k = (None, k1)"
    "forE (\<lambda>r. wrapE (w r) (ad_DeleteRule A r)) rs k1 = (None, k')" by (auto simp: act_None simp del: forE.simps)
  note one = DeleteRule_None [OF k1(1)]
  show ?case using Cons.IH [OF k1(2)] Cons.prems one by auto
qed simp

lemma installGuards_None:
  assumes "installGuards A b gs k = (None, k')" and "\<forall>r \<in> set gs. canonical_rule r" and "no_dup k"
  shows "rule_set k' = set gs \<union> rule_set k \<and> no_dup k' \<and> routes k' = routes k"
  using assms
proof (induction gs arbitrary: k b)
  case (Cons g gs)
  then obtain k1 where k1: "ad_AddRule A g k = (None, k1)" "installGuards A True gs k1 = (None, k')"
    by (auto split: prod.splits option.splits)
  show ?case using Cons.IH [OF k1(2)] Cons.prems AddRule_None [OF k1(1)] by auto
qed simp

text \<open>Every listed rule that is asked to go has gone, whatever the listing lost.\<close>

lemma delete_listed:
  assumes "forAll (ad_DeleteRule A) xs k = (es, k')" and "set es \<subseteq> {None}"
    and "mset xs = image_mset lst (filter_mset (\<lambda>r. Q (lst r)) (rules k))"
  shows "rules k' = filter_mset (\<lambda>r. \<not> Q (lst r)) (rules k) \<and> routes k' = routes k"
  using assms
proof (induction xs arbitrary: k es)
  case Nil
  then have "filter_mset (\<lambda>r. Q (lst r)) (rules k) = {#}" by simp
  then have "filter_mset (\<lambda>r. \<not> Q (lst r)) (rules k) = rules k"
    by (metis add.right_neutral multiset_partition union_commute)
  with Nil show ?case by simp
next
  case (Cons x xs)
  obtain k1 es1 where k1: "ad_DeleteRule A x k = (None, k1)" "forAll (ad_DeleteRule A) xs k1 = (es1, k')"
    "set es1 \<subseteq> {None}" using Cons.prems(1,2) by (auto split: prod.splits)
  have "x \<in># image_mset lst (filter_mset (\<lambda>r. Q (lst r)) (rules k))"
    unfolding Cons.prems(3) [symmetric] by simp
  then obtain s where s: "s \<in># rules k" "Q (lst s)" "x = lst s" by auto
  then have x: "canonical_rule x" "lst x = x" "Q x" using rules_canonical lst_canonical by auto
  with delete_rule [OF k1(1) x(1)] s(1,3) obtain r where
    r: "r \<in># rules k" "x = r \<or> x = lst r" "rules k1 = rules k - {#r#}" by blast
  then have lr: "lst r = x" using x(2) by auto
  then have split: "rules k = add_mset r (rules k1)" using r by simp
  have "mset xs = image_mset lst (filter_mset (\<lambda>r. Q (lst r)) (rules k1))"
    using Cons.prems(3) unfolding split by (simp add: lr x(3))
  from Cons.IH [OF k1(2,3) this] show ?case
    unfolding split using delete_rule_routes [OF k1(1)] by (simp add: lr x(3))
qed

lemma deleteOwnedRules_None:
  assumes "deleteOwnedRules A c f keep k = (None, k')"
  shows "rules k' = filter_mset (\<lambda>r. \<not> (rule_Family r = f \<and> inPriorityBlock c (rule_Priority r) \<and>
      \<not> keepRule (lst r) keep)) (rules k) \<and> routes k' = routes k"
proof -
  obtain xs k1 where l: "ad_ListRules A f k = (Inr xs, k1)"
    using assms by (auto simp: deleteOwnedRules_def split: prod.splits sum.splits)
  let ?ys = "filter (\<lambda>r. inPriorityBlock c (rule_Priority r) \<and> \<not> keepRule r keep) xs"
  let ?Q = "\<lambda>x. rule_Family x = f \<and> inPriorityBlock c (rule_Priority x) \<and> \<not> keepRule x keep"
  obtain es where d: "forAll (ad_DeleteRule A) ?ys k1 = (es, k')" "set es \<subseteq> {None}"
    using assms l by (auto simp: deleteOwnedRules_def joinAll_def errors_join_eq_None
        intro: prod.collapse [symmetric])
  have "mset ?ys = filter_mset (\<lambda>r. inPriorityBlock c (rule_Priority r) \<and> \<not> keepRule r keep)
      (image_mset lst (filter_mset (\<lambda>r. rule_Family r = f) (rules k1)))"
    using list_rules [OF l] list_rules_same [OF l] by (simp flip: list_rules)
  also have "\<dots> = image_mset lst (filter_mset (\<lambda>r. ?Q (lst r)) (rules k1))"
    unfolding filter_mset_image_mset filter_filter_mset by (simp add: conj_commute conj_left_commute)
  finally show ?thesis using delete_listed [OF d, of ?Q] list_rules_same [OF l] by simp
qed

lemma forE_deleteOwnedRules:
  assumes "forE (\<lambda>s. deleteOwnedRules A (scope_config s) (scope_family s) keep) ss k = (None, k')"
  shows "rules k' = filter_mset (\<lambda>r. \<not> ((\<exists>s \<in> set ss. rule_Family r = scope_family s \<and>
      inPriorityBlock (scope_config s) (rule_Priority r)) \<and> \<not> keepRule (lst r) keep)) (rules k) \<and>
    routes k' = routes k"
  using assms
proof (induction ss arbitrary: k)
  case (Cons s ss)
  then obtain k1 where k1: "deleteOwnedRules A (scope_config s) (scope_family s) keep k = (None, k1)"
    "forE (\<lambda>s. deleteOwnedRules A (scope_config s) (scope_family s) keep) ss k1 = (None, k')"
    by (auto simp: act_None simp del: forE.simps)
  from deleteOwnedRules_None [OF k1(1)] Cons.IH [OF k1(2)] show ?case
    by (auto simp: filter_filter_mset intro!: filter_mset_cong)
qed simp

text \<open>Flushing a table: every listed route is gone, no other table is touched.\<close>

lemma delete_routes:
  assumes "forAll (ad_DeleteRoute A) qs k = (es, k')" and "set es \<subseteq> {None}"
    and "set qs \<subseteq> routes k0 f t"
  shows "routes k' f t \<subseteq> routes k f t - set qs \<and> rules k' = rules k \<and>
    (\<forall>f' t'. (f', t') \<noteq> (f, t) \<longrightarrow> routes k' f' t' = routes k f' t')"
  using assms
proof (induction qs arbitrary: k es)
  case (Cons q qs)
  obtain k1 es1 where k1: "ad_DeleteRoute A q k = (None, k1)" "forAll (ad_DeleteRoute A) qs k1 = (es1, k')"
    "set es1 \<subseteq> {None}" using Cons.prems(1,2) by (auto split: prod.splits)
  have q: "q \<in> routes k0 f t" and qs: "set qs \<subseteq> routes k0 f t" using Cons.prems(3) by auto
  have "routes k' f t \<subseteq> routes k1 f t - set qs" "rules k' = rules k1"
    "\<forall>f' t'. (f', t') \<noteq> (f, t) \<longrightarrow> routes k' f' t' = routes k1 f' t'"
    using Cons.IH [OF k1(2,3) qs] by auto
  moreover have "routes k1 f t \<subseteq> routes k f t - {q}"
    using delete_route [OF k1(1)] delete_route_sub [OF k1(1)] by blast
  ultimately show ?case
    using delete_route_rules [OF k1(1)] delete_route_keeps [OF k1(1) q] by auto
qed simp

lemma flushTableFamily_None:
  assumes "flushTableFamily A f t k = (None, k')"
  shows "routes k' f t = {}" and "rules k' = rules k"
    and "(f', t') \<noteq> (f, t) \<Longrightarrow> routes k' f' t' = routes k f' t'"
proof -
  obtain qs k1 where l: "ad_ListRoutes A f t k = (Inr qs, k1)"
    using assms by (auto simp: flushTableFamily_def split: prod.splits sum.splits)
  obtain es where d: "forAll (ad_DeleteRoute A) qs k1 = (es, k')" "set es \<subseteq> {None}"
    using assms l by (auto simp: flushTableFamily_def joinAll_def errors_join_eq_None
        intro: prod.collapse [symmetric])
  have "set qs = routes k f t" using list_routes [OF l] .
  with delete_routes [OF d, of k f t] list_routes_same [OF l]
  show "routes k' f t = {}" and "rules k' = rules k"
    and "(f', t') \<noteq> (f, t) \<Longrightarrow> routes k' f' t' = routes k f' t'" by auto
qed

lemma forE_flush:
  assumes "forE (\<lambda>t. flushTableFamily A (fst t) (snd t)) ts k = (None, k')"
  shows "rules k' = rules k \<and> (\<forall>f t. routes k' f t = (if (f, t) \<in> set ts then {} else routes k f t))"
  using assms
proof (induction ts arbitrary: k)
  case (Cons p ts)
  then obtain k1 where k1: "flushTableFamily A (fst p) (snd p) k = (None, k1)"
    "forE (\<lambda>t. flushTableFamily A (fst t) (snd t)) ts k1 = (None, k')"
    by (auto simp: act_None simp del: forE.simps)
  have "routes k1 f t = (if (f, t) = p then {} else routes k f t)" for f t
    using flushTableFamily_None(1,3) [OF k1(1)] by (cases p) auto
  with Cons.IH [OF k1(2)] flushTableFamily_None(2) [OF k1(1)] show ?case by auto
qed simp

text \<open>Installing routes: each destination has a route afterwards, and every new route was asked for.\<close>

abbreviation shown_in :: "Route list \<Rightarrow> int \<Rightarrow> int \<Rightarrow> Route set" where
  "shown_in \<equiv> installed_routes shown"

lemmas shown_in_def = installed_routes_def

lemma ReplaceRoute_None:
  assumes "ad_ReplaceRoute A q k = (None, k')"
  shows "routes k' f t \<subseteq> routes k f t \<union> shown_in [q] f t"
    and "route_Dst ` supported (routes k' f t) = route_Dst ` (supported (routes k f t) \<union> shown_in [q] f t)"
    and "shown_in [q] f t = {} \<Longrightarrow> routes k' f t = routes k f t"
proof -
  have other: "routes k' f t = routes k f t" if "\<not> (route_Family q = f \<and> route_Table q = t)"
    using that replace_route_sub [OF assms, of f t] replace_route_keeps [OF assms, of _ f t]
    by (auto split: if_splits)
  moreover have "routes k' f t \<subseteq> insert (shown q) (routes k f t) \<and> route_Dst ` supported (routes k' f t) =
      insert (route_Dst (shown q)) (route_Dst ` supported (routes k f t))"
    if f: "route_Family q = f" "route_Table q = t"
  proof
    show sub: "routes k' f t \<subseteq> insert (shown q) (routes k f t)"
      using replace_route_sub [OF assms, of f t] f by auto
    have q: "shown q \<in> supported (routes k' f t)"
      using replace_route [OF assms] f shown_supported by (simp add: supported_def)
    have "route_Dst x \<in> route_Dst ` supported (routes k' f t)" if "x \<in> supported (routes k f t)" for x
      using replace_route_keeps [OF assms, of x f t] that q
      by (cases "x \<in> routes k' f t") (auto simp: supported_def)
    with sub q show "route_Dst ` supported (routes k' f t) =
        insert (route_Dst (shown q)) (route_Dst ` supported (routes k f t))"
      by (auto simp: supported_def)
  qed
  ultimately show "routes k' f t \<subseteq> routes k f t \<union> shown_in [q] f t"
    and "route_Dst ` supported (routes k' f t) = route_Dst ` (supported (routes k f t) \<union> shown_in [q] f t)"
    unfolding shown_in_def by (cases "route_Family q = f \<and> route_Table q = t"; auto)+
  show "shown_in [q] f t = {} \<Longrightarrow> routes k' f t = routes k f t"
    using other unfolding shown_in_def by auto
qed

lemma forE_ReplaceRoute:
  assumes "forE (\<lambda>q. wrapE (w q) (ad_ReplaceRoute A q)) qs k = (None, k')"
  shows "rules k' = rules k \<and> routes k' f t \<subseteq> routes k f t \<union> shown_in qs f t \<and>
    route_Dst ` supported (routes k' f t) = route_Dst ` (supported (routes k f t) \<union> shown_in qs f t) \<and>
    (shown_in qs f t = {} \<longrightarrow> routes k' f t = routes k f t)"
  using assms
proof (induction qs arbitrary: k)
  case (Cons q qs)
  then obtain k1 where k1: "ad_ReplaceRoute A q k = (None, k1)"
    "forE (\<lambda>q. wrapE (w q) (ad_ReplaceRoute A q)) qs k1 = (None, k')"
    by (auto simp: act_None simp del: forE.simps)
  have "shown_in (q # qs) f t = shown_in [q] f t \<union> shown_in qs f t" by (auto simp: shown_in_def)
  with ReplaceRoute_None [OF k1(1), of f t] Cons.IH [OF k1(2)] replace_route_rules [OF k1(1)]
  show ?case unfolding image_Un by auto
qed (simp add: shown_in_def)

lemma supported_shown [simp]: "supported (shown_in qs f t) = shown_in qs f t"
  using shown_supported by (auto simp: supported_def shown_in_def)

end

end
