(* ===== verification/Routing_Apply.thy ===== *)
theory Routing_Apply
  imports Routing_Reconcile
begin

text \<open>
  The effect of the methods of the manager on the kernel: \<open>Apply\<close> (\<open>applyDesired\<close>), \<open>Refresh\<close> and
  \<open>Rollback\<close>. The first section shows that the states the compiler produces fit the locale of the
  adapter (their rules survive the conversion, lie in the owned block and avoid the priority of
  the guard); the invariant of a manager is that its applied state is such a state.
\<close>

section \<open>Compiled states\<close>

definition compiled_state :: "DesiredState \<Rightarrow> bool" where
  "compiled_state d \<longleftrightarrow>
     (\<exists>snap. CompileDesiredState (ds_Config d) snap = Inr d) \<and> no_priority_overflow (ds_Config d)"

definition manager_ok :: "'k Manager \<Rightarrow> bool" where
  "manager_ok m \<longleftrightarrow> (\<forall>a. mgr_applied m = Some a \<longrightarrow> compiled_state a)"

lemma compiled_state_valid: "compiled_state d \<Longrightarrow> valid_config (ds_Config d)"
  unfolding compiled_state_def using CompileDesiredState_Inr(1) by blast

lemma inPriorityBlock_iff:
  assumes "valid_config c" and "no_priority_overflow c"
  shows "inPriorityBlock c p \<longleftrightarrow> cfg_PriorityBase c \<le> p \<and> p < cfg_PriorityBase c + cfg_PrioritySpan c"
  using valid_config_priorities(3) [OF assms] by (auto simp: inPriorityBlock_def)

lemma addRules_proper: "\<forall>r \<in> set rs. proper_rule r \<Longrightarrow> r \<in> set (addRules p rs) \<Longrightarrow> proper_rule r"
  by (induction rs arbitrary: p) (auto simp: proper_rule_def canonical_rule_def)

lemma compileRules_proper:
  assumes "valid_config c" and "r \<in> set (compileRules c f)"
  shows "proper_rule r"
proof -
  have t: "cfg_VPNTable c \<noteq> 0" "cfg_SafeTable c \<noteq> 0" "cfg_AppBypassMask c \<noteq> 0" "cfg_UserMarkMask c \<noteq> 0"
    using assms(1) by (auto simp: valid_config_def reservedRouteTable_def)
  have "proper_rule x" if "x \<in> set (userRules c f)" for x
    using that t by (auto simp: userRules_def modeRules_def Let_def userRule_def allRule_def
        markRule_def proper_rule_def canonical_rule_def split: if_splits)
  then have u: "r \<in> set (addRules p (userRules c f)) \<Longrightarrow> proper_rule r" for p
    by (intro addRules_proper) auto
  have "proper_rule (markRule f p RuleLookup RT_TABLE_MAIN (cfg_AppBypassMark c) (cfg_AppBypassMask c))"
    and "proper_rule (markRule f p RuleUnreachable 0 (cfg_AppBypassMark c) (cfg_AppBypassMask c))" for p
    using t by (simp_all add: markRule_def proper_rule_def canonical_rule_def)
  with assms(2) u show ?thesis unfolding compileRules_split by auto
qed

lemma compileRules_block:
  assumes "valid_config c" and "no_priority_overflow c" and "r \<in> set (compileRules c f)"
  shows "inPriorityBlock c (rule_Priority r)" and "rule_Priority r \<noteq> cfg_PriorityBase c + 2"
proof -
  have "rule_Priority r \<in> set (map rule_Priority (compileRules c f))" using assms(3) by simp
  then have "rule_Priority r - cfg_PriorityBase c \<in>
      {0, 1} \<union> {3 + int i | i. i < length (userRules c f)}"
    unfolding compileRules_priorities [OF assms(1,2)] by auto
  then show "inPriorityBlock c (rule_Priority r)" and "rule_Priority r \<noteq> cfg_PriorityBase c + 2"
    using length_userRules [of c f] valid_configD(6) [OF assms(1)]
    by (auto simp: inPriorityBlock_iff [OF assms(1,2)])
qed

lemma compiled_rules:
  assumes "compiled_state d" and "r \<in> set (ds_Rules d)"
  shows "proper_rule r" and "familyEnabled (cfg_Families (ds_Config d)) (rule_Family r)"
    and "inPriorityBlock (ds_Config d) (rule_Priority r)"
    and "rule_Priority r \<noteq> cfg_PriorityBase (ds_Config d) + 2"
proof -
  from assms obtain snap f where c: "CompileDesiredState (ds_Config d) snap = Inr d"
    and n: "no_priority_overflow (ds_Config d)"
    and f: "f \<in> set (familyConstants (cfg_Families (ds_Config d)))" "r \<in> set (compileRules (ds_Config d) f)"
    unfolding compiled_state_def using CompileDesiredState_Inr(3) by fastforce
  note v = CompileDesiredState_Inr(1) [OF c]
  show "proper_rule r" by (rule compileRules_proper [OF v f(2)])
  show "familyEnabled (cfg_Families (ds_Config d)) (rule_Family r)"
    using f compileRules_family by (metis set_familyConstants)
  show "inPriorityBlock (ds_Config d) (rule_Priority r)"
    and "rule_Priority r \<noteq> cfg_PriorityBase (ds_Config d) + 2"
    by (rule compileRules_block [OF v n f(2)])+
qed

lemma compiled_routes:
  assumes "compiled_state d"
  shows "q \<in> set (ds_VPNRoutes d) \<Longrightarrow> route_Table q = cfg_VPNTable (ds_Config d) \<and>
      familyEnabled (cfg_Families (ds_Config d)) (route_Family q)"
    and "q \<in> set (ds_SafeRoutes d) \<Longrightarrow> route_Table q = cfg_SafeTable (ds_Config d) \<and>
      familyEnabled (cfg_Families (ds_Config d)) (route_Family q)"
proof -
  from assms obtain snap where c: "CompileDesiredState (ds_Config d) snap = Inr d"
    unfolding compiled_state_def by blast
  note all = CompileDesiredState_Inr [OF c]
  show "route_Table q = cfg_VPNTable (ds_Config d) \<and> familyEnabled (cfg_Families (ds_Config d)) (route_Family q)"
    if "q \<in> set (ds_VPNRoutes d)"
    using that valid_configD(9) [OF all(1)] unfolding all(4)
    by (auto dest!: compileVPNRoutes_shape split: if_splits)
  have "set (ds_SafeRoutes d) = set (map (\<lambda>r. safeTableRoute r (cfg_SafeTable (ds_Config d)))
      (filter (\<lambda>r. familyEnabled (cfg_Families (ds_Config d)) (route_Family r) \<and>
         ClassifySafeRoute r (cfg_TUNIndex (ds_Config d)) = RouteSafe) (snap_MainRoutes snap)))"
    using arg_cong [OF all(5), of set_mset] by simp
  then show "route_Table q = cfg_SafeTable (ds_Config d) \<and> familyEnabled (cfg_Families (ds_Config d)) (route_Family q)"
    if "q \<in> set (ds_SafeRoutes d)" using that by auto
qed

lemma guard_owned:
  assumes "valid_config c" and "no_priority_overflow c"
  shows "inPriorityBlock c (rule_Priority (transitionGuard c f))"
    and "rule_Priority (transitionGuard c f) = cfg_PriorityBase c + 2"
proof -
  show p: "rule_Priority (transitionGuard c f) = cfg_PriorityBase c + 2"
    using valid_config_priorities(2) [OF assms, of 2] valid_configD(6) [OF assms(1)] by simp
  show "inPriorityBlock c (rule_Priority (transitionGuard c f))"
    unfolding p inPriorityBlock_iff [OF assms] using valid_configD(6) [OF assms(1)] by simp
qed

text \<open>The configurations an operation works on: the new one and the applied one.\<close>

definition applied_ok :: "DesiredState option \<Rightarrow> bool" where
  "applied_ok applied \<longleftrightarrow> (\<forall>a. applied = Some a \<longrightarrow> compiled_state a)"

lemma set_withApplied:
  "set (withApplied c applied) = insert c (ds_Config ` set_option applied)"
  by (cases applied) (simp_all add: withApplied_def)

lemma withApplied_valid:
  assumes "valid_config c" and "no_priority_overflow c" and "applied_ok applied"
    and "c' \<in> set (withApplied c applied)"
  shows "valid_config c' \<and> no_priority_overflow c'"
  using assms compiled_state_valid
  by (auto simp: set_withApplied applied_ok_def compiled_state_def)

lemma guards_owned:
  assumes "\<forall>c \<in> set cs. valid_config c \<and> no_priority_overflow c" and "g \<in> set (transitionGuards cs)"
  shows "owned_priority cs (rule_Family g) (rule_Priority g)" and "proper_rule g" and "canonical_rule g"
proof -
  from assms(2) obtain c f where g: "g = transitionGuard c f" "c \<in> set cs" "familyEnabled (cfg_Families c) f"
    unfolding set_transitionGuards by blast
  with assms(1) guard_owned(1) [of c f] show "owned_priority cs (rule_Family g) (rule_Priority g)"
    unfolding owned_priority_def by auto
  show "proper_rule g" and "canonical_rule g"
    using transitionGuard_simps(4) [of c f] unfolding g proper_rule_def by blast+
qed

lemma obsolete_in_applied:
  "r \<in> set (obsoleteAtGuard ds gs applied) \<longleftrightarrow> (\<exists>a. applied = Some a \<and> r \<in> set (ds_Rules a)) \<and>
     r \<notin> set ds \<and> \<not> keepRule r gs \<and> sameRulePriorityAsGuard r gs"
  by (auto simp: obsoleteAtGuard_def split: option.splits)

lemma obsolete_proper: "applied_ok applied \<Longrightarrow> r \<in> set (obsoleteAtGuard ds gs applied) \<Longrightarrow> proper_rule r"
  using compiled_rules(1) unfolding obsolete_in_applied applied_ok_def by blast

section \<open>What a successful call leaves\<close>

text \<open>
  The rules of a state and the tables it owns are installed: the owned tables hold only the routes
  of the state, with a route for each of their destinations.
\<close>

definition state_installed :: "('k \<Rightarrow> Rule multiset) \<Rightarrow> ('k \<Rightarrow> int \<Rightarrow> int \<Rightarrow> Route set) \<Rightarrow>
    (Route \<Rightarrow> Route) \<Rightarrow> Config list \<Rightarrow> DesiredState \<Rightarrow> 'k \<Rightarrow> bool" where
  "state_installed rules routes shown cs d k \<longleftrightarrow>
     set (ds_Rules d) \<subseteq> set_mset (rules k) \<and>
     (\<forall>f t. owned_table cs f t \<longrightarrow>
        routes k f t \<subseteq> installed_routes shown (ds_VPNRoutes d @ ds_SafeRoutes d) f t \<and>
        route_Dst ` routes k f t =
          route_Dst ` installed_routes shown (ds_VPNRoutes d @ ds_SafeRoutes d) f t)"

text \<open>
  A rule that no state of this manager put there and that reads like a guard when it is listed:
  it is spared by the deletion of the owned rules.
\<close>

definition stale_at_guard :: "Config list \<Rightarrow> DesiredState option \<Rightarrow> Rule \<Rightarrow> bool" where
  "stale_at_guard cs applied r \<longleftrightarrow> (\<forall>a. applied = Some a \<longrightarrow> r \<notin> set (ds_Rules a)) \<and>
     (\<exists>g \<in> set (transitionGuards cs). r \<noteq> g \<and> listedRule r = listedRule g)"

text \<open>
  The states an installation may pass through: the old policy with some guards added, any state
  with all the guards, the new policy with some guards left.
\<close>

definition policy_old :: "('k \<Rightarrow> Rule multiset) \<Rightarrow> ('k \<Rightarrow> int \<Rightarrow> int \<Rightarrow> Route set) \<Rightarrow>
    Config list \<Rightarrow> 'k \<Rightarrow> 'k \<Rightarrow> bool" where
  "policy_old rules routes cs k x \<longleftrightarrow>
     set_mset (rules k) \<subseteq> set_mset (rules x) \<and>
     set_mset (rules x) \<subseteq> set_mset (rules k) \<union> set (transitionGuards cs) \<and> routes x = routes k"

definition policy_new :: "('k \<Rightarrow> Rule multiset) \<Rightarrow> ('k \<Rightarrow> int \<Rightarrow> int \<Rightarrow> Route set) \<Rightarrow>
    (Route \<Rightarrow> Route) \<Rightarrow> Config list \<Rightarrow> DesiredState option \<Rightarrow> DesiredState \<Rightarrow> 'k \<Rightarrow> 'k \<Rightarrow> bool" where
  "policy_new rules routes shown cs applied d k x \<longleftrightarrow>
     state_installed rules routes shown cs d x \<and>
     (\<forall>r. r \<in># rules x \<longrightarrow> owned_rule cs r \<longrightarrow> r \<in> set (ds_Rules d) \<or>
        r \<in> set (transitionGuards cs) \<or> r \<in># rules k \<and> stale_at_guard cs applied r)"

definition apply_phase :: "('k \<Rightarrow> Rule multiset) \<Rightarrow> ('k \<Rightarrow> int \<Rightarrow> int \<Rightarrow> Route set) \<Rightarrow>
    (Route \<Rightarrow> Route) \<Rightarrow> Config list \<Rightarrow> DesiredState option \<Rightarrow> DesiredState \<Rightarrow> 'k \<Rightarrow> 'k \<Rightarrow> bool" where
  "apply_phase rules routes shown cs applied d k x \<longleftrightarrow> policy_old rules routes cs k x \<or>
     set (transitionGuards cs) \<subseteq> set_mset (rules x) \<or> policy_new rules routes shown cs applied d k x"

section \<open>A log of the states between two calls\<close>

text \<open>An adapter that does what another one does and notes the state after every call.\<close>

definition traceCall :: "('k \<Rightarrow> 'a \<times> 'k) \<Rightarrow> 'k \<times> 'k list \<Rightarrow> 'a \<times> ('k \<times> 'k list)" where
  "traceCall f s = (case f (fst s) of (x, k') \<Rightarrow> (x, (k', k' # snd s)))"

definition traced :: "'k netlinkAdapter \<Rightarrow> ('k \<times> 'k list) netlinkAdapter" where
  "traced A = \<lparr>ad_LinkByIndex = \<lambda>i. traceCall (ad_LinkByIndex A i),
     ad_ListRoutes = \<lambda>f t. traceCall (ad_ListRoutes A f t),
     ad_ReplaceRoute = \<lambda>q. traceCall (ad_ReplaceRoute A q),
     ad_DeleteRoute = \<lambda>q. traceCall (ad_DeleteRoute A q),
     ad_ListRules = \<lambda>f. traceCall (ad_ListRules A f),
     ad_AddRule = \<lambda>r. traceCall (ad_AddRule A r),
     ad_DeleteRule = \<lambda>r. traceCall (ad_DeleteRule A r),
     ad_Close = traceCall (ad_Close A)\<rparr>"

text \<open>\<open>P\<close> holds now and \<open>Q\<close> held after every call so far.\<close>

definition logged :: "('k \<Rightarrow> bool) \<Rightarrow> ('k \<Rightarrow> bool) \<Rightarrow> 'k \<times> 'k list \<Rightarrow> bool" where
  "logged P Q s \<longleftrightarrow> P (fst s) \<and> (\<forall>k \<in> set (snd s). Q k)"

lemma traceCall_keeps: "(\<And>k. P k \<Longrightarrow> Q k) \<Longrightarrow> keeps P f \<Longrightarrow> keeps (logged P Q) (traceCall f)"
  by (auto simp: keeps_def logged_def traceCall_def case_prod_unfold)

lemma keeps_subset: "(\<And>g. g \<in> G \<Longrightarrow> keeps (\<lambda>k. g \<in> F k) f) \<Longrightarrow> keeps (\<lambda>k. G \<subseteq> F k) f"
  unfolding keeps_def by blast

lemma traced_simps [simp]:
  "ad_LinkByIndex (traced A) i = traceCall (ad_LinkByIndex A i)"
  "ad_ListRoutes (traced A) f t = traceCall (ad_ListRoutes A f t)"
  "ad_ReplaceRoute (traced A) q = traceCall (ad_ReplaceRoute A q)"
  "ad_DeleteRoute (traced A) q = traceCall (ad_DeleteRoute A q)"
  "ad_ListRules (traced A) f = traceCall (ad_ListRules A f)"
  "ad_AddRule (traced A) r = traceCall (ad_AddRule A r)"
  "ad_DeleteRule (traced A) r = traceCall (ad_DeleteRule A r)"
  by (simp_all add: traced_def)

lemma traceCall_eq: "traceCall f s = (x, s') \<longleftrightarrow> (\<exists>k'. f (fst s) = (x, k') \<and> s' = (k', k' # snd s))"
  by (auto simp: traceCall_def split: prod.splits)

section \<open>The frame and the guards\<close>

context netlink_adapter
begin

lemma views_keeps:
  assumes "\<And>k k'. rules k' = rules k \<Longrightarrow> routes k' = routes k \<Longrightarrow> I k \<Longrightarrow> I k'"
  shows "keeps I (ad_ListRoutes A f t)" and "keeps I (ad_ListRules A f)" and "keeps I (ad_LinkByIndex A i)"
  by (rule keepsI; metis assms link_same list_routes_same list_rules_same prod.collapse)+

lemma framed_list [inv_intros]:
  "keeps (framed P T k0) (ad_ListRoutes A f t)" "keeps (framed P T k0) (ad_ListRules A f)"
  "keeps (framed P T k0) (ad_LinkByIndex A i)"
  by (rule views_keeps; simp add: framed_def)+

lemma applyDesired_framed:
  fixes applied desired
  defines "cs \<equiv> withApplied (ds_Config desired) applied"
  assumes d: "compiled_state desired" and a: "applied_ok applied"
  shows "keeps (framed (owned_priority cs) (owned_table cs) k0) (applyDesired A applied desired)"
proof -
  let ?I = "framed (owned_priority cs) (owned_table cs) k0"
  have ok: "\<forall>c \<in> set cs. valid_config c \<and> no_priority_overflow c"
    using withApplied_valid d a compiled_state_valid unfolding cs_def compiled_state_def by blast
  have dc: "ds_Config desired \<in> set cs" and ac: "\<And>b. applied = Some b \<Longrightarrow> ds_Config b \<in> set cs"
    unfolding cs_def set_withApplied by auto
  have rule: "canonical_rule r \<and> owned_priority cs (rule_Family r) (rule_Priority r)"
    if "compiled_state b" "ds_Config b \<in> set cs" "r \<in> set (ds_Rules b)" for b r
    using compiled_rules [OF that(1,3)] that(2) unfolding owned_priority_def proper_rule_def by blast
  have route: "owned_table cs (route_Family q) (route_Table q)"
    if "q \<in> set (ds_VPNRoutes desired) \<union> set (ds_SafeRoutes desired)" for q
    using that compiled_routes [OF d] dc unfolding owned_table_def by blast
  have rec: "keeps ?I (reconcile A applied desired)"
    unfolding cs_def
  proof (rule reconcile_keeps, unfold cs_def [symmetric])
    show "keeps ?I (ad_DeleteRule A r)"
      if "r \<in> set (obsoleteAtGuard (ds_Rules desired) (transitionGuards cs) applied)" for r
      using that rule ac a unfolding obsolete_in_applied applied_ok_def by (blast intro: DeleteRule_framed)
    show "keeps ?I (ad_DeleteRoute A q)" if "(f, t) \<in> set (ownedTableTargets cs)"
      "ad_ListRoutes A f t k = (Inr qs, k')" "q \<in> set qs" for f t k qs k' q
      using that list_routes [OF that(2)] unfolding set_ownedTableTargets
      by (blast intro: DeleteRoute_framed)
    show "keeps ?I (ad_ReplaceRoute A q)"
      if "q \<in> set (ds_VPNRoutes desired) \<union> set (ds_SafeRoutes desired)" for q
      using route [OF that] by (rule ReplaceRoute_framed)
    show "keeps ?I (ad_DeleteRule A x)" if "s \<in> set (ownedRuleScopes cs)"
      "ad_ListRules A (scope_family s) k = (Inr xs, k')" "x \<in> set xs"
      "inPriorityBlock (scope_config s) (rule_Priority x)" for s k xs k' x
      using that listed_canonical [OF that(2,3)] ownedRuleScopes_sub [OF that(1)]
      unfolding owned_priority_def by (intro DeleteRule_framed) auto
    show "keeps ?I (ad_AddRule A r)" if "r \<in> set (ds_Rules desired)" for r
      using rule [OF d dc that] by (intro AddRule_framed) auto
  qed (rule framed_list)+
  with guards_owned [OF ok] show ?thesis unfolding applyDesired_def Let_def cs_def [symmetric]
    by (intro inv_intros installGuards_keeps removeGuards_keeps) auto
qed

text \<open>While the state is reconciled each guard stays, after every single call.\<close>

lemma reconcile_guarded:
  fixes applied desired
  defines "gs \<equiv> transitionGuards (withApplied (ds_Config desired) applied)"
  assumes d: "compiled_state desired" and a: "applied_ok applied"
  shows "keeps (\<lambda>k. set gs \<subseteq> rule_set k) (reconcile A applied desired)"
    and "(\<And>k. set gs \<subseteq> rule_set k \<Longrightarrow> Q k) \<Longrightarrow>
      keeps (logged (\<lambda>k. set gs \<subseteq> rule_set k) Q) (reconcile (traced A) applied desired)"
proof -
  let ?I = "\<lambda>k. set gs \<subseteq> rule_set k"
  have keep: "x \<noteq> g \<and> x \<noteq> lst g" if "\<not> keepRule x gs" "g \<in> set gs" for x g
    using that lst_cases [of g] unfolding keepRule_iff by metis
  have obs: "keeps ?I (ad_DeleteRule A r)"
    if "r \<in> set (obsoleteAtGuard (ds_Rules desired) gs applied)" for r
    using keep [of r] that obsolete_proper [OF a that] unfolding obsolete_in_applied proper_rule_def
    by (intro keeps_subset DeleteRule_present) auto
  have delr: "keeps ?I (ad_DeleteRoute A q)" for q
    by (rule keepsI) (metis prod.collapse delete_route_rules)
  have own: "keeps ?I (ad_DeleteRule A x)"
    if "ad_ListRules A f k = (Inr xs, k')" "x \<in> set xs" "\<not> keepRule x gs" for f k xs k' x
    using keep [OF that(3)] listed_canonical(1) [OF that(1,2)]
    by (intro keeps_subset DeleteRule_present) auto
  have add: "keeps ?I (ad_AddRule A r)" if "r \<in> set (ds_Rules desired)" for r
    using compiled_rules(1) [OF d that] by (intro keeps_subset AddRule_present) (simp add: proper_rule_def)
  have rep: "keeps ?I (ad_ReplaceRoute A q)" for q by (rule ReplaceRoute_rules)
  have lists: "keeps ?I (ad_ListRoutes A f t)" "keeps ?I (ad_ListRules A f)" for f t
    by (rule views_keeps; simp)+
  note prims = lists obs delr own add rep
  show "keeps ?I (reconcile A applied desired)"
    unfolding gs_def using own [unfolded gs_def]
    by (intro reconcile_keeps) (auto simp flip: gs_def intro: prims)
  show "keeps (logged ?I Q) (reconcile (traced A) applied desired)" if "\<And>k. ?I k \<Longrightarrow> Q k"
    using that own unfolding gs_def
    by (intro reconcile_keeps)
      (auto simp: traceCall_eq simp flip: gs_def intro!: traceCall_keeps intro: prims)
qed

lemma reconcile_None:
  fixes applied desired
  defines "cs \<equiv> withApplied (ds_Config desired) applied"
  assumes r: "reconcile A applied desired k = (None, k')" and n: "no_dup k"
    and d: "compiled_state desired" and a: "applied_ok applied"
  shows "rule_set k' = set (ds_Rules desired) \<union>
      {r \<in> rule_set k. r \<notin> set (obsoleteAtGuard (ds_Rules desired) (transitionGuards cs) applied) \<and>
         (owned_rule cs r \<longrightarrow> keepRule (lst r) (transitionGuards cs))}"
    and "no_dup k'"
    and "owned_table cs f t \<Longrightarrow> routes k' f t \<subseteq> shown_in (ds_VPNRoutes desired @ ds_SafeRoutes desired) f t \<and>
      route_Dst ` routes k' f t = route_Dst ` shown_in (ds_VPNRoutes desired @ ds_SafeRoutes desired) f t"
proof -
  let ?obs = "obsoleteAtGuard (ds_Rules desired) (transitionGuards cs) applied"
  from r obtain k1 k2 k3 k4 k5 where
    o: "forE (\<lambda>r. wrapE (\<lambda>e. Errorf ''remove obsolete rule at transition priority: %w'' [] [e])
        (ad_DeleteRule A r)) ?obs k = (None, k1)"
    and fl: "forE (\<lambda>t. flushTableFamily A (fst t) (snd t)) (ownedTableTargets cs) k1 = (None, k2)"
    and v: "forE (\<lambda>r. wrapE (\<lambda>e. Errorf ''install VPN route %s: %w'' [] [e])
        (ad_ReplaceRoute A r)) (ds_VPNRoutes desired) k2 = (None, k3)"
    and sf: "forE (\<lambda>r. wrapE (\<lambda>e. Errorf ''install safe route %s: %w'' [] [e])
        (ad_ReplaceRoute A r)) (ds_SafeRoutes desired) k3 = (None, k4)"
    and ow: "forE (\<lambda>s. deleteOwnedRules A (scope_config s) (scope_family s) (transitionGuards cs))
        (ownedRuleScopes cs) k4 = (None, k5)"
    and ad: "forE (\<lambda>r. wrapE (\<lambda>e. Errorf ''install rule priority %d: %w'' [AInt (rule_Priority r)] [e])
        (ad_AddRule A r)) (ds_Rules desired) k5 = (None, k')"
    unfolding reconcile_def Let_def cs_def [symmetric] thenE_None by blast
  have pr: "\<forall>r \<in> set ?obs. proper_rule r" using obsolete_proper [OF a] by blast
  have cn: "\<forall>r \<in> set (ds_Rules desired). canonical_rule r"
    using compiled_rules(1) [OF d] unfolding proper_rule_def by blast
  have 1: "rule_set k1 = rule_set k - set ?obs" "no_dup k1" "routes k1 = routes k"
    using forE_DeleteRule [OF o pr n] by auto
  have 4: "rules k4 = rules k1"
    using forE_flush [OF fl] forE_ReplaceRoute [OF v] forE_ReplaceRoute [OF sf] by simp
  have 5: "rules k5 = filter_mset (\<lambda>r. \<not> (owned_rule cs r \<and> \<not> keepRule (lst r) (transitionGuards cs))) (rules k4)"
    "routes k5 = routes k4"
    using forE_deleteOwnedRules [OF ow] unfolding owned_rule_def ownedRuleScopes_owned by auto
  have "no_dup k5" using 1(2) unfolding 5 4 by simp
  note last = forE_AddRule [OF ad cn this]
  show "rule_set k' = set (ds_Rules desired) \<union>
      {r \<in> rule_set k. r \<notin> set ?obs \<and> (owned_rule cs r \<longrightarrow> keepRule (lst r) (transitionGuards cs))}"
    using last 1(1) unfolding 5 4 by auto
  show "no_dup k'" using last by blast
  show "routes k' f t \<subseteq> shown_in (ds_VPNRoutes desired @ ds_SafeRoutes desired) f t \<and>
      route_Dst ` routes k' f t = route_Dst ` shown_in (ds_VPNRoutes desired @ ds_SafeRoutes desired) f t"
    if "owned_table cs f t"
  proof -
    have "routes k2 f t = {}" using forE_flush [OF fl] that unfolding set_ownedTableTargets by auto
    moreover have "shown_in (ds_VPNRoutes desired @ ds_SafeRoutes desired) f t =
        shown_in (ds_VPNRoutes desired) f t \<union> shown_in (ds_SafeRoutes desired) f t"
      by (auto simp: shown_in_def)
    ultimately have sub: "routes k4 f t \<subseteq> shown_in (ds_VPNRoutes desired @ ds_SafeRoutes desired) f t"
      and dst: "route_Dst ` supported (routes k4 f t) =
        route_Dst ` shown_in (ds_VPNRoutes desired @ ds_SafeRoutes desired) f t"
      using forE_ReplaceRoute [OF v, of f t] forE_ReplaceRoute [OF sf, of f t] unfolding image_Un by auto
    with supported_sub [OF sub] show ?thesis using last 5(2) by simp
  qed
qed

text \<open>An owned rule that survives the deletion is a guard, or reads like one and is not ours.\<close>

lemma kept_rule:
  assumes a: "applied_ok applied" and "canonical_rule r" and "r \<notin> set ds" and "r \<notin> set (transitionGuards cs)"
    and "r \<notin> set (obsoleteAtGuard ds (transitionGuards cs) applied)"
    and "keepRule (lst r) (transitionGuards cs)"
  shows "stale_at_guard cs applied r"
proof -
  obtain g where g: "g \<in> set (transitionGuards cs)" "lst r = g \<or> lst r = listedRule g"
    using assms(6) unfolding keepRule_iff by blast
  then have same: "rule_Family r = rule_Family g" "rule_Priority r = rule_Priority g"
    by (metis lst_simps(1) listedRule_simps(1)) (metis g(2) lst_simps(2) listedRule_simps(2))
  have lg: "listedRule (listedRule x) = listedRule x" for x by (simp add: listedRule_def)
  have ng: "r \<noteq> g" using assms(4) g(1) by blast
  have un: "rule_Action g = RuleUnreachable" "rule_Table g = 0" "rule_Table (listedRule g) = 0"
    using g(1) unfolding set_transitionGuards by (auto simp: transitionGuard_def markRule_def listedRule_def)
  have "lst r \<noteq> g" using lst_cases [of r] ng un(1) by (metis RuleAction.distinct(1) listedRule_simps(3))
  then have rg: "listedRule r = listedRule g" using g(2) lst_cases [of r] lg by metis
  have "r \<notin> set (ds_Rules b)" if b: "applied = Some b" for b
  proof
    assume r: "r \<in> set (ds_Rules b)"
    then have "proper_rule r" using a b compiled_rules(1) unfolding applied_ok_def by blast
    then have "\<not> keepRule r (transitionGuards cs)"
      using assms(4) un unfolding keepRule_iff set_transitionGuards proper_rule_def
      by (auto simp: listedRule_def transitionGuard_def markRule_def)
    moreover have "sameRulePriorityAsGuard r (transitionGuards cs)"
      using g(1) same unfolding sameRulePriorityAsGuard_iff by blast
    ultimately show False using assms(3,5) r b unfolding obsolete_in_applied by blast
  qed
  with ng rg g(1) show ?thesis unfolding stale_at_guard_def by blast
qed

lemma reconcile_installed:
  fixes applied desired
  defines "cs \<equiv> withApplied (ds_Config desired) applied"
  assumes r: "reconcile A applied desired k = (None, k')" and n: "no_dup k"
    and d: "compiled_state desired" and a: "applied_ok applied"
  shows "state_installed rules routes shown cs desired k'" and "no_dup k'"
    and "r \<in> rule_set k' \<Longrightarrow> owned_rule cs r \<Longrightarrow> r \<in> set (ds_Rules desired) \<or>
      r \<in> set (transitionGuards cs) \<or> r \<in> rule_set k \<and> stale_at_guard cs applied r"
proof -
  note rec = reconcile_None [OF r n d a, folded cs_def]
  show "state_installed rules routes shown cs desired k'"
    using rec(1,3) unfolding state_installed_def by blast
  show "no_dup k'" by (rule rec(2))
  show "r \<in> set (ds_Rules desired) \<or> r \<in> set (transitionGuards cs) \<or>
      r \<in> rule_set k \<and> stale_at_guard cs applied r" if "r \<in> rule_set k'" "owned_rule cs r"
    using that kept_rule [OF a, of r "ds_Rules desired" cs] rules_canonical [of r k] unfolding rec(1) by blast
qed

lemma guards_facts:
  assumes "compiled_state desired" and "applied_ok applied"
    and "g \<in> set (transitionGuards (withApplied (ds_Config desired) applied))"
  shows "proper_rule g" and "canonical_rule g"
    and "owned_priority (withApplied (ds_Config desired) applied) (rule_Family g) (rule_Priority g)"
  using guards_owned [of "withApplied (ds_Config desired) applied" g] assms(3)
    withApplied_valid [OF compiled_state_valid [OF assms(1)] _ assms(2)] assms(1)
  unfolding compiled_state_def by blast+

lemma applyDesired_None:
  fixes applied desired
  defines "cs \<equiv> withApplied (ds_Config desired) applied"
  assumes r: "applyDesired A applied desired k = (None, k')" and n: "no_dup k"
    and d: "compiled_state desired" and a: "applied_ok applied"
  shows "state_installed rules routes shown cs desired k'" and "no_dup k'"
    and "r \<in> rule_set k' \<Longrightarrow> owned_rule cs r \<Longrightarrow>
      r \<in> set (ds_Rules desired) \<or> r \<in> rule_set k \<and> stale_at_guard cs applied r"
proof -
  note g = guards_facts [OF d a, folded cs_def]
  let ?left = "filter (\<lambda>g. g \<notin> set (ds_Rules desired)) (transitionGuards cs)"
  from r obtain k1 k2 where 1: "installGuards A False (transitionGuards cs) k = (None, k1)"
    and 2: "reconcile A applied desired k1 = (None, k2)" and 3: "removeGuards A ?left k2 = (None, k')"
    unfolding applyDesired_def Let_def cs_def [symmetric] act_None by blast
  have i: "rule_set k1 = set (transitionGuards cs) \<union> rule_set k" "no_dup k1"
    using installGuards_None [OF 1 _ n] g(2) by auto
  note rec = reconcile_installed [OF 2 i(2) d a, folded cs_def]
  have l: "rule_set k' = rule_set k2 - set ?left" "no_dup k'" "routes k' = routes k2"
    using forE_DeleteRule [OF 3 [unfolded removeGuards_def] _ rec(2)] g(1) by auto
  show "state_installed rules routes shown cs desired k'"
    using rec(1) l(1,3) unfolding state_installed_def by auto
  show "no_dup k'" by (rule l(2))
  show "r \<in> set (ds_Rules desired) \<or> r \<in> rule_set k \<and> stale_at_guard cs applied r"
    if "r \<in> rule_set k'" "owned_rule cs r"
    using that rec(3) [of r] i(1) unfolding l(1) by auto
qed

text \<open>A call that fails has changed nothing, or it says that a guard is active, and one is.\<close>

lemma installGuards_Some:
  assumes "installGuards A b gs k = (Some e, k')" and "\<forall>g \<in> set gs. canonical_rule g"
  shows "(\<exists>e'. e = failWith True e') \<and> (b \<or> (\<exists>g \<in> set gs. g \<in># rules k')) \<or>
    rules k' = rules k \<and> routes k' = routes k"
  using assms
proof (induction gs arbitrary: b k)
  case (Cons g gs)
  show ?case
  proof (cases "ad_AddRule A g k")
    case (Pair z k1)
    show ?thesis
    proof (cases z)
      case None
      then have rest: "installGuards A True gs k1 = (Some e, k')" using Cons.prems(1) Pair by simp
      have "g \<in># rules k1" using add_rule [of g k k1] Pair None Cons.prems(2) by (auto split: if_splits)
      then have "g \<in># rules k'"
        using keepsD [OF installGuards_keeps [of gs "\<lambda>k. g \<in># rules k" A True]] Cons.prems(2) rest
          AddRule_present by (metis list.set_intros(2) snd_conv)
      moreover have "\<exists>e'. e = failWith True e'" using rest
      proof (induction gs arbitrary: k1)
        case (Cons h hs)
        then show ?case by (auto split: prod.splits option.splits)
      qed simp
      ultimately show ?thesis by auto
    next
      case (Some e0)
      then show ?thesis using Cons.prems(1) Pair add_rule_fail add_rule_routes by auto
    qed
  qed
qed simp

lemma removeGuards_Some:
  assumes "removeGuards A gs k = (Some e, k')" and "\<forall>g \<in> set gs. proper_rule g"
    and "set gs \<subseteq> rule_set k" and "distinct gs"
  shows "\<exists>g \<in> set gs. g \<in># rules k'"
  using assms unfolding removeGuards_def
proof (induction gs arbitrary: k)
  case (Cons g gs)
  obtain z k1 where x: "ad_DeleteRule A g k = (z, k1)" by force
  show ?case
  proof (cases z)
    case (Some e0)
    then show ?thesis using Cons.prems x delete_rule_fail [of g k e0 k1] by (auto simp: wrapE_def)
  next
    case None
    have "h \<in># rules k1" if "h \<in> set gs" for h
    proof -
      have h: "h \<in># rules k" "h \<noteq> g" "canonical_rule g" "proper_rule g"
        using that Cons.prems by (auto simp: proper_rule_def)
      then have "g \<noteq> lst h" using lst_proper [OF rules_canonical [OF h(1)] h(4)] by metis
      then show ?thesis using keepsD [OF DeleteRule_present [OF h(3)], of h k] h(1,2) x by auto
    qed
    then have "\<exists>h \<in> set gs. h \<in># rules k'"
      using Cons.IH [of k1] Cons.prems x None by (auto simp: wrapE_def)
    then show ?thesis by auto
  qed
qed simp

lemma applyDesired_Some:
  fixes applied desired
  defines "G \<equiv> transitionGuards (withApplied (ds_Config desired) applied)"
  assumes r: "applyDesired A applied desired k = (Some e, k')" and n: "no_dup k"
    and d: "compiled_state desired" and a: "applied_ok applied"
  shows "(\<exists>e'. e = failWith True e') \<and> (\<exists>g \<in> set G. g \<in># rules k') \<or>
    rules k' = rules k \<and> routes k' = routes k"
proof -
  note g = guards_facts [OF d a, folded G_def]
  obtain z k1 where i: "installGuards A False G k = (z, k1)" by force
  show ?thesis
  proof (cases z)
    case (Some e0)
    then have "e0 = e" "k1 = k'" using r i unfolding applyDesired_def G_def [symmetric] Let_def thenE_def by auto
    then show ?thesis using installGuards_Some [of False G k e k'] i Some g(2) by auto
  next
    case None
    have in1: "set G \<subseteq> rule_set k1" using installGuards_None [of False G k k1] i None g(2) n by auto
    obtain f where "familyEnabled (cfg_Families (ds_Config desired)) f"
      using valid_configD(10) [OF compiled_state_valid [OF d]] set_familyConstants by (metis list.set_sel(1))
    then have "transitionGuard (ds_Config desired) f \<in> set G"
      unfolding G_def set_transitionGuards set_withApplied by blast
    then have ne: "G \<noteq> []" by auto
    obtain z2 k2 where rec: "reconcile A applied desired k1 = (z2, k2)" by force
    have in2: "set G \<subseteq> rule_set k2"
      using keepsD [OF reconcile_guarded(1) [OF d a]] in1 rec unfolding G_def by (metis snd_conv)
    let ?left = "filter (\<lambda>g. g \<notin> set (ds_Rules desired)) G"
    from r i None ne rec have e: "\<exists>e'. e = failWith True e'" and
      cases: "z2 \<noteq> None \<and> k' = k2 \<or> (\<exists>e'. removeGuards A ?left k2 = (Some e', k'))"
      unfolding applyDesired_def G_def [symmetric] Let_def thenE_def wrapE_def
      by (auto split: prod.splits option.splits)
    have dist: "distinct G" unfolding G_def transitionGuards_def by simp
    from cases have "\<exists>g \<in> set G. g \<in># rules k'"
    proof
      assume "z2 \<noteq> None \<and> k' = k2"
      with in2 ne show ?thesis by (metis last_in_set subsetD)
    next
      assume "\<exists>e'. removeGuards A ?left k2 = (Some e', k')"
      then obtain e' where "removeGuards A ?left k2 = (Some e', k')" by blast
      from removeGuards_Some [OF this] g(1) in2 dist show ?thesis by auto
    qed
    with e show ?thesis by blast
  qed
qed

text \<open>The traced adapter keeps the promises of the adapter it traces.\<close>

lemma traced_adapter:
  "netlink_adapter (traced A) (\<lambda>s. rules (fst s)) (\<lambda>s. routes (fst s)) lst shown"
  by (unfold_locales; (unfold traced_simps traceCall_eq)?; (elim exE conjE)?; (simp only: fst_conv)?;
      (rule lst_cases lst_lst shown_supported | rule rules_canonical link_same list_routes_same list_routes
         list_rules_same list_rules add_rule add_rule_fail add_rule_routes delete_rule delete_rule_fail
         delete_rule_routes replace_route replace_route_sub replace_route_keeps replace_route_rules
         delete_route delete_route_sub delete_route_keeps delete_route_rules, assumption+))

lemma AddRule_old:
  assumes "canonical_rule g" and "g \<in> set (transitionGuards cs)"
  shows "keeps (policy_old rules routes cs k) (ad_AddRule A g)"
proof
  fix y assume y: "policy_old rules routes cs k y"
  obtain z y' where ad: "ad_AddRule A g y = (z, y')" by force
  have "rules y' = rules y \<or> rules y' = add_mset g (rules y)"
    using add_rule [of g y y'] add_rule_fail [of g y] ad assms(1) by (cases z) (auto split: if_splits)
  with y assms(2) add_rule_routes [OF ad] show "policy_old rules routes cs k (snd (ad_AddRule A g y))"
    unfolding ad policy_old_def by auto
qed

lemma DeleteRule_new:
  assumes "proper_rule g" and "g \<notin> set (ds_Rules d)"
  shows "keeps (\<lambda>x. policy_new rules routes shown cs applied d k x \<and> no_dup x) (ad_DeleteRule A g)"
proof
  fix y assume y: "policy_new rules routes shown cs applied d k y \<and> no_dup y"
  obtain z y' where de: "ad_DeleteRule A g y = (z, y')" by force
  have "rules y' = rules y \<or> rule_set y' = rule_set y - {g} \<and> no_dup y'"
    using DeleteRule_None(1,2) [of g y y'] delete_rule_fail [of g y] de assms(1) y by (cases z) auto
  then show "policy_new rules routes shown cs applied d k (snd (ad_DeleteRule A g y)) \<and>
      no_dup (snd (ad_DeleteRule A g y))"
    using y assms(2) delete_rule_routes [OF de]
    unfolding de snd_conv policy_new_def state_installed_def by (elim disjE) auto
qed

lemma reconcile_new:
  fixes applied desired
  defines "cs \<equiv> withApplied (ds_Config desired) applied"
  assumes "reconcile (traced A) applied desired (k1, h1) = (None, k2, h2)"
    and "rule_set k1 = set (transitionGuards cs) \<union> rule_set k" and "no_dup k1"
    and "compiled_state desired" and "applied_ok applied"
  shows "policy_new rules routes shown cs applied desired k k2 \<and> no_dup k2"
proof -
  have n: "\<forall>r. count (rules (fst (k1, h1))) r \<le> 1" using assms(4) by simp
  note rec = netlink_adapter.reconcile_installed [OF traced_adapter assms(2) n assms(5,6), folded cs_def]
  have "state_installed rules routes shown cs desired k2"
    using rec(1) unfolding state_installed_def fst_conv .
  moreover have "r \<in> set (ds_Rules desired) \<or> r \<in> set (transitionGuards cs) \<or>
      r \<in># rules k \<and> stale_at_guard cs applied r" if "r \<in># rules k2" "owned_rule cs r" for r
    using rec(3) [of r] that assms(3) by auto
  moreover have "no_dup k2" using rec(2) by simp
  ultimately show ?thesis unfolding policy_new_def by blast
qed

lemma applyDesired_phases:
  fixes applied desired
  defines "cs \<equiv> withApplied (ds_Config desired) applied"
  assumes r: "applyDesired (traced A) applied desired (k, []) = (z, k', h)" and n: "no_dup k"
    and d: "compiled_state desired" and a: "applied_ok applied" and x: "x \<in> set h"
  shows "apply_phase rules routes shown cs applied desired k x"
proof -
  let ?gs = "transitionGuards cs" and ?Q = "apply_phase rules routes shown cs applied desired k"
  let ?left = "filter (\<lambda>g. g \<notin> set (ds_Rules desired)) ?gs"
  let ?new = "\<lambda>x. policy_new rules routes shown cs applied desired k x \<and> no_dup x"
  note g = guards_facts [OF d a, folded cs_def]
  have old: "keeps (logged (policy_old rules routes cs k) ?Q) (installGuards (traced A) False ?gs)"
    using g(2) by (intro installGuards_keeps) (auto simp: apply_phase_def intro!: traceCall_keeps AddRule_old)
  have new: "keeps (logged ?new ?Q) (removeGuards (traced A) ?left)"
    using g(1) by (intro removeGuards_keeps, unfold traced_simps, intro traceCall_keeps DeleteRule_new)
      (auto simp: apply_phase_def)
  obtain z1 k1 h1 where 1: "installGuards (traced A) False ?gs (k, []) = (z1, k1, h1)" by (metis prod.exhaust)
  have p1: "\<forall>x \<in> set h1. ?Q x" using keepsD [OF old, of "(k, [])"] 1 by (simp add: logged_def policy_old_def)
  obtain z2 k2 h2 where 2: "reconcile (traced A) applied desired (k1, h1) = (z2, k2, h2)" by (metis prod.exhaust)
  have run: "h = (if z1 \<noteq> None then h1 else if z2 \<noteq> None then h2
      else snd (snd (removeGuards (traced A) ?left (k2, h2))))"
    using r 1 2 unfolding applyDesired_def Let_def cs_def [symmetric]
    by (cases z1; cases z2) (auto simp: thenE_def wrapE_def split: prod.splits)
  show ?thesis
  proof (cases "z1 = None")
    case True
    have i: "rule_set k1 = set ?gs \<union> rule_set k" "no_dup k1"
      using netlink_adapter.installGuards_None [OF traced_adapter 1 [unfolded True]] g(2) n by fastforce+
    have "keeps (logged (\<lambda>k. set ?gs \<subseteq> rule_set k) ?Q) (reconcile (traced A) applied desired)"
      unfolding cs_def by (rule reconcile_guarded(2) [OF d a]) (simp add: apply_phase_def)
    from keepsD [OF this, of "(k1, h1)"] have p2: "\<forall>x \<in> set h2. ?Q x" using i(1) p1 2 by (simp add: logged_def)
    show ?thesis
    proof (cases "z2 = None")
      case z2: True
      from reconcile_new [OF 2 [unfolded z2] i [unfolded cs_def] d a] keepsD [OF new, of "(k2, h2)"] p2
      show ?thesis using x True z2 unfolding run cs_def by (simp add: logged_def)
    qed (use p2 x True in \<open>simp add: run\<close>)
  qed (use p1 x in \<open>simp add: run\<close>)
qed

end

end
