(* ===== verification/Routing_Monitor.thy ===== *)
theory Routing_Monitor
  imports Routing_Manager
begin

text \<open>
  The construction of a manager (\<open>newManager\<close> of \<open>routing/manager.go\<close>) and the goroutine that watches
  the main table (\<open>routing/monitor.go\<close>). The goroutine is a state machine: a step is one case of its
  select, between two steps other goroutines may run methods of the manager. Time is not modelled:
  a timer is armed with one of two delays or not armed. A fresh subscription is a call whose
  result is part of the event that needs it.
\<close>

section \<open>Construction\<close>

abbreviation PinnedNamespace :: int where "PinnedNamespace \<equiv> 0"
abbreviation CurrentNamespace :: int where "CurrentNamespace \<equiv> 1"

record 'k managerDependencies =
  dep_newAdapter :: "('k, 'k netlinkAdapter) query"
  dep_getNamespace :: "('k, int) query"
  dep_closeNamespace :: "int \<Rightarrow> 'k act"
  dep_subscribe :: "'k act"

text \<open>\<open>subscribe\<close> opens the first subscription; the manager is new, so that it is not closed.\<close>

definition startRouteMonitor :: "'k Manager \<Rightarrow> 'k act \<Rightarrow> 'k \<Rightarrow> goError option \<times> 'k Manager \<times> 'k" where
  "startRouteMonitor m subscribe k = (case subscribe k of
       (Some e, k') \<Rightarrow> (Some e, m, k')
     | (None, k') \<Rightarrow>
       (if mgr_closed m then (Some (ErrorsNew ''routing: manager is closed''), m, k')
        else (None, m\<lparr>mgr_monitorDone := True\<rparr>, k')))"

definition newManager ::
    "int \<Rightarrow> 'k managerDependencies \<Rightarrow> 'k \<Rightarrow> (goError + 'k Manager) \<times> 'k" where
  "newManager monitorNamespace deps k =
     (if monitorNamespace \<noteq> PinnedNamespace \<and> monitorNamespace \<noteq> CurrentNamespace then
        (Inl (Errorf ''routing: invalid monitor namespace mode %d'' [AInt monitorNamespace] []), k)
      else (case dep_newAdapter deps k of
         (Inl e, k1) \<Rightarrow> (Inl e, k1)
       | (Inr adapter, k1) \<Rightarrow>
        (case (if monitorNamespace = PinnedNamespace then
                (case dep_getNamespace deps k1 of
                   (Inl e, k2) \<Rightarrow> (Inl e, k2)
                 | (Inr ns, k2) \<Rightarrow> (Inr (Some (dep_closeNamespace deps ns)), k2))
              else (Inr None, k1)) of
           (Inl e, k2) \<Rightarrow>
             (Inl (Errorf ''open route monitor namespace: %w'' [] [e]), snd (ad_Close adapter k2))
         | (Inr nsClose, k2) \<Rightarrow>
          (case startRouteMonitor ((newManagerWithAdapter adapter)\<lparr>mgr_monitorNSClose := nsClose\<rparr>)
                  (dep_subscribe deps) k2 of
             (Some e, m, k3) \<Rightarrow>
               (Inl (Errorf ''monitor main routes: %w'' [] [e]),
                case nsClose of None \<Rightarrow> snd (ad_Close adapter k3)
                | Some close \<Rightarrow> snd (close (snd (ad_Close adapter k3))))
           | (None, m, k3) \<Rightarrow> (Inr m, k3)))))"

section \<open>The goroutine\<close>

datatype Delay = Debounce | Retry

record 'k MonitorState =
  mon_manager :: "'k Manager"
  mon_kernel :: 'k
  mon_done :: bool
  mon_subscribed :: bool
  mon_timer :: "Delay option"
  mon_pending :: bool
  mon_running :: bool

text \<open>
  The cases of the select: the done channel, a closed event channel, an update of a table, the
  timer with the error of the new subscription it may have to open.
\<close>

datatype MonitorEvent = EvDone | EvClosed | EvUpdate int | EvTimer "goError option"

definition monitorStart :: "'k Manager \<Rightarrow> 'k \<Rightarrow> 'k MonitorState" where
  "monitorStart m k = \<lparr>mon_manager = m, mon_kernel = k, mon_done = False, mon_subscribed = True,
     mon_timer = None, mon_pending = False, mon_running = True\<rparr>"

fun monitorEnabled :: "MonitorEvent \<Rightarrow> 'k MonitorState \<Rightarrow> bool" where
  "monitorEnabled EvDone s = (mon_running s \<and> mon_done s)"
| "monitorEnabled EvClosed s = (mon_running s \<and> mon_subscribed s)"
| "monitorEnabled (EvUpdate t) s = (mon_running s \<and> mon_subscribed s)"
| "monitorEnabled (EvTimer e) s = (mon_running s \<and> mon_timer s \<noteq> None)"

text \<open>\<open>beginRouteChange\<close> once per burst of changes; the timer that is armed after it.\<close>

definition beginBurst :: "'k MonitorState \<Rightarrow> goError option \<times> 'k MonitorState" where
  "beginBurst s = (case beginRouteChange (mon_manager s) (mon_kernel s) of
     (e, k') \<Rightarrow> (e, s\<lparr>mon_pending := True, mon_kernel := k'\<rparr>))"

fun monitorStep :: "MonitorEvent \<Rightarrow> 'k MonitorState \<Rightarrow> 'k MonitorState" where
  "monitorStep EvDone s = s\<lparr>mon_running := False\<rparr>"
| "monitorStep EvClosed s =
     (let s1 = s\<lparr>mon_subscribed := False\<rparr>;
          s2 = (if \<not> mon_pending s1 then snd (beginBurst s1) else s1)
      in s2\<lparr>mon_timer := Some Retry\<rparr>)"
| "monitorStep (EvUpdate t) s =
     (if t \<noteq> RT_TABLE_MAIN then s
      else if mon_pending s then s
      else case beginBurst s of
          (Some e, s1) \<Rightarrow> s1\<lparr>mon_timer := Some Retry\<rparr>
        | (None, s1) \<Rightarrow> s1\<lparr>mon_timer := Some Debounce\<rparr>)"
| "monitorStep (EvTimer resub) s =
     (let s0 = s\<lparr>mon_timer := None\<rparr> in
      if \<not> mon_subscribed s0 \<and> mon_done s0 then s0\<lparr>mon_running := False\<rparr>
      else if \<not> mon_subscribed s0 \<and> resub \<noteq> None then s0\<lparr>mon_timer := Some Retry\<rparr>
      else let s1 = s0\<lparr>mon_subscribed := True\<rparr> in
        if mon_pending s1 then
          (case refreshAfterRouteChange (mon_manager s1) (mon_kernel s1) of
             (Some e, m', k') \<Rightarrow> s1\<lparr>mon_manager := m', mon_kernel := k', mon_timer := Some Retry\<rparr>
           | (None, m', k') \<Rightarrow> s1\<lparr>mon_manager := m', mon_kernel := k', mon_pending := False\<rparr>)
        else s1)"

text \<open>
  The states the goroutine can be in. Between its steps any method of the manager may run: the
  manager and the kernel are then anything, and the done channel may have been closed.
\<close>

inductive monitorRun :: "'k MonitorState \<Rightarrow> 'k MonitorState \<Rightarrow> bool" for s0 where
  start: "monitorRun s0 s0"
| step: "monitorRun s0 s \<Longrightarrow> monitorEnabled ev s \<Longrightarrow> monitorRun s0 (monitorStep ev s)"
| other: "monitorRun s0 s \<Longrightarrow> monitorRun s0 (s\<lparr>mon_manager := m, mon_kernel := k, mon_done := mon_done s \<or> d\<rparr>)"

section \<open>Properties\<close>

definition monitor_armed :: "'k MonitorState \<Rightarrow> bool" where
  "monitor_armed s \<longleftrightarrow> (mon_running s \<longrightarrow>
     (mon_pending s \<or> \<not> mon_subscribed s \<longrightarrow> mon_timer s \<noteq> None) \<and> (\<not> mon_subscribed s \<longrightarrow> mon_pending s))"

lemma beginBurst_fields [simp]:
  "mon_pending (snd (beginBurst s))" "mon_subscribed (snd (beginBurst s)) = mon_subscribed s"
  "mon_running (snd (beginBurst s)) = mon_running s" "mon_timer (snd (beginBurst s)) = mon_timer s"
  "mon_done (snd (beginBurst s)) = mon_done s"
  by (simp_all add: beginBurst_def split: prod.split)

lemma beginBurst_eq: "beginBurst s = (e, s1) \<Longrightarrow> mon_pending s1 \<and> mon_subscribed s1 = mon_subscribed s"
  by (auto simp: beginBurst_def split: prod.splits)

lemma monitorStep_armed: "monitor_armed s \<Longrightarrow> monitorEnabled ev s \<Longrightarrow> monitor_armed (monitorStep ev s)"
  by (cases ev) (auto simp: monitor_armed_def Let_def beginBurst_eq split: prod.split option.split dest!: beginBurst_eq)

text \<open>
  C12: no route change is lost: in every state the goroutine can reach, while it runs, a pending
  change or a lost subscription has an armed timer, and a lost subscription counts as a pending
  change; so the safe table is rebuilt again after every change it may have missed.
\<close>

theorem monitor_never_forgets:
  assumes "monitorRun (monitorStart m k) s" and "mon_running s"
  shows "(mon_pending s \<or> \<not> mon_subscribed s \<longrightarrow> mon_timer s \<noteq> None) \<and> (\<not> mon_subscribed s \<longrightarrow> mon_pending s)"
proof -
  have "monitor_armed s"
    using assms(1)
  proof (induction rule: monitorRun.induct)
    case start
    show ?case by (simp add: monitor_armed_def monitorStart_def)
  next
    case (step s ev)
    then show ?case by (intro monitorStep_armed)
  next
    case (other s m k d)
    then show ?case by (simp add: monitor_armed_def)
  qed
  with assms(2) show ?thesis by (simp add: monitor_armed_def)
qed

text \<open>An adapter of a kernel without rules and routes.\<close>

definition idleAdapter :: "unit netlinkAdapter" where
  "idleAdapter = \<lparr>ad_LinkByIndex = (\<lambda>_ k. (None, k)), ad_ListRoutes = (\<lambda>_ _ k. (Inr [], k)),
     ad_ReplaceRoute = (\<lambda>_ k. (None, k)), ad_DeleteRoute = (\<lambda>_ k. (None, k)),
     ad_ListRules = (\<lambda>_ k. (Inr [], k)), ad_AddRule = (\<lambda>_ k. (None, k)),
     ad_DeleteRule = (\<lambda>_ k. (None, k)), ad_Close = (\<lambda>k. (None, k))\<rparr>"

theorem monitor_never_forgets_witness:
  "mon_pending (monitorStep EvClosed (monitorStart (newManagerWithAdapter idleAdapter) ())) \<and>
   mon_timer (monitorStep EvClosed (monitorStart (newManagerWithAdapter idleAdapter) ())) \<noteq> None"
proof -
  let ?s = "monitorStart (newManagerWithAdapter idleAdapter) ()"
  have r: "monitorRun ?s (monitorStep EvClosed ?s)"
    by (rule monitorRun.step [OF monitorRun.start]) (simp add: monitorStart_def)
  have "mon_running (monitorStep EvClosed ?s)" "\<not> mon_subscribed (monitorStep EvClosed ?s)"
    by (simp_all add: monitorStart_def Let_def)
  with monitor_never_forgets [OF r] show ?thesis by metis
qed

end
