(* ===== verification/Routing_Methods.thy ===== *)
theory Routing_Methods
  imports Routing_Apply Routing_Monitor
begin

text \<open>
  The methods of the manager as a whole, for an adapter that keeps the promises of
  \<open>netlink_adapter\<close>: what \<open>Apply\<close>, \<open>Refresh\<close> and \<open>Rollback\<close> leave in the kernel and in the manager
  when they succeed, and what they leave when they fail.
\<close>

lemma forAll_forE:
  "forAll f xs k = (es, k') \<Longrightarrow> set es \<subseteq> {None} \<Longrightarrow> forE f xs k = (None, k')"
  by (induction xs arbitrary: k es) (auto split: prod.splits)

lemma forAll_errs: "length (fst (forAll f xs k)) = length xs"
  by (induction xs arbitrary: k) (auto simp: case_prod_unfold)

text \<open>The main routes a snapshot of a configuration must hold.\<close>

definition main_routes :: "('k \<Rightarrow> int \<Rightarrow> int \<Rightarrow> Route set) \<Rightarrow> Config \<Rightarrow> 'k \<Rightarrow> Route set" where
  "main_routes routes c k = (\<Union>f \<in> set (familyConstants (cfg_Families c)). routes k f RT_TABLE_MAIN)"

lemma main_not_owned:
  assumes "\<forall>c \<in> set cs. valid_config c"
  shows "\<not> owned_table cs f RT_TABLE_MAIN"
  using assms valid_configD(2,3) unfolding owned_table_def reservedRouteTable_def by fastforce

context netlink_adapter
begin

lemma snapshotFamilies_same:
  assumes "snapshotFamilies A fs s k = (z, k')"
  shows "rules k' = rules k" and "routes k' = routes k"
proof -
  have "keeps (\<lambda>x. rules x = rules k \<and> routes x = routes k) (snapshotFamilies A fs s)"
    by (intro snapshotFamilies_keeps views_keeps) simp
  from keepsD [OF this, of k] assms show "rules k' = rules k" and "routes k' = routes k" by auto
qed

lemma snapshotFamilies_Inr:
  assumes "snapshotFamilies A fs s k = (Inr snap, k')"
  shows "set (snap_MainRoutes snap) = set (snap_MainRoutes s) \<union> (\<Union>f \<in> set fs. routes k f RT_TABLE_MAIN)"
  using assms
proof (induction fs arbitrary: s k)
  case (Cons f fs)
  then obtain qs k1 where l: "ad_ListRoutes A f RT_TABLE_MAIN k = (Inr qs, k1)"
    "snapshotFamilies A fs (s\<lparr>snap_MainRoutes := snap_MainRoutes s @ qs\<rparr>) k1 = (Inr snap, k')"
    by (auto split: prod.splits sum.splits)
  from Cons.IH [OF l(2)] list_routes [OF l(1)] list_routes_same [OF l(1)] show ?case by auto
qed simp

lemma snapshotMain_Inr:
  assumes "snapshotMain A c k = (Inr snap, k')"
  shows "set (snap_MainRoutes snap) = main_routes routes c k" and "rules k' = rules k" and "routes k' = routes k"
  using assms snapshotFamilies_Inr snapshotFamilies_same unfolding snapshotMain_def main_routes_def by fastforce+

text \<open>A failing \<open>Apply\<close> leaves the manager alone and is either without effect or guarded.\<close>

lemma Apply_None:
  assumes r: "Apply m c k = (None, m', k')" and m: "mgr_adapter m = A" and ok: "manager_ok m"
    and n: "no_dup k" and o: "no_priority_overflow c"
  obtains snap d where "CompileDesiredState c snap = Inr d" and "set (snap_MainRoutes snap) = main_routes routes c k"
    and "m' = m\<lparr>mgr_applied := Some d\<rparr>" and "compiled_state d"
    and "state_installed rules routes shown (withApplied c (mgr_applied m)) d k'" and "no_dup k'"
    and "\<And>r. r \<in># rules k' \<Longrightarrow> owned_rule (withApplied c (mgr_applied m)) r \<Longrightarrow> r \<in> set (ds_Rules d) \<or>
      r \<in># rules k \<and> stale_at_guard (withApplied c (mgr_applied m)) (mgr_applied m) r"
    and "framed (owned_priority (withApplied c (mgr_applied m))) (owned_table (withApplied c (mgr_applied m))) k k'"
proof -
  from r m obtain k1 k2 snap d where 1: "ad_LinkByIndex A (cfg_TUNIndex c) k = (None, k1)"
    and 2: "snapshotMain A c k1 = (Inr snap, k2)" and d: "CompileDesiredState c snap = Inr d"
    and 3: "applyDesired A (mgr_applied m) d k2 = (None, k')" and m': "m' = m\<lparr>mgr_applied := Some d\<rparr>"
    by (auto simp: Apply_def Let_def split: option.splits prod.splits sum.splits)
  have same: "rules k2 = rules k" "routes k2 = routes k"
    using link_same [OF 1] snapshotMain_Inr(2,3) [OF 2] by auto
  have dc: "ds_Config d = c" using CompileDesiredState_Inr(2) [OF d] .
  have cd: "compiled_state d" using d o unfolding compiled_state_def dc by blast
  have ao: "applied_ok (mgr_applied m)" using ok unfolding manager_ok_def applied_ok_def .
  have n2: "no_dup k2" using n same(1) by simp
  note res = applyDesired_None [OF 3 n2 cd ao, unfolded dc]
  have "framed (owned_priority (withApplied c (mgr_applied m))) (owned_table (withApplied c (mgr_applied m))) k k'"
    using keepsD [OF applyDesired_framed [OF cd ao], of k k2] same 3 unfolding dc by (simp add: framed_def)
  moreover have "set (snap_MainRoutes snap) = main_routes routes c k"
    using snapshotMain_Inr(1) [OF 2] link_same [OF 1] unfolding main_routes_def by simp
  ultimately show thesis using that d m' cd res same by simp
qed

lemma Apply_Some:
  assumes r: "Apply m c k = (Some e, m', k')" and m: "mgr_adapter m = A" and ok: "manager_ok m"
    and n: "no_dup k" and o: "no_priority_overflow c"
  shows "m' = m"
    and "(\<exists>e'. e = failWith True e') \<and>
        (\<exists>g \<in> set (transitionGuards (withApplied c (mgr_applied m))). g \<in># rules k') \<or>
      rules k' = rules k \<and> routes k' = routes k"
    and "framed (owned_priority (withApplied c (mgr_applied m))) (owned_table (withApplied c (mgr_applied m))) k k'"
proof -
  show "m' = m" using r by (auto simp: Apply_def Let_def split: option.splits prod.splits sum.splits)
  obtain z1 k1 where 1: "ad_LinkByIndex A (cfg_TUNIndex c) k = (z1, k1)" by force
  obtain z2 k2 where 2: "snapshotMain A c k1 = (z2, k2)" by force
  have same1: "rules k1 = rules k" "routes k1 = routes k" using link_same [OF 1] by auto
  have same2: "rules k2 = rules k" "routes k2 = routes k"
    using snapshotFamilies_same [OF 2 [unfolded snapshotMain_def]] same1 by auto
  consider "rules k' = rules k" "routes k' = routes k"
    | snap d where "CompileDesiredState c snap = Inr d" "applyDesired A (mgr_applied m) d k2 = (Some e, k')"
    using r m 1 2 same1 same2
    by (auto simp: Apply_def Let_def split: option.splits prod.splits sum.splits)
  then have "((\<exists>e'. e = failWith True e') \<and>
        (\<exists>g \<in> set (transitionGuards (withApplied c (mgr_applied m))). g \<in># rules k') \<or>
      rules k' = rules k \<and> routes k' = routes k) \<and>
    framed (owned_priority (withApplied c (mgr_applied m))) (owned_table (withApplied c (mgr_applied m))) k k'"
  proof cases
    case (2 snap d)
    have dc: "ds_Config d = c" using CompileDesiredState_Inr(2) [OF 2(1)] .
    have cd: "compiled_state d" using 2(1) o unfolding compiled_state_def dc by blast
    have ao: "applied_ok (mgr_applied m)" using ok unfolding manager_ok_def applied_ok_def .
    have n2: "no_dup k2" using n same2(1) by simp
    show ?thesis
      using applyDesired_Some [OF 2(2) n2 cd ao, unfolded dc] same2
        keepsD [OF applyDesired_framed [OF cd ao], of k k2] 2(2) unfolding dc by (simp add: framed_def)
  qed (simp add: framed_def)
  then show "(\<exists>e'. e = failWith True e') \<and>
        (\<exists>g \<in> set (transitionGuards (withApplied c (mgr_applied m))). g \<in># rules k') \<or>
      rules k' = rules k \<and> routes k' = routes k"
    and "framed (owned_priority (withApplied c (mgr_applied m))) (owned_table (withApplied c (mgr_applied m))) k k'"
    by blast+
qed

text \<open>\<open>Rollback\<close> removes every owned rule and route, and touches nothing else even when it fails.\<close>

lemma Rollback_None:
  assumes r: "Rollback m c k = (None, m', k')" and m: "mgr_adapter m = A"
  shows "m' = m\<lparr>mgr_applied := None\<rparr>"
    and "rules k' = filter_mset (\<lambda>r. \<not> owned_rule (withApplied c (mgr_applied m)) r) (rules k)"
    and "routes k' f t = (if owned_table (withApplied c (mgr_applied m)) f t then {} else routes k f t)"
proof -
  let ?cs = "withApplied c (mgr_applied m)"
  obtain es1 k1 where 1: "forAll (\<lambda>s. deleteOwnedRules A (scope_config s) (scope_family s) [])
      (ownedRuleScopes ?cs) k = (es1, k1)" by force
  obtain es2 k2 where 2: "forAll (\<lambda>t. flushTableFamily A (fst t) (snd t)) (ownedTableTargets ?cs) k1 = (es2, k2)"
    by force
  from r m 1 2 have es: "errors_join (es1 @ es2) = None" and k': "k' = k2"
    and m': "m' = m\<lparr>mgr_applied := None\<rparr>"
    by (auto simp: Rollback_def Let_def split: option.splits)
  have e: "set es1 \<subseteq> {None}" "set es2 \<subseteq> {None}" using es unfolding errors_join_eq_None by auto
  show "m' = m\<lparr>mgr_applied := None\<rparr>" by (rule m')
  have a: "rules k1 = filter_mset (\<lambda>r. \<not> owned_rule ?cs r) (rules k)" "routes k1 = routes k"
    using forE_deleteOwnedRules [OF forAll_forE [OF 1 e(1)]]
    unfolding owned_rule_def ownedRuleScopes_owned by simp_all
  then show "rules k' = filter_mset (\<lambda>r. \<not> owned_rule ?cs r) (rules k)"
    and "routes k' f t = (if owned_table ?cs f t then {} else routes k f t)"
    using forE_flush [OF forAll_forE [OF 2 e(2)]] unfolding k' set_ownedTableTargets by auto
qed

lemma Rollback_framed:
  assumes r: "Rollback m c k = (z, m', k')" and m: "mgr_adapter m = A"
  shows "framed (owned_priority (withApplied c (mgr_applied m))) (owned_table (withApplied c (mgr_applied m))) k k'"
proof -
  let ?cs = "withApplied c (mgr_applied m)"
  let ?I = "framed (owned_priority ?cs) (owned_table ?cs) k"
  have d: "keeps ?I (deleteOwnedRules A (scope_config s) (scope_family s) [])"
    if "s \<in> set (ownedRuleScopes ?cs)" for s
    using listed_canonical ownedRuleScopes_sub [OF that]
    by (intro deleteOwnedRules_keeps framed_list DeleteRule_framed) (auto simp: owned_priority_def)
  have f: "keeps ?I (flushTableFamily A (fst t) (snd t))" if "t \<in> set (ownedTableTargets ?cs)" for t
    using that list_routes set_ownedTableTargets [of "fst t" "snd t" ?cs]
    by (intro flushTableFamily_keeps framed_list DeleteRoute_framed) auto
  have "?I (snd (forAll (\<lambda>t. flushTableFamily A (fst t) (snd t)) (ownedTableTargets ?cs)
      (snd (forAll (\<lambda>s. deleteOwnedRules A (scope_config s) (scope_family s) []) (ownedRuleScopes ?cs) k))))"
    by (intro forAll_keeps [where I = ?I]) (use d f in auto)
  moreover have "k' = k \<or> k' = snd (forAll (\<lambda>t. flushTableFamily A (fst t) (snd t)) (ownedTableTargets ?cs)
      (snd (forAll (\<lambda>s. deleteOwnedRules A (scope_config s) (scope_family s) []) (ownedRuleScopes ?cs) k)))"
    using r m by (auto simp: Rollback_def Let_def split: option.splits prod.splits)
  ultimately show ?thesis by auto
qed

text \<open>\<open>Refresh\<close>: the rules and the VPN routes stay, the safe table is rebuilt from the main table.\<close>

lemma flushTable_None:
  assumes "flushTable A c t k = (None, k')"
  shows "rules k' = rules k" and "routes k' f t' = (if familyEnabled (cfg_Families c) f \<and> t' = t then {} else routes k f t')"
proof -
  obtain es where d: "forAll (\<lambda>f. flushTableFamily A f t) (familyConstants (cfg_Families c)) k = (es, k')"
    "set es \<subseteq> {None}"
    using assms by (auto simp: flushTable_def joinAll_def errors_join_eq_None intro: prod.collapse [symmetric])
  have eq: "forE (\<lambda>f. flushTableFamily A f t) fs = forE (\<lambda>p. flushTableFamily A (fst p) (snd p)) (map (\<lambda>f. (f, t)) fs)" for fs
  proof
    show "forE (\<lambda>f. flushTableFamily A f t) fs k = forE (\<lambda>p. flushTableFamily A (fst p) (snd p)) (map (\<lambda>f. (f, t)) fs) k" for k
      by (induction fs arbitrary: k) (auto split: prod.split option.split)
  qed
  from forE_flush [OF forAll_forE [OF d, unfolded eq]]
  show "rules k' = rules k" and "routes k' f t' = (if familyEnabled (cfg_Families c) f \<and> t' = t then {} else routes k f t')"
    by (auto simp flip: set_familyConstants)
qed

lemma refreshLocked_None:
  fixes m a
  defines "c \<equiv> ds_Config a"
  assumes r: "refreshLocked m a k = (None, m', k')" and m: "mgr_adapter m = A" and a: "compiled_state a"
    and n: "no_dup k"
  obtains snap d where "CompileDesiredState c snap = Inr d" and "set (snap_MainRoutes snap) = main_routes routes c k"
    and "m' = m\<lparr>mgr_applied := Some d\<rparr>" and "compiled_state d"
    and "ds_Config d = c" and "ds_Rules d = ds_Rules a" and "ds_VPNRoutes d = ds_VPNRoutes a"
    and "rule_set k' = rule_set k - set (transitionGuards [c])" and "no_dup k'"
    and "\<And>f. familyEnabled (cfg_Families c) f \<Longrightarrow>
      routes k' f (cfg_SafeTable c) \<subseteq> shown_in (ds_SafeRoutes d) f (cfg_SafeTable c) \<and>
      route_Dst ` routes k' f (cfg_SafeTable c) = route_Dst ` shown_in (ds_SafeRoutes d) f (cfg_SafeTable c)"
    and "\<And>f t. \<not> (familyEnabled (cfg_Families c) f \<and> t = cfg_SafeTable c) \<Longrightarrow> routes k' f t = routes k f t"
proof -
  let ?gs = "map (transitionGuard c) (familyConstants (cfg_Families c))"
  have gs: "set ?gs = set (transitionGuards [c])"
    unfolding set_transitionGuards by (auto simp flip: set_familyConstants)
  have can: "\<forall>g \<in> set ?gs. canonical_rule g" and pro: "\<forall>g \<in> set ?gs. proper_rule g"
    using transitionGuard_simps(4) unfolding proper_rule_def by auto
  from r m obtain k1 k2 k3 k4 snap d where 1: "installGuards A False ?gs k = (None, k1)"
    and 2: "snapshotMain A c k1 = (Inr snap, k2)" and d: "CompileDesiredState c snap = Inr d"
    and 3: "flushTable A c (cfg_SafeTable c) k2 = (None, k3)"
    and 4: "forE (\<lambda>r. wrapE (\<lambda>e. Errorf ''install safe route %s: %w'' [] [e])
        (ad_ReplaceRoute A r)) (ds_SafeRoutes d) k3 = (None, k4)"
    and 5: "removeGuards A ?gs k4 = (None, k')" and m': "m' = m\<lparr>mgr_applied := Some d\<rparr>"
    unfolding c_def
    by (auto simp: refreshLocked_def refreshGuarded_def Let_def thenE_None split: option.splits prod.splits sum.splits)
  have i: "rule_set k1 = set ?gs \<union> rule_set k" "no_dup k1" "routes k1 = routes k"
    using installGuards_None [OF 1 can n] by auto
  note snap = snapshotMain_Inr [OF 2]
  have r4: "rules k4 = rules k1"
    using forE_ReplaceRoute [OF 4] flushTable_None(1) [OF 3] snap(2) by simp
  then have "no_dup k4" using i(2) by simp
  note l = forE_DeleteRule [OF 5 [unfolded removeGuards_def] pro this]
  from a obtain snap0 where d0: "CompileDesiredState c snap0 = Inr a" and o: "no_priority_overflow c"
    unfolding compiled_state_def c_def by blast
  note da = CompileDesiredState_Inr [OF d] and d0a = CompileDesiredState_Inr [OF d0]
  have "compiled_state d" using d o unfolding compiled_state_def da(2) by blast
  then have home: "shown_in (ds_SafeRoutes d) f t = {}"
    if "\<not> (familyEnabled (cfg_Families c) f \<and> t = cfg_SafeTable c)" for f t
    using that compiled_routes(2) [of d] unfolding shown_in_def da(2) by auto
  have routes': "routes k' = routes k4" using l by blast
  note safe = forE_ReplaceRoute [OF 4] and flush = flushTable_None(2) [OF 3]
  show thesis
  proof (rule that [OF d _ m' \<open>compiled_state d\<close> da(2)])
    show "set (snap_MainRoutes snap) = main_routes routes c k"
      using snap(1) i(3) unfolding main_routes_def by simp
    show "ds_Rules d = ds_Rules a" "ds_VPNRoutes d = ds_VPNRoutes a" using da(3,4) d0a(3,4) by simp_all
    show "rule_set k' = rule_set k - set (transitionGuards [c])" "no_dup k'"
      using l i(1) unfolding r4 gs by auto
    show "routes k' f (cfg_SafeTable c) \<subseteq> shown_in (ds_SafeRoutes d) f (cfg_SafeTable c) \<and>
      route_Dst ` routes k' f (cfg_SafeTable c) = route_Dst ` shown_in (ds_SafeRoutes d) f (cfg_SafeTable c)"
      if "familyEnabled (cfg_Families c) f" for f
      using safe [of f "cfg_SafeTable c"] flush [of f "cfg_SafeTable c"] that routes'
        supported_sub [of "routes k4 f (cfg_SafeTable c)" "shown_in (ds_SafeRoutes d) f (cfg_SafeTable c)"]
      by auto
    show "routes k' f t = routes k f t" if "\<not> (familyEnabled (cfg_Families c) f \<and> t = cfg_SafeTable c)" for f t
      using safe [of f t] flush [of f t] home [OF that] that routes' snap(3) i(3) by auto
  qed
qed

text \<open>The guards a route change installs, and the cycle of the monitor that ends with a refresh.\<close>

lemma beginRouteChange_None:
  assumes "beginRouteChange m k = (None, k')" and m: "mgr_adapter m = A" and a: "mgr_applied m = Some a"
    and "\<not> mgr_closed m" and "cfg_Strictness (ds_Config a) \<noteq> Strict" and n: "no_dup k"
  shows "rule_set k' = set (transitionGuards [ds_Config a]) \<union> rule_set k" and "no_dup k'" and "routes k' = routes k"
proof -
  let ?gs = "map (transitionGuard (ds_Config a)) (familyConstants (cfg_Families (ds_Config a)))"
  have gs: "set ?gs = set (transitionGuards [ds_Config a])"
    unfolding set_transitionGuards by (auto simp flip: set_familyConstants)
  have c: "\<forall>g \<in> set ?gs. canonical_rule g" using transitionGuard_simps(4) unfolding proper_rule_def by auto
  have "forE (\<lambda>g. wrapE (\<lambda>e. Errorf ''install route-change guard: %w'' [] [e]) (ad_AddRule A g)) ?gs k = (None, k')"
    using assms by (simp add: beginRouteChange_def forE_map)
  from forE_AddRule [OF this c n] show "rule_set k' = set (transitionGuards [ds_Config a]) \<union> rule_set k"
    and "no_dup k'" and "routes k' = routes k" unfolding gs by auto
qed

lemma monitor_update:
  assumes "mgr_adapter (mon_manager s) = A" and "mgr_applied (mon_manager s) = Some a"
    and "\<not> mgr_closed (mon_manager s)" and "cfg_Strictness (ds_Config a) \<noteq> Strict" and "no_dup (mon_kernel s)"
    and "\<not> mon_pending s" and "mon_timer (monitorStep (EvUpdate RT_TABLE_MAIN) s) = Some Debounce"
  shows "rule_set (mon_kernel (monitorStep (EvUpdate RT_TABLE_MAIN) s)) =
      set (transitionGuards [ds_Config a]) \<union> rule_set (mon_kernel s)"
    and "no_dup (mon_kernel (monitorStep (EvUpdate RT_TABLE_MAIN) s))"
    and "routes (mon_kernel (monitorStep (EvUpdate RT_TABLE_MAIN) s)) = routes (mon_kernel s)"
proof -
  obtain z k' where b: "beginRouteChange (mon_manager s) (mon_kernel s) = (z, k')" by force
  then have "z = None" using assms(6,7) by (cases z) (auto simp: beginBurst_def)
  with b assms(6) have k': "mon_kernel (monitorStep (EvUpdate RT_TABLE_MAIN) s) = k'"
    by (simp add: beginBurst_def)
  show "rule_set (mon_kernel (monitorStep (EvUpdate RT_TABLE_MAIN) s)) =
      set (transitionGuards [ds_Config a]) \<union> rule_set (mon_kernel s)"
    and "no_dup (mon_kernel (monitorStep (EvUpdate RT_TABLE_MAIN) s))"
    and "routes (mon_kernel (monitorStep (EvUpdate RT_TABLE_MAIN) s)) = routes (mon_kernel s)"
    unfolding k' using beginRouteChange_None [OF b [unfolded \<open>z = None\<close>] assms(1-5)] by auto
qed

end

end
