(* ===== verification/Routing_Adapter.thy ===== *)
theory Routing_Adapter
  imports Routing_Methods
begin

text \<open>
  The netlink adapter of \<open>routing/adapter.go\<close>: the conversions between the package's rules and
  routes and those of the netlink library, and \<open>realAdapter\<close> over a netlink handle. The handle and
  the kernel behind it are a parameter; \<open>netlink_handle\<close> states what the adapter relies on, and
  the sublocale shows that \<open>realAdapter\<close> then keeps the promises of \<open>netlink_adapter\<close>, so that every
  lemma about the manager holds for it.
\<close>

section \<open>The netlink library's data\<close>

text \<open>
  A \<open>net.IP\<close> by its length: nil, 4 bytes and 16 bytes as big-endian words, any other length. A
  \<open>net.IPMask\<close> is what \<open>net.CIDRMask\<close> makes, or a mask that is not ones followed by zeros.
\<close>

datatype netIP = IPNil | IP4 u32 | IP16 "128 word" | IPBytes "byte list"

datatype netMask = CIDRMask int int | OtherMask "byte list"

record IPNet =
  ipnet_IP :: netIP
  ipnet_Mask :: netMask

abbreviation RTN_UNICAST :: int where "RTN_UNICAST \<equiv> 1"
abbreviation FR_ACT_UNREACHABLE :: int where "FR_ACT_UNREACHABLE \<equiv> 7"

record NexthopInfo =
  nh_LinkIndex :: int
  nh_Gw :: netIP
  nh_Flags :: int
  nh_NewDst :: bool
  nh_Encap :: bool
  nh_Via :: bool

text \<open>Pointers that are only compared with nil are booleans (set or not).\<close>

record NLRoute =
  nlr_Family :: int
  nlr_Table :: int
  nlr_Dst :: "IPNet option"
  nlr_Gw :: netIP
  nlr_Src :: netIP
  nlr_LinkIndex :: int
  nlr_Priority :: int
  nlr_Scope :: int
  nlr_Flags :: int
  nlr_Type :: int
  nlr_MultiPath :: "NexthopInfo option list"
  nlr_NewDst :: bool
  nlr_Encap :: bool
  nlr_Via :: bool
  nlr_MPLSDst :: bool

record NLRule =
  nlu_Family :: int
  nlu_Priority :: int
  nlu_Table :: int
  nlu_Mark :: u32
  nlu_Mask :: "u32 option"
  nlu_Type :: int

section \<open>Conversions\<close>

fun ipLen0 :: "netIP \<Rightarrow> bool" where
  "ipLen0 IPNil = True"
| "ipLen0 (IPBytes bs) = (bs = [])"
| "ipLen0 _ = False"

text \<open>\<open>To4\<close> finds IPv4-mapped addresses too; a slice that is neither 4 nor 16 bytes long has no \<open>To16\<close>.\<close>

fun addrFromIP :: "netIP \<Rightarrow> Addr option" where
  "addrFromIP (IP4 w) = Some (Addr4 w)"
| "addrFromIP (IP16 w) = Some (if drop_bit 32 w = 0xffff then Addr4 (ucast w) else Addr6 w '''')"
| "addrFromIP _ = None"

fun netIPFromAddr :: "Addr \<Rightarrow> netIP" where
  "netIPFromAddr NoAddr = IPNil"
| "netIPFromAddr (Addr4 w) = IP4 w"
| "netIPFromAddr (Addr6 w z) = IP16 w"

text \<open>\<open>IPMask.Size\<close> gives 0, 0 for a mask that is not in canonical form.\<close>

fun maskSize :: "netMask \<Rightarrow> int \<times> int" where
  "maskSize (CIDRMask ones bits) = (ones, bits)"
| "maskSize (OtherMask bs) = (0, 0)"

definition prefixFromIPNet :: "IPNet \<Rightarrow> Prefix option" where
  "prefixFromIPNet network =
     (let (ones, bits) = maskSize (ipnet_Mask network) in
      if ones < 0 then None
      else case addrFromIP (ipnet_IP network) of None \<Rightarrow> None
        | Some addr0 \<Rightarrow>
          (let addr = (if bits = 32 then addrUnmap addr0 else addr0);
               prefix = prefixFrom addr ones
           in if \<not> prefixIsValid prefix \<or> addrIs4In6 (pfxAddr prefix) then None
              else Some (prefixMasked prefix)))"

definition ipNetFromPrefix :: "Prefix \<Rightarrow> goError + IPNet" where
  "ipNetFromPrefix prefix =
     (if \<not> prefixIsValid prefix \<or> addrIs4In6 (pfxAddr prefix)
      then Inl (Errorf ''%w: invalid route prefix'' [] [ErrInvalidConfig])
      else let bits = (if addrIs4 (pfxAddr prefix) then 32 else 128) in
        Inr \<lparr>ipnet_IP = netIPFromAddr (addrMask (pfxAddr prefix) (pfxBits prefix)),
             ipnet_Mask = CIDRMask (pfxBits prefix) bits\<rparr>)"

definition prefixMatchesFamily :: "Prefix \<Rightarrow> int \<Rightarrow> bool" where
  "prefixMatchesFamily prefix family \<longleftrightarrow>
     \<not> (\<not> prefixIsValid prefix \<or> addrIs4In6 (pfxAddr prefix)) \<and>
     (family = AF_INET \<and> addrIs4 (pfxAddr prefix) \<or> family = AF_INET6 \<and> addrIs6 (pfxAddr prefix))"

definition validPreferredSourceForFamily :: "Addr \<Rightarrow> int \<Rightarrow> bool" where
  "validPreferredSourceForFamily addr family \<longleftrightarrow> validPreferredSource addr \<and>
     (family = AF_INET \<and> addrIs4 addr \<or> family = AF_INET6 \<and> addrIs6 addr)"

definition netIPFromPreferredSource :: "Addr \<Rightarrow> int \<Rightarrow> netIP" where
  "netIPFromPreferredSource addr family =
     (if \<not> validPreferredSourceForFamily addr family then IPNil else netIPFromAddr addr)"

definition zeroRoute :: Route where
  "zeroRoute = \<lparr>route_Family = 0, route_Table = 0, route_Dst = NoPrefix, route_Gateway = NoAddr,
     route_PreferredSource = NoAddr, route_LinkIndex = 0, route_Priority = 0, route_Scope = 0,
     route_Flags = 0, route_Type = RouteTypeUnicast, route_Multipath = []\<rparr>"

text \<open>A gateway is read only when it has bytes; a preferred source that is not usable is dropped.\<close>

definition gatewayFromIP :: "netIP \<Rightarrow> Addr option" where
  "gatewayFromIP ip = (if \<not> ipLen0 ip then addrFromIP ip else Some NoAddr)"

definition preferredSourceFromIP :: "netIP \<Rightarrow> int \<Rightarrow> Addr" where
  "preferredSourceFromIP ip family =
     (if \<not> ipLen0 ip then
        (case addrFromIP ip of
           Some addr \<Rightarrow> if validPreferredSourceForFamily addr family then addr else NoAddr
         | None \<Rightarrow> NoAddr)
      else NoAddr)"

text \<open>The loop over the next hops: \<open>None\<close> when a gateway cannot be read; a hop the model does not
  support is left out and makes the route unsupported.\<close>

fun multipathFromNetlink :: "NexthopInfo option list \<Rightarrow> Route \<Rightarrow> Route option" where
  "multipathFromNetlink [] r = Some r"
| "multipathFromNetlink (None # hops) r =
     multipathFromNetlink hops (r\<lparr>route_Type := RouteTypeUnsupported\<rparr>)"
| "multipathFromNetlink (Some hop # hops) r =
     (if nh_NewDst hop \<or> nh_Encap hop \<or> nh_Via hop then
        multipathFromNetlink hops (r\<lparr>route_Type := RouteTypeUnsupported\<rparr>)
      else case gatewayFromIP (nh_Gw hop) of None \<Rightarrow> None
        | Some addr \<Rightarrow> multipathFromNetlink hops
            (r\<lparr>route_Multipath := route_Multipath r @
               [\<lparr>hop_LinkIndex = nh_LinkIndex hop, hop_Gateway = addr, hop_Flags = nh_Flags hop\<rparr>]\<rparr>))"

definition routeFromNetlink :: "NLRoute \<Rightarrow> Route option" where
  "routeFromNetlink route =
     (if nlr_NewDst route \<or> nlr_Encap route \<or> nlr_Via route \<or> nlr_MPLSDst route
      then Some (zeroRoute\<lparr>route_Type := RouteTypeUnsupported\<rparr>)
      else
       (case (case nlr_Dst route of Some dst \<Rightarrow> prefixFromIPNet dst
              | None \<Rightarrow> Some (familyDefaultPrefix (nlr_Family route))) of
          None \<Rightarrow> None
        | Some dst \<Rightarrow>
          (if \<not> prefixMatchesFamily dst (nlr_Family route) then None
           else case gatewayFromIP (nlr_Gw route) of
               None \<Rightarrow> None
             | Some gw \<Rightarrow>
               multipathFromNetlink (nlr_MultiPath route)
                 \<lparr>route_Family = nlr_Family route, route_Table = nlr_Table route, route_Dst = dst,
                  route_Gateway = gw,
                  route_PreferredSource = preferredSourceFromIP (nlr_Src route) (nlr_Family route),
                  route_LinkIndex = nlr_LinkIndex route, route_Priority = nlr_Priority route,
                  route_Scope = nlr_Scope route, route_Flags = nlr_Flags route,
                  route_Type = (if nlr_Type route \<noteq> 0 \<and> nlr_Type route \<noteq> RTN_UNICAST
                    then RouteTypeUnsupported else RouteTypeUnicast),
                  route_Multipath = []\<rparr>)))"

definition routeToNetlink :: "Route \<Rightarrow> goError + NLRoute" where
  "routeToNetlink route =
     (if \<not> prefixMatchesFamily (route_Dst route) (route_Family route)
      then Inl (Errorf ''%w: route destination does not match family'' [] [ErrInvalidConfig])
      else case ipNetFromPrefix (route_Dst route) of Inl e \<Rightarrow> Inl e
        | Inr dst \<Rightarrow>
          (if route_Scope route < 0 \<or> route_Scope route > 255
           then Inl (Errorf ''route scope %d outside netlink uint8 range'' [AInt (route_Scope route)] [])
           else Inr \<lparr>nlr_Family = route_Family route, nlr_Table = route_Table route, nlr_Dst = Some dst,
              nlr_Gw = netIPFromAddr (route_Gateway route),
              nlr_Src = netIPFromPreferredSource (route_PreferredSource route) (route_Family route),
              nlr_LinkIndex = route_LinkIndex route, nlr_Priority = route_Priority route,
              nlr_Scope = route_Scope route, nlr_Flags = route_Flags route, nlr_Type = RTN_UNICAST,
              nlr_MultiPath = map (\<lambda>hop. Some \<lparr>nh_LinkIndex = hop_LinkIndex hop,
                  nh_Gw = netIPFromAddr (hop_Gateway hop), nh_Flags = hop_Flags hop,
                  nh_NewDst = False, nh_Encap = False, nh_Via = False\<rparr>) (route_Multipath route),
              nlr_NewDst = False, nlr_Encap = False, nlr_Via = False, nlr_MPLSDst = False\<rparr>))"

definition routeDeleteSpec :: "Route \<Rightarrow> Route" where
  "routeDeleteSpec route = route\<lparr>route_Flags := 0,
     route_Multipath := map (\<lambda>h. h\<lparr>hop_Flags := 0\<rparr>) (route_Multipath route)\<rparr>"

definition ruleFromNetlink :: "NLRule \<Rightarrow> Rule" where
  "ruleFromNetlink rule =
     (let out = \<lparr>rule_Family = nlu_Family rule, rule_Priority = nlu_Priority rule,
                 rule_Action = RuleLookup, rule_Table = nlu_Table rule, rule_Mark = nlu_Mark rule,
                 rule_Mask = (case nlu_Mask rule of Some msk \<Rightarrow> msk | None \<Rightarrow> 0)\<rparr>
      in if nlu_Type rule = FR_ACT_UNREACHABLE
         then out\<lparr>rule_Action := RuleUnreachable, rule_Table := 0\<rparr> else out)"

text \<open>\<open>netlink.NewRule\<close> leaves the table and the type zero.\<close>

definition ruleToNetlink :: "Rule \<Rightarrow> NLRule" where
  "ruleToNetlink rule =
     (let out = \<lparr>nlu_Family = rule_Family rule, nlu_Priority = rule_Priority rule, nlu_Table = 0,
                 nlu_Mark = rule_Mark rule,
                 nlu_Mask = (if rule_Mask rule \<noteq> 0 then Some (rule_Mask rule) else None),
                 nlu_Type = 0\<rparr>
      in if rule_Action rule = RuleUnreachable then out\<lparr>nlu_Type := FR_ACT_UNREACHABLE\<rparr>
         else out\<lparr>nlu_Table := rule_Table rule\<rparr>)"

section \<open>The adapter\<close>

text \<open>
  The calls of the netlink library. \<open>h_isLinkNotFound\<close> is the type test of
  \<open>errors.As(err, new(netlink.LinkNotFoundError))\<close>.
\<close>

record 'k netlinkHandle =
  h_LinkByIndex :: "int \<Rightarrow> 'k act"
  h_isLinkNotFound :: "goError \<Rightarrow> bool"
  h_RouteListFiltered :: "int \<Rightarrow> int \<Rightarrow> ('k, NLRoute list) query"
  h_RouteReplace :: "NLRoute \<Rightarrow> 'k act"
  h_RouteDel :: "NLRoute \<Rightarrow> 'k act"
  h_RuleList :: "int \<Rightarrow> ('k, NLRule list) query"
  h_RuleAdd :: "NLRule \<Rightarrow> 'k act"
  h_RuleDel :: "NLRule \<Rightarrow> 'k act"
  h_Close :: "'k \<Rightarrow> 'k"

definition real_LinkByIndex :: "'k netlinkHandle \<Rightarrow> int \<Rightarrow> 'k act" where
  "real_LinkByIndex H index k = (case h_LinkByIndex H index k of
       (Some e, k') \<Rightarrow> (Some (if h_isLinkNotFound H e then ErrTUNLinkNotFound else e), k')
     | (None, k') \<Rightarrow> (None, k'))"

definition real_ListRoutes :: "'k netlinkHandle \<Rightarrow> int \<Rightarrow> int \<Rightarrow> ('k, Route list) query" where
  "real_ListRoutes H family table k = (case h_RouteListFiltered H family table k of
       (Inl e, k') \<Rightarrow> (Inl e, k')
     | (Inr routes, k') \<Rightarrow> (Inr (List.map_filter routeFromNetlink routes), k'))"

definition real_ReplaceRoute :: "'k netlinkHandle \<Rightarrow> Route \<Rightarrow> 'k act" where
  "real_ReplaceRoute H route k = (case routeToNetlink route of
       Inl e \<Rightarrow> (Some e, k) | Inr nlRoute \<Rightarrow> h_RouteReplace H nlRoute k)"

text \<open>An error that is the ignored one counts as success.\<close>

definition ignoring :: "goError \<Rightarrow> goError option \<times> 'k \<Rightarrow> goError option \<times> 'k" where
  "ignoring err r = (case r of (Some e, k') \<Rightarrow> (if \<not> errors_is e err then Some e else None, k')
     | (None, k') \<Rightarrow> (None, k'))"

definition real_DeleteRoute :: "'k netlinkHandle \<Rightarrow> Route \<Rightarrow> 'k act" where
  "real_DeleteRoute H route k = (case routeToNetlink (routeDeleteSpec route) of
       Inl e \<Rightarrow> (Some e, k) | Inr nlRoute \<Rightarrow> ignoring ESRCH (h_RouteDel H nlRoute k))"

definition real_ListRules :: "'k netlinkHandle \<Rightarrow> int \<Rightarrow> ('k, Rule list) query" where
  "real_ListRules H family k = (case h_RuleList H family k of
       (Inl e, k') \<Rightarrow> (Inl e, k') | (Inr rules, k') \<Rightarrow> (Inr (map ruleFromNetlink rules), k'))"

definition real_AddRule :: "'k netlinkHandle \<Rightarrow> Rule \<Rightarrow> 'k act" where
  "real_AddRule H rule k = ignoring EEXIST (h_RuleAdd H (ruleToNetlink rule) k)"

definition real_DeleteRule :: "'k netlinkHandle \<Rightarrow> Rule \<Rightarrow> 'k act" where
  "real_DeleteRule H rule k = ignoring ESRCH (h_RuleDel H (ruleToNetlink rule) k)"

definition realAdapter :: "'k netlinkHandle \<Rightarrow> 'k netlinkAdapter" where
  "realAdapter H = \<lparr>ad_LinkByIndex = real_LinkByIndex H, ad_ListRoutes = real_ListRoutes H,
     ad_ReplaceRoute = real_ReplaceRoute H, ad_DeleteRoute = real_DeleteRoute H,
     ad_ListRules = real_ListRules H, ad_AddRule = real_AddRule H,
     ad_DeleteRule = real_DeleteRule H, ad_Close = (\<lambda>k. (None, h_Close H k))\<rparr>"

section \<open>Round trips\<close>

lemma ruleFromNetlink_inverse: "canonical_rule r \<Longrightarrow> ruleFromNetlink (ruleToNetlink r) = r"
  by (cases r; cases "rule_Action r")
    (simp_all add: ruleFromNetlink_def ruleToNetlink_def canonical_rule_def Let_def)

lemma masked_4In6:
  assumes "drop_bit 32 (push_bit (nat (128 - b)) (drop_bit (nat (128 - b)) w)) = (0xffff :: 128 word)"
    and "0 \<le> b" and "b \<le> 128"
  shows "drop_bit 32 w = (0xffff :: 128 word)"
proof -
  let ?n = "nat (128 - b)"
  have *: "bit (drop_bit 32 (push_bit ?n (drop_bit ?n w))) i \<longleftrightarrow>
      ?n \<le> 32 + i \<and> 32 + i < 128 \<and> bit w (32 + i)" for i
    by (auto simp: bit_simps)
  have "bit (0xffff :: 128 word) 0" by simp
  then have n: "?n \<le> 32" using * [of 0] unfolding assms(1) by simp
  show ?thesis
  proof (rule bit_word_eqI)
    fix i assume "i < LENGTH(128)"
    have "bit (drop_bit 32 w) i \<longleftrightarrow> 32 + i < 128 \<and> bit w (32 + i)"
      using bit_imp_le_length [of w "32 + i"] by (auto simp: bit_drop_bit_eq)
    with * [of i] n show "bit (drop_bit 32 w) i = bit (0xffff :: 128 word) i" unfolding assms(1) by auto
  qed
qed

lemma prefix_roundtrip:
  assumes "ipNetFromPrefix p = Inr n"
  shows "prefixFromIPNet n = Some (prefixMasked p)"
proof -
  obtain a b where p: "p = Prefix a b" by (cases p)
  from assms have v: "0 \<le> b" "\<not> addrIs4In6 a" "addrIsValid a" "b \<le> addrBitLen a"
    and n: "n = \<lparr>ipnet_IP = netIPFromAddr (addrMask a b), ipnet_Mask = CIDRMask b (if addrIs4 a then 32 else 128)\<rparr>"
    by (auto simp: ipNetFromPrefix_def prefixIsValid_def p Let_def split: if_splits)
  show ?thesis
  proof (cases a)
    case (Addr4 w)
    with v show ?thesis
      by (simp add: n p prefixFromIPNet_def prefixMasked_def prefixFrom_def prefixIsValid_def drop_push_drop)
  next
    case (Addr6 w z)
    let ?m = "push_bit (nat (128 - b)) (drop_bit (nat (128 - b)) w)"
    have "drop_bit 32 ?m \<noteq> 0xffff" using v masked_4In6 [of b w] Addr6 by auto
    with v Addr6 show ?thesis
      by (simp add: n p prefixFromIPNet_def prefixMasked_def prefixFrom_def prefixIsValid_def drop_push_drop)
  qed (use v in simp)
qed

text \<open>What reading a route back gives: addresses without zones, an IPv4-mapped gateway as IPv4.\<close>

definition readAddr :: "Addr \<Rightarrow> Addr" where
  "readAddr a = addrUnmap (addrWithoutZone a)"

lemma gateway_roundtrip [simp]: "gatewayFromIP (netIPFromAddr a) = Some (readAddr a)"
  by (cases a) (simp_all add: readAddr_def gatewayFromIP_def)

definition readHop :: "Nexthop \<Rightarrow> Nexthop" where
  "readHop h = h\<lparr>hop_Gateway := readAddr (hop_Gateway h)\<rparr>"

lemma readAddr_NoAddr [simp]: "readAddr NoAddr = NoAddr"
  by (simp add: readAddr_def)

lemma multipath_roundtrip:
  "multipathFromNetlink (map (\<lambda>hop. Some \<lparr>nh_LinkIndex = hop_LinkIndex hop,
     nh_Gw = netIPFromAddr (hop_Gateway hop), nh_Flags = hop_Flags hop,
     nh_NewDst = False, nh_Encap = False, nh_Via = False\<rparr>) hops) r =
   Some (r\<lparr>route_Multipath := route_Multipath r @ map readHop hops\<rparr>)"
  by (induction hops arbitrary: r) (simp_all add: readHop_def)

definition readSource :: "Addr \<Rightarrow> int \<Rightarrow> Addr" where
  "readSource a f = (if validPreferredSourceForFamily a f then a else NoAddr)"

lemma readSource_roundtrip:
  "preferredSourceFromIP (netIPFromPreferredSource a f) f = readSource a f"
  by (cases a) (auto simp: preferredSourceFromIP_def netIPFromPreferredSource_def readSource_def
      validPreferredSourceForFamily_def validPreferredSource_def)

text \<open>The route that is read back, whatever priority, scope and flags the kernel has given it.\<close>

definition readRoute :: "Route \<Rightarrow> int \<Rightarrow> int \<Rightarrow> int \<Rightarrow> Route" where
  "readRoute r prio scope flags = r\<lparr>route_Dst := prefixMasked (route_Dst r),
     route_Gateway := readAddr (route_Gateway r),
     route_PreferredSource := readSource (route_PreferredSource r) (route_Family r),
     route_Priority := prio, route_Scope := scope, route_Flags := flags, route_Type := RouteTypeUnicast,
     route_Multipath := map readHop (route_Multipath r)\<rparr>"

lemma prefixMatchesFamily_masked:
  assumes "prefixMatchesFamily p f"
  shows "prefixMatchesFamily (prefixMasked p) f"
proof -
  obtain a b where p: "p = Prefix a b" by (cases p)
  show ?thesis
  proof (cases a)
    case (Addr6 w z)
    have b: "0 \<le> b" "b \<le> 128" using assms Addr6 p by (auto simp: prefixMatchesFamily_def prefixIsValid_def)
    have "drop_bit 32 (push_bit (nat (128 - b)) (drop_bit (nat (128 - b)) w)) \<noteq> 0xffff"
      using assms masked_4In6 [of b w] b Addr6 p by (auto simp: prefixMatchesFamily_def)
    with assms b show ?thesis
      by (auto simp: p Addr6 prefixMatchesFamily_def prefixMasked_def prefixFrom_def prefixIsValid_def)
  qed (use assms in \<open>auto simp: p prefixMatchesFamily_def prefixMasked_def prefixFrom_def prefixIsValid_def\<close>)
qed

lemma route_roundtrip:
  assumes "routeToNetlink r = Inr n"
  shows "routeFromNetlink (n\<lparr>nlr_Priority := p, nlr_Scope := s, nlr_Flags := fl\<rparr>) = Some (readRoute r p s fl)"
proof -
  from assms obtain dst where dst: "ipNetFromPrefix (route_Dst r) = Inr dst"
    and m: "prefixMatchesFamily (route_Dst r) (route_Family r)"
    and n: "n = \<lparr>nlr_Family = route_Family r, nlr_Table = route_Table r, nlr_Dst = Some dst,
              nlr_Gw = netIPFromAddr (route_Gateway r),
              nlr_Src = netIPFromPreferredSource (route_PreferredSource r) (route_Family r),
              nlr_LinkIndex = route_LinkIndex r, nlr_Priority = route_Priority r,
              nlr_Scope = route_Scope r, nlr_Flags = route_Flags r, nlr_Type = RTN_UNICAST,
              nlr_MultiPath = map (\<lambda>hop. Some \<lparr>nh_LinkIndex = hop_LinkIndex hop,
                  nh_Gw = netIPFromAddr (hop_Gateway hop), nh_Flags = hop_Flags hop,
                  nh_NewDst = False, nh_Encap = False, nh_Via = False\<rparr>) (route_Multipath r),
              nlr_NewDst = False, nlr_Encap = False, nlr_Via = False, nlr_MPLSDst = False\<rparr>"
    by (auto simp: routeToNetlink_def split: if_splits sum.splits)
  note rd = prefix_roundtrip [OF dst] prefixMatchesFamily_masked [OF m]
  show ?thesis
    unfolding n routeFromNetlink_def
    by (simp add: rd multipath_roundtrip readSource_roundtrip) (simp add: readRoute_def)
qed

text \<open>Two routes with the same destination in netlink's terms have it in the package's, unless they
  are of a kind the package does not support.\<close>

lemma routeFromNetlink_Some:
  assumes "routeFromNetlink n = Some r"
  shows "route_Type r = RouteTypeUnsupported \<and> \<not> prefixIsValid (route_Dst r) \<or>
    route_Family r = nlr_Family n \<and> route_Table r = nlr_Table n \<and>
    Some (route_Dst r) = (case nlr_Dst n of Some dst \<Rightarrow> prefixFromIPNet dst
      | None \<Rightarrow> Some (familyDefaultPrefix (nlr_Family n)))"
proof -
  have hops: "multipathFromNetlink hs x = Some y \<Longrightarrow> route_Family y = route_Family x \<and>
      route_Table y = route_Table x \<and> route_Dst y = route_Dst x" for hs x y
    by (induction hs x rule: multipathFromNetlink.induct) (auto split: if_splits option.splits)
  show ?thesis
  proof (cases "nlr_NewDst n \<or> nlr_Encap n \<or> nlr_Via n \<or> nlr_MPLSDst n")
    case True
    with assms show ?thesis
      by (auto simp: routeFromNetlink_def zeroRoute_def prefixIsValid_def NoPrefix_def)
  next
    case False
    with assms obtain dst x where "(case nlr_Dst n of Some dst \<Rightarrow> prefixFromIPNet dst
        | None \<Rightarrow> Some (familyDefaultPrefix (nlr_Family n))) = Some dst"
      and "multipathFromNetlink (nlr_MultiPath n) x = Some r"
      and "route_Family x = nlr_Family n" "route_Table x = nlr_Table n" "route_Dst x = dst"
      unfolding routeFromNetlink_def by (auto split: option.splits if_splits)
    with hops show ?thesis by metis
  qed
qed

lemma routeToNetlink_home:
  "routeToNetlink q = Inr n \<Longrightarrow> nlr_Family n = route_Family q \<and> nlr_Table n = route_Table q \<and>
     ipNetFromPrefix (route_Dst q) = Inr (the (nlr_Dst n)) \<and> nlr_Dst n \<noteq> None \<and> prefixIsValid (route_Dst q)"
  by (auto simp: routeToNetlink_def prefixMatchesFamily_def split: if_splits sum.splits)

section \<open>What the adapter relies on\<close>

text \<open>How the netlink library lists a rule when it does not copy the action and an 8-bit table.\<close>

definition nlListed :: "bool \<Rightarrow> NLRule \<Rightarrow> NLRule" where
  "nlListed lossy n = (if lossy then n\<lparr>nlu_Type := 0,
     nlu_Table := (if nlu_Table n < 256 then 0 else nlu_Table n)\<rparr> else n)"

text \<open>The package's view of the kernel: its rules, its routes, how a rule and a route read.\<close>

definition kernel_rules :: "('k \<Rightarrow> NLRule multiset) \<Rightarrow> 'k \<Rightarrow> Rule multiset" where
  "kernel_rules nlrules k = image_mset ruleFromNetlink (nlrules k)"

definition kernel_routes :: "('k \<Rightarrow> int \<Rightarrow> int \<Rightarrow> NLRoute set) \<Rightarrow> 'k \<Rightarrow> int \<Rightarrow> int \<Rightarrow> Route set" where
  "kernel_routes nlroutes k f t = {r. \<exists>n \<in> nlroutes k f t. routeFromNetlink n = Some r}"

definition kernel_shown :: "(NLRoute \<Rightarrow> NLRoute) \<Rightarrow> Route \<Rightarrow> Route" where
  "kernel_shown stored q = (case routeToNetlink q of
     Inr n \<Rightarrow> (case routeFromNetlink (stored n) of Some r \<Rightarrow> r | None \<Rightarrow> zeroRoute) | Inl _ \<Rightarrow> zeroRoute)"

definition listed_as :: "bool \<Rightarrow> Rule \<Rightarrow> Rule" where
  "listed_as lossy r = (if lossy then listedRule r else r)"

text \<open>
  \<open>nlrules k\<close> are the policy rules of the kernel and \<open>nlroutes k f t\<close> its routes of a family and a
  table, in the library's terms. \<open>lossy\<close> says whether the library loses the action and the small
  tables of the rules it lists; \<open>stored\<close> is a route as the kernel keeps it, with a priority, a
  scope and flags of its own. The kernel holds only rules that the library's rule type describes
  completely (by priority, mark, mask, lookup table or unreachable action), and refuses a rule it
  has; deleting a rule takes one that the request describes, in full or as it is listed; deleting
  a route leaves no route that reads like it but for the flags.
\<close>

locale netlink_handle =
  fixes H :: "'k netlinkHandle"
    and nlrules :: "'k \<Rightarrow> NLRule multiset"
    and nlroutes :: "'k \<Rightarrow> int \<Rightarrow> int \<Rightarrow> NLRoute set"
    and lossy :: bool
    and stored :: "NLRoute \<Rightarrow> NLRoute"
  assumes nl_link: "h_LinkByIndex H i k = (z, k') \<Longrightarrow> nlrules k' = nlrules k \<and> nlroutes k' = nlroutes k"
    and nl_rules_normal: "n \<in># nlrules k \<Longrightarrow> ruleToNetlink (ruleFromNetlink n) = n \<and> canonical_rule (ruleFromNetlink n)"
    and nl_list_routes: "h_RouteListFiltered H f t k = (w, k') \<Longrightarrow>
      nlrules k' = nlrules k \<and> nlroutes k' = nlroutes k \<and> (\<forall>ns. w = Inr ns \<longrightarrow> set ns = nlroutes k f t)"
    and nl_list_rules: "h_RuleList H f k = (v, k') \<Longrightarrow>
      nlrules k' = nlrules k \<and> nlroutes k' = nlroutes k \<and> (\<forall>ns. v = Inr ns \<longrightarrow>
        mset ns = image_mset (nlListed lossy) (filter_mset (\<lambda>n. nlu_Family n = f) (nlrules k)))"
    and nl_rule_add: "h_RuleAdd H n k = (z, k') \<Longrightarrow> nlroutes k' = nlroutes k \<and>
      (z \<noteq> None \<longrightarrow> nlrules k' = nlrules k) \<and> (\<forall>e. z = Some e \<longrightarrow> errors_is e EEXIST \<longrightarrow> n \<in># nlrules k) \<and>
      (z = None \<longrightarrow> n \<notin># nlrules k \<and> nlrules k' = add_mset n (nlrules k))"
    and nl_rule_del: "h_RuleDel H n k = (z, k') \<Longrightarrow> nlroutes k' = nlroutes k \<and>
      (z \<noteq> None \<longrightarrow> nlrules k' = nlrules k) \<and>
      (\<forall>e. z = Some e \<longrightarrow> errors_is e ESRCH \<longrightarrow> (\<forall>x. x \<in># nlrules k \<longrightarrow> n \<noteq> x \<and> n \<noteq> nlListed lossy x)) \<and>
      (z = None \<longrightarrow> (\<exists>x. x \<in># nlrules k \<and> (n = x \<or> n = nlListed lossy x) \<and> nlrules k' = nlrules k - {#x#}))"
    and nl_stored: "\<exists>p s fl. stored q = q\<lparr>nlr_Priority := p, nlr_Scope := s, nlr_Flags := fl\<rparr>"
    and nl_route_home: "q \<in> nlroutes k f t \<Longrightarrow> nlr_Family q = f \<and> nlr_Table q = t"
    and nl_replace: "h_RouteReplace H q k = (z, k') \<Longrightarrow> nlrules k' = nlrules k \<and>
      nlroutes k' f t \<subseteq> nlroutes k f t \<union>
        (if z = None \<and> f = nlr_Family q \<and> t = nlr_Table q then {stored q} else {}) \<and>
      (z = None \<longrightarrow> stored q \<in> nlroutes k' (nlr_Family q) (nlr_Table q)) \<and>
      (\<forall>y. y \<in> nlroutes k f t \<longrightarrow> y \<notin> nlroutes k' f t \<longrightarrow>
        z = None \<and> f = nlr_Family q \<and> t = nlr_Table q \<and> nlr_Dst y = nlr_Dst q)"
    and nl_route_del: "h_RouteDel H q k = (z, k') \<Longrightarrow> nlrules k' = nlrules k \<and>
      nlroutes k' f t \<subseteq> nlroutes k f t \<and>
      ((f, t) \<noteq> (nlr_Family q, nlr_Table q) \<longrightarrow> nlroutes k' f t = nlroutes k f t) \<and>
      (\<forall>y r. z = None \<or> errors_is (the z) ESRCH \<longrightarrow> y \<in> nlroutes k' f t \<longrightarrow>
        routeFromNetlink y = Some r \<longrightarrow> routeToNetlink (routeDeleteSpec r) \<noteq> Inr q)"
begin

abbreviation krules :: "'k \<Rightarrow> Rule multiset" where "krules \<equiv> kernel_rules nlrules"
abbreviation kroutes :: "'k \<Rightarrow> int \<Rightarrow> int \<Rightarrow> Route set" where "kroutes \<equiv> kernel_routes nlroutes"

lemma ruleToNetlink_inj: "canonical_rule r \<Longrightarrow> canonical_rule s \<Longrightarrow> ruleToNetlink r = ruleToNetlink s \<Longrightarrow> r = s"
  using ruleFromNetlink_inverse by metis

lemma ruleToNetlink_in: "canonical_rule r \<Longrightarrow> ruleToNetlink r \<in># nlrules k \<longleftrightarrow> r \<in># krules k"
  using nl_rules_normal ruleFromNetlink_inverse by (force simp: kernel_rules_def image_iff)

text \<open>Listing commutes with reading, on the rules a kernel holds.\<close>

lemma nlListed_read:
  assumes "n \<in># nlrules k"
  shows "ruleFromNetlink (nlListed lossy n) = listed_as lossy (ruleFromNetlink n)"
    and "ruleToNetlink (listed_as lossy (ruleFromNetlink n)) = nlListed lossy n"
proof -
  obtain r where n: "n = ruleToNetlink r" and c: "canonical_rule r" and r: "ruleFromNetlink n = r"
    using nl_rules_normal [OF assms] by metis
  show "ruleFromNetlink (nlListed lossy n) = listed_as lossy (ruleFromNetlink n)"
    unfolding r using c by (cases r; cases "rule_Action r")
      (auto simp: n nlListed_def listed_as_def listedRule_def ruleFromNetlink_def ruleToNetlink_def canonical_rule_def)
  show "ruleToNetlink (listed_as lossy (ruleFromNetlink n)) = nlListed lossy n"
    unfolding r using c by (cases r; cases "rule_Action r")
      (auto simp: n nlListed_def listed_as_def listedRule_def ruleToNetlink_def canonical_rule_def)
qed

lemma real_ListRules_ok:
  assumes "real_ListRules H f k = (y, k')"
  shows "krules k' = krules k" and "kroutes k' = kroutes k"
    and "y = Inr xs \<Longrightarrow> mset xs = image_mset (listed_as lossy) (filter_mset (\<lambda>r. rule_Family r = f) (krules k))"
proof -
  obtain v where v: "h_RuleList H f k = (v, k')"
    using assms by (auto simp: real_ListRules_def split: prod.splits sum.splits)
  note l = nl_list_rules [OF v]
  show "krules k' = krules k" and "kroutes k' = kroutes k"
    using l by (simp_all add: kernel_rules_def kernel_routes_def fun_eq_iff)
  show "mset xs = image_mset (listed_as lossy) (filter_mset (\<lambda>r. rule_Family r = f) (krules k))" if yx: "y = Inr xs"
  proof -
    obtain ns where ns: "v = Inr ns" "xs = map ruleFromNetlink ns"
      using assms v yx by (auto simp: real_ListRules_def split: sum.splits)
    have fam: "rule_Family (ruleFromNetlink n) = nlu_Family n" for n
      by (simp add: ruleFromNetlink_def Let_def)
    have "mset xs = image_mset ruleFromNetlink (image_mset (nlListed lossy)
        (filter_mset (\<lambda>n. nlu_Family n = f) (nlrules k)))" using l ns by simp
    also have "\<dots> = image_mset (\<lambda>n. listed_as lossy (ruleFromNetlink n)) (filter_mset (\<lambda>n. nlu_Family n = f) (nlrules k))"
      using nlListed_read(1) by (auto simp: multiset.map_comp intro!: image_mset_cong)
    finally show ?thesis
      unfolding kernel_rules_def filter_mset_image_mset by (simp add: multiset.map_comp comp_def fam)
  qed
qed

lemma real_AddRule_ok:
  assumes "real_AddRule H r k = (z, k')"
  shows "kroutes k' = kroutes k" and "z = Some e \<Longrightarrow> krules k' = krules k"
    and "z = None \<Longrightarrow> canonical_rule r \<Longrightarrow> krules k' = (if r \<in># krules k then krules k else add_mset r (krules k))"
proof -
  obtain z' where a: "h_RuleAdd H (ruleToNetlink r) k = (z', k')"
    using assms by (auto simp: real_AddRule_def ignoring_def split: prod.splits option.splits)
  note l = nl_rule_add [OF a]
  show "kroutes k' = kroutes k" using l by (simp add: kernel_routes_def fun_eq_iff)
  have z: "z' = None \<Longrightarrow> z = None" "z' = Some e \<Longrightarrow> z = (if errors_is e EEXIST then None else Some e)" for e
    using assms a by (auto simp: real_AddRule_def ignoring_def split: if_splits)
  show "krules k' = krules k" if "z = Some e"
    using that z l by (cases z') (auto simp: kernel_rules_def)
  show "krules k' = (if r \<in># krules k then krules k else add_mset r (krules k))" if "z = None" "canonical_rule r"
    using that z l ruleToNetlink_in [of r k] ruleFromNetlink_inverse [of r]
    by (cases z') (auto simp: kernel_rules_def split: if_splits)
qed

lemma real_DeleteRule_ok:
  assumes "real_DeleteRule H x k = (z, k')"
  shows "kroutes k' = kroutes k" and "z = Some e \<Longrightarrow> krules k' = krules k"
    and "z = None \<Longrightarrow> canonical_rule x \<Longrightarrow>
      (\<exists>r. r \<in># krules k \<and> (x = r \<or> x = listed_as lossy r) \<and> krules k' = krules k - {#r#}) \<or>
      (\<forall>r. r \<in># krules k \<longrightarrow> x \<noteq> r \<and> x \<noteq> listed_as lossy r) \<and> krules k' = krules k"
proof -
  obtain z' where a: "h_RuleDel H (ruleToNetlink x) k = (z', k')"
    using assms by (auto simp: real_DeleteRule_def ignoring_def split: prod.splits option.splits)
  note l = nl_rule_del [OF a]
  show "kroutes k' = kroutes k" using l by (simp add: kernel_routes_def fun_eq_iff)
  have z: "z' = None \<Longrightarrow> z = None" "z' = Some e \<Longrightarrow> z = (if errors_is e ESRCH then None else Some e)" for e
    using assms a by (auto simp: real_DeleteRule_def ignoring_def split: if_splits)
  show "krules k' = krules k" if "z = Some e"
    using that z l by (cases z') (auto simp: kernel_rules_def)
  assume zn: "z = None" and c: "canonical_rule x"
  have match: "ruleToNetlink x = n \<or> ruleToNetlink x = nlListed lossy n \<longleftrightarrow>
      x = ruleFromNetlink n \<or> x = listed_as lossy (ruleFromNetlink n)" if "n \<in># nlrules k" for n
    using nlListed_read [OF that] nl_rules_normal [OF that] ruleFromNetlink_inverse [OF c] by metis
  show "(\<exists>r. r \<in># krules k \<and> (x = r \<or> x = listed_as lossy r) \<and> krules k' = krules k - {#r#}) \<or>
      (\<forall>r. r \<in># krules k \<longrightarrow> x \<noteq> r \<and> x \<noteq> listed_as lossy r) \<and> krules k' = krules k"
  proof (cases z')
    case None
    with l obtain n where n: "n \<in># nlrules k" "ruleToNetlink x = n \<or> ruleToNetlink x = nlListed lossy n"
      "nlrules k' = nlrules k - {#n#}" by blast
    then have "krules k' = krules k - {#ruleFromNetlink n#}"
      by (simp add: kernel_rules_def image_mset_Diff)
    with n match [OF n(1)] show ?thesis
      by (intro disjI1 exI [of _ "ruleFromNetlink n"]) (auto simp: kernel_rules_def)
  next
    case (Some e)
    with z zn have "errors_is e ESRCH" by (auto split: if_splits)
    with l Some have "\<forall>n. n \<in># nlrules k \<longrightarrow> ruleToNetlink x \<noteq> n \<and> ruleToNetlink x \<noteq> nlListed lossy n"
      "nlrules k' = nlrules k" by blast+
    with match show ?thesis by (auto simp: kernel_rules_def)
  qed
qed

lemma real_ListRoutes_ok:
  assumes "real_ListRoutes H f t k = (w, k')"
  shows "krules k' = krules k" and "kroutes k' = kroutes k" and "w = Inr rs \<Longrightarrow> set rs = kroutes k f t"
proof -
  obtain v where v: "h_RouteListFiltered H f t k = (v, k')"
    using assms by (auto simp: real_ListRoutes_def split: prod.splits sum.splits)
  note l = nl_list_routes [OF v]
  show "krules k' = krules k" and "kroutes k' = kroutes k"
    using l by (simp_all add: kernel_rules_def kernel_routes_def fun_eq_iff)
  show "set rs = kroutes k f t" if w: "w = Inr rs"
    using assms v w l by (auto simp: real_ListRoutes_def kernel_routes_def set_map_filter_Some split: sum.splits)
qed

lemma kernel_shown_read:
  assumes "routeToNetlink q = Inr n"
  shows "routeFromNetlink (stored n) = Some (kernel_shown stored q)"
    and "\<exists>p s fl. kernel_shown stored q = readRoute q p s fl"
proof -
  obtain p s fl where "stored n = n\<lparr>nlr_Priority := p, nlr_Scope := s, nlr_Flags := fl\<rparr>"
    using nl_stored [of n] by blast
  then have "routeFromNetlink (stored n) = Some (readRoute q p s fl)" by (simp add: route_roundtrip [OF assms])
  then show "routeFromNetlink (stored n) = Some (kernel_shown stored q)"
    and "\<exists>p s fl. kernel_shown stored q = readRoute q p s fl" using assms by (auto simp: kernel_shown_def)
qed

lemma real_ReplaceRoute_ok:
  assumes "real_ReplaceRoute H q k = (z, k')"
  shows "krules k' = krules k"
    and "z = None \<Longrightarrow> kernel_shown stored q \<in> kroutes k' (route_Family q) (route_Table q)"
    and "kroutes k' f t \<subseteq> (if z = None \<and> f = route_Family q \<and> t = route_Table q
      then insert (kernel_shown stored q) (kroutes k f t) else kroutes k f t)"
    and "x \<in> kroutes k f t \<Longrightarrow> x \<notin> kroutes k' f t \<Longrightarrow> z = None \<and> f = route_Family q \<and> t = route_Table q \<and>
      (route_Dst x = route_Dst (kernel_shown stored q) \<or> route_Type x = RouteTypeUnsupported)"
proof -
  consider e where "routeToNetlink q = Inl e" "z = Some e" "k' = k"
    | n where "routeToNetlink q = Inr n" "h_RouteReplace H n k = (z, k')"
    using assms by (auto simp: real_ReplaceRoute_def split: sum.splits)
  then have "krules k' = krules k \<and>
    (z = None \<longrightarrow> kernel_shown stored q \<in> kroutes k' (route_Family q) (route_Table q)) \<and>
    kroutes k' f t \<subseteq> (if z = None \<and> f = route_Family q \<and> t = route_Table q
      then insert (kernel_shown stored q) (kroutes k f t) else kroutes k f t) \<and>
    (x \<in> kroutes k f t \<longrightarrow> x \<notin> kroutes k' f t \<longrightarrow> z = None \<and> f = route_Family q \<and> t = route_Table q \<and>
      (route_Dst x = route_Dst (kernel_shown stored q) \<or> route_Type x = RouteTypeUnsupported))"
  proof cases
    case (2 n)
    note l = nl_replace [OF 2(2)] and h = routeToNetlink_home [OF 2(1)] and sh = kernel_shown_read [OF 2(1)]
    have dst: "Some (route_Dst (kernel_shown stored q)) = prefixFromIPNet (the (nlr_Dst n))"
      using sh(2) prefix_roundtrip h by (auto simp: readRoute_def)
    have same: "route_Dst x = route_Dst (kernel_shown stored q) \<or> route_Type x = RouteTypeUnsupported"
      if "routeFromNetlink y = Some x" "nlr_Dst y = nlr_Dst n" for y
    proof -
      obtain d where "nlr_Dst n = Some d" using h by auto
      then have "Some (route_Dst x) = Some (route_Dst (kernel_shown stored q)) \<or> route_Type x = RouteTypeUnsupported"
        using routeFromNetlink_Some [OF that(1)] that(2) dst by auto
      then show ?thesis by simp
    qed
    have "x \<in> kroutes k f t \<Longrightarrow> x \<notin> kroutes k' f t \<Longrightarrow> z = None \<and> f = route_Family q \<and> t = route_Table q \<and>
      (route_Dst x = route_Dst (kernel_shown stored q) \<or> route_Type x = RouteTypeUnsupported)"
    proof -
      assume x: "x \<in> kroutes k f t" "x \<notin> kroutes k' f t"
      then obtain y where y: "y \<in> nlroutes k f t" "routeFromNetlink y = Some x" "y \<notin> nlroutes k' f t"
        unfolding kernel_routes_def by blast
      then have "z = None \<and> f = nlr_Family n \<and> t = nlr_Table n \<and> nlr_Dst y = nlr_Dst n" using l by blast
      with y(2) same h show ?thesis by simp
    qed
    moreover have "kroutes k' f t \<subseteq> (if z = None \<and> f = route_Family q \<and> t = route_Table q
      then insert (kernel_shown stored q) (kroutes k f t) else kroutes k f t)"
    proof
      fix x assume "x \<in> kroutes k' f t"
      then obtain y where y: "y \<in> nlroutes k' f t" "routeFromNetlink y = Some x"
        unfolding kernel_routes_def by blast
      have "nlroutes k' f t \<subseteq> nlroutes k f t \<union>
        (if z = None \<and> f = nlr_Family n \<and> t = nlr_Table n then {stored n} else {})" using l by blast
      with y(1) h consider "y \<in> nlroutes k f t"
        | "y = stored n" "z = None" "f = route_Family q" "t = route_Table q" by (auto split: if_splits)
      then show "x \<in> (if z = None \<and> f = route_Family q \<and> t = route_Table q
        then insert (kernel_shown stored q) (kroutes k f t) else kroutes k f t)"
        by cases (use y(2) sh(1) in \<open>auto simp: kernel_routes_def\<close>)
    qed
    moreover have "z = None \<longrightarrow> kernel_shown stored q \<in> kroutes k' (route_Family q) (route_Table q)"
    proof
      assume "z = None"
      then have "stored n \<in> nlroutes k' (nlr_Family n) (nlr_Table n)" using l by blast
      then show "kernel_shown stored q \<in> kroutes k' (route_Family q) (route_Table q)"
        using h sh(1) unfolding kernel_routes_def by auto
    qed
    moreover have "nlrules k' = nlrules k" using l by blast
    ultimately show ?thesis by (simp add: kernel_rules_def)
  qed auto
  then show "krules k' = krules k"
    and "z = None \<Longrightarrow> kernel_shown stored q \<in> kroutes k' (route_Family q) (route_Table q)"
    and "kroutes k' f t \<subseteq> (if z = None \<and> f = route_Family q \<and> t = route_Table q
      then insert (kernel_shown stored q) (kroutes k f t) else kroutes k f t)"
    and "x \<in> kroutes k f t \<Longrightarrow> x \<notin> kroutes k' f t \<Longrightarrow> z = None \<and> f = route_Family q \<and> t = route_Table q \<and>
      (route_Dst x = route_Dst (kernel_shown stored q) \<or> route_Type x = RouteTypeUnsupported)" by blast+
qed

lemma real_DeleteRoute_ok:
  assumes "real_DeleteRoute H q k = (z, k')"
  shows "krules k' = krules k" and "kroutes k' f t \<subseteq> kroutes k f t"
    and "z = None \<Longrightarrow> q \<notin> kroutes k' f t"
    and "q \<in> kroutes k'' f t \<Longrightarrow> (f', t') \<noteq> (f, t) \<Longrightarrow> kroutes k' f' t' = kroutes k f' t'"
proof -
  consider e where "routeToNetlink (routeDeleteSpec q) = Inl e" "z = Some e" "k' = k"
    | n z' where "routeToNetlink (routeDeleteSpec q) = Inr n" "h_RouteDel H n k = (z', k')"
      "z = None \<longrightarrow> z' = None \<or> errors_is (the z') ESRCH"
    using assms by (auto simp: real_DeleteRoute_def ignoring_def split: sum.splits prod.splits option.splits if_splits)
  then have "krules k' = krules k \<and> kroutes k' f t \<subseteq> kroutes k f t \<and> (z = None \<longrightarrow> q \<notin> kroutes k' f t) \<and>
    (q \<in> kroutes k'' f t \<longrightarrow> (f', t') \<noteq> (f, t) \<longrightarrow> kroutes k' f' t' = kroutes k f' t')"
  proof cases
    case (2 n z')
    note l = nl_route_del [OF 2(2)] and h = routeToNetlink_home [OF 2(1)]
    have "q \<notin> kroutes k' f t" if "z = None"
      using l [of f t] 2(1,3) that unfolding kernel_routes_def by blast
    moreover have "kroutes k' f' t' = kroutes k f' t'" if q: "q \<in> kroutes k'' f t" "(f', t') \<noteq> (f, t)"
    proof -
      obtain y where y: "y \<in> nlroutes k'' f t" "routeFromNetlink y = Some q"
        using q(1) unfolding kernel_routes_def by blast
      have "prefixIsValid (route_Dst q)" using h by (simp add: routeDeleteSpec_def)
      then have "nlr_Family n = f" "nlr_Table n = t"
        using routeFromNetlink_Some [OF y(2)] nl_route_home [OF y(1)] h by (auto simp: routeDeleteSpec_def)
      with q(2) l [of f' t'] show ?thesis unfolding kernel_routes_def by auto
    qed
    ultimately show ?thesis using l [of f t] by (auto simp: kernel_rules_def kernel_routes_def)
  qed auto
  then show "krules k' = krules k" and "kroutes k' f t \<subseteq> kroutes k f t" and "z = None \<Longrightarrow> q \<notin> kroutes k' f t"
    and "q \<in> kroutes k'' f t \<Longrightarrow> (f', t') \<noteq> (f, t) \<Longrightarrow> kroutes k' f' t' = kroutes k f' t'" by blast+
qed

end

sublocale netlink_handle \<subseteq> real: netlink_adapter "realAdapter H" "kernel_rules nlrules"
  "kernel_routes nlroutes" "listed_as lossy" "kernel_shown stored"
proof (unfold_locales, unfold realAdapter_def netlinkAdapter.simps)
  show "listed_as lossy r = r \<or> listed_as lossy r = listedRule r" for r by (simp add: listed_as_def)
  show "listed_as lossy (listed_as lossy r) = listed_as lossy r" for r
    by (simp add: listed_as_def listedRule_def)
  show "canonical_rule r" if "r \<in># kernel_rules nlrules k" for r k
    using that nl_rules_normal by (auto simp: kernel_rules_def)
  show "kernel_rules nlrules k' = kernel_rules nlrules k \<and> kernel_routes nlroutes k' = kernel_routes nlroutes k"
    if "real_LinkByIndex H i k = (z, k')" for i k z k'
    using that nl_link [of i k] by (auto simp: real_LinkByIndex_def kernel_rules_def kernel_routes_def fun_eq_iff
        split: prod.splits option.splits)
  show "route_Type (kernel_shown stored q) \<noteq> RouteTypeUnsupported" for q
    using kernel_shown_read(2) [of q]
    by (cases "routeToNetlink q") (auto simp: kernel_shown_def zeroRoute_def readRoute_def)
  fix f t k w k' y z
  show "kernel_rules nlrules k' = kernel_rules nlrules k \<and> kernel_routes nlroutes k' = kernel_routes nlroutes k"
    if "real_ListRoutes H f t k = (w, k')" using real_ListRoutes_ok [OF that] by blast
  show "set rs = kernel_routes nlroutes k f t" if "real_ListRoutes H f t k = (Inr rs, k')" for rs
    using real_ListRoutes_ok(3) [OF that] by blast
  show "kernel_rules nlrules k' = kernel_rules nlrules k \<and> kernel_routes nlroutes k' = kernel_routes nlroutes k"
    if "real_ListRules H f k = (y, k')" using real_ListRules_ok [OF that] by blast
  show "mset xs = image_mset (listed_as lossy) (filter_mset (\<lambda>r. rule_Family r = f) (kernel_rules nlrules k))"
    if "real_ListRules H f k = (Inr xs, k')" for xs using real_ListRules_ok(3) [OF that] by blast
  fix r x e
  show "kernel_rules nlrules k' = (if r \<in># kernel_rules nlrules k then kernel_rules nlrules k
      else add_mset r (kernel_rules nlrules k))" if "real_AddRule H r k = (None, k')" "canonical_rule r"
    using real_AddRule_ok(3) [OF that(1)] that(2) by blast
  show "kernel_rules nlrules k' = kernel_rules nlrules k" if "real_AddRule H r k = (Some e, k')"
    using real_AddRule_ok(2) [OF that] by blast
  show "kernel_routes nlroutes k' = kernel_routes nlroutes k" if "real_AddRule H r k = (z, k')"
    using real_AddRule_ok(1) [OF that] .
  show "(\<exists>r. r \<in># kernel_rules nlrules k \<and> (x = r \<or> x = listed_as lossy r) \<and>
        kernel_rules nlrules k' = kernel_rules nlrules k - {#r#}) \<or>
      (\<forall>r. r \<in># kernel_rules nlrules k \<longrightarrow> x \<noteq> r \<and> x \<noteq> listed_as lossy r) \<and>
        kernel_rules nlrules k' = kernel_rules nlrules k"
    if "real_DeleteRule H x k = (None, k')" "canonical_rule x"
    using real_DeleteRule_ok(3) [OF that(1)] that(2) by blast
  show "kernel_rules nlrules k' = kernel_rules nlrules k" if "real_DeleteRule H x k = (Some e, k')"
    using real_DeleteRule_ok(2) [OF that] by blast
  show "kernel_routes nlroutes k' = kernel_routes nlroutes k" if "real_DeleteRule H x k = (z, k')"
    using real_DeleteRule_ok(1) [OF that] .
  fix q
  show "kernel_shown stored q \<in> kernel_routes nlroutes k' (route_Family q) (route_Table q)"
    if "real_ReplaceRoute H q k = (None, k')" using real_ReplaceRoute_ok(2) [OF that] by blast
  show "kernel_routes nlroutes k' f t \<subseteq> (if z = None \<and> f = route_Family q \<and> t = route_Table q
      then insert (kernel_shown stored q) (kernel_routes nlroutes k f t) else kernel_routes nlroutes k f t)"
    if "real_ReplaceRoute H q k = (z, k')" using real_ReplaceRoute_ok(3) [OF that] .
  show "z = None \<and> f = route_Family q \<and> t = route_Table q \<and>
      (route_Dst x' = route_Dst (kernel_shown stored q) \<or> route_Type x' = RouteTypeUnsupported)"
    if "real_ReplaceRoute H q k = (z, k')" "x' \<in> kernel_routes nlroutes k f t"
      "x' \<notin> kernel_routes nlroutes k' f t" for x' using real_ReplaceRoute_ok(4) [OF that] .
  show "kernel_rules nlrules k' = kernel_rules nlrules k" if "real_ReplaceRoute H q k = (z, k')"
    using real_ReplaceRoute_ok(1) [OF that] .
  show "q \<notin> kernel_routes nlroutes k' f t" if "real_DeleteRoute H q k = (None, k')"
    using real_DeleteRoute_ok(3) [OF that] by blast
  show "kernel_routes nlroutes k' f t \<subseteq> kernel_routes nlroutes k f t" if "real_DeleteRoute H q k = (z, k')"
    using real_DeleteRoute_ok(2) [OF that] .
  show "kernel_routes nlroutes k' f' t' = kernel_routes nlroutes k f' t'"
    if "real_DeleteRoute H q k = (z, k')" "q \<in> kernel_routes nlroutes k'' f t" "(f', t') \<noteq> (f, t)" for k'' f' t'
    using real_DeleteRoute_ok(4) [OF that] .
  show "kernel_rules nlrules k' = kernel_rules nlrules k" if "real_DeleteRoute H q k = (z, k')"
    using real_DeleteRoute_ok(1) [OF that] .
qed

context netlink_handle
begin

lemma real_adapter: "netlink_adapter (realAdapter H) (kernel_rules nlrules) (kernel_routes nlroutes)
    (listed_as lossy) (kernel_shown stored)"
  by (rule real.netlink_adapter_axioms)

end

end
