(* ===== verification/Routing_Kernel.thy ===== *)
theory Routing_Kernel
  imports Routing_Adapter
begin

text \<open>
  A kernel on lists that the netlink handle's contract describes, for running the manager on
  concrete inputs. Its rule listing loses the action and the small tables, as the netlink library
  does; a route replaces the routes with its destination and priority. The interpretation shows
  that the assumptions of \<open>netlink_handle\<close> can hold together.
\<close>

record Kernel =
  kn_links :: "int list"
  kn_rules :: "NLRule list"
  kn_routes :: "NLRoute list"

definition nlNormal :: "NLRule \<Rightarrow> bool" where
  "nlNormal n \<longleftrightarrow> ruleToNetlink (ruleFromNetlink n) = n \<and> canonical_rule (ruleFromNetlink n)"

definition normal_rules :: "Kernel \<Rightarrow> NLRule list" where
  "normal_rules k = filter nlNormal (kn_rules k)"

definition routes_in :: "Kernel \<Rightarrow> int \<Rightarrow> int \<Rightarrow> NLRoute list" where
  "routes_in k f t = filter (\<lambda>q. nlr_Family q = f \<and> nlr_Table q = t) (kn_routes k)"

definition reads_like :: "NLRoute \<Rightarrow> NLRoute \<Rightarrow> bool" where
  "reads_like q y \<longleftrightarrow> (case routeFromNetlink y of None \<Rightarrow> False
     | Some r \<Rightarrow> routeToNetlink (routeDeleteSpec r) = Inr q)"

definition sim_RuleAdd :: "NLRule \<Rightarrow> Kernel act" where
  "sim_RuleAdd n k = (if \<not> nlNormal n then (Some (Errno 22), k)
     else if n \<in> set (normal_rules k) then (Some EEXIST, k)
     else (None, k\<lparr>kn_rules := kn_rules k @ [n]\<rparr>))"

definition sim_RuleDel :: "NLRule \<Rightarrow> Kernel act" where
  "sim_RuleDel n k = (case find (\<lambda>x. n = x \<or> n = nlListed True x) (normal_rules k) of
     None \<Rightarrow> (Some ESRCH, k) | Some x \<Rightarrow> (None, k\<lparr>kn_rules := remove1 x (kn_rules k)\<rparr>))"

definition sim_RouteReplace :: "NLRoute \<Rightarrow> Kernel act" where
  "sim_RouteReplace q k = (None, k\<lparr>kn_routes := filter (\<lambda>y. \<not> (nlr_Family y = nlr_Family q \<and>
     nlr_Table y = nlr_Table q \<and> nlr_Dst y = nlr_Dst q \<and> nlr_Priority y = nlr_Priority q)) (kn_routes k) @ [q]\<rparr>)"

definition sim_RouteDel :: "NLRoute \<Rightarrow> Kernel act" where
  "sim_RouteDel q k = (if list_ex (reads_like q) (kn_routes k)
     then (None, k\<lparr>kn_routes := filter (\<lambda>y. \<not> reads_like q y) (kn_routes k)\<rparr>) else (Some ESRCH, k))"

definition LinkNotFound :: goError where
  "LinkNotFound = ErrorsNew ''Link not found''"

definition simHandle :: "Kernel netlinkHandle" where
  "simHandle = \<lparr>h_LinkByIndex = (\<lambda>i k. (if i \<in> set (kn_links k) then None else Some LinkNotFound, k)),
     h_isLinkNotFound = (\<lambda>e. e = LinkNotFound),
     h_RouteListFiltered = (\<lambda>f t k. (Inr (routes_in k f t), k)),
     h_RouteReplace = sim_RouteReplace, h_RouteDel = sim_RouteDel,
     h_RuleList = (\<lambda>f k. (Inr (map (nlListed True) (filter (\<lambda>n. nlu_Family n = f) (normal_rules k))), k)),
     h_RuleAdd = sim_RuleAdd, h_RuleDel = sim_RuleDel, h_Close = (\<lambda>k. k)\<rparr>"

text \<open>The route a request describes lies in the request's table.\<close>

lemma reads_like_iff:
  "reads_like q y \<longleftrightarrow> (\<exists>r. routeFromNetlink y = Some r \<and> routeToNetlink (routeDeleteSpec r) = Inr q)"
  by (auto simp: reads_like_def split: option.splits)

lemma reads_like_home:
  "routeFromNetlink y = Some r \<Longrightarrow> routeToNetlink (routeDeleteSpec r) = Inr q \<Longrightarrow>
     nlr_Family y = nlr_Family q \<and> nlr_Table y = nlr_Table q"
  using routeFromNetlink_Some routeToNetlink_home by (fastforce simp: routeDeleteSpec_def)

interpretation sim: netlink_handle simHandle "\<lambda>k. mset (normal_rules k)"
  "\<lambda>k f t. set (routes_in k f t)" True "\<lambda>q. q"
proof (unfold_locales, unfold simHandle_def netlinkHandle.simps)
  fix k k' z n
  show "mset (normal_rules k') = mset (normal_rules k) \<and> (\<lambda>f t. set (routes_in k' f t)) = (\<lambda>f t. set (routes_in k f t))"
    if "(if i \<in> set (kn_links k) then None else Some LinkNotFound, k) = (z, k')" for i using that by auto
  show "ruleToNetlink (ruleFromNetlink n) = n \<and> canonical_rule (ruleFromNetlink n)"
    if "n \<in># mset (normal_rules k)" using that by (simp add: normal_rules_def nlNormal_def)
  show "(\<lambda>f t. set (routes_in k' f t)) = (\<lambda>f t. set (routes_in k f t)) \<and>
      (z \<noteq> None \<longrightarrow> mset (normal_rules k') = mset (normal_rules k)) \<and>
      (\<forall>e. z = Some e \<longrightarrow> errors_is e EEXIST \<longrightarrow> n \<in># mset (normal_rules k)) \<and>
      (z = None \<longrightarrow> n \<notin># mset (normal_rules k) \<and> mset (normal_rules k') = add_mset n (mset (normal_rules k)))"
    if "sim_RuleAdd n k = (z, k')"
    using that by (auto simp: sim_RuleAdd_def EEXIST_def normal_rules_def routes_in_def split: if_splits)
  show "(\<lambda>f t. set (routes_in k' f t)) = (\<lambda>f t. set (routes_in k f t)) \<and>
      (z \<noteq> None \<longrightarrow> mset (normal_rules k') = mset (normal_rules k)) \<and>
      (\<forall>e. z = Some e \<longrightarrow> errors_is e ESRCH \<longrightarrow>
        (\<forall>x. x \<in># mset (normal_rules k) \<longrightarrow> n \<noteq> x \<and> n \<noteq> nlListed True x)) \<and>
      (z = None \<longrightarrow> (\<exists>x. x \<in># mset (normal_rules k) \<and> (n = x \<or> n = nlListed True x) \<and>
        mset (normal_rules k') = mset (normal_rules k) - {#x#}))"
    if d: "sim_RuleDel n k = (z, k')"
  proof (cases "find (\<lambda>x. n = x \<or> n = nlListed True x) (normal_rules k)")
    case None
    with d show ?thesis by (auto simp: sim_RuleDel_def find_None_iff)
  next
    case (Some x)
    then have x: "x \<in> set (normal_rules k)" "n = x \<or> n = nlListed True x" by (auto simp: find_Some_iff)
    then have "mset (filter nlNormal (remove1 x (kn_rules k))) = mset (filter nlNormal (kn_rules k)) - {#x#}"
      by (simp add: normal_rules_def)
    with d Some x show ?thesis by (auto simp: sim_RuleDel_def normal_rules_def routes_in_def)
  qed
  show "\<exists>p s fl. q = q\<lparr>nlr_Priority := p, nlr_Scope := s, nlr_Flags := fl\<rparr>" for q :: NLRoute
    by (rule exI [of _ "nlr_Priority q"], rule exI [of _ "nlr_Scope q"], rule exI [of _ "nlr_Flags q"]) simp
qed (auto simp: sim_RouteReplace_def sim_RouteDel_def routes_in_def normal_rules_def list_ex_iff ESRCH_def
    reads_like_iff simp flip: mset_filter dest: reads_like_home split: if_splits)

end
