(* ===== verification/Routing_Samples.thy ===== *)
theory Routing_Samples
  imports Routing_Kernel
begin

text \<open>
  A configuration, a kernel and a manager on which the theorems about the routing package are
  evaluated: a host with a default route through 192.168.1.1 on link 2 and a TUN device with index
  10, in the non-strict exclude mode.
\<close>

definition sampleConfig :: Config where
  "sampleConfig = DefaultConfig\<lparr>cfg_TUNIndex := 10, cfg_UserMark := 0x51, cfg_Strictness := NonStrict,
     cfg_Families := \<lparr>fam_IPv4 = True, fam_IPv6 = False\<rparr>\<rparr>"

definition sampleMainRoute :: "u32 \<Rightarrow> int \<Rightarrow> netIP \<Rightarrow> NLRoute" where
  "sampleMainRoute dst ones gw = \<lparr>nlr_Family = AF_INET, nlr_Table = RT_TABLE_MAIN,
     nlr_Dst = Some \<lparr>ipnet_IP = IP4 dst, ipnet_Mask = CIDRMask ones 32\<rparr>, nlr_Gw = gw, nlr_Src = IPNil,
     nlr_LinkIndex = 2, nlr_Priority = 0, nlr_Scope = 0, nlr_Flags = 0, nlr_Type = RTN_UNICAST,
     nlr_MultiPath = [], nlr_NewDst = False, nlr_Encap = False, nlr_Via = False, nlr_MPLSDst = False\<rparr>"

definition sampleKernel :: Kernel where
  "sampleKernel = \<lparr>kn_links = [1, 2, 10],
     kn_rules = map ruleToNetlink [markRule AF_INET 0 RuleLookup RT_TABLE_LOCAL 0 0,
       markRule AF_INET 32766 RuleLookup RT_TABLE_MAIN 0 0],
     kn_routes = [sampleMainRoute 0 0 (IP4 0xc0a80101), sampleMainRoute 0xc0a80100 24 IPNil]\<rparr>"

definition sampleManager :: "Kernel Manager" where
  "sampleManager = newManagerWithAdapter (realAdapter simHandle)"

definition afterApply :: "goError option \<times> Kernel Manager \<times> Kernel" where
  "afterApply = Apply sampleManager sampleConfig sampleKernel"

text \<open>The same host with a route in the VPN table that the package cannot describe, nor delete.\<close>

definition stuckKernel :: Kernel where
  "stuckKernel = sampleKernel\<lparr>kn_routes := kn_routes sampleKernel @
     [(sampleMainRoute 0x0a000000 8 IPNil)\<lparr>nlr_Table := DefaultVPNTable, nlr_Encap := True\<rparr>]\<rparr>"

definition sampleSnapshot :: Snapshot where
  "sampleSnapshot = \<lparr>snap_MainRoutes = List.map_filter routeFromNetlink (kn_routes sampleKernel)\<rparr>"

definition sampleDesired :: DesiredState where
  "sampleDesired = (case CompileDesiredState sampleConfig sampleSnapshot of Inr d \<Rightarrow> d
     | Inl e \<Rightarrow> \<lparr>ds_Config = sampleConfig, ds_Rules = [], ds_VPNRoutes = [], ds_SafeRoutes = []\<rparr>)"

text \<open>The host as a manager that stopped left it: two of its rules and one of its routes.\<close>

definition dirtyKernel :: Kernel where
  "dirtyKernel = sampleKernel
     \<lparr>kn_rules := kn_rules sampleKernel @ map ruleToNetlink [transitionGuard sampleConfig AF_INET,
        markRule AF_INET 10003 RuleLookup DefaultSafeTable 0 0],
      kn_routes := kn_routes sampleKernel @
        [(sampleMainRoute 0 0 IPNil)\<lparr>nlr_Table := DefaultVPNTable, nlr_LinkIndex := 10\<rparr>]\<rparr>"

text \<open>A manager that has applied the sample state.\<close>

definition refreshManager :: "Kernel Manager" where
  "refreshManager = sampleManager\<lparr>mgr_applied := Some sampleDesired\<rparr>"

text \<open>The manager after it has applied the sample configuration, and the kernel it leaves.\<close>

definition appliedManager :: "Kernel Manager" where
  "appliedManager = fst (snd (Apply sampleManager sampleConfig sampleKernel))"

definition appliedKernel :: Kernel where
  "appliedKernel = snd (snd (Apply sampleManager sampleConfig sampleKernel))"

lemma sampleApply: "fst (Apply sampleManager sampleConfig sampleKernel) = None"
  by code_simp

lemma sampleApply_eq: "Apply sampleManager sampleConfig sampleKernel = (None, appliedManager, appliedKernel)"
  using sampleApply unfolding appliedManager_def appliedKernel_def by (metis prod.collapse)

lemma sampleDesired_compiled: "CompileDesiredState sampleConfig sampleSnapshot = Inr sampleDesired"
proof -
  have "validate sampleConfig = None" by code_simp
  then obtain d where "CompileDesiredState sampleConfig sampleSnapshot = Inr d"
    using CompileDesiredState_ok by blast
  then show ?thesis by (simp add: sampleDesired_def)
qed

end
