(* ===== verification/Routing_Properties.thy ===== *)
theory Routing_Properties
  imports Routing_Samples
begin

text \<open>
  The properties of the routing package, for the manager over the real adapter on any netlink
  handle that keeps the contract \<open>netlink_handle\<close>, and for the compiler of the desired state. Each
  is followed by its evaluation on the sample host.
\<close>

section \<open>The sample run\<close>

abbreviation sim_rules :: "Kernel \<Rightarrow> Rule multiset" where
  "sim_rules \<equiv> kernel_rules (\<lambda>k. mset (normal_rules k))"

abbreviation sim_routes :: "Kernel \<Rightarrow> int \<Rightarrow> int \<Rightarrow> Route set" where
  "sim_routes \<equiv> kernel_routes (\<lambda>k f t. set (routes_in k f t))"

lemma sim_no_dup:
  "distinct (map ruleFromNetlink (normal_rules k)) \<Longrightarrow> \<forall>r. count (sim_rules k) r \<le> 1"
  unfolding kernel_rules_def by (metis distinct_count_atmost_1 mset_map order_refl zero_le)

lemma sample_no_dup: "\<forall>r. count (sim_rules sampleKernel) r \<le> 1"
  by (rule sim_no_dup) code_simp

lemma sample_manager_ok: "manager_ok sampleManager" "mgr_adapter sampleManager = realAdapter simHandle"
  by (simp_all add: manager_ok_def sampleManager_def newManagerWithAdapter_def)

lemma sample_overflow: "no_priority_overflow sampleConfig"
  by code_simp

section \<open>Apply\<close>

text \<open>
  C1: a successful \<open>Apply\<close> leaves the compiled state of the configuration and of the current main
  routes installed: every compiled rule, the owned tables with routes to exactly the compiled
  destinations and no other route, and no other rule in the owned priority blocks but one that was
  there before, is not of the applied state, and reads like a transition guard when it is listed.
  The manager records the state.
\<close>

theorem apply_installs:
  assumes "netlink_handle H nlrules nlroutes lossy stored"
    and "mgr_adapter m = realAdapter H" and "manager_ok m" and "no_priority_overflow c"
    and "\<forall>r. count (kernel_rules nlrules k) r \<le> 1"
    and "Apply m c k = (None, m', k')"
  shows "\<exists>snap d. CompileDesiredState c snap = Inr d \<and>
    set (snap_MainRoutes snap) = main_routes (kernel_routes nlroutes) c k \<and>
    m' = m\<lparr>mgr_applied := Some d\<rparr> \<and>
    state_installed (kernel_rules nlrules) (kernel_routes nlroutes) (kernel_shown stored)
      (withApplied c (mgr_applied m)) d k' \<and>
    (\<forall>r. r \<in># kernel_rules nlrules k' \<longrightarrow> owned_rule (withApplied c (mgr_applied m)) r \<longrightarrow>
       r \<in> set (ds_Rules d) \<or>
       r \<in># kernel_rules nlrules k \<and> stale_at_guard (withApplied c (mgr_applied m)) (mgr_applied m) r)"
  by (rule netlink_adapter.Apply_None [OF netlink_handle.real_adapter [OF assms(1)] assms(6,2,3,5,4)]) blast

theorem apply_installs_witness:
  "\<exists>m' k'. Apply sampleManager sampleConfig sampleKernel = (None, m', k') \<and>
     (\<exists>snap d. CompileDesiredState sampleConfig snap = Inr d \<and> m' = sampleManager\<lparr>mgr_applied := Some d\<rparr> \<and>
        state_installed sim_rules sim_routes (kernel_shown (\<lambda>q. q)) (withApplied sampleConfig None) d k')"
proof -
  obtain m' k' where a: "Apply sampleManager sampleConfig sampleKernel = (None, m', k')"
    using sampleApply_eq by blast
  show ?thesis
    using apply_installs [OF sim.netlink_handle_axioms sample_manager_ok(2,1) sample_overflow sample_no_dup a] a
    by (auto simp: sampleManager_def newManagerWithAdapter_def)
qed

text \<open>
  C2: an \<open>Apply\<close> that fails leaves the manager as it was, and either it has changed no rule and no
  route, or its error says that a transition guard is active, and a guard of the new or of the
  applied configuration is installed.
\<close>

theorem apply_fails_closed:
  assumes "netlink_handle H nlrules nlroutes lossy stored"
    and "mgr_adapter m = realAdapter H" and "manager_ok m" and "no_priority_overflow c"
    and "\<forall>r. count (kernel_rules nlrules k) r \<le> 1"
    and "Apply m c k = (Some e, m', k')"
  shows "m' = m \<and>
    (errors_is e ErrApplyFailedGuardActive \<and>
       (\<exists>g \<in> set (transitionGuards (withApplied c (mgr_applied m))). g \<in># kernel_rules nlrules k') \<or>
     kernel_rules nlrules k' = kernel_rules nlrules k \<and> kernel_routes nlroutes k' = kernel_routes nlroutes k)"
proof -
  note a = netlink_adapter.Apply_Some [OF netlink_handle.real_adapter [OF assms(1)] assms(6,2,3,5,4)]
  have "errors_is (failWith True e') ErrApplyFailedGuardActive" for e'
    by (simp add: failWith_def ErrApplyFailedGuardActive_def)
  with a(1,2) show ?thesis by metis
qed

theorem apply_fails_closed_witness:
  "\<exists>e m' k'. Apply sampleManager sampleConfig stuckKernel = (Some e, m', k') \<and>
     errors_is e ErrApplyFailedGuardActive \<and> m' = sampleManager"
proof -
  obtain z m' k' where a: "Apply sampleManager sampleConfig stuckKernel = (z, m', k')" by (metis prod.exhaust)
  have "fst (Apply sampleManager sampleConfig stuckKernel) \<noteq> None" by code_simp
  then obtain e where z: "z = Some e" using a by auto
  have n: "\<forall>r. count (sim_rules stuckKernel) r \<le> 1" by (rule sim_no_dup) code_simp
  have "set (kn_rules (snd (snd (Apply sampleManager sampleConfig stuckKernel)))) \<noteq> set (kn_rules stuckKernel)"
    by code_simp
  then have c: "kn_rules k' \<noteq> kn_rules stuckKernel" using a by auto
  have "errors_is (the (fst (Apply sampleManager sampleConfig stuckKernel))) ErrApplyFailedGuardActive" by code_simp
  then have "errors_is e ErrApplyFailedGuardActive" using a z by simp
  then show ?thesis
    using apply_fails_closed [OF sim.netlink_handle_axioms sample_manager_ok(2,1) sample_overflow n a [unfolded z]] a z
    by blast
qed

text \<open>
  C3: at no moment of \<open>applyDesired\<close>, after any single call of the adapter, is a part of a policy
  active without the guards: the rules and routes are the old ones with guards added, or all
  guards are installed, or the new state is complete.
\<close>

theorem apply_guarded_throughout:
  assumes "netlink_handle H nlrules nlroutes lossy stored"
    and "compiled_state desired" and "applied_ok applied"
    and "\<forall>r. count (kernel_rules nlrules k) r \<le> 1"
    and "applyDesired (traced (realAdapter H)) applied desired (k, []) = (z, k', states)"
    and "x \<in> set states"
  shows "apply_phase (kernel_rules nlrules) (kernel_routes nlroutes) (kernel_shown stored)
    (withApplied (ds_Config desired) applied) applied desired k x"
  using netlink_adapter.applyDesired_phases [OF netlink_handle.real_adapter [OF assms(1)] assms(5,4,2,3,6)] .

lemma sampleDesired_state: "compiled_state sampleDesired" "ds_Config sampleDesired = sampleConfig"
proof -
  show c: "ds_Config sampleDesired = sampleConfig" using CompileDesiredState_Inr(2) [OF sampleDesired_compiled] .
  show "compiled_state sampleDesired"
    unfolding compiled_state_def c using sampleDesired_compiled sample_overflow by blast
qed

theorem apply_guarded_throughout_witness:
  "7 < length (snd (snd (applyDesired (traced (realAdapter simHandle)) None sampleDesired (sampleKernel, [])))) \<and>
   apply_phase sim_rules sim_routes (kernel_shown (\<lambda>q. q)) (withApplied (ds_Config sampleDesired) None) None
     sampleDesired sampleKernel
     (snd (snd (applyDesired (traced (realAdapter simHandle)) None sampleDesired (sampleKernel, []))) ! 7)"
proof -
  let ?run = "applyDesired (traced (realAdapter simHandle)) None sampleDesired (sampleKernel, [])"
  have l: "7 < length (snd (snd ?run))" by code_simp
  have run: "?run = (fst ?run, fst (snd ?run), snd (snd ?run))" by simp
  have ok: "applied_ok None" by (simp add: applied_ok_def)
  show ?thesis
    using apply_guarded_throughout [OF sim.netlink_handle_axioms sampleDesired_state(1) ok sample_no_dup run
        nth_mem [OF l]] l by blast
qed

text \<open>
  C4: whether it succeeds or fails, \<open>Apply\<close> changes no rule outside the priority blocks and no route
  outside the tables of the new and the applied configuration; the main table is never touched.
\<close>

theorem apply_touches_only_owned:
  assumes "netlink_handle H nlrules nlroutes lossy stored"
    and "mgr_adapter m = realAdapter H" and "manager_ok m" and "no_priority_overflow c"
    and "\<forall>r. count (kernel_rules nlrules k) r \<le> 1"
    and "Apply m c k = (z, m', k')"
  shows "kernel_framed (kernel_rules nlrules) (kernel_routes nlroutes)
      (owned_priority (withApplied c (mgr_applied m))) (owned_table (withApplied c (mgr_applied m))) k k' \<and>
    kernel_routes nlroutes k' f RT_TABLE_MAIN = kernel_routes nlroutes k f RT_TABLE_MAIN"
proof
  note a = netlink_handle.real_adapter [OF assms(1)]
  show fr: "kernel_framed (kernel_rules nlrules) (kernel_routes nlroutes)
      (owned_priority (withApplied c (mgr_applied m))) (owned_table (withApplied c (mgr_applied m))) k k'"
  proof (cases z)
    case None
    show ?thesis by (rule netlink_adapter.Apply_None [OF a assms(6) [unfolded None] assms(2,3,5,4)])
  next
    case (Some e)
    show ?thesis by (rule netlink_adapter.Apply_Some(3) [OF a assms(6) [unfolded Some] assms(2,3,5,4)])
  qed
  show "kernel_routes nlroutes k' f RT_TABLE_MAIN = kernel_routes nlroutes k f RT_TABLE_MAIN"
  proof (cases "validate c = None")
    case True
    then have "\<forall>c' \<in> set (withApplied c (mgr_applied m)). valid_config c'"
      using withApplied_valid [of c "mgr_applied m"] assms(3,4)
      unfolding manager_ok_def applied_ok_def validate_None_iff by blast
    from main_not_owned [OF this] fr show ?thesis unfolding kernel_framed_def by blast
  next
    case False
    then show ?thesis using assms(6) by (auto simp: Apply_def Let_def split: option.splits)
  qed
qed

theorem apply_touches_only_owned_witness:
  "kernel_framed sim_rules sim_routes (owned_priority [sampleConfig]) (owned_table [sampleConfig])
     sampleKernel appliedKernel \<and>
   sim_routes appliedKernel AF_INET RT_TABLE_MAIN = sim_routes sampleKernel AF_INET RT_TABLE_MAIN"
  using apply_touches_only_owned [OF sim.netlink_handle_axioms sample_manager_ok(2,1) sample_overflow sample_no_dup
      sampleApply_eq, of AF_INET]
  by (simp add: sampleManager_def newManagerWithAdapter_def withApplied_def)

section \<open>Rollback and Refresh\<close>

lemma refresh_manager_ok: "manager_ok refreshManager" "mgr_adapter refreshManager = realAdapter simHandle"
    "mgr_applied refreshManager = Some sampleDesired"
  using sample_manager_ok(2) sampleDesired_state(1) by (simp_all add: manager_ok_def refreshManager_def)

text \<open>
  C5: a successful \<open>Rollback\<close> removes exactly the rules in the priority blocks and the routes of the
  tables of the given and the applied configuration, whatever the mode and the guards, and the
  manager forgets the applied state.
\<close>

theorem rollback_removes_owned:
  assumes "netlink_handle H nlrules nlroutes lossy stored" and "mgr_adapter m = realAdapter H"
    and "Rollback m c k = (None, m', k')"
  shows "m' = m\<lparr>mgr_applied := None\<rparr> \<and>
    kernel_rules nlrules k' =
      filter_mset (\<lambda>r. \<not> owned_rule (withApplied c (mgr_applied m)) r) (kernel_rules nlrules k) \<and>
    (\<forall>f t. kernel_routes nlroutes k' f t =
      (if owned_table (withApplied c (mgr_applied m)) f t then {} else kernel_routes nlroutes k f t))"
  using netlink_adapter.Rollback_None [OF netlink_handle.real_adapter [OF assms(1)] assms(3,2)] by blast

theorem rollback_removes_owned_witness:
  "\<exists>m' k'. Rollback sampleManager sampleConfig dirtyKernel = (None, m', k') \<and> mgr_applied m' = None \<and>
     size (sim_rules dirtyKernel) = 4 \<and> size (sim_rules k') = 2 \<and>
     sim_rules k' = filter_mset (\<lambda>r. \<not> owned_rule (withApplied sampleConfig (mgr_applied sampleManager)) r)
       (sim_rules dirtyKernel)"
proof -
  let ?r = "Rollback sampleManager sampleConfig dirtyKernel"
  have "fst ?r = None" by code_simp
  then have r: "?r = (None, fst (snd ?r), snd (snd ?r))" by (metis prod.collapse)
  have "size (mset (normal_rules (snd (snd ?r)))) = 2" and "size (mset (normal_rules dirtyKernel)) = 4"
    by code_simp+
  then have "size (sim_rules dirtyKernel) = 4" and "size (sim_rules (snd (snd ?r))) = 2"
    by (simp_all add: kernel_rules_def)
  with rollback_removes_owned [OF sim.netlink_handle_axioms sample_manager_ok(2) r] r show ?thesis by fastforce
qed

text \<open>
  even when \<open>Rollback\<close> fails it has touched only what the given and the applied configuration
  own, and the applied state is kept.
\<close>

theorem rollback_touches_only_owned:
  assumes "netlink_handle H nlrules nlroutes lossy stored" and "mgr_adapter m = realAdapter H"
    and "Rollback m c k = (z, m', k')"
  shows "kernel_framed (kernel_rules nlrules) (kernel_routes nlroutes)
      (owned_priority (withApplied c (mgr_applied m))) (owned_table (withApplied c (mgr_applied m))) k k' \<and>
    (z \<noteq> None \<longrightarrow> m' = m)"
  using netlink_adapter.Rollback_framed [OF netlink_handle.real_adapter [OF assms(1)] assms(3,2)] assms(3)
  by (auto simp: Rollback_def Let_def split: option.splits prod.splits)

theorem rollback_touches_only_owned_witness:
  "\<exists>e m' k'. Rollback sampleManager sampleConfig stuckKernel = (Some e, m', k') \<and>
     errors_is e ErrRollbackIncomplete \<and> m' = sampleManager \<and>
     kernel_framed sim_rules sim_routes (owned_priority [sampleConfig]) (owned_table [sampleConfig]) stuckKernel k'"
proof -
  let ?r = "Rollback sampleManager sampleConfig stuckKernel"
  have "fst ?r \<noteq> None" and i: "errors_is (the (fst ?r)) ErrRollbackIncomplete" by code_simp+
  then obtain e where e: "?r = (Some e, fst (snd ?r), snd (snd ?r))" by (metis option.exhaust prod.collapse)
  have "withApplied sampleConfig (mgr_applied sampleManager) = [sampleConfig]"
    by (simp add: withApplied_def sampleManager_def newManagerWithAdapter_def)
  with rollback_touches_only_owned [OF sim.netlink_handle_axioms sample_manager_ok(2) e] e i
  show ?thesis by (metis fst_conv option.sel option.discI)
qed

text \<open>
  C6: a successful \<open>Refresh\<close> of an applied state rebuilds the safe table from the current main
  routes and leaves every other table, the rules (but for the guards, which are gone) and the
  compiled rules and VPN routes of the applied state as they were.
\<close>

theorem refresh_rebuilds_safe_table:
  assumes "netlink_handle H nlrules nlroutes lossy stored"
    and "mgr_adapter m = realAdapter H" and "manager_ok m" and "mgr_applied m = Some a"
    and "\<forall>r. count (kernel_rules nlrules k) r \<le> 1"
    and "Refresh m k = (None, m', k')"
  shows "\<exists>snap d. CompileDesiredState (ds_Config a) snap = Inr d \<and>
    set (snap_MainRoutes snap) = main_routes (kernel_routes nlroutes) (ds_Config a) k \<and>
    m' = m\<lparr>mgr_applied := Some d\<rparr> \<and> ds_Rules d = ds_Rules a \<and> ds_VPNRoutes d = ds_VPNRoutes a \<and>
    set_mset (kernel_rules nlrules k') =
      set_mset (kernel_rules nlrules k) - set (transitionGuards [ds_Config a]) \<and>
    (\<forall>f t. if familyEnabled (cfg_Families (ds_Config a)) f \<and> t = cfg_SafeTable (ds_Config a)
       then kernel_routes nlroutes k' f t \<subseteq> installed_routes (kernel_shown stored) (ds_SafeRoutes d) f t \<and>
         route_Dst ` kernel_routes nlroutes k' f t =
           route_Dst ` installed_routes (kernel_shown stored) (ds_SafeRoutes d) f t
       else kernel_routes nlroutes k' f t = kernel_routes nlroutes k f t)"
proof -
  have r: "refreshLocked m a k = (None, m', k')"
    using assms(4,6) by (auto simp: Refresh_def split: option.splits)
  have a: "compiled_state a" using assms(3,4) by (simp add: manager_ok_def)
  show ?thesis
    by (rule netlink_adapter.refreshLocked_None [OF netlink_handle.real_adapter [OF assms(1)] r assms(2) a assms(5)])
      (intro exI conjI, assumption, assumption, assumption, assumption, assumption, assumption, simp)
qed

theorem refresh_rebuilds_safe_table_witness:
  "\<exists>m' k'. Refresh refreshManager dirtyKernel = (None, m', k') \<and>
     set_mset (sim_rules k') = set_mset (sim_rules dirtyKernel) - set (transitionGuards [ds_Config sampleDesired])"
proof -
  let ?r = "Refresh refreshManager dirtyKernel"
  have "fst ?r = None" by code_simp
  then have r: "?r = (None, fst (snd ?r), snd (snd ?r))" by (metis prod.collapse)
  have n: "\<forall>r. count (sim_rules dirtyKernel) r \<le> 1" by (rule sim_no_dup) code_simp
  show ?thesis
    using refresh_rebuilds_safe_table [OF sim.netlink_handle_axioms refresh_manager_ok(2,1,3) n r] r by metis
qed



section \<open>The route monitor\<close>

text \<open>
  C7: in a non-strict policy, a change of the main table that the monitor sees first installs the
  guards, with every route as it was; when the timer then fires and the refresh succeeds, the guards
  are gone, no change is pending, and the safe table holds routes to exactly the destinations that
  the compiler finds safe in the main table.
\<close>

theorem monitor_cycle:
  fixes s :: "'k MonitorState"
  defines "s1 \<equiv> monitorStep (EvUpdate RT_TABLE_MAIN) s"
  assumes "netlink_handle H nlrules nlroutes lossy stored"
    and "mgr_adapter (mon_manager s) = realAdapter H" and "mgr_applied (mon_manager s) = Some a"
    and "\<not> mgr_closed (mon_manager s)" and "cfg_Strictness (ds_Config a) \<noteq> Strict"
    and "manager_ok (mon_manager s)" and "\<forall>r. count (kernel_rules nlrules (mon_kernel s)) r \<le> 1"
    and "\<not> mon_pending s" and "\<not> mon_done s" and "mon_timer s1 = Some Debounce"
    and "\<not> mon_pending (monitorStep (EvTimer None) s1)"
  shows "set (transitionGuards [ds_Config a]) \<subseteq> set_mset (kernel_rules nlrules (mon_kernel s1)) \<and>
    kernel_routes nlroutes (mon_kernel s1) = kernel_routes nlroutes (mon_kernel s) \<and>
    (\<exists>snap d. CompileDesiredState (ds_Config a) snap = Inr d \<and>
       set (snap_MainRoutes snap) = main_routes (kernel_routes nlroutes) (ds_Config a) (mon_kernel s) \<and>
       mgr_applied (mon_manager (monitorStep (EvTimer None) s1)) = Some d \<and>
       set_mset (kernel_rules nlrules (mon_kernel (monitorStep (EvTimer None) s1))) =
         set_mset (kernel_rules nlrules (mon_kernel s)) - set (transitionGuards [ds_Config a]) \<and>
       (\<forall>f. familyEnabled (cfg_Families (ds_Config a)) f \<longrightarrow>
          route_Dst ` kernel_routes nlroutes (mon_kernel (monitorStep (EvTimer None) s1)) f (cfg_SafeTable (ds_Config a)) =
          route_Dst ` installed_routes (kernel_shown stored) (ds_SafeRoutes d) f (cfg_SafeTable (ds_Config a))))"
proof -
  note A = netlink_handle.real_adapter [OF assms(2)]
  note up = netlink_adapter.monitor_update [OF A assms(3-6) assms(8,9) assms(11) [unfolded s1_def], folded s1_def]
  have same: "mon_manager s1 = mon_manager s" "mon_pending s1" "mon_done s1 = mon_done s"
    using assms(9) unfolding s1_def by (auto simp: beginBurst_def split: prod.split option.split)
  obtain z m' k' where r: "refreshAfterRouteChange (mon_manager s) (mon_kernel s1) = (z, m', k')" by (metis prod.exhaust)
  with assms(10,12) same have z: "z = None"
    and s2: "mon_manager (monitorStep (EvTimer None) s1) = m'" "mon_kernel (monitorStep (EvTimer None) s1) = k'"
    by (auto simp: Let_def split: option.splits)
  have l: "refreshLocked (mon_manager s) a (mon_kernel s1) = (None, m', k')"
    using r z assms(4-6) by (simp add: refreshAfterRouteChange_def)
  have a: "compiled_state a" using assms(4,7) by (simp add: manager_ok_def)
  have main: "main_routes (kernel_routes nlroutes) (ds_Config a) (mon_kernel s1) =
      main_routes (kernel_routes nlroutes) (ds_Config a) (mon_kernel s)" using up(3) by (simp add: main_routes_def)
  show ?thesis
    by (rule netlink_adapter.refreshLocked_None [OF A l assms(3) a up(2)])
      (use up(1,3) main s2 in \<open>auto simp: Un_Diff\<close>)
qed

definition changedState :: "Kernel MonitorState" where
  "changedState = monitorStart refreshManager sampleKernel"

theorem monitor_cycle_witness:
  "set (transitionGuards [ds_Config sampleDesired]) \<subseteq>
     set_mset (sim_rules (mon_kernel (monitorStep (EvUpdate RT_TABLE_MAIN) changedState)))"
proof -
  have s: "mon_manager changedState = refreshManager" "mon_kernel changedState = sampleKernel"
    "\<not> mon_pending changedState" "\<not> mon_done changedState"
    by (simp_all add: changedState_def monitorStart_def)
  have c: "\<not> mgr_closed refreshManager" by (simp add: refreshManager_def sampleManager_def newManagerWithAdapter_def)
  have "cfg_Strictness sampleConfig \<noteq> Strict" by code_simp
  then have st: "cfg_Strictness (ds_Config sampleDesired) \<noteq> Strict" using sampleDesired_state(2) by simp
  have t: "mon_timer (monitorStep (EvUpdate RT_TABLE_MAIN) changedState) = Some Debounce"
    "\<not> mon_pending (monitorStep (EvTimer None) (monitorStep (EvUpdate RT_TABLE_MAIN) changedState))"
    by code_simp+
  show ?thesis
    using monitor_cycle [OF sim.netlink_handle_axioms, of changedState sampleDesired] s c st t
      refresh_manager_ok sample_no_dup by simp
qed

section \<open>Conversions\<close>

text \<open>
  C18: a rule or a route written to netlink reads back as it was, for the rules and routes the
  package works with: an unreachable rule without a table, a mark only with a mask; a unicast route
  with a masked destination of its family, gateways without a zone that are not IPv4-mapped, a
  preferred source usable in the family or none, and a scope of 8 bits.
\<close>

definition plain_addr :: "Addr \<Rightarrow> bool" where
  "plain_addr a \<longleftrightarrow> addrZone a = '''' \<and> \<not> addrIs4In6 a"

definition plain_route :: "Route \<Rightarrow> bool" where
  "plain_route r \<longleftrightarrow> route_Type r = RouteTypeUnicast \<and> prefixMatchesFamily (route_Dst r) (route_Family r) \<and>
     prefixMasked (route_Dst r) = route_Dst r \<and> plain_addr (route_Gateway r) \<and>
     list_all (\<lambda>h. plain_addr (hop_Gateway h)) (route_Multipath r) \<and>
     (route_PreferredSource r = NoAddr \<or>
        validPreferredSourceForFamily (route_PreferredSource r) (route_Family r)) \<and>
     0 \<le> route_Scope r \<and> route_Scope r \<le> 255"

lemma readAddr_plain: "plain_addr a \<Longrightarrow> readAddr a = a"
  by (cases a) (auto simp: plain_addr_def readAddr_def)

theorem netlink_roundtrip:
  "(canonical_rule u \<longrightarrow> ruleFromNetlink (ruleToNetlink u) = u) \<and>
   (plain_route r \<longrightarrow> (\<exists>n. routeToNetlink r = Inr n \<and> routeFromNetlink n = Some r))"
proof (intro conjI impI)
  show "ruleFromNetlink (ruleToNetlink u) = u" if "canonical_rule u"
    by (rule ruleFromNetlink_inverse [OF that])
  assume r: "plain_route r"
  have "\<exists>n. routeToNetlink r = Inr n \<and> nlr_Priority n = route_Priority r \<and> nlr_Scope n = route_Scope r \<and>
      nlr_Flags n = route_Flags r"
    using r by (auto simp: plain_route_def routeToNetlink_def ipNetFromPrefix_def prefixMatchesFamily_def Let_def)
  then obtain n where n: "routeToNetlink r = Inr n" "nlr_Priority n = route_Priority r"
    "nlr_Scope n = route_Scope r" "nlr_Flags n = route_Flags r" by blast
  have eq: "n\<lparr>nlr_Priority := route_Priority r, nlr_Scope := route_Scope r, nlr_Flags := route_Flags r\<rparr> = n"
    using n by (cases n) simp
  have hops: "map readHop (route_Multipath r) = route_Multipath r"
    using r by (intro map_idI) (auto simp: plain_route_def list_all_iff readHop_def readAddr_plain)
  have "readRoute r (route_Priority r) (route_Scope r) (route_Flags r) = r"
    using r hops by (cases r) (auto simp: readRoute_def plain_route_def readAddr_plain readSource_def
        validPreferredSourceForFamily_def validPreferredSource_def)
  with route_roundtrip [OF n(1), where p = "route_Priority r" and s = "route_Scope r" and fl = "route_Flags r"] n(1)
  show "\<exists>n. routeToNetlink r = Inr n \<and> routeFromNetlink n = Some r" unfolding eq by auto
qed

theorem netlink_roundtrip_witness:
  "(\<exists>n. routeToNetlink (vpnRoute sampleConfig AF_INET6 (Prefix (Addr6 0 '''') 0) NoAddr) = Inr n \<and>
      routeFromNetlink n = Some (vpnRoute sampleConfig AF_INET6 (Prefix (Addr6 0 '''') 0) NoAddr)) \<and>
   ruleFromNetlink (ruleToNetlink (transitionGuard sampleConfig AF_INET)) = transitionGuard sampleConfig AF_INET"
proof -
  have "plain_route (vpnRoute sampleConfig AF_INET6 (Prefix (Addr6 0 '''') 0) NoAddr)"
    "canonical_rule (transitionGuard sampleConfig AF_INET)" by code_simp+
  then show ?thesis using netlink_roundtrip by blast
qed

text \<open>A mask that is not ones followed by zeros reads as the length 0, not as an error: a
  destination with such a mask becomes the default route.\<close>

theorem odd_mask_reads_as_default:
  "prefixFromIPNet \<lparr>ipnet_IP = IP4 0x0a010203, ipnet_Mask = OtherMask [0xff, 0, 0xff, 0]\<rparr> = Some (Prefix (Addr4 0) 0)"
  by code_simp

end
