(* ===== verification/Routing_Policy.thy ===== *)
theory Routing_Policy
  imports Routing_Compiler
begin

text \<open>
  The properties of the compiler of the desired state: what the policy rules do to a packet in
  each mode, where they lie, what the transition guard does among them, which routes go into the
  VPN table and into the safe table, and which configurations are accepted. A packet is described
  by its mark and by the tables that have a route for it.
\<close>

section \<open>Samples\<close>

definition policyConfig :: Config where
  "policyConfig = DefaultConfig\<lparr>cfg_TUNIndex := 7, cfg_UserMark := 0x51,
     cfg_SourceRoutes := [\<lparr>sr_Destination = Prefix (Addr4 0x0a080000) 16, sr_Source = Addr4 0x0a080002\<rparr>]\<rparr>"

definition policySnapshot :: Snapshot where
  "policySnapshot = \<lparr>snap_MainRoutes =
     [\<lparr>route_Family = AF_INET, route_Table = RT_TABLE_MAIN, route_Dst = Prefix (Addr4 0) 0,
       route_Gateway = Addr4 0xc0a80101, route_PreferredSource = NoAddr, route_LinkIndex = 2,
       route_Priority = 0, route_Scope = 0, route_Flags = 0, route_Type = RouteTypeUnicast, route_Multipath = []\<rparr>,
      \<lparr>route_Family = AF_INET, route_Table = RT_TABLE_MAIN, route_Dst = Prefix (Addr4 0xc0a80100) 24,
       route_Gateway = NoAddr, route_PreferredSource = NoAddr, route_LinkIndex = 2,
       route_Priority = 0, route_Scope = 0, route_Flags = 0, route_Type = RouteTypeUnicast, route_Multipath = []\<rparr>]\<rparr>"

lemma policyConfig_valid: "validate policyConfig = None"
  by code_simp

lemma policy_compiles: "\<exists>d. CompileDesiredState policyConfig policySnapshot = Inr d"
  by (rule CompileDesiredState_ok [OF policyConfig_valid])

section \<open>Policy rules\<close>

lemma family_rules:
  assumes "CompileDesiredState c snap = Inr d" and "familyEnabled (cfg_Families c) f"
  shows "filter (\<lambda>r. rule_Family r = f) (ds_Rules d) = compileRules c f"
proof -
  have "filter (\<lambda>r. rule_Family r = f) (compileRules c g) = (if g = f then compileRules c f else [])" for g
    using compileRules_family [of _ c g] by (auto simp: filter_id_conv filter_empty_conv)
  then have "filter (\<lambda>r. rule_Family r = f) (concat (map (compileRules c) gs)) =
      concat (map (\<lambda>g. if g = f then compileRules c f else []) gs)" for gs
    by (simp add: filter_concat comp_def)
  moreover have "concat (map (\<lambda>g. if g = f then xs else []) gs) = xs" if "distinct gs" "f \<in> set gs" for gs and xs :: "Rule list"
    using that
  proof (induction gs)
    case (Cons g gs)
    have "f \<notin> set gs \<Longrightarrow> concat (map (\<lambda>g. if g = f then xs else []) gs) = []" by (induction gs) auto
    with Cons show ?case by auto
  qed simp
  ultimately show ?thesis
    using assms(2) unfolding CompileDesiredState_Inr(3) [OF assms(1)] by (simp add: set_familyConstants)
qed





text \<open>
  in every mode a packet with the application's bypass mark is routed by the main table or
  dropped, never by the VPN table, so that the application's own transport does not loop.
\<close>

theorem bypass_uses_main:
  assumes "CompileDesiredState c snap = Inr d" and "familyEnabled (cfg_Families c) f" and "app_marked c mark"
  shows "policy_lookup hit mark (filter (\<lambda>r. rule_Family r = f) (ds_Rules d)) =
    (if hit RT_TABLE_MAIN then Via RT_TABLE_MAIN else Unreachable)"
  unfolding family_rules [OF assms(1,2)] policy_lookup_compileRules [OF CompileDesiredState_Inr(1) [OF assms(1)]]
  using assms(3) by (simp add: wanted_tables_def first_table_def Let_def)

theorem bypass_uses_main_witness:
  "\<exists>d. CompileDesiredState policyConfig policySnapshot = Inr d \<and>
     policy_lookup (\<lambda>t. True) DefaultAppBypassMark (filter (\<lambda>r. rule_Family r = AF_INET) (ds_Rules d)) = Via RT_TABLE_MAIN"
proof -
  obtain d where d: "CompileDesiredState policyConfig policySnapshot = Inr d" using policy_compiles by blast
  have "familyEnabled (cfg_Families policyConfig) AF_INET" "app_marked policyConfig DefaultAppBypassMark" by code_simp+
  with d bypass_uses_main [OF d] show ?thesis by metis
qed

text \<open>
  The rules of a family have strictly increasing priorities inside the block that the
  configuration owns, before the kernel's built-in rules, and none has the priority that is
  reserved for the transition guard.
\<close>

theorem rule_priorities:
  assumes "CompileDesiredState c snap = Inr d" and "familyEnabled (cfg_Families c) f"
    and "no_priority_overflow c"
  shows "sorted_wrt (<) (map rule_Priority (filter (\<lambda>r. rule_Family r = f) (ds_Rules d))) \<and>
    (\<forall>p. p \<in> rule_Priority ` set (ds_Rules d) \<longrightarrow> cfg_PriorityBase c \<le> p \<and>
       p < cfg_PriorityBase c + cfg_PrioritySpan c \<and> p < firstKernelBuiltinPriority \<and>
       p \<noteq> rule_Priority (transitionGuard c f))"
proof (intro conjI allI impI)
  note v = CompileDesiredState_Inr(1) [OF assms(1)]
  note pr = compileRules_priorities [OF v assms(3)]
  show "sorted_wrt (<) (map rule_Priority (filter (\<lambda>r. rule_Family r = f) (ds_Rules d)))"
    unfolding family_rules [OF assms(1,2)] pr by (auto simp: sorted_wrt_map sorted_wrt_append)
  fix p assume "p \<in> rule_Priority ` set (ds_Rules d)"
  then obtain g where "p \<in> set (map rule_Priority (compileRules c g))"
    unfolding CompileDesiredState_Inr(3) [OF assms(1)] by auto
  then have "p - cfg_PriorityBase c \<in> {0, 1} \<union> {3 + int i | i. i < length (userRules c g)}"
    unfolding pr by auto
  moreover have "rule_Priority (transitionGuard c f) = cfg_PriorityBase c + 2"
    using valid_config_priorities(2) [OF v assms(3), of 2] valid_configD(6) [OF v] by (simp add: transitionGuard_def)
  ultimately show "cfg_PriorityBase c \<le> p" "p < cfg_PriorityBase c + cfg_PrioritySpan c"
    "p < firstKernelBuiltinPriority" "p \<noteq> rule_Priority (transitionGuard c f)"
    using length_userRules [of c g] valid_configD(6) [OF v] valid_config_priorities(1) [OF v assms(3)] by auto
qed

theorem rule_priorities_witness:
  "\<exists>d. CompileDesiredState policyConfig policySnapshot = Inr d \<and>
     sorted_wrt (<) (map rule_Priority (filter (\<lambda>r. rule_Family r = AF_INET) (ds_Rules d)))"
proof -
  obtain d where d: "CompileDesiredState policyConfig policySnapshot = Inr d" using policy_compiles by blast
  have "familyEnabled (cfg_Families policyConfig) AF_INET" "no_priority_overflow policyConfig" by code_simp+
  with d rule_priorities [OF d] show ?thesis by metis
qed

text \<open>
  C10: with the transition guard among the rules of a family, in the order of their priorities, every
  packet without the bypass mark is dropped, and a packet with the mark is treated as without the
  guard.
\<close>

lemma guard_position:
  assumes "valid_config c" and "no_priority_overflow c"
  shows "insort_key rule_Priority (transitionGuard c f) (compileRules c f) =
    take 2 (compileRules c f) @ transitionGuard c f # drop 2 (compileRules c f)"
proof -
  let ?p = "cfg_PriorityBase c"
  obtain a b rest where r: "compileRules c f = a # b # rest" by (simp add: compileRules_def)
  have "map rule_Priority (compileRules c f) = ?p # (?p + 1) # map (\<lambda>i. ?p + (3 + int i)) [0..<length (userRules c f)]"
    unfolding compileRules_priorities [OF assms] by (simp add: comp_def)
  then have ab: "rule_Priority a = ?p" "rule_Priority b = ?p + 1"
    and rest: "map rule_Priority rest = map (\<lambda>i. ?p + (3 + int i)) [0..<length (userRules c f)]" unfolding r by simp_all
  have g: "rule_Priority (transitionGuard c f) = ?p + 2"
    using valid_config_priorities(2) [OF assms, of 2] valid_configD(6) [OF assms(1)] by (simp add: transitionGuard_def)
  have img: "rule_Priority ` set rest = (\<lambda>i. ?p + (3 + int i)) ` {0..<length (userRules c f)}"
    using arg_cong [OF rest, of set] by simp
  have "?p + 2 \<le> rule_Priority x" if "x \<in> set rest" for x
  proof -
    have "rule_Priority x \<in> (\<lambda>i. ?p + (3 + int i)) ` {0..<length (userRules c f)}" using that img by blast
    then show ?thesis by auto
  qed
  then have "insort_key rule_Priority (transitionGuard c f) rest = transitionGuard c f # rest"
    using g by (cases rest) auto
  then show ?thesis unfolding r using ab g by simp
qed

theorem guard_drops:
  assumes "CompileDesiredState c snap = Inr d" and "familyEnabled (cfg_Families c) f" and "no_priority_overflow c"
  shows "policy_lookup hit mark (insort_key rule_Priority (transitionGuard c f)
      (filter (\<lambda>r. rule_Family r = f) (ds_Rules d))) =
    (if app_marked c mark then policy_lookup hit mark (filter (\<lambda>r. rule_Family r = f) (ds_Rules d)) else Unreachable)"
proof -
  note v = CompileDesiredState_Inr(1) [OF assms(1)]
  show ?thesis
  proof (cases "app_marked c mark")
    case True
    then show ?thesis unfolding family_rules [OF assms(1,2)] guard_position [OF v assms(3)]
      by (simp add: compileRules_def app_marked_def)
  next
    case False
    then show ?thesis unfolding family_rules [OF assms(1,2)] guard_position [OF v assms(3)]
      by (simp add: policy_lookup_guarded)
  qed
qed

theorem guard_drops_witness:
  "\<exists>d. CompileDesiredState policyConfig policySnapshot = Inr d \<and>
     policy_lookup (\<lambda>t. True) 0x51 (insort_key rule_Priority (transitionGuard policyConfig AF_INET)
       (filter (\<lambda>r. rule_Family r = AF_INET) (ds_Rules d))) = Unreachable"
proof -
  obtain d where d: "CompileDesiredState policyConfig policySnapshot = Inr d" using policy_compiles by blast
  have "familyEnabled (cfg_Families policyConfig) AF_INET" "no_priority_overflow policyConfig"
    "\<not> app_marked policyConfig 0x51" by code_simp+
  with d guard_drops [OF d] show ?thesis by metis
qed

section \<open>Routes\<close>

lemma concat_map_if: "concat (map (\<lambda>x. if P x then g x else []) xs) = concat (map g (filter P xs))"
  by (induction xs) auto

abbreviation route_key :: "Route \<Rightarrow> int \<times> Prefix" where
  "route_key r \<equiv> (route_Family r, route_Dst r)"

lemma compileVPNRoutes_family: "r \<in> set (compileVPNRoutes c f) \<Longrightarrow> route_Family r = f"
  by (auto dest!: compileVPNRoutes_shape)

lemma vpn_keys_distinct:
  assumes "distinct (map sr_Destination (cfg_SourceRoutes c))" and "distinct fs"
  shows "distinct (map route_key (concat (map (compileVPNRoutes c) fs)))"
  using assms(2)
proof (induction fs)
  case (Cons f fs)
  have "distinct (map route_key (compileVPNRoutes c f))"
    using compileVPNRoutes_dsts(1) [OF assms(1), of f] by (auto simp: distinct_map inj_on_def)
  moreover have "route_Family r \<noteq> route_Family x"
    if "r \<in> set (compileVPNRoutes c f)" "g \<in> set fs" "x \<in> set (compileVPNRoutes c g)" for r g x
    using that Cons.prems by (auto dest!: compileVPNRoutes_family)
  ultimately show ?case using Cons by fastforce
qed simp

lemma vpn_keys:
  assumes "distinct (map sr_Destination (cfg_SourceRoutes c))"
  shows "route_key ` set (compileVPNRoutes c f) = Pair f ` insert (familyDefaultPrefix f)
    (sr_Destination ` {r \<in> set (cfg_SourceRoutes c). sourceRouteFamily r = f})"
proof -
  have "route_key ` set (compileVPNRoutes c f) = Pair f ` route_Dst ` set (compileVPNRoutes c f)"
    unfolding image_image by (rule image_cong) (auto dest: compileVPNRoutes_family)
  then show ?thesis unfolding compileVPNRoutes_dsts(2) [OF assms] .
qed

lemma source_route_family:
  assumes "valid_config c" and "s \<in> set (cfg_SourceRoutes c)"
  shows "familyEnabled (effectiveTunnelFamilies c) (sourceRouteFamily s)"
  using valid_configD(11) [OF assms] by (auto simp: source_route_ok_def sourceRouteFamily_def split: if_splits)

text \<open>
  the VPN table has one route through the TUN device for the default destination of every
  tunnelled family and for every destination of a source route, each destination once, and the route
  to the destination of a source route prefers its source.
\<close>

theorem vpn_routes:
  assumes "CompileDesiredState c snap = Inr d"
  shows "distinct (map route_key (ds_VPNRoutes d)) \<and>
    (\<forall>r. r \<in> set (ds_VPNRoutes d) \<longrightarrow> route_LinkIndex r = cfg_TUNIndex c \<and> route_Table r = cfg_VPNTable c \<and>
       route_Gateway r = NoAddr \<and> route_Multipath r = [] \<and> route_Type r = RouteTypeUnicast) \<and>
    route_key ` set (ds_VPNRoutes d) =
      {(f, familyDefaultPrefix f) | f. familyEnabled (effectiveTunnelFamilies c) f} \<union>
      (\<lambda>s. (sourceRouteFamily s, sr_Destination s)) ` set (cfg_SourceRoutes c) \<and>
    (\<forall>s. s \<in> set (cfg_SourceRoutes c) \<longrightarrow> (\<exists>r. r \<in> set (ds_VPNRoutes d) \<and>
       route_key r = (sourceRouteFamily s, sr_Destination s) \<and> route_PreferredSource r = sr_Source s))"
proof (intro conjI allI impI)
  note v = CompileDesiredState_Inr(1) [OF assms]
  note src = source_route_family [OF v] and dist = valid_configD(12) [OF v]
  let ?fs = "filter (familyEnabled (effectiveTunnelFamilies c)) (familyConstants (cfg_Families c))"
  have all: "ds_VPNRoutes d = concat (map (compileVPNRoutes c) ?fs)"
    unfolding CompileDesiredState_Inr(4) [OF assms] by (rule concat_map_if)
  have fs: "set ?fs = {f. familyEnabled (effectiveTunnelFamilies c) f}"
    using valid_configD(9) [OF v] by (auto simp: set_familyConstants)
  show "distinct (map route_key (ds_VPNRoutes d))"
    unfolding all by (rule vpn_keys_distinct [OF dist]) simp
  show "route_key ` set (ds_VPNRoutes d) = {(f, familyDefaultPrefix f) | f. familyEnabled (effectiveTunnelFamilies c) f} \<union>
      (\<lambda>s. (sourceRouteFamily s, sr_Destination s)) ` set (cfg_SourceRoutes c)"
    unfolding all set_concat set_map fs image_UN image_image vpn_keys [OF dist] using src by auto
  show "\<exists>r. r \<in> set (ds_VPNRoutes d) \<and> route_key r = (sourceRouteFamily s, sr_Destination s) \<and>
      route_PreferredSource r = sr_Source s" if s: "s \<in> set (cfg_SourceRoutes c)" for s
    using compileVPNRoutes_source [OF dist s] src [OF s] fs
    unfolding all by (intro exI [of _ "vpnRoute c (sourceRouteFamily s) (sr_Destination s) (sr_Source s)"]) auto
  fix r assume "r \<in> set (ds_VPNRoutes d)"
  then obtain f where "r \<in> set (compileVPNRoutes c f)" unfolding all by auto
  from compileVPNRoutes_shape [OF this] show "route_LinkIndex r = cfg_TUNIndex c" "route_Table r = cfg_VPNTable c"
    "route_Gateway r = NoAddr" "route_Multipath r = []" "route_Type r = RouteTypeUnicast" by auto
qed

theorem vpn_routes_witness:
  "\<exists>d. CompileDesiredState policyConfig policySnapshot = Inr d \<and> distinct (map route_key (ds_VPNRoutes d)) \<and>
     (\<exists>r. r \<in> set (ds_VPNRoutes d) \<and> route_key r = (AF_INET, Prefix (Addr4 0x0a080000) 16) \<and>
        route_PreferredSource r = Addr4 0x0a080002)"
proof -
  let ?s = "\<lparr>sr_Destination = Prefix (Addr4 0x0a080000) 16, sr_Source = Addr4 0x0a080002\<rparr>"
  obtain d where d: "CompileDesiredState policyConfig policySnapshot = Inr d" using policy_compiles by blast
  have "?s \<in> set (cfg_SourceRoutes policyConfig)" "sourceRouteFamily ?s = AF_INET" by code_simp+
  with d vpn_routes [OF d] show ?thesis by fastforce
qed

text \<open>
  C11: the safe table gets exactly the main routes of an enabled family that are unicast, have a
  destination that is no default route, do not leave through the TUN device, and reach a gateway, if
  any of their next hops has one, only for a private or link-local destination; routes without a
  gateway come before those that need one.
\<close>

theorem safe_routes:
  assumes "CompileDesiredState c snap = Inr d"
  shows "mset (ds_SafeRoutes d) = mset (map (\<lambda>r. safeTableRoute r (cfg_SafeTable c))
      (filter (\<lambda>r. familyEnabled (cfg_Families c) (route_Family r) \<and> route_Type r = RouteTypeUnicast \<and>
         prefixIsValid (route_Dst r) \<and> 0 < pfxBits (route_Dst r) \<and> route_LinkIndex r \<noteq> cfg_TUNIndex c \<and>
         list_all (hop_safe (route_Dst r) (cfg_TUNIndex c)) (route_hops r)) (snap_MainRoutes snap))) \<and>
    sorted_wrt (\<lambda>a b. routeDependsOnGateway a \<longrightarrow> routeDependsOnGateway b) (ds_SafeRoutes d)"
proof
  show "mset (ds_SafeRoutes d) = mset (map (\<lambda>r. safeTableRoute r (cfg_SafeTable c))
      (filter (\<lambda>r. familyEnabled (cfg_Families c) (route_Family r) \<and> route_Type r = RouteTypeUnicast \<and>
         prefixIsValid (route_Dst r) \<and> 0 < pfxBits (route_Dst r) \<and> route_LinkIndex r \<noteq> cfg_TUNIndex c \<and>
         list_all (hop_safe (route_Dst r) (cfg_TUNIndex c)) (route_hops r)) (snap_MainRoutes snap)))"
    unfolding CompileDesiredState_Inr(5) [OF assms] Classify_safe_iff list_all_iff ..
  show "sorted_wrt (\<lambda>a b. routeDependsOnGateway a \<longrightarrow> routeDependsOnGateway b) (ds_SafeRoutes d)"
    using assms sortSafeRoutes_direct_first by (auto simp: CompileDesiredState_def Let_def split: option.splits)
qed

theorem safe_routes_witness:
  "\<exists>d. CompileDesiredState policyConfig policySnapshot = Inr d \<and> size (mset (ds_SafeRoutes d)) = 1 \<and>
     sorted_wrt (\<lambda>a b. routeDependsOnGateway a \<longrightarrow> routeDependsOnGateway b) (ds_SafeRoutes d)"
proof -
  obtain d where d: "CompileDesiredState policyConfig policySnapshot = Inr d" using policy_compiles by blast
  have "length (ds_SafeRoutes (projr (CompileDesiredState policyConfig policySnapshot))) = 1" by code_simp
  then have "size (mset (ds_SafeRoutes d)) = 1" using d by simp
  with d safe_routes [OF d] show ?thesis by blast
qed

section \<open>Configurations\<close>



text \<open>
  Two mark selectors are reported to overlap exactly when some packet mark is matched by both,
  so that in an accepted configuration no packet is both the application's and the user's.
\<close>

theorem selectors_disjoint:
  "(marksOverlap a am b bm \<longleftrightarrow> (\<exists>m. m AND am = a AND am \<and> m AND bm = b AND bm)) \<and>
   (ValidateConfig c = None \<longrightarrow> \<not> (app_marked c mark \<and> user_marked c mark))"
proof (intro conjI impI notI)
  show "marksOverlap a am b bm \<longleftrightarrow> (\<exists>m. m AND am = a AND am \<and> m AND bm = b AND bm)"
    by (rule marksOverlap_common)
  assume v: "ValidateConfig c = None" and "app_marked c mark \<and> user_marked c mark"
  then show False unfolding ValidateConfig_def validate_None_iff valid_config_def app_marked_def user_marked_def
    by blast
qed

theorem selectors_disjoint_witness:
  "\<not> marksOverlap 1 0xff 2 0xff \<and> \<not> (app_marked policyConfig 0x51 \<and> user_marked policyConfig 0x51)"
proof -
  have "ValidateConfig policyConfig = None" "\<not> marksOverlap 1 0xff 2 0xff" by code_simp+
  then show ?thesis using selectors_disjoint [where c = policyConfig and mark = "0x51" and a = 1 and am = "0xff" and b = 2 and bm = "0xff"] by blast
qed

text \<open>The sum of base and span is computed in 64 bits: a base at the top of the range passes the
  check against the kernel's built-in rules.\<close>

theorem priority_check_overflows:
  "\<exists>c. is_go_int (cfg_PriorityBase c) \<and> is_go_int (cfg_PrioritySpan c) \<and> ValidateConfig c = None \<and>
     cfg_PriorityBase c + cfg_PrioritySpan c > firstKernelBuiltinPriority"
  by (rule exI [of _ "policyConfig\<lparr>cfg_PriorityBase := 2 ^ 63 - 1\<rparr>"]) code_simp

end
