(* ===== verification/Killswitch.thy ===== *)
theory Killswitch
  imports Prelude "HOL-Library.AList"
begin

text \<open>
  The client of the killswitch daemon, \<open>killswitch/client.go\<close>: the temporary rulesets it keeps, their
  merge, the versions and the wake-up token that tell its connection goroutine to send, and the
  session with the daemon as a state machine. Messages are values; their JSON encoding, sockets,
  logging and the sleeping between two attempts to connect are left out. The ruleset map is an
  association list with one entry per key.
\<close>

section \<open>Rulesets and their merge\<close>

record AllowRules =
  ar_AllowAll :: bool
  ar_EnableV4 :: bool
  ar_EnableV6 :: bool
  ar_AllowedMarks :: "string list"
  ar_AllowedPorts :: "string list"
  ar_AllowedV4Hosts :: "string list"
  ar_AllowedV6Hosts :: "string list"
  ar_AllowedV4Pairs :: "string list"
  ar_AllowedV6Pairs :: "string list"

record mergedTMPRuleset =
  mr_Interfaces :: "string list"
  mr_Policy :: AllowRules

definition zeroAllowRules :: AllowRules where
  "zeroAllowRules = \<lparr>ar_AllowAll = False, ar_EnableV4 = False, ar_EnableV6 = False, ar_AllowedMarks = [],
     ar_AllowedPorts = [], ar_AllowedV4Hosts = [], ar_AllowedV6Hosts = [], ar_AllowedV4Pairs = [],
     ar_AllowedV6Pairs = []\<rparr>"

definition uniqueSortedStrings :: "string list \<Rightarrow> string list" where
  "uniqueSortedStrings values = (if values = [] then [] else sort (dedup_by (\<lambda>v. v) values))"

fun equalFrom :: "string list \<Rightarrow> string list \<Rightarrow> bool" where
  "equalFrom (x # xs) (y # ys) = (if x \<noteq> y then False else equalFrom xs ys)"
| "equalFrom _ _ = True"

definition equalStrings :: "string list \<Rightarrow> string list \<Rightarrow> bool" where
  "equalStrings a b = (if length a \<noteq> length b then False else equalFrom a b)"

definition mergeAllowRules :: "AllowRules \<Rightarrow> AllowRules \<Rightarrow> AllowRules" where
  "mergeAllowRules a b =
     \<lparr>ar_AllowAll = (ar_AllowAll a \<or> ar_AllowAll b), ar_EnableV4 = (ar_EnableV4 a \<or> ar_EnableV4 b),
      ar_EnableV6 = (ar_EnableV6 a \<or> ar_EnableV6 b), ar_AllowedMarks = ar_AllowedMarks a @ ar_AllowedMarks b,
      ar_AllowedPorts = ar_AllowedPorts a @ ar_AllowedPorts b,
      ar_AllowedV4Hosts = ar_AllowedV4Hosts a @ ar_AllowedV4Hosts b,
      ar_AllowedV6Hosts = ar_AllowedV6Hosts a @ ar_AllowedV6Hosts b,
      ar_AllowedV4Pairs = ar_AllowedV4Pairs a @ ar_AllowedV4Pairs b,
      ar_AllowedV6Pairs = ar_AllowedV6Pairs a @ ar_AllowedV6Pairs b\<rparr>"

definition normalizeAllowRules :: "AllowRules \<Rightarrow> AllowRules" where
  "normalizeAllowRules r = r
     \<lparr>ar_AllowedMarks := uniqueSortedStrings (ar_AllowedMarks r),
      ar_AllowedPorts := uniqueSortedStrings (ar_AllowedPorts r),
      ar_AllowedV4Hosts := uniqueSortedStrings (ar_AllowedV4Hosts r),
      ar_AllowedV6Hosts := uniqueSortedStrings (ar_AllowedV6Hosts r),
      ar_AllowedV4Pairs := uniqueSortedStrings (ar_AllowedV4Pairs r),
      ar_AllowedV6Pairs := uniqueSortedStrings (ar_AllowedV6Pairs r)\<rparr>"

text \<open>A copy of the slices: a value of the model.\<close>

definition cloneAllowRules :: "AllowRules \<Rightarrow> AllowRules" where
  "cloneAllowRules rules = \<lparr>ar_AllowAll = ar_AllowAll rules, ar_EnableV4 = ar_EnableV4 rules,
     ar_EnableV6 = ar_EnableV6 rules, ar_AllowedMarks = ar_AllowedMarks rules,
     ar_AllowedPorts = ar_AllowedPorts rules, ar_AllowedV4Hosts = ar_AllowedV4Hosts rules,
     ar_AllowedV6Hosts = ar_AllowedV6Hosts rules, ar_AllowedV4Pairs = ar_AllowedV4Pairs rules,
     ar_AllowedV6Pairs = ar_AllowedV6Pairs rules\<rparr>"

type_synonym rulesetMap = "(u64 \<times> AllowRules) list"

definition mergeTMPRulesets :: "rulesetMap \<Rightarrow> string list \<Rightarrow> mergedTMPRuleset option" where
  "mergeTMPRulesets rulesets interfaces =
     (if rulesets = [] \<or> interfaces = [] then None
      else let ids = sort (map fst rulesets);
               policy = foldl (\<lambda>p i. mergeAllowRules p (the (map_of rulesets i))) zeroAllowRules ids
           in Some \<lparr>mr_Interfaces = interfaces, mr_Policy = normalizeAllowRules policy\<rparr>)"

section \<open>The client\<close>

text \<open>\<open>cl_wake\<close> says whether the wake channel, which holds one token, has it.\<close>

record Client =
  cl_closed :: bool
  cl_version :: u64
  cl_nextRulesetID :: u64
  cl_rulesets :: rulesetMap
  cl_interfaceNames :: "string list"
  cl_interfacesKnown :: bool
  cl_wake :: bool

definition NewClient :: Client where
  "NewClient = \<lparr>cl_closed = False, cl_version = 0, cl_nextRulesetID = 0, cl_rulesets = [],
     cl_interfaceNames = [], cl_interfacesKnown = False, cl_wake = False\<rparr>"

definition notify :: "Client \<Rightarrow> Client" where
  "notify c = c\<lparr>cl_wake := True\<rparr>"

definition changedLocked :: "Client \<Rightarrow> Client" where
  "changedLocked c = notify (c\<lparr>cl_version := cl_version c + 1\<rparr>)"

abbreviation errClosed :: goError where
  "errClosed \<equiv> ErrorsNew ''killswitch: client is closed''"

definition CreateTMPRuleset :: "AllowRules \<Rightarrow> Client \<Rightarrow> (goError + u64) \<times> Client" where
  "CreateTMPRuleset rules c =
     (if cl_closed c then (Inl errClosed, c)
      else if cl_nextRulesetID c = - 1 then
        (Inl (ErrorsNew ''killswitch: temporary ruleset ID space exhausted''), c)
      else let i = cl_nextRulesetID c + 1 in
        (Inr i, changedLocked (c\<lparr>cl_nextRulesetID := i,
                  cl_rulesets := AList.update i (cloneAllowRules rules) (cl_rulesets c)\<rparr>)))"

definition UpdateTMPRuleset :: "u64 \<Rightarrow> AllowRules \<Rightarrow> Client \<Rightarrow> goError option \<times> Client" where
  "UpdateTMPRuleset i rules c =
     (if cl_closed c then (Some errClosed, c)
      else if map_of (cl_rulesets c) i = None then
        (Some (Errorf ''killswitch: temporary ruleset %d does not exist'' [AInt (uint i)] []), c)
      else (None, changedLocked (c\<lparr>cl_rulesets := AList.update i (cloneAllowRules rules) (cl_rulesets c)\<rparr>)))"

definition DeleteTMPRuleset :: "u64 \<Rightarrow> Client \<Rightarrow> goError option \<times> Client" where
  "DeleteTMPRuleset i c =
     (if cl_closed c then (Some errClosed, c)
      else if map_of (cl_rulesets c) i = None then (None, c)
      else (None, changedLocked (c\<lparr>cl_rulesets := AList.delete i (cl_rulesets c)\<rparr>)))"

definition closeClient :: "Client \<Rightarrow> Client" where
  "closeClient c = (if cl_closed c then c else notify (c\<lparr>cl_closed := True\<rparr>))"

text \<open>The four results of \<open>snapshot\<close>: version, merged ruleset, ready, ok.\<close>

definition snapshot :: "Client \<Rightarrow> u64 \<times> mergedTMPRuleset option \<times> bool \<times> bool" where
  "snapshot c = (if cl_closed c then (0, None, False, False)
     else if \<not> cl_interfacesKnown c then (cl_version c, None, False, True)
     else (cl_version c, mergeTMPRulesets (cl_rulesets c) (cl_interfaceNames c), True, True))"

definition resetInterfaces :: "Client \<Rightarrow> Client" where
  "resetInterfaces c = changedLocked (c\<lparr>cl_interfaceNames := [], cl_interfacesKnown := False\<rparr>)"

definition setInterfaces :: "string list \<Rightarrow> Client \<Rightarrow> Client" where
  "setInterfaces interfaces c =
     (let names = uniqueSortedStrings (filter (\<lambda>n. n \<noteq> '''') interfaces) in
      if cl_closed c then c
      else if cl_interfacesKnown c \<and> equalStrings (cl_interfaceNames c) names then c
      else changedLocked (c\<lparr>cl_interfaceNames := names, cl_interfacesKnown := True\<rparr>))"

text \<open>The delay before the next attempt to connect, in seconds.\<close>

definition nextDelay :: "int \<Rightarrow> int" where
  "nextDelay d = (let next = d * 2 in if next > 64 then 64 else next)"

section \<open>The session\<close>

datatype request =
    Subscribe "string list"
  | ConfigRequest
  | MutationRemove
  | MutationSet "string list" AllowRules

datatype daemonMessage =
    ConfigMessage "string list"
  | EventMessage string "string list"
  | MutationResult bool string
  | BadMessage

text \<open>What \<open>start\<close> and \<open>apply\<close> send, and what an incoming message does to the client.\<close>

definition sessionStart :: "request list" where
  "sessionStart = [Subscribe [''interfaces''], ConfigRequest]"

definition sessionApply :: "mergedTMPRuleset option \<Rightarrow> request" where
  "sessionApply merged = (case merged of None \<Rightarrow> MutationRemove
     | Some m \<Rightarrow> MutationSet (mr_Interfaces m) (mr_Policy m))"

fun handleMessage :: "daemonMessage \<Rightarrow> Client \<Rightarrow> Client" where
  "handleMessage (ConfigMessage ifs) c = setInterfaces ifs c"
| "handleMessage (EventMessage ty ifs) c = (if ty = ''interfaces'' then setInterfaces ifs c else c)"
| "handleMessage (MutationResult b e) c = c"
| "handleMessage BadMessage c = c"

text \<open>
  The goroutine of \<open>run\<close> and \<open>serveConn\<close>: at the top of \<open>run\<close>'s loop, about to dial, at the top of
  \<open>serveConn\<close>'s loop, about to write the ruleset of a snapshot it has taken, waiting in its select, or
  gone. The state has the delay before the next attempt, in seconds, the version applied and what
  was sent on this connection.
\<close>

datatype Place = AtRun | Dialing | LoopTop | Sending u64 "mergedTMPRuleset option" | Waiting | Stopped

record System =
  sys_client :: Client
  sys_place :: Place
  sys_delay :: int
  sys_applied :: u64
  sys_sent :: "request list"

definition sysStart :: System where
  "sysStart = \<lparr>sys_client = NewClient, sys_place = AtRun, sys_delay = 1, sys_applied = 0, sys_sent = []\<rparr>"

text \<open>The steps of \<open>run\<close>: its check, a failed dial with the sleep after it, a successful one.\<close>

definition runCheck :: "System \<Rightarrow> System" where
  "runCheck s = s\<lparr>sys_place := (if cl_closed (sys_client s) then Stopped else Dialing)\<rparr>"

definition dialFailed :: "bool \<Rightarrow> System \<Rightarrow> System" where
  "dialFailed slept s = (if \<not> slept then s\<lparr>sys_place := Stopped\<rparr>
     else s\<lparr>sys_delay := nextDelay (sys_delay s), sys_place := AtRun\<rparr>)"

definition connect :: "System \<Rightarrow> System" where
  "connect s = s\<lparr>sys_delay := 1, sys_client := resetInterfaces (sys_client s), sys_place := LoopTop,
     sys_applied := 0, sys_sent := sessionStart\<rparr>"

text \<open>A pass of \<open>serveConn\<close>'s loop up to the select: the snapshot, then the write where one is due.\<close>

definition loopSnapshot :: "System \<Rightarrow> System" where
  "loopSnapshot s = (case snapshot (sys_client s) of (version, merged, ready, ok) \<Rightarrow>
     s\<lparr>sys_place := (if \<not> ok then AtRun
        else if ready \<and> version \<noteq> sys_applied s then Sending version merged else Waiting)\<rparr>)"

definition loopWrite :: "u64 \<Rightarrow> mergedTMPRuleset option \<Rightarrow> bool \<Rightarrow> System \<Rightarrow> System" where
  "loopWrite version merged written s = (if \<not> written then s\<lparr>sys_place := AtRun\<rparr>
     else s\<lparr>sys_sent := sys_sent s @ [sessionApply merged], sys_applied := version, sys_place := Waiting\<rparr>)"

datatype clientCall = CallCreate AllowRules | CallUpdate u64 AllowRules | CallDelete u64 | CallClose

fun runCall :: "clientCall \<Rightarrow> Client \<Rightarrow> Client" where
  "runCall (CallCreate r) c = snd (CreateTMPRuleset r c)"
| "runCall (CallUpdate i r) c = snd (UpdateTMPRuleset i r c)"
| "runCall (CallDelete i) c = snd (DeleteTMPRuleset i c)"
| "runCall CallClose c = closeClient c"

text \<open>
  The interleavings of the callers, the readers of the sessions (one of an earlier session may still
  deliver a message) and the goroutine, at the granularity of the mutex; \<open>n\<close> counts the steps. A
  connection may be lost, or be found closed, anywhere.
\<close>

inductive sysRun :: "nat \<Rightarrow> System \<Rightarrow> bool" where
  start: "sysRun 0 sysStart"
| call: "sysRun n s \<Longrightarrow> sysRun (Suc n) (s\<lparr>sys_client := runCall x (sys_client s)\<rparr>)"
| message: "sysRun n s \<Longrightarrow> sysRun (Suc n) (s\<lparr>sys_client := handleMessage d (sys_client s)\<rparr>)"
| check: "sysRun n s \<Longrightarrow> sys_place s = AtRun \<Longrightarrow> sysRun (Suc n) (runCheck s)"
| dial: "sysRun n s \<Longrightarrow> sys_place s = Dialing \<Longrightarrow> sysRun (Suc n) (connect s)"
| noDial: "sysRun n s \<Longrightarrow> sys_place s = Dialing \<Longrightarrow> (slept \<or> cl_closed (sys_client s)) \<Longrightarrow>
    sysRun (Suc n) (dialFailed slept s)"
| top: "sysRun n s \<Longrightarrow> sys_place s = LoopTop \<Longrightarrow> sysRun (Suc n) (loopSnapshot s)"
| send: "sysRun n s \<Longrightarrow> sys_place s = Sending v m \<Longrightarrow> sysRun (Suc n) (loopWrite v m written s)"
| wake: "sysRun n s \<Longrightarrow> sys_place s = Waiting \<Longrightarrow> cl_wake (sys_client s) \<Longrightarrow>
    sysRun (Suc n) (s\<lparr>sys_client := (sys_client s)\<lparr>cl_wake := False\<rparr>, sys_place := LoopTop\<rparr>)"
| lost: "sysRun n s \<Longrightarrow> sys_place s = LoopTop \<or> sys_place s = Waiting \<Longrightarrow>
    sysRun (Suc n) (s\<lparr>sys_place := AtRun\<rparr>)"

section \<open>Sorted lists without repetitions\<close>

lemma uniqueSortedStrings [simp]:
  "set (uniqueSortedStrings xs) = set xs" "sorted (uniqueSortedStrings xs)" "distinct (uniqueSortedStrings xs)"
  by (simp_all add: uniqueSortedStrings_def)

lemma uniqueSortedStrings_unique:
  "set xs = set ys \<Longrightarrow> uniqueSortedStrings xs = uniqueSortedStrings ys"
  using sorted_distinct_set_unique [of "uniqueSortedStrings xs" "uniqueSortedStrings ys"] by simp

lemma equalFrom_iff: "length a = length b \<Longrightarrow> equalFrom a b \<longleftrightarrow> a = b"
  by (induction a b rule: equalFrom.induct) auto

lemma equalStrings_iff [simp]: "equalStrings a b \<longleftrightarrow> a = b"
  using equalFrom_iff [of a b] by (auto simp: equalStrings_def)

section \<open>What a merge allows\<close>

text \<open>The parts of a policy, as one view: the flags, and the list fields by an index.\<close>

datatype allowField = Marks | Ports | V4Hosts | V6Hosts | V4Pairs | V6Pairs

fun field :: "allowField \<Rightarrow> AllowRules \<Rightarrow> string list" where
  "field Marks r = ar_AllowedMarks r"
| "field Ports r = ar_AllowedPorts r"
| "field V4Hosts r = ar_AllowedV4Hosts r"
| "field V6Hosts r = ar_AllowedV6Hosts r"
| "field V4Pairs r = ar_AllowedV4Pairs r"
| "field V6Pairs r = ar_AllowedV6Pairs r"

lemma field_zero [simp]: "field f zeroAllowRules = []"
  by (cases f) (simp_all add: zeroAllowRules_def)

lemma field_merge [simp]: "field f (mergeAllowRules a b) = field f a @ field f b"
  by (cases f) (simp_all add: mergeAllowRules_def)

lemma field_normalize [simp]: "field f (normalizeAllowRules r) = uniqueSortedStrings (field f r)"
  by (cases f) (simp_all add: normalizeAllowRules_def)

lemma flags_zero [simp]: "\<not> ar_AllowAll zeroAllowRules" "\<not> ar_EnableV4 zeroAllowRules" "\<not> ar_EnableV6 zeroAllowRules"
  by (simp_all add: zeroAllowRules_def)

lemma flags_merge [simp]:
  "ar_AllowAll (mergeAllowRules a b) \<longleftrightarrow> ar_AllowAll a \<or> ar_AllowAll b"
  "ar_EnableV4 (mergeAllowRules a b) \<longleftrightarrow> ar_EnableV4 a \<or> ar_EnableV4 b"
  "ar_EnableV6 (mergeAllowRules a b) \<longleftrightarrow> ar_EnableV6 a \<or> ar_EnableV6 b"
  by (simp_all add: mergeAllowRules_def)

lemma flags_normalize [simp]:
  "ar_AllowAll (normalizeAllowRules r) = ar_AllowAll r"
  "ar_EnableV4 (normalizeAllowRules r) = ar_EnableV4 r"
  "ar_EnableV6 (normalizeAllowRules r) = ar_EnableV6 r"
  by (simp_all add: normalizeAllowRules_def)

lemma AllowRules_eqI:
  assumes "ar_AllowAll a = ar_AllowAll b" "ar_EnableV4 a = ar_EnableV4 b" "ar_EnableV6 a = ar_EnableV6 b"
    and "\<And>f. field f a = field f b"
  shows "a = b"
  using assms(1-3) assms(4) [of Marks] assms(4) [of Ports] assms(4) [of V4Hosts] assms(4) [of V6Hosts]
    assms(4) [of V4Pairs] assms(4) [of V6Pairs] by (intro AllowRules.equality) simp_all

lemma foldl_merge_field:
  "field f (foldl (\<lambda>p i. mergeAllowRules p (g i)) p is) = field f p @ concat (map (\<lambda>i. field f (g i)) is)"
  by (induction "is" arbitrary: p) simp_all

lemma foldl_merge_flags:
  "ar_AllowAll (foldl (\<lambda>p i. mergeAllowRules p (g i)) p is) \<longleftrightarrow> ar_AllowAll p \<or> (\<exists>i \<in> set is. ar_AllowAll (g i))"
  "ar_EnableV4 (foldl (\<lambda>p i. mergeAllowRules p (g i)) p is) \<longleftrightarrow> ar_EnableV4 p \<or> (\<exists>i \<in> set is. ar_EnableV4 (g i))"
  "ar_EnableV6 (foldl (\<lambda>p i. mergeAllowRules p (g i)) p is) \<longleftrightarrow> ar_EnableV6 p \<or> (\<exists>i \<in> set is. ar_EnableV6 (g i))"
  by (induction "is" arbitrary: p) auto

lemma cloneAllowRules_id [simp]: "cloneAllowRules r = r"
  by (simp add: cloneAllowRules_def)

lemma ex_keys:
  "distinct (map fst m) \<Longrightarrow> (\<exists>i \<in> fst ` set m. P (the (map_of m i))) \<longleftrightarrow> (\<exists>(i, r) \<in> set m. P r)"
  by (force simp: split_beta)

lemma mergeTMPRulesets_policy:
  "mergeTMPRulesets rs ifs = Some m \<Longrightarrow> m = \<lparr>mr_Interfaces = ifs, mr_Policy = normalizeAllowRules
     (foldl (\<lambda>p i. mergeAllowRules p (the (map_of rs i))) zeroAllowRules (sort (map fst rs)))\<rparr>"
  by (auto simp: mergeTMPRulesets_def Let_def split: if_splits)

lemma mergeTMPRulesets_fields:
  assumes "mergeTMPRulesets rs ifs = Some m" and "distinct (map fst rs)"
  shows "set (field f (mr_Policy m)) = (\<Union>(i, r) \<in> set rs. set (field f r))"
    and "sorted (field f (mr_Policy m))" and "distinct (field f (mr_Policy m))"
proof -
  note m = mergeTMPRulesets_policy [OF assms(1)]
  have "x \<in> set (field f (mr_Policy m)) \<longleftrightarrow> (\<exists>(i, r) \<in> set rs. x \<in> set (field f r))" for x
    using ex_keys [OF assms(2), of "\<lambda>r. x \<in> set (field f r)"] by (simp add: m foldl_merge_field)
  then show "set (field f (mr_Policy m)) = (\<Union>(i, r) \<in> set rs. set (field f r))" by fast
  show "sorted (field f (mr_Policy m))" "distinct (field f (mr_Policy m))" by (simp_all add: m)
qed

lemma mergeTMPRulesets_flags:
  assumes "mergeTMPRulesets rs ifs = Some m" and "distinct (map fst rs)"
  shows "ar_AllowAll (mr_Policy m) \<longleftrightarrow> (\<exists>(i, r) \<in> set rs. ar_AllowAll r)"
    and "ar_EnableV4 (mr_Policy m) \<longleftrightarrow> (\<exists>(i, r) \<in> set rs. ar_EnableV4 r)"
    and "ar_EnableV6 (mr_Policy m) \<longleftrightarrow> (\<exists>(i, r) \<in> set rs. ar_EnableV6 r)"
  using ex_keys [OF assms(2), of ar_AllowAll] ex_keys [OF assms(2), of ar_EnableV4]
    ex_keys [OF assms(2), of ar_EnableV6]
  by (simp_all add: mergeTMPRulesets_policy [OF assms(1)] foldl_merge_flags)

lemma mergeTMPRulesets_eq_None: "mergeTMPRulesets rs ifs = None \<longleftrightarrow> rs = [] \<or> ifs = []"
  by (simp add: mergeTMPRulesets_def Let_def)

lemma mergeTMPRulesets_cong:
  assumes "distinct (map fst rs)" and "distinct (map fst rs')" and "map_of rs = map_of rs'"
  shows "mergeTMPRulesets rs ifs = mergeTMPRulesets rs' ifs"
proof -
  have "dom (map_of rs) = dom (map_of rs')" using assms(3) by simp
  then have "set (map fst rs) = set (map fst rs')" by (simp add: dom_map_of_conv_image_fst)
  then have "sort (map fst rs) = sort (map fst rs')"
    using assms(1,2) by (intro sorted_distinct_set_unique) simp_all
  moreover have "rs = [] \<longleftrightarrow> rs' = []" using assms(3) by (metis map_of_eq_empty_iff)
  ultimately show ?thesis by (simp add: mergeTMPRulesets_def Let_def assms(3))
qed

section \<open>The rulesets a client keeps\<close>

text \<open>
  The identifiers in use were all handed out, and nothing is stored twice; the interface names are
  kept as \<open>setInterfaces\<close> orders them.
\<close>

definition client_ok :: "Client \<Rightarrow> bool" where
  "client_ok c \<longleftrightarrow> distinct (map fst (cl_rulesets c)) \<and>
     fst ` set (cl_rulesets c) \<subseteq> {0<..cl_nextRulesetID c} \<and>
     sorted (cl_interfaceNames c) \<and> distinct (cl_interfaceNames c) \<and> '''' \<notin> set (cl_interfaceNames c)"

lemma next_id_fresh:
  assumes "client_ok c" and "cl_nextRulesetID c \<noteq> - 1"
  shows "cl_nextRulesetID c < cl_nextRulesetID c + 1" and "cl_nextRulesetID c + 1 \<notin> fst ` set (cl_rulesets c)"
proof -
  have "1 + cl_nextRulesetID c \<noteq> 0" using assms(2) by (metis add_eq_0_iff)
  then show lt: "cl_nextRulesetID c < cl_nextRulesetID c + 1"
    using unatSuc [of "cl_nextRulesetID c"] by (simp add: word_less_nat_alt add.commute)
  then show "cl_nextRulesetID c + 1 \<notin> fst ` set (cl_rulesets c)"
    using assms(1) unfolding client_ok_def by fastforce
qed

lemma client_ok_create:
  assumes "client_ok c"
  shows "client_ok (snd (CreateTMPRuleset r c))"
proof -
  have "client_ok (changedLocked (c\<lparr>cl_nextRulesetID := cl_nextRulesetID c + 1,
      cl_rulesets := AList.update (cl_nextRulesetID c + 1) r (cl_rulesets c)\<rparr>))"
    if "cl_nextRulesetID c \<noteq> - 1"
  proof -
    have lt: "cl_nextRulesetID c < cl_nextRulesetID c + 1" using next_id_fresh(1) [OF assms that] .
    then have "0 < cl_nextRulesetID c + 1" by (meson le_less_trans word_zero_le)
    moreover have "{0<..cl_nextRulesetID c} \<subseteq> {0<..cl_nextRulesetID c + 1}" using lt by auto
    ultimately show ?thesis using assms unfolding client_ok_def changedLocked_def notify_def
      by (simp add: distinct_update dom_update) blast
  qed
  then show ?thesis using assms by (simp add: CreateTMPRuleset_def Let_def)
qed

lemma client_ok_update: "client_ok c \<Longrightarrow> client_ok (snd (UpdateTMPRuleset i r c))"
  unfolding UpdateTMPRuleset_def client_ok_def changedLocked_def notify_def
  by (simp add: distinct_update dom_update map_of_eq_None_iff del: greaterThanAtMost_iff) blast

lemma client_ok_delete: "client_ok c \<Longrightarrow> client_ok (snd (DeleteTMPRuleset i c))"
  using dom_delete_subset [of i "cl_rulesets c"]
  unfolding DeleteTMPRuleset_def client_ok_def changedLocked_def notify_def
  by (simp add: distinct_delete) blast

lemma client_ok_close: "client_ok c \<Longrightarrow> client_ok (closeClient c)"
  by (simp add: closeClient_def client_ok_def notify_def)

lemma client_ok_reset: "client_ok c \<Longrightarrow> client_ok (resetInterfaces c)"
  by (simp add: resetInterfaces_def client_ok_def changedLocked_def notify_def)

lemma client_ok_set: "client_ok c \<Longrightarrow> client_ok (setInterfaces ifs c)"
  by (simp add: setInterfaces_def client_ok_def changedLocked_def notify_def Let_def)

lemma client_ok_call: "client_ok c \<Longrightarrow> client_ok (runCall x c)"
  by (cases x) (simp_all add: client_ok_create client_ok_update client_ok_delete client_ok_close)

lemma client_ok_message: "client_ok c \<Longrightarrow> client_ok (handleMessage d c)"
  by (cases d) (simp_all add: client_ok_set)

section \<open>The goroutine sends the last ruleset\<close>

text \<open>
  What the goroutine relies on: an operation on the client leaves it alone, or counts the version up
  and puts the token into the wake channel, or closes the client.
\<close>

definition announced :: "Client \<Rightarrow> Client \<Rightarrow> bool" where
  "announced c c' \<longleftrightarrow> c' = c \<or> cl_version c' = cl_version c + 1 \<and> cl_wake c' \<or>
     cl_version c' = cl_version c \<and> cl_closed c'"

text \<open>The client has something to say, and what it says.\<close>

definition live :: "Client \<Rightarrow> bool" where
  "live c \<longleftrightarrow> \<not> cl_closed c \<and> cl_interfacesKnown c"

abbreviation merged_of :: "Client \<Rightarrow> mergedTMPRuleset option" where
  "merged_of c \<equiv> mergeTMPRulesets (cl_rulesets c) (cl_interfaceNames c)"

definition said :: "System \<Rightarrow> bool" where
  "said s \<longleftrightarrow> (live (sys_client s) \<longrightarrow> sys_applied s = cl_version (sys_client s) \<longrightarrow>
     sys_sent s \<noteq> [] \<and> last (sys_sent s) = sessionApply (merged_of (sys_client s)))"

fun placeOk :: "Place \<Rightarrow> System \<Rightarrow> bool" where
  "placeOk LoopTop s \<longleftrightarrow> 0 < cl_version (sys_client s) \<and> said s"
| "placeOk (Sending v m) s \<longleftrightarrow> 0 < cl_version (sys_client s) \<and> v \<le> cl_version (sys_client s) \<and>
     (live (sys_client s) \<longrightarrow> (\<not> cl_wake (sys_client s) \<longrightarrow> v = cl_version (sys_client s)) \<and>
        (v = cl_version (sys_client s) \<longrightarrow> m = merged_of (sys_client s)))"
| "placeOk Waiting s \<longleftrightarrow> 0 < cl_version (sys_client s) \<and> said s \<and>
     (live (sys_client s) \<longrightarrow> \<not> cl_wake (sys_client s) \<longrightarrow> sys_applied s = cl_version (sys_client s))"
| "placeOk _ s \<longleftrightarrow> True"

definition sysInv :: "nat \<Rightarrow> System \<Rightarrow> bool" where
  "sysInv n s \<longleftrightarrow> unat (cl_version (sys_client s)) \<le> n \<and> sys_applied s \<le> cl_version (sys_client s) \<and>
     placeOk (sys_place s) s"

lemma version_step:
  assumes "unat v \<le> n" and "Suc n < 2 ^ 64"
  shows "unat (v + 1) = Suc (unat v)" and "v < v + (1::u64)"
proof -
  have "unat (- 1 :: u64) = 2 ^ 64 - 1" by (simp add: unsigned_minus_1_eq_mask mask_eq_exp_minus_1)
  then have "v \<noteq> - 1" using assms by auto
  then have "1 + v \<noteq> 0" by (metis add_eq_0_iff)
  then show "unat (v + 1) = Suc (unat v)" using unatSuc [of v] by (simp add: add.commute)
  then show "v < v + 1" by (simp add: word_less_nat_alt)
qed

lemma sysInv_announced:
  assumes "sysInv n s" and "announced (sys_client s) c'" and "Suc n < 2 ^ 64"
  shows "sysInv (Suc n) (s\<lparr>sys_client := c'\<rparr>)"
proof -
  let ?v = "cl_version (sys_client s)"
  have v: "unat ?v \<le> n" and ap: "sys_applied s \<le> ?v" and pl: "placeOk (sys_place s) s"
    using assms(1) by (simp_all add: sysInv_def)
  consider (same) "c' = sys_client s" | (bump) "cl_version c' = ?v + 1" "cl_wake c'"
    | (close) "cl_version c' = ?v" "cl_closed c'"
    using assms(2) by (auto simp: announced_def)
  then show ?thesis
  proof cases
    case same
    then show ?thesis using assms(1) by (simp add: sysInv_def)
  next
    case bump
    note b = version_step [OF v assms(3)]
    have less: "w < ?v + 1 \<and> w \<le> ?v + 1 \<and> w \<noteq> ?v + 1" if "w \<le> ?v" for w
      using that b(2) by auto
    then have "0 < ?v + 1" and "sys_applied s \<le> ?v + 1" and "sys_applied s \<noteq> ?v + 1" using ap by simp_all
    with bump pl b(1) v less show ?thesis
      by (cases "sys_place s") (simp_all add: sysInv_def said_def)
  next
    case close
    then show ?thesis using v ap pl by (cases "sys_place s") (auto simp: sysInv_def said_def live_def)
  qed
qed

text \<open>The contract as an interface: a family of operations that announce what they change.\<close>

locale announcing =
  fixes op_step :: "'a \<Rightarrow> Client \<Rightarrow> Client"
  assumes announces: "announced c (op_step x c)"
    and keeps_ok: "client_ok c \<Longrightarrow> client_ok (op_step x c)"
begin

lemma keeps_inv: "sysInv n s \<Longrightarrow> Suc n < 2 ^ 64 \<Longrightarrow> sysInv (Suc n) (s\<lparr>sys_client := op_step x (sys_client s)\<rparr>)"
  by (rule sysInv_announced [OF _ announces])

lemma foldl_keeps_ok: "client_ok c \<Longrightarrow> client_ok (fold op_step xs c)"
  by (induction xs arbitrary: c) (simp_all add: keeps_ok)

end

lemma announced_changedLocked: "cl_version c' = cl_version c \<Longrightarrow> announced c (changedLocked c')"
  by (simp add: announced_def changedLocked_def notify_def)

lemma announced_same [simp]: "announced c c"
  by (simp add: announced_def)

lemma announced_setInterfaces: "announced c (setInterfaces ifs c)"
  by (simp add: setInterfaces_def Let_def announced_changedLocked)

interpretation calls: announcing runCall
proof
  show "announced c (runCall x c)" for c x
    by (cases x) (simp_all add: CreateTMPRuleset_def UpdateTMPRuleset_def DeleteTMPRuleset_def closeClient_def
        Let_def announced_changedLocked, simp_all add: announced_def notify_def)
qed (rule client_ok_call)

interpretation messages: announcing handleMessage
proof
  show "announced c (handleMessage d c)" for c d
    by (cases d) (simp_all add: announced_setInterfaces)
qed (rule client_ok_message)

lemma sysInv_mono: "sysInv n s \<Longrightarrow> sysInv (Suc n) s"
  by (simp add: sysInv_def)

lemma sysInv_place:
  assumes "sysInv n s" and "placeOk p s"
  shows "sysInv n (s\<lparr>sys_place := p\<rparr>)"
  using assms by (cases p) (simp_all add: sysInv_def said_def)

lemma sysInv_connect:
  assumes "sysInv n s" and "Suc n < 2 ^ 64"
  shows "sysInv (Suc n) (connect s)"
proof -
  have v: "unat (cl_version (sys_client s)) \<le> n" using assms(1) by (simp add: sysInv_def)
  note b = version_step [OF v assms(2)]
  then have "0 < cl_version (sys_client s) + 1" by (simp add: word_less_nat_alt)
  then show ?thesis using v b
    by (simp add: sysInv_def connect_def resetInterfaces_def changedLocked_def notify_def said_def live_def)
qed

lemma sysInv_snapshot:
  assumes "sysInv n s" and "sys_place s = LoopTop"
  shows "sysInv n (loopSnapshot s)"
proof -
  have "placeOk LoopTop s" using assms by (simp add: sysInv_def)
  then show ?thesis unfolding loopSnapshot_def
    by (auto simp: snapshot_def live_def split: prod.split intro!: sysInv_place [OF assms(1)])
qed

lemma sysInv_write:
  assumes "sysInv n s" and "sys_place s = Sending v m"
  shows "sysInv n (loopWrite v m written s)"
  using assms by (auto simp: loopWrite_def sysInv_def said_def)

lemma sysRun_inv: "sysRun n s \<Longrightarrow> n < 2 ^ 64 \<Longrightarrow> sysInv n s"
proof (induction rule: sysRun.induct)
  case start
  show ?case by (simp add: sysInv_def sysStart_def NewClient_def)
next
  case (call n s x)
  then show ?case using calls.keeps_inv by simp
next
  case (message n s d)
  then show ?case using messages.keeps_inv by simp
next
  case (check n s)
  then show ?case by (simp add: sysInv_def runCheck_def)
next
  case (dial n s)
  then show ?case by (simp add: sysInv_connect)
next
  case (noDial n s slept)
  then show ?case by (simp add: sysInv_def dialFailed_def)
next
  case (top n s)
  then show ?case by (simp add: sysInv_snapshot sysInv_mono)
next
  case (send n s v m written)
  then show ?case by (simp add: sysInv_write sysInv_mono)
next
  case (wake n s)
  then show ?case by (simp add: sysInv_def said_def live_def)
next
  case (lost n s)
  then show ?case by (simp add: sysInv_def)
qed

lemma sysRun_ok: "sysRun n s \<Longrightarrow> client_ok (sys_client s)"
  by (induction rule: sysRun.induct)
    (simp_all add: sysStart_def NewClient_def client_ok_call client_ok_message runCheck_def dialFailed_def
      connect_def client_ok_reset loopSnapshot_def loopWrite_def split_beta, simp_all add: client_ok_def)

lemma sysRun_delay: "sysRun n s \<Longrightarrow> \<exists>i \<le> 6. sys_delay s = 2 ^ i"
proof (induction rule: sysRun.induct)
  case (noDial n s slept)
  then obtain i :: nat where i: "i \<le> 6" "sys_delay s = 2 ^ i" by blast
  then consider "i = 6" | "Suc i \<le> 6" by linarith
  then show ?case
  proof cases
    case 1
    then show ?thesis using i by (auto simp: dialFailed_def nextDelay_def intro: exI [of _ 6])
  next
    case 2
    then have "nextDelay (2 ^ i) = 2 ^ Suc i"
      using power_increasing [of "Suc i" 6 "2::int"] by (simp add: nextDelay_def Let_def)
    then show ?thesis using i 2 by (auto simp: dialFailed_def intro: exI [of _ "Suc i"] exI [of _ i])
  qed
qed (auto simp: sysStart_def runCheck_def connect_def loopSnapshot_def loopWrite_def split_beta intro: exI [of _ 0])

section \<open>Properties\<close>

text \<open>A run on sample data: the daemon reports two interfaces, and a caller adds a ruleset.\<close>

definition sampleRules :: AllowRules where
  "sampleRules = zeroAllowRules\<lparr>ar_EnableV4 := True, ar_AllowedMarks := [''0x8000''],
     ar_AllowedPorts := [''udp/53'', ''tcp/443'', ''udp/53'']\<rparr>"

definition sampleOnline :: System where
  "sampleOnline = (let s = connect (runCheck sysStart) in
     s\<lparr>sys_client := handleMessage (ConfigMessage [''wlan0'', ''eth0'', '''']) (sys_client s)\<rparr>)"

definition sampleIdle :: System where
  "sampleIdle = loopWrite 2 None True (loopSnapshot sampleOnline)"

definition sampleWoken :: System where
  "sampleWoken = sampleIdle\<lparr>sys_client := runCall (CallCreate sampleRules) (sys_client sampleIdle)\<rparr>"

definition sampleTaken :: System where
  "sampleTaken = loopSnapshot
     (sampleWoken\<lparr>sys_client := (sys_client sampleWoken)\<lparr>cl_wake := False\<rparr>, sys_place := LoopTop\<rparr>)"

definition sampleSystem :: System where
  "sampleSystem = loopWrite 3 (merged_of (sys_client sampleTaken)) True sampleTaken"

lemma sampleWoken_run: "sysRun 6 sampleWoken"
proof -
  have "sysRun 1 (runCheck sysStart)" using sysRun.check [OF sysRun.start] by (simp add: sysStart_def)
  then have "sysRun (Suc 1) (connect (runCheck sysStart))"
    by (rule sysRun.dial) code_simp
  from sysRun.message [OF this, of "ConfigMessage [''wlan0'', ''eth0'', '''']"]
  have "sysRun (Suc (Suc 1)) sampleOnline" by (simp add: sampleOnline_def Let_def)
  then have "sysRun (Suc (Suc (Suc 1))) (loopSnapshot sampleOnline)" by (rule sysRun.top) code_simp
  then have "sysRun (Suc (Suc (Suc (Suc 1)))) sampleIdle"
    unfolding sampleIdle_def by (rule sysRun.send) code_simp
  from sysRun.call [OF this, of "CallCreate sampleRules"] show ?thesis
    by (simp add: sampleWoken_def eval_nat_numeral)
qed

lemma sampleSystem_run: "sysRun 9 sampleSystem"
proof -
  let ?s = "sampleWoken\<lparr>sys_client := (sys_client sampleWoken)\<lparr>cl_wake := False\<rparr>, sys_place := LoopTop\<rparr>"
  have "sysRun (Suc 6) ?s" by (rule sysRun.wake [OF sampleWoken_run]) code_simp+
  then have "sysRun (Suc (Suc 6)) sampleTaken"
    unfolding sampleTaken_def by (rule sysRun.top) code_simp
  then have "sysRun (Suc (Suc (Suc 6))) sampleSystem"
    unfolding sampleSystem_def by (rule sysRun.send) code_simp
  then show ?thesis by (simp add: eval_nat_numeral)
qed

text \<open>
  C20: Whatever the callers, the daemon and lost connections do, when the connection goroutine rests in its
  select with nothing to wake it while the client is open and knows the interfaces, then the last
  thing it sent on this connection is the merge of exactly the rulesets the client has now (a removal
  if there are none). The number of steps is below 2^64, so that the version has not wrapped.
\<close>

theorem killswitch_sends_last:
  assumes "sysRun n s" and "n < 2 ^ 64" and "sys_place s = Waiting" and "\<not> cl_wake (sys_client s)"
    and "\<not> cl_closed (sys_client s)" and "cl_interfacesKnown (sys_client s)"
  shows "sys_applied s = cl_version (sys_client s) \<and> sys_sent s \<noteq> [] \<and>
    last (sys_sent s) = sessionApply (mergeTMPRulesets (cl_rulesets (sys_client s)) (cl_interfaceNames (sys_client s)))"
  using sysRun_inv [OF assms(1,2)] assms(3-6) by (simp add: sysInv_def said_def live_def)

theorem killswitch_sends_last_witness:
  "sysRun 9 sampleSystem \<and> last (sys_sent sampleSystem) =
     MutationSet [''eth0'', ''wlan0''] (zeroAllowRules\<lparr>ar_EnableV4 := True, ar_AllowedMarks := [''0x8000''],
       ar_AllowedPorts := [''tcp/443'', ''udp/53'']\<rparr>)"
proof -
  have a: "sys_place sampleSystem = Waiting" "\<not> cl_wake (sys_client sampleSystem)"
    "\<not> cl_closed (sys_client sampleSystem)" "cl_interfacesKnown (sys_client sampleSystem)" by code_simp+
  have "sessionApply (merged_of (sys_client sampleSystem)) =
    MutationSet [''eth0'', ''wlan0''] (zeroAllowRules\<lparr>ar_EnableV4 := True, ar_AllowedMarks := [''0x8000''],
       ar_AllowedPorts := [''tcp/443'', ''udp/53'']\<rparr>)" by code_simp
  with killswitch_sends_last [OF sampleSystem_run _ a] sampleSystem_run show ?thesis by simp
qed

lemma wake_round:
  assumes "sysRun n s" and "sys_place s = Waiting" and "cl_wake (sys_client s)" and "live (sys_client s)"
  shows "\<exists>m s'. m \<le> 3 \<and> sysRun (n + m) s' \<and> sys_place s' = Waiting \<and>
    sys_client s' = (sys_client s)\<lparr>cl_wake := False\<rparr>"
proof -
  let ?c = "(sys_client s)\<lparr>cl_wake := False\<rparr>"
  let ?s = "s\<lparr>sys_client := ?c, sys_place := LoopTop\<rparr>"
  have "sysRun (Suc n) ?s" by (rule sysRun.wake [OF assms(1-3)])
  then have r: "sysRun (Suc (Suc n)) (loopSnapshot ?s)" by (rule sysRun.top) simp
  have p: "loopSnapshot ?s = ?s\<lparr>sys_place := (if cl_version ?c \<noteq> sys_applied s
      then Sending (cl_version ?c) (merged_of ?c) else Waiting)\<rparr>"
    using assms(4) by (simp add: loopSnapshot_def snapshot_def live_def)
  show ?thesis
  proof (cases "cl_version ?c = sys_applied s")
    case True
    then show ?thesis using r p by (intro exI [of _ 2] exI [of _ "loopSnapshot ?s"]) simp
  next
    case False
    let ?t = "loopWrite (cl_version ?c) (merged_of ?c) True (loopSnapshot ?s)"
    have "sysRun (Suc (Suc (Suc n))) ?t" by (rule sysRun.send [OF r]) (use p False in simp)
    then show ?thesis using p False
      by (intro exI [of _ 3] exI [of _ ?t]) (simp add: loopWrite_def eval_nat_numeral)
  qed
qed



text \<open>
  The merge allows what some ruleset allows and nothing else: a flag is set if it is set in one of the
  rulesets, each list is the union of theirs, in increasing order without repetitions, on exactly the
  interfaces given; there is no merge exactly when there are no rulesets or no interfaces.
\<close>

theorem merge_is_union:
  assumes "distinct (map fst rs)"
  shows "case mergeTMPRulesets rs ifs of None \<Rightarrow> rs = [] \<or> ifs = []
    | Some m \<Rightarrow> rs \<noteq> [] \<and> ifs \<noteq> [] \<and> mr_Interfaces m = ifs \<and>
        (ar_AllowAll (mr_Policy m) \<longleftrightarrow> (\<exists>(i, r) \<in> set rs. ar_AllowAll r)) \<and>
        (ar_EnableV4 (mr_Policy m) \<longleftrightarrow> (\<exists>(i, r) \<in> set rs. ar_EnableV4 r)) \<and>
        (ar_EnableV6 (mr_Policy m) \<longleftrightarrow> (\<exists>(i, r) \<in> set rs. ar_EnableV6 r)) \<and>
        (\<forall>f. set (field f (mr_Policy m)) = (\<Union>(i, r) \<in> set rs. set (field f r)) \<and>
             sorted (field f (mr_Policy m)) \<and> distinct (field f (mr_Policy m)))"
proof (cases "mergeTMPRulesets rs ifs")
  case (Some m)
  then have "rs \<noteq> []" "ifs \<noteq> []" using mergeTMPRulesets_eq_None [of rs ifs] by auto
  moreover have "mr_Interfaces m = ifs" using mergeTMPRulesets_policy [OF Some] by simp
  ultimately show ?thesis
    using Some mergeTMPRulesets_flags [OF Some assms] mergeTMPRulesets_fields [OF Some assms] by simp
qed (simp add: mergeTMPRulesets_eq_None [symmetric])

theorem merge_is_union_witness:
  "(\<exists>m. mergeTMPRulesets [(2::u64, sampleRules), (1, zeroAllowRules\<lparr>ar_AllowedPorts := [''tcp/80'']\<rparr>)] [''eth0''] = Some m \<and>
     ar_EnableV4 (mr_Policy m) \<and> \<not> ar_AllowAll (mr_Policy m) \<and>
     set (field Ports (mr_Policy m)) = {''udp/53'', ''tcp/443'', ''tcp/80''})"
proof -
  let ?rs = "[(2::u64, sampleRules), (1, zeroAllowRules\<lparr>ar_AllowedPorts := [''tcp/80'']\<rparr>)]"
  have "distinct (map fst ?rs)" by simp
  note u = merge_is_union [OF this, of "[''eth0'']"]
  obtain m where m: "mergeTMPRulesets ?rs [''eth0''] = Some m"
    using mergeTMPRulesets_eq_None [of ?rs "[''eth0'']"] by (cases "mergeTMPRulesets ?rs [''eth0'']") simp_all
  from u m have "ar_EnableV4 (mr_Policy m)" "\<not> ar_AllowAll (mr_Policy m)"
    by (simp_all add: sampleRules_def zeroAllowRules_def)
  moreover from u m have "\<forall>f. set (field f (mr_Policy m)) = (\<Union>(i, r) \<in> set ?rs. set (field f r))" by simp
  from spec [OF this, of Ports] have "set (field Ports (mr_Policy m)) = {''udp/53'', ''tcp/443'', ''tcp/80''}"
    by (auto simp: sampleRules_def)
  ultimately show ?thesis using m by blast
qed

text \<open>
  The ruleset map: in every reachable state a created ruleset gets an identifier above every one in
  use, nothing else changes; an update changes exactly the ruleset named and fails on an unknown one;
  a delete removes exactly the one named. Nothing happens once the client is closed.
\<close>

theorem ruleset_map_laws:
  assumes "sysRun n s" and "c = sys_client s"
  shows "(case CreateTMPRuleset r c of (Inl e, c') \<Rightarrow> c' = c \<and> (cl_closed c \<or> cl_nextRulesetID c = - 1)
      | (Inr i, c') \<Rightarrow> \<not> cl_closed c \<and> 0 < i \<and> fst ` set (cl_rulesets c) \<subseteq> {0<..<i} \<and>
          map_of (cl_rulesets c') = (map_of (cl_rulesets c))(i \<mapsto> r)) \<and>
    (case UpdateTMPRuleset j r c of (Some e, c') \<Rightarrow> c' = c \<and> (cl_closed c \<or> j \<notin> fst ` set (cl_rulesets c))
      | (None, c') \<Rightarrow> \<not> cl_closed c \<and> j \<in> fst ` set (cl_rulesets c) \<and>
          map_of (cl_rulesets c') = (map_of (cl_rulesets c))(j \<mapsto> r)) \<and>
    (case DeleteTMPRuleset j c of (Some e, c') \<Rightarrow> c' = c \<and> cl_closed c
      | (None, c') \<Rightarrow> \<not> cl_closed c \<and> map_of (cl_rulesets c') = (map_of (cl_rulesets c))(j := None))"
    (is "?create \<and> ?update \<and> ?delete")
proof -
  have ok: "client_ok c" using sysRun_ok [OF assms(1)] assms(2) by simp
  have "fst ` set (cl_rulesets c) \<subseteq> {0<..<cl_nextRulesetID c + 1}" if "cl_nextRulesetID c \<noteq> - 1"
    using ok next_id_fresh(1) [OF ok that] unfolding client_ok_def by fastforce
  moreover have "0 < cl_nextRulesetID c + 1" if "cl_nextRulesetID c \<noteq> - 1"
    using next_id_fresh(1) [OF ok that] by (meson le_less_trans word_zero_le)
  ultimately have create: ?create
    by (simp add: CreateTMPRuleset_def Let_def changedLocked_def notify_def update_conv')
  have update: ?update
    by (simp add: UpdateTMPRuleset_def changedLocked_def notify_def update_conv' map_of_eq_None_iff)
  have ?delete
    by (auto simp: DeleteTMPRuleset_def changedLocked_def notify_def delete_conv' fun_upd_idem)
  with create update show ?thesis by blast
qed

theorem ruleset_map_laws_witness:
  "(case CreateTMPRuleset zeroAllowRules (sys_client sampleSystem) of (Inl e, c') \<Rightarrow> False
     | (Inr i, c') \<Rightarrow> i = 2 \<and> map_of (cl_rulesets c') = (map_of (cl_rulesets (sys_client sampleSystem)))(2 \<mapsto> zeroAllowRules))"
proof -
  have "fst (CreateTMPRuleset zeroAllowRules (sys_client sampleSystem)) = Inr 2" by code_simp
  then show ?thesis using ruleset_map_laws [OF sampleSystem_run refl, of zeroAllowRules]
    by (auto split: prod.splits sum.splits)
qed

text \<open>
  The delay before the next attempt to connect is always one of 1, 2, 4, 8, 16, 32 and 64 seconds; it
  doubles after a failed attempt up to 64 and returns to 1 with a connection.
\<close>

theorem reconnect_backoff:
  assumes "sysRun n s"
  shows "sys_delay s \<in> {1, 2, 4, 8, 16, 32, 64} \<and> sys_delay (dialFailed True s) = min 64 (2 * sys_delay s) \<and>
    sys_delay (connect s) = 1"
proof -
  obtain i where i: "i \<le> 6" "sys_delay s = 2 ^ i" using sysRun_delay [OF assms] by blast
  then have "i \<in> {0, 1, 2, 3, 4, 5, 6}" by auto
  with i(2) have "sys_delay s \<in> {1, 2, 4, 8, 16, 32, 64}" by auto
  then show ?thesis by (simp add: dialFailed_def nextDelay_def connect_def Let_def)
qed

theorem reconnect_backoff_witness: "sys_delay (dialFailed True sampleSystem) = 2"
proof -
  have "sys_delay sampleSystem = 1" by code_simp
  then show ?thesis using reconnect_backoff [OF sampleSystem_run] by simp
qed

end
