(* ===== verification/Net_IP.thy ===== *)
theory Net_IP
  imports Prelude
begin

text \<open>
  The parts of Go's package \<open>net\<close> the sources call on addresses: \<open>net.IP\<close> and \<open>net.IPMask\<close> as byte
  lists (nil is the empty list), \<open>net.IPNet\<close>, and \<open>To4\<close>, \<open>To16\<close>, \<open>Equal\<close>, \<open>IP.Mask\<close>, \<open>IPMask.Size\<close>,
  \<open>CIDRMask\<close> and \<open>IPNet.Contains\<close>. The lemmas say when two networks share an address: of two masks that
  \<open>Size\<close> accepts one is at least as long as the other.
\<close>

section \<open>Addresses\<close>

type_synonym bytes = "byte list"

definition v4InV6Prefix :: bytes where
  "v4InV6Prefix = replicate 10 0 @ [0xff, 0xff]"

definition To4 :: "bytes \<Rightarrow> bytes" where
  "To4 ip = (if length ip = 4 then ip
     else if length ip = 16 \<and> take 12 ip = v4InV6Prefix then drop 12 ip else [])"

definition To16 :: "bytes \<Rightarrow> bytes" where
  "To16 ip = (if length ip = 4 then v4InV6Prefix @ ip else if length ip = 16 then ip else [])"

definition ipEqual :: "bytes \<Rightarrow> bytes \<Rightarrow> bool" where
  "ipEqual ip x = (if length ip = length x then ip = x
     else if length ip = 4 \<and> length x = 16 then take 12 x = v4InV6Prefix \<and> ip = drop 12 x
     else if length ip = 16 \<and> length x = 4 then take 12 ip = v4InV6Prefix \<and> drop 12 ip = x
     else False)"

section \<open>Masks\<close>

text \<open>\<open>for v&0x80 != 0 { n++; v <<= 1 }\<close>: after eight rounds nothing is left of a byte.\<close>

fun leadingOnes :: "nat \<Rightarrow> int \<Rightarrow> byte \<Rightarrow> int \<times> byte" where
  "leadingOnes 0 n v = (n, v)"
| "leadingOnes (Suc fuel) n v = (if v AND 0x80 \<noteq> 0 then leadingOnes fuel (n + 1) (push_bit 1 v) else (n, v))"

fun simpleMaskLength :: "int \<Rightarrow> bytes \<Rightarrow> int" where
  "simpleMaskLength n [] = n"
| "simpleMaskLength n (v # ms) =
     (if v = 0xff then simpleMaskLength (n + 8) ms
      else case leadingOnes 8 n v of (n', v') \<Rightarrow>
        if v' \<noteq> 0 then -1 else if list_ex (\<lambda>m. m \<noteq> 0) ms then -1 else n')"

definition ipMaskSize :: "bytes \<Rightarrow> int \<times> int" where
  "ipMaskSize m = (let ones = simpleMaskLength 0 m in if ones = -1 then (0, 0) else (ones, int (length m) * 8))"

definition ipMask :: "bytes \<Rightarrow> bytes \<Rightarrow> bytes" where
  "ipMask ip m =
     (let m = (if length m = 16 \<and> length ip = 4 \<and> list_all (\<lambda>b. b = 0xff) (take 12 m) then drop 12 m else m);
          ip = (if length m = 4 \<and> length ip = 16 \<and> take 12 ip = v4InV6Prefix then drop 12 ip else ip)
      in if length ip \<noteq> length m then [] else map2 (AND) ip m)"

text \<open>\<open>net.CIDRMask(bits, bits)\<close>, the only form in which the sources call it.\<close>

definition fullMask :: "nat \<Rightarrow> bytes" where
  "fullMask bits = replicate (bits div 8) 0xff"

section \<open>Networks\<close>

record goIPNet =
  net_IP :: bytes
  net_Mask :: bytes

definition networkNumberAndMask :: "goIPNet \<Rightarrow> bytes \<times> bytes" where
  "networkNumberAndMask n =
     (let ip = (if To4 (net_IP n) \<noteq> [] then To4 (net_IP n) else net_IP n) in
      if To4 (net_IP n) = [] \<and> length ip \<noteq> 16 then ([], [])
      else if length (net_Mask n) = 4 then (if length ip \<noteq> 4 then ([], []) else (ip, net_Mask n))
      else if length (net_Mask n) = 16 then (ip, if length ip = 4 then drop 12 (net_Mask n) else net_Mask n)
      else ([], []))"

fun maskedEqual :: "bytes \<Rightarrow> bytes \<Rightarrow> bytes \<Rightarrow> bool" where
  "maskedEqual (n # nn) (m # ms) (x # ip) = (if n AND m \<noteq> x AND m then False else maskedEqual nn ms ip)"
| "maskedEqual _ _ _ = True"

definition netContains :: "goIPNet \<Rightarrow> bytes \<Rightarrow> bool" where
  "netContains n ip = (case networkNumberAndMask n of (nn, m) \<Rightarrow>
     let ip = (if To4 ip \<noteq> [] then To4 ip else ip) in
     if length ip \<noteq> length nn then False else maskedEqual nn m ip)"

text \<open>The address as \<open>Contains\<close> compares it.\<close>

definition shortIP :: "bytes \<Rightarrow> bytes" where
  "shortIP ip = (if To4 ip \<noteq> [] then To4 ip else ip)"

section \<open>Lengths\<close>

lemma v4InV6Prefix_length [simp]: "length v4InV6Prefix = 12"
  by (simp add: v4InV6Prefix_def)

lemma To4_length: "length (To4 ip) = 0 \<or> length (To4 ip) = 4"
  by (auto simp: To4_def)

lemma To4_length_nonempty: "To4 ip \<noteq> [] \<Longrightarrow> length (To4 ip) = 4"
  using To4_length [of ip] by auto

lemma To4_of_4 [simp]: "length ip = 4 \<Longrightarrow> To4 ip = ip"
  by (simp add: To4_def)

lemma To4_idem [simp]: "To4 (To4 ip) = To4 ip"
  using To4_length [of ip] by (auto simp: To4_def)

lemma To16_length: "length (To16 ip) = 0 \<or> length (To16 ip) = 16"
  by (auto simp: To16_def)

lemma shortIP_length: "length ip = 4 \<or> length ip = 16 \<Longrightarrow> length (shortIP ip) = 4 \<or> length (shortIP ip) = 16"
  by (auto simp: shortIP_def To4_def)

lemma shortIP_4_iff: "length ip = 4 \<or> length ip = 16 \<Longrightarrow> length (shortIP ip) = 4 \<longleftrightarrow> To4 ip \<noteq> []"
  using To4_length_nonempty [of ip] by (auto simp: shortIP_def To4_def)

lemma shortIP_idem [simp]: "shortIP (shortIP ip) = shortIP ip"
  by (auto simp: shortIP_def)

section \<open>Masks form a chain\<close>

text \<open>A byte whose ones come before its zeros, and the masks that \<open>Size\<close> accepts.\<close>

definition upclosed :: "byte \<Rightarrow> bool" where
  "upclosed v \<longleftrightarrow> (\<forall>i j. bit v i \<longrightarrow> i \<le> j \<longrightarrow> j < 8 \<longrightarrow> bit v j)"

fun canonical :: "bytes \<Rightarrow> bool" where
  "canonical [] \<longleftrightarrow> True"
| "canonical (v # ms) \<longleftrightarrow> (if v = 0xff then canonical ms else upclosed v \<and> set ms \<subseteq> {0})"

definition covers :: "bytes \<Rightarrow> bytes \<Rightarrow> bool" where
  "covers ms ms' \<longleftrightarrow> list_all2 (\<lambda>a b. a AND b = a) ms ms'"

lemma top_bit: "v AND 0x80 \<noteq> 0 \<longleftrightarrow> bit (v :: byte) 7"
proof -
  have e: "(0x80 :: byte) = push_bit 7 1" by (simp add: push_bit_eq_mult)
  have "bit (0x80 :: byte) n \<longleftrightarrow> n = 7" for n
    unfolding e bit_push_bit_iff bit_1_iff possible_bit_def by auto
  then have "bit (v AND 0x80) n \<longleftrightarrow> n = 7 \<and> bit v 7" for n by (auto simp: bit_and_iff)
  then show ?thesis by (metis bit_0_eq bot_apply bot_bool_def bit_eqI)
qed

lemma leadingOnes_upclosed: "leadingOnes fuel n v = (n', 0) \<Longrightarrow> upclosed v"
proof (induction fuel arbitrary: n v)
  case 0
  then show ?case by (simp add: upclosed_def)
next
  case (Suc fuel)
  show ?case
  proof (cases "bit v 7")
    case True
    then have up: "upclosed (push_bit 1 v)" using Suc by (simp add: top_bit)
    have shift: "bit (push_bit 1 v) (Suc i) = bit v i" if "i < 7" for i
      using that unfolding bit_push_bit_iff by (simp add: possible_bit_word)
    show ?thesis unfolding upclosed_def
    proof (intro allI impI)
      fix i j assume ij: "bit v i" "i \<le> j" "j < 8"
      show "bit v j"
      proof (cases "j = 7")
        case False
        then have "bit (push_bit 1 v) (Suc i)" using ij shift [of i] by simp
        then have "bit (push_bit 1 v) (Suc j)" using up ij False unfolding upclosed_def by auto
        then show ?thesis using shift [of j] ij False by simp
      qed (use True in simp)
    qed
  next
    case False
    then show ?thesis using Suc.prems by (simp add: top_bit upclosed_def)
  qed
qed

lemma leadingOnes_nonneg: "leadingOnes fuel n v = (n', v') \<Longrightarrow> 0 \<le> n \<Longrightarrow> 0 \<le> n'"
  by (induction fuel arbitrary: n v) (auto split: if_splits)

lemma simpleMaskLength_canonical: "simpleMaskLength n m \<noteq> - 1 \<Longrightarrow> canonical m"
proof (induction m arbitrary: n)
  case (Cons v ms)
  show ?case
  proof (cases "v = 0xff")
    case False
    obtain n' v' where l: "leadingOnes 8 n v = (n', v')" by force
    with Cons.prems False have "v' = 0" "\<not> list_ex (\<lambda>m. m \<noteq> 0) ms" by (auto split: if_splits)
    with l False show ?thesis by (auto simp: list_ex_iff intro: leadingOnes_upclosed)
  qed (use Cons in simp)
qed simp

lemma ipMaskSize_canonical: "ipMaskSize m = (ones, bits) \<Longrightarrow> bits \<noteq> 0 \<Longrightarrow> canonical m \<and> bits = int (length m) * 8"
  using simpleMaskLength_canonical [of 0 m] by (auto simp: ipMaskSize_def Let_def split: if_splits)

lemma and_neq_left: "v AND w \<noteq> v \<Longrightarrow> \<exists>i < 8. bit v i \<and> \<not> bit (w :: byte) i"
proof (rule ccontr)
  assume "v AND w \<noteq> v" and no: "\<not> (\<exists>i < 8. bit v i \<and> \<not> bit w i)"
  moreover have "v AND w = v" by (rule bit_word_eqI) (use no in \<open>auto simp: bit_and_iff\<close>)
  ultimately show False by simp
qed

lemma upclosed_chain: "upclosed v \<Longrightarrow> upclosed w \<Longrightarrow> v AND w = v \<or> w AND v = w"
proof (rule ccontr)
  assume v: "upclosed v" and w: "upclosed w" and no: "\<not> (v AND w = v \<or> w AND v = w)"
  obtain i where i: "bit v i" "\<not> bit w i" "i < 8" using no and_neq_left [of v w] by blast
  obtain j where j: "bit w j" "\<not> bit v j" "j < 8" using no and_neq_left [of w v] by blast
  have "i \<le> j \<or> j \<le> i" by auto
  with i j v w show False unfolding upclosed_def by blast
qed

lemma and_ff [simp]: "v AND 0xff = (v :: byte)" "0xff AND v = v"
proof -
  have "(0xff :: byte) = - 1" by simp
  then show "v AND 0xff = v" "0xff AND v = v" by (metis and.right_neutral, metis and.left_neutral)
qed

lemma covers_zero: "set ms \<subseteq> {0} \<Longrightarrow> length ms = length ms' \<Longrightarrow> covers ms ms'"
  by (auto simp: covers_def list_all2_conv_all_nth subset_eq set_conv_nth)

lemma canonical_chain:
  "length ms = length ms' \<Longrightarrow> canonical ms \<Longrightarrow> canonical ms' \<Longrightarrow> covers ms ms' \<or> covers ms' ms"
proof (induction ms ms' rule: list_induct2)
  case (Cons v ms w ms')
  consider "v = 0xff" "w = 0xff" | "v \<noteq> 0xff" "w = 0xff" | "v = 0xff" "w \<noteq> 0xff" | "v \<noteq> 0xff" "w \<noteq> 0xff" by blast
  then show ?case
  proof cases
    case 4
    then show ?thesis
      using Cons.hyps Cons.prems upclosed_chain [of v w] covers_zero [of ms ms'] covers_zero [of ms' ms]
      by (auto simp: covers_def)
  qed (use Cons covers_zero [of ms ms'] covers_zero [of ms' ms] in \<open>auto simp: covers_def\<close>)
qed (simp add: covers_def)

lemma canonical_drop: "canonical ms \<Longrightarrow> canonical (drop n ms)"
proof (induction ms arbitrary: n)
  case (Cons v ms)
  have zero: "set ms \<subseteq> {0} \<Longrightarrow> canonical ms" for ms
    by (induction ms) (auto simp: upclosed_def)
  show ?case
  proof (cases n)
    case (Suc k)
    then show ?thesis using Cons zero [of "drop k ms"] set_drop_subset [of k ms]
      by (auto split: if_splits)
  qed (use Cons in simp)
qed simp

section \<open>Networks that share an address\<close>

lemma maskedEqual_iff:
  "length nn = length ms \<Longrightarrow> length ip = length ms \<Longrightarrow> maskedEqual nn ms ip \<longleftrightarrow> map2 (AND) nn ms = map2 (AND) ip ms"
  by (induction nn ms ip rule: maskedEqual.induct) auto

lemma map2_and_covers:
  assumes "covers ms ms'" and "length xs = length ms" and "map2 (AND) xs ms' = map2 (AND) ys ms'"
    and "length ys = length ms"
  shows "map2 (AND) xs ms = map2 (AND) ys ms"
proof (rule nth_equalityI)
  have len: "length ms' = length ms" using assms(1) by (simp add: covers_def list_all2_lengthD)
  fix i assume i: "i < length (map2 (AND) xs ms)"
  then have e: "ms ! i = ms' ! i AND ms ! i" using assms(1,2) len by (simp add: covers_def list_all2_conv_all_nth and.commute)
  moreover have "xs ! i AND ms' ! i = ys ! i AND ms' ! i"
    using arg_cong [OF assms(3), of "\<lambda>l. l ! i"] i assms(2,4) len by simp
  ultimately have "xs ! i AND ms ! i = ys ! i AND ms ! i"
    using e arg_cong [of _ _ "\<lambda>w. w AND ms ! i"] and.assoc by metis
  then show "map2 (AND) xs ms ! i = map2 (AND) ys ms ! i" using i assms(2,4) by simp
qed (use assms in simp)

text \<open>A network as \<open>normalizeIPNet\<close> makes it: an accepted mask, and an address of the mask's length.\<close>

definition wf_net :: "goIPNet \<Rightarrow> bool" where
  "wf_net n \<longleftrightarrow> canonical (net_Mask n) \<and> (length (net_Mask n) = 4 \<or> length (net_Mask n) = 16) \<and>
     length (net_IP n) = length (net_Mask n)"

definition shortMask :: "goIPNet \<Rightarrow> bytes" where
  "shortMask n = (if length (shortIP (net_IP n)) = 4 \<and> length (net_Mask n) = 16 then drop 12 (net_Mask n) else net_Mask n)"

lemma networkNumberAndMask_wf:
  "wf_net n \<Longrightarrow> networkNumberAndMask n = (shortIP (net_IP n), shortMask n)"
  using To4_length_nonempty [of "net_IP n"]
  by (auto simp: networkNumberAndMask_def wf_net_def shortIP_def shortMask_def Let_def)

lemma shortMask_length: "wf_net n \<Longrightarrow> length (shortMask n) = length (shortIP (net_IP n))"
  using To4_length_nonempty [of "net_IP n"] by (auto simp: wf_net_def shortMask_def shortIP_def)

lemma shortMask_canonical: "wf_net n \<Longrightarrow> canonical (shortMask n)"
  by (simp add: wf_net_def shortMask_def canonical_drop)

lemma netContains_wf:
  assumes "wf_net n"
  shows "netContains n ip \<longleftrightarrow> length (shortIP ip) = length (shortIP (net_IP n)) \<and>
    map2 (AND) (shortIP (net_IP n)) (shortMask n) = map2 (AND) (shortIP ip) (shortMask n)"
  using shortMask_length [OF assms] networkNumberAndMask_wf [OF assms]
  by (auto simp: netContains_def Let_def shortIP_def [symmetric] maskedEqual_iff)

lemma netContains_self: "wf_net n \<Longrightarrow> netContains n (net_IP n)"
  by (simp add: netContains_wf)

theorem shared_address:
  assumes "wf_net a" and "wf_net b" and "netContains a x" and "netContains b x"
  shows "netContains a (net_IP b) \<or> netContains b (net_IP a)"
proof -
  note a = assms(3) [unfolded netContains_wf [OF assms(1)]] and b = assms(4) [unfolded netContains_wf [OF assms(2)]]
  note la = shortMask_length [OF assms(1)] and lb = shortMask_length [OF assms(2)]
  have len: "length (shortMask a) = length (shortMask b)" using a b la lb by simp
  from canonical_chain [OF len shortMask_canonical [OF assms(1)] shortMask_canonical [OF assms(2)]]
  show ?thesis
  proof
    assume "covers (shortMask a) (shortMask b)"
    then have "map2 (AND) (shortIP (net_IP b)) (shortMask a) = map2 (AND) (shortIP x) (shortMask a)"
      by (rule map2_and_covers) (use a b la lb len in simp_all)
    then show ?thesis using a b by (simp add: netContains_wf [OF assms(1)])
  next
    assume "covers (shortMask b) (shortMask a)"
    then have "map2 (AND) (shortIP (net_IP a)) (shortMask b) = map2 (AND) (shortIP x) (shortMask b)"
      by (rule map2_and_covers) (use a b la lb len in simp_all)
    then show ?thesis using a b by (simp add: netContains_wf [OF assms(2)])
  qed
qed

end
