(* ===== verification/Subnet.thy ===== *)
theory Subnet
  imports Net_IP
begin

text \<open>
  The allocation filters of \<open>subnet/allocator.go\<close> and the local networks of \<open>subnet/system.go\<close>. A
  candidate is refused when it is in use on this machine. The interface enumeration is a parameter:
  a query on the machine, called again for every candidate. The allocator of package gonnect, which
  gets the wrapped filters, is a parameter too.
\<close>

section \<open>The networks of the machine\<close>

text \<open>The interface \<open>net.Addr\<close>: the two pointer types the code looks at (nil pointers too), or another.\<close>

datatype netAddr = AddrIPNet "goIPNet option" | AddrIPAddr "bytes option" | AddrOther

record systemNetworks =
  sn_ips :: "bytes list"
  sn_networks :: "goIPNet list"

definition copyIP :: "bytes \<Rightarrow> bytes" where
  "copyIP ip = ip"

definition copyIPNet :: "goIPNet \<Rightarrow> goIPNet" where
  "copyIPNet network = \<lparr>net_IP = copyIP (net_IP network), net_Mask = net_Mask network\<rparr>"

definition normalizeIP :: "bytes \<Rightarrow> bytes" where
  "normalizeIP ip = (if To4 ip \<noteq> [] then copyIP (To4 ip)
     else if To16 ip \<noteq> [] then copyIP (To16 ip) else [])"

definition normalizeIPNet :: "goIPNet option \<Rightarrow> goIPNet option" where
  "normalizeIPNet network = (case network of None \<Rightarrow> None
     | Some n \<Rightarrow> (case ipMaskSize (net_Mask n) of (ones, bits) \<Rightarrow>
         if ones < 0 \<or> bits \<noteq> 32 \<and> bits \<noteq> 128 then None
         else let ip = (if bits = 32 then To4 (net_IP n) else To16 (net_IP n)) in
           if ip = [] then None
           else Some \<lparr>net_IP = copyIP (ipMask ip (net_Mask n)), net_Mask = net_Mask n\<rparr>))"

definition ignoredBroadOverlapNetwork :: "goIPNet \<Rightarrow> bool" where
  "ignoredBroadOverlapNetwork network \<longleftrightarrow> fst (ipMaskSize (net_Mask network)) < 8"

definition sameSubnet :: "goIPNet \<Rightarrow> goIPNet \<Rightarrow> bool" where
  "sameSubnet a b = (case ipMaskSize (net_Mask a) of (onesA, bitsA) \<Rightarrow>
     case ipMaskSize (net_Mask b) of (onesB, bitsB) \<Rightarrow>
       bitsA = bitsB \<and> onesA = onesB \<and> ipEqual (net_IP a) (net_IP b))"

definition sameFamily :: "bytes \<Rightarrow> bytes \<Rightarrow> bool" where
  "sameFamily a b \<longleftrightarrow> (To4 a = []) = (To4 b = [])"

definition overlap :: "goIPNet \<Rightarrow> goIPNet \<Rightarrow> bool" where
  "overlap a b \<longleftrightarrow> sameFamily (net_IP a) (net_IP b) \<and> (netContains a (net_IP b) \<or> netContains b (net_IP a))"

definition addrIPNet :: "netAddr \<Rightarrow> bytes \<times> goIPNet option" where
  "addrIPNet addr = (case addr of
       AddrIPNet None \<Rightarrow> ([], None)
     | AddrIPNet (Some a) \<Rightarrow> (case normalizeIPNet (Some a) of None \<Rightarrow> ([], None)
         | Some network \<Rightarrow> let ip = normalizeIP (net_IP a) in
             if ip = [] then ([], None) else (ip, Some network))
     | AddrIPAddr None \<Rightarrow> ([], None)
     | AddrIPAddr (Some a) \<Rightarrow> let ip = normalizeIP a in
         if ip = [] then ([], None)
         else let bits = (if To4 ip \<noteq> [] then 32 else 128) in
           (ip, Some \<lparr>net_IP = copyIP ip, net_Mask = fullMask bits\<rparr>)
     | AddrOther \<Rightarrow> ([], None))"

fun addSystemNetworks :: "systemNetworks \<Rightarrow> netAddr list \<Rightarrow> systemNetworks" where
  "addSystemNetworks system [] = system"
| "addSystemNetworks system (addr # addrs) = (case addrIPNet addr of (ip, network) \<Rightarrow>
     if ip = [] \<or> network = None then addSystemNetworks system addrs
     else addSystemNetworks (system\<lparr>sn_ips := sn_ips system @ [copyIP ip],
            sn_networks := sn_networks system @ [copyIPNet (the network)]\<rparr>) addrs)"

definition newSystemNetworks :: "netAddr list \<Rightarrow> systemNetworks" where
  "newSystemNetworks addrs = addSystemNetworks \<lparr>sn_ips = [], sn_networks = []\<rparr> addrs"

definition usesIP :: "systemNetworks \<Rightarrow> bytes \<Rightarrow> bool" where
  "usesIP s ip = (let normalized = normalizeIP ip in
     if normalized = [] then False else list_ex (\<lambda>localIP. ipEqual localIP normalized) (sn_ips s))"

fun usesNetwork :: "goIPNet \<Rightarrow> goIPNet list \<Rightarrow> bool" where
  "usesNetwork candidate [] = False"
| "usesNetwork candidate (localNetwork # ns) =
     (if sameSubnet candidate localNetwork then True
      else if ignoredBroadOverlapNetwork localNetwork then usesNetwork candidate ns
      else if overlap candidate localNetwork then True
      else usesNetwork candidate ns)"

definition usesSubnet :: "systemNetworks \<Rightarrow> goIPNet option \<Rightarrow> bool" where
  "usesSubnet s network = (case normalizeIPNet network of None \<Rightarrow> False
     | Some candidate \<Rightarrow>
         if list_ex (\<lambda>localIP. sameFamily (net_IP candidate) localIP \<and> netContains candidate localIP) (sn_ips s) then True
         else usesNetwork candidate (sn_networks s))"

section \<open>The filters\<close>

text \<open>
  A filter is called on the machine as it is; the enumeration may fail. \<open>None\<close> is a nil filter or a
  nil provider.
\<close>

type_synonym ('c, 'k) candFilter = "('c \<Rightarrow> 'k \<Rightarrow> bool \<times> 'k) option"
type_synonym 'k addrProvider = "('k, netAddr list) query option"

definition callFilter :: "('c, 'k) candFilter \<Rightarrow> 'c \<Rightarrow> 'k \<Rightarrow> bool \<times> 'k" where
  "callFilter flt c k = (case flt of None \<Rightarrow> (True, k) | Some f \<Rightarrow> f c k)"

definition currentSystemNetworks :: "'k addrProvider \<Rightarrow> 'k \<Rightarrow> systemNetworks option \<times> 'k" where
  "currentSystemNetworks provider k = (case provider of None \<Rightarrow> (None, k)
     | Some p \<Rightarrow> (case p k of (Inl err, k') \<Rightarrow> (None, k') | (Inr addrs, k') \<Rightarrow> (Some (newSystemNetworks addrs), k')))"

definition wrapIPFilter :: "(bytes, 'k) candFilter \<Rightarrow> systemNetworks \<Rightarrow> bytes \<Rightarrow> 'k \<Rightarrow> bool \<times> 'k" where
  "wrapIPFilter flt system ip k = (if usesIP system ip then (False, k) else callFilter flt ip k)"

definition wrapSubnetFilter ::
    "(goIPNet option, 'k) candFilter \<Rightarrow> systemNetworks \<Rightarrow> goIPNet option \<Rightarrow> 'k \<Rightarrow> bool \<times> 'k" where
  "wrapSubnetFilter flt system network k =
     (if usesSubnet system network then (False, k) else callFilter flt network k)"

definition wrapDynamicIPFilter :: "(bytes, 'k) candFilter \<Rightarrow> 'k addrProvider \<Rightarrow> bytes \<Rightarrow> 'k \<Rightarrow> bool \<times> 'k" where
  "wrapDynamicIPFilter flt provider ip k = (case currentSystemNetworks provider k of (system, k') \<Rightarrow>
     if system \<noteq> None \<and> usesIP (the system) ip then (False, k') else callFilter flt ip k')"

definition wrapDynamicSubnetFilter ::
    "(goIPNet option, 'k) candFilter \<Rightarrow> 'k addrProvider \<Rightarrow> goIPNet option \<Rightarrow> 'k \<Rightarrow> bool \<times> 'k" where
  "wrapDynamicSubnetFilter flt provider network k = (case currentSystemNetworks provider k of (system, k') \<Rightarrow>
     if system \<noteq> None \<and> usesSubnet (the system) network then (False, k') else callFilter flt network k')"

text \<open>The configuration of the gonnect allocator, as far as the code touches it; \<open>newAllocator\<close> is gonnect's.\<close>

record 'k DefaultAllocatorConfig =
  dac_IPFilter :: "(bytes, 'k) candFilter"
  dac_SubnetFilter :: "(goIPNet option, 'k) candFilter"

definition newDefaultAllocatorWithAddrs ::
    "('k DefaultAllocatorConfig \<Rightarrow> 'a) \<Rightarrow> 'k DefaultAllocatorConfig \<Rightarrow> netAddr list \<Rightarrow> 'a" where
  "newDefaultAllocatorWithAddrs newAllocator config addrs =
     (let system = newSystemNetworks addrs in
      newAllocator (config\<lparr>dac_IPFilter := Some (wrapIPFilter (dac_IPFilter config) system),
        dac_SubnetFilter := Some (wrapSubnetFilter (dac_SubnetFilter config) system)\<rparr>))"

definition newDefaultAllocatorWithAddrProvider ::
    "('k DefaultAllocatorConfig \<Rightarrow> 'a) \<Rightarrow> 'k DefaultAllocatorConfig \<Rightarrow> 'k addrProvider \<Rightarrow> 'a" where
  "newDefaultAllocatorWithAddrProvider newAllocator config provider =
     newAllocator (config\<lparr>dac_IPFilter := Some (wrapDynamicIPFilter (dac_IPFilter config) provider),
       dac_SubnetFilter := Some (wrapDynamicSubnetFilter (dac_SubnetFilter config) provider)\<rparr>)"

text \<open>\<open>interfaceAddrs\<close>, over \<open>net.Interfaces\<close> and \<open>Interface.Addrs\<close>.\<close>

fun ifaceAddrsLoop :: "('i \<Rightarrow> ('k, netAddr list) query) \<Rightarrow> 'i list \<Rightarrow> netAddr list \<Rightarrow> ('k, netAddr list) query" where
  "ifaceAddrsLoop addrsOf [] addrs k = (Inr addrs, k)"
| "ifaceAddrsLoop addrsOf (i # ifaces) addrs k = (case addrsOf i k of
       (Inl err, k') \<Rightarrow> (Inl err, k')
     | (Inr as, k') \<Rightarrow> ifaceAddrsLoop addrsOf ifaces (addrs @ as) k')"

definition interfaceAddrs :: "('k, 'i list) query \<Rightarrow> ('i \<Rightarrow> ('k, netAddr list) query) \<Rightarrow> ('k, netAddr list) query" where
  "interfaceAddrs interfaces addrsOf k = (case interfaces k of
       (Inl err, k') \<Rightarrow> (Inl err, k')
     | (Inr ifaces, k') \<Rightarrow> ifaceAddrsLoop addrsOf ifaces [] k')"

definition NewDefaultAllocator ::
    "('k DefaultAllocatorConfig \<Rightarrow> 'a) \<Rightarrow> ('k, 'i list) query \<Rightarrow> ('i \<Rightarrow> ('k, netAddr list) query) \<Rightarrow>
     'k DefaultAllocatorConfig \<Rightarrow> 'a" where
  "NewDefaultAllocator newAllocator interfaces addrsOf config =
     newDefaultAllocatorWithAddrProvider newAllocator config (Some (interfaceAddrs interfaces addrsOf))"

section \<open>Normal forms\<close>

lemma normalizeIP_length: "normalizeIP ip \<noteq> [] \<Longrightarrow> length (normalizeIP ip) = 4 \<or> length (normalizeIP ip) = 16 \<and> To4 (normalizeIP ip) = []"
  using To4_length_nonempty [of ip] To4_of_4 [of ip]
  by (cases "To4 ip = []") (auto simp: normalizeIP_def copyIP_def To16_def split: if_splits)

lemma normalizeIP_equal:
  assumes "normalizeIP a \<noteq> []" and "normalizeIP b \<noteq> []"
  shows "ipEqual (normalizeIP a) (normalizeIP b) \<longleftrightarrow> normalizeIP a = normalizeIP b"
  using normalizeIP_length [OF assms(1)] normalizeIP_length [OF assms(2)] by (auto simp: ipEqual_def To4_def)

lemma normalizeIPNet_wf:
  assumes "normalizeIPNet (Some n) = Some n'"
  shows "wf_net n'" and "net_Mask n' = net_Mask n"
proof -
  obtain ones bits where s: "ipMaskSize (net_Mask n) = (ones, bits)" by force
  let ?ip = "if bits = 32 then To4 (net_IP n) else To16 (net_IP n)"
  have b: "bits = 32 \<or> bits = 128" and n': "?ip \<noteq> []" "n' = \<lparr>net_IP = ipMask ?ip (net_Mask n), net_Mask = net_Mask n\<rparr>"
    using assms s by (auto simp: normalizeIPNet_def copyIP_def Let_def split: if_splits)
  then have m: "canonical (net_Mask n)" "bits = int (length (net_Mask n)) * 8"
    using ipMaskSize_canonical [OF s] by auto
  have "length ?ip = length (net_Mask n)"
    using b m(2) n'(1) To4_length [of "net_IP n"] To16_length [of "net_IP n"] by auto
  then have "length (ipMask ?ip (net_Mask n)) = length (net_Mask n)" using b m(2) by (auto simp: ipMask_def Let_def)
  then show "wf_net n'" using m b n'(2) by (auto simp: wf_net_def)
  show "net_Mask n' = net_Mask n" using n'(2) by simp
qed

lemma canonical_full: "canonical (replicate n 0xff)"
  by (induction n) simp_all

text \<open>The pairs of address and network that the machine's interfaces contribute.\<close>

definition localNets :: "netAddr list \<Rightarrow> (bytes \<times> goIPNet) list" where
  "localNets addrs = List.map_filter (\<lambda>a. case addrIPNet a of (ip, Some n) \<Rightarrow> Some (ip, n) | _ \<Rightarrow> None) addrs"

lemma addrIPNet_cases:
  "addrIPNet a = ([], None) \<or> (\<exists>ip n. addrIPNet a = (ip, Some n) \<and> ip \<noteq> [] \<and> wf_net n \<and> (\<exists>ip0. ip = normalizeIP ip0))"
proof (cases a)
  case (AddrIPNet p)
  then show ?thesis using normalizeIPNet_wf(1)
    by (cases p) (auto simp: addrIPNet_def Let_def split: option.splits)
next
  case (AddrIPAddr p)
  have "wf_net \<lparr>net_IP = ip, net_Mask = fullMask (if To4 ip \<noteq> [] then 32 else 128)\<rparr>"
    if "ip = normalizeIP ip0" "ip \<noteq> []" for ip ip0
    using normalizeIP_length [of ip0] that by (auto simp: wf_net_def fullMask_def canonical_full)
  with AddrIPAddr show ?thesis by (cases p) (auto simp: addrIPNet_def copyIP_def Let_def)
qed (simp add: addrIPNet_def)

lemma addSystemNetworks_eq:
  "addSystemNetworks s addrs = \<lparr>sn_ips = sn_ips s @ map fst (localNets addrs),
     sn_networks = sn_networks s @ map snd (localNets addrs)\<rparr>"
proof (induction addrs arbitrary: s)
  case (Cons a addrs)
  from addrIPNet_cases [of a] show ?case
    by (auto simp: Cons.IH localNets_def map_filter_simps copyIP_def copyIPNet_def)
qed (simp add: localNets_def map_filter_simps)

lemma newSystemNetworks_eq [simp]:
  "newSystemNetworks addrs = \<lparr>sn_ips = map fst (localNets addrs), sn_networks = map snd (localNets addrs)\<rparr>"
  by (simp add: newSystemNetworks_def addSystemNetworks_eq)

lemma localNets_wf:
  assumes "(ip, n) \<in> set (localNets addrs)"
  shows "ip \<noteq> []" and "wf_net n" and "\<exists>ip0. ip = normalizeIP ip0"
proof -
  obtain a where "(case addrIPNet a of (ip, Some n) \<Rightarrow> Some (ip, n) | _ \<Rightarrow> None) = Some (ip, n)"
    using assms unfolding localNets_def set_map_filter_Some by blast
  then have "addrIPNet a = (ip, Some n)" by (auto split: prod.splits option.splits)
  with addrIPNet_cases [of a] show "ip \<noteq> []" "wf_net n" "\<exists>ip0. ip = normalizeIP ip0" by auto
qed

section \<open>What the filters accept\<close>

definition shareAddress :: "goIPNet \<Rightarrow> goIPNet \<Rightarrow> bool" where
  "shareAddress a b \<longleftrightarrow> (\<exists>x. netContains a x \<and> netContains b x)"

lemma sameFamily_contains:
  assumes "wf_net a" and "length x = 4 \<or> length x = 16" and "netContains a x"
  shows "sameFamily (net_IP a) x"
proof -
  have l: "length (net_IP a) = 4 \<or> length (net_IP a) = 16" using assms(1) by (auto simp: wf_net_def)
  show ?thesis
    using assms(3) shortIP_4_iff [OF l] shortIP_4_iff [OF assms(2)]
    by (auto simp: sameFamily_def netContains_wf [OF assms(1)])
qed

lemma overlap_iff:
  assumes "wf_net a" and "wf_net b"
  shows "overlap a b \<longleftrightarrow> shareAddress a b"
proof
  assume "overlap a b"
  then show "shareAddress a b" using netContains_self [OF assms(1)] netContains_self [OF assms(2)]
    by (auto simp: overlap_def shareAddress_def)
next
  assume "shareAddress a b"
  then have s: "netContains a (net_IP b) \<or> netContains b (net_IP a)"
    using shared_address [OF assms] by (auto simp: shareAddress_def)
  moreover have "sameFamily (net_IP a) (net_IP b)"
    using s sameFamily_contains [OF assms(1), of "net_IP b"] sameFamily_contains [OF assms(2), of "net_IP a"] assms
    by (auto simp: wf_net_def sameFamily_def)
  ultimately show "overlap a b" by (simp add: overlap_def)
qed

lemma usesNetwork_iff:
  "usesNetwork c ns \<longleftrightarrow> (\<exists>n \<in> set ns. sameSubnet c n \<or> \<not> ignoredBroadOverlapNetwork n \<and> overlap c n)"
  by (induction ns) auto

text \<open>A candidate is taken by an interface with this address and network.\<close>

definition takenBy :: "goIPNet \<Rightarrow> bytes \<times> goIPNet \<Rightarrow> bool" where
  "takenBy c l \<longleftrightarrow> netContains c (fst l) \<or> sameSubnet c (snd l) \<or>
     8 \<le> fst (ipMaskSize (net_Mask (snd l))) \<and> shareAddress c (snd l)"

lemma usesSubnet_iff:
  assumes "normalizeIPNet network = Some c"
  shows "usesSubnet (newSystemNetworks addrs) network \<longleftrightarrow> (\<exists>l \<in> set (localNets addrs). takenBy c l)"
proof -
  obtain n where "network = Some n" using assms by (cases network) (auto simp: normalizeIPNet_def)
  then have c: "wf_net c" using assms normalizeIPNet_wf(1) by blast
  have fam: "sameFamily (net_IP c) ip" if "(ip, m) \<in> set (localNets addrs)" "netContains c ip" for ip m
    using localNets_wf [OF that(1)] normalizeIP_length sameFamily_contains [OF c _ that(2)] by metis
  have ov: "overlap c m \<longleftrightarrow> shareAddress c m" if "(ip, m) \<in> set (localNets addrs)" for ip m
    using overlap_iff [OF c localNets_wf(2) [OF that]] .
  have ips: "list_ex (\<lambda>ip. sameFamily (net_IP c) ip \<and> netContains c ip) (map fst (localNets addrs)) \<longleftrightarrow>
      (\<exists>l \<in> set (localNets addrs). netContains c (fst l))"
    unfolding list_ex_iff using fam by force
  have nets: "usesNetwork c (map snd (localNets addrs)) \<longleftrightarrow> (\<exists>l \<in> set (localNets addrs).
      sameSubnet c (snd l) \<or> 8 \<le> fst (ipMaskSize (net_Mask (snd l))) \<and> shareAddress c (snd l))"
    unfolding usesNetwork_iff ignoredBroadOverlapNetwork_def using ov by force
  show ?thesis unfolding usesSubnet_def takenBy_def using assms ips nets by auto
qed

section \<open>Properties\<close>

text \<open>
  C25: The subnet filter that the allocator is given accepts a well-formed candidate exactly when the caller's
  filter does and no local interface takes it: the candidate contains no local interface address, is
  not a local interface network, and shares no address at all with a local network of prefix length 8
  or more. The interfaces are read again at each call. When they cannot be read, the caller's filter
  alone decides.
\<close>

theorem subnet_filter_exact:
  fixes p :: "('k, netAddr list) query"
  assumes "normalizeIPNet network = Some c"
    and "flt = the (dac_SubnetFilter (newDefaultAllocatorWithAddrProvider (\<lambda>cfg. cfg) config (Some p)))"
  shows "case p k of
      (Inr addrs, k') \<Rightarrow> fst (flt network k) \<longleftrightarrow> fst (callFilter (dac_SubnetFilter config) network k') \<and>
         \<not> (\<exists>l \<in> set (localNets addrs). takenBy c l)
    | (Inl err, k') \<Rightarrow> flt network k = callFilter (dac_SubnetFilter config) network k'"
  using usesSubnet_iff [OF assms(1)]
  by (auto simp: assms(2) newDefaultAllocatorWithAddrProvider_def wrapDynamicSubnetFilter_def
      currentSystemNetworks_def simp del: newSystemNetworks_eq split: prod.split sum.split)

definition sampleNet :: "byte \<Rightarrow> byte \<Rightarrow> goIPNet option" where
  "sampleNet a m = Some \<lparr>net_IP = [10, 20, a, 128], net_Mask = [0xff, 0xff, 0xff, m]\<rparr>"

definition sampleAddrs :: "(unit, netAddr list) query" where
  "sampleAddrs k = (Inr [AddrIPNet (sampleNet 30 0), AddrOther, AddrIPNet None], k)"

definition sampleAllocConfig :: "unit DefaultAllocatorConfig" where
  "sampleAllocConfig = \<lparr>dac_IPFilter = None, dac_SubnetFilter = None\<rparr>"

theorem subnet_filter_exact_witness:
  "\<not> (\<exists>l \<in> set (localNets [AddrIPNet (sampleNet 30 0), AddrOther, AddrIPNet None]).
        takenBy \<lparr>net_IP = [10, 20, 31, 128], net_Mask = [0xff, 0xff, 0xff, 0x80]\<rparr> l) \<and>
   (\<exists>l \<in> set (localNets [AddrIPNet (sampleNet 30 0), AddrOther, AddrIPNet None]).
        takenBy \<lparr>net_IP = [10, 20, 30, 128], net_Mask = [0xff, 0xff, 0xff, 0x80]\<rparr> l)"
proof -
  let ?flt = "the (dac_SubnetFilter (newDefaultAllocatorWithAddrProvider (\<lambda>cfg. cfg) sampleAllocConfig (Some sampleAddrs)))"
  have "normalizeIPNet (sampleNet 31 0x80) = Some \<lparr>net_IP = [10, 20, 31, 128], net_Mask = [0xff, 0xff, 0xff, 0x80]\<rparr>"
    by code_simp
  from subnet_filter_exact [OF this refl, where p = sampleAddrs and config = sampleAllocConfig and k = "()"]
  have free: "fst (?flt (sampleNet 31 0x80) ()) \<longleftrightarrow> \<not> (\<exists>l \<in> set (localNets [AddrIPNet (sampleNet 30 0), AddrOther, AddrIPNet None]).
      takenBy \<lparr>net_IP = [10, 20, 31, 128], net_Mask = [0xff, 0xff, 0xff, 0x80]\<rparr> l)"
    by (simp add: sampleAddrs_def callFilter_def sampleAllocConfig_def)
  have "normalizeIPNet (sampleNet 30 0x80) = Some \<lparr>net_IP = [10, 20, 30, 128], net_Mask = [0xff, 0xff, 0xff, 0x80]\<rparr>"
    by code_simp
  from subnet_filter_exact [OF this refl, where p = sampleAddrs and config = sampleAllocConfig and k = "()"]
  have used: "fst (?flt (sampleNet 30 0x80) ()) \<longleftrightarrow> \<not> (\<exists>l \<in> set (localNets [AddrIPNet (sampleNet 30 0), AddrOther, AddrIPNet None]).
      takenBy \<lparr>net_IP = [10, 20, 30, 128], net_Mask = [0xff, 0xff, 0xff, 0x80]\<rparr> l)"
    by (simp add: sampleAddrs_def callFilter_def sampleAllocConfig_def)
  have "fst (?flt (sampleNet 31 0x80) ())" "\<not> fst (?flt (sampleNet 30 0x80) ())" by code_simp+
  with free used show ?thesis by blast
qed

text \<open>
  The address filter that the allocator is given accepts an address exactly when the caller's filter does
  and no local interface has it, in whichever of the two forms of an IPv4 address either of them is
  written. When the interfaces cannot be read, the caller's filter alone decides.
\<close>

theorem ip_filter_exact:
  fixes p :: "('k, netAddr list) query"
  assumes "normalizeIP ip \<noteq> []"
    and "flt = the (dac_IPFilter (newDefaultAllocatorWithAddrProvider (\<lambda>cfg. cfg) config (Some p)))"
  shows "case p k of
      (Inr addrs, k') \<Rightarrow> fst (flt ip k) \<longleftrightarrow> fst (callFilter (dac_IPFilter config) ip k') \<and>
         normalizeIP ip \<notin> fst ` set (localNets addrs)
    | (Inl err, k') \<Rightarrow> flt ip k = callFilter (dac_IPFilter config) ip k'"
proof -
  have "usesIP (newSystemNetworks addrs) ip \<longleftrightarrow> normalizeIP ip \<in> fst ` set (localNets addrs)" for addrs
  proof -
    have "ipEqual l (normalizeIP ip) \<longleftrightarrow> l = normalizeIP ip" if "(l, n) \<in> set (localNets addrs)" for l n
      using localNets_wf(1,3) [OF that] normalizeIP_equal assms(1) by metis
    then show ?thesis using assms(1) by (force simp: usesIP_def list_ex_iff Let_def)
  qed
  then show ?thesis
    by (auto simp: assms(2) newDefaultAllocatorWithAddrProvider_def wrapDynamicIPFilter_def
        currentSystemNetworks_def simp del: newSystemNetworks_eq split: prod.split sum.split)
qed

theorem ip_filter_exact_witness:
  "[10, 20, 30, 128] \<in> fst ` set (localNets [AddrIPNet (sampleNet 30 0), AddrOther, AddrIPNet None])"
proof -
  let ?ip = "v4InV6Prefix @ [10, 20, 30, 128] :: bytes"
  let ?flt = "the (dac_IPFilter (newDefaultAllocatorWithAddrProvider (\<lambda>cfg. cfg) sampleAllocConfig (Some sampleAddrs)))"
  have n: "normalizeIP ?ip = [10, 20, 30, 128]" by code_simp
  moreover have "\<not> fst (?flt ?ip ())" by code_simp
  ultimately show ?thesis
    using ip_filter_exact [where ip = ?ip and flt = ?flt and config = sampleAllocConfig and p = sampleAddrs and k = "()"]
    by (simp add: sampleAddrs_def callFilter_def sampleAllocConfig_def)
qed

end
