(* ===== verification/Connmark.thy ===== *)
theory Connmark
  imports Prelude "HOL-Library.AList"
begin

text \<open>
  The mirror of packet marks through conntrack marks, \<open>connmark/connmark.go\<close>. The nftables connection
  is a parameter, a record of the calls the manager makes on it; its contract is the locale \<open>nft_conn\<close>:
  calls are collected and \<open>Flush\<close> commits them as one transaction or fails and commits nothing. The
  expressions of the rules have the meaning of the kernel's nf\_tables, on the two marks and the one
  register they use; a 32-bit value in native byte order is the value itself. Waiting for the mutex
  is left out.
\<close>

section \<open>Marks\<close>

record Mark =
  mk_Value :: u32
  mk_Mask :: u32

record ConnmarkConfig =
  cm_Marks :: "Mark list"

definition connMarksOverlap :: "Mark \<Rightarrow> Mark \<Rightarrow> bool" where
  "connMarksOverlap a b = (let common = mk_Mask a AND mk_Mask b in
     mk_Value a AND common = mk_Value b AND common)"

fun collectMarks :: "Mark list \<Rightarrow> Mark list \<Rightarrow> goError + Mark list" where
  "collectMarks out [] = Inr out"
| "collectMarks out (mark # rest) =
     (if mk_Mask mark = 0 then Inl (ErrorsNew ''connmark: mark mask must be non-zero'')
      else if list_ex (\<lambda>existing. existing = mark) out then collectMarks out rest
      else collectMarks (out @ [mark]) rest)"

fun anyOverlap :: "Mark list \<Rightarrow> bool" where
  "anyOverlap [] = False"
| "anyOverlap (a # rest) = (if list_ex (connMarksOverlap a) rest then True else anyOverlap rest)"

definition normalizeMarks :: "Mark list \<Rightarrow> goError + Mark list" where
  "normalizeMarks xs = (case collectMarks [] xs of Inl err \<Rightarrow> Inl err
     | Inr out \<Rightarrow> if anyOverlap out then Inl (ErrorsNew ''connmark: mark selectors overlap'') else Inr out)"

section \<open>Rules\<close>

datatype nftExpr =
    Meta_load nat | Meta_store nat
  | Ct_load nat | Ct_store nat
  | Bitwise nat nat u32 u32
  | Cmp_eq nat u32
  | Immediate nat u32

definition immediateMark :: "u32 \<Rightarrow> nftExpr" where
  "immediateMark mark = Immediate 1 mark"

definition matchMarkExprs :: "nftExpr \<Rightarrow> Mark \<Rightarrow> nftExpr list" where
  "matchMarkExprs load mark = [load, Bitwise 1 1 (mk_Mask mark) 0, Cmp_eq 1 (mk_Value mark AND mk_Mask mark)]"

definition matchMetaMarkExprs :: "Mark \<Rightarrow> nftExpr list" where
  "matchMetaMarkExprs mark = matchMarkExprs (Meta_load 1) mark"

definition matchCTMarkExprs :: "Mark \<Rightarrow> nftExpr list" where
  "matchCTMarkExprs mark = matchMarkExprs (Ct_load 1) mark"

definition setCTMarkExprs :: "u32 \<Rightarrow> nftExpr list" where
  "setCTMarkExprs mark = [immediateMark mark, Ct_store 1]"

definition setMetaMarkExprs :: "u32 \<Rightarrow> nftExpr list" where
  "setMetaMarkExprs mark = [immediateMark mark, Meta_store 1]"

definition saveMarkExprs :: "Mark \<Rightarrow> nftExpr list" where
  "saveMarkExprs mark = matchMetaMarkExprs mark @ setCTMarkExprs (mk_Value mark)"

definition restoreMarkExprs :: "Mark \<Rightarrow> nftExpr list" where
  "restoreMarkExprs mark = matchCTMarkExprs mark @ setMetaMarkExprs (mk_Value mark)"

section \<open>Tables, chains and the connection\<close>

datatype tableFamily = FamilyINet | FamilyOther nat
datatype chainHook = HookOutput | HookPrerouting
datatype chainType = TypeRoute | TypeFilter
datatype chainPolicy = PolicyAccept | PolicyDrop

record nftTable =
  tb_Name :: string
  tb_Family :: tableFamily

record nftChain =
  ch_Name :: string
  ch_Table :: nftTable
  ch_Hooknum :: chainHook
  ch_Priority :: int
  ch_Type :: chainType
  ch_Policy :: chainPolicy

record 'k nftConn =
  nc_AddTable :: "nftTable \<Rightarrow> 'k \<Rightarrow> 'k"
  nc_DelTable :: "nftTable \<Rightarrow> 'k \<Rightarrow> 'k"
  nc_AddChain :: "nftChain \<Rightarrow> 'k \<Rightarrow> 'k"
  nc_AddRule :: "nftTable \<Rightarrow> nftChain \<Rightarrow> nftExpr list \<Rightarrow> 'k \<Rightarrow> 'k"
  nc_Flush :: "'k act"
  nc_ListTablesOfFamily :: "tableFamily \<Rightarrow> ('k, nftTable list) query"

abbreviation tableName :: string where "tableName \<equiv> ''sysnet_linux_connmark''"

definition connmarkTable :: nftTable where
  "connmarkTable = \<lparr>tb_Name = tableName, tb_Family = FamilyINet\<rparr>"

text \<open>The priorities of the kernel: mangle is -150, conntrack is -200.\<close>

definition outputChain :: nftChain where
  "outputChain = \<lparr>ch_Name = ''output'', ch_Table = connmarkTable, ch_Hooknum = HookOutput,
     ch_Priority = - 150, ch_Type = TypeRoute, ch_Policy = PolicyAccept\<rparr>"

definition preroutingChain :: nftChain where
  "preroutingChain = \<lparr>ch_Name = ''prerouting'', ch_Table = connmarkTable, ch_Hooknum = HookPrerouting,
     ch_Priority = - 200 + 1, ch_Type = TypeFilter, ch_Policy = PolicyAccept\<rparr>"

section \<open>The manager\<close>

record 'k ConnmarkManager =
  mg_conn :: "'k nftConn option"
  mg_applied :: bool

definition newManagerWithConn :: "'k nftConn option \<Rightarrow> 'k ConnmarkManager" where
  "newManagerWithConn conn = \<lparr>mg_conn = conn, mg_applied = False\<rparr>"

definition rollbackLocked :: "'k ConnmarkManager \<Rightarrow> 'k \<Rightarrow> goError option \<times> 'k ConnmarkManager \<times> 'k" where
  "rollbackLocked m k = (case mg_conn m of None \<Rightarrow> (None, m\<lparr>mg_applied := False\<rparr>, k)
     | Some conn \<Rightarrow> (case nc_ListTablesOfFamily conn FamilyINet k of
         (Inl err, k) \<Rightarrow> (Some (Errorf ''connmark: list nftables tables: %w'' [] [err]), m, k)
       | (Inr tables, k) \<Rightarrow>
           let table = connmarkTable in
           if list_ex (\<lambda>t. tb_Name t = tb_Name table \<and> tb_Family t = tb_Family table) tables then
             (case nc_Flush conn (nc_DelTable conn table k) of
               (Some err, k) \<Rightarrow> (Some (Errorf ''connmark: delete nftables table: %w'' [] [err]), m, k)
             | (None, k) \<Rightarrow> (None, m\<lparr>mg_applied := False\<rparr>, k))
           else (None, m\<lparr>mg_applied := False\<rparr>, k)))"

fun addMarkRules :: "'k nftConn \<Rightarrow> Mark list \<Rightarrow> 'k \<Rightarrow> 'k" where
  "addMarkRules conn [] k = k"
| "addMarkRules conn (mark # marks) k = addMarkRules conn marks
     (nc_AddRule conn connmarkTable preroutingChain (restoreMarkExprs mark)
       (nc_AddRule conn connmarkTable outputChain (saveMarkExprs mark) k))"

definition connmarkApply :: "ConnmarkConfig \<Rightarrow> 'k ConnmarkManager \<Rightarrow> 'k \<Rightarrow> goError option \<times> 'k ConnmarkManager \<times> 'k" where
  "connmarkApply config m k = (case mg_conn m of
       None \<Rightarrow> (Some (ErrorsNew ''connmark: nftables connection is unavailable''), m, k)
     | Some conn \<Rightarrow> (case normalizeMarks (cm_Marks config) of Inl err \<Rightarrow> (Some err, m, k)
       | Inr marks \<Rightarrow> (case rollbackLocked m k of
           (Some err, m, k) \<Rightarrow> (Some err, m, k)
         | (None, m, k) \<Rightarrow>
             if marks = [] then (None, m\<lparr>mg_applied := False\<rparr>, k)
             else let k = nc_AddTable conn connmarkTable k;
                      k = nc_AddChain conn outputChain k;
                      k = nc_AddChain conn preroutingChain k;
                      k = addMarkRules conn marks k in
               (case nc_Flush conn k of
                 (Some err, k) \<Rightarrow> (case rollbackLocked m k of (e, m, k) \<Rightarrow>
                    (Some (Errorf ''connmark: apply nftables rules: %w'' [] [err]), m, k))
               | (None, k) \<Rightarrow> (None, m\<lparr>mg_applied := True\<rparr>, k)))))"

definition connmarkRollback :: "'k ConnmarkManager \<Rightarrow> 'k \<Rightarrow> goError option \<times> 'k ConnmarkManager \<times> 'k" where
  "connmarkRollback m k = rollbackLocked m k"

definition connmarkClose :: "'k ConnmarkManager \<Rightarrow> 'k ConnmarkManager" where
  "connmarkClose m = m\<lparr>mg_applied := False\<rparr>"

section \<open>What the rules do to a packet\<close>

text \<open>
  The marks of a packet and of its connection, with the register of the rule being evaluated. A
  comparison that fails ends the rule; the next rule starts again.
\<close>

record pktMarks =
  pm_meta :: u32
  pm_ct :: u32
  pm_reg :: "nat \<Rightarrow> u32"

fun runExprs :: "nftExpr list \<Rightarrow> pktMarks \<Rightarrow> pktMarks" where
  "runExprs [] p = p"
| "runExprs (Meta_load r # es) p = runExprs es (p\<lparr>pm_reg := (pm_reg p)(r := pm_meta p)\<rparr>)"
| "runExprs (Meta_store r # es) p = runExprs es (p\<lparr>pm_meta := pm_reg p r\<rparr>)"
| "runExprs (Ct_load r # es) p = runExprs es (p\<lparr>pm_reg := (pm_reg p)(r := pm_ct p)\<rparr>)"
| "runExprs (Ct_store r # es) p = runExprs es (p\<lparr>pm_ct := pm_reg p r\<rparr>)"
| "runExprs (Bitwise s d m x # es) p = runExprs es (p\<lparr>pm_reg := (pm_reg p)(d := (pm_reg p s AND m) XOR x)\<rparr>)"
| "runExprs (Cmp_eq r v # es) p = (if pm_reg p r = v then runExprs es p else p)"
| "runExprs (Immediate r v # es) p = runExprs es (p\<lparr>pm_reg := (pm_reg p)(r := v)\<rparr>)"

definition runRules :: "nftExpr list list \<Rightarrow> pktMarks \<Rightarrow> pktMarks" where
  "runRules rules p = fold runExprs rules p"

abbreviation selects :: "Mark \<Rightarrow> u32 \<Rightarrow> bool" where
  "selects s m \<equiv> m AND mk_Mask s = mk_Value s AND mk_Mask s"

lemma run_save:
  "pm_meta (runExprs (saveMarkExprs s) p) = pm_meta p"
  "pm_ct (runExprs (saveMarkExprs s) p) = (if selects s (pm_meta p) then mk_Value s else pm_ct p)"
  by (simp_all add: saveMarkExprs_def matchMetaMarkExprs_def matchMarkExprs_def setCTMarkExprs_def immediateMark_def)

lemma run_restore:
  "pm_ct (runExprs (restoreMarkExprs s) p) = pm_ct p"
  "pm_meta (runExprs (restoreMarkExprs s) p) = (if selects s (pm_ct p) then mk_Value s else pm_meta p)"
  by (simp_all add: restoreMarkExprs_def matchCTMarkExprs_def matchMarkExprs_def setMetaMarkExprs_def immediateMark_def)

lemma overlap_if_both_select: "selects a m \<Longrightarrow> selects b m \<Longrightarrow> connMarksOverlap a b"
proof -
  assume a: "selects a m" and b: "selects b m"
  have "mk_Value a AND (mk_Mask a AND mk_Mask b) = m AND (mk_Mask a AND mk_Mask b)"
    using arg_cong [OF a, of "\<lambda>w. w AND mk_Mask b"] by (simp add: and.assoc)
  moreover have "mk_Value b AND (mk_Mask b AND mk_Mask a) = m AND (mk_Mask b AND mk_Mask a)"
    using arg_cong [OF b, of "\<lambda>w. w AND mk_Mask a"] by (simp add: and.assoc)
  ultimately show ?thesis by (simp add: connMarksOverlap_def Let_def and.commute [of "mk_Mask b"])
qed

lemma overlap_witness: "connMarksOverlap a b \<Longrightarrow> \<exists>m. selects a m \<and> selects b m"
proof -
  assume ov: "connMarksOverlap a b"
  let ?m = "(mk_Value a AND mk_Mask a) OR (mk_Value b AND mk_Mask b)"
  have eq: "bit (mk_Value a) i = bit (mk_Value b) i" if "bit (mk_Mask a) i" "bit (mk_Mask b) i" for i
    using arg_cong [OF ov [unfolded connMarksOverlap_def Let_def], of "\<lambda>w. bit w i"] that
    by (simp add: bit_and_iff)
  have "selects a ?m" "selects b ?m"
    by (rule bit_word_eqI, use eq in \<open>auto simp: bit_and_iff bit_or_iff\<close>)+
  then show ?thesis by blast
qed

text \<open>Selectors no two of which select the same mark.\<close>

definition apart :: "Mark list \<Rightarrow> bool" where
  "apart marks \<longleftrightarrow> (\<forall>a \<in> set marks. \<forall>b \<in> set marks. \<forall>m. selects a m \<longrightarrow> selects b m \<longrightarrow> a = b)"

lemma find_apart:
  assumes "apart marks" and "s \<in> set marks" and "selects s m"
  shows "find (\<lambda>s. selects s m) marks = Some s"
proof -
  obtain s' where s': "find (\<lambda>s. selects s m) marks = Some s'"
    using assms(2,3) by (cases "find (\<lambda>s. selects s m) marks") (auto simp: find_None_iff)
  then have "s' \<in> set marks" "selects s' m" by (auto simp: find_Some_iff)
  then have "s' = s" using assms unfolding apart_def by blast
  with s' show ?thesis by simp
qed

lemma apart_Cons: "apart (s # marks) \<Longrightarrow> apart marks"
  by (simp add: apart_def)

text \<open>The two chains: at most one rule fires, the one whose selector the mark has.\<close>

lemma run_saves:
  assumes "apart marks"
  shows "pm_meta (runRules (map saveMarkExprs marks) p) = pm_meta p \<and>
    pm_ct (runRules (map saveMarkExprs marks) p) =
      (case find (\<lambda>s. selects s (pm_meta p)) marks of Some s \<Rightarrow> mk_Value s | None \<Rightarrow> pm_ct p)"
  using assms
proof (induction marks arbitrary: p)
  case (Cons s marks)
  note IH = Cons.IH [OF apart_Cons [OF Cons.prems], of "runExprs (saveMarkExprs s) p"]
  have "s' = s" if "selects s (pm_meta p)" "find (\<lambda>s. selects s (pm_meta p)) marks = Some s'" for s'
    using find_apart [OF Cons.prems, of s "pm_meta p"] find_apart [OF Cons.prems, of s' "pm_meta p"] that
    by (auto simp: find_Some_iff)
  then show ?case using IH by (auto simp: runRules_def run_save split: option.splits)
qed (simp add: runRules_def)

lemma run_restores:
  assumes "apart marks"
  shows "pm_ct (runRules (map restoreMarkExprs marks) p) = pm_ct p \<and>
    pm_meta (runRules (map restoreMarkExprs marks) p) =
      (case find (\<lambda>s. selects s (pm_ct p)) marks of Some s \<Rightarrow> mk_Value s | None \<Rightarrow> pm_meta p)"
  using assms
proof (induction marks arbitrary: p)
  case (Cons s marks)
  note IH = Cons.IH [OF apart_Cons [OF Cons.prems], of "runExprs (restoreMarkExprs s) p"]
  have "s' = s" if "selects s (pm_ct p)" "find (\<lambda>s. selects s (pm_ct p)) marks = Some s'" for s'
    using find_apart [OF Cons.prems, of s "pm_ct p"] find_apart [OF Cons.prems, of s' "pm_ct p"] that
    by (auto simp: find_Some_iff)
  then show ?case using IH by (auto simp: runRules_def run_restore split: option.splits)
qed (simp add: runRules_def)

section \<open>The marks a configuration gives\<close>

lemma collectMarks_Inr:
  "collectMarks out xs = Inr r \<Longrightarrow> distinct out \<Longrightarrow>
     set r = set out \<union> set xs \<and> distinct r \<and> (\<forall>x \<in> set xs. mk_Mask x \<noteq> 0)"
proof (induction xs arbitrary: out)
  case (Cons x xs)
  have x: "mk_Mask x \<noteq> 0" using Cons.prems(1) by (auto split: if_splits)
  show ?case
  proof (cases "x \<in> set out")
    case True
    then have "collectMarks out xs = Inr r" using Cons.prems(1) x by (simp add: list_ex_iff)
    from Cons.IH [OF this Cons.prems(2)] show ?thesis using True x by (simp add: insert_absorb)
  next
    case False
    then have "collectMarks (out @ [x]) xs = Inr r" using Cons.prems(1) x by (simp add: list_ex_iff)
    from Cons.IH [OF this] show ?thesis using False Cons.prems(2) x by simp
  qed
qed simp

lemma collectMarks_Inl: "(\<exists>e. collectMarks out xs = Inl e) \<longleftrightarrow> (\<exists>x \<in> set xs. mk_Mask x = 0)"
  by (induction out xs rule: collectMarks.induct) auto

lemma connMarksOverlap_iff: "connMarksOverlap a b \<longleftrightarrow> (\<exists>m. selects a m \<and> selects b m)"
  by (rule iffI, erule overlap_witness, elim exE conjE, rule overlap_if_both_select)

lemma connMarksOverlap_sym: "connMarksOverlap a b \<longleftrightarrow> connMarksOverlap b a"
  unfolding connMarksOverlap_iff by (rule iffI; elim exE conjE; intro exI conjI)

lemma anyOverlap_iff:
  "distinct xs \<Longrightarrow> anyOverlap xs \<longleftrightarrow> (\<exists>a \<in> set xs. \<exists>b \<in> set xs. a \<noteq> b \<and> connMarksOverlap a b)"
proof (induction xs)
  case (Cons x xs)
  then show ?case using connMarksOverlap_sym by (auto simp: list_ex_iff)
qed simp

lemma apart_iff: "distinct xs \<Longrightarrow> apart xs \<longleftrightarrow> \<not> anyOverlap xs"
  unfolding anyOverlap_iff apart_def connMarksOverlap_iff by (rule iffI; fast)

lemma normalizeMarks_Inr:
  assumes "normalizeMarks xs = Inr marks"
  shows "set marks = set xs \<and> distinct marks \<and> apart marks \<and> (\<forall>x \<in> set xs. mk_Mask x \<noteq> 0)"
proof -
  have c: "collectMarks [] xs = Inr marks" and n: "\<not> anyOverlap marks"
    using assms by (auto simp: normalizeMarks_def split: sum.splits if_splits)
  from collectMarks_Inr [OF c] n show ?thesis by (simp add: apart_iff)
qed

lemma normalizeMarks_Inl:
  "(\<exists>e. normalizeMarks xs = Inl e) \<longleftrightarrow> (\<exists>x \<in> set xs. mk_Mask x = 0) \<or>
     (\<exists>a \<in> set xs. \<exists>b \<in> set xs. a \<noteq> b \<and> (\<exists>m. selects a m \<and> selects b m))"
proof (cases "collectMarks [] xs")
  case (Inl e)
  then show ?thesis using collectMarks_Inl [of "[]" xs] by (auto simp: normalizeMarks_def)
next
  case (Inr r)
  have r: "set r = set xs" "distinct r" "\<forall>x \<in> set xs. mk_Mask x \<noteq> 0" using collectMarks_Inr [OF Inr] by simp_all
  have "(\<exists>e. normalizeMarks xs = Inl e) \<longleftrightarrow> anyOverlap r" using Inr by (simp add: normalizeMarks_def)
  also have "\<dots> \<longleftrightarrow> (\<exists>a \<in> set xs. \<exists>b \<in> set xs. a \<noteq> b \<and> connMarksOverlap a b)"
    using anyOverlap_iff [OF r(2)] r(1) by simp
  finally show ?thesis using r(3) unfolding connMarksOverlap_iff by (simp only: bex_simps) fast
qed

section \<open>The contract of the nftables connection\<close>

type_synonym nftChains = "(nftChain \<times> nftExpr list list) list"

datatype nftOp = OpAddTable nftTable | OpDelTable nftTable | OpAddChain nftChain
  | OpAddRule nftTable nftChain "nftExpr list"

definition appendRule :: "nftChain \<Rightarrow> nftExpr list \<Rightarrow> nftChains \<Rightarrow> nftChains" where
  "appendRule c es = map (\<lambda>(c', rules). if ch_Name c' = ch_Name c then (c', rules @ [es]) else (c', rules))"

text \<open>What the kernel does with each command of a transaction.\<close>

fun nftCommit :: "nftOp \<Rightarrow> (nftTable \<rightharpoonup> nftChains) \<Rightarrow> (nftTable \<rightharpoonup> nftChains)" where
  "nftCommit (OpAddTable t) rs = (if rs t = None then rs(t \<mapsto> []) else rs)"
| "nftCommit (OpDelTable t) rs = rs(t := None)"
| "nftCommit (OpAddChain c) rs = rs(ch_Table c := map_option (\<lambda>cs. cs @ [(c, [])]) (rs (ch_Table c)))"
| "nftCommit (OpAddRule t c es) rs = rs(t := map_option (appendRule c es) (rs t))"

text \<open>
  The calls other than \<open>Flush\<close> only collect commands. \<open>Flush\<close> commits all of them or, when it fails,
  none, and forgets them; listing shows the tables of a family.
\<close>

locale nft_conn =
  fixes conn :: "'k nftConn" and ruleset :: "'k \<Rightarrow> nftTable \<rightharpoonup> nftChains" and pending :: "'k \<Rightarrow> nftOp list"
  assumes add_table: "ruleset (nc_AddTable conn t k) = ruleset k \<and>
      pending (nc_AddTable conn t k) = pending k @ [OpAddTable t]"
    and del_table: "ruleset (nc_DelTable conn t k) = ruleset k \<and>
      pending (nc_DelTable conn t k) = pending k @ [OpDelTable t]"
    and add_chain: "ruleset (nc_AddChain conn c k) = ruleset k \<and>
      pending (nc_AddChain conn c k) = pending k @ [OpAddChain c]"
    and add_rule: "ruleset (nc_AddRule conn t c es k) = ruleset k \<and>
      pending (nc_AddRule conn t c es k) = pending k @ [OpAddRule t c es]"
    and flush_ok: "nc_Flush conn k = (None, k') \<Longrightarrow>
      ruleset k' = fold nftCommit (pending k) (ruleset k) \<and> pending k' = []"
    and flush_err: "nc_Flush conn k = (Some e, k') \<Longrightarrow> ruleset k' = ruleset k \<and> pending k' = []"
    and list_keeps: "nc_ListTablesOfFamily conn fam k = (r, k') \<Longrightarrow> ruleset k' = ruleset k \<and> pending k' = pending k"
    and list_ok: "nc_ListTablesOfFamily conn fam k = (Inr ts, k') \<Longrightarrow>
      t \<in> set ts \<longleftrightarrow> tb_Family t = fam \<and> ruleset k t \<noteq> None"
begin

lemma lists_own_table:
  assumes "nc_ListTablesOfFamily conn FamilyINet k = (Inr ts, k')"
  shows "list_ex (\<lambda>t. tb_Name t = tb_Name connmarkTable \<and> tb_Family t = tb_Family connmarkTable) ts \<longleftrightarrow>
    ruleset k connmarkTable \<noteq> None"
proof -
  have "tb_Name t = tb_Name connmarkTable \<and> tb_Family t = tb_Family connmarkTable \<longleftrightarrow> t = connmarkTable" for t :: nftTable
    by (cases t) (auto simp: connmarkTable_def)
  then show ?thesis using list_ok [OF assms, of connmarkTable] by (simp add: list_ex_iff connmarkTable_def)
qed

lemma rollback_ok:
  assumes "rollbackLocked m k = (None, m', k')" and "mg_conn m = Some conn" and "pending k = []"
  shows "ruleset k' = (ruleset k)(connmarkTable := None) \<and> pending k' = [] \<and> m' = m\<lparr>mg_applied := False\<rparr>"
proof -
  obtain ts k1 where l: "nc_ListTablesOfFamily conn FamilyINet k = (Inr ts, k1)"
    using assms(1,2) by (auto simp: rollbackLocked_def split: prod.splits sum.splits)
  note k1 = list_keeps [OF l] and own = lists_own_table [OF l]
  show ?thesis
  proof (cases "ruleset k connmarkTable = None")
    case True
    then have "(None, m\<lparr>mg_applied := False\<rparr>, k1) = (None, m', k')"
      using assms(1,2) l own by (simp add: rollbackLocked_def Let_def)
    then show ?thesis using k1 assms(3) True by auto
  next
    case False
    then obtain k2 where f: "nc_Flush conn (nc_DelTable conn connmarkTable k1) = (None, k2)"
      and "k' = k2" "m' = m\<lparr>mg_applied := False\<rparr>"
      using assms(1,2) l own by (auto simp: rollbackLocked_def Let_def split: prod.splits option.splits)
    then show ?thesis using flush_ok [OF f] del_table [of connmarkTable k1] k1 assms(3) by simp
  qed
qed

lemma rollback_err:
  assumes "rollbackLocked m k = (Some e, m', k')" and "mg_conn m = Some conn" and "pending k = []"
  shows "ruleset k' = ruleset k \<and> pending k' = [] \<and> m' = m"
proof (cases "nc_ListTablesOfFamily conn FamilyINet k")
  case (Pair r k1)
  note k1 = list_keeps [OF Pair]
  show ?thesis
  proof (cases r)
    case (Inl e)
    then show ?thesis using assms Pair k1 by (simp add: rollbackLocked_def)
  next
    case (Inr ts)
    then obtain e' where f: "nc_Flush conn (nc_DelTable conn connmarkTable k1) = (Some e', k')" and "m' = m"
      using assms(1,2) Pair by (auto simp: rollbackLocked_def Let_def split: prod.splits option.splits if_splits)
    then show ?thesis using flush_err [OF f] del_table [of connmarkTable k1] k1 assms(3) by simp
  qed
qed

lemma addMarkRules_ok:
  "ruleset (addMarkRules conn marks k) = ruleset k \<and> pending (addMarkRules conn marks k) = pending k @
     concat (map (\<lambda>s. [OpAddRule connmarkTable outputChain (saveMarkExprs s),
                       OpAddRule connmarkTable preroutingChain (restoreMarkExprs s)]) marks)"
  by (induction marks arbitrary: k) (simp_all add: add_rule)

end

lemma commit_rules:
  assumes "rs connmarkTable = Some [(outputChain, a), (preroutingChain, b)]"
  shows "fold nftCommit (concat (map (\<lambda>s. [OpAddRule connmarkTable outputChain (saveMarkExprs s),
      OpAddRule connmarkTable preroutingChain (restoreMarkExprs s)]) marks)) rs =
    rs(connmarkTable \<mapsto> [(outputChain, a @ map saveMarkExprs marks), (preroutingChain, b @ map restoreMarkExprs marks)])"
  using assms
proof (induction marks arbitrary: rs a b)
  case (Cons s marks)
  have names: "ch_Name outputChain = ''output''" "ch_Name preroutingChain = ''prerouting''"
    by (simp_all add: outputChain_def preroutingChain_def)
  show ?case using Cons.prems
    by (simp add: Cons.IH [of _ "a @ [saveMarkExprs s]" "b @ [restoreMarkExprs s]"] appendRule_def names fun_eq_iff)
qed (simp add: fun_upd_idem)

text \<open>The table of a list of marks.\<close>

definition markTable :: "Mark list \<Rightarrow> nftChains option" where
  "markTable marks = (if marks = [] then None
     else Some [(outputChain, map saveMarkExprs marks), (preroutingChain, map restoreMarkExprs marks)])"

lemma chain_tables [simp]: "ch_Table outputChain = connmarkTable" "ch_Table preroutingChain = connmarkTable"
  by (simp_all add: outputChain_def preroutingChain_def)

context nft_conn
begin

lemma transaction:
  fixes marks :: "Mark list" and k :: 'k
  assumes "k1 = addMarkRules conn marks
      (nc_AddChain conn preroutingChain (nc_AddChain conn outputChain (nc_AddTable conn connmarkTable k)))"
    and "pending k = []" and "ruleset k connmarkTable = None"
  shows "ruleset k1 = ruleset k \<and> fold nftCommit (pending k1) (ruleset k1) =
    (ruleset k)(connmarkTable \<mapsto> [(outputChain, map saveMarkExprs marks), (preroutingChain, map restoreMarkExprs marks)])"
proof -
  let ?rs = "(ruleset k)(connmarkTable \<mapsto> [(outputChain, []), (preroutingChain, [])])"
  have rs: "?rs connmarkTable = Some [(outputChain, []), (preroutingChain, [])]" by simp
  show ?thesis
    using assms(2,3) commit_rules [where rs = ?rs, OF rs]
    by (simp add: assms(1) addMarkRules_ok add_chain add_table)
qed

lemma apply_ok:
  assumes "connmarkApply config m k = (None, m', k')" and "mg_conn m = Some conn" and "pending k = []"
  shows "\<exists>marks. normalizeMarks (cm_Marks config) = Inr marks \<and>
    ruleset k' = (ruleset k)(connmarkTable := markTable marks) \<and> pending k' = [] \<and>
    m' = m\<lparr>mg_applied := marks \<noteq> []\<rparr>"
proof -
  obtain marks m1 k1 where n: "normalizeMarks (cm_Marks config) = Inr marks"
    and r: "rollbackLocked m k = (None, m1, k1)"
    using assms(1,2) by (auto simp: connmarkApply_def split: sum.splits prod.splits option.splits)
  note k1 = rollback_ok [OF r assms(2,3)]
  show ?thesis
  proof (cases "marks = []")
    case True
    then have "(None, m1\<lparr>mg_applied := False\<rparr>, k1) = (None, m', k')"
      using assms(1,2) n r by (simp add: connmarkApply_def)
    then show ?thesis using k1 n True by (auto simp: markTable_def)
  next
    case False
    let ?k = "addMarkRules conn marks
      (nc_AddChain conn preroutingChain (nc_AddChain conn outputChain (nc_AddTable conn connmarkTable k1)))"
    have f: "nc_Flush conn ?k = (None, k')" and m': "m' = m1\<lparr>mg_applied := True\<rparr>"
      using assms(1,2) n r False by (auto simp: connmarkApply_def Let_def split: prod.splits option.splits)
    have p: "pending k1 = []" "ruleset k1 connmarkTable = None" using k1 by simp_all
    have "ruleset k' = fold nftCommit (pending ?k) (ruleset ?k)" using flush_ok [OF f] by blast
    also note conjunct2 [OF transaction [OF refl p, of marks]]
    finally have "ruleset k' = (ruleset k1)(connmarkTable \<mapsto>
        [(outputChain, map saveMarkExprs marks), (preroutingChain, map restoreMarkExprs marks)])" .
    then show ?thesis using k1 n m' False flush_ok [OF f] by (simp add: markTable_def)
  qed
qed

lemma apply_err:
  assumes "connmarkApply config m k = (Some e, m', k')" and "mg_conn m = Some conn" and "pending k = []"
  shows "pending k' = [] \<and> (ruleset k' = ruleset k \<and> m' = m \<or>
    ruleset k' = (ruleset k)(connmarkTable := None) \<and> m' = m\<lparr>mg_applied := False\<rparr>)"
proof (cases "normalizeMarks (cm_Marks config)")
  case (Inl e)
  then show ?thesis using assms by (simp add: connmarkApply_def)
next
  case (Inr marks)
  obtain e1 m1 k1 where r: "rollbackLocked m k = (e1, m1, k1)" by (cases "rollbackLocked m k")
  show ?thesis
  proof (cases e1)
    case (Some e2)
    then have "m' = m1 \<and> k' = k1" using assms(1,2) Inr r by (simp add: connmarkApply_def)
    then show ?thesis using rollback_err [OF r [unfolded Some] assms(2,3)] by simp
  next
    case None
    note k1 = rollback_ok [OF r [unfolded None] assms(2,3)]
    let ?k = "addMarkRules conn marks
      (nc_AddChain conn preroutingChain (nc_AddChain conn outputChain (nc_AddTable conn connmarkTable k1)))"
    have t: "ruleset ?k = ruleset k1" using transaction [OF refl, of k1 marks] k1 by simp
    obtain e2 k2 where f: "nc_Flush conn ?k = (Some e2, k2)"
      and b: "\<exists>e3. rollbackLocked m1 k2 = (e3, m', k')"
      using assms(1,2) Inr r None
      by (auto simp: connmarkApply_def Let_def split: prod.splits option.splits if_splits)
    then obtain e3 where b: "rollbackLocked m1 k2 = (e3, m', k')" by blast
    have k2: "ruleset k2 = (ruleset k)(connmarkTable := None)" "pending k2 = []"
      using flush_err [OF f] t k1 by simp_all
    have m1: "mg_conn m1 = Some conn" using k1 assms(2) by simp
    show ?thesis
    proof (cases e3)
      case None
      then show ?thesis using rollback_ok [OF b [unfolded None] m1 k2(2)] k2 k1 by simp
    next
      case (Some e4)
      then show ?thesis using rollback_err [OF b [unfolded Some] m1 k2(2)] k2 k1 by simp
    qed
  qed
qed

end

section \<open>A connection to a kernel kept as lists\<close>

text \<open>Tables in the order they were made; each flush or listing fails when the next fault says so.\<close>

record nftSim =
  ns_tables :: "(nftTable \<times> nftChains) list"
  ns_pending :: "nftOp list"
  ns_faults :: "bool list"

definition simQueue :: "nftOp \<Rightarrow> nftSim \<Rightarrow> nftSim" where
  "simQueue x k = k\<lparr>ns_pending := ns_pending k @ [x]\<rparr>"

definition alistChange :: "nftTable \<Rightarrow> (nftChains \<Rightarrow> nftChains) \<Rightarrow> (nftTable \<times> nftChains) list \<Rightarrow> (nftTable \<times> nftChains) list" where
  "alistChange t f ts = (case map_of ts t of None \<Rightarrow> ts | Some cs \<Rightarrow> AList.update t (f cs) ts)"

fun simCommit :: "nftOp \<Rightarrow> (nftTable \<times> nftChains) list \<Rightarrow> (nftTable \<times> nftChains) list" where
  "simCommit (OpAddTable t) ts = (if map_of ts t = None then AList.update t [] ts else ts)"
| "simCommit (OpDelTable t) ts = AList.delete t ts"
| "simCommit (OpAddChain c) ts = alistChange (ch_Table c) (\<lambda>cs. cs @ [(c, [])]) ts"
| "simCommit (OpAddRule t c es) ts = alistChange t (appendRule c es) ts"

definition simFlush :: "nftSim act" where
  "simFlush k = (case ns_faults k of
       True # fs \<Rightarrow> (Some EBUSY, k\<lparr>ns_pending := [], ns_faults := fs\<rparr>)
     | fs \<Rightarrow> (None, k\<lparr>ns_tables := fold simCommit (ns_pending k) (ns_tables k), ns_pending := [], ns_faults := tl fs\<rparr>))"

definition simList :: "tableFamily \<Rightarrow> (nftSim, nftTable list) query" where
  "simList fam k = (case ns_faults k of
       True # fs \<Rightarrow> (Inl EBUSY, k\<lparr>ns_faults := fs\<rparr>)
     | fs \<Rightarrow> (Inr (filter (\<lambda>t. tb_Family t = fam) (map fst (ns_tables k))), k\<lparr>ns_faults := tl fs\<rparr>))"

definition simConn :: "nftSim nftConn" where
  "simConn = \<lparr>nc_AddTable = \<lambda>t. simQueue (OpAddTable t), nc_DelTable = \<lambda>t. simQueue (OpDelTable t),
     nc_AddChain = \<lambda>c. simQueue (OpAddChain c), nc_AddRule = \<lambda>t c es. simQueue (OpAddRule t c es),
     nc_Flush = simFlush, nc_ListTablesOfFamily = simList\<rparr>"

lemma map_of_alistChange: "map_of (alistChange t f ts) = (map_of ts)(t := map_option f (map_of ts t))"
  by (auto simp: alistChange_def update_conv' fun_upd_idem split: option.split)

lemma map_of_simCommit: "map_of (simCommit x ts) = nftCommit x (map_of ts)"
  by (cases x) (simp_all add: update_conv' delete_conv' map_of_alistChange)

lemma map_of_fold_simCommit: "map_of (fold simCommit xs ts) = fold nftCommit xs (map_of ts)"
  by (induction xs arbitrary: ts) (simp_all add: map_of_simCommit)

interpretation simConn: nft_conn simConn "\<lambda>k. map_of (ns_tables k)" ns_pending
proof
  fix k k' :: nftSim and e fam r ts t
  show "nc_Flush simConn k = (None, k') \<Longrightarrow>
      map_of (ns_tables k') = fold nftCommit (ns_pending k) (map_of (ns_tables k)) \<and> ns_pending k' = []"
    by (auto simp: simConn_def simFlush_def map_of_fold_simCommit split: list.splits bool.splits)
  show "nc_Flush simConn k = (Some e, k') \<Longrightarrow> map_of (ns_tables k') = map_of (ns_tables k) \<and> ns_pending k' = []"
    by (auto simp: simConn_def simFlush_def split: list.splits bool.splits)
  show "nc_ListTablesOfFamily simConn fam k = (r, k') \<Longrightarrow>
      map_of (ns_tables k') = map_of (ns_tables k) \<and> ns_pending k' = ns_pending k"
    by (auto simp: simConn_def simList_def split: list.splits bool.splits)
  show "nc_ListTablesOfFamily simConn fam k = (Inr ts, k') \<Longrightarrow>
      t \<in> set ts \<longleftrightarrow> tb_Family t = fam \<and> map_of (ns_tables k) t \<noteq> None"
    unfolding map_of_eq_None_iff
    by (fastforce simp: simConn_def simList_def image_iff split: list.splits bool.splits)
qed (simp_all add: simConn_def simQueue_def)

section \<open>Properties\<close>

text \<open>
  C22: A successful Apply leaves exactly the table of the configured marks, without repetitions, in place of
  whatever the package's table was (no table when there are no marks), touches no other table, and
  records whether a table is there.
\<close>

theorem connmark_apply_installs:
  assumes "nft_conn conn ruleset pending" and "mg_conn m = Some conn" and "pending k = []"
    and "connmarkApply config m k = (None, m', k')"
  shows "\<exists>marks. set marks = set (cm_Marks config) \<and> distinct marks \<and>
    ruleset k' = (ruleset k)(connmarkTable := if marks = [] then None
      else Some [(outputChain, map saveMarkExprs marks), (preroutingChain, map restoreMarkExprs marks)]) \<and>
    pending k' = [] \<and> m' = m\<lparr>mg_applied := marks \<noteq> []\<rparr>"
  using nft_conn.apply_ok [OF assms(1,4,2,3)] normalizeMarks_Inr [of "cm_Marks config"]
  by (fastforce simp: markTable_def)

definition sampleMarks :: "Mark list" where
  "sampleMarks = [\<lparr>mk_Value = 0x10, mk_Mask = 0xf0\<rparr>, \<lparr>mk_Value = 0x20, mk_Mask = 0xf0\<rparr>, \<lparr>mk_Value = 0x10, mk_Mask = 0xf0\<rparr>]"

definition sampleNft :: "bool list \<Rightarrow> nftSim" where
  "sampleNft faults = \<lparr>ns_tables = [(\<lparr>tb_Name = ''filter'', tb_Family = FamilyINet\<rparr>, []), (connmarkTable, [])],
     ns_pending = [], ns_faults = faults\<rparr>"

abbreviation sampleManager :: "nftSim ConnmarkManager" where
  "sampleManager \<equiv> newManagerWithConn (Some simConn)"

theorem connmark_apply_installs_witness:
  "\<exists>marks. set marks = set sampleMarks \<and> distinct marks \<and>
    map_of (ns_tables (snd (snd (connmarkApply \<lparr>cm_Marks = sampleMarks\<rparr> sampleManager (sampleNft []))))) connmarkTable =
      Some [(outputChain, map saveMarkExprs marks), (preroutingChain, map restoreMarkExprs marks)]"
proof -
  let ?r = "connmarkApply \<lparr>cm_Marks = sampleMarks\<rparr> sampleManager (sampleNft [])"
  have "fst ?r = None" by code_simp
  then have r: "?r = (None, fst (snd ?r), snd (snd ?r))" by (simp add: prod_eq_iff)
  have m: "mg_conn sampleManager = Some simConn" and p: "ns_pending (sampleNft []) = []"
    by (simp_all add: newManagerWithConn_def sampleNft_def)
  have "sampleMarks \<noteq> []" by (simp add: sampleMarks_def)
  with connmark_apply_installs [OF simConn.nft_conn_axioms m p r] show ?thesis
    by (auto simp del: fun_upd_apply) (metis (no_types, lifting) fun_upd_same)
qed

text \<open>
  C23: An Apply that fails never leaves half a table: either nothing changed, manager included, or the
  package's table is gone and the manager knows it; no other table changes. It fails without calling
  the kernel when a mask is zero or when two different selectors share a mark, and for no other
  configuration.
\<close>

theorem connmark_apply_atomic:
  assumes "nft_conn conn ruleset pending" and "mg_conn m = Some conn" and "pending k = []"
    and "connmarkApply config m k = (Some e, m', k')"
  shows "pending k' = [] \<and> (ruleset k' = ruleset k \<and> m' = m \<or>
      ruleset k' = (ruleset k)(connmarkTable := None) \<and> m' = m\<lparr>mg_applied := False\<rparr>) \<and>
    ((\<exists>err. normalizeMarks (cm_Marks config) = Inl err) \<longleftrightarrow>
       (\<exists>x \<in> set (cm_Marks config). mk_Mask x = 0) \<or>
       (\<exists>a \<in> set (cm_Marks config). \<exists>b \<in> set (cm_Marks config). a \<noteq> b \<and>
          (\<exists>v. v AND mk_Mask a = mk_Value a AND mk_Mask a \<and> v AND mk_Mask b = mk_Value b AND mk_Mask b)))"
  using nft_conn.apply_err [OF assms(1,4,2,3)] normalizeMarks_Inl [of "cm_Marks config"] by simp

theorem connmark_apply_atomic_witness:
  "map_of (ns_tables (snd (snd (connmarkApply \<lparr>cm_Marks = sampleMarks\<rparr> sampleManager (sampleNft [False, False, True])))))
     \<lparr>tb_Name = ''filter'', tb_Family = FamilyINet\<rparr> = Some []"
proof -
  let ?r = "connmarkApply \<lparr>cm_Marks = sampleMarks\<rparr> sampleManager (sampleNft [False, False, True])"
  have "fst ?r = Some (Errorf ''connmark: apply nftables rules: %w'' [] [EBUSY])" by code_simp
  then have r: "?r = (Some (Errorf ''connmark: apply nftables rules: %w'' [] [EBUSY]), fst (snd ?r), snd (snd ?r))"
    by (simp add: prod_eq_iff)
  have m: "mg_conn sampleManager = Some simConn" and p: "ns_pending (sampleNft [False, False, True]) = []"
    by (simp_all add: newManagerWithConn_def sampleNft_def)
  have "map_of (ns_tables (snd (snd ?r))) = map_of (ns_tables (sampleNft [False, False, True])) \<or>
    map_of (ns_tables (snd (snd ?r))) = (map_of (ns_tables (sampleNft [False, False, True])))(connmarkTable := None)"
    using connmark_apply_atomic [OF simConn.nft_conn_axioms m p r] by blast
  then show ?thesis by (auto simp: sampleNft_def connmarkTable_def)
qed

text \<open>
  C24: The rules mirror marks: an outgoing packet whose mark has a configured selector keeps its mark and
  stores the selector's value in its connection, and every packet of that connection gets this value,
  which has the selector again. A packet whose mark has no configured selector changes nothing.
\<close>

theorem connmark_mirrors:
  assumes "normalizeMarks xs = Inr marks"
  shows "(let out = runRules (map saveMarkExprs marks) p; back = runRules (map restoreMarkExprs marks) q in
    pm_meta out = pm_meta p \<and> pm_ct back = pm_ct q \<and>
    (\<forall>s \<in> set xs. pm_meta p AND mk_Mask s = mk_Value s AND mk_Mask s \<longrightarrow>
       pm_ct out = mk_Value s \<and> (pm_ct q = pm_ct out \<longrightarrow>
         pm_meta back = mk_Value s \<and> pm_meta back AND mk_Mask s = mk_Value s AND mk_Mask s)) \<and>
    ((\<forall>s \<in> set xs. pm_meta p AND mk_Mask s \<noteq> mk_Value s AND mk_Mask s) \<longrightarrow> pm_ct out = pm_ct p) \<and>
    ((\<forall>s \<in> set xs. pm_ct q AND mk_Mask s \<noteq> mk_Value s AND mk_Mask s) \<longrightarrow> pm_meta back = pm_meta q))"
proof -
  have m: "set marks = set xs" "apart marks" using normalizeMarks_Inr [OF assms] by blast+
  have fnd: "find (\<lambda>s. selects s v) marks = Some s" if "s \<in> set xs" "selects s v" for s v
    using find_apart [OF m(2), of s v] m(1) that by simp
  have none: "find (\<lambda>s. selects s v) marks = None" if "\<forall>s \<in> set xs. \<not> selects s v" for v
    using that m(1) by (simp add: find_None_iff)
  define out where "out = runRules (map saveMarkExprs marks) p"
  define reply where "reply = runRules (map restoreMarkExprs marks) q"
  have sv: "pm_meta out = pm_meta p" "pm_ct out = (case find (\<lambda>s. selects s (pm_meta p)) marks of Some s \<Rightarrow> mk_Value s | None \<Rightarrow> pm_ct p)"
    and rs: "pm_ct reply = pm_ct q" "pm_meta reply = (case find (\<lambda>s. selects s (pm_ct q)) marks of Some s \<Rightarrow> mk_Value s | None \<Rightarrow> pm_meta q)"
    using run_saves [OF m(2), of p] run_restores [OF m(2), of q] by (simp_all add: out_def reply_def)
  have "pm_ct out = mk_Value s" if "s \<in> set xs" "selects s (pm_meta p)" for s
    using sv(2) fnd [OF that] by simp
  moreover have "pm_meta reply = mk_Value s" if "s \<in> set xs" "pm_ct q = mk_Value s" for s
    using rs(2) fnd [OF that(1), of "pm_ct q"] that(2) by simp
  moreover have "(\<forall>s \<in> set xs. \<not> selects s (pm_meta p)) \<longrightarrow> pm_ct out = pm_ct p" using sv(2) none by simp
  moreover have "(\<forall>s \<in> set xs. \<not> selects s (pm_ct q)) \<longrightarrow> pm_meta reply = pm_meta q" using rs(2) none by simp
  ultimately show ?thesis unfolding Let_def out_def [symmetric] reply_def [symmetric]
    using sv(1) rs(1) by (intro conjI ballI impI) simp_all
qed

theorem connmark_mirrors_witness:
  "pm_meta (runRules (map restoreMarkExprs [\<lparr>mk_Value = 0x10, mk_Mask = 0xf0\<rparr>, \<lparr>mk_Value = 0x20, mk_Mask = 0xf0\<rparr>])
     \<lparr>pm_meta = 0, pm_ct = 0x20, pm_reg = \<lambda>_. 0\<rparr>) = 0x20"
proof -
  let ?marks = "[\<lparr>mk_Value = 0x10, mk_Mask = 0xf0\<rparr>, \<lparr>mk_Value = 0x20, mk_Mask = 0xf0\<rparr>] :: Mark list"
  let ?p = "\<lparr>pm_meta = 0x23, pm_ct = 0, pm_reg = \<lambda>_. 0\<rparr>" and ?q = "\<lparr>pm_meta = 0, pm_ct = 0x20, pm_reg = \<lambda>_. 0\<rparr>"
  have n: "normalizeMarks sampleMarks = Inr ?marks" by code_simp
  have s: "\<lparr>mk_Value = 0x20, mk_Mask = 0xf0\<rparr> \<in> set sampleMarks" by (simp add: sampleMarks_def)
  have "pm_ct (runRules (map saveMarkExprs ?marks) ?p) = 0x20" by code_simp
  moreover have "pm_meta ?p AND 0xf0 = (0x20 AND 0xf0 :: u32)" by simp
  ultimately show ?thesis
    using connmark_mirrors [OF n, of ?p ?q] bspec [OF _ s] unfolding Let_def by force
qed

end
