(* ===== verification/Go_Strings.thy ===== *)
theory Go_Strings
  imports Prelude "HOL-Library.Sublist"
begin

text \<open>
  The functions of Go's package \<open>strings\<close> that the sources call, on strings as lists of bytes:
  \<open>HasSuffix\<close>, \<open>TrimSuffix\<close>, \<open>TrimPrefix\<close>, \<open>CutPrefix\<close>, \<open>Cut\<close>, \<open>Count\<close>, \<open>Split\<close> at one byte,
  \<open>TrimSpace\<close> and \<open>Fields\<close>. The last two treat as space the six ASCII space bytes; the spaces beyond
  ASCII, which Go recognises in their UTF-8 form, are not treated as space here.
\<close>

section \<open>Prefixes and suffixes\<close>

fun hasPrefix :: "string \<Rightarrow> string \<Rightarrow> bool" where
  "hasPrefix s [] = True"
| "hasPrefix [] (p # ps) = False"
| "hasPrefix (c # s) (p # ps) = (c = p \<and> hasPrefix s ps)"

definition hasSuffix :: "string \<Rightarrow> string \<Rightarrow> bool" where
  "hasSuffix s suf = hasPrefix (rev s) (rev suf)"

definition trimPrefix :: "string \<Rightarrow> string \<Rightarrow> string" where
  "trimPrefix s p = (if hasPrefix s p then drop (length p) s else s)"

definition trimSuffix :: "string \<Rightarrow> string \<Rightarrow> string" where
  "trimSuffix s suf = (if hasSuffix s suf then take (length s - length suf) s else s)"

definition cutPrefix :: "string \<Rightarrow> string \<Rightarrow> string \<times> bool" where
  "cutPrefix s p = (if hasPrefix s p then (drop (length p) s, True) else (s, False))"

section \<open>One separator byte\<close>

definition cutByte :: "char \<Rightarrow> string \<Rightarrow> string \<times> string \<times> bool" where
  "cutByte c s = (if c \<in> set s then (takeWhile (\<lambda>d. d \<noteq> c) s, tl (dropWhile (\<lambda>d. d \<noteq> c) s), True)
     else (s, [], False))"

definition countByte :: "char \<Rightarrow> string \<Rightarrow> nat" where
  "countByte c s = length (filter (\<lambda>d. d = c) s)"

fun splitByte :: "char \<Rightarrow> string \<Rightarrow> string list" where
  "splitByte c [] = [[]]"
| "splitByte c (d # s) = (if d = c then [] # splitByte c s
     else case splitByte c s of [] \<Rightarrow> [[d]] | w # ws \<Rightarrow> (d # w) # ws)"

definition trimByte :: "char \<Rightarrow> string \<Rightarrow> string" where
  "trimByte c s = rev (dropWhile (\<lambda>d. d = c) (rev (dropWhile (\<lambda>d. d = c) s)))"

section \<open>Spaces\<close>

definition isSpace :: "char \<Rightarrow> bool" where
  "isSpace c \<longleftrightarrow> c \<in> {CHR 0x09, CHR 0x0A, CHR 0x0B, CHR 0x0C, CHR 0x0D, CHR 0x20}"

definition trimSpace :: "string \<Rightarrow> string" where
  "trimSpace s = rev (dropWhile isSpace (rev (dropWhile isSpace s)))"

function strFields :: "string \<Rightarrow> string list" where
  "strFields s = (let s = dropWhile isSpace s in
     if s = [] then [] else takeWhile (\<lambda>c. \<not> isSpace c) s # strFields (dropWhile (\<lambda>c. \<not> isSpace c) s))"
  by pat_completeness auto
termination
proof (relation "measure length", goal_cases)
  case (2 s x)
  have "length (dropWhile (\<lambda>c. \<not> isSpace c) x) < length x"
  proof (cases x)
    case (Cons c cs)
    then have "\<not> isSpace c" using 2 by (metis hd_dropWhile list.sel(1))
    then show ?thesis using Cons by (simp add: length_dropWhile_le le_imp_less_Suc)
  qed (use 2 in simp)
  also have "length x \<le> length s" using 2 by (simp add: length_dropWhile_le)
  finally show ?case by simp
qed simp

declare strFields.simps [simp del]

section \<open>Laws\<close>

lemma hasPrefix_iff: "hasPrefix s p \<longleftrightarrow> (\<exists>r. s = p @ r)"
  by (induction s p rule: hasPrefix.induct) auto

lemma hasSuffix_iff: "hasSuffix s suf \<longleftrightarrow> (\<exists>r. s = r @ suf)"
proof -
  have "(\<exists>r. rev s = rev suf @ r) \<longleftrightarrow> (\<exists>r. s = r @ suf)"
    by (metis rev_append rev_rev_ident)
  then show ?thesis by (simp add: hasSuffix_def hasPrefix_iff)
qed

lemma trimSuffix_append [simp]: "trimSuffix (r @ suf) suf = r"
  by (auto simp: trimSuffix_def hasSuffix_iff)

lemma trimSuffix_other: "\<not> hasSuffix s suf \<Longrightarrow> trimSuffix s suf = s"
  by (simp add: trimSuffix_def)

lemma trimPrefix_append [simp]: "trimPrefix (p @ r) p = r"
  by (auto simp: trimPrefix_def hasPrefix_iff)

lemma splitByte_nonempty [simp]: "splitByte c s \<noteq> []"
  by (cases s) (auto split: list.split)

lemma splitByte_append: "splitByte c (s @ c # t) = splitByte c s @ splitByte c t"
  by (induction s) (auto split: list.split)

lemma splitByte_noSep: "c \<notin> set s \<Longrightarrow> splitByte c s = [s]"
  by (induction s) auto

lemma splitByte_Cons_noSep: "c \<notin> set s \<Longrightarrow> splitByte c (s @ c # t) = s # splitByte c t"
  by (simp add: splitByte_append splitByte_noSep)

text \<open>Joining with the separator is the inverse of splitting.\<close>

fun joinByte :: "char \<Rightarrow> string list \<Rightarrow> string" where
  "joinByte c [] = []"
| "joinByte c [w] = w"
| "joinByte c (w # ws) = w @ c # joinByte c ws"

lemma joinByte_Cons: "ws \<noteq> [] \<Longrightarrow> joinByte c (w # ws) = w @ c # joinByte c ws"
  by (cases ws) simp_all

lemma join_split [simp]: "joinByte c (splitByte c s) = s"
proof (induction s)
  case (Cons d s)
  obtain w ws where "splitByte c s = w # ws" by (meson splitByte_nonempty neq_Nil_conv)
  with Cons show ?case by (cases ws) (auto simp: joinByte_Cons)
qed simp

lemma split_join: "ws \<noteq> [] \<Longrightarrow> \<forall>w \<in> set ws. c \<notin> set w \<Longrightarrow> splitByte c (joinByte c ws) = ws"
  by (induction c ws rule: joinByte.induct) (simp_all add: splitByte_noSep splitByte_Cons_noSep)

lemma splitByte_noSep_set: "w \<in> set (splitByte c s) \<Longrightarrow> c \<notin> set w"
proof (induction s arbitrary: w)
  case (Cons d s)
  then show ?case by (auto split: if_splits list.splits)
qed simp

lemma splitByte_inj: "splitByte c s = splitByte c t \<longleftrightarrow> s = t"
  by (metis join_split)

lemma joinByte_append: "xs \<noteq> [] \<Longrightarrow> ys \<noteq> [] \<Longrightarrow> joinByte c (xs @ ys) = joinByte c xs @ c # joinByte c ys"
  by (induction c xs rule: joinByte.induct) (simp_all add: joinByte_Cons)

lemma takeWhile_run:
  assumes "\<forall>c \<in> set w. P c" and "rest = [] \<or> \<not> P (hd rest)"
  shows "takeWhile P (w @ rest) = w" and "dropWhile P (w @ rest) = rest"
  using assms by (induction w; cases rest; simp)+

end
