(* ===== verification/Netip_Text.thy ===== *)
theory Netip_Text
  imports Netip Strconv Go_Strings
begin

text \<open>
  The text forms of Go's \<open>net/netip\<close> values: \<open>ParseAddr\<close>, \<open>Addr.String\<close>, \<open>ParsePrefix\<close> and
  \<open>Prefix.String\<close>. The IPv6 parser keeps the address as its 16-bit groups. Parsing is the inverse of
  printing: for every address without a zone and every valid prefix.
\<close>

section \<open>Parsing\<close>

definition parseAddrError :: "string \<Rightarrow> goError" where
  "parseAddrError msg = Errorf ''ParseAddr: %s'' [AStr msg] []"

text \<open>
  The loop of \<open>parseIPv4Fields\<close>: whether it is at the start of a field, the value and the number of
  digits of the field, the fields done.
\<close>

fun parseIPv4Fields :: "bool \<Rightarrow> int \<Rightarrow> nat \<Rightarrow> int list \<Rightarrow> string \<Rightarrow> goError + int list" where
  "parseIPv4Fields atDot val digLen fs [] =
     (if length fs < 3 then Inl (parseAddrError ''IPv4 address too short'') else Inr (fs @ [val]))"
| "parseIPv4Fields atDot val digLen fs (c # s) =
     (if is_digit c then
        (if digLen = 1 \<and> val = 0 then Inl (parseAddrError ''IPv4 field has octet with leading zero'')
         else let val = val * 10 + int (digit_val c) in
           if val > 255 then Inl (parseAddrError ''IPv4 field has value >255'')
           else parseIPv4Fields False val (digLen + 1) fs s)
      else if c = CHR ''.'' then
        (if atDot \<or> s = [] then Inl (parseAddrError ''IPv4 field must have at least one digit'')
         else if length fs = 3 then Inl (parseAddrError ''IPv4 address too long'')
         else parseIPv4Fields True 0 0 (fs @ [val]) s)
      else Inl (parseAddrError ''unexpected character''))"

definition ofFields :: "int \<Rightarrow> int list \<Rightarrow> int" where
  "ofFields base fs = foldl (\<lambda>a f. a * base + f) 0 fs"

definition parseIPv4 :: "string \<Rightarrow> goError + Addr" where
  "parseIPv4 s = (case parseIPv4Fields True 0 0 [] s of Inl e \<Rightarrow> Inl e
     | Inr fs \<Rightarrow> Inr (Addr4 (word_of_int (ofFields 256 fs))))"

definition hexVal :: "char \<Rightarrow> int option" where
  "hexVal c = (if CHR ''0'' \<le> c \<and> c \<le> CHR ''9'' then Some (int (of_char c) - 48)
     else if CHR ''a'' \<le> c \<and> c \<le> CHR ''f'' then Some (int (of_char c) - 87)
     else if CHR ''A'' \<le> c \<and> c \<le> CHR ''F'' then Some (int (of_char c) - 55)
     else None)"

text \<open>The hexadecimal number at the front: how many digits, its value, the rest.\<close>

fun hexGroup :: "nat \<Rightarrow> int \<Rightarrow> string \<Rightarrow> goError + nat \<times> int \<times> string" where
  "hexGroup off acc [] = Inr (off, acc, [])"
| "hexGroup off acc (c # s) = (case hexVal c of None \<Rightarrow> Inr (off, acc, c # s)
     | Some d \<Rightarrow> let acc = acc * 16 + d in
         if off > 3 then Inl (parseAddrError ''each group must have 4 or less digits'')
         else if acc > 65535 then Inl (parseAddrError ''IPv6 field has value >=2^16'')
         else hexGroup (off + 1) acc s)"

definition finishIPv6 :: "int list \<Rightarrow> nat option \<Rightarrow> string \<Rightarrow> goError + int list" where
  "finishIPv6 gs ellipsis s =
     (if s \<noteq> [] then Inl (parseAddrError ''trailing garbage after address'')
      else if length gs < 8 then
        (case ellipsis of None \<Rightarrow> Inl (parseAddrError ''address string too short'')
         | Some e \<Rightarrow> Inr (take e gs @ replicate (8 - length gs) 0 @ drop e gs))
      else if ellipsis \<noteq> None then Inl (parseAddrError ''the :: must expand to at least one field of zeros'')
      else Inr gs)"

function parseGroups :: "int list \<Rightarrow> nat option \<Rightarrow> string \<Rightarrow> goError + int list" where
  "parseGroups gs ellipsis s =
     (if length gs \<ge> 8 then finishIPv6 gs ellipsis s
      else case hexGroup 0 0 s of Inl e \<Rightarrow> Inl e
        | Inr (off, acc, rest) \<Rightarrow>
            if off = 0 then Inl (parseAddrError ''each colon-separated field must have at least one digit'')
            else if rest \<noteq> [] \<and> hd rest = CHR ''.'' then
              (if ellipsis = None \<and> length gs \<noteq> 6 then
                 Inl (parseAddrError ''embedded IPv4 address must replace the final 2 fields of the address'')
               else if length gs + 2 > 8 then
                 Inl (parseAddrError ''too many hex fields to fit an embedded IPv4 at the end of the address'')
               else case parseIPv4Fields True 0 0 [] s of Inl e \<Rightarrow> Inl e
                 | Inr fs \<Rightarrow> finishIPv6 (gs @ [fs ! 0 * 256 + fs ! 1, fs ! 2 * 256 + fs ! 3]) ellipsis [])
            else if rest = [] then finishIPv6 (gs @ [acc]) ellipsis []
            else if hd rest \<noteq> CHR '':'' then Inl (parseAddrError ''unexpected character, want colon'')
            else if tl rest = [] then Inl (parseAddrError ''colon must be followed by more characters'')
            else if hd (tl rest) = CHR '':'' then
              (if ellipsis \<noteq> None then Inl (parseAddrError ''multiple :: in address'')
               else if tl (tl rest) = [] then finishIPv6 (gs @ [acc]) (Some (length gs + 1)) []
               else parseGroups (gs @ [acc]) (Some (length gs + 1)) (tl (tl rest)))
            else parseGroups (gs @ [acc]) ellipsis (tl rest))"
  by pat_completeness auto
termination by (relation "measure (\<lambda>(gs, e, s). 8 - length gs)") auto

declare parseGroups.simps [simp del]

definition parseIPv6 :: "string \<Rightarrow> goError + Addr" where
  "parseIPv6 s0 =
     (case cutByte CHR ''%'' s0 of (s, zone, found) \<Rightarrow>
        if found \<and> zone = [] then Inl (parseAddrError ''zone must be a non-empty string'')
        else let lead = (length s \<ge> 2 \<and> s ! 0 = CHR '':'' \<and> s ! 1 = CHR '':'');
                 s = (if lead then drop 2 s else s)
             in if lead \<and> s = [] then Inr (Addr6 0 zone)
                else case parseGroups [] (if lead then Some 0 else None) s of Inl e \<Rightarrow> Inl e
                  | Inr gs \<Rightarrow> Inr (Addr6 (word_of_int (ofFields 65536 gs)) zone))"

fun parseAddrScan :: "string \<Rightarrow> string \<Rightarrow> goError + Addr" where
  "parseAddrScan s [] = Inl (parseAddrError ''unable to parse IP'')"
| "parseAddrScan s (c # cs) = (if c = CHR ''.'' then parseIPv4 s
     else if c = CHR '':'' then parseIPv6 s
     else if c = CHR ''%'' then Inl (parseAddrError ''missing IPv6 address'')
     else parseAddrScan s cs)"

definition parseAddr :: "string \<Rightarrow> goError + Addr" where
  "parseAddr s = parseAddrScan s s"

definition parsePrefixError :: "string \<Rightarrow> goError" where
  "parsePrefixError msg = Errorf ''netip.ParsePrefix: %s'' [AStr msg] []"

text \<open>The bytes before and after the last slash.\<close>

definition cutLastSlash :: "string \<Rightarrow> (string \<times> string) option" where
  "cutLastSlash s = (if CHR ''/'' \<in> set s
     then Some (rev (tl (dropWhile (\<lambda>c. c \<noteq> CHR ''/'') (rev s))), rev (takeWhile (\<lambda>c. c \<noteq> CHR ''/'') (rev s)))
     else None)"

text \<open>\<open>strconv.Atoi\<close> is only called on digits; lengths of 256 and more are out of range for every address.\<close>

definition parsePrefix :: "string \<Rightarrow> goError + Prefix" where
  "parsePrefix s = (case cutLastSlash s of None \<Rightarrow> Inl (parsePrefixError ''no /'')
     | Some (ipStr, bitsStr) \<Rightarrow> (case parseAddr ipStr of Inl e \<Rightarrow> Inl (Errorf ''netip.ParsePrefix: %w'' [] [e])
        | Inr ip \<Rightarrow>
            if addrIs6 ip \<and> addrZone ip \<noteq> '''' then Inl (parsePrefixError ''IPv6 zones cannot be present in a prefix'')
            else if length bitsStr > 1 \<and> (hd bitsStr < CHR ''1'' \<or> CHR ''9'' < hd bitsStr) then
              Inl (parsePrefixError ''bad bits after slash'')
            else case parseUint 8 bitsStr of
                Inl e \<Rightarrow> Inl (parsePrefixError (if e = ErrRange then ''prefix length out of range'' else ''bad bits after slash''))
              | Inr bits \<Rightarrow> if int bits > addrBitLen ip then Inl (parsePrefixError ''prefix length out of range'')
                  else Inr (prefixFrom ip (int bits))))"

section \<open>Printing\<close>

text \<open>Digits in a base, of a number that is not negative.\<close>

function formatInt :: "int \<Rightarrow> int \<Rightarrow> string" where
  "formatInt base n =
     (if base < 2 \<or> n < base then [digit_char (nat n)]
      else formatInt base (n div base) @ [digit_char (nat (n mod base))])"
  by pat_completeness auto
termination
proof (relation "measure (\<lambda>(b, n). nat n)", goal_cases)
  case (2 base n)
  then have "n div base < n" by (intro int_div_less_self) auto
  then show ?case using 2 by auto
qed simp

declare formatInt.simps [simp del]

fun groupsOf :: "int \<Rightarrow> nat \<Rightarrow> int \<Rightarrow> int list" where
  "groupsOf base 0 n = []"
| "groupsOf base (Suc k) n = groupsOf base k (n div base) @ [n mod base]"

definition string4 :: "u32 \<Rightarrow> string" where
  "string4 w = joinByte CHR ''.'' (map (formatInt 10) (groupsOf 256 4 (uint w)))"

text \<open>The first longest run of at least two zero groups, as start and end; 8 if there is none.\<close>

definition zeroRun :: "int list \<Rightarrow> nat \<Rightarrow> nat" where
  "zeroRun gs i = length (takeWhile (\<lambda>g. g = 0) (drop i gs))"

definition longestRun :: "int list \<Rightarrow> (nat \<times> nat) option" where
  "longestRun gs = foldl (\<lambda>best i. let l = zeroRun gs i in
     if l \<ge> 2 \<and> l > (case best of None \<Rightarrow> 0 | Some (a, b) \<Rightarrow> b - a) then Some (i, i + l) else best) None [0..<8]"

definition string6 :: "128 word \<Rightarrow> string" where
  "string6 w =
     (let gs = groupsOf 65536 8 (uint w); hex = map (formatInt 16) gs in
      case longestRun gs of None \<Rightarrow> joinByte CHR '':'' hex
      | Some (a, b) \<Rightarrow> joinByte CHR '':'' (take a hex) @ ''::'' @ joinByte CHR '':'' (drop b hex))"

fun addrString :: "Addr \<Rightarrow> string" where
  "addrString NoAddr = ''invalid IP''"
| "addrString (Addr4 w) = string4 w"
| "addrString (Addr6 w z) =
     (if drop_bit 32 w = 0xffff then ''::ffff:'' @ string4 (ucast w) else string6 w) @
     (if z = [] then [] else ''%'' @ z)"

definition prefixString :: "Prefix \<Rightarrow> string" where
  "prefixString p = (if prefixIsValid p then addrString (pfxAddr p) @ ''/'' @ formatInt 10 (pfxBits p) else ''invalid Prefix'')"

section \<open>Digits and groups\<close>

lemma ofFields_snoc [simp]: "ofFields base (fs @ [f]) = ofFields base fs * base + f"
  by (simp add: ofFields_def)

lemma ofFields_groupsOf: "0 < base \<Longrightarrow> 0 \<le> n \<Longrightarrow> n < base ^ k \<Longrightarrow> ofFields base (groupsOf base k n) = n"
proof (induction k arbitrary: n)
  case (Suc k)
  have "n div base < base ^ k"
  proof (rule ccontr)
    assume "\<not> n div base < base ^ k"
    then have "base ^ k * base \<le> n div base * base" using Suc.prems(1) by (simp add: mult_right_mono)
    also have "\<dots> \<le> n" using Suc.prems(1) by (metis pos_mod_sign div_mult_mod_eq le_add_same_cancel1)
    finally show False using Suc.prems(3) by (simp add: mult.commute)
  qed
  then show ?case using Suc by (simp add: pos_imp_zdiv_nonneg_iff)
qed (simp add: ofFields_def)

lemma length_groupsOf [simp]: "length (groupsOf base k n) = k"
  by (induction k arbitrary: n) simp_all

lemma groupsOf_range: "0 < base \<Longrightarrow> g \<in> set (groupsOf base k n) \<Longrightarrow> 0 \<le> g \<and> g < base"
  by (induction k arbitrary: n) auto

lemma uint_fields4: "word_of_int (ofFields 256 (groupsOf 256 4 (uint w))) = (w :: u32)"
  using ofFields_groupsOf [of 256 "uint w" 4] uint_lt2p [of w] by simp

lemma uint_fields6: "word_of_int (ofFields 65536 (groupsOf 65536 8 (uint w))) = (w :: 128 word)"
  using ofFields_groupsOf [of 65536 "uint w" 8] uint_lt2p [of w] by simp

lemma hexVal_digit: "d < 16 \<Longrightarrow> hexVal (digit_char d) = Some (int d)"
  by (auto simp: hexVal_def digit_char_def less_eq_char_def)

lemma formatInt_short:
  "0 \<le> n \<Longrightarrow> n < b \<Longrightarrow> formatInt b n = [digit_char (nat n)]"
  "2 \<le> b \<Longrightarrow> b \<le> n \<Longrightarrow> formatInt b n = formatInt b (n div b) @ [digit_char (nat (n mod b))]"
  by (simp_all add: formatInt.simps [of b n])

lemma formatInt_nonempty [simp]: "formatInt b n \<noteq> []"
  by (simp add: formatInt.simps [of b n])

lemma formatInt_digits:
  "2 \<le> b \<Longrightarrow> 0 \<le> n \<Longrightarrow> c \<in> set (formatInt b n) \<Longrightarrow> \<exists>d. int d < b \<and> c = digit_char d"
proof (induction b n rule: formatInt.induct)
  case (1 b n)
  show ?case
  proof (cases "n < b")
    case True
    then show ?thesis using 1 by (simp add: formatInt_short) (metis nat_0_le)
  next
    case False
    then consider "c \<in> set (formatInt b (n div b))" | "c = digit_char (nat (n mod b))"
      using 1 by (auto simp: formatInt_short)
    then show ?thesis
    proof cases
      case 2
      then show ?thesis using 1 by (intro exI [of _ "nat (n mod b)"]) simp
    qed (use 1 False in \<open>auto simp: pos_imp_zdiv_nonneg_iff\<close>)
  qed
qed

lemma decimal_cases:
  assumes "0 \<le> n" and "n \<le> 255"
  obtains "n < 10" "formatInt 10 n = [digit_char (nat n)]"
  | "10 \<le> n" "n < 100" "formatInt 10 n = [digit_char (nat (n div 10)), digit_char (nat (n mod 10))]"
  | "100 \<le> n" "formatInt 10 n = [digit_char (nat (n div 10 div 10)), digit_char (nat (n div 10 mod 10)), digit_char (nat (n mod 10))]"
proof -
  consider "n < 10" | "10 \<le> n" "n < 100" | "100 \<le> n" by linarith
  then show ?thesis
  proof cases
    case 1
    then show ?thesis using assms that(1) by (simp add: formatInt_short)
  next
    case 2
    moreover have "n div 10 < 10" "0 \<le> n div 10" using 2 by auto
    ultimately show ?thesis using that(2) by (simp add: formatInt_short)
  next
    case 3
    moreover have "10 \<le> n div 10" "n div 10 div 10 < 10" "0 \<le> n div 10 div 10" using 3 assms(2) by auto
    ultimately show ?thesis using that(3) by (simp add: formatInt_short)
  qed
qed

text \<open>A field of an IPv4 address is read back, whatever follows it that is not a digit.\<close>

lemma parse_digit:
  assumes "0 \<le> m" and "m < 10" and "k = 1 \<longrightarrow> v \<noteq> 0" and "v * 10 + m \<le> 255"
  shows "parseIPv4Fields b v k fs (digit_char (nat m) # s) = parseIPv4Fields False (v * 10 + m) (k + 1) fs s"
  using assms digit_char_simps [of "nat m"] by (auto simp: Let_def)

lemma parse_field:
  assumes "0 \<le> n" and "n \<le> 255"
  shows "\<exists>k. parseIPv4Fields b 0 0 fs (formatInt 10 n @ rest) = parseIPv4Fields False n k fs rest"
  using assms
proof (cases rule: decimal_cases)
  case 1
  then show ?thesis using parse_digit [of n 0 0 b fs rest] assms by auto
next
  case 2
  have "0 < n div 10" "n div 10 < 10" "n div 10 * 10 + n mod 10 = n" using 2 by auto
  then show ?thesis using 2 assms
    by (auto simp: parse_digit simp del: parseIPv4Fields.simps)
next
  case 3
  let ?a = "n div 10 div 10"
  have "0 < ?a" "?a < 10" using 3 assms by auto
  moreover have "?a * 10 + n div 10 mod 10 = n div 10" "n div 10 * 10 + n mod 10 = n" "n div 10 \<le> 255" "n div 10 \<noteq> 0"
    using assms 3 by auto
  ultimately show ?thesis using 3 assms
    by (auto simp: parse_digit simp del: parseIPv4Fields.simps)
qed

section \<open>IPv4\<close>

lemma parse_fields_end: "length fs = 3 \<Longrightarrow> parseIPv4Fields b v k fs [] = Inr (fs @ [v])"
  by simp

lemma parse_fields_dot:
  "s \<noteq> [] \<Longrightarrow> length fs < 3 \<Longrightarrow> parseIPv4Fields False v k fs (CHR ''.'' # s) = parseIPv4Fields True 0 0 (fs @ [v]) s"
  by (simp add: is_digit_def less_eq_char_def)

lemma length_4_conv: "length xs = 4 \<longleftrightarrow> (\<exists>a b c d. xs = [a, b, c, d])"
  by (auto simp: numeral_eq_Suc length_Suc_conv)

lemma parse_string4:
  assumes "length fs = 4" and "\<forall>f \<in> set fs. 0 \<le> f \<and> f \<le> 255"
  shows "parseIPv4Fields True 0 0 [] (joinByte CHR ''.'' (map (formatInt 10) fs)) = Inr fs"
proof -
  obtain a b c d where fs: "fs = [a, b, c, d]" using assms(1) by (auto simp: length_4_conv)
  have r: "0 \<le> a \<and> a \<le> 255" "0 \<le> b \<and> b \<le> 255" "0 \<le> c \<and> c \<le> 255" "0 \<le> d \<and> d \<le> 255"
    using assms(2) fs by auto
  let ?s = "\<lambda>n. formatInt 10 n" and ?dot = "CHR ''.''"
  obtain k1 where 1: "parseIPv4Fields True 0 0 [] (?s a @ ?dot # ?s b @ ?dot # ?s c @ ?dot # ?s d) =
      parseIPv4Fields False a k1 [] (?dot # ?s b @ ?dot # ?s c @ ?dot # ?s d)"
    using parse_field r(1) by blast
  obtain k2 where 2: "parseIPv4Fields True 0 0 [a] (?s b @ ?dot # ?s c @ ?dot # ?s d) =
      parseIPv4Fields False b k2 [a] (?dot # ?s c @ ?dot # ?s d)"
    using parse_field r(2) by blast
  obtain k3 where 3: "parseIPv4Fields True 0 0 [a, b] (?s c @ ?dot # ?s d) = parseIPv4Fields False c k3 [a, b] (?dot # ?s d)"
    using parse_field r(3) by blast
  obtain k4 where 4: "parseIPv4Fields True 0 0 [a, b, c] (?s d @ []) = parseIPv4Fields False d k4 [a, b, c] []"
    using parse_field r(4) by blast
  show ?thesis using 1 2 3 4
    by (simp add: fs parse_fields_dot parse_fields_end del: parseIPv4Fields.simps)
qed

lemma string4_fields: "\<forall>f \<in> set (groupsOf 256 4 n). 0 \<le> f \<and> f \<le> 255"
  using groupsOf_range [of 256 _ 4 n] by (simp add: zle_diff1_eq [symmetric])

lemma parse_string4_word:
  "parseIPv4Fields True 0 0 [] (string4 w) = Inr (groupsOf 256 4 (uint w))"
  unfolding string4_def by (rule parse_string4) (use string4_fields in auto)

lemma parseIPv4_string4: "parseIPv4 (string4 w) = Inr (Addr4 w)"
  by (simp add: parseIPv4_def parse_string4_word uint_fields4)

lemma digit_char_plain: "d < 16 \<Longrightarrow> digit_char d \<notin> {CHR ''.'', CHR '':'', CHR ''%'', CHR ''/''}"
  by (auto simp: digit_char_def dest!: arg_cong [where f = "of_char :: char \<Rightarrow> nat"])

lemma digits_plain:
  "2 \<le> b \<Longrightarrow> b \<le> 16 \<Longrightarrow> 0 \<le> n \<Longrightarrow> \<forall>c \<in> set (formatInt b n). c \<notin> {CHR ''.'', CHR '':'', CHR ''%'', CHR ''/''}"
proof
  fix c assume a: "2 \<le> b" "b \<le> 16" "0 \<le> n" "c \<in> set (formatInt b n)"
  then obtain d where "int d < b" "c = digit_char d" using formatInt_digits by blast
  with a(2) show "c \<notin> {CHR ''.'', CHR '':'', CHR ''%'', CHR ''/''}" using digit_char_plain [of d] by simp
qed

lemma parseAddrScan_skip:
  "\<forall>c \<in> set pre. c \<notin> {CHR ''.'', CHR '':'', CHR ''%''} \<Longrightarrow> parseAddrScan s (pre @ rest) = parseAddrScan s rest"
  by (induction pre) auto

lemma string4_start: "\<exists>f rest. string4 w = formatInt 10 f @ CHR ''.'' # rest \<and> 0 \<le> f \<and> f \<le> 255"
proof -
  obtain a b c d where g: "groupsOf 256 4 (uint w) = [a, b, c, d]"
    using length_4_conv [of "groupsOf 256 4 (uint w)"] length_groupsOf [of 256 4 "uint w"] by metis
  then have "0 \<le> a \<and> a \<le> 255" using string4_fields [of "uint w"] by (simp add: g)
  then show ?thesis using g by (auto simp: string4_def)
qed

lemma parseAddr_string4: "parseAddr (string4 w) = Inr (Addr4 w)"
proof -
  obtain f rest where s: "string4 w = formatInt 10 f @ CHR ''.'' # rest" and f: "0 \<le> f" using string4_start by blast
  have "\<forall>c \<in> set (formatInt 10 f). c \<notin> {CHR ''.'', CHR '':'', CHR ''%''}"
    using digits_plain [of 10 f] f by simp
  then show ?thesis
    using parseIPv4_string4 [of w] by (simp add: parseAddr_def s parseAddrScan_skip)
qed

section \<open>IPv6\<close>

lemma hexGroup_digit:
  "0 \<le> m \<Longrightarrow> m < 16 \<Longrightarrow> k \<le> 3 \<Longrightarrow> v * 16 + m \<le> 65535 \<Longrightarrow>
     hexGroup k v (digit_char (nat m) # s) = hexGroup (k + 1) (v * 16 + m) s"
  using hexVal_digit [of "nat m"] by (simp add: Let_def)

lemma hex_cases:
  assumes "0 \<le> n" and "n \<le> 65535"
  obtains "n < 16" "formatInt 16 n = [digit_char (nat n)]"
  | "16 \<le> n" "n < 256" "formatInt 16 n = [digit_char (nat (n div 16)), digit_char (nat (n mod 16))]"
  | "256 \<le> n" "n < 4096" "formatInt 16 n =
      [digit_char (nat (n div 16 div 16)), digit_char (nat (n div 16 mod 16)), digit_char (nat (n mod 16))]"
  | "4096 \<le> n" "formatInt 16 n = [digit_char (nat (n div 16 div 16 div 16)), digit_char (nat (n div 16 div 16 mod 16)),
      digit_char (nat (n div 16 mod 16)), digit_char (nat (n mod 16))]"
proof -
  consider "n < 16" | "16 \<le> n" "n < 256" | "256 \<le> n" "n < 4096" | "4096 \<le> n" by linarith
  then show ?thesis
  proof cases
    case 1
    then show ?thesis using assms that(1) by (simp add: formatInt_short)
  next
    case 2
    moreover have "n div 16 < 16" "0 \<le> n div 16" using 2 by auto
    ultimately show ?thesis using that(2) by (simp add: formatInt_short)
  next
    case 3
    moreover have "16 \<le> n div 16" "n div 16 div 16 < 16" "0 \<le> n div 16 div 16" using 3 by auto
    ultimately show ?thesis using that(3) by (simp add: formatInt_short)
  next
    case 4
    moreover have "16 \<le> n div 16" "16 \<le> n div 16 div 16" "n div 16 div 16 div 16 < 16" "0 \<le> n div 16 div 16 div 16"
      using 4 assms(2) by auto
    ultimately show ?thesis using that(4) by (simp add: formatInt_short)
  qed
qed

lemma hexGroup_rest: "rest = [] \<or> hexVal (hd rest) = None \<Longrightarrow> hexGroup k v rest = Inr (k, v, rest)"
  by (cases rest) auto

lemma hexGroup4:
  assumes "0 \<le> a" "a < 16" "0 \<le> b" "b < 16" "0 \<le> c" "c < 16" "0 \<le> d" "d < 16"
    and "rest = [] \<or> hexVal (hd rest) = None"
  shows "hexGroup 0 0 (digit_char (nat a) # digit_char (nat b) # digit_char (nat c) # digit_char (nat d) # rest) =
    Inr (4, ((a * 16 + b) * 16 + c) * 16 + d, rest)"
  using assms by (simp add: hexGroup_digit hexGroup_rest del: hexGroup.simps)

lemma parse_group:
  assumes "0 \<le> n" and "n \<le> 65535" and "rest = [] \<or> hexVal (hd rest) = None"
  shows "\<exists>k > 0. hexGroup 0 0 (formatInt 16 n @ rest) = Inr (k, n, rest)"
  using assms(1,2)
proof (cases rule: hex_cases)
  case 1
  then show ?thesis using assms by (simp add: hexGroup_digit hexGroup_rest del: hexGroup.simps)
next
  case 2
  have "n div 16 * 16 + n mod 16 = n" "0 \<le> n div 16" "n div 16 < 16" using 2 by auto
  then show ?thesis using 2 assms by (simp add: hexGroup_digit hexGroup_rest del: hexGroup.simps)
next
  case 3
  have "n div 16 div 16 * 16 + n div 16 mod 16 = n div 16" "n div 16 * 16 + n mod 16 = n" by simp_all
  moreover have "0 \<le> n div 16 div 16" "n div 16 div 16 < 16" "n div 16 \<le> 65535" using 3 by auto
  ultimately show ?thesis using 3 assms by (simp add: hexGroup_digit hexGroup_rest del: hexGroup.simps)
next
  case 4
  let ?a = "n div 16 div 16 div 16"
  have a: "0 \<le> ?a" "?a < 16" using 4 assms by auto
  have v: "((?a * 16 + n div 16 div 16 mod 16) * 16 + n div 16 mod 16) * 16 + n mod 16 = n" by simp
  have "hexGroup 0 0 (formatInt 16 n @ rest) =
      Inr (4, ((?a * 16 + n div 16 div 16 mod 16) * 16 + n div 16 mod 16) * 16 + n mod 16, rest)"
    unfolding 4(2) append_Cons append_Nil by (rule hexGroup4) (use a assms(3) in simp_all)
  then have "hexGroup 0 0 (formatInt 16 n @ rest) = Inr (4, n, rest)" unfolding v .
  then show ?thesis by (intro exI [of _ 4]) (simp only: zero_less_numeral simp_thms)
qed

text \<open>The texts of groups, and the loop of the parser on them.\<close>

abbreviation hexes :: "int list \<Rightarrow> string" where
  "hexes gs \<equiv> joinByte CHR '':'' (map (formatInt 16) gs)"

definition groups_ok :: "int list \<Rightarrow> bool" where
  "groups_ok gs \<longleftrightarrow> (\<forall>g \<in> set gs. 0 \<le> g \<and> g \<le> 65535)"

lemma colon_hexVal [simp]: "hexVal CHR '':'' = None" "hexVal CHR ''.'' = None"
  by (simp_all add: hexVal_def less_eq_char_def)

lemma hd_formatInt:
  assumes "0 \<le> n"
  shows "hd (formatInt 16 n) \<noteq> CHR '':''"
  using digits_plain [of 16 n] assms hd_in_set [OF formatInt_nonempty, of 16 n] by auto

lemma hd_hexes: "gs \<noteq> [] \<Longrightarrow> groups_ok gs \<Longrightarrow> hexes gs \<noteq> [] \<and> hd (hexes gs) \<noteq> CHR '':''"
  using hd_formatInt by (cases gs; cases "tl gs") (auto simp: groups_ok_def)

lemma parseGroups_last:
  assumes "length gs < 8" and "0 \<le> g" and "g \<le> 65535"
  shows "parseGroups gs e (formatInt 16 g) = finishIPv6 (gs @ [g]) e []"
proof -
  obtain k where "k > 0" "hexGroup 0 0 (formatInt 16 g) = Inr (k, g, [])"
    using parse_group [OF assms(2,3), of "[]"] by auto
  then show ?thesis using assms(1) by (simp add: parseGroups.simps [of gs])
qed

lemma parseGroups_more:
  assumes "length gs < 8" and "0 \<le> g" and "g \<le> 65535" and "s \<noteq> []" and "hd s \<noteq> CHR '':''"
  shows "parseGroups gs e (formatInt 16 g @ CHR '':'' # s) = parseGroups (gs @ [g]) e s"
proof -
  obtain k where "k > 0" "hexGroup 0 0 (formatInt 16 g @ CHR '':'' # s) = Inr (k, g, CHR '':'' # s)"
    using parse_group [OF assms(2,3), of "CHR '':'' # s"] by auto
  then show ?thesis using assms by (simp add: parseGroups.simps [of gs])
qed

lemma parseGroups_ellipsis:
  assumes "length gs < 8" and "0 \<le> g" and "g \<le> 65535"
  shows "parseGroups gs None (formatInt 16 g @ ''::'' @ s) =
    (if s = [] then finishIPv6 (gs @ [g]) (Some (length gs + 1)) [] else parseGroups (gs @ [g]) (Some (length gs + 1)) s)"
proof -
  obtain k where "k > 0" "hexGroup 0 0 (formatInt 16 g @ ''::'' @ s) = Inr (k, g, ''::'' @ s)"
    using parse_group [OF assms(2,3), of "''::'' @ s"] by auto
  then show ?thesis using assms by (simp add: parseGroups.simps [of gs])
qed

lemma parseGroups_hexes:
  "xs \<noteq> [] \<Longrightarrow> groups_ok xs \<Longrightarrow> length gs + length xs \<le> 8 \<Longrightarrow> parseGroups gs e (hexes xs) = finishIPv6 (gs @ xs) e []"
proof (induction xs arbitrary: gs)
  case (Cons x xs)
  have x: "0 \<le> x" "x \<le> 65535" "length gs < 8" using Cons.prems by (auto simp: groups_ok_def)
  show ?case
  proof (cases "xs = []")
    case True
    then show ?thesis using x by (simp add: parseGroups_last)
  next
    case False
    have ok: "groups_ok xs" using Cons.prems(2) by (simp add: groups_ok_def)
    have "hexes (x # xs) = formatInt 16 x @ CHR '':'' # hexes xs" using False by (simp add: joinByte_Cons)
    then show ?thesis
      using Cons.IH [OF False ok, of "gs @ [x]"] Cons.prems(3) parseGroups_more [OF x(3,1,2)] hd_hexes [OF False ok] by simp
  qed
qed simp

lemma parseGroups_compressed:
  "xs \<noteq> [] \<Longrightarrow> groups_ok xs \<Longrightarrow> groups_ok ys \<Longrightarrow> length gs + length xs + length ys < 8 \<Longrightarrow>
     parseGroups gs None (hexes xs @ ''::'' @ hexes ys) = finishIPv6 (gs @ xs @ ys) (Some (length (gs @ xs))) []"
proof (induction xs arbitrary: gs)
  case (Cons x xs)
  have x: "0 \<le> x" "x \<le> 65535" "length gs < 8" using Cons.prems by (auto simp: groups_ok_def)
  show ?case
  proof (cases "xs = []")
    case True
    show ?thesis
    proof (cases "ys = []")
      case True
      then show ?thesis using \<open>xs = []\<close> parseGroups_ellipsis [OF x(3,1,2), of "[]"] by simp
    next
      case False
      then show ?thesis
        using \<open>xs = []\<close> parseGroups_ellipsis [OF x(3,1,2), of "hexes ys"] hd_hexes [OF False Cons.prems(3)]
          parseGroups_hexes [OF False Cons.prems(3), of "gs @ [x]"] Cons.prems(4) by simp
    qed
  next
    case False
    have ok: "groups_ok xs" using Cons.prems(2) by (simp add: groups_ok_def)
    have "hexes (x # xs) = formatInt 16 x @ CHR '':'' # hexes xs" using False by (simp add: joinByte_Cons)
    moreover have "hexes xs @ ''::'' @ hexes ys \<noteq> []" "hd (hexes xs @ ''::'' @ hexes ys) \<noteq> CHR '':''"
      using hd_hexes [OF False ok] by auto
    ultimately show ?thesis
      using Cons.IH [OF False ok Cons.prems(3), of "gs @ [x]"] Cons.prems(4) parseGroups_more [OF x(3,1,2)] by simp
  qed
qed simp

lemma foldl_inv: "P s \<Longrightarrow> (\<And>s x. P s \<Longrightarrow> P (f s x)) \<Longrightarrow> P (foldl f s xs)"
  by (induction xs arbitrary: s) simp_all

lemma zeroRun_zero: "j < zeroRun gs i \<Longrightarrow> gs ! (i + j) = 0 \<and> i + j < length gs"
proof -
  assume j: "j < zeroRun gs i"
  then have "j < length (drop i gs)"
    using length_takeWhile_le [of "\<lambda>g. g = 0" "drop i gs"] by (simp add: zeroRun_def)
  moreover have "takeWhile (\<lambda>g. g = 0) (drop i gs) ! j = 0"
    using set_takeWhileD [OF nth_mem] j unfolding zeroRun_def by fastforce
  ultimately show ?thesis using j by (simp add: takeWhile_nth zeroRun_def)
qed

lemma longestRun_zeros:
  assumes "longestRun gs = Some (a, b)"
  shows "a + 2 \<le> b \<and> b \<le> length gs \<and> (\<forall>i. a \<le> i \<longrightarrow> i < b \<longrightarrow> gs ! i = 0)"
proof -
  let ?P = "\<lambda>best. \<forall>a b. best = Some (a, b) \<longrightarrow> a + 2 \<le> b \<and> b \<le> length gs \<and> (\<forall>i. a \<le> i \<longrightarrow> i < b \<longrightarrow> gs ! i = 0)"
  have run: "i + zeroRun gs i \<le> length gs \<and> (\<forall>k. i \<le> k \<longrightarrow> k < i + zeroRun gs i \<longrightarrow> gs ! k = 0)" if "2 \<le> zeroRun gs i" for i
  proof -
    have "gs ! k = 0" if "i \<le> k" "k < i + zeroRun gs i" for k
      using zeroRun_zero [of "k - i" gs i] that by simp
    moreover have "i + zeroRun gs i \<le> length gs"
      using zeroRun_zero [of "zeroRun gs i - 1" gs i] that by linarith
    ultimately show ?thesis by blast
  qed
  have "?P (longestRun gs)" unfolding longestRun_def
    by (rule foldl_inv [where P = ?P]) (use run in \<open>auto simp: Let_def\<close>)
  with assms show ?thesis by blast
qed

lemma zero_middle:
  assumes "length gs = 8" and "a + 2 \<le> b" and "b \<le> 8" and "\<forall>i. a \<le> i \<longrightarrow> i < b \<longrightarrow> gs ! i = (0::int)"
  shows "take a gs @ replicate (b - a) 0 @ drop b gs = gs"
proof -
  have "take (b - a) (drop a gs) = replicate (b - a) 0"
    using assms by (intro nth_equalityI) auto
  moreover have "gs = take a gs @ take (b - a) (drop a gs) @ drop b gs"
    using assms(2) by (metis append_take_drop_id drop_drop le_add_diff_inverse2 add_leD1)
  ultimately show ?thesis by simp
qed

lemma groups_ok_of: "groups_ok (groupsOf 65536 8 n)"
  using groupsOf_range [of 65536 _ 8 n] unfolding groups_ok_def by force

lemma groups_ok_sub: "groups_ok gs \<Longrightarrow> groups_ok (take a gs)" "groups_ok gs \<Longrightarrow> groups_ok (drop b gs)"
  by (auto simp: groups_ok_def dest: in_set_takeD in_set_dropD)

lemma lead_iff: "length s \<ge> 2 \<and> s ! 0 = c \<and> s ! 1 = c \<longleftrightarrow> (\<exists>t. s = c # c # t)"
  by (cases s; cases "tl s") auto

text \<open>What the parser makes of the text before the zone.\<close>

definition parseCore :: "string \<Rightarrow> goError + int list" where
  "parseCore s =
     (let lead = (length s \<ge> 2 \<and> s ! 0 = CHR '':'' \<and> s ! 1 = CHR '':''); s = (if lead then drop 2 s else s)
      in if lead \<and> s = [] then Inr (replicate 8 0) else parseGroups [] (if lead then Some 0 else None) s)"

lemma parseCore_string6: "parseCore (string6 w) = Inr (groupsOf 65536 8 (uint w))"
proof -
  let ?gs = "groupsOf 65536 8 (uint w)"
  have ok: "groups_ok ?gs" by (rule groups_ok_of)
  show ?thesis
  proof (cases "longestRun ?gs")
    case None
    then have s: "string6 w = hexes ?gs" by (simp add: string6_def Let_def)
    have "?gs \<noteq> []" by (metis length_groupsOf list.size(3) zero_neq_numeral)
    then have "\<not> (\<exists>t. hexes ?gs = CHR '':'' # CHR '':'' # t)" "parseGroups [] None (hexes ?gs) = Inr ?gs"
      using hd_hexes [OF _ ok] parseGroups_hexes [OF _ ok, of "[]" None] by (auto simp: finishIPv6_def)
    then show ?thesis unfolding parseCore_def lead_iff s Let_def by simp
  next
    case (Some p)
    obtain a b where p: "p = (a, b)" by force
    let ?xs = "take a ?gs" and ?ys = "drop b ?gs"
    have s: "string6 w = hexes ?xs @ ''::'' @ hexes ?ys" using Some p by (simp add: string6_def Let_def take_map drop_map)
    note z = longestRun_zeros [OF Some [unfolded p]]
    have mid: "?xs @ replicate (b - a) 0 @ ?ys = ?gs" using zero_middle [of ?gs a b] z by simp
    have oks: "groups_ok ?xs" "groups_ok ?ys" using ok by (simp_all add: groups_ok_sub)
    have len: "length ?xs = a" "length ?ys = 8 - b" "8 - (a + (8 - b)) = b - a" "a + (8 - b) < 8" using z by auto
    show ?thesis
    proof (cases "a = 0")
      case True
      show ?thesis
      proof (cases "?ys = []")
        case True
        then have "?gs = replicate 8 0" using mid \<open>a = 0\<close> z by (metis append_Nil append_Nil2 diff_zero length_groupsOf length_replicate take0)
        then show ?thesis using True \<open>a = 0\<close> by (simp add: parseCore_def s)
      next
        case False
        then have "parseGroups [] (Some 0) (hexes ?ys) = Inr ?gs"
          using parseGroups_hexes [OF False oks(2), of "[]" "Some 0"] mid \<open>a = 0\<close> len by (simp add: finishIPv6_def)
        then show ?thesis using \<open>a = 0\<close> hd_hexes [OF False oks(2)] by (simp add: parseCore_def s)
      qed
    next
      case False
      then have x0: "?xs \<noteq> []" using len(1) by (metis list.size(3))
      have "hexes ?xs @ ''::'' @ hexes ?ys \<noteq> CHR '':'' # CHR '':'' # t" for t
        using hd_hexes [OF x0 oks(1)] by (cases "hexes ?xs") auto
      moreover have "parseGroups [] None (hexes ?xs @ ''::'' @ hexes ?ys) = Inr ?gs"
        using parseGroups_compressed [OF x0 oks, of "[]"] len mid by (simp add: finishIPv6_def)
      ultimately show ?thesis unfolding parseCore_def lead_iff s Let_def by simp
    qed
  qed
qed

lemma parseIPv6_core:
  assumes "CHR ''%'' \<notin> set core" and "parseCore core = Inr gs"
  shows "parseIPv6 (core @ (if z = [] then [] else CHR ''%'' # z)) = Inr (Addr6 (word_of_int (ofFields 65536 gs)) z)"
proof -
  have cut: "cutByte CHR ''%'' (core @ (if z = [] then [] else CHR ''%'' # z)) = (core, z, z \<noteq> [])"
  proof (cases "z = []")
    case False
    have "takeWhile (\<lambda>d. d \<noteq> CHR ''%'') (core @ CHR ''%'' # z) = core" "dropWhile (\<lambda>d. d \<noteq> CHR ''%'') (core @ CHR ''%'' # z) = CHR ''%'' # z"
      using assms(1) by (auto simp: takeWhile_append dropWhile_append)
    then show ?thesis using False by (simp add: cutByte_def)
  qed (use assms(1) in \<open>simp add: cutByte_def\<close>)
  have zero: "ofFields 65536 (replicate 8 0) = 0" by (simp add: ofFields_def numeral_eq_Suc)
  let ?lead = "length core \<ge> 2 \<and> core ! 0 = CHR '':'' \<and> core ! 1 = CHR '':''"
  show ?thesis
  proof (cases "?lead \<and> drop 2 core = []")
    case True
    then have "gs = replicate 8 0" using assms(2) by (auto simp: parseCore_def)
    then show ?thesis using True zero cut by (simp add: parseIPv6_def)
  next
    case False
    then show ?thesis using assms(2) cut unfolding parseIPv6_def parseCore_def Let_def
      by (auto split: if_splits)
  qed
qed

text \<open>Texts whose first byte that is neither a digit nor a letter is a colon.\<close>

definition colonFirst :: "string \<Rightarrow> bool" where
  "colonFirst s \<longleftrightarrow> (\<exists>pre rest. s = pre @ CHR '':'' # rest \<and> (\<forall>c \<in> set pre. c \<notin> {CHR ''.'', CHR '':'', CHR ''%''}))"

lemma parseAddr_colon: "colonFirst s \<Longrightarrow> parseAddr (s @ t) = parseIPv6 (s @ t)"
proof -
  assume "colonFirst s"
  then obtain pre rest where s: "s = pre @ CHR '':'' # rest" and pre: "\<forall>c \<in> set pre. c \<notin> {CHR ''.'', CHR '':'', CHR ''%''}"
    unfolding colonFirst_def by blast
  have "parseAddrScan u (pre @ CHR '':'' # rest @ t) = parseIPv6 u" for u
    unfolding parseAddrScan_skip [OF pre] by simp
  then show ?thesis unfolding parseAddr_def s by simp
qed

lemma colonFirst_hexes: "2 \<le> length gs \<Longrightarrow> groups_ok gs \<Longrightarrow> colonFirst (hexes gs)"
proof -
  assume len: "2 \<le> length gs" and ok: "groups_ok gs"
  obtain x xs where gs: "gs = x # xs" "xs \<noteq> []" using len by (cases gs; cases "tl gs") auto
  have "0 \<le> x" using ok gs by (simp add: groups_ok_def)
  then have "\<forall>c \<in> set (formatInt 16 x). c \<notin> {CHR ''.'', CHR '':'', CHR ''%''}" using digits_plain [of 16 x] by simp
  moreover have "hexes gs = formatInt 16 x @ CHR '':'' # hexes xs" using gs by (simp add: joinByte_Cons)
  ultimately show ?thesis unfolding colonFirst_def by blast
qed

lemma colonFirst_compressed: "groups_ok xs \<Longrightarrow> colonFirst (hexes xs @ ''::'' @ t)"
proof (cases xs)
  case (Cons x xs')
  assume ok: "groups_ok xs"
  then have x: "\<forall>c \<in> set (formatInt 16 x). c \<notin> {CHR ''.'', CHR '':'', CHR ''%''}"
    using digits_plain [of 16 x] Cons by (auto simp: groups_ok_def)
  have "\<exists>r. hexes xs @ ''::'' @ t = formatInt 16 x @ CHR '':'' # r"
    using Cons by (cases "xs' = []") (auto simp: joinByte_Cons)
  then show ?thesis using x unfolding colonFirst_def by blast
next
  case Nil
  then show ?thesis unfolding colonFirst_def by (intro exI [of _ "[]"] exI [of _ "CHR '':'' # t"]) simp
qed

lemma colonFirst_string6: "colonFirst (string6 w)"
  using groups_ok_of [of "uint w"] groups_ok_sub(1) [OF groups_ok_of [of "uint w"]]
  by (auto simp: string6_def Let_def take_map drop_map colonFirst_hexes colonFirst_compressed [simplified] split: option.split)

lemma set_joinByte: "set (joinByte c ws) \<subseteq> insert c (\<Union>w \<in> set ws. set w)"
  by (induction c ws rule: joinByte.induct) auto

lemma string6_plain: "CHR ''%'' \<notin> set (string6 w)"
proof -
  have "CHR ''%'' \<notin> set (formatInt 16 g)" if "0 \<le> g" for g using digits_plain [of 16 g] that by auto
  then have "CHR ''%'' \<notin> set (hexes gs)" if "groups_ok gs" for gs
    using that set_joinByte [of "CHR '':''" "map (formatInt 16) gs"] by (auto simp: groups_ok_def)
  then show ?thesis using groups_ok_of [of "uint w"] groups_ok_sub [OF groups_ok_of [of "uint w"]]
    by (auto simp: string6_def Let_def take_map drop_map split: option.split)
qed

lemma string4_plain:
  assumes "c \<in> {CHR ''%'', CHR ''/''}"
  shows "c \<notin> set (string4 w)"
proof
  assume "c \<in> set (string4 w)"
  then have "c = CHR ''.'' \<or> (\<exists>g \<in> set (groupsOf 256 4 (uint w)). c \<in> set (formatInt 10 g))"
    using set_joinByte [of "CHR ''.''" "map (formatInt 10) (groupsOf 256 4 (uint w))"] unfolding string4_def by auto
  moreover have "c \<noteq> CHR ''.''" using assms by auto
  ultimately obtain g where "g \<in> set (groupsOf 256 4 (uint w))" "c \<in> set (formatInt 10 g)" by blast
  then have "c \<notin> {CHR ''.'', CHR '':'', CHR ''%'', CHR ''/''}"
    using digits_plain [of 10 g] string4_fields [of "uint w"] by simp
  then show False using assms by auto
qed

section \<open>IPv4 addresses inside IPv6\<close>

lemma decimal_hexGroup:
  assumes "0 \<le> n" and "n \<le> 255" and "hexVal (hd rest) = None"
  shows "\<exists>k v. 0 < k \<and> hexGroup 0 0 (formatInt 10 n @ rest) = Inr (k, v, rest)"
  using assms(1,2)
proof (cases rule: decimal_cases)
  case 1
  then show ?thesis using assms by (simp add: hexGroup_digit hexGroup_rest del: hexGroup.simps)
next
  case 2
  have "0 \<le> n div 10" "n div 10 < 10" using 2 by auto
  then have "hexGroup 0 0 (formatInt 10 n @ rest) = Inr (2, n div 10 * 16 + n mod 10, rest)"
    unfolding 2(3) append_Cons append_Nil using assms(3)
    by (simp add: hexGroup_digit hexGroup_rest del: hexGroup.simps)
  then show ?thesis by (metis zero_less_numeral)
next
  case 3
  have a: "0 \<le> n div 10 div 10" "n div 10 div 10 < 10" using 3 assms by auto
  have "hexGroup 0 0 (digit_char (nat x) # digit_char (nat y) # digit_char (nat z) # rest) = Inr (3, (x * 16 + y) * 16 + z, rest)"
    if "0 \<le> x" "x < 10" "0 \<le> y" "y < 10" "0 \<le> z" "z < 10" for x y z
    using that assms(3) by (simp add: hexGroup_digit hexGroup_rest del: hexGroup.simps)
  from this [of "n div 10 div 10" "n div 10 mod 10" "n mod 10"] a
  show ?thesis unfolding 3(2) append_Cons append_Nil
    by (intro exI [of _ 3] exI [of _ "(n div 10 div 10 * 16 + n div 10 mod 10) * 16 + n mod 10"]) simp
qed

lemma parseGroups_embedded:
  assumes "length gs + 2 \<le> 8" and "fs = groupsOf 256 4 (uint v)"
  shows "parseGroups gs (Some e) (string4 v) =
    finishIPv6 (gs @ [fs ! 0 * 256 + fs ! 1, fs ! 2 * 256 + fs ! 3]) (Some e) []"
proof -
  obtain f rest where s: "string4 v = formatInt 10 f @ CHR ''.'' # rest" and f: "0 \<le> f" "f \<le> 255"
    using string4_start by blast
  obtain k a where "0 < k" "hexGroup 0 0 (string4 v) = Inr (k, a, CHR ''.'' # rest)"
    unfolding s using decimal_hexGroup [OF f, of "CHR ''.'' # rest"] by auto
  then show ?thesis using assms by (simp add: parseGroups.simps [of gs] parse_string4_word)
qed

lemma parseCore_4in6:
  assumes "fs = groupsOf 256 4 (uint v)"
  shows "parseCore (''::ffff:'' @ string4 v) = Inr (replicate 5 0 @ [65535, fs ! 0 * 256 + fs ! 1, fs ! 2 * 256 + fs ! 3])"
proof -
  have ffff: "formatInt 16 65535 = ''ffff''" by code_simp
  obtain f rest where s: "string4 v = formatInt 10 f @ CHR ''.'' # rest" and f: "0 \<le> f" using string4_start by blast
  have "hd (formatInt 10 f) \<noteq> CHR '':''" "string4 v \<noteq> []"
    using digits_plain [of 10 f] f hd_in_set [OF formatInt_nonempty, of 10 f] s by auto
  then have h: "hd (string4 v) \<noteq> CHR '':''" "string4 v \<noteq> []" using s by (simp_all add: hd_append)
  have "parseGroups [] (Some 0) (''ffff:'' @ string4 v) = parseGroups [65535] (Some 0) (string4 v)"
    using parseGroups_more [of "[]" 65535 "string4 v" "Some 0"] h unfolding ffff by simp
  also have "\<dots> = Inr (replicate 5 0 @ [65535, fs ! 0 * 256 + fs ! 1, fs ! 2 * 256 + fs ! 3])"
    using parseGroups_embedded [of "[65535]" fs v 0] assms by (simp add: finishIPv6_def)
  finally show ?thesis by (simp add: parseCore_def)
qed

lemma fields_4in6:
  assumes "drop_bit 32 w = (0xffff :: 128 word)" and "fs = groupsOf 256 4 (uint (ucast w :: u32))"
  shows "ofFields 65536 (replicate 5 0 @ [65535, fs ! 0 * 256 + fs ! 1, fs ! 2 * 256 + fs ! 3]) = uint w"
proof -
  obtain a b c d where fs: "fs = [a, b, c, d]"
    using length_4_conv [of fs] length_groupsOf [of 256 4] assms(2) by metis
  have "ofFields 256 fs = uint (ucast w :: u32)"
    unfolding assms(2) using uint_lt2p [of "ucast w :: u32"] by (intro ofFields_groupsOf) auto
  then have low: "((a * 256 + b) * 256 + c) * 256 + d = uint w mod 2 ^ 32"
    by (simp add: fs ofFields_def unsigned_ucast_eq take_bit_eq_mod)
  have "uint (drop_bit 32 w) = uint w div 2 ^ 32" by (simp add: drop_bit_eq_div uint_div)
  then have "uint w div 2 ^ 32 = 65535" using assms(1) by simp
  then have "uint w = 65535 * 2 ^ 32 + uint w mod 2 ^ 32" by (metis div_mult_mod_eq)
  then show ?thesis using low by (simp add: fs ofFields_def numeral_eq_Suc)
qed

section \<open>Parsing is the inverse of printing\<close>

lemma parse_addrString:
  assumes "a \<noteq> NoAddr"
  shows "parseAddr (addrString a) = Inr a"
proof (cases a)
  case (Addr4 w)
  then show ?thesis by (simp add: parseAddr_string4)
next
  case (Addr6 w z)
  let ?zone = "if z = [] then [] else CHR ''%'' # z"
  show ?thesis
  proof (cases "drop_bit 32 w = 0xffff")
    case True
    let ?core = "''::ffff:'' @ string4 (ucast w)"
    have c: "colonFirst ?core" unfolding colonFirst_def by (rule exI [of _ "[]"], rule exI [of _ "tl ?core"]) simp
    have p: "CHR ''%'' \<notin> set ?core" using string4_plain [of "CHR ''%''" "ucast w"] by simp
    have "parseAddr (?core @ ?zone) = parseIPv6 (?core @ ?zone)" by (rule parseAddr_colon [OF c])
    also have "\<dots> = Inr (Addr6 (word_of_int (uint w)) z)"
      using parseIPv6_core [OF p parseCore_4in6 [OF refl], of z] unfolding fields_4in6 [OF True refl] .
    finally have "parseAddr (?core @ ?zone) = Inr (Addr6 w z)" by simp
    then show ?thesis using Addr6 True by (cases "z = []") simp_all
  next
    case False
    have "parseAddr (string6 w @ ?zone) = Inr (Addr6 w z)"
      using parseAddr_colon [OF colonFirst_string6] parseIPv6_core [OF string6_plain parseCore_string6, of w z] uint_fields6
      by simp
    then show ?thesis using Addr6 False by (cases "z = []") simp_all
  qed
qed (use assms in simp)

lemma string6_noSlash: "CHR ''/'' \<notin> set (string6 w)"
proof -
  have "CHR ''/'' \<notin> set (formatInt 16 g)" if "0 \<le> g" for g using digits_plain [of 16 g] that by auto
  then have "CHR ''/'' \<notin> set (hexes gs)" if "groups_ok gs" for gs
    using that set_joinByte [of "CHR '':''" "map (formatInt 16) gs"] by (auto simp: groups_ok_def)
  then show ?thesis using groups_ok_of [of "uint w"] groups_ok_sub [OF groups_ok_of [of "uint w"]]
    by (auto simp: string6_def Let_def take_map drop_map split: option.split)
qed

lemma cutLastSlash_append:
  assumes "CHR ''/'' \<notin> set t"
  shows "cutLastSlash (s @ ''/'' @ t) = Some (s, t)"
proof -
  have "dropWhile (\<lambda>c. c \<noteq> CHR ''/'') (rev t @ CHR ''/'' # rev s) = CHR ''/'' # rev s"
    "takeWhile (\<lambda>c. c \<noteq> CHR ''/'') (rev t @ CHR ''/'' # rev s) = rev t"
    using assms by (auto simp: takeWhile_append dropWhile_append)
  then show ?thesis by (simp add: cutLastSlash_def)
qed

lemma formatInt_nat: "0 \<le> n \<Longrightarrow> formatInt 10 n = format_nat 10 (nat n)"
proof (induction "10::int" n rule: formatInt.induct)
  case (1 n)
  show ?case
  proof (cases "n < 10")
    case True
    then show ?thesis using 1(2) by (simp add: formatInt_short format_nat.simps [of 10 "nat n"])
  next
    case False
    then have "formatInt 10 (n div 10) = format_nat 10 (nat (n div 10))" using 1 by (simp add: pos_imp_zdiv_nonneg_iff)
    then show ?thesis using False 1(2)
      by (simp add: formatInt_short format_nat.simps [of 10 "nat n"] nat_div_distrib nat_mod_distrib)
  qed
qed

lemma parse_bits:
  assumes "0 \<le> n" and "n \<le> 128"
  shows "parseUint 8 (formatInt 10 n) = Inr (nat n)"
    and "length (formatInt 10 n) > 1 \<Longrightarrow> \<not> (hd (formatInt 10 n) < CHR ''1'' \<or> CHR ''9'' < hd (formatInt 10 n))"
    and "CHR ''/'' \<notin> set (formatInt 10 n)"
proof -
  show "parseUint 8 (formatInt 10 n) = Inr (nat n)"
    using parseUint_format [of "nat n" 8] assms by (simp add: formatInt_nat)
  show "CHR ''/'' \<notin> set (formatInt 10 n)" using digits_plain [of 10 n] assms by auto
  have d: "\<not> (digit_char (nat m) < CHR ''1'' \<or> CHR ''9'' < digit_char (nat m))" if "0 < m" "m < 10" for m
    using that of_char_digit_char [of "nat m"] by (simp add: less_char_def)
  have "n \<le> 255" using assms by simp
  with assms(1) show "length (formatInt 10 n) > 1 \<Longrightarrow> \<not> (hd (formatInt 10 n) < CHR ''1'' \<or> CHR ''9'' < hd (formatInt 10 n))"
  proof (cases rule: decimal_cases)
    case 2
    then show ?thesis using d [of "n div 10"] by auto
  next
    case 3
    then show ?thesis using d [of "n div 10 div 10"] assms(2) by auto
  qed simp
qed

lemma parse_prefixString:
  assumes "prefixIsValid p" and "addrZone (pfxAddr p) = ''''"
  shows "parsePrefix (prefixString p) = Inr p"
proof -
  obtain a b where p: "p = Prefix a b" by (cases p)
  have a: "addrIsValid a" and b: "0 \<le> b" "b \<le> addrBitLen a" and z: "addrZone a = ''''"
    using assms by (simp_all add: p prefixIsValid_def)
  then have "b \<le> 128" "a \<noteq> NoAddr" by (cases a; simp)+
  note bits = parse_bits [OF b(1) this(1)] and addr = parse_addrString [OF this(2)]
  have "prefixFrom a b = p" using a b z by (cases a) (simp_all add: p prefixFrom_def)
  moreover have "prefixString p = addrString a @ ''/'' @ formatInt 10 b" using assms(1) by (simp add: prefixString_def p)
  ultimately show ?thesis
    using cutLastSlash_append [OF bits(3), of "addrString a"] addr bits(1,2) b z by (simp add: parsePrefix_def)
qed

section \<open>What the parsers give\<close>

lemma parseAddr_valid: "parseAddr s = Inr a \<Longrightarrow> addrIsValid a"
proof -
  have 4: "parseIPv4 s = Inr a \<Longrightarrow> addrIsValid a" for s a by (auto simp: parseIPv4_def split: sum.splits)
  have 6: "parseIPv6 s = Inr a \<Longrightarrow> addrIsValid a" for s a by (auto simp: parseIPv6_def Let_def split: sum.splits if_splits prod.splits)
  have "parseAddrScan s t = Inr a \<Longrightarrow> addrIsValid a" for t
    by (induction s t rule: parseAddrScan.induct) (auto split: if_splits dest: 4 6)
  then show "parseAddr s = Inr a \<Longrightarrow> addrIsValid a" by (simp add: parseAddr_def)
qed

lemma parsePrefix_valid:
  assumes "parsePrefix s = Inr p"
  shows "prefixIsValid p" and "addrZone (pfxAddr p) = ''''"
proof -
  obtain ip bits where "parseAddr (fst (the (cutLastSlash s))) = Inr ip" "p = prefixFrom ip (int bits)" "int bits \<le> addrBitLen ip"
    using assms by (auto simp: parsePrefix_def split: option.splits prod.splits sum.splits if_splits)
  then show "prefixIsValid p" "addrZone (pfxAddr p) = ''''"
    using parseAddr_valid [of _ ip] by (cases ip; force simp: prefixIsValid_def prefixFrom_def)+
qed

end
