(* ===== verification/Dnsname.thy ===== *)
theory Dnsname
  imports Go_Strings
begin

text \<open>
  DNS names, \<open>dns/dnsname/dnsname.go\<close>: fully qualified names, validation and sanitising of labels,
  suffixes. A name is a string of bytes.
\<close>

section \<open>Bytes\<close>

definition islower :: "char \<Rightarrow> bool" where
  "islower c \<longleftrightarrow> CHR ''a'' \<le> c \<and> c \<le> CHR ''z''"

definition isupper :: "char \<Rightarrow> bool" where
  "isupper c \<longleftrightarrow> CHR ''A'' \<le> c \<and> c \<le> CHR ''Z''"

definition isalpha :: "char \<Rightarrow> bool" where
  "isalpha c \<longleftrightarrow> islower c \<or> isupper c"

definition isalphanum :: "char \<Rightarrow> bool" where
  "isalphanum c \<longleftrightarrow> isalpha c \<or> CHR ''0'' \<le> c \<and> c \<le> CHR ''9''"

definition isdnschar :: "char \<Rightarrow> bool" where
  "isdnschar c \<longleftrightarrow> isalphanum c \<or> c = CHR ''-''"

definition tolower :: "char \<Rightarrow> char" where
  "tolower c = (if isupper c then char_of (of_char c + 97 - 65 :: nat) else c)"

definition separators :: "char \<Rightarrow> bool" where
  "separators c \<longleftrightarrow> c \<in> {CHR '' '', CHR ''.'', CHR ''@'', CHR ''_''}"

abbreviation dot :: char where "dot \<equiv> CHR ''.''"

section \<open>Fully qualified names\<close>

abbreviation maxLabelLength :: nat where "maxLabelLength \<equiv> 63"
abbreviation maxNameLength :: nat where "maxNameLength \<equiv> 254"

type_synonym FQDN = string

text \<open>The loop over the labels that a dot ends; \<open>label\<close> is what has been read of the current one.\<close>

fun checkLabels :: "string \<Rightarrow> string \<Rightarrow> goError option" where
  "checkLabels label [] = None"
| "checkLabels label (c # s) =
     (if c \<noteq> dot then checkLabels (label @ [c]) s
      else if length label = 0 \<or> length label > maxLabelLength then
        Some (Errorf ''%q is not a valid DNS label'' [AStr label] [])
      else checkLabels [] s)"

definition ToFQDN :: "string \<Rightarrow> goError + FQDN" where
  "ToFQDN s0 =
     (if length s0 = 0 \<or> s0 = ''.'' then Inr ''.''
      else let raw = (if hd s0 = dot then tl s0 else s0);
               s = (if last raw = dot then butlast raw else raw);
               totalLen = (if last raw = dot then length raw else length raw + 1)
           in if totalLen > maxNameLength then Inl (Errorf ''%q is too long to be a DNS name'' [AStr s] [])
              else case checkLabels [] s of Some err \<Rightarrow> Inl err
                | None \<Rightarrow> Inr (if last raw \<noteq> dot then raw @ [dot] else raw))"

definition WithTrailingDot :: "FQDN \<Rightarrow> string" where
  "WithTrailingDot f = f"

definition WithoutTrailingDot :: "FQDN \<Rightarrow> string" where
  "WithoutTrailingDot f = trimSuffix f ''.''"

definition fqdn_NumLabels :: "FQDN \<Rightarrow> nat" where
  "fqdn_NumLabels f = (if f = ''.'' then 0 else countByte dot (WithTrailingDot f))"

definition fqdn_Contains :: "FQDN \<Rightarrow> FQDN \<Rightarrow> bool" where
  "fqdn_Contains f other =
     (if f = other then True
      else let cmp = WithTrailingDot f; cmp = (if cmp \<noteq> ''.'' then ''.'' @ cmp else cmp)
           in hasSuffix (WithTrailingDot other) cmp)"

definition fqdn_Parent :: "FQDN \<Rightarrow> FQDN" where
  "fqdn_Parent f = (case cutByte dot (WithTrailingDot f) of (first, rest, ok) \<Rightarrow>
     if \<not> ok \<or> rest = '''' then '''' else rest)"

section \<open>Labels\<close>

definition ValidLabel :: "string \<Rightarrow> goError option" where
  "ValidLabel label =
     (if length label = 0 then Some (ErrorsNew ''empty DNS label'')
      else if length label > maxLabelLength then
        Some (Errorf ''%q is too long, max length is %d bytes'' [AStr label, AInt (int maxLabelLength)] [])
      else if \<not> isalphanum (hd label) then
        Some (Errorf ''%q is not a valid DNS label: must start with a letter or number'' [AStr label] [])
      else if \<not> isalphanum (last label) then
        Some (Errorf ''%q is not a valid DNS label: must end with a letter or number'' [AStr label] [])
      else if length label < 2 then None
      else case find (\<lambda>c. \<not> isdnschar c) (butlast (tl label)) of None \<Rightarrow> None
        | Some c \<Rightarrow> Some (Errorf ''%q is not a valid DNS label: contains invalid character %q'' [AStr label, AStr [c]] []))"

text \<open>
  The three loops of \<open>SanitizeLabel\<close>: the front, the back and the bytes between; the last one is told
  whether it is at the first byte.
\<close>

fun sanitizeLoop :: "bool \<Rightarrow> string \<Rightarrow> string" where
  "sanitizeLoop atStart [] = []"
| "sanitizeLoop atStart (c # s) =
     (let boundary = atStart \<or> s = [] in
      if \<not> boundary \<and> separators c then CHR ''-'' # sanitizeLoop False s
      else if isdnschar c then tolower c # sanitizeLoop False s
      else sanitizeLoop False s)"

definition SanitizeLabel :: "string \<Rightarrow> string" where
  "SanitizeLabel label =
     (let s = take maxLabelLength label;
          s = dropWhile (\<lambda>c. \<not> isalphanum c) s;
          s = rev (dropWhile (\<lambda>c. \<not> isalphanum c) (rev s))
      in sanitizeLoop True s)"

section \<open>Suffixes and host names\<close>

definition dns_HasSuffix :: "string \<Rightarrow> string \<Rightarrow> bool" where
  "dns_HasSuffix name suf =
     (let name = trimSuffix name ''.'';
          suf = trimPrefix (trimSuffix suf ''.'') ''.'';
          nameBase = trimSuffix name suf
      in length nameBase < length name \<and> hasSuffix nameBase ''.'')"

definition dns_TrimSuffix :: "string \<Rightarrow> string \<Rightarrow> string" where
  "dns_TrimSuffix name suf =
     (let name = (if dns_HasSuffix name suf then trimSuffix (trimSuffix name ''.'') (trimByte dot suf) else name)
      in trimSuffix name ''.'')"

definition TrimCommonSuffixes :: "string \<Rightarrow> string" where
  "TrimCommonSuffixes hostname =
     trimSuffix (trimSuffix (trimSuffix hostname ''.local'') ''.localdomain'') ''.lan''"

definition SanitizeHostname :: "string \<Rightarrow> string" where
  "SanitizeHostname hostname = SanitizeLabel (TrimCommonSuffixes hostname)"

definition NumLabels :: "string \<Rightarrow> nat" where
  "NumLabels hostname = (if hostname = '''' \<or> hostname = ''.'' then 0 else countByte dot hostname)"

definition FirstLabel :: "string \<Rightarrow> string" where
  "FirstLabel hostname = fst (cutByte dot hostname)"

fun firstInvalid :: "string list \<Rightarrow> goError option" where
  "firstInvalid [] = None"
| "firstInvalid (label # labels) = (case ValidLabel label of Some err \<Rightarrow> Some err | None \<Rightarrow> firstInvalid labels)"

definition ValidHostname :: "string \<Rightarrow> goError option" where
  "ValidHostname hostname = (case ToFQDN hostname of Inl err \<Rightarrow> Some err
     | Inr fqdn \<Rightarrow> firstInvalid (splitByte dot (WithoutTrailingDot fqdn)))"

section \<open>The shape of fully qualified names\<close>

lemma checkLabels_iff:
  "dot \<notin> set label \<Longrightarrow> checkLabels label s = None \<longleftrightarrow>
     (\<forall>w \<in> set (butlast (splitByte dot (label @ s))). 0 < length w \<and> length w \<le> maxLabelLength)"
proof (induction label s rule: checkLabels.induct)
  case (1 label)
  then show ?case by (simp add: splitByte_noSep)
next
  case (2 label c s)
  then show ?case by (cases "c = dot") (auto simp: splitByte_Cons_noSep)
qed

definition labels :: "FQDN \<Rightarrow> string list" where
  "labels f = splitByte dot (butlast f)"

text \<open>
  What \<open>ToFQDN\<close> returns: the root, or a name that ends with a dot and does not start with one, of at
  most 254 bytes, whose labels but the last have 1 to 63 bytes. The last label is not looked at.
\<close>

definition isFQDN :: "FQDN \<Rightarrow> bool" where
  "isFQDN f \<longleftrightarrow> f = ''.'' \<or> f \<noteq> [] \<and> last f = dot \<and> hd f \<noteq> dot \<and> length f \<le> maxNameLength \<and>
     (\<forall>w \<in> set (butlast (labels f)). 0 < length w \<and> length w \<le> maxLabelLength)"

lemma checkLabels_Nil_iff:
  "checkLabels [] s = None \<longleftrightarrow> (\<forall>w \<in> set (butlast (splitByte dot s)). 0 < length w \<and> length w \<le> maxLabelLength)"
  using checkLabels_iff [of "[]" s] by simp

lemma isFQDN_last: "isFQDN f \<Longrightarrow> f \<noteq> [] \<and> last f = dot"
  by (auto simp: isFQDN_def)

lemma ToFQDN_fixed: "isFQDN f \<Longrightarrow> ToFQDN f = Inr f"
proof (cases "f = ''.''")
  case False
  assume "isFQDN f"
  then have "f \<noteq> []" "last f = dot" "hd f \<noteq> dot" "length f \<le> maxNameLength" "checkLabels [] (butlast f) = None"
    using False unfolding isFQDN_def checkLabels_Nil_iff labels_def by blast+
  then show ?thesis using False by (simp add: ToFQDN_def)
qed (simp add: ToFQDN_def)

lemma ToFQDN_Inr:
  assumes "ToFQDN s = Inr f"
  shows "isFQDN f \<and> (s = [] \<and> f = ''.'' \<or> (\<exists>t. f = t @ ''.'' \<and> s \<in> {t, t @ ''.'', dot # t, dot # t @ ''.''}))"
proof (cases "s = [] \<or> s = ''.''")
  case True
  then show ?thesis using assms by (auto simp: ToFQDN_def isFQDN_def)
next
  case False
  define raw where "raw = (if hd s = dot then tl s else s)"
  define t where "t = (if last raw = dot then butlast raw else raw)"
  have raw: "raw \<noteq> []" using False by (auto simp: raw_def) (metis list.exhaust_sel list.sel(3))
  have "butlast raw @ [dot] = raw" if "last raw = dot" using raw that by (metis append_butlast_last_id)
  then have f: "f = t @ ''.''" using assms False raw
    by (auto simp: ToFQDN_def Let_def raw_def [symmetric] t_def split: if_splits option.splits)
  have len: "length t + 1 \<le> maxNameLength" and c: "checkLabels [] t = None"
    using assms False raw by (auto simp: ToFQDN_def Let_def raw_def [symmetric] t_def split: if_splits option.splits)
  have "isFQDN f"
  proof (cases "t = []")
    case False
    have "hd t \<noteq> dot"
    proof
      assume "hd t = dot"
      then obtain u where "t = dot # u" using False by (cases t) auto
      then show False using c by simp
    qed
    then show ?thesis using f len c False by (auto simp: isFQDN_def labels_def checkLabels_Nil_iff)
  qed (simp add: isFQDN_def f)
  moreover have "raw = t \<or> raw = t @ ''.''" using raw by (auto simp: t_def) (metis append_butlast_last_id)
  moreover have "s = raw \<or> s = dot # raw" using False by (auto simp: raw_def) (metis list.collapse)
  ultimately show ?thesis using f by auto
qed

section \<open>Containment is the suffix order of the labels\<close>

lemma suffix_labels:
  "suffix (splitByte c s) (splitByte c t) \<longleftrightarrow> s = t \<or> (\<exists>r. t = r @ c # s)"
proof
  assume "suffix (splitByte c s) (splitByte c t)"
  then obtain xs where xs: "splitByte c t = xs @ splitByte c s" by (auto simp: suffix_def)
  show "s = t \<or> (\<exists>r. t = r @ c # s)"
  proof (cases "xs = []")
    case True
    then show ?thesis using xs splitByte_inj by fastforce
  next
    case False
    then have "joinByte c (splitByte c t) = joinByte c xs @ c # joinByte c (splitByte c s)"
      unfolding xs by (simp add: joinByte_append)
    then show ?thesis by auto
  qed
qed (auto simp: splitByte_append suffix_def)

lemma Contains_iff:
  assumes "isFQDN f" and "isFQDN g"
  shows "fqdn_Contains f g \<longleftrightarrow> f = ''.'' \<or> suffix (labels f) (labels g)"
proof -
  obtain f' where f: "f = f' @ ''.''" using isFQDN_last [OF assms(1)] by (metis append_butlast_last_id)
  obtain g' where g: "g = g' @ ''.''" using isFQDN_last [OF assms(2)] by (metis append_butlast_last_id)
  have "(\<exists>r. g' @ ''.'' = r @ ''.'' @ f' @ ''.'') \<longleftrightarrow> (\<exists>r. g' = r @ dot # f')" by auto
  then show ?thesis using f g
    by (auto simp: fqdn_Contains_def Let_def WithTrailingDot_def hasSuffix_iff labels_def suffix_labels)
qed

section \<open>Sanitised labels\<close>

lemmas char_defs = isdnschar_def isalphanum_def isalpha_def islower_def isupper_def less_eq_char_def

lemma tolower_code: "isupper c \<Longrightarrow> of_char (tolower c) = (of_char c + 32 :: nat)"
  by (simp add: tolower_def isupper_def less_eq_char_def)

lemma tolower_other [simp]: "\<not> isupper c \<Longrightarrow> tolower c = c"
  by (simp add: tolower_def)

lemma tolower_not_upper [simp]: "\<not> isupper (tolower c)"
  using tolower_code [of c] by (cases "isupper c") (auto simp: char_defs)

lemma tolower_alnum [simp]: "isalphanum (tolower c) \<longleftrightarrow> isalphanum c"
  using tolower_code [of c] by (cases "isupper c") (auto simp: char_defs)

lemma tolower_dnschar [simp]: "isdnschar (tolower c) \<longleftrightarrow> isdnschar c"
proof (cases "isupper c")
  case True
  then have "isalphanum c" by (simp add: isalphanum_def isalpha_def)
  then show ?thesis by (simp add: isdnschar_def)
qed simp

lemma alnum_dnschar [simp]: "isalphanum c \<Longrightarrow> isdnschar c"
  by (simp add: isdnschar_def)

lemma hyphen [simp]: "isdnschar CHR ''-''" "\<not> isupper CHR ''-''" "\<not> isalphanum CHR ''-''"
  by (simp_all add: char_defs)

lemma dnschar_not_separator: "isdnschar c \<Longrightarrow> \<not> separators c"
  by (auto simp: separators_def char_defs)

lemma sanitizeLoop_length: "length (sanitizeLoop b s) \<le> length s"
  by (induction b s rule: sanitizeLoop.induct) (auto simp: Let_def)

lemma sanitizeLoop_chars: "c \<in> set (sanitizeLoop b s) \<Longrightarrow> isdnschar c \<and> \<not> isupper c"
  by (induction b s rule: sanitizeLoop.induct) (auto simp: Let_def split: if_splits)

lemma sanitizeLoop_last:
  "s \<noteq> [] \<Longrightarrow> isalphanum (last s) \<Longrightarrow> sanitizeLoop b s \<noteq> [] \<and> last (sanitizeLoop b s) = tolower (last s)"
  by (induction b s rule: sanitizeLoop.induct) (auto simp: Let_def split: if_splits)

lemma sanitizeLoop_hd: "s \<noteq> [] \<Longrightarrow> isalphanum (hd s) \<Longrightarrow> hd (sanitizeLoop True s) = tolower (hd s)"
  by (cases s) (simp_all add: Let_def)

lemma sanitizeLoop_same:
  "\<forall>c \<in> set s. isdnschar c \<and> \<not> isupper c \<Longrightarrow> sanitizeLoop b s = s"
  by (induction b s rule: sanitizeLoop.induct) (auto simp: Let_def dnschar_not_separator)

text \<open>The bytes between the first and the last letter or digit of the first 63.\<close>

definition trimmedLabel :: "string \<Rightarrow> string" where
  "trimmedLabel label = rev (dropWhile (\<lambda>c. \<not> isalphanum c)
     (rev (dropWhile (\<lambda>c. \<not> isalphanum c) (take maxLabelLength label))))"

lemma SanitizeLabel_eq: "SanitizeLabel label = sanitizeLoop True (trimmedLabel label)"
  by (simp add: SanitizeLabel_def trimmedLabel_def Let_def)

lemma trimmedLabel_length: "length (trimmedLabel label) \<le> maxLabelLength"
proof -
  have "length (trimmedLabel label) \<le> length (take maxLabelLength label)"
    unfolding trimmedLabel_def length_rev by (metis length_dropWhile_le length_rev le_trans)
  then show ?thesis by simp
qed

lemma trimmedLabel_last: "trimmedLabel label \<noteq> [] \<Longrightarrow> isalphanum (last (trimmedLabel label))"
  unfolding trimmedLabel_def by (metis (mono_tags, lifting) hd_dropWhile last_rev rev_is_Nil_conv)

lemma trimmedLabel_hd:
  assumes "trimmedLabel label \<noteq> []"
  shows "isalphanum (hd (trimmedLabel label))"
proof -
  let ?d = "dropWhile (\<lambda>c. \<not> isalphanum c) (take maxLabelLength label)"
  obtain suf where suf: "?d = trimmedLabel label @ suf"
    using takeWhile_dropWhile_id [of "\<lambda>c. \<not> isalphanum c" "rev ?d"] unfolding trimmedLabel_def
    by (metis rev_append rev_rev_ident)
  then have "?d \<noteq> []" "hd ?d = hd (trimmedLabel label)" using assms by auto
  then show ?thesis using hd_dropWhile [of "\<lambda>c. \<not> isalphanum c" "take maxLabelLength label"] by simp
qed

lemma ValidLabel_iff:
  "ValidLabel l = None \<longleftrightarrow> l \<noteq> [] \<and> length l \<le> maxLabelLength \<and> isalphanum (hd l) \<and> isalphanum (last l) \<and>
     (\<forall>c \<in> set l. isdnschar c)"
proof (cases "l = [] \<or> length l > maxLabelLength \<or> \<not> isalphanum (hd l) \<or> \<not> isalphanum (last l)")
  case True
  then show ?thesis by (auto simp: ValidLabel_def)
next
  case False
  show ?thesis
  proof (cases "length l < 2")
    case True
    then obtain c where "l = [c]" using False by (cases l) auto
    then show ?thesis using False by (simp add: ValidLabel_def)
  next
    case long: False
    then obtain c cs where l: "l = c # cs" and cs: "cs \<noteq> []" by (cases l) auto
    then obtain ds d where "cs = ds @ [d]" by (metis rev_exhaust)
    with l False long show ?thesis by (auto simp: ValidLabel_def find_None_iff find_Some_iff split: option.splits)
  qed
qed

lemma SanitizeLabel_valid: "SanitizeLabel label \<noteq> [] \<Longrightarrow> ValidLabel (SanitizeLabel label) = None"
proof -
  let ?t = "trimmedLabel label"
  assume "SanitizeLabel label \<noteq> []"
  then have t: "?t \<noteq> []" by (auto simp: SanitizeLabel_eq)
  note h = trimmedLabel_hd [OF t] and l = trimmedLabel_last [OF t]
  have "length (sanitizeLoop True ?t) \<le> maxLabelLength"
    using sanitizeLoop_length [of True ?t] trimmedLabel_length [of label] by linarith
  then show ?thesis
    using sanitizeLoop_hd [OF t h] sanitizeLoop_last [OF t l, of True] sanitizeLoop_chars h l
    by (simp add: ValidLabel_iff SanitizeLabel_eq)
qed

lemma SanitizeLabel_same:
  assumes "ValidLabel l = None" and "\<forall>c \<in> set l. \<not> isupper c"
  shows "SanitizeLabel l = l"
proof -
  obtain c cs where l: "l = c # cs" "isalphanum c" using assms(1) by (cases l) (auto simp: ValidLabel_iff)
  have "isalphanum (last l)" "length l \<le> maxLabelLength" using assms(1) by (auto simp: ValidLabel_iff)
  moreover obtain ds d where "l = ds @ [d]" using l(1) by (metis list.distinct(1) rev_exhaust)
  ultimately have "dropWhile (\<lambda>c. \<not> isalphanum c) (rev l) = rev l" by simp
  then have "trimmedLabel l = l" using l \<open>length l \<le> maxLabelLength\<close> by (simp add: trimmedLabel_def)
  then show ?thesis using assms by (simp add: SanitizeLabel_eq sanitizeLoop_same ValidLabel_iff)
qed

section \<open>Host names\<close>

lemma firstInvalid_None: "firstInvalid ls = None \<longleftrightarrow> (\<forall>l \<in> set ls. ValidLabel l = None)"
  by (induction ls) (auto split: option.splits)

lemma valid_no_dot: "ValidLabel l = None \<Longrightarrow> dot \<notin> set l"
  by (auto simp: ValidLabel_iff char_defs)

lemma join_valid_ends:
  assumes "ls \<noteq> []" and "\<forall>l \<in> set ls. ValidLabel l = None"
  shows "joinByte dot ls \<noteq> [] \<and> hd (joinByte dot ls) \<noteq> dot \<and> last (joinByte dot ls) \<noteq> dot"
  using assms
proof (induction dot ls rule: joinByte.induct)
  case (2 w)
  then have "w \<noteq> []" "dot \<notin> set w" using valid_no_dot by (auto simp: ValidLabel_iff)
  then show ?case using hd_in_set [of w] last_in_set [of w] by (metis joinByte.simps(2))
next
  case (3 w v vs)
  then have "w \<noteq> []" "dot \<notin> set w" using valid_no_dot by (auto simp: ValidLabel_iff)
  moreover have "hd w \<noteq> dot" using calculation hd_in_set [of w] by metis
  ultimately show ?case using 3 by auto
qed simp

lemma ToFQDN_core:
  assumes "s \<noteq> []" and "hd s \<noteq> dot" and "last s \<noteq> dot" and "length s < maxNameLength"
    and "checkLabels [] s = None" and "h \<in> {s, s @ ''.'', dot # s, dot # s @ ''.''}"
  shows "ToFQDN h = Inr (s @ ''.'')"
proof -
  have "s \<noteq> ''.''" using assms(2) by auto
  then show ?thesis using assms by (auto simp: ToFQDN_def Let_def hd_append)
qed

lemma ValidHostname_iff:
  "ValidHostname h = None \<longleftrightarrow> (\<exists>ls. ls \<noteq> [] \<and> (\<forall>l \<in> set ls. ValidLabel l = None) \<and>
     length (joinByte dot ls) < maxNameLength \<and>
     h \<in> {joinByte dot ls, joinByte dot ls @ ''.'', dot # joinByte dot ls, dot # joinByte dot ls @ ''.''})"
    (is "_ \<longleftrightarrow> (\<exists>ls. ?ok ls)")
proof
  assume "ValidHostname h = None"
  then obtain f where f: "ToFQDN h = Inr f" and v: "firstInvalid (splitByte dot (WithoutTrailingDot f)) = None"
    by (auto simp: ValidHostname_def split: sum.splits)
  from ToFQDN_Inr [OF f] have ok: "isFQDN f" by blast
  have "f \<noteq> ''.''" using v by (auto simp: WithoutTrailingDot_def trimSuffix_def hasSuffix_def ValidLabel_def)
  then obtain s where s: "f = s @ ''.''" and h: "h \<in> {s, s @ ''.'', dot # s, dot # s @ ''.''}"
    using ToFQDN_Inr [OF f] by blast
  then have ls: "firstInvalid (splitByte dot s) = None" using v by (simp add: WithoutTrailingDot_def)
  have "length s < maxNameLength" using ok s \<open>f \<noteq> ''.''\<close> by (auto simp: isFQDN_def)
  moreover note h
  ultimately have "?ok (splitByte dot s)" using ls by (simp add: firstInvalid_None)
  then show "\<exists>ls. ?ok ls" by blast
next
  assume "\<exists>ls. ?ok ls"
  then obtain ls where ls: "ls \<noteq> []" "\<forall>l \<in> set ls. ValidLabel l = None" "length (joinByte dot ls) < maxNameLength"
    "h \<in> {joinByte dot ls, joinByte dot ls @ ''.'', dot # joinByte dot ls, dot # joinByte dot ls @ ''.''}" by blast
  have split: "splitByte dot (joinByte dot ls) = ls" using ls(1,2) valid_no_dot by (intro split_join) auto
  moreover have "checkLabels [] (joinByte dot ls) = None"
    unfolding checkLabels_Nil_iff split using ls(2) by (auto simp: ValidLabel_iff dest: in_set_butlastD)
  ultimately have "ToFQDN h = Inr (joinByte dot ls @ ''.'')"
    using join_valid_ends [OF ls(1,2)] ls(3,4) by (intro ToFQDN_core) auto
  then show "ValidHostname h = None"
    using ls(2) split by (simp add: ValidHostname_def WithoutTrailingDot_def firstInvalid_None)
qed

lemma dns_HasSuffix_iff:
  "dns_HasSuffix name suf \<longleftrightarrow> (let s = trimPrefix (trimSuffix suf ''.'') ''.'' in
     s \<noteq> [] \<and> (\<exists>b. trimSuffix name ''.'' = b @ ''.'' @ s))"
proof -
  let ?s = "trimPrefix (trimSuffix suf ''.'') ''.''" and ?n = "trimSuffix name ''.''"
  have shorter: "length (trimSuffix n s) < length n \<longleftrightarrow> s \<noteq> [] \<and> hasSuffix n s" for n s
    by (auto simp: trimSuffix_def hasSuffix_iff)
  have "length (trimSuffix n s) < length n \<and> hasSuffix (trimSuffix n s) ''.'' \<longleftrightarrow> s \<noteq> [] \<and> (\<exists>b. n = b @ ''.'' @ s)" for n s
  proof
    assume a: "length (trimSuffix n s) < length n \<and> hasSuffix (trimSuffix n s) ''.''"
    then obtain r where "n = r @ s" using shorter hasSuffix_iff by blast
    with a shorter show "s \<noteq> [] \<and> (\<exists>b. n = b @ ''.'' @ s)" by (auto simp: hasSuffix_iff)
  next
    assume "s \<noteq> [] \<and> (\<exists>b. n = b @ ''.'' @ s)"
    then obtain b where b: "s \<noteq> []" "n = (b @ ''.'') @ s" by auto
    then show "length (trimSuffix n s) < length n \<and> hasSuffix (trimSuffix n s) ''.''"
      unfolding b(2) trimSuffix_append by (auto simp: hasSuffix_iff)
  qed
  then show ?thesis unfolding dns_HasSuffix_def Let_def by blast
qed

section \<open>Properties\<close>

text \<open>
  The names \<open>ToFQDN\<close> returns are exactly the strings it returns unchanged: the root, and the names of
  at most 254 bytes that end with a dot, do not start with one and whose labels but the last have 1 to
  63 bytes; the result is the input without one leading dot and with one trailing dot.
\<close>

theorem ToFQDN_canonical:
  "(\<forall>s f. ToFQDN s = Inr f \<longrightarrow> ToFQDN f = Inr f \<and>
      (s = [] \<and> f = ''.'' \<or> (\<exists>t. f = t @ ''.'' \<and> s \<in> {t, t @ ''.'', dot # t, dot # t @ ''.''}))) \<and>
   (\<forall>f. ToFQDN f = Inr f \<longleftrightarrow> f = ''.'' \<or> f \<noteq> [] \<and> last f = dot \<and> hd f \<noteq> dot \<and> length f \<le> 254 \<and>
      (\<forall>w \<in> set (butlast (splitByte dot (butlast f))). 1 \<le> length w \<and> length w \<le> 63))"
proof -
  have "isFQDN f \<longleftrightarrow> ToFQDN f = Inr f" for f using ToFQDN_fixed ToFQDN_Inr by blast
  moreover have "isFQDN f \<longleftrightarrow> f = ''.'' \<or> f \<noteq> [] \<and> last f = dot \<and> hd f \<noteq> dot \<and> length f \<le> 254 \<and>
      (\<forall>w \<in> set (butlast (splitByte dot (butlast f))). 1 \<le> length w \<and> length w \<le> 63)" for f
    by (simp add: isFQDN_def labels_def Suc_le_eq)
  ultimately show ?thesis using ToFQDN_Inr by blast
qed

theorem ToFQDN_canonical_witness: "ToFQDN ''example.com'' = Inr ''example.com.'' \<and> ToFQDN ''example.com.'' = Inr ''example.com.''"
proof -
  have "ToFQDN ''example.com'' = Inr ''example.com.''" by code_simp
  with ToFQDN_canonical show ?thesis by blast
qed

text \<open>
  Containment of fully qualified names is the suffix order on their lists of labels, with the root above
  every name: reflexive, transitive and antisymmetric, never fooled by a common ending inside a label.
\<close>

theorem Contains_suffix_order:
  assumes "ToFQDN a = Inr f" and "ToFQDN b = Inr g"
  shows "(fqdn_Contains f g \<longleftrightarrow> f = ''.'' \<or> suffix (splitByte dot (butlast f)) (splitByte dot (butlast g))) \<and>
    fqdn_Contains f f \<and> (fqdn_Contains f g \<and> fqdn_Contains g f \<longrightarrow> f = g) \<and>
    (\<forall>c h. ToFQDN c = Inr h \<and> fqdn_Contains f g \<and> fqdn_Contains g h \<longrightarrow> fqdn_Contains f h)"
proof -
  have f: "isFQDN f" and g: "isFQDN g" using assms ToFQDN_Inr by blast+
  have root: "f = ''.''" if "isFQDN f" "suffix (labels f) (labels ''.'')" for f
  proof -
    have "labels f = [[]]" using that(2) by (simp add: labels_def suffix_Cons)
    then have "butlast f = []" unfolding labels_def by (metis splitByte.simps(1) splitByte_inj)
    then show ?thesis using isFQDN_last [OF that(1)] by (metis append_butlast_last_id append_Nil)
  qed
  have anti: "f = g" if "suffix (labels f) (labels g)" "suffix (labels g) (labels f)"
  proof -
    have "butlast f = butlast g"
      using suffix_order.antisym [OF that] splitByte_inj unfolding labels_def by blast
    then show ?thesis using isFQDN_last [OF f] isFQDN_last [OF g] by (metis append_butlast_last_id)
  qed
  have "fqdn_Contains f h" if "ToFQDN c = Inr h" "fqdn_Contains f g" "fqdn_Contains g h" for c h
  proof -
    have h: "isFQDN h" using that(1) ToFQDN_Inr by blast
    then show ?thesis using that(2,3) root [OF f] unfolding Contains_iff [OF f g] Contains_iff [OF g h] Contains_iff [OF f h]
      by (metis suffix_order.trans)
  qed
  moreover have "f = g" if "fqdn_Contains f g" "fqdn_Contains g f"
    using that root [OF f] root [OF g] anti unfolding Contains_iff [OF f g] Contains_iff [OF g f] by metis
  ultimately show ?thesis using Contains_iff [OF f g] Contains_iff [OF f f] by (auto simp: labels_def)
qed

theorem Contains_suffix_order_witness:
  "fqdn_Contains ''b.c.'' ''a.b.c.'' \<longleftrightarrow> suffix [''b'', ''c''] [''a'', ''b'', ''c'']"
proof -
  have "ToFQDN ''b.c'' = Inr ''b.c.''" "ToFQDN ''a.b.c'' = Inr ''a.b.c.''" by code_simp+
  from Contains_suffix_order [OF this] show ?thesis by simp
qed

text \<open>
  A sanitised label is empty or a valid label without upper-case letters, and a valid label without
  upper-case letters is left as it is; so sanitising twice is sanitising once.
\<close>

theorem SanitizeLabel_ok:
  "(SanitizeLabel label = [] \<or> ValidLabel (SanitizeLabel label) = None) \<and>
   (\<forall>c \<in> set (SanitizeLabel label). \<not> isupper c) \<and> SanitizeLabel (SanitizeLabel label) = SanitizeLabel label"
proof -
  have low: "\<forall>c \<in> set (SanitizeLabel label). \<not> isupper c"
    using sanitizeLoop_chars by (auto simp: SanitizeLabel_eq)
  then have "SanitizeLabel (SanitizeLabel label) = SanitizeLabel label"
    using SanitizeLabel_same [OF SanitizeLabel_valid] by (cases "SanitizeLabel label = []") (auto simp: SanitizeLabel_def)
  with low show ?thesis
    using SanitizeLabel_valid [of label] by (cases "SanitizeLabel label = []") simp_all
qed

theorem SanitizeLabel_ok_witness: "ValidLabel (SanitizeLabel ''_My Host_'') = None \<and> SanitizeLabel ''_My Host_'' = ''my-host''"
proof -
  have "SanitizeLabel ''_My Host_'' = ''my-host''" by code_simp
  with SanitizeLabel_ok [of "''_My Host_''"] show ?thesis by simp
qed

text \<open>
  A host name is valid exactly when it is a dot-separated list of valid labels of at most 253 bytes,
  written with or without one leading and one trailing dot.
\<close>

theorem ValidHostname_exact:
  "ValidHostname h = None \<longleftrightarrow> (\<exists>ls. ls \<noteq> [] \<and> (\<forall>l \<in> set ls. ValidLabel l = None) \<and>
     length (joinByte dot ls) \<le> 253 \<and>
     h \<in> {joinByte dot ls, joinByte dot ls @ ''.'', dot # joinByte dot ls, dot # joinByte dot ls @ ''.''})"
  unfolding ValidHostname_iff by (simp add: less_Suc_eq_le eval_nat_numeral)

theorem ValidHostname_exact_witness: "\<exists>ls. ls \<noteq> [] \<and> list_all (\<lambda>l. ValidLabel l = None) ls \<and> length (joinByte dot ls) \<le> 253"
proof -
  have "ValidHostname ''.host-1.example.'' = None" by code_simp
  with ValidHostname_exact [of "''.host-1.example.''"] show ?thesis by (auto simp: list_all_iff)
qed

text \<open>The last label of a name is not checked, a trailing dot may remain, and dots are counted, not labels.\<close>

lemma dnsname_oddities:
  "ToFQDN ''foo..'' = Inr ''foo..''" "ToFQDN (''a.'' @ replicate 64 CHR ''b'') = Inr (''a.'' @ replicate 64 CHR ''b'' @ ''.'')"
  "NumLabels ''foo.com'' = 1" "dns_TrimSuffix ''foo..com'' ''..com'' = ''foo.''"
  by code_simp+

end
