(* ===== verification/Resolvconffile.thy ===== *)
theory Resolvconffile
  imports Netip_Text Dnsname
begin

text \<open>
  The reader and the writer of resolv.conf files, \<open>dns/resolvconffile/resolvconffile.go\<close>. \<open>Write\<close> gives
  the text it hands to its writer in one call. \<open>Parse\<close> gets the bytes its reader delivers and the
  error the reader ends with, if it is not the end of the file; lines are those of
  \<open>bufio.Scanner\<close>, which refuses a line of 65536 bytes or more.
\<close>

section \<open>Writing\<close>

record ResolvConfig =
  rc_Nameservers :: "Addr list"
  rc_SearchDomains :: "FQDN list"

abbreviation nl :: char where "nl \<equiv> CHR 0x0A"

definition searchValue :: "FQDN \<Rightarrow> string" where
  "searchValue domain = (if domain = ''.'' then ''.'' else WithoutTrailingDot domain)"

definition Write :: "ResolvConfig \<Rightarrow> string \<Rightarrow> string" where
  "Write c owner =
     ''# resolv.conf(5) file generated by '' @ owner @ [nl] @
     ''# DO NOT EDIT THIS FILE BY HAND -- CHANGES WILL BE OVERWRITTEN'' @ [nl, nl] @
     concat (map (\<lambda>ns. ''nameserver '' @ addrString ns @ [nl]) (rc_Nameservers c)) @
     (if rc_SearchDomains c \<noteq> []
      then ''search'' @ concat (map (\<lambda>d. '' '' @ searchValue d) (rc_SearchDomains c)) @ [nl] else [])"

section \<open>Reading\<close>

text \<open>The tokens of the scanner: the lines, each without one carriage return at its end.\<close>

definition dropCR :: "string \<Rightarrow> string" where
  "dropCR s = (if s \<noteq> [] \<and> last s = CHR 0x0D then butlast s else s)"

definition scanLines :: "string \<Rightarrow> string list" where
  "scanLines data = (let ls = splitByte nl data in if last ls = [] then butlast ls else ls)"

fun parseSearch :: "string \<Rightarrow> string list \<Rightarrow> ResolvConfig \<Rightarrow> goError + ResolvConfig" where
  "parseSearch line [] config = Inr config"
| "parseSearch line (domain # ds) config = (case ToFQDN domain of
       Inl err \<Rightarrow> Inl (Errorf ''parsing search domain %q in %q: %w'' [AStr domain, AStr line] [err])
     | Inr fqdn \<Rightarrow> parseSearch line ds (config\<lparr>rc_SearchDomains := rc_SearchDomains config @ [fqdn]\<rparr>))"

definition parseLine :: "string \<Rightarrow> ResolvConfig \<Rightarrow> goError + ResolvConfig" where
  "parseLine text config =
     (let line = trimSpace (fst (cutByte CHR ''#'' text)) in
      case cutPrefix line ''nameserver'' of
        (s, True) \<Rightarrow>
          let nameserver = trimSpace s in
          if length nameserver = length s then Inl (Errorf ''missing space after \"nameserver\" in %q'' [AStr line] [])
          else (case parseAddr nameserver of Inl err \<Rightarrow> Inl err
            | Inr ip \<Rightarrow> Inr (config\<lparr>rc_Nameservers := rc_Nameservers config @ [ip]\<rparr>))
      | (_, False) \<Rightarrow> (case cutPrefix line ''search'' of
          (s, True) \<Rightarrow>
            let domains = trimSpace s in
            if length domains = length s then Inl (Errorf ''missing space after \"search\" in %q'' [AStr line] [])
            else parseSearch line (strFields domains) config
        | (_, False) \<Rightarrow> Inr config))"

definition ErrTooLong :: goError where
  "ErrTooLong = ErrorsNew ''bufio.Scanner: token too long''"

fun parseLines :: "string list \<Rightarrow> goError option \<Rightarrow> ResolvConfig \<Rightarrow> goError + ResolvConfig" where
  "parseLines [] readErr config = (case readErr of None \<Rightarrow> Inr config
     | Some err \<Rightarrow> Inl (Errorf ''scan resolv.conf: %w'' [] [err]))"
| "parseLines (l # ls) readErr config =
     (if int (length l) \<ge> 65536 then Inl (Errorf ''scan resolv.conf: %w'' [] [ErrTooLong])
      else case parseLine (dropCR l) config of Inl err \<Rightarrow> Inl err | Inr config \<Rightarrow> parseLines ls readErr config)"

definition Parse :: "string \<Rightarrow> goError option \<Rightarrow> goError + ResolvConfig" where
  "Parse data readErr = parseLines (scanLines data) readErr \<lparr>rc_Nameservers = [], rc_SearchDomains = []\<rparr>"

section \<open>Words and lines\<close>

text \<open>A word of a line: not empty, no space and no comment sign.\<close>

definition isWord :: "string \<Rightarrow> bool" where
  "isWord w \<longleftrightarrow> w \<noteq> [] \<and> (\<forall>c \<in> set w. \<not> isSpace c \<and> c \<noteq> CHR ''#'')"

lemma trimSpace_same: "s \<noteq> [] \<Longrightarrow> \<not> isSpace (hd s) \<Longrightarrow> \<not> isSpace (last s) \<Longrightarrow> trimSpace s = s"
proof -
  assume s: "s \<noteq> []" "\<not> isSpace (hd s)" "\<not> isSpace (last s)"
  obtain c t where "s = c # t" using s(1) by (cases s) auto
  then have "dropWhile isSpace s = s" using s by simp
  moreover obtain u d where "s = u @ [d]" using s(1) by (metis rev_exhaust)
  then have "dropWhile isSpace (rev s) = rev s" using s by simp
  ultimately show ?thesis by (simp add: trimSpace_def)
qed

lemma trimSpace_lead: "trimSpace (CHR '' '' # s) = trimSpace s"
  by (simp add: trimSpace_def isSpace_def)

lemma trimSpace_length: "length (trimSpace s) \<le> length s"
  unfolding trimSpace_def length_rev by (metis length_dropWhile_le length_rev le_trans)

lemma isWord_ends: "isWord w \<Longrightarrow> w \<noteq> [] \<and> \<not> isSpace (hd w) \<and> \<not> isSpace (last w)"
  unfolding isWord_def using hd_in_set [of w] last_in_set [of w] by blast

lemma fields_word: "isWord w \<Longrightarrow> rest = [] \<or> isSpace (hd rest) \<Longrightarrow> strFields (w @ rest) = w # strFields rest"
proof -
  assume w: "isWord w" and r: "rest = [] \<or> isSpace (hd rest)"
  have "dropWhile isSpace (w @ rest) = w @ rest" using isWord_ends [OF w] by (cases w) auto
  moreover have nsp: "\<forall>c \<in> set w. \<not> isSpace c" using w unfolding isWord_def by blast
  have "takeWhile (\<lambda>c. \<not> isSpace c) (w @ rest) = w" "dropWhile (\<lambda>c. \<not> isSpace c) (w @ rest) = rest"
    using takeWhile_run [OF nsp, of rest] r by simp_all
  ultimately show ?thesis using w by (simp add: strFields.simps [of "w @ rest"] isWord_def)
qed

lemma fields_space: "strFields (CHR '' '' # s) = strFields s"
  by (simp add: strFields.simps [of "CHR '' '' # s"] strFields.simps [of s] isSpace_def)

lemma fields_words: "\<forall>w \<in> set ws. isWord w \<Longrightarrow> strFields (concat (map (\<lambda>w. '' '' @ w) ws)) = ws"
proof (induction ws)
  case Nil
  show ?case by (simp add: strFields.simps [of "[]"])
next
  case (Cons w ws)
  have "concat (map (\<lambda>w. '' '' @ w) ws) = [] \<or> isSpace (hd (concat (map (\<lambda>w. '' '' @ w) ws)))"
    by (cases ws) (simp_all add: isSpace_def)
  then show ?case using Cons fields_word [of w] by (simp add: fields_space)
qed

text \<open>The texts of addresses are words, if their zones are.\<close>

definition wordChar :: "char \<Rightarrow> bool" where
  "wordChar c \<longleftrightarrow> \<not> isSpace c \<and> c \<noteq> CHR ''#''"

lemma isWord_iff: "isWord w \<longleftrightarrow> w \<noteq> [] \<and> (\<forall>c \<in> set w. wordChar c)"
  by (simp add: isWord_def wordChar_def)

lemma wordChar_codes:
  assumes "33 < (of_char c :: nat)" and "(of_char c :: nat) \<noteq> 35"
  shows "wordChar c"
  using assms by (auto simp: wordChar_def isSpace_def)

lemma wordChar_digit: "d < 16 \<Longrightarrow> wordChar (digit_char d)"
  by (rule wordChar_codes) (auto simp: digit_char_def)

lemma wordChar_formatInt:
  assumes "2 \<le> b" and "b \<le> 16" and "0 \<le> n"
  shows "\<forall>c \<in> set (formatInt b n). wordChar c"
proof
  fix c assume "c \<in> set (formatInt b n)"
  then obtain d where "int d < b" "c = digit_char d" using formatInt_digits [OF assms(1,3)] by blast
  with assms(2) show "wordChar c" using wordChar_digit [of d] by simp
qed

lemma wordChar_join:
  assumes "wordChar c" and "\<forall>w \<in> set ws. \<forall>d \<in> set w. wordChar d"
  shows "\<forall>d \<in> set (joinByte c ws). wordChar d"
  using set_joinByte [of c ws] assms by blast

lemma wordChar_marks: "wordChar CHR ''.''" "wordChar CHR '':''" "wordChar CHR ''%''" "wordChar CHR ''f''"
  by (simp_all add: wordChar_def isSpace_def)

lemma wordChar_string4: "\<forall>c \<in> set (string4 w). wordChar c"
  unfolding string4_def
  by (rule wordChar_join) (use wordChar_marks wordChar_formatInt [of 10] string4_fields [of "uint w"] in auto)

lemma wordChar_hexes: "groups_ok gs \<Longrightarrow> \<forall>c \<in> set (hexes gs). wordChar c"
  by (rule wordChar_join) (use wordChar_marks wordChar_formatInt [of 16] in \<open>auto simp: groups_ok_def\<close>)

lemma wordChar_string6: "\<forall>c \<in> set (string6 w). wordChar c"
proof -
  note ok = groups_ok_of [of "uint w"]
  show ?thesis
    using wordChar_hexes [OF ok] wordChar_hexes [OF groups_ok_sub(1) [OF ok]] wordChar_hexes [OF groups_ok_sub(2) [OF ok]] wordChar_marks
    by (auto simp: string6_def Let_def take_map drop_map split: option.split)
qed

lemma addrString_word:
  assumes "a \<noteq> NoAddr" and "\<forall>c \<in> set (addrZone a). wordChar c"
  shows "isWord (addrString a)"
proof (cases a)
  case (Addr4 w)
  have "string4 w \<noteq> []" using string4_start [of w] by auto
  then show ?thesis using Addr4 wordChar_string4 [of w] by (simp add: isWord_iff)
next
  case (Addr6 w z)
  have "string6 w \<noteq> []" using colonFirst_string6 [of w] unfolding colonFirst_def by (metis Nil_is_append_conv list.distinct(1))
  moreover have "\<forall>c \<in> set (if z = [] then [] else ''%'' @ z). wordChar c"
    using assms(2) Addr6 wordChar_marks(3) by simp
  ultimately show ?thesis
    unfolding Addr6 addrString.simps isWord_iff set_append ball_Un
    using wordChar_string4 [of "ucast w"] wordChar_string6 [of w] wordChar_marks
    by (cases "drop_bit 32 w = 0xffff") (simp_all only: if_True if_False set_append ball_Un, simp_all)
qed (use assms in simp)

section \<open>Reading what was written\<close>

definition writeLines :: "ResolvConfig \<Rightarrow> string \<Rightarrow> string list" where
  "writeLines c owner =
     [''# resolv.conf(5) file generated by '' @ owner,
      ''# DO NOT EDIT THIS FILE BY HAND -- CHANGES WILL BE OVERWRITTEN'', []] @
     map (\<lambda>ns. ''nameserver '' @ addrString ns) (rc_Nameservers c) @
     (if rc_SearchDomains c \<noteq> [] then [''search'' @ concat (map (\<lambda>d. '' '' @ searchValue d) (rc_SearchDomains c))] else [])"

lemma Write_lines: "Write c owner = concat (map (\<lambda>l. l @ [nl]) (writeLines c owner))"
  by (simp add: Write_def writeLines_def comp_def)

lemma split_lines: "\<forall>l \<in> set ls. nl \<notin> set l \<Longrightarrow> splitByte nl (concat (map (\<lambda>l. l @ [nl]) ls)) = ls @ [[]]"
  by (induction ls) (simp_all add: splitByte_Cons_noSep)

lemma scan_lines: "\<forall>l \<in> set ls. nl \<notin> set l \<Longrightarrow> scanLines (concat (map (\<lambda>l. l @ [nl]) ls)) = ls"
  by (simp add: scanLines_def split_lines)

lemma word_no_nl: "isWord w \<Longrightarrow> nl \<notin> set w"
  by (auto simp: isWord_def isSpace_def)

lemma dropCR_word: "last s \<noteq> CHR 0x0D \<Longrightarrow> dropCR s = s"
  by (simp add: dropCR_def)

lemma noComment: "CHR ''#'' \<notin> set s \<Longrightarrow> fst (cutByte CHR ''#'' s) = s"
  by (simp add: cutByte_def)

lemma parseLine_empty: "parseLine [] config = Inr config"
  by (simp add: parseLine_def cutByte_def trimSpace_def cutPrefix_def)

lemma parseLine_comment: "parseLine (CHR ''#'' # s) config = Inr config"
  by (simp add: parseLine_def cutByte_def trimSpace_def cutPrefix_def)

lemma hasPrefix_self [simp]: "hasPrefix (p @ s) p"
  by (auto simp: hasPrefix_iff)

lemma parseLine_nameserver:
  assumes "isWord (addrString a)" and "a \<noteq> NoAddr"
  shows "parseLine (''nameserver '' @ addrString a) config =
    Inr (config\<lparr>rc_Nameservers := rc_Nameservers config @ [a]\<rparr>)"
proof -
  let ?w = "addrString a" and ?line = "''nameserver'' @ CHR '' '' # addrString a"
  have w: "?w \<noteq> []" "\<not> isSpace (hd ?w)" "\<not> isSpace (last ?w)" using isWord_ends [OF assms(1)] by auto
  have "CHR ''#'' \<notin> set ?line" using assms(1) by (auto simp: isWord_def)
  then have cut: "fst (cutByte CHR ''#'' ?line) = ?line" by (rule noComment)
  have trim: "trimSpace ?line = ?line" using w by (intro trimSpace_same) (simp_all add: isSpace_def)
  have "trimSpace (CHR '' '' # ?w) = ?w" using trimSpace_same [OF w] by (simp add: trimSpace_lead)
  then have "parseLine ?line config = (case parseAddr ?w of Inl err \<Rightarrow> Inl err
      | Inr ip \<Rightarrow> Inr (config\<lparr>rc_Nameservers := rc_Nameservers config @ [ip]\<rparr>))"
    unfolding parseLine_def cut trim Let_def cutPrefix_def by simp
  then show ?thesis using parse_addrString [OF assms(2)] by simp
qed

text \<open>The search domains that are read back: what \<open>ToFQDN\<close> returns, with a last label, and words.\<close>

definition domainOk :: "FQDN \<Rightarrow> bool" where
  "domainOk d \<longleftrightarrow> d = ''.'' \<or> ToFQDN d = Inr d \<and> isWord d \<and> last (butlast d) \<noteq> dot"

lemma searchValue_back:
  assumes "domainOk d"
  shows "ToFQDN (searchValue d) = Inr d" and "isWord (searchValue d)"
proof -
  have "ToFQDN (searchValue d) = Inr d \<and> isWord (searchValue d)"
  proof (cases "d = ''.''")
    case True
    then show ?thesis by (simp add: searchValue_def ToFQDN_def isWord_def isSpace_def)
  next
    case False
    then have d: "isFQDN d" "isWord d" "last (butlast d) \<noteq> dot" using assms ToFQDN_Inr by (auto simp: domainOk_def)
    obtain t where t: "d = t @ ''.''" using isFQDN_last [OF d(1)] by (metis append_butlast_last_id)
    then have v: "searchValue d = t" using False by (simp add: searchValue_def WithoutTrailingDot_def)
    have "t \<noteq> []" "hd t \<noteq> dot" "last t \<noteq> dot" "length t < maxNameLength" "checkLabels [] t = None"
      using d(1,3) t False by (auto simp: isFQDN_def labels_def checkLabels_Nil_iff)
    then have "ToFQDN t = Inr (t @ ''.'')" by (intro ToFQDN_core) simp_all
    moreover have "isWord t" using d(2) \<open>t \<noteq> []\<close> t by (simp add: isWord_iff)
    ultimately show ?thesis using v t by simp
  qed
  then show "ToFQDN (searchValue d) = Inr d" "isWord (searchValue d)" by auto
qed

lemma parseSearch_back:
  "\<forall>d \<in> set ds. domainOk d \<Longrightarrow>
     parseSearch line (map searchValue ds) config = Inr (config\<lparr>rc_SearchDomains := rc_SearchDomains config @ ds\<rparr>)"
  by (induction ds arbitrary: config) (simp_all add: searchValue_back)

lemma last_words: "ws \<noteq> [] \<Longrightarrow> \<forall>w \<in> set ws. isWord w \<Longrightarrow> \<not> isSpace (last (concat (map (\<lambda>w. '' '' @ w) ws)))"
proof (induction ws)
  case (Cons w ws)
  then show ?case using isWord_ends [of w] by (cases ws) auto
qed simp

lemma parseLine_search:
  assumes "ds \<noteq> []" and "\<forall>d \<in> set ds. domainOk d"
  shows "parseLine (''search'' @ concat (map (\<lambda>d. '' '' @ searchValue d) ds)) config =
    Inr (config\<lparr>rc_SearchDomains := rc_SearchDomains config @ ds\<rparr>)"
proof -
  let ?ws = "map searchValue ds" and ?t = "concat (map (\<lambda>d. '' '' @ searchValue d) ds)"
  let ?line = "''search'' @ ?t"
  have ws: "\<forall>w \<in> set ?ws. isWord w" "?ws \<noteq> []" using assms searchValue_back(2) by auto
  have t: "?t = concat (map (\<lambda>w. '' '' @ w) ?ws)" by (simp add: comp_def)
  have last: "\<not> isSpace (last ?t)" using last_words [OF ws(2,1)] unfolding t .
  obtain u where u: "?t = CHR '' '' # u" "u \<noteq> []"
    using ws isWord_ends by (cases ds) auto
  have "CHR ''#'' \<notin> set ?line" using ws(1) by (auto simp: isWord_def)
  then have cut: "fst (cutByte CHR ''#'' ?line) = ?line" by (rule noComment)
  have trim: "trimSpace ?line = ?line" using last u by (intro trimSpace_same) (simp_all add: isSpace_def)
  have "hd u = hd (hd ?ws)" using u(1) ws isWord_ends by (cases ds) (auto simp: hd_append)
  moreover have "isWord (hd ?ws)" using ws hd_in_set [OF ws(2)] by blast
  ultimately have "\<not> isSpace (hd u)" "\<not> isSpace (last u)" using isWord_ends [of "hd ?ws"] last u by simp_all
  then have "trimSpace ?t = u" using trimSpace_same [OF u(2)] u(1) by (simp add: trimSpace_lead)
  moreover have "strFields u = ?ws" using fields_words [OF ws(1)] unfolding t [symmetric] u(1) fields_space .
  ultimately have "parseLine ?line config = parseSearch ?line ?ws config"
    unfolding parseLine_def cut trim Let_def cutPrefix_def using u by simp
  then show ?thesis using parseSearch_back [OF assms(2)] by simp
qed

lemma parseLines_Cons:
  "int (length l) < 65536 \<Longrightarrow> parseLine (dropCR l) config = Inr config' \<Longrightarrow>
     parseLines (l # ls) e config = parseLines ls e config'"
  by simp

lemma parseLines_nameservers:
  assumes "\<forall>a \<in> set as. isWord (addrString a) \<and> a \<noteq> NoAddr"
    and "\<forall>a \<in> set as. int (length (''nameserver '' @ addrString a)) < 65536"
  shows "parseLines (map (\<lambda>ns. ''nameserver '' @ addrString ns) as @ ls) e config =
    parseLines ls e (config\<lparr>rc_Nameservers := rc_Nameservers config @ as\<rparr>)"
  using assms
proof (induction as arbitrary: config)
  case (Cons a as)
  have w: "isWord (addrString a)" "a \<noteq> NoAddr" using Cons.prems(1) by simp_all
  have "last (''nameserver '' @ addrString a) \<noteq> CHR 0x0D" using isWord_ends [OF w(1)] by (auto simp: isSpace_def)
  then have p: "parseLine (dropCR (''nameserver '' @ addrString a)) config =
      Inr (config\<lparr>rc_Nameservers := rc_Nameservers config @ [a]\<rparr>)"
    using dropCR_word parseLine_nameserver [OF w] by metis
  have "int (length (''nameserver '' @ addrString a)) < 65536" using Cons.prems(2) by simp
  from parseLines_Cons [OF this p] show ?case using Cons by simp
qed simp

lemma dropCR_comment: "\<exists>t. dropCR (CHR ''#'' # CHR '' '' # s) = CHR ''#'' # t"
  by (simp add: dropCR_def)

section \<open>Properties\<close>


definition sampleResolv :: ResolvConfig where
  "sampleResolv = \<lparr>rc_Nameservers = [Addr4 0x7f000035, Addr6 0x20010db8000000000000000000000001 [], Addr6 0xfe800000000000000000000000000001 ''eth0''],
     rc_SearchDomains = [''example.com.'', ''.'']\<rparr>"


text \<open>A search domain with an empty last label, which \<open>ToFQDN\<close> accepts, is not read back.\<close>

lemma odd_domain_lost:
  "ToFQDN ''foo..'' = Inr ''foo..''"
  "Parse (Write \<lparr>rc_Nameservers = [], rc_SearchDomains = [''foo..'']\<rparr> ''x'') None =
     Inr \<lparr>rc_Nameservers = [], rc_SearchDomains = [''foo.'']\<rparr>"
  by code_simp+

end
