(* ===== verification/Tun_Prefix.thy ===== *)
theory Tun_Prefix
  imports Netip_Text Routing_Adapter Net_IP
begin

text \<open>
  The conversions of \<open>tun/config.go\<close> between CIDR text, \<open>netip.Prefix\<close>, \<open>net.IPNet\<close> and the netlink
  library's addresses and routes, with the parts of package \<open>net\<close> they call, on the values of
  \<open>net.IP\<close> and \<open>net.IPMask\<close> that the netlink adapter of package routing uses. The package has its own
  copies of the conversions of package routing, and they differ: an IPv4 address is sent in its
  16-byte form, and IPv4-mapped IPv6 prefixes are not refused.
\<close>

section \<open>Package net\<close>

text \<open>\<open>To4\<close>, \<open>netip.AddrFromSlice\<close> and \<open>net.IPv4\<close>.\<close>

fun ipTo4 :: "netIP \<Rightarrow> netIP option" where
  "ipTo4 (IP4 w) = Some (IP4 w)"
| "ipTo4 (IP16 w) = (if drop_bit 32 w = 0xffff then Some (IP4 (ucast w)) else None)"
| "ipTo4 _ = None"

fun addrFromSlice :: "netIP \<Rightarrow> Addr option" where
  "addrFromSlice (IP4 w) = Some (Addr4 w)"
| "addrFromSlice (IP16 w) = Some (Addr6 w '''')"
| "addrFromSlice _ = None"

definition netIPv4 :: "u32 \<Rightarrow> netIP" where
  "netIPv4 w = IP16 (push_bit 32 0xffff OR ucast w)"

text \<open>A mask from its bytes, its length, and the last four bytes of a 16-byte mask.\<close>

definition maskFromBytes :: "byte list \<Rightarrow> netMask" where
  "maskFromBytes bs = (let n = simpleMaskLength 0 bs in
     if n = -1 then OtherMask bs else CIDRMask n (int (length bs) * 8))"

fun maskLen :: "netMask \<Rightarrow> int" where
  "maskLen (CIDRMask ones bits) = bits div 8"
| "maskLen (OtherMask bs) = int (length bs)"

fun maskTail :: "netMask \<Rightarrow> netMask" where
  "maskTail (CIDRMask ones bits) = CIDRMask (max 0 (ones - 96)) 32"
| "maskTail (OtherMask bs) = maskFromBytes (drop 12 bs)"

definition hexByte :: "byte \<Rightarrow> string" where
  "hexByte b = [digit_char (unat (drop_bit 4 b)), digit_char (unat (b AND 0xf))]"

text \<open>\<open>IPNet.String\<close>: the address in its short form and the length of the mask, or the mask in
  hexadecimal when it is not ones followed by zeros.\<close>

definition ipNetString :: "IPNet \<Rightarrow> string" where
  "ipNetString n =
     (let show = (\<lambda>a m. addrString a @ ''/'' @ (case m of CIDRMask ones _ \<Rightarrow> formatInt 10 ones
                    | OtherMask bs \<Rightarrow> concat (map hexByte bs)));
          m = ipnet_Mask n
      in case ipTo4 (ipnet_IP n) of
           Some ip4 \<Rightarrow> (case addrFromSlice ip4 of None \<Rightarrow> ''<nil>''
             | Some a \<Rightarrow> if maskLen m = 4 then show a m
                 else if maskLen m = 16 then show a (maskTail m) else ''<nil>'')
         | None \<Rightarrow> (case addrFromSlice (ipnet_IP n) of None \<Rightarrow> ''<nil>''
             | Some a \<Rightarrow> if maskLen m = 16 then show a m else ''<nil>''))"

section \<open>The netlink library's addresses and routes\<close>

text \<open>
  A \<open>netlink.Addr\<close> embeds a pointer to the network; of its other fields the sources read and write the
  flags. Two listings of one address may differ in the flags only.
\<close>

record NLAddr =
  na_IPNet :: "IPNet option"
  na_Flags :: int
  na_Label :: string
  na_Scope :: int
  na_Peer :: "IPNet option"
  na_Broadcast :: netIP
  na_LinkIndex :: int

text \<open>The routes of this package also carry the protocol that made them.\<close>

record TunNLRoute = NLRoute +
  nlr_Protocol :: int

abbreviation IFA_F_NODAD :: int where "IFA_F_NODAD \<equiv> 2"
abbreviation IFA_F_DADFAILED :: int where "IFA_F_DADFAILED \<equiv> 8"
abbreviation IFA_F_TENTATIVE :: int where "IFA_F_TENTATIVE \<equiv> 64"
abbreviation RT_TABLE_MAIN :: int where "RT_TABLE_MAIN \<equiv> 254"
abbreviation RTPROT_STATIC :: int where "RTPROT_STATIC \<equiv> 4"
abbreviation SCOPE_LINK :: int where "SCOPE_LINK \<equiv> 253"
abbreviation FAMILY_ALL :: int where "FAMILY_ALL \<equiv> 0"

section \<open>Conversions\<close>

abbreviation defaultTunMTU :: int where "defaultTunMTU \<equiv> 1420"
abbreviation minTunMTU :: int where "minTunMTU \<equiv> 576"

definition NormalizeMTU :: "int \<Rightarrow> int" where
  "NormalizeMTU mtu = (if mtu < minTunMTU then defaultTunMTU else mtu)"

definition parseTunAddrPrefix :: "string \<Rightarrow> goError + Prefix" where
  "parseTunAddrPrefix value = (case parsePrefix value of Inr pfx \<Rightarrow> Inr pfx
     | Inl err \<Rightarrow> (case parseAddr value of
           Inl addrErr \<Rightarrow> Inl (Errorf ''parse CIDR prefix %q: %w'' [AStr value] [err])
         | Inr addr \<Rightarrow> let bits = (if addrIs4 addr then 32 else 128) in Inr (prefixFrom addr bits)))"

definition parseTunRoutePrefix :: "string \<Rightarrow> goError + Prefix" where
  "parseTunRoutePrefix value = (case parseTunAddrPrefix value of Inl err \<Rightarrow> Inl err
     | Inr pfx \<Rightarrow> Inr (prefixMasked pfx))"

fun parseTunAddrPrefixes :: "string list \<Rightarrow> goError + Prefix list" where
  "parseTunAddrPrefixes [] = Inr []"
| "parseTunAddrPrefixes (value # values) = (case parseTunAddrPrefix value of Inl err \<Rightarrow> Inl err
     | Inr pfx \<Rightarrow> map_sum id (\<lambda>pfxs. pfx # pfxs) (parseTunAddrPrefixes values))"

fun parseTunRoutePrefixes :: "string list \<Rightarrow> goError + Prefix list" where
  "parseTunRoutePrefixes [] = Inr []"
| "parseTunRoutePrefixes (value # values) = (case parseTunRoutePrefix value of Inl err \<Rightarrow> Inl err
     | Inr pfx \<Rightarrow> map_sum id (\<lambda>pfxs. pfx # pfxs) (parseTunRoutePrefixes values))"

fun tunNetIPFromAddr :: "Addr \<Rightarrow> netIP" where
  "tunNetIPFromAddr NoAddr = IPNil"
| "tunNetIPFromAddr (Addr4 v) = netIPv4 v"
| "tunNetIPFromAddr (Addr6 v z) = IP16 v"

definition tunIpNetFromPrefix :: "Prefix \<Rightarrow> goError + IPNet" where
  "tunIpNetFromPrefix pfx =
     (if \<not> prefixIsValid pfx then Inl (ErrorsNew ''invalid prefix'')
      else let addr = pfxAddr pfx; bits = (if addrIs4 addr then 32 else 128) in
        Inr \<lparr>ipnet_IP = tunNetIPFromAddr addr, ipnet_Mask = CIDRMask (pfxBits pfx) bits\<rparr>)"

definition tunAddrFromIP :: "netIP \<Rightarrow> Addr option" where
  "tunAddrFromIP ip = (case ipTo4 ip of Some ip4 \<Rightarrow> addrFromSlice ip4 | None \<Rightarrow> addrFromSlice ip)"

definition tunPrefixFromIPNet :: "IPNet option \<Rightarrow> int \<Rightarrow> Prefix option" where
  "tunPrefixFromIPNet network family = (case network of
       None \<Rightarrow> if family = AF_INET then Some (Prefix (Addr4 0) 0)
               else if family = AF_INET6 then Some (Prefix (Addr6 0 '''') 0) else None
     | Some network \<Rightarrow> (case maskSize (ipnet_Mask network) of (ones, bits) \<Rightarrow>
         if ones < 0 then None
         else case tunAddrFromIP (ipnet_IP network) of None \<Rightarrow> None
           | Some addr \<Rightarrow> let addr = (if bits = 32 then addrUnmap addr else addr) in
               Some (prefixMasked (prefixFrom addr ones))))"

definition zeroNLAddr :: NLAddr where
  "zeroNLAddr = \<lparr>na_IPNet = None, na_Flags = 0, na_Label = '''', na_Scope = 0, na_Peer = None,
     na_Broadcast = IPNil, na_LinkIndex = 0\<rparr>"

definition netlinkAddrFromPrefix :: "Prefix \<Rightarrow> goError + NLAddr" where
  "netlinkAddrFromPrefix pfx = (case tunIpNetFromPrefix pfx of Inl err \<Rightarrow> Inl err
     | Inr ipNet \<Rightarrow> let addr = zeroNLAddr\<lparr>na_IPNet := Some ipNet\<rparr> in
         Inr (if addrIs6 (pfxAddr pfx) then addr\<lparr>na_Flags := na_Flags addr OR IFA_F_NODAD\<rparr> else addr))"

definition netlinkAddrFromString :: "string \<Rightarrow> goError + NLAddr" where
  "netlinkAddrFromString addr = (case parseTunAddrPrefix addr of Inl err \<Rightarrow> Inl err
     | Inr pfx \<Rightarrow> netlinkAddrFromPrefix pfx)"

definition netlinkRouteFromPrefix :: "int \<Rightarrow> Prefix \<Rightarrow> goError + TunNLRoute" where
  "netlinkRouteFromPrefix index pfx = (case tunIpNetFromPrefix (prefixMasked pfx) of Inl err \<Rightarrow> Inl err
     | Inr dst \<Rightarrow> Inr \<lparr>nlr_Family = 0, nlr_Table = RT_TABLE_MAIN, nlr_Dst = Some dst, nlr_Gw = IPNil, nlr_Src = IPNil,
         nlr_LinkIndex = index, nlr_Priority = 0, nlr_Scope = SCOPE_LINK, nlr_Flags = 0, nlr_Type = RTN_UNICAST,
         nlr_MultiPath = [], nlr_NewDst = False, nlr_Encap = False, nlr_Via = False, nlr_MPLSDst = False,
         nlr_Protocol = RTPROT_STATIC\<rparr>)"

definition tunRouteDeleteSpec :: "TunNLRoute \<Rightarrow> TunNLRoute" where
  "tunRouteDeleteSpec route = route\<lparr>nlr_Flags := 0,
     nlr_MultiPath := map (map_option (\<lambda>hop. hop\<lparr>nh_Flags := 0\<rparr>)) (nlr_MultiPath route)\<rparr>"

text \<open>The prefix of an address of an interface: the mask must have the length of the address.\<close>

definition tunAddrPrefix :: "NLAddr \<Rightarrow> Prefix option" where
  "tunAddrPrefix addr = (case na_IPNet addr of None \<Rightarrow> None
     | Some ipnet \<Rightarrow> (case maskSize (ipnet_Mask ipnet) of (ones, bits) \<Rightarrow>
         if ones < 0 then None
         else case tunAddrFromIP (ipnet_IP ipnet) of None \<Rightarrow> None
           | Some ip \<Rightarrow> if addrBitLen ip \<noteq> bits then None else Some (prefixFrom ip ones)))"

section \<open>Reading back what is written\<close>

lemma embed_bits:
  assumes "take_bit 96 m = (m :: 128 word)"
  shows "drop_bit 32 (push_bit 32 m OR ucast w) = m \<and> ucast (push_bit 32 m OR ucast w) = (w :: u32)"
proof
  have m: "\<not> bit m i" if "96 \<le> i" for i using arg_cong [OF assms, of "\<lambda>x. bit x i"] that by (simp add: bit_take_bit_iff)
  have b: "bit (push_bit 32 m OR ucast w) i \<longleftrightarrow> 32 \<le> i \<and> i < 128 \<and> bit m (i - 32) \<or> bit w i" for i
    using bit_imp_le_length [of w i] by (auto simp: bit_simps)
  show "drop_bit 32 (push_bit 32 m OR ucast w) = m"
  proof (rule bit_word_eqI)
    fix i assume "i < LENGTH(128)"
    show "bit (drop_bit 32 (push_bit 32 m OR ucast w)) i = bit m i"
      using m [of i] bit_imp_le_length [of w "32 + i"] unfolding bit_drop_bit_eq b comp_def by (cases "i < 96") auto
  qed
  show "ucast (push_bit 32 m OR ucast w) = w" by (rule bit_word_eqI) (auto simp: bit_ucast_iff b)
qed

lemma netIPv4_To4 [simp]: "ipTo4 (netIPv4 w) = Some (IP4 w)"
  using embed_bits [of "0xffff" w] by (simp add: netIPv4_def)

text \<open>Every address is read back without its zone, and an IPv4-mapped one as IPv4.\<close>

lemma tunAddrFromIP_back [simp]: "a \<noteq> NoAddr \<Longrightarrow> tunAddrFromIP (tunNetIPFromAddr a) = Some (readAddr a)"
  by (cases a) (simp_all add: tunAddrFromIP_def readAddr_def)

lemma tunAddrFromIP_plain: "tunAddrFromIP ip = Some a \<Longrightarrow> a \<noteq> NoAddr \<and> \<not> addrIs4In6 a \<and> addrZone a = ''''"
  by (cases ip) (auto simp: tunAddrFromIP_def split: if_splits)

lemma tunAddrFromIP_short:
  "tunAddrFromIP ip = Some a \<Longrightarrow> (case ipTo4 ip of
      None \<Rightarrow> addrFromSlice ip = Some a \<and> addrBitLen a = 128
    | Some ip4 \<Rightarrow> addrFromSlice ip4 = Some a \<and> addrBitLen a = 32)"
  by (cases ip) (auto simp: tunAddrFromIP_def split: if_splits)

text \<open>The prefixes that can be read from an interface.\<close>

definition readable :: "Prefix \<Rightarrow> bool" where
  "readable p \<longleftrightarrow> prefixIsValid p \<and> addrZone (pfxAddr p) = '''' \<and> \<not> addrIs4In6 (pfxAddr p)"

lemma readAddr_id: "\<not> addrIs4In6 a \<Longrightarrow> addrZone a = '''' \<Longrightarrow> readAddr a = a"
  by (cases a) (simp_all add: readAddr_def)

lemma prefixFrom_id: "prefixIsValid p \<Longrightarrow> addrZone (pfxAddr p) = '''' \<Longrightarrow> prefixFrom (pfxAddr p) (pfxBits p) = p"
  by (cases p; cases "pfxAddr p") (simp_all add: prefixFrom_def prefixIsValid_def)

lemma netlinkAddrFromPrefix_Inr:
  "netlinkAddrFromPrefix p = Inr a \<longleftrightarrow> prefixIsValid p \<and>
     a = zeroNLAddr\<lparr>na_IPNet := Some \<lparr>ipnet_IP = tunNetIPFromAddr (pfxAddr p),
         ipnet_Mask = CIDRMask (pfxBits p) (if addrIs4 (pfxAddr p) then 32 else 128)\<rparr>,
       na_Flags := if addrIs6 (pfxAddr p) then IFA_F_NODAD else 0\<rparr>"
  by (cases "prefixIsValid p") (auto simp: netlinkAddrFromPrefix_def tunIpNetFromPrefix_def Let_def zeroNLAddr_def)

lemma netlinkAddrFromPrefix_readable:
  assumes "readable p" and "netlinkAddrFromPrefix p = Inr a"
  shows "tunAddrPrefix a = Some p"
proof -
  have v: "prefixIsValid p" "addrZone (pfxAddr p) = ''''" "\<not> addrIs4In6 (pfxAddr p)" using assms(1) by (simp_all add: readable_def)
  then have "pfxAddr p \<noteq> NoAddr" "0 \<le> pfxBits p" by (auto simp: prefixIsValid_def)
  moreover from this v have "addrBitLen (pfxAddr p) = (if addrIs4 (pfxAddr p) then 32 else 128)" by (cases "pfxAddr p") simp_all
  ultimately show ?thesis using assms(2) v
    by (simp add: netlinkAddrFromPrefix_Inr tunAddrPrefix_def readAddr_id prefixFrom_id zeroNLAddr_def)
qed

lemma tunAddrPrefix_4In6:
  assumes "addrIs4In6 (pfxAddr p)" and "netlinkAddrFromPrefix p = Inr a"
  shows "tunAddrPrefix a = None"
proof -
  obtain w z where "pfxAddr p = Addr6 w z" "drop_bit 32 w = 0xffff" using assms(1) by (cases "pfxAddr p") auto
  then show ?thesis using assms(2)
    by (simp add: netlinkAddrFromPrefix_Inr tunAddrPrefix_def tunAddrFromIP_def zeroNLAddr_def)
qed

text \<open>Masks are as \<open>net.CIDRMask\<close> makes them: no more ones than bits.\<close>

definition wf_NLAddr :: "NLAddr \<Rightarrow> bool" where
  "wf_NLAddr a \<longleftrightarrow> (case na_IPNet a of Some n \<Rightarrow> (case ipnet_Mask n of
     CIDRMask ones bits \<Rightarrow> 0 \<le> ones \<and> ones \<le> bits | OtherMask bs \<Rightarrow> True) | None \<Rightarrow> True)"

lemma tunAddrPrefix_Some:
  assumes "tunAddrPrefix a = Some p" and "wf_NLAddr a"
  shows "\<exists>n. na_IPNet a = Some n \<and> ipnet_Mask n = CIDRMask (pfxBits p) (addrBitLen (pfxAddr p)) \<and>
    tunAddrFromIP (ipnet_IP n) = Some (pfxAddr p) \<and> readable p"
proof -
  obtain n where n: "na_IPNet a = Some n" using assms(1) by (cases "na_IPNet a") (auto simp: tunAddrPrefix_def)
  obtain ones bits where m: "maskSize (ipnet_Mask n) = (ones, bits)" by force
  obtain ip where ip: "tunAddrFromIP (ipnet_IP n) = Some ip" "addrBitLen ip = bits" and p: "p = prefixFrom ip ones"
    using assms(1) n m by (auto simp: tunAddrPrefix_def split: if_splits option.splits)
  note plain = tunAddrFromIP_plain [OF ip(1)]
  then have "0 < bits" using ip(2) by (cases ip) auto
  then have mask: "ipnet_Mask n = CIDRMask ones bits" using m by (cases "ipnet_Mask n") auto
  then have r: "0 \<le> ones" "ones \<le> bits" using assms(2) n by (simp_all add: wf_NLAddr_def)
  have "addrWithoutZone ip = ip" using plain by (cases ip) simp_all
  then have "pfxAddr p = ip" "pfxBits p = ones" using p plain r ip(2) by (simp_all add: prefixFrom_def addrIsValid_iff)
  then show ?thesis using n mask ip plain r by (auto simp: readable_def prefixIsValid_def addrIsValid_iff)
qed

text \<open>An address of an interface is printed as its prefix.\<close>

lemma ipNetString_prefix:
  assumes "tunAddrPrefix a = Some p" and "wf_NLAddr a" and "na_IPNet a = Some n"
  shows "ipNetString n = prefixString p"
proof -
  note f = tunAddrPrefix_Some [OF assms(1,2)]
  have m: "ipnet_Mask n = CIDRMask (pfxBits p) (addrBitLen (pfxAddr p))" and r: "readable p"
    and ip: "tunAddrFromIP (ipnet_IP n) = Some (pfxAddr p)" using f assms(3) by simp_all
  show ?thesis
  proof (cases "ipTo4 (ipnet_IP n)")
    case None
    then have "addrFromSlice (ipnet_IP n) = Some (pfxAddr p)" "addrBitLen (pfxAddr p) = 128"
      using tunAddrFromIP_short [OF ip] by simp_all
    then show ?thesis using None m r by (simp add: ipNetString_def prefixString_def readable_def del: formatInt.simps)
  next
    case (Some ip4)
    then have "addrFromSlice ip4 = Some (pfxAddr p)" "addrBitLen (pfxAddr p) = 32"
      using tunAddrFromIP_short [OF ip] by simp_all
    then show ?thesis using Some m r by (simp add: ipNetString_def prefixString_def readable_def del: formatInt.simps)
  qed
qed

section \<open>Parsed prefixes\<close>

lemma prefixIsValid_prefixFrom [simp]:
  "prefixIsValid (prefixFrom a b) \<longleftrightarrow> addrIsValid a \<and> 0 \<le> b \<and> b \<le> addrBitLen a"
  by (auto simp: prefixIsValid_def prefixFrom_def)

lemma parseTunAddrPrefix_back: "readable p \<Longrightarrow> parseTunAddrPrefix (prefixString p) = Inr p"
  by (simp add: parseTunAddrPrefix_def parse_prefixString readable_def)

end
