(* ===== verification/Tun_Addr.thy ===== *)
theory Tun_Addr
  imports Tun_Prefix
begin

text \<open>
  The reconciliation of the addresses of a TUN interface, \<open>tun/address_linux.go\<close>. A plan of changes
  is made from the listed addresses and the desired prefixes, applied one change at a time, and the
  result is listed again and verified. The kernel is a parameter, a record of the three calls of
  \<open>tunAddrNetlink\<close>; \<open>tun_addr_netlink\<close> is what the reconciliation relies on to be right when it
  reports success, \<open>responsive_netlink\<close> what it relies on to succeed.
\<close>

section \<open>The netlink calls and the changes\<close>

definition unusableIPv6AddrFlags :: int where
  "unusableIPv6AddrFlags = IFA_F_TENTATIVE OR IFA_F_DADFAILED"

text \<open>\<open>tn_String\<close> is \<open>netlink.Addr.String\<close>, used in messages only.\<close>

record 'k tunAddrNetlink =
  tn_List :: "('k, NLAddr list) query"
  tn_Replace :: "NLAddr \<Rightarrow> 'k act"
  tn_Delete :: "NLAddr \<Rightarrow> 'k act"
  tn_String :: "NLAddr \<Rightarrow> string"

type_synonym tunAddrChangeKind = byte

abbreviation tunAddrReplace :: tunAddrChangeKind where "tunAddrReplace \<equiv> 0"
abbreviation tunAddrDelete :: tunAddrChangeKind where "tunAddrDelete \<equiv> 1"

record tunAddrChange =
  tc_kind :: tunAddrChangeKind
  tc_addr :: NLAddr
  tc_prefix :: Prefix

definition replaceTunAddrChange :: "Prefix \<Rightarrow> goError + tunAddrChange" where
  "replaceTunAddrChange pfx = (case netlinkAddrFromPrefix pfx of Inl err \<Rightarrow> Inl err
     | Inr addr \<Rightarrow> Inr \<lparr>tc_kind = tunAddrReplace, tc_addr = addr, tc_prefix = pfx\<rparr>)"

definition deleteTunAddrChange :: "NLAddr \<Rightarrow> tunAddrChange" where
  "deleteTunAddrChange addr = (let pfx = (case tunAddrPrefix addr of Some p \<Rightarrow> p | None \<Rightarrow> NoPrefix) in
     \<lparr>tc_kind = tunAddrDelete, tc_addr = addr, tc_prefix = pfx\<rparr>)"

definition tunAddrDescription :: "'k tunAddrNetlink \<Rightarrow> NLAddr \<Rightarrow> string" where
  "tunAddrDescription adapter addr = (case tunAddrPrefix addr of Some pfx \<Rightarrow> prefixString pfx
     | None \<Rightarrow> tn_String adapter addr)"

section \<open>The desired prefixes\<close>

definition invalidPrefix :: "Prefix \<Rightarrow> goError" where
  "invalidPrefix pfx = Errorf ''invalid address prefix %s'' [AStr (prefixString pfx)] []"

text \<open>The loop of \<open>normalizeTunAddrPrefixSet\<close>, on the prefixes seen, the length seen for each address,
  and the result so far.\<close>

fun normalizeLoop :: "Prefix set \<Rightarrow> (Addr \<rightharpoonup> int) \<Rightarrow> Prefix list \<Rightarrow> Prefix list \<Rightarrow> goError + Prefix list" where
  "normalizeLoop seen prefixBits normalized [] = Inr normalized"
| "normalizeLoop seen prefixBits normalized (pfx # rest) =
     (if \<not> prefixIsValid pfx then Inl (invalidPrefix pfx)
      else let conflict = (case prefixBits (pfxAddr pfx) of Some bits \<Rightarrow> bits \<noteq> pfxBits pfx | None \<Rightarrow> False) in
      if conflict then
        Inl (Errorf ''address %s has conflicting prefix lengths %d and %d''
          [AStr (addrString (pfxAddr pfx)), AInt (the (prefixBits (pfxAddr pfx))), AInt (pfxBits pfx)] [])
      else let prefixBits = prefixBits(pfxAddr pfx \<mapsto> pfxBits pfx) in
        if pfx \<in> seen then normalizeLoop seen prefixBits normalized rest
        else normalizeLoop (insert pfx seen) prefixBits (normalized @ [pfx]) rest)"

definition normalizeTunAddrPrefixSet :: "Prefix list \<Rightarrow> goError + Prefix list" where
  "normalizeTunAddrPrefixSet pfxs = normalizeLoop {} (\<lambda>_. None) [] pfxs"

section \<open>The plan\<close>

text \<open>What the first loop over the current addresses finds: the first index of each prefix, the
  indices of each address, and which entries are retained.\<close>

record tunAddrScan =
  sc_prefixes :: "Prefix list"
  sc_valid :: "bool list"
  sc_byPrefix :: "Prefix \<rightharpoonup> nat"
  sc_byIP :: "Addr \<Rightarrow> nat list"
  sc_retained :: "bool list"

fun scanCurrent :: "Prefix set \<Rightarrow> nat \<Rightarrow> NLAddr list \<Rightarrow> tunAddrScan \<Rightarrow> tunAddrScan" where
  "scanCurrent desiredSet i [] sc = sc"
| "scanCurrent desiredSet i (addr # rest) sc = scanCurrent desiredSet (i + 1) rest
     (case tunAddrPrefix addr of None \<Rightarrow> sc
      | Some pfx \<Rightarrow> sc\<lparr>sc_prefixes := (sc_prefixes sc)[i := pfx],
          sc_valid := (sc_valid sc)[i := True],
          sc_byPrefix := (if sc_byPrefix sc pfx = None then (sc_byPrefix sc)(pfx \<mapsto> i) else sc_byPrefix sc),
          sc_byIP := (sc_byIP sc)(pfxAddr pfx := sc_byIP sc (pfxAddr pfx) @ [i]),
          sc_retained := (if pfx \<in> desiredSet then (sc_retained sc)[i := True] else sc_retained sc)\<rparr>)"

definition emptyScan :: "nat \<Rightarrow> tunAddrScan" where
  "emptyScan n = \<lparr>sc_prefixes = replicate n NoPrefix, sc_valid = replicate n False, sc_byPrefix = (\<lambda>_. None),
     sc_byIP = (\<lambda>_. []), sc_retained = replicate n False\<rparr>"

text \<open>The loops over the desired prefixes: set NODAD on usable IPv6 addresses, add what is absent,
  replace unusable IPv6 addresses, replace addresses of another length.\<close>

fun planNoDAD :: "NLAddr list \<Rightarrow> tunAddrScan \<Rightarrow> tunAddrChange list \<Rightarrow> Prefix list \<Rightarrow> goError + tunAddrChange list" where
  "planNoDAD current sc changes [] = Inr changes"
| "planNoDAD current sc changes (pfx # rest) = (case sc_byPrefix sc pfx of None \<Rightarrow> planNoDAD current sc changes rest
     | Some i \<Rightarrow> if \<not> addrIs6 (pfxAddr pfx) then planNoDAD current sc changes rest
         else let flags = na_Flags (current ! i) in
         if flags AND unusableIPv6AddrFlags \<noteq> 0 \<or> flags AND IFA_F_NODAD \<noteq> 0 then planNoDAD current sc changes rest
         else case replaceTunAddrChange pfx of Inl err \<Rightarrow> Inl err
           | Inr change \<Rightarrow> planNoDAD current sc (changes @ [change]) rest)"

fun planAbsent :: "tunAddrScan \<Rightarrow> tunAddrChange list \<Rightarrow> Prefix list \<Rightarrow> goError + tunAddrChange list" where
  "planAbsent sc changes [] = Inr changes"
| "planAbsent sc changes (pfx # rest) =
     (if sc_byPrefix sc pfx \<noteq> None then planAbsent sc changes rest
      else if length (sc_byIP sc (pfxAddr pfx)) \<noteq> 0 then planAbsent sc changes rest
      else case replaceTunAddrChange pfx of Inl err \<Rightarrow> Inl err
        | Inr change \<Rightarrow> planAbsent sc (changes @ [change]) rest)"

fun planUnusable :: "NLAddr list \<Rightarrow> tunAddrScan \<Rightarrow> tunAddrChange list \<Rightarrow> bool list \<Rightarrow> Prefix list \<Rightarrow>
    goError + tunAddrChange list \<times> bool list" where
  "planUnusable current sc changes deleted [] = Inr (changes, deleted)"
| "planUnusable current sc changes deleted (pfx # rest) = (case sc_byPrefix sc pfx of
       None \<Rightarrow> planUnusable current sc changes deleted rest
     | Some i \<Rightarrow> if \<not> addrIs6 (pfxAddr pfx) \<or> na_Flags (current ! i) AND unusableIPv6AddrFlags = 0
         then planUnusable current sc changes deleted rest
         else let changes = changes @ [deleteTunAddrChange (current ! i)]; deleted = deleted[i := True] in
           case replaceTunAddrChange pfx of Inl err \<Rightarrow> Inl err
           | Inr change \<Rightarrow> planUnusable current sc (changes @ [change]) deleted rest)"

fun deleteConflicts :: "NLAddr list \<Rightarrow> nat list \<Rightarrow> tunAddrChange list \<times> bool list \<Rightarrow> tunAddrChange list \<times> bool list" where
  "deleteConflicts current [] (changes, deleted) = (changes, deleted)"
| "deleteConflicts current (i # conflicts) (changes, deleted) =
     (if deleted ! i then deleteConflicts current conflicts (changes, deleted)
      else deleteConflicts current conflicts (changes @ [deleteTunAddrChange (current ! i)], deleted[i := True]))"

fun planConflicts :: "NLAddr list \<Rightarrow> tunAddrScan \<Rightarrow> tunAddrChange list \<Rightarrow> bool list \<Rightarrow> Prefix list \<Rightarrow>
    goError + tunAddrChange list \<times> bool list" where
  "planConflicts current sc changes deleted [] = Inr (changes, deleted)"
| "planConflicts current sc changes deleted (pfx # rest) =
     (if sc_byPrefix sc pfx \<noteq> None then planConflicts current sc changes deleted rest
      else let conflicts = sc_byIP sc (pfxAddr pfx) in
      if length conflicts = 0 then planConflicts current sc changes deleted rest
      else case deleteConflicts current conflicts (changes, deleted) of (changes, deleted) \<Rightarrow>
        (case replaceTunAddrChange pfx of Inl err \<Rightarrow> Inl err
         | Inr change \<Rightarrow> planConflicts current sc (changes @ [change]) deleted rest))"

text \<open>The last loop, over the current addresses: delete what is neither retained nor deleted.\<close>

fun planObsolete :: "Prefix set \<Rightarrow> tunAddrScan \<Rightarrow> bool list \<Rightarrow> nat \<Rightarrow> NLAddr list \<Rightarrow> tunAddrChange list" where
  "planObsolete desiredSet sc deleted i [] = []"
| "planObsolete desiredSet sc deleted i (addr # rest) =
     (if sc_retained sc ! i \<or> deleted ! i then planObsolete desiredSet sc deleted (i + 1) rest
      else if sc_valid sc ! i \<and> sc_prefixes sc ! i \<in> desiredSet then planObsolete desiredSet sc deleted (i + 1) rest
      else deleteTunAddrChange addr # planObsolete desiredSet sc deleted (i + 1) rest)"

definition planTunAddrReconciliation :: "NLAddr list \<Rightarrow> Prefix list \<Rightarrow> goError + tunAddrChange list" where
  "planTunAddrReconciliation current desired0 = (case normalizeTunAddrPrefixSet desired0 of Inl err \<Rightarrow> Inl err
     | Inr desired \<Rightarrow>
       (let desiredSet = set desired;
            sc = scanCurrent desiredSet 0 current (emptyScan (length current));
            deleted = replicate (length current) False
        in case planNoDAD current sc [] desired of Inl err \<Rightarrow> Inl err
         | Inr changes \<Rightarrow> (case planAbsent sc changes desired of Inl err \<Rightarrow> Inl err
         | Inr changes \<Rightarrow> (case planUnusable current sc changes deleted desired of Inl err \<Rightarrow> Inl err
         | Inr (changes, deleted) \<Rightarrow> (case planConflicts current sc changes deleted desired of Inl err \<Rightarrow> Inl err
         | Inr (changes, deleted) \<Rightarrow> Inr (changes @ planObsolete desiredSet sc deleted 0 current))))))"

definition planExistingIPv6AddrAddition :: "NLAddr \<Rightarrow> Prefix \<Rightarrow> goError + tunAddrChange list" where
  "planExistingIPv6AddrAddition current pfx =
     (if na_Flags current AND IFA_F_NODAD \<noteq> 0 \<and> na_Flags current AND unusableIPv6AddrFlags = 0 then Inr []
      else case replaceTunAddrChange pfx of Inl err \<Rightarrow> Inl err
        | Inr change \<Rightarrow> if na_Flags current AND unusableIPv6AddrFlags = 0 then Inr [change]
            else Inr [deleteTunAddrChange current, change])"

text \<open>The loop of \<open>planTunAddrAddition\<close> collects the entries of the same address and another length, and
  stops at the entry of the prefix itself.\<close>

fun findConflicts :: "Prefix \<Rightarrow> NLAddr list \<Rightarrow> NLAddr list \<Rightarrow> NLAddr + NLAddr list" where
  "findConflicts pfx conflicts [] = Inr conflicts"
| "findConflicts pfx conflicts (addr # rest) = (case tunAddrPrefix addr of
       None \<Rightarrow> findConflicts pfx conflicts rest
     | Some currentPrefix \<Rightarrow> if pfxAddr currentPrefix \<noteq> pfxAddr pfx then findConflicts pfx conflicts rest
         else if currentPrefix \<noteq> pfx then findConflicts pfx (conflicts @ [addr]) rest
         else Inl addr)"

definition planTunAddrAddition :: "NLAddr list \<Rightarrow> Prefix \<Rightarrow> goError + tunAddrChange list" where
  "planTunAddrAddition current pfx =
     (if \<not> prefixIsValid pfx then Inl (invalidPrefix pfx)
      else if \<not> addrIs6 (pfxAddr pfx) then map_sum id (\<lambda>change. [change]) (replaceTunAddrChange pfx)
      else case findConflicts pfx [] current of Inl existing \<Rightarrow> planExistingIPv6AddrAddition existing pfx
        | Inr conflicts \<Rightarrow>
            map_sum id (\<lambda>change. map deleteTunAddrChange conflicts @ [change]) (replaceTunAddrChange pfx))"

section \<open>Applying and verifying\<close>

definition applyTunAddrChange :: "'k tunAddrNetlink \<Rightarrow> tunAddrChange \<Rightarrow> 'k act" where
  "applyTunAddrChange adapter change =
     (if tc_kind change = tunAddrReplace then
        wrapE (\<lambda>err. Errorf ''replace address %s: %w'' [AStr (prefixString (tc_prefix change))] [err])
          (tn_Replace adapter (tc_addr change))
      else if tc_kind change = tunAddrDelete then
        wrapE (\<lambda>err. Errorf ''delete address %s: %w'' [AStr (tunAddrDescription adapter (tc_addr change))] [err])
          (tn_Delete adapter (tc_addr change))
      else (\<lambda>k. (Some (Errorf ''unknown address change kind %d'' [AInt (uint (tc_kind change))] []), k)))"

definition applyTunAddrChanges :: "'k tunAddrNetlink \<Rightarrow> tunAddrChange list \<Rightarrow> 'k act" where
  "applyTunAddrChanges adapter changes = forE (applyTunAddrChange adapter) changes"

text \<open>The map of the verification keeps the last entry of each prefix.\<close>

fun lastByPrefix :: "(Prefix \<rightharpoonup> NLAddr) \<Rightarrow> NLAddr list \<Rightarrow> Prefix \<rightharpoonup> NLAddr" where
  "lastByPrefix m [] = m"
| "lastByPrefix m (addr # rest) =
     lastByPrefix (case tunAddrPrefix addr of Some pfx \<Rightarrow> m(pfx \<mapsto> addr) | None \<Rightarrow> m) rest"

fun verifyLoop :: "(Prefix \<rightharpoonup> NLAddr) \<Rightarrow> Prefix list \<Rightarrow> goError option" where
  "verifyLoop currentByPrefix [] = None"
| "verifyLoop currentByPrefix (pfx # rest) = (case currentByPrefix pfx of
       None \<Rightarrow> Some (Errorf ''verify address %s: address is absent'' [AStr (prefixString pfx)] [])
     | Some addr \<Rightarrow>
         if \<not> addrIs6 (pfxAddr pfx) then verifyLoop currentByPrefix rest
         else if na_Flags addr AND IFA_F_NODAD = 0 then
           Some (Errorf ''verify address %s: IFA_F_NODAD is not set'' [AStr (prefixString pfx)] [])
         else if na_Flags addr AND unusableIPv6AddrFlags \<noteq> 0 then
           Some (Errorf ''verify address %s: unusable flags %#x''
             [AStr (prefixString pfx), AInt (na_Flags addr AND unusableIPv6AddrFlags)] [])
         else verifyLoop currentByPrefix rest)"

definition verifyTunAddrPrefixes :: "'k tunAddrNetlink \<Rightarrow> Prefix list \<Rightarrow> 'k act" where
  "verifyTunAddrPrefixes adapter desired k = (case tn_List adapter k of
       (Inl err, k) \<Rightarrow> (Some (Errorf ''verify addresses: %w'' [] [err]), k)
     | (Inr current, k) \<Rightarrow> (verifyLoop (lastByPrefix (\<lambda>_. None) current) desired, k))"

definition setTunAddrPrefixes :: "'k tunAddrNetlink \<Rightarrow> Prefix list \<Rightarrow> 'k act" where
  "setTunAddrPrefixes adapter pfxs k = (case normalizeTunAddrPrefixSet pfxs of Inl err \<Rightarrow> (Some err, k)
     | Inr desired \<Rightarrow> (case tn_List adapter k of (Inl err, k) \<Rightarrow> (Some (Errorf ''list addresses: %w'' [] [err]), k)
       | (Inr current, k) \<Rightarrow> (case planTunAddrReconciliation current desired of Inl err \<Rightarrow> (Some err, k)
         | Inr changes \<Rightarrow> thenE (applyTunAddrChanges adapter changes) (verifyTunAddrPrefixes adapter desired) k)))"

definition addTunAddrPrefix :: "'k tunAddrNetlink \<Rightarrow> Prefix \<Rightarrow> 'k act" where
  "addTunAddrPrefix adapter pfx k =
     (if \<not> prefixIsValid pfx then (Some (invalidPrefix pfx), k)
      else case tn_List adapter k of (Inl err, k) \<Rightarrow> (Some (Errorf ''list addresses: %w'' [] [err]), k)
       | (Inr current, k) \<Rightarrow> (case planTunAddrAddition current pfx of Inl err \<Rightarrow> (Some err, k)
         | Inr changes \<Rightarrow> thenE (applyTunAddrChanges adapter changes) (verifyTunAddrPrefixes adapter [pfx]) k))"

section \<open>Normalised prefixes\<close>

text \<open>Prefixes that an interface can have together: all valid, no address with two lengths.\<close>

definition consistent :: "Prefix set \<Rightarrow> bool" where
  "consistent P \<longleftrightarrow> (\<forall>p \<in> P. prefixIsValid p) \<and> inj_on pfxAddr P"

definition tracks :: "Prefix set \<Rightarrow> (Addr \<rightharpoonup> int) \<Rightarrow> bool" where
  "tracks seen m \<longleftrightarrow> (\<forall>a b. m a = Some b \<longleftrightarrow> Prefix a b \<in> seen)"

lemma tracksD: "tracks seen m \<Longrightarrow> p \<in> seen \<Longrightarrow> m (pfxAddr p) = Some (pfxBits p)"
  by (simp add: tracks_def)

lemma tracks_insert:
  assumes "tracks seen m" and "m (pfxAddr p) = None \<or> m (pfxAddr p) = Some (pfxBits p)"
  shows "tracks (insert p seen) (m(pfxAddr p \<mapsto> pfxBits p))"
  unfolding tracks_def
proof (intro allI)
  fix a b
  have m: "m a = Some b \<longleftrightarrow> Prefix a b \<in> seen" using assms(1) by (simp add: tracks_def)
  show "(m(pfxAddr p \<mapsto> pfxBits p)) a = Some b \<longleftrightarrow> Prefix a b \<in> insert p seen"
  proof (cases "a = pfxAddr p")
    case True
    then have "Prefix a b = p \<longleftrightarrow> b = pfxBits p" by (cases p) simp
    with True m assms(2) show ?thesis by auto
  qed (use m in auto)
qed

lemma tracks_seen: "tracks seen m \<Longrightarrow> p \<in> seen \<Longrightarrow> m(pfxAddr p \<mapsto> pfxBits p) = m"
  using tracksD by (metis fun_upd_triv)

lemma normalizeLoop_Inl:
  assumes "tracks seen m" and "normalizeLoop seen m out ps = Inl e"
  shows "\<not> ((\<forall>p \<in> set ps. prefixIsValid p) \<and> inj_on pfxAddr (seen \<union> set ps))"
  using assms
proof (induction ps arbitrary: seen m out)
  case (Cons p ps)
  show ?case
  proof (cases "prefixIsValid p \<and> (m (pfxAddr p) = None \<or> m (pfxAddr p) = Some (pfxBits p))")
    case True
    have "tracks (insert p seen) (m(pfxAddr p \<mapsto> pfxBits p))" using tracks_insert Cons.prems(1) True by blast
    moreover have "\<exists>out. normalizeLoop (insert p seen) (m(pfxAddr p \<mapsto> pfxBits p)) out ps = Inl e"
      using Cons.prems(2) True by (auto simp: Let_def insert_absorb split: if_splits)
    ultimately have "\<not> ((\<forall>p \<in> set ps. prefixIsValid p) \<and> inj_on pfxAddr (insert p seen \<union> set ps))"
      using Cons.IH by blast
    then show ?thesis by simp
  next
    case False
    then show ?thesis
    proof (cases "prefixIsValid p")
      case True
      then obtain b where "m (pfxAddr p) = Some b" "b \<noteq> pfxBits p" using False by auto
      then have "Prefix (pfxAddr p) b \<in> seen" "Prefix (pfxAddr p) b \<noteq> p"
        using Cons.prems(1) by (simp add: tracks_def, metis Prefix.sel(2))
      then have "\<not> inj_on pfxAddr (seen \<union> set (p # ps))" unfolding inj_on_def by (metis Prefix.sel(1) UnI1 UnI2 list.set_intros(1))
      then show ?thesis by blast
    qed simp
  qed
qed simp

lemma normalizeLoop_Inr:
  assumes "tracks (set S) m" and "normalizeLoop (set S) m out ps = Inr r"
  shows "(\<forall>p \<in> set ps. prefixIsValid p) \<and> inj_on pfxAddr (set S \<union> set ps) \<and>
    r = out @ dedup_from (\<lambda>x. x) S ps"
  using assms
proof (induction ps arbitrary: S m out)
  case Nil
  have "p = q" if "p \<in> set S" "q \<in> set S" "pfxAddr p = pfxAddr q" for p q
    using that tracksD [OF Nil(1), of p] tracksD [OF Nil(1), of q] by (simp add: Prefix.expand)
  then show ?case using Nil(2) by (auto simp: inj_on_def)
next
  case (Cons p ps)
  have ok: "prefixIsValid p" "m (pfxAddr p) = None \<or> m (pfxAddr p) = Some (pfxBits p)"
    using Cons.prems(2) by (auto simp: Let_def split: if_splits option.splits)
  note tr = tracks_insert [OF Cons.prems(1) ok(2)]
  show ?case
  proof (cases "p \<in> set S")
    case True
    then have "normalizeLoop (set S) m out ps = Inr r" using Cons.prems ok
      by (auto simp: Let_def tracks_seen split: if_splits option.splits)
    from Cons.IH [OF Cons.prems(1) this] show ?thesis using True ok by (auto simp: insert_absorb)
  next
    case False
    then have "normalizeLoop (set (p # S)) (m(pfxAddr p \<mapsto> pfxBits p)) (out @ [p]) ps = Inr r" using Cons.prems(2) ok
      by (auto simp: Let_def split: if_splits option.splits)
    from Cons.IH [OF tr [folded list.set(2)] this] show ?thesis using False ok by simp
  qed
qed

lemma normalize_Inr: "normalizeTunAddrPrefixSet ps = Inr r \<longleftrightarrow> consistent (set ps) \<and> r = dedup_by (\<lambda>x. x) ps"
proof (cases "normalizeTunAddrPrefixSet ps")
  case (Inl e)
  have "tracks {} (\<lambda>_. None)" by (simp add: tracks_def)
  from normalizeLoop_Inl [OF this Inl [unfolded normalizeTunAddrPrefixSet_def]] Inl show ?thesis by (auto simp: consistent_def)
next
  case (Inr r')
  have "tracks (set []) (\<lambda>_. None)" by (simp add: tracks_def)
  from normalizeLoop_Inr [OF this, of "[]" ps r'] Inr show ?thesis by (auto simp: consistent_def normalizeTunAddrPrefixSet_def)
qed

lemma normalize_again:
  "normalizeTunAddrPrefixSet ps = Inr r \<Longrightarrow> normalizeTunAddrPrefixSet r = Inr r"
  by (auto simp: normalize_Inr dedup_from_distinct)

section \<open>The plan, entry by entry\<close>

text \<open>What the scan of the first entries of the list has found.\<close>

definition hasAddr :: "Addr \<Rightarrow> NLAddr \<Rightarrow> bool" where
  "hasAddr ip a \<longleftrightarrow> (case tunAddrPrefix a of None \<Rightarrow> False | Some q \<Rightarrow> pfxAddr q = ip)"

definition scanned :: "Prefix set \<Rightarrow> nat \<Rightarrow> NLAddr list \<Rightarrow> tunAddrScan \<Rightarrow> bool" where
  "scanned D n pre sc \<longleftrightarrow> length (sc_prefixes sc) = n \<and> length (sc_valid sc) = n \<and> length (sc_retained sc) = n \<and>
     (\<forall>j < n. sc_retained sc ! j \<longleftrightarrow> j < length pre \<and> tunAddrPrefix (pre ! j) \<in> Some ` D) \<and>
     (\<forall>j < n. sc_valid sc ! j \<longrightarrow> j < length pre \<and> tunAddrPrefix (pre ! j) = Some (sc_prefixes sc ! j)) \<and>
     (\<forall>p. map_option ((!) pre) (sc_byPrefix sc p) = find (\<lambda>a. tunAddrPrefix a = Some p) pre) \<and>
     (\<forall>p j. sc_byPrefix sc p = Some j \<longrightarrow> j < length pre) \<and>
     (\<forall>ip. sc_byIP sc ip = filter (\<lambda>j. hasAddr ip (pre ! j)) [0..<length pre])"

lemma find_append: "find P (xs @ ys) = (case find P xs of Some x \<Rightarrow> Some x | None \<Rightarrow> find P ys)"
  by (induction xs) auto

lemma filter_upt_cong: "filter (\<lambda>j. P ((xs @ ys) ! j)) [0..<length xs] = filter (\<lambda>j. P (xs ! j)) [0..<length xs]"
  by (rule filter_cong) (auto simp: nth_append)

lemma scanned_empty: "scanned D n [] (emptyScan n)"
  by (simp add: scanned_def emptyScan_def)

lemma scanned_find:
  assumes "scanned D n pre sc"
  shows "map_option ((!) (pre @ ys)) (sc_byPrefix sc q) = find (\<lambda>a. tunAddrPrefix a = Some q) pre"
proof -
  have "map_option ((!) pre) (sc_byPrefix sc q) = find (\<lambda>a. tunAddrPrefix a = Some q) pre"
    and "\<And>j. sc_byPrefix sc q = Some j \<Longrightarrow> j < length pre" using assms by (simp_all add: scanned_def)
  then show ?thesis by (cases "sc_byPrefix sc q") (simp_all add: nth_append)
qed

lemma scanned_step:
  assumes "scanned D n pre sc" and "length pre < n"
  shows "scanned D n (pre @ [a]) (scanCurrent D (length pre) [a] sc)"
proof (cases "tunAddrPrefix a")
  case None
  then have has: "hasAddr ip a = False" for ip by (simp add: hasAddr_def)
  have f: "find (\<lambda>a. tunAddrPrefix a = Some p) (pre @ [a]) = find (\<lambda>a. tunAddrPrefix a = Some p) pre" for p
    using None by (simp add: find_append split: option.split)
  have ips: "filter (\<lambda>j. hasAddr ip ((pre @ [a]) ! j)) [0..<length (pre @ [a])] = filter (\<lambda>j. hasAddr ip (pre ! j)) [0..<length pre]" for ip
    using has by (simp add: filter_upt_cong)
  show ?thesis unfolding scanned_def f ips using assms None scanned_find [OF assms(1), of "[a]"]
    by (auto simp: scanned_def less_Suc_eq image_iff nth_append)
next
  case (Some p)
  let ?sc = "scanCurrent D (length pre) [a] sc" and ?i = "length pre"
  have has: "hasAddr ip a \<longleftrightarrow> ip = pfxAddr p" for ip using Some by (auto simp: hasAddr_def)
  have ip: "sc_byIP ?sc ip = filter (\<lambda>j. hasAddr ip ((pre @ [a]) ! j)) [0..<length (pre @ [a])]" for ip
    using assms(1) Some has by (auto simp: scanned_def filter_upt_cong)
  have bound: "j < length (pre @ [a])" if "sc_byPrefix ?sc q = Some j" for q j
    using that assms(1) Some by (auto simp: scanned_def less_Suc_eq split: if_splits)
  have bp: "map_option ((!) (pre @ [a])) (sc_byPrefix ?sc q) = find (\<lambda>a. tunAddrPrefix a = Some q) (pre @ [a])" for q
    using scanned_find [OF assms(1), of "[a]" q, symmetric] Some
    by (cases "sc_byPrefix sc q"; cases "p = q") (auto simp: find_append split: option.split)
  show ?thesis unfolding scanned_def
  proof (intro conjI)
    show "\<forall>j < n. sc_retained ?sc ! j \<longleftrightarrow> j < length (pre @ [a]) \<and> tunAddrPrefix ((pre @ [a]) ! j) \<in> Some ` D"
      using assms Some by (auto simp: scanned_def nth_append nth_list_update less_Suc_eq)
    show "\<forall>j < n. sc_valid ?sc ! j \<longrightarrow> j < length (pre @ [a]) \<and> tunAddrPrefix ((pre @ [a]) ! j) = Some (sc_prefixes ?sc ! j)"
      using assms Some by (auto simp: scanned_def nth_append nth_list_update less_Suc_eq)
  qed (use assms Some ip bound bp in \<open>auto simp: scanned_def\<close>)
qed

lemma scanCurrent_Cons: "scanCurrent D i (a # rest) sc = scanCurrent D (i + 1) rest (scanCurrent D i [a] sc)"
  by simp

lemma scanCurrent_scanned:
  "scanned D n pre sc \<Longrightarrow> length pre + length rest \<le> n \<Longrightarrow> scanned D n (pre @ rest) (scanCurrent D (length pre) rest sc)"
proof (induction rest arbitrary: pre sc)
  case (Cons a rest)
  have "scanned D n (pre @ [a]) (scanCurrent D (length pre) [a] sc)"
    using Cons.prems by (intro scanned_step) simp_all
  from Cons.IH [OF this] Cons.prems show ?case by (subst scanCurrent_Cons) simp
qed simp

definition scanOf :: "Prefix set \<Rightarrow> NLAddr list \<Rightarrow> tunAddrScan" where
  "scanOf D current = scanCurrent D 0 current (emptyScan (length current))"

lemma scanOf_scanned: "scanned D (length current) current (scanOf D current)"
  using scanCurrent_scanned [OF scanned_empty, of current "length current" D] by (simp add: scanOf_def)

text \<open>
  The same plan written over the entries instead of the index arrays: what each desired prefix needs,
  in five groups.
\<close>

definition usableV6 :: "NLAddr \<Rightarrow> bool" where
  "usableV6 a \<longleftrightarrow> na_Flags a AND unusableIPv6AddrFlags = 0"

definition noDAD :: "NLAddr \<Rightarrow> bool" where
  "noDAD a \<longleftrightarrow> na_Flags a AND IFA_F_NODAD \<noteq> 0"

definition entryOf :: "NLAddr list \<Rightarrow> Prefix \<Rightarrow> NLAddr option" where
  "entryOf current p = find (\<lambda>a. tunAddrPrefix a = Some p) current"

definition sameIP :: "NLAddr list \<Rightarrow> Prefix \<Rightarrow> NLAddr list" where
  "sameIP current p = filter (hasAddr (pfxAddr p)) current"

definition repl :: "Prefix \<Rightarrow> tunAddrChange" where
  "repl p = \<lparr>tc_kind = tunAddrReplace, tc_addr = projr (netlinkAddrFromPrefix p), tc_prefix = p\<rparr>"

definition needsNoDAD :: "NLAddr list \<Rightarrow> Prefix \<Rightarrow> bool" where
  "needsNoDAD current p \<longleftrightarrow> addrIs6 (pfxAddr p) \<and> (\<exists>a. entryOf current p = Some a \<and> usableV6 a \<and> \<not> noDAD a)"

definition needsRenewal :: "NLAddr list \<Rightarrow> Prefix \<Rightarrow> bool" where
  "needsRenewal current p \<longleftrightarrow> addrIs6 (pfxAddr p) \<and> (\<exists>a. entryOf current p = Some a \<and> \<not> usableV6 a)"

definition hasConflict :: "NLAddr list \<Rightarrow> Prefix \<Rightarrow> bool" where
  "hasConflict current p \<longleftrightarrow> entryOf current p = None \<and> sameIP current p \<noteq> []"

definition obsolete_entry :: "NLAddr list \<Rightarrow> Prefix list \<Rightarrow> NLAddr \<Rightarrow> bool" where
  "obsolete_entry current D a \<longleftrightarrow> tunAddrPrefix a \<notin> Some ` set D \<and>
     \<not> list_ex (\<lambda>p. hasConflict current p \<and> hasAddr (pfxAddr p) a) D"

definition refPlan :: "NLAddr list \<Rightarrow> Prefix list \<Rightarrow> tunAddrChange list" where
  "refPlan current D =
     map repl (filter (needsNoDAD current) D) @
     map repl (filter (\<lambda>p. sameIP current p = []) D) @
     concat (map (\<lambda>p. [deleteTunAddrChange (the (entryOf current p)), repl p]) (filter (needsRenewal current) D)) @
     concat (map (\<lambda>p. map deleteTunAddrChange (sameIP current p) @ [repl p]) (filter (hasConflict current) D)) @
     map deleteTunAddrChange (filter (obsolete_entry current D) current)"

lemma replaceTunAddrChange_valid [simp]: "prefixIsValid p \<Longrightarrow> replaceTunAddrChange p = Inr (repl p)"
  using netlinkAddrFromPrefix_Inr [of p] by (cases "netlinkAddrFromPrefix p") (auto simp: replaceTunAddrChange_def repl_def)

lemma entryOf_Some: "entryOf current p = Some a \<Longrightarrow> a \<in> set current \<and> tunAddrPrefix a = Some p"
  by (auto simp: entryOf_def find_Some_iff)

lemma entryOf_None: "entryOf current p = None \<longleftrightarrow> (\<forall>a \<in> set current. tunAddrPrefix a \<noteq> Some p)"
  by (auto simp: entryOf_def find_None_iff)

lemma sameIP_Nil: "sameIP current p = [] \<Longrightarrow> entryOf current p = None"
  by (auto simp: sameIP_def entryOf_None filter_empty_conv hasAddr_def)

lemma scanned_entry:
  assumes "scanned D (length current) current sc"
  shows "entryOf current p = map_option ((!) current) (sc_byPrefix sc p)"
  using assms by (simp add: scanned_def entryOf_def)

lemma scanned_sameIP:
  assumes "scanned D (length current) current sc"
  shows "sameIP current p = map ((!) current) (sc_byIP sc (pfxAddr p))"
proof -
  have "filter P current = map ((!) current) (filter (\<lambda>j. P (current ! j)) [0..<length current])" for P
    using filter_map [of P "(!) current" "[0..<length current]"] by (simp add: comp_def map_nth)
  then show ?thesis using assms by (simp add: sameIP_def scanned_def)
qed

lemma planNoDAD_ref:
  assumes sc: "scanned D (length current) current sc"
  shows "\<forall>p \<in> set ds. prefixIsValid p \<Longrightarrow>
     planNoDAD current sc changes ds = Inr (changes @ map repl (filter (needsNoDAD current) ds))"
  by (induction ds arbitrary: changes)
    (auto simp: scanned_entry [OF sc] needsNoDAD_def usableV6_def noDAD_def Let_def split: option.splits)

lemma planAbsent_ref:
  assumes sc: "scanned D (length current) current sc"
  shows "\<forall>p \<in> set ds. prefixIsValid p \<Longrightarrow>
     planAbsent sc changes ds = Inr (changes @ map repl (filter (\<lambda>p. sameIP current p = []) ds))"
proof (induction ds arbitrary: changes)
  case (Cons p ds)
  have "sameIP current p = [] \<longleftrightarrow> sc_byPrefix sc p = None \<and> length (sc_byIP sc (pfxAddr p)) = 0"
    using sameIP_Nil [of current p] scanned_entry [OF sc, of p] by (auto simp: scanned_sameIP [OF sc])
  with Cons show ?case by auto
qed simp

text \<open>The indices of entries with a property.\<close>

definition markedAt :: "NLAddr list \<Rightarrow> bool list \<Rightarrow> (NLAddr \<Rightarrow> bool) \<Rightarrow> bool" where
  "markedAt current deleted P \<longleftrightarrow> length deleted = length current \<and>
     (\<forall>i < length current. deleted ! i \<longrightarrow> P (current ! i))"

lemma planUnusable_ref:
  assumes sc: "scanned D (length current) current sc" and "\<forall>p \<in> set ds. prefixIsValid p"
    and "markedAt current deleted (\<lambda>a. tunAddrPrefix a \<in> Some ` S)" and "set ds \<subseteq> S"
  shows "\<exists>deleted'. planUnusable current sc changes deleted ds = Inr (changes @ concat (map (\<lambda>p.
      [deleteTunAddrChange (the (entryOf current p)), repl p]) (filter (needsRenewal current) ds)), deleted') \<and>
    markedAt current deleted' (\<lambda>a. tunAddrPrefix a \<in> Some ` S)"
  using assms(2-)
proof (induction ds arbitrary: changes deleted)
  case (Cons p ds)
  show ?case
  proof (cases "needsRenewal current p")
    case True
    then obtain i where i: "sc_byPrefix sc p = Some i" and e: "entryOf current p = Some (current ! i)"
      by (auto simp: needsRenewal_def scanned_entry [OF sc])
    have il: "i < length current" using i sc by (simp add: scanned_def)
    have "markedAt current (deleted[i := True]) (\<lambda>a. tunAddrPrefix a \<in> Some ` S)"
      using Cons.prems il entryOf_Some [OF e] by (auto simp: markedAt_def nth_list_update)
    from Cons.IH [OF _ this, of "changes @ [deleteTunAddrChange (current ! i), repl p]"] show ?thesis
      using Cons.prems True i e by (auto simp: needsRenewal_def usableV6_def Let_def)
  next
    case False
    then show ?thesis using Cons by (auto simp: needsRenewal_def usableV6_def scanned_entry [OF sc] split: option.splits)
  qed
qed simp

lemma deleteConflicts_ref:
  assumes "distinct js" and "\<forall>j \<in> set js. j < length deleted \<and> \<not> deleted ! j"
  shows "\<exists>deleted'. deleteConflicts current js (changes, deleted) =
      (changes @ map (\<lambda>j. deleteTunAddrChange (current ! j)) js, deleted') \<and> length deleted' = length deleted \<and>
      (\<forall>i < length deleted. deleted' ! i \<longleftrightarrow> deleted ! i \<or> i \<in> set js)"
  using assms
proof (induction js arbitrary: changes deleted)
  case (Cons j js)
  have "\<forall>i \<in> set js. i < length (deleted[j := True]) \<and> \<not> deleted[j := True] ! i"
    using Cons.prems by (auto simp: nth_list_update)
  from Cons.IH [OF _ this, of "changes @ [deleteTunAddrChange (current ! j)]"] Cons.prems
  obtain deleted' where "deleteConflicts current js (changes @ [deleteTunAddrChange (current ! j)], deleted[j := True]) =
      (changes @ map (\<lambda>j. deleteTunAddrChange (current ! j)) (j # js), deleted')" "length deleted' = length deleted"
      "\<forall>i < length deleted. deleted' ! i \<longleftrightarrow> deleted[j := True] ! i \<or> i \<in> set js" by auto
  then show ?case using Cons.prems by (intro exI [of _ deleted']) (auto simp: nth_list_update)
qed simp

lemma planConflicts_ref:
  assumes sc: "scanned D (length current) current sc" and "\<forall>p \<in> set ds. prefixIsValid p"
    and "distinct (map pfxAddr ds)" and "length deleted = length current"
    and "\<forall>i < length current. deleted ! i \<longrightarrow> (\<forall>p \<in> set ds. hasConflict current p \<longrightarrow> \<not> hasAddr (pfxAddr p) (current ! i))"
  shows "\<exists>deleted'. planConflicts current sc changes deleted ds = Inr (changes @ concat (map (\<lambda>p.
      map deleteTunAddrChange (sameIP current p) @ [repl p]) (filter (hasConflict current) ds)), deleted') \<and>
    (\<forall>i < length current. deleted' ! i \<longleftrightarrow> deleted ! i \<or>
      (\<exists>p \<in> set ds. hasConflict current p \<and> hasAddr (pfxAddr p) (current ! i)))"
  using assms(2-)
proof (induction ds arbitrary: changes deleted)
  case (Cons p ds)
  let ?js = "sc_byIP sc (pfxAddr p)"
  have js: "?js = filter (\<lambda>j. hasAddr (pfxAddr p) (current ! j)) [0..<length current]" using sc by (simp add: scanned_def)
  have cf: "hasConflict current p \<longleftrightarrow> sc_byPrefix sc p = None \<and> length ?js \<noteq> 0"
    by (simp add: hasConflict_def scanned_entry [OF sc] scanned_sameIP [OF sc])
  show ?case
  proof (cases "hasConflict current p")
    case True
    have "\<forall>j \<in> set ?js. j < length deleted \<and> \<not> deleted ! j" using Cons.prems(3,4) True by (auto simp: js)
    from deleteConflicts_ref [OF _ this, of current changes] obtain deleted1 where
      dc: "deleteConflicts current ?js (changes, deleted) = (changes @ map deleteTunAddrChange (sameIP current p), deleted1)"
      and l1: "length deleted1 = length current"
      and d1: "\<forall>i < length current. deleted1 ! i \<longleftrightarrow> deleted ! i \<or> hasAddr (pfxAddr p) (current ! i)"
      using Cons.prems(3) by (auto simp: js scanned_sameIP [OF sc] comp_def)
    have other: "\<not> hasAddr (pfxAddr q) a" if "q \<in> set ds" "hasAddr (pfxAddr p) a" for q a
      using that Cons.prems(2) by (auto simp: hasAddr_def split: option.splits)
    have "\<forall>i < length current. deleted1 ! i \<longrightarrow> (\<forall>p \<in> set ds. hasConflict current p \<longrightarrow> \<not> hasAddr (pfxAddr p) (current ! i))"
      using Cons.prems(4) d1 other by auto
    from Cons.IH [OF _ _ l1 this, of "changes @ map deleteTunAddrChange (sameIP current p) @ [repl p]"] show ?thesis
      using Cons.prems cf True dc d1 by (auto simp: Let_def)
  next
    case False
    have IH: "\<exists>deleted'. planConflicts current sc changes deleted ds = Inr (changes @ concat (map (\<lambda>p.
        map deleteTunAddrChange (sameIP current p) @ [repl p]) (filter (hasConflict current) ds)), deleted') \<and>
      (\<forall>i < length current. deleted' ! i \<longleftrightarrow> deleted ! i \<or>
        (\<exists>p \<in> set ds. hasConflict current p \<and> hasAddr (pfxAddr p) (current ! i)))"
      using Cons.prems by (intro Cons.IH) auto
    have "planConflicts current sc changes deleted (p # ds) = planConflicts current sc changes deleted ds"
      using False cf by (auto simp: Let_def)
    then show ?thesis using IH False by auto
  qed
qed simp

lemma planObsolete_ref:
  assumes "scanned D (length current) current sc" and "current = pre @ rest"
    and "\<forall>i < length current. deleted ! i \<or> tunAddrPrefix (current ! i) \<in> Some ` D \<longleftrightarrow> \<not> Q (current ! i)"
  shows "planObsolete D sc deleted (length pre) rest = map deleteTunAddrChange (filter Q rest)"
  using assms(2)
proof (induction rest arbitrary: pre)
  case (Cons a rest)
  let ?i = "length pre"
  have i: "?i < length current" "current ! ?i = a" using Cons.prems by simp_all
  have r: "sc_retained sc ! ?i \<longleftrightarrow> tunAddrPrefix a \<in> Some ` D" using assms(1) i by (auto simp: scanned_def)
  have v: "sc_valid sc ! ?i \<and> sc_prefixes sc ! ?i \<in> D \<Longrightarrow> tunAddrPrefix a \<in> Some ` D" using assms(1) i by (auto simp: scanned_def)
  have q: "deleted ! ?i \<or> tunAddrPrefix a \<in> Some ` D \<longleftrightarrow> \<not> Q a" using assms(3) i by blast
  have IH: "planObsolete D sc deleted (?i + 1) rest = map deleteTunAddrChange (filter Q rest)"
    using Cons.IH [of "pre @ [a]"] Cons.prems by simp
  show ?case using r v q IH by auto
qed simp

lemma plan_is_refPlan:
  assumes "normalizeTunAddrPrefixSet D0 = Inr D"
  shows "planTunAddrReconciliation current D0 = Inr (refPlan current D)"
proof -
  have D: "consistent (set D)" "distinct D" using assms by (auto simp: normalize_Inr)
  then have valid: "\<forall>p \<in> set D. prefixIsValid p" and inj: "inj_on pfxAddr (set D)" by (simp_all add: consistent_def)
  let ?sc = "scanCurrent (set D) 0 current (emptyScan (length current))" and ?none = "replicate (length current) False"
  have sc: "scanned (set D) (length current) current ?sc" using scanOf_scanned by (simp add: scanOf_def)
  let ?c1 = "map repl (filter (needsNoDAD current) D)" and ?c2 = "map repl (filter (\<lambda>p. sameIP current p = []) D)"
    and ?c3 = "concat (map (\<lambda>p. [deleteTunAddrChange (the (entryOf current p)), repl p]) (filter (needsRenewal current) D))"
    and ?c4 = "concat (map (\<lambda>p. map deleteTunAddrChange (sameIP current p) @ [repl p]) (filter (hasConflict current) D))"
  have "markedAt current ?none (\<lambda>a. tunAddrPrefix a \<in> Some ` set D)" by (simp add: markedAt_def)
  from planUnusable_ref [OF sc valid this subset_refl, of "?c1 @ ?c2"] obtain del1 where
    u: "planUnusable current ?sc (?c1 @ ?c2) ?none D = Inr (?c1 @ ?c2 @ ?c3, del1)"
    and m: "markedAt current del1 (\<lambda>a. tunAddrPrefix a \<in> Some ` set D)" by auto
  have m': "\<forall>i < length current. del1 ! i \<longrightarrow> (\<forall>p \<in> set D. hasConflict current p \<longrightarrow> \<not> hasAddr (pfxAddr p) (current ! i))"
  proof (intro allI ballI impI notI)
    fix i p assume i: "i < length current" "del1 ! i" and p: "p \<in> set D" "hasConflict current p" "hasAddr (pfxAddr p) (current ! i)"
    then obtain q where q: "q \<in> set D" "tunAddrPrefix (current ! i) = Some q" using m by (auto simp: markedAt_def)
    then have "pfxAddr q = pfxAddr p" using p(3) by (simp add: hasAddr_def)
    then have "q = p" using inj q(1) p(1) by (simp add: inj_on_def)
    then show False using p(2) q(2) i(1) by (auto simp: hasConflict_def entryOf_None)
  qed
  have "distinct (map pfxAddr D)" using D(2) inj by (simp add: distinct_map)
  from planConflicts_ref [OF sc valid this _ m', of "?c1 @ ?c2 @ ?c3"] m obtain del2 where
    c: "planConflicts current ?sc (?c1 @ ?c2 @ ?c3) del1 D = Inr ((?c1 @ ?c2 @ ?c3) @ ?c4, del2)"
    and d2: "\<forall>i < length current. del2 ! i \<longleftrightarrow> del1 ! i \<or>
      (\<exists>p \<in> set D. hasConflict current p \<and> hasAddr (pfxAddr p) (current ! i))" by (auto simp: markedAt_def)
  have "\<forall>i < length current. del2 ! i \<or> tunAddrPrefix (current ! i) \<in> Some ` set D \<longleftrightarrow> \<not> obsolete_entry current D (current ! i)"
    using d2 m by (auto simp: obsolete_entry_def list_ex_iff markedAt_def)
  from planObsolete_ref [OF sc _ this, of "[]"] have
    "planObsolete (set D) ?sc del2 0 current = map deleteTunAddrChange (filter (obsolete_entry current D) current)" by simp
  then show ?thesis using planNoDAD_ref [OF sc valid, of "[]"] planAbsent_ref [OF sc valid, of ?c1] u c assms
    by (simp add: planTunAddrReconciliation_def refPlan_def Let_def)
qed

section \<open>What the changes do\<close>

text \<open>Listings of one address agree up to the flags.\<close>

definition addrKey :: "NLAddr \<Rightarrow> NLAddr" where
  "addrKey a = a\<lparr>na_Flags := 0\<rparr>"

lemma tunAddrPrefix_key: "addrKey a = addrKey b \<Longrightarrow> tunAddrPrefix a = tunAddrPrefix b"
proof -
  assume "addrKey a = addrKey b"
  then have "na_IPNet (addrKey a) = na_IPNet (addrKey b)" by simp
  then show ?thesis by (simp add: addrKey_def tunAddrPrefix_def)
qed

text \<open>The address is set up for use: an IPv6 address is not subject to duplicate detection.\<close>

definition readyAddr :: "NLAddr \<Rightarrow> bool" where
  "readyAddr a \<longleftrightarrow> (case tunAddrPrefix a of Some p \<Rightarrow> addrIs6 (pfxAddr p) \<longrightarrow> noDAD a \<and> usableV6 a | None \<Rightarrow> False)"

lemma lastByPrefix_Some:
  "lastByPrefix m as p = Some a \<Longrightarrow> (\<And>q b. m q = Some b \<Longrightarrow> tunAddrPrefix b = Some q \<and> b \<in> S) \<Longrightarrow> set as \<subseteq> S \<Longrightarrow>
     tunAddrPrefix a = Some p \<and> a \<in> S"
proof (induction as arbitrary: m)
  case (Cons x xs)
  show ?case
    by (rule Cons.IH [of "case tunAddrPrefix x of Some pfx \<Rightarrow> m(pfx \<mapsto> x) | None \<Rightarrow> m"])
      (use Cons.prems in \<open>auto split: option.splits if_splits\<close>)
qed simp

lemma lastByPrefix_None: "lastByPrefix m as p = None \<longleftrightarrow> m p = None \<and> (\<forall>a \<in> set as. tunAddrPrefix a \<noteq> Some p)"
  by (induction as arbitrary: m) (auto split: option.splits)

lemma verifyLoop_None: "verifyLoop m ps = None \<longleftrightarrow>
    (\<forall>p \<in> set ps. \<exists>a. m p = Some a \<and> (addrIs6 (pfxAddr p) \<longrightarrow> noDAD a \<and> usableV6 a))"
  by (induction ps) (auto simp: noDAD_def usableV6_def split: option.splits)

lemma verify_sound:
  assumes "verifyLoop (lastByPrefix (\<lambda>_. None) as) ps = None" and "p \<in> set ps"
  shows "\<exists>a \<in> set as. tunAddrPrefix a = Some p \<and> readyAddr a"
proof -
  obtain a where a: "lastByPrefix (\<lambda>_. None) as p = Some a" "addrIs6 (pfxAddr p) \<longrightarrow> noDAD a \<and> usableV6 a"
    using assms by (auto simp: verifyLoop_None)
  with lastByPrefix_Some [OF a(1), of "set as"] show ?thesis by (auto simp: readyAddr_def)
qed

lemma verify_complete:
  assumes "\<forall>p \<in> set ps. \<exists>a \<in> set as. tunAddrPrefix a = Some p"
    and "\<forall>a \<in> set as. tunAddrPrefix a \<in> Some ` set ps \<longrightarrow> readyAddr a"
  shows "verifyLoop (lastByPrefix (\<lambda>_. None) as) ps = None"
  unfolding verifyLoop_None
proof
  fix p assume p: "p \<in> set ps"
  obtain a where a: "lastByPrefix (\<lambda>_. None) as p = Some a"
    using assms(1) p by (cases "lastByPrefix (\<lambda>_. None) as p") (auto simp: lastByPrefix_None)
  from lastByPrefix_Some [OF this, of "set as"] have "tunAddrPrefix a = Some p" "a \<in> set as" by simp_all
  with assms(2) p a show "\<exists>a. lastByPrefix (\<lambda>_. None) as p = Some a \<and> (addrIs6 (pfxAddr p) \<longrightarrow> noDAD a \<and> usableV6 a)"
    by (auto simp: readyAddr_def)
qed

fun dels :: "tunAddrChange list \<Rightarrow> NLAddr set" where
  "dels [] = {}"
| "dels (c # cs) = (if tc_kind c = tunAddrDelete then insert (tc_addr c) (dels cs) else dels cs)"

fun reps :: "tunAddrChange list \<Rightarrow> Prefix set" where
  "reps [] = {}"
| "reps (c # cs) = (if tc_kind c = tunAddrReplace then insert (tc_prefix c) (reps cs) else reps cs)"

lemma repl_simps [simp]: "tc_kind (repl p) = tunAddrReplace" "tc_prefix (repl p) = p"
  by (simp_all add: repl_def)

lemma del_simps [simp]: "tc_kind (deleteTunAddrChange a) = tunAddrDelete" "tc_addr (deleteTunAddrChange a) = a"
  by (simp_all add: deleteTunAddrChange_def Let_def)

lemma dels_append [simp]: "dels (xs @ ys) = dels xs \<union> dels ys"
  by (induction xs) auto

lemma reps_append [simp]: "reps (xs @ ys) = reps xs \<union> reps ys"
  by (induction xs) auto

lemma dels_map [simp]: "dels (map deleteTunAddrChange as) = set as" "dels (map repl ps) = {}"
  by (induction as, simp_all) (induction ps, simp_all)

lemma reps_map [simp]: "reps (map deleteTunAddrChange as) = {}" "reps (map repl ps) = set ps"
  by (induction as, simp_all) (induction ps, simp_all)

text \<open>The first four groups of the plan have one form: the entries to delete for a prefix, then the prefix.\<close>

definition stale :: "NLAddr list \<Rightarrow> Prefix \<Rightarrow> NLAddr list" where
  "stale current p = (if needsRenewal current p then [the (entryOf current p)]
     else if hasConflict current p then sameIP current p else [])"

definition group :: "(Prefix \<Rightarrow> NLAddr list) \<Rightarrow> Prefix list \<Rightarrow> tunAddrChange list" where
  "group S ps = concat (map (\<lambda>p. map deleteTunAddrChange (S p) @ [repl p]) ps)"

definition pendingPrefixes :: "NLAddr list \<Rightarrow> Prefix list \<Rightarrow> Prefix list" where
  "pendingPrefixes current D = filter (needsNoDAD current) D @ filter (\<lambda>p. sameIP current p = []) D @
     filter (needsRenewal current) D @ filter (hasConflict current) D"

lemma group_simps [simp]:
  "group S [] = []" "group S (p # ps) = map deleteTunAddrChange (S p) @ repl p # group S ps"
  "group S (ps @ qs) = group S ps @ group S qs"
  by (simp_all add: group_def)

lemma group_sets [simp]: "dels (group S ps) = (\<Union>p \<in> set ps. set (S p))" "reps (group S ps) = set ps"
  by (induction ps) auto

lemma group_no_stale: "(\<And>p. p \<in> set ps \<Longrightarrow> S p = []) \<Longrightarrow> group S ps = map repl ps"
  by (induction ps) auto

lemma group_cong: "(\<And>p. p \<in> set ps \<Longrightarrow> S p = T p) \<Longrightarrow> group S ps = group T ps"
  by (induction ps) auto

lemma kinds_disjoint:
  "needsNoDAD current p \<Longrightarrow> \<not> needsRenewal current p \<and> \<not> hasConflict current p"
  "sameIP current p = [] \<Longrightarrow> \<not> needsRenewal current p \<and> \<not> hasConflict current p \<and> \<not> needsNoDAD current p"
  "needsRenewal current p \<Longrightarrow> \<not> hasConflict current p"
  using sameIP_Nil by (auto simp: needsNoDAD_def needsRenewal_def hasConflict_def)

lemma refPlan_group:
  "refPlan current D = group (stale current) (pendingPrefixes current D) @ map deleteTunAddrChange (filter (obsolete_entry current D) current)"
proof -
  have "group (stale current) (filter (needsNoDAD current) D) = map repl (filter (needsNoDAD current) D)"
    by (rule group_no_stale) (simp add: stale_def kinds_disjoint)
  moreover have "group (stale current) (filter (\<lambda>p. sameIP current p = []) D) = map repl (filter (\<lambda>p. sameIP current p = []) D)"
    by (rule group_no_stale) (simp add: stale_def kinds_disjoint)
  moreover have "group (stale current) (filter (needsRenewal current) D) = group (\<lambda>p. [the (entryOf current p)]) (filter (needsRenewal current) D)"
    by (rule group_cong) (simp add: stale_def)
  moreover have "group (stale current) (filter (hasConflict current) D) = group (sameIP current) (filter (hasConflict current) D)"
    by (rule group_cong) (use kinds_disjoint(3) in \<open>auto simp: stale_def\<close>)
  ultimately show ?thesis by (simp add: refPlan_def pendingPrefixes_def) (simp add: group_def)
qed

lemma stale_sub: "a \<in> set (stale current p) \<Longrightarrow> a \<in> set current \<and> hasAddr (pfxAddr p) a"
  using entryOf_Some by (fastforce simp: stale_def needsRenewal_def sameIP_def hasAddr_def split: if_splits)

lemma refPlan_dels:
  "a \<in> set current \<Longrightarrow> a \<notin> dels (refPlan current D) \<Longrightarrow> tunAddrPrefix a \<in> Some ` set D"
proof (rule ccontr)
  assume a: "a \<in> set current" "a \<notin> dels (refPlan current D)" and n: "tunAddrPrefix a \<notin> Some ` set D"
  then have "\<not> obsolete_entry current D a" by (auto simp: refPlan_group)
  then obtain p where p: "p \<in> set D" "hasConflict current p" "hasAddr (pfxAddr p) a"
    using n by (auto simp: obsolete_entry_def list_ex_iff)
  then have "a \<in> set (stale current p)" "p \<in> set (pendingPrefixes current D)"
    using a(1) kinds_disjoint(3) [of current p] by (auto simp: stale_def sameIP_def pendingPrefixes_def)
  then show False using a(2) by (auto simp: refPlan_group)
qed

lemma refPlan_reps: "c \<in> set (refPlan current D) \<Longrightarrow> tc_kind c = tunAddrReplace \<Longrightarrow> \<exists>p \<in> set D. c = repl p"
  by (auto simp: refPlan_def)

lemma repl_readable: "readable p \<Longrightarrow> tunAddrPrefix (tc_addr (repl p)) = Some p"
proof -
  assume r: "readable p"
  then obtain a where "netlinkAddrFromPrefix p = Inr a" by (simp add: netlinkAddrFromPrefix_Inr readable_def)
  with netlinkAddrFromPrefix_readable [OF r this] show ?thesis by (simp add: repl_def)
qed

lemma addition_reps:
  "planTunAddrAddition current p = Inr cs \<Longrightarrow> prefixIsValid p \<Longrightarrow> c \<in> set cs \<Longrightarrow> tc_kind c = tunAddrReplace \<Longrightarrow> c = repl p"
  by (auto simp: planTunAddrAddition_def planExistingIPv6AddrAddition_def split: if_splits sum.splits)

section \<open>The kernel's side of the contract\<close>

text \<open>
  \<open>addrs\<close> is what a listing of the interface shows. A listing that succeeds shows it, and may only
  see flags change; an address that was deleted is gone, and a deletion adds nothing (the kernel may delete more: the secondary
  addresses of a primary one); a replacement adds nothing but the address it is given.
\<close>

locale tun_addr_netlink =
  fixes adapter :: "'k tunAddrNetlink" and addrs :: "'k \<Rightarrow> NLAddr list"
  assumes list_ok: "tn_List adapter k = (Inr as, k') \<Longrightarrow>
      as = addrs k' \<and> addrKey ` set (addrs k') = addrKey ` set (addrs k)"
    and listed_wf: "a \<in> set (addrs k) \<Longrightarrow> wf_NLAddr a"
    and replace_ok: "tn_Replace adapter a k = (None, k') \<Longrightarrow> b \<in> set (addrs k') \<Longrightarrow>
      addrKey b \<in> addrKey ` set (addrs k) \<or> tunAddrPrefix b = tunAddrPrefix a"
    and delete_ok: "tn_Delete adapter a k = (None, k') \<Longrightarrow>
      addrKey ` set (addrs k') \<subseteq> addrKey ` set (addrs k) - {addrKey a}"
begin

lemma apply_ok:
  assumes "applyTunAddrChanges adapter cs k = (None, k')" and "b \<in> set (addrs k')"
  shows "addrKey b \<in> addrKey ` set (addrs k) - addrKey ` dels cs \<or>
    (\<exists>c \<in> set cs. tc_kind c = tunAddrReplace \<and> tunAddrPrefix b = tunAddrPrefix (tc_addr c))"
  using assms unfolding applyTunAddrChanges_def
proof (induction cs arbitrary: k)
  case (Cons c cs)
  obtain k1 where c: "applyTunAddrChange adapter c k = (None, k1)" and r: "forE (applyTunAddrChange adapter) cs k1 = (None, k')"
    using Cons.prems(1) by (auto simp: forE_Cons_None simp del: forE.simps)
  from Cons.IH [OF r Cons.prems(2)] show ?case
  proof
    assume b: "addrKey b \<in> addrKey ` set (addrs k1) - addrKey ` dels cs"
    then obtain b1 where b1: "b1 \<in> set (addrs k1)" "addrKey b1 = addrKey b" by auto
    show ?thesis
    proof (cases "tc_kind c = tunAddrReplace")
      case True
      then have "tn_Replace adapter (tc_addr c) k = (None, k1)" using c by (simp add: applyTunAddrChange_def wrapE_None)
      from replace_ok [OF this b1(1)] True b b1(2) show ?thesis using tunAddrPrefix_key [OF b1(2)] by auto
    next
      case False
      then have "tc_kind c = tunAddrDelete" "tn_Delete adapter (tc_addr c) k = (None, k1)"
        using c by (auto simp: applyTunAddrChange_def wrapE_None split: if_splits)
      then show ?thesis using delete_ok [of "tc_addr c" k k1] b by auto
    qed
  qed (auto)
qed simp

lemma verify_ok:
  assumes "verifyTunAddrPrefixes adapter ps k = (None, k')" and "p \<in> set ps"
  shows "\<exists>a \<in> set (addrs k'). tunAddrPrefix a = Some p \<and> readyAddr a"
proof -
  obtain as where "tn_List adapter k = (Inr as, k')" "verifyLoop (lastByPrefix (\<lambda>_. None) as) ps = None"
    using assms(1) by (auto simp: verifyTunAddrPrefixes_def split: prod.splits sum.splits)
  then show ?thesis using verify_sound [OF _ assms(2)] list_ok by blast
qed

lemma verify_keeps:
  assumes "verifyTunAddrPrefixes adapter ps k = (None, k')"
  shows "addrKey ` set (addrs k') = addrKey ` set (addrs k)"
proof -
  obtain as where "tn_List adapter k = (Inr as, k')"
    using assms by (auto simp: verifyTunAddrPrefixes_def split: prod.splits sum.splits)
  from list_ok [OF this] show ?thesis by simp
qed

lemma set_cases:
  assumes "setTunAddrPrefixes adapter ps k = (None, k')"
  obtains D k1 k2 where "normalizeTunAddrPrefixSet ps = Inr D" and "set D = set ps" and "consistent (set ps)"
    and "addrKey ` set (addrs k1) = addrKey ` set (addrs k)"
    and "applyTunAddrChanges adapter (refPlan (addrs k1) D) k1 = (None, k2)"
    and "verifyTunAddrPrefixes adapter D k2 = (None, k')"
proof -
  obtain D where D: "normalizeTunAddrPrefixSet ps = Inr D"
    using assms by (auto simp: setTunAddrPrefixes_def split: sum.splits)
  obtain as k1 where l: "tn_List adapter k = (Inr as, k1)"
    using assms D by (auto simp: setTunAddrPrefixes_def split: sum.splits prod.splits)
  have "planTunAddrReconciliation as D = Inr (refPlan as D)" by (rule plan_is_refPlan) (rule normalize_again [OF D])
  then obtain k2 where "applyTunAddrChanges adapter (refPlan as D) k1 = (None, k2)" "verifyTunAddrPrefixes adapter D k2 = (None, k')"
    using assms D l by (auto simp: setTunAddrPrefixes_def thenE_None)
  then show ?thesis using that [OF D] list_ok [OF l] D by (auto simp: normalize_Inr)
qed

text \<open>After a success the interface has the desired addresses and no others.\<close>

theorem set_exact:
  assumes "setTunAddrPrefixes adapter ps k = (None, k')"
  shows "tunAddrPrefix ` set (addrs k') = Some ` set ps \<and>
    (\<forall>p \<in> set ps. \<exists>a \<in> set (addrs k'). tunAddrPrefix a = Some p \<and> readyAddr a)"
proof -
  from assms obtain D k1 k2 where D: "set D = set ps" "consistent (set ps)"
    and a: "applyTunAddrChanges adapter (refPlan (addrs k1) D) k1 = (None, k2)"
    and v: "verifyTunAddrPrefixes adapter D k2 = (None, k')" by (rule set_cases)
  have ready: "\<exists>a \<in> set (addrs k'). tunAddrPrefix a = Some p \<and> readyAddr a" if "p \<in> set ps" for p
    using verify_ok [OF v, of p] that D(1) by simp
  have "tunAddrPrefix b \<in> Some ` set ps" if b: "b \<in> set (addrs k')" for b
  proof -
    obtain b2 where b2: "b2 \<in> set (addrs k2)" "addrKey b = addrKey b2" using verify_keeps [OF v] b by force
    have "tunAddrPrefix b2 \<in> Some ` set ps"
      using apply_ok [OF a b2(1)]
    proof
      assume in1: "addrKey b2 \<in> addrKey ` set (addrs k1) - addrKey ` dels (refPlan (addrs k1) D)"
      then obtain b1 where b1: "b1 \<in> set (addrs k1)" "addrKey b2 = addrKey b1" by auto
      then have "b1 \<notin> dels (refPlan (addrs k1) D)" using in1 by auto
      then have "tunAddrPrefix b1 \<in> Some ` set D" using b1(1) refPlan_dels by blast
      then show ?thesis using tunAddrPrefix_key [OF b1(2)] D(1) by simp
    next
      assume "\<exists>c \<in> set (refPlan (addrs k1) D). tc_kind c = tunAddrReplace \<and> tunAddrPrefix b2 = tunAddrPrefix (tc_addr c)"
      then obtain p where p: "p \<in> set D" "tunAddrPrefix b2 = tunAddrPrefix (tc_addr (repl p))" using refPlan_reps by blast
      obtain x where x: "x \<in> set (addrs k')" "tunAddrPrefix x = Some p" using ready [of p] p(1) D(1) by auto
      then have "readable p" using tunAddrPrefix_Some listed_wf by blast
      then have "tunAddrPrefix (tc_addr (repl p)) = Some p" by (rule repl_readable)
      then show ?thesis using p D(1) by simp
    qed
    then show ?thesis using tunAddrPrefix_key [OF b2(2)] by simp
  qed
  moreover have "Some p \<in> tunAddrPrefix ` set (addrs k')" if "p \<in> set ps" for p using ready [OF that] by force
  ultimately show ?thesis using ready by auto
qed

text \<open>Adding an address makes it ready, and adds nothing else.\<close>

theorem add_ready:
  assumes "addTunAddrPrefix adapter p k = (None, k')"
  shows "(\<exists>a \<in> set (addrs k'). tunAddrPrefix a = Some p \<and> readyAddr a) \<and>
    tunAddrPrefix ` set (addrs k') \<subseteq> insert (Some p) (tunAddrPrefix ` set (addrs k))"
proof -
  have pv: "prefixIsValid p" using assms by (auto simp: addTunAddrPrefix_def split: if_splits)
  then obtain as k1 where l: "tn_List adapter k = (Inr as, k1)"
    using assms by (auto simp: addTunAddrPrefix_def split: sum.splits prod.splits)
  then obtain cs k2 where cs: "planTunAddrAddition as p = Inr cs" and a: "applyTunAddrChanges adapter cs k1 = (None, k2)"
    and v: "verifyTunAddrPrefixes adapter [p] k2 = (None, k')"
    using assms pv by (auto simp: addTunAddrPrefix_def thenE_None split: sum.splits)
  obtain x where x: "x \<in> set (addrs k')" "tunAddrPrefix x = Some p" "readyAddr x" using verify_ok [OF v] by auto
  then have r: "readable p" using tunAddrPrefix_Some listed_wf by blast
  have "tunAddrPrefix b \<in> insert (Some p) (tunAddrPrefix ` set (addrs k))" if b: "b \<in> set (addrs k')" for b
  proof -
    obtain b2 where b2: "b2 \<in> set (addrs k2)" "addrKey b = addrKey b2" using verify_keeps [OF v] b by force
    show ?thesis using apply_ok [OF a b2(1)]
    proof
      assume "addrKey b2 \<in> addrKey ` set (addrs k1) - addrKey ` dels cs"
      then obtain b0 where "b0 \<in> set (addrs k)" "addrKey b2 = addrKey b0" using list_ok [OF l] by (metis DiffD1 image_iff)
      then show ?thesis using tunAddrPrefix_key [of b b0] b2(2) by simp
    next
      assume "\<exists>c \<in> set cs. tc_kind c = tunAddrReplace \<and> tunAddrPrefix b2 = tunAddrPrefix (tc_addr c)"
      then show ?thesis using addition_reps [OF cs pv] repl_readable [OF r] tunAddrPrefix_key [OF b2(2)] by fastforce
    qed
  qed
  then show ?thesis using x by blast
qed

end
end
