(* ===== verification/Tun_Reconcile.thy ===== *)
theory Tun_Reconcile
  imports Tun_Addr
begin

text \<open>
  When the reconciliation of addresses succeeds. \<open>plan_ok\<close> says of a list of changes that every
  deletion names an address that is still there and every replacement finds no entry of the same
  address with another length and no unusable one; the plan of \<open>planTunAddrReconciliation\<close> is such a
  list, so that on a kernel that carries out what is possible (\<open>responsive_netlink\<close>) the call
  succeeds, and the addresses that need no change are left alone.
\<close>

section \<open>Changes that can be carried out\<close>

text \<open>Over the entries at the start, those deleted and the prefixes replaced so far.\<close>

fun plan_ok :: "NLAddr set \<Rightarrow> NLAddr set \<Rightarrow> Prefix set \<Rightarrow> tunAddrChange list \<Rightarrow> bool" where
  "plan_ok E Del Rep [] \<longleftrightarrow> True"
| "plan_ok E Del Rep (c # cs) \<longleftrightarrow>
     (if tc_kind c = tunAddrDelete then
        tc_addr c \<in> E - Del \<and> tunAddrPrefix (tc_addr c) \<notin> Some ` Rep \<and> plan_ok E (insert (tc_addr c) Del) Rep cs
      else tc_kind c = tunAddrReplace \<and> c = repl (tc_prefix c) \<and> readable (tc_prefix c) \<and>
        (\<forall>a \<in> E - Del. hasAddr (pfxAddr (tc_prefix c)) a \<longrightarrow>
          tunAddrPrefix a = Some (tc_prefix c) \<and> (addrIs6 (pfxAddr (tc_prefix c)) \<longrightarrow> usableV6 a)) \<and>
        (\<forall>q \<in> Rep. pfxAddr q \<noteq> pfxAddr (tc_prefix c)) \<and> plan_ok E Del (insert (tc_prefix c) Rep) cs)"

lemma plan_ok_append:
  "plan_ok E Del Rep (xs @ ys) \<longleftrightarrow> plan_ok E Del Rep xs \<and> plan_ok E (Del \<union> dels xs) (Rep \<union> reps xs) ys"
  by (induction xs arbitrary: Del Rep) auto

lemma plan_ok_deletes:
  "distinct as \<Longrightarrow> set as \<subseteq> E - Del \<Longrightarrow> \<forall>a \<in> set as. tunAddrPrefix a \<notin> Some ` Rep \<Longrightarrow>
     plan_ok E Del Rep (map deleteTunAddrChange as)"
proof (induction as arbitrary: Del)
  case (Cons a as)
  have "set as \<subseteq> E - insert a Del" using Cons.prems by auto
  with Cons.IH [OF _ this] Cons.prems show ?case by simp
qed simp

lemma plan_ok_group:
  assumes "distinct (map pfxAddr ps)" and "\<forall>p \<in> set ps. readable p \<and> distinct (S p) \<and>
      (\<forall>a \<in> set (S p). a \<in> E \<and> hasAddr (pfxAddr p) a) \<and>
      (\<forall>a \<in> E. hasAddr (pfxAddr p) a \<longrightarrow> a \<in> set (S p) \<or>
        tunAddrPrefix a = Some p \<and> (addrIs6 (pfxAddr p) \<longrightarrow> usableV6 a))"
    and "\<forall>p \<in> set ps. (\<forall>a \<in> Del. \<not> hasAddr (pfxAddr p) a) \<and> (\<forall>q \<in> Rep. pfxAddr q \<noteq> pfxAddr p)"
  shows "plan_ok E Del Rep (group S ps)"
  using assms
proof (induction ps arbitrary: Del Rep)
  case (Cons p ps)
  have p: "readable p" "distinct (S p)" "\<forall>a \<in> set (S p). a \<in> E \<and> hasAddr (pfxAddr p) a"
    and rest: "\<forall>a \<in> E. hasAddr (pfxAddr p) a \<longrightarrow> a \<in> set (S p) \<or> tunAddrPrefix a = Some p \<and> (addrIs6 (pfxAddr p) \<longrightarrow> usableV6 a)"
    and Del: "\<forall>a \<in> Del. \<not> hasAddr (pfxAddr p) a" and Rep: "\<forall>q \<in> Rep. pfxAddr q \<noteq> pfxAddr p"
    using Cons.prems by simp_all
  have other: "\<not> hasAddr (pfxAddr q) a" if "q \<in> set ps" "hasAddr (pfxAddr p) a" for q a
    using that Cons.prems(1) by (auto simp: hasAddr_def split: option.splits)
  have "tunAddrPrefix a \<notin> Some ` Rep" if "a \<in> set (S p)" for a using that p(3) Rep by (auto simp: hasAddr_def)
  then have d: "plan_ok E Del Rep (map deleteTunAddrChange (S p))" using p Del by (intro plan_ok_deletes) auto
  have "plan_ok E (Del \<union> set (S p)) (insert p Rep) (group S ps)"
  proof (rule Cons.IH)
    show "\<forall>q \<in> set ps. (\<forall>a \<in> Del \<union> set (S p). \<not> hasAddr (pfxAddr q) a) \<and> (\<forall>r \<in> insert p Rep. pfxAddr r \<noteq> pfxAddr q)"
      using Cons.prems other p(3) by auto
  qed (use Cons.prems in simp_all)
  with d p(1) rest Rep show ?case by (auto simp: plan_ok_append)
qed simp

section \<open>The plan can be carried out\<close>

text \<open>What the kernel's listing satisfies: entries differ in more than flags, an IPv6 address is listed once.\<close>

definition listing_ok :: "NLAddr list \<Rightarrow> bool" where
  "listing_ok as \<longleftrightarrow> distinct (map addrKey as) \<and>
     (\<forall>a \<in> set as. \<forall>b \<in> set as. case tunAddrPrefix a of None \<Rightarrow> True
        | Some p \<Rightarrow> addrIs6 (pfxAddr p) \<longrightarrow> hasAddr (pfxAddr p) b \<longrightarrow> a = b)"

lemma pending_sub: "set (pendingPrefixes current D) \<subseteq> set D"
  by (auto simp: pendingPrefixes_def)

lemma pending_distinct:
  assumes "distinct (map pfxAddr D)"
  shows "distinct (map pfxAddr (pendingPrefixes current D))"
proof -
  have "distinct (pendingPrefixes current D)" using assms kinds_disjoint
    by (auto simp: pendingPrefixes_def distinct_map) (blast+)?
  moreover have "inj_on pfxAddr (set (pendingPrefixes current D))"
    using assms inj_on_subset [OF _ pending_sub] by (auto simp: distinct_map)
  ultimately show ?thesis by (simp add: distinct_map)
qed

lemma entry_unique:
  assumes "listing_ok current" and "entryOf current p = Some e" and "addrIs6 (pfxAddr p)"
    and "a \<in> set current" and "hasAddr (pfxAddr p) a"
  shows "a = e"
  using assms entryOf_Some [OF assms(2)] unfolding listing_ok_def by fastforce

lemma refPlan_ok:
  assumes "consistent (set D)" and "distinct D" and "\<forall>p \<in> set D. readable p" and "listing_ok current"
  shows "plan_ok (set current) {} {} (refPlan current D)"
proof -
  let ?P = "pendingPrefixes current D" and ?obs = "filter (obsolete_entry current D) current"
  have dA: "distinct (map pfxAddr D)" using assms(1,2) by (simp add: consistent_def distinct_map)
  have dc: "distinct current" using assms(4) by (auto simp: listing_ok_def distinct_map)
  have S: "distinct (stale current p)" for p using dc by (simp add: stale_def sameIP_def)
  have cover: "a \<in> set (stale current p) \<or> tunAddrPrefix a = Some p \<and> (addrIs6 (pfxAddr p) \<longrightarrow> usableV6 a)"
    if p: "p \<in> set ?P" and a: "a \<in> set current" "hasAddr (pfxAddr p) a" for p a
  proof -
    consider "needsNoDAD current p" | "sameIP current p = []" | "needsRenewal current p" | "hasConflict current p"
      using p by (auto simp: pendingPrefixes_def)
    then show ?thesis
    proof cases
      case 1
      then obtain e where e: "entryOf current p = Some e" "usableV6 e" "addrIs6 (pfxAddr p)" by (auto simp: needsNoDAD_def)
      from entry_unique [OF assms(4) e(1,3) a] e entryOf_Some [OF e(1)] show ?thesis by simp
    next
      case 2
      with a show ?thesis by (auto simp: sameIP_def filter_empty_conv)
    next
      case 3
      then obtain e where e: "entryOf current p = Some e" "addrIs6 (pfxAddr p)" by (auto simp: needsRenewal_def)
      from entry_unique [OF assms(4) e a] e 3 show ?thesis by (simp add: stale_def)
    next
      case 4
      then show ?thesis using a kinds_disjoint(3) [of current p] by (auto simp: stale_def sameIP_def)
    qed
  qed
  have g: "plan_ok (set current) {} {} (group (stale current) ?P)"
    by (rule plan_ok_group [OF pending_distinct [OF dA]]) (use assms(3) pending_sub S stale_sub cover in \<open>blast+\<close>)
  have "a \<notin> set (stale current p)" if "obsolete_entry current D a" "p \<in> set ?P" for a p
  proof
    assume a: "a \<in> set (stale current p)"
    show False
    proof (cases "needsRenewal current p")
      case True
      then have "tunAddrPrefix a = Some p" using a entryOf_Some by (auto simp: stale_def needsRenewal_def)
      then show ?thesis using that pending_sub [of current D] by (auto simp: obsolete_entry_def)
    next
      case False
      then have "hasConflict current p" "hasAddr (pfxAddr p) a" using a stale_sub [OF a] by (auto simp: stale_def split: if_splits)
      then show ?thesis using that pending_sub [of current D] by (auto simp: obsolete_entry_def list_ex_iff)
    qed
  qed
  then have "plan_ok (set current) (dels (group (stale current) ?P)) (reps (group (stale current) ?P)) (map deleteTunAddrChange ?obs)"
    by (intro plan_ok_deletes) (use dc pending_sub [of current D] in \<open>auto simp: obsolete_entry_def\<close>)
  then show ?thesis using g by (simp add: refPlan_group plan_ok_append)
qed

text \<open>The entries after some of the changes: those left of the start, and the prefixes replaced.\<close>

definition after :: "NLAddr set \<Rightarrow> NLAddr set \<Rightarrow> Prefix set \<Rightarrow> NLAddr set \<Rightarrow> bool" where
  "after E Del Rep F \<longleftrightarrow>
     (\<forall>c \<in> F. (if tunAddrPrefix c \<in> Some ` Rep then readyAddr c else c \<in> E - Del)) \<and>
     (\<forall>a \<in> E - Del. tunAddrPrefix a \<notin> Some ` Rep \<longrightarrow> a \<in> F) \<and>
     Some ` Rep \<subseteq> tunAddrPrefix ` F"

lemma repl_noDAD: "readable p \<Longrightarrow> addrIs6 (pfxAddr p) \<Longrightarrow> noDAD (tc_addr (repl p))"
proof -
  assume "readable p" and v6: "addrIs6 (pfxAddr p)"
  then obtain a where a: "netlinkAddrFromPrefix p = Inr a" by (simp add: netlinkAddrFromPrefix_Inr readable_def)
  then have "na_Flags a = IFA_F_NODAD" using v6 by (simp add: netlinkAddrFromPrefix_Inr)
  then show ?thesis using a by (simp add: repl_def noDAD_def)
qed

lemma after_keeps:
  assumes "after E Del Rep F" and "a \<in> E" and "a \<notin> Del" and "tunAddrPrefix a = Some p" and "p \<notin> Rep"
  shows "a \<in> F"
proof -
  have "tunAddrPrefix a \<notin> Some ` Rep" using assms(4,5) by auto
  then show ?thesis using assms(1-3) unfolding after_def by blast
qed

lemma refPlan_deletes: "c \<in> set (refPlan current D) \<Longrightarrow> tc_kind c = tunAddrDelete \<Longrightarrow> c = deleteTunAddrChange (tc_addr c)"
  by (auto simp: refPlan_group group_def)

text \<open>What the plan does not touch: the entries of desired prefixes that are ready as they are.\<close>

lemma refPlan_untouched:
  assumes "consistent (set D)" and "listing_ok current" and "a \<in> set current" and "tunAddrPrefix a = Some p"
    and "p \<in> set D" and "readyAddr a"
  shows "a \<notin> dels (refPlan current D) \<and> p \<notin> reps (refPlan current D)"
proof -
  have has: "hasAddr (pfxAddr p) a" using assms(4) by (simp add: hasAddr_def)
  obtain e where e: "entryOf current p = Some e" using assms(3,4) by (cases "entryOf current p") (auto simp: entryOf_None)
  have ea: "e = a" if "addrIs6 (pfxAddr p)" using entry_unique [OF assms(2) e that assms(3) has] by simp
  have "sameIP current p \<noteq> []" using assms(3) has by (auto simp: sameIP_def filter_empty_conv)
  moreover have no: "\<not> needsNoDAD current p" "\<not> needsRenewal current p" "\<not> hasConflict current p"
    using e ea assms(4,6) by (auto simp: needsNoDAD_def needsRenewal_def hasConflict_def readyAddr_def)
  ultimately have pend: "p \<notin> set (pendingPrefixes current D)" by (simp add: pendingPrefixes_def)
  have "a \<notin> set (stale current q)" if q: "q \<in> set (pendingPrefixes current D)" for q
  proof
    assume "a \<in> set (stale current q)"
    then have "pfxAddr p = pfxAddr q" using stale_sub assms(4) by (fastforce simp: hasAddr_def)
    then have "p = q" using assms(1,5) q pending_sub [of current D] by (auto simp: consistent_def inj_on_def)
    then show False using q pend by simp
  qed
  moreover have "\<not> obsolete_entry current D a" using assms(4,5) by (auto simp: obsolete_entry_def)
  ultimately show ?thesis using pend by (auto simp: refPlan_group)
qed

text \<open>Every desired prefix is replaced or was ready, so that all are there and ready in the end.\<close>

lemma not_pending:
  assumes "listing_ok current" and "p \<in> set D" and "p \<notin> set (pendingPrefixes current D)"
  shows "\<exists>a \<in> set current. tunAddrPrefix a = Some p" and
    "a \<in> set current \<Longrightarrow> tunAddrPrefix a = Some p \<Longrightarrow> readyAddr a"
proof -
  have n: "\<not> needsNoDAD current p" "\<not> needsRenewal current p" "\<not> hasConflict current p" "sameIP current p \<noteq> []"
    using assms(2,3) by (auto simp: pendingPrefixes_def)
  then obtain e where e: "entryOf current p = Some e" by (auto simp: hasConflict_def)
  then show "\<exists>a \<in> set current. tunAddrPrefix a = Some p" using entryOf_Some by blast
  assume a: "a \<in> set current" "tunAddrPrefix a = Some p"
  show "readyAddr a"
  proof (cases "addrIs6 (pfxAddr p)")
    case True
    then have "a = e" using entry_unique [OF assms(1) e True a(1)] a(2) by (simp add: hasAddr_def)
    then show ?thesis using n e a True by (auto simp: readyAddr_def needsNoDAD_def needsRenewal_def)
  qed (use a in \<open>simp add: readyAddr_def\<close>)
qed

lemma planned_present:
  assumes "consistent (set D)" and "listing_ok current"
    and F: "after (set current) (dels (refPlan current D)) (reps (refPlan current D)) F" and "p \<in> set D"
  shows "(\<exists>a \<in> F. tunAddrPrefix a = Some p) \<and> (\<forall>a \<in> F. tunAddrPrefix a = Some p \<longrightarrow> readyAddr a)"
proof (cases "p \<in> reps (refPlan current D)")
  case True
  then have "Some p \<in> tunAddrPrefix ` F" using F by (auto simp: after_def)
  then show ?thesis using F True by (auto simp: after_def image_iff)
next
  case False
  then have np: "p \<notin> set (pendingPrefixes current D)" by (simp add: refPlan_group)
  note ready = not_pending(2) [OF assms(2,4) np]
  obtain a where a: "a \<in> set current" "tunAddrPrefix a = Some p" using not_pending(1) [OF assms(2,4) np] by blast
  have "a \<in> F" using refPlan_untouched [OF assms(1,2) a assms(4) ready [OF a]] after_keeps [OF F a(1)] a(2) False by blast
  moreover have "b \<in> set current" if "b \<in> F" "tunAddrPrefix b = Some p" for b
    using that F False by (auto simp: after_def split: if_splits)
  ultimately show ?thesis using a ready by blast
qed

section \<open>A kernel that does what is possible\<close>

text \<open>
  Beyond the contract so far: listing works; an address that is there can be deleted, and only it
  goes; a replacement that meets no entry of the same address with another length succeeds, sets the
  requested NODAD flag, and leaves an address that was not unusable usable.
\<close>

locale responsive_netlink = tun_addr_netlink +
  assumes list_works: "\<exists>as k'. tn_List adapter k = (Inr as, k') \<and> addrs k' = addrs k"
    and delete_works: "addrKey a \<in> addrKey ` set (addrs k) \<Longrightarrow> \<exists>k'. tn_Delete adapter a k = (None, k') \<and>
      set (addrs k') = {b \<in> set (addrs k). addrKey b \<noteq> addrKey a}"
    and replace_works: "tunAddrPrefix a = Some p \<Longrightarrow> readable p \<Longrightarrow>
      (\<And>b. b \<in> set (addrs k) \<Longrightarrow> hasAddr (pfxAddr p) b \<Longrightarrow> tunAddrPrefix b = Some p) \<Longrightarrow>
      \<exists>b k'. tn_Replace adapter a k = (None, k') \<and> tunAddrPrefix b = Some p \<and>
        set (addrs k') = insert b {c \<in> set (addrs k). tunAddrPrefix c \<noteq> Some p} \<and>
        (noDAD a \<longrightarrow> noDAD b \<and>
          ((\<forall>c \<in> set (addrs k). tunAddrPrefix c = Some p \<longrightarrow> usableV6 c) \<longrightarrow> usableV6 b))"
begin

lemma apply_delete:
  assumes "after E Del Rep (set (addrs k))" and "inj_on addrKey E" and "a \<in> E - Del" and "tunAddrPrefix a \<notin> Some ` Rep"
  shows "\<exists>k'. applyTunAddrChange adapter (deleteTunAddrChange a) k = (None, k') \<and> after E (insert a Del) Rep (set (addrs k'))"
proof -
  have "a \<in> set (addrs k)" using assms by (simp add: after_def)
  then obtain k' where k': "tn_Delete adapter a k = (None, k')" "set (addrs k') = {b \<in> set (addrs k). addrKey b \<noteq> addrKey a}"
    using delete_works by blast
  have keep: "addrKey b \<noteq> addrKey a" if "b \<in> E" "b \<noteq> a" for b using that assms(2,3) by (auto simp: inj_on_def)
  have "Some ` Rep \<subseteq> tunAddrPrefix ` set (addrs k')"
  proof
    fix x assume x: "x \<in> Some ` Rep"
    then obtain c where c: "c \<in> set (addrs k)" "tunAddrPrefix c = x" using assms(1) by (force simp: after_def)
    then have "addrKey c \<noteq> addrKey a" using x assms(4) tunAddrPrefix_key by metis
    then show "x \<in> tunAddrPrefix ` set (addrs k')" using c k'(2) by auto
  qed
  moreover have "\<forall>c \<in> set (addrs k'). if tunAddrPrefix c \<in> Some ` Rep then readyAddr c else c \<in> E - insert a Del"
    using assms(1) k'(2) by (auto simp: after_def)
  moreover have "\<forall>b \<in> E - insert a Del. tunAddrPrefix b \<notin> Some ` Rep \<longrightarrow> b \<in> set (addrs k')"
    using assms(1) k'(2) keep by (auto simp: after_def)
  moreover have "applyTunAddrChange adapter (deleteTunAddrChange a) k = (None, k')"
    using k'(1) by (simp add: applyTunAddrChange_def wrapE_None)
  ultimately show ?thesis unfolding after_def by blast
qed

lemma apply_replace:
  assumes "after E Del Rep (set (addrs k))" and "readable p" and "\<forall>q \<in> Rep. pfxAddr q \<noteq> pfxAddr p"
    and "\<forall>a \<in> E - Del. hasAddr (pfxAddr p) a \<longrightarrow> tunAddrPrefix a = Some p \<and> (addrIs6 (pfxAddr p) \<longrightarrow> usableV6 a)"
  shows "\<exists>k'. applyTunAddrChange adapter (repl p) k = (None, k') \<and> after E Del (insert p Rep) (set (addrs k'))"
proof -
  have old: "b \<in> E - Del" if "b \<in> set (addrs k)" "hasAddr (pfxAddr p) b" for b
    using that assms(1,3) by (auto simp: after_def hasAddr_def split: if_splits)
  note a = repl_readable [OF assms(2)]
  obtain b k' where r: "tn_Replace adapter (tc_addr (repl p)) k = (None, k')" and b: "tunAddrPrefix b = Some p"
    and k': "set (addrs k') = insert b {c \<in> set (addrs k). tunAddrPrefix c \<noteq> Some p}"
    and f: "noDAD (tc_addr (repl p)) \<longrightarrow> noDAD b \<and>
      ((\<forall>c \<in> set (addrs k). tunAddrPrefix c = Some p \<longrightarrow> usableV6 c) \<longrightarrow> usableV6 b)"
    using replace_works [OF a assms(2), of k] old assms(4) by blast
  have "hasAddr (pfxAddr p) c" if "tunAddrPrefix c = Some p" for c using that by (simp add: hasAddr_def)
  then have "addrIs6 (pfxAddr p) \<longrightarrow> noDAD b \<and> usableV6 b" using f repl_noDAD [OF assms(2)] old assms(4) by blast
  then have ready: "readyAddr b" using b by (simp add: readyAddr_def)
  have "Some ` insert p Rep \<subseteq> tunAddrPrefix ` set (addrs k')"
  proof
    fix x assume "x \<in> Some ` insert p Rep"
    then consider "x = Some p" | "x \<noteq> Some p" "x \<in> Some ` Rep" by auto
    then show "x \<in> tunAddrPrefix ` set (addrs k')"
    proof cases
      case 2
      then obtain c where "c \<in> set (addrs k)" "tunAddrPrefix c = x" using assms(1) by (force simp: after_def)
      then show ?thesis using 2 k' by auto
    qed (use b k' in auto)
  qed
  moreover have "applyTunAddrChange adapter (repl p) k = (None, k')" using r by (simp add: applyTunAddrChange_def wrapE_None)
  ultimately show ?thesis using assms(1) k' b ready by (auto simp: after_def)
qed

lemma apply_plan:
  assumes "plan_ok E Del Rep cs" and "inj_on addrKey E" and "after E Del Rep (set (addrs k))"
    and "\<forall>c \<in> set cs. tc_kind c = tunAddrDelete \<longrightarrow> c = deleteTunAddrChange (tc_addr c)"
  shows "\<exists>k'. applyTunAddrChanges adapter cs k = (None, k') \<and> after E (Del \<union> dels cs) (Rep \<union> reps cs) (set (addrs k'))"
  using assms unfolding applyTunAddrChanges_def
proof (induction cs arbitrary: Del Rep k)
  case (Cons c cs)
  show ?case
  proof (cases "tc_kind c = tunAddrDelete")
    case True
    then obtain k1 where "applyTunAddrChange adapter c k = (None, k1)" "after E (insert (tc_addr c) Del) Rep (set (addrs k1))"
      using Cons.prems apply_delete [of E Del Rep k "tc_addr c"] by auto
    then show ?thesis using Cons.prems True Cons.IH [of "insert (tc_addr c) Del" Rep k1] by auto
  next
    case False
    let ?p = "tc_prefix c"
    have c: "tc_kind c = tunAddrReplace" "c = repl ?p" and r: "readable ?p" "\<forall>q \<in> Rep. pfxAddr q \<noteq> pfxAddr ?p"
      "\<forall>a \<in> E - Del. hasAddr (pfxAddr ?p) a \<longrightarrow> tunAddrPrefix a = Some ?p \<and> (addrIs6 (pfxAddr ?p) \<longrightarrow> usableV6 a)"
      and rest: "plan_ok E Del (insert ?p Rep) cs" using Cons.prems(1) False by (simp only: plan_ok.simps if_False; blast)+
    from apply_replace [OF Cons.prems(3) r] obtain k1 where
      "applyTunAddrChange adapter c k = (None, k1)" "after E Del (insert ?p Rep) (set (addrs k1))" using c(2) by metis
    then show ?thesis using Cons.prems c Cons.IH [OF rest Cons.prems(2), of k1] by auto
  qed
qed simp

theorem set_works:
  assumes "consistent (set ps)" and "\<forall>p \<in> set ps. readable p" and "listing_ok (addrs k)"
  shows "\<exists>k'. setTunAddrPrefixes adapter ps k = (None, k') \<and>
    {a \<in> set (addrs k). tunAddrPrefix a \<in> Some ` set ps \<and> readyAddr a} \<subseteq> set (addrs k')"
proof -
  obtain D where D: "normalizeTunAddrPrefixSet ps = Inr D" "set D = set ps" "distinct D"
    using assms(1) normalize_Inr [of ps "dedup_by (\<lambda>x. x) ps"] by simp
  have c: "consistent (set D)" and r: "\<forall>p \<in> set D. readable p" using assms D by simp_all
  obtain k1 where l: "tn_List adapter k = (Inr (addrs k), k1)" and s1: "addrs k1 = addrs k" using list_works list_ok by metis
  let ?cs = "refPlan (addrs k) D" and ?E = "set (addrs k)"
  have inj: "inj_on addrKey ?E" using assms(3) by (simp add: listing_ok_def distinct_map)
  have "after ?E {} {} (set (addrs k1))" by (simp add: after_def s1)
  from apply_plan [OF refPlan_ok [OF c D(3) r assms(3)] inj this] obtain k2 where
    a: "applyTunAddrChanges adapter ?cs k1 = (None, k2)" and F: "after ?E (dels ?cs) (reps ?cs) (set (addrs k2))"
    using refPlan_deletes by auto
  obtain k3 where l3: "tn_List adapter k2 = (Inr (addrs k2), k3)" and s3: "addrs k3 = addrs k2" using list_works list_ok by metis
  have "\<forall>p \<in> set D. \<exists>a \<in> set (addrs k2). tunAddrPrefix a = Some p"
    and "\<forall>a \<in> set (addrs k2). tunAddrPrefix a \<in> Some ` set D \<longrightarrow> readyAddr a"
    using planned_present [OF c assms(3) F] by fast+
  then have "verifyTunAddrPrefixes adapter D k2 = (None, k3)"
    using l3 verify_complete by (simp add: verifyTunAddrPrefixes_def)
  moreover have "planTunAddrReconciliation (addrs k) D = Inr ?cs" by (rule plan_is_refPlan) (rule normalize_again [OF D(1)])
  ultimately have "setTunAddrPrefixes adapter ps k = (None, k3)" using D(1) l a by (simp add: setTunAddrPrefixes_def thenE_def)
  moreover have "a \<in> set (addrs k3)" if "a \<in> ?E" "tunAddrPrefix a = Some p" "p \<in> set ps" "readyAddr a" for a p
    using refPlan_untouched [OF c assms(3) that(1,2) _ that(4)] after_keeps [OF F that(1)] that D(2) s3 by auto
  ultimately show ?thesis by blast
qed

end
end
