(* ===== verification/Tun_Config.thy ===== *)
theory Tun_Config
  imports Tun_Reconcile
begin

text \<open>
  The exported configuration calls of \<open>tun/config.go\<close>: the MTU, the addresses, the routes and the name
  of a TUN interface. The operating system is a parameter, a record of the ioctl and netlink calls;
  \<open>tun_handle\<close> is its contract, and gives the contract of \<open>tun_addr_netlink\<close> for the package's
  \<open>realTunAddrNetlink\<close>. A \<open>gtun.Tun\<close> is nil, or has a nil file, or has the file of a descriptor.
\<close>

section \<open>The operating system\<close>

record nlLink =
  lk_Index :: int
  lk_Up :: bool

type_synonym goTun = "int option option"

text \<open>\<open>th_RouteListFiltered\<close> has the family, and the table and the interface of the filter;
  \<open>th_ErrUnknownTun\<close> is the error value of package sysnet.\<close>

record 'k tunHandle =
  th_ErrUnknownTun :: goError
  th_NewIfreq :: "string \<Rightarrow> goError option"
  th_TUNGETIFF :: "int \<Rightarrow> ('k, string) query"
  th_LinkByName :: "string \<Rightarrow> ('k, nlLink) query"
  th_LinkSetMTU :: "nlLink \<Rightarrow> int \<Rightarrow> 'k act"
  th_LinkSetDown :: "nlLink \<Rightarrow> 'k act"
  th_LinkSetUp :: "nlLink \<Rightarrow> 'k act"
  th_LinkSetName :: "nlLink \<Rightarrow> string \<Rightarrow> 'k act"
  th_AddrList :: "nlLink \<Rightarrow> int \<Rightarrow> ('k, NLAddr list) query"
  th_AddrReplace :: "nlLink \<Rightarrow> NLAddr \<Rightarrow> 'k act"
  th_AddrDel :: "nlLink \<Rightarrow> NLAddr \<Rightarrow> 'k act"
  th_AddrString :: "NLAddr \<Rightarrow> string"
  th_RouteListFiltered :: "int \<Rightarrow> int \<Rightarrow> int \<Rightarrow> ('k, TunNLRoute list) query"
  th_RouteDel :: "TunNLRoute \<Rightarrow> 'k act"
  th_RouteReplace :: "TunNLRoute \<Rightarrow> 'k act"

definition realTunAddrNetlink :: "'k tunHandle \<Rightarrow> nlLink \<Rightarrow> 'k tunAddrNetlink" where
  "realTunAddrNetlink H link = \<lparr>tn_List = th_AddrList H link FAMILY_ALL, tn_Replace = th_AddrReplace H link,
     tn_Delete = th_AddrDel H link, tn_String = th_AddrString H\<rparr>"

section \<open>The calls\<close>

record tunInfo =
  ti_name :: string
  ti_index :: int
  ti_link :: nlLink

definition tunFileInfo :: "'k tunHandle \<Rightarrow> goTun \<Rightarrow> ('k, tunInfo) query" where
  "tunFileInfo H tun k = (case tun of None \<Rightarrow> (Inl (th_ErrUnknownTun H), k)
     | Some file \<Rightarrow> (case file of None \<Rightarrow> (Inl (th_ErrUnknownTun H), k)
     | Some fd \<Rightarrow> (case th_NewIfreq H '''' of Some err \<Rightarrow> (Inl (Errorf ''create TUNGETIFF ifreq: %w'' [] [err]), k)
     | None \<Rightarrow> (case th_TUNGETIFF H fd k of (Inl err, k) \<Rightarrow> (Inl (Errorf ''TUNGETIFF: %w'' [] [err]), k)
     | (Inr name, k) \<Rightarrow> (case th_LinkByName H name k of
         (Inl err, k) \<Rightarrow> (Inl (Errorf ''lookup interface %s: %w'' [AStr name] [err]), k)
       | (Inr link, k) \<Rightarrow> (Inr \<lparr>ti_name = name, ti_index = lk_Index link, ti_link = link\<rparr>, k))))))"

definition SetTunMTU :: "'k tunHandle \<Rightarrow> goTun \<Rightarrow> int \<Rightarrow> 'k act" where
  "SetTunMTU H tun mtu0 k = (let mtu = NormalizeMTU mtu0 in
     case tunFileInfo H tun k of (Inl err, k) \<Rightarrow> (Some err, k)
     | (Inr info, k) \<Rightarrow> wrapE (\<lambda>err. Errorf ''set MTU of %s: %w'' [AStr (ti_name info)] [err])
         (th_LinkSetMTU H (ti_link info) mtu) k)"

definition SetTunAddrs :: "'k tunHandle \<Rightarrow> goTun \<Rightarrow> string list \<Rightarrow> 'k act" where
  "SetTunAddrs H tun values k = (case tunFileInfo H tun k of (Inl err, k) \<Rightarrow> (Some err, k)
     | (Inr info, k) \<Rightarrow> (case parseTunAddrPrefixes values of Inl err \<Rightarrow> (Some err, k)
       | Inr pfxs \<Rightarrow> setTunAddrPrefixes (realTunAddrNetlink H (ti_link info)) pfxs k))"

definition AddTunAddr :: "'k tunHandle \<Rightarrow> goTun \<Rightarrow> string \<Rightarrow> 'k act" where
  "AddTunAddr H tun value k = (case tunFileInfo H tun k of (Inl err, k) \<Rightarrow> (Some err, k)
     | (Inr info, k) \<Rightarrow> (case parseTunAddrPrefix value of Inl err \<Rightarrow> (Some err, k)
       | Inr pfx \<Rightarrow> addTunAddrPrefix (realTunAddrNetlink H (ti_link info)) pfx k))"

definition GetTunAddrs :: "'k tunHandle \<Rightarrow> goTun \<Rightarrow> ('k, string list) query" where
  "GetTunAddrs H tun k = (case tunFileInfo H tun k of (Inl err, k) \<Rightarrow> (Inl err, k)
     | (Inr info, k) \<Rightarrow> (case th_AddrList H (ti_link info) FAMILY_ALL k of
         (Inl err, k) \<Rightarrow> (Inl (Errorf ''get addresses: %w'' [] [err]), k)
       | (Inr as, k) \<Rightarrow> (Inr (List.map_filter (\<lambda>a. map_option ipNetString (na_IPNet a)) as), k)))"

text \<open>The loops of \<open>SetTunRoutes\<close>: deleting a route that is gone is no error; a route that cannot be
  written is reported with the text it was given as.\<close>

definition deleteTunRoute :: "'k tunHandle \<Rightarrow> TunNLRoute \<Rightarrow> 'k act" where
  "deleteTunRoute H route = (\<lambda>k. ignoring ESRCH (th_RouteDel H (tunRouteDeleteSpec route) k))"

definition writeTunRoute :: "'k tunHandle \<Rightarrow> int \<Rightarrow> string \<times> Prefix \<Rightarrow> 'k act" where
  "writeTunRoute H index tp k = (case tp of (text, pfx) \<Rightarrow> (case netlinkRouteFromPrefix index pfx of
       Inl err \<Rightarrow> (Some err, k)
     | Inr route \<Rightarrow> wrapE (\<lambda>err. Errorf ''update route %s: %w'' [AStr text] [err]) (th_RouteReplace H route) k))"

definition SetTunRoutes :: "'k tunHandle \<Rightarrow> goTun \<Rightarrow> string list \<Rightarrow> 'k act" where
  "SetTunRoutes H tun routes k = (case tunFileInfo H tun k of (Inl err, k) \<Rightarrow> (Some err, k)
     | (Inr info, k) \<Rightarrow> (case parseTunRoutePrefixes routes of Inl err \<Rightarrow> (Some err, k)
       | Inr pfxs \<Rightarrow> (case th_RouteListFiltered H FAMILY_ALL RT_TABLE_MAIN (ti_index info) k of
           (Inl err, k) \<Rightarrow> (Some err, k)
         | (Inr current, k) \<Rightarrow> thenE (forE (deleteTunRoute H) current)
             (forE (writeTunRoute H (ti_index info)) (zip routes pfxs)) k)))"

definition AddTunRoute :: "'k tunHandle \<Rightarrow> goTun \<Rightarrow> string \<Rightarrow> 'k act" where
  "AddTunRoute H tun route k = (case tunFileInfo H tun k of (Inl err, k) \<Rightarrow> (Some err, k)
     | (Inr info, k) \<Rightarrow> (case parseTunRoutePrefix route of Inl err \<Rightarrow> (Some err, k)
       | Inr pfx \<Rightarrow> writeTunRoute H (ti_index info) (route, pfx) k))"

definition tunRouteText :: "TunNLRoute \<Rightarrow> string option" where
  "tunRouteText route =
     (if nlr_Table route \<noteq> RT_TABLE_MAIN \<or> nlr_Type route \<noteq> 0 \<and> nlr_Type route \<noteq> RTN_UNICAST then None
      else case tunPrefixFromIPNet (nlr_Dst route) (nlr_Family route) of None \<Rightarrow> None
        | Some pfx \<Rightarrow> Some (prefixString pfx))"

definition GetTunRoutes :: "'k tunHandle \<Rightarrow> goTun \<Rightarrow> ('k, string list) query" where
  "GetTunRoutes H tun k = (case tunFileInfo H tun k of (Inl err, k) \<Rightarrow> (Inl err, k)
     | (Inr info, k) \<Rightarrow> (case th_RouteListFiltered H FAMILY_ALL RT_TABLE_MAIN (ti_index info) k of
         (Inl err, k) \<Rightarrow> (Inl (Errorf ''get routes: %w'' [] [err]), k)
       | (Inr routes, k) \<Rightarrow> (Inr (List.map_filter tunRouteText routes), k)))"

text \<open>A failed renaming brings the interface up again without looking at the result.\<close>

definition SetTunName :: "'k tunHandle \<Rightarrow> goTun \<Rightarrow> string \<Rightarrow> 'k act" where
  "SetTunName H tun name k = (case tunFileInfo H tun k of (Inl err, k) \<Rightarrow> (Some err, k)
     | (Inr info, k) \<Rightarrow>
       (let wasUp = lk_Up (ti_link info) in
        thenE (\<lambda>k. if wasUp then wrapE (\<lambda>err. Errorf ''set interface %s down: %w'' [AStr (ti_name info)] [err])
                 (th_LinkSetDown H (ti_link info)) k else (None, k))
          (\<lambda>k. case th_LinkSetName H (ti_link info) name k of
              (Some err, k) \<Rightarrow> (Some (Errorf ''rename interface %s to %s: %w'' [AStr (ti_name info), AStr name] [err]),
                  if wasUp then snd (th_LinkSetUp H (ti_link info) k) else k)
            | (None, k) \<Rightarrow> (case tunFileInfo H tun k of (Inl err, k) \<Rightarrow> (Some err, k)
              | (Inr renamed, k) \<Rightarrow>
                  if wasUp then wrapE (\<lambda>err. Errorf ''set interface %s up: %w'' [AStr (ti_name renamed)] [err])
                    (th_LinkSetUp H (ti_link renamed)) k
                  else (None, k))) k))"

section \<open>The contract of the operating system\<close>

text \<open>
  \<open>addrsOf\<close> and \<open>routesOf\<close> are the addresses of each interface, as listed, and all routes. The interface of a
  descriptor is \<open>ifIndex\<close>, whatever its name. Looking an interface up changes nothing. The calls on
  addresses are as in \<open>tun_addr_netlink\<close>. A route deleted or not found is gone; a route written is
  there, in the place of routes to the same destination at most.
\<close>

definition tunReads :: "TunNLRoute \<Rightarrow> int \<times> int \<times> int \<times> Prefix option" where
  "tunReads r = (nlr_Table r, nlr_LinkIndex r, nlr_Type r, tunPrefixFromIPNet (nlr_Dst r) (nlr_Family r))"

definition tunRoutesOn :: "int \<Rightarrow> TunNLRoute set \<Rightarrow> TunNLRoute set" where
  "tunRoutesOn index R = {r \<in> R. nlr_Table r = RT_TABLE_MAIN \<and> nlr_LinkIndex r = index}"

abbreviation staticRoute :: "int \<Rightarrow> Prefix \<Rightarrow> int \<times> int \<times> int \<times> Prefix option" where
  "staticRoute index p \<equiv> (RT_TABLE_MAIN, index, RTN_UNICAST, Some p)"

text \<open>The interface has static routes for the prefixes, and no other routes.\<close>

definition routed :: "int \<Rightarrow> Prefix set \<Rightarrow> TunNLRoute set \<Rightarrow> bool" where
  "routed index P R \<longleftrightarrow> (\<forall>r \<in> tunRoutesOn index R. tunReads r \<in> staticRoute index ` P) \<and>
     (\<forall>p \<in> P. \<exists>r \<in> R. tunReads r = staticRoute index p)"

text \<open>A route written for a prefix reads back as that prefix.\<close>

lemma route_reads:
  assumes "netlinkRouteFromPrefix index p = Inr r" and "prefixMasked p = p" and "\<not> addrIs4In6 (pfxAddr p)"
  shows "tunReads r = staticRoute index p \<and> readable p"
proof -
  have v: "prefixIsValid p" using assms(1,2) by (auto simp: netlinkRouteFromPrefix_def tunIpNetFromPrefix_def split: if_splits)
  have z: "addrZone (pfxAddr p) = ''''" using wf_prefixMasked [of p] assms(2) by (simp add: wf_prefix_def)
  have r: "r = \<lparr>nlr_Family = 0, nlr_Table = RT_TABLE_MAIN, nlr_Dst = Some \<lparr>ipnet_IP = tunNetIPFromAddr (pfxAddr p),
      ipnet_Mask = CIDRMask (pfxBits p) (if addrIs4 (pfxAddr p) then 32 else 128)\<rparr>, nlr_Gw = IPNil, nlr_Src = IPNil,
      nlr_LinkIndex = index, nlr_Priority = 0, nlr_Scope = SCOPE_LINK, nlr_Flags = 0, nlr_Type = RTN_UNICAST,
      nlr_MultiPath = [], nlr_NewDst = False, nlr_Encap = False, nlr_Via = False, nlr_MPLSDst = False,
      nlr_Protocol = RTPROT_STATIC\<rparr>"
    using assms(1,2) v by (simp add: netlinkRouteFromPrefix_def tunIpNetFromPrefix_def Let_def)
  have "pfxAddr p \<noteq> NoAddr" "0 \<le> pfxBits p" using v by (auto simp: prefixIsValid_def)
  moreover have "addrUnmap (pfxAddr p) = pfxAddr p" using assms(3) by (cases "pfxAddr p") simp_all
  ultimately have "tunPrefixFromIPNet (nlr_Dst r) (nlr_Family r) = Some (prefixMasked (prefixFrom (pfxAddr p) (pfxBits p)))"
    using assms(3) z by (simp add: r tunPrefixFromIPNet_def readAddr_id)
  then show ?thesis using prefixFrom_id [OF v z] assms(2,3) v z by (simp add: tunReads_def r readable_def)
qed

lemma parseTunRoutePrefixes_masked:
  "parseTunRoutePrefixes ss = Inr ps \<Longrightarrow> length ps = length ss \<and> (\<forall>p \<in> set ps. prefixMasked p = p)"
proof (induction ss arbitrary: ps)
  case (Cons s ss)
  then obtain p qs where "parseTunRoutePrefix s = Inr p" and qs: "parseTunRoutePrefixes ss = Inr qs" "ps = p # qs"
    by (cases "parseTunRoutePrefixes ss") (auto split: sum.splits)
  then have "prefixMasked p = p" by (auto simp: parseTunRoutePrefix_def prefixMasked_idem split: sum.splits)
  then show ?case using Cons.IH [OF qs(1)] qs(2) by simp
qed simp

locale tun_handle =
  fixes H :: "'k tunHandle" and addrsOf :: "'k \<Rightarrow> int \<Rightarrow> NLAddr list" and routesOf :: "'k \<Rightarrow> TunNLRoute set"
    and ifIndex :: "int \<Rightarrow> int"
  assumes getiff_frame: "th_TUNGETIFF H fd k = (n, k') \<Longrightarrow> addrsOf k' = addrsOf k \<and> routesOf k' = routesOf k"
    and lookup_frame: "th_LinkByName H name k = (l, k') \<Longrightarrow> addrsOf k' = addrsOf k \<and> routesOf k' = routesOf k"
    and lookup_index: "th_TUNGETIFF H fd k = (Inr name, k1) \<Longrightarrow> th_LinkByName H name k1 = (Inr link, k2) \<Longrightarrow>
      lk_Index link = ifIndex fd"
    and addr_list: "th_AddrList H link FAMILY_ALL k = (Inr as, k') \<Longrightarrow> as = addrsOf k' (lk_Index link) \<and>
      addrKey ` set (addrsOf k' (lk_Index link)) = addrKey ` set (addrsOf k (lk_Index link))"
    and addr_wf: "a \<in> set (addrsOf k i) \<Longrightarrow> wf_NLAddr a"
    and addr_replace: "th_AddrReplace H link a k = (None, k') \<Longrightarrow> b \<in> set (addrsOf k' (lk_Index link)) \<Longrightarrow>
      addrKey b \<in> addrKey ` set (addrsOf k (lk_Index link)) \<or> tunAddrPrefix b = tunAddrPrefix a"
    and addr_del: "th_AddrDel H link a k = (None, k') \<Longrightarrow>
      addrKey ` set (addrsOf k' (lk_Index link)) \<subseteq> addrKey ` set (addrsOf k (lk_Index link)) - {addrKey a}"
    and route_list: "th_RouteListFiltered H FAMILY_ALL RT_TABLE_MAIN index k = (Inr rs, k') \<Longrightarrow>
      set rs = tunRoutesOn index (routesOf k) \<and> routesOf k' = routesOf k"
    and route_del: "th_RouteDel H q k = (e, k') \<Longrightarrow> (case e of None \<Rightarrow> True | Some err \<Rightarrow> errors_is err ESRCH) \<Longrightarrow>
      routesOf k' \<subseteq> {r \<in> routesOf k. tunRouteDeleteSpec r \<noteq> q}"
    and route_replace: "th_RouteReplace H q k = (None, k') \<Longrightarrow> \<exists>r \<in> routesOf k'. tunReads r = tunReads q \<and>
      routesOf k' \<subseteq> insert r (routesOf k) \<and>
      {x \<in> routesOf k. tunPrefixFromIPNet (nlr_Dst x) (nlr_Family x) \<noteq> tunPrefixFromIPNet (nlr_Dst q) (nlr_Family q)} \<subseteq> routesOf k'"
begin

lemma link_addrs: "tun_addr_netlink (realTunAddrNetlink H link) (\<lambda>k. addrsOf k (lk_Index link))"
  by unfold_locales (auto simp: realTunAddrNetlink_def dest: addr_list addr_replace addr_del addr_wf)

lemma info_ok:
  assumes "tunFileInfo H tun k = (Inr info, k')"
  shows "\<exists>fd. tun = Some (Some fd) \<and> ti_index info = ifIndex fd \<and> lk_Index (ti_link info) = ifIndex fd \<and>
    addrsOf k' = addrsOf k \<and> routesOf k' = routesOf k"
  using assms getiff_frame lookup_frame lookup_index
  by (fastforce simp: tunFileInfo_def split: option.splits prod.splits sum.splits)

text \<open>Addresses.\<close>

lemma set_addrs_ok:
  assumes "SetTunAddrs H (Some (Some fd)) values k = (None, k')"
  shows "\<exists>ps. parseTunAddrPrefixes values = Inr ps \<and> tunAddrPrefix ` set (addrsOf k' (ifIndex fd)) = Some ` set ps \<and>
    (\<forall>p \<in> set ps. \<exists>a \<in> set (addrsOf k' (ifIndex fd)). tunAddrPrefix a = Some p \<and> readyAddr a)"
proof -
  obtain info k1 where i: "tunFileInfo H (Some (Some fd)) k = (Inr info, k1)"
    using assms by (auto simp: SetTunAddrs_def split: prod.splits sum.splits)
  then obtain ps where ps: "parseTunAddrPrefixes values = Inr ps"
    and s: "setTunAddrPrefixes (realTunAddrNetlink H (ti_link info)) ps k1 = (None, k')"
    using assms by (auto simp: SetTunAddrs_def split: sum.splits)
  from tun_addr_netlink.set_exact [OF link_addrs s] info_ok [OF i] ps show ?thesis by auto
qed

lemma get_addrs_ok:
  assumes "GetTunAddrs H (Some (Some fd)) k = (Inr out, k')" and "tunAddrPrefix ` set (addrsOf k (ifIndex fd)) = Some ` P"
  shows "set out = prefixString ` P \<and> (\<forall>p \<in> P. readable p)"
proof -
  obtain info k1 as where i: "tunFileInfo H (Some (Some fd)) k = (Inr info, k1)"
    and l: "th_AddrList H (ti_link info) FAMILY_ALL k1 = (Inr as, k')"
    and out: "out = List.map_filter (\<lambda>a. map_option ipNetString (na_IPNet a)) as"
    using assms(1) by (auto simp: GetTunAddrs_def split: prod.splits sum.splits)
  have idx: "lk_Index (ti_link info) = ifIndex fd" "addrsOf k1 = addrsOf k" using info_ok [OF i] by auto
  have same: "as = addrsOf k' (ifIndex fd)" "addrKey ` set as = addrKey ` set (addrsOf k (ifIndex fd))"
    using addr_list [OF l] idx by simp_all
  have pre: "tunAddrPrefix ` set as = Some ` P"
  proof -
    have t: "tunAddrPrefix a = tunAddrPrefix (addrKey a)" for a by (simp add: addrKey_def tunAddrPrefix_def)
    have "tunAddrPrefix ` set as = tunAddrPrefix ` addrKey ` set as" by (simp add: image_image t [symmetric])
    also have "\<dots> = tunAddrPrefix ` set (addrsOf k (ifIndex fd))" unfolding same(2) by (simp add: image_image t [symmetric])
    finally show ?thesis using assms(2) by simp
  qed
  have tx: "map_option ipNetString (na_IPNet a) = map_option prefixString (tunAddrPrefix a) \<and> (\<exists>p \<in> P. tunAddrPrefix a = Some p)"
    if a: "a \<in> set as" for a
  proof -
    obtain p where p: "p \<in> P" "tunAddrPrefix a = Some p" using pre a by blast
    then show ?thesis using tunAddrPrefix_Some [OF p(2)] ipNetString_prefix [OF p(2)] addr_wf a same(1) by force
  qed
  have "set out = {y. \<exists>x \<in> tunAddrPrefix ` set as. map_option prefixString x = Some y}"
    using tx by (simp add: out set_map_filter_Some)
  also have "\<dots> = prefixString ` P" unfolding pre by auto
  finally show ?thesis using pre addr_wf same(1) tunAddrPrefix_Some by (metis imageE imageI)
qed

text \<open>Routes.\<close>

lemma delete_routes:
  "forE (deleteTunRoute H) rs k = (None, k') \<Longrightarrow> routesOf k' \<subseteq> routesOf k - set rs"
proof (induction rs arbitrary: k)
  case (Cons r rs)
  obtain k1 where d: "deleteTunRoute H r k = (None, k1)" and f: "forE (deleteTunRoute H) rs k1 = (None, k')"
    using Cons.prems by (auto simp: forE_Cons_None simp del: forE.simps)
  obtain e where e: "th_RouteDel H (tunRouteDeleteSpec r) k = (e, k1)" "case e of None \<Rightarrow> True | Some err \<Rightarrow> errors_is err ESRCH"
    using d by (auto simp: deleteTunRoute_def ignoring_def split: prod.splits option.splits if_splits)
  from route_del [OF e] Cons.IH [OF f] show ?case by auto
qed simp

lemma write_route:
  assumes "writeTunRoute H index tp k = (None, k')" and "prefixMasked (snd tp) = snd tp" and "\<not> addrIs4In6 (pfxAddr (snd tp))"
    and "routed index P (routesOf k)"
  shows "routed index (insert (snd tp) P) (routesOf k') \<and> readable (snd tp)"
proof -
  obtain q where q: "netlinkRouteFromPrefix index (snd tp) = Inr q" and w: "th_RouteReplace H q k = (None, k')"
    using assms(1) by (auto simp: writeTunRoute_def wrapE_None split: prod.splits sum.splits)
  note reads = route_reads [OF q assms(2,3)]
  obtain r where r: "r \<in> routesOf k'" "tunReads r = staticRoute index (snd tp)" "routesOf k' \<subseteq> insert r (routesOf k)"
    and keep: "{x \<in> routesOf k. tunPrefixFromIPNet (nlr_Dst x) (nlr_Family x) \<noteq> Some (snd tp)} \<subseteq> routesOf k'"
    using route_replace [OF w] reads by (auto simp: tunReads_def)
  have "\<exists>x \<in> routesOf k'. tunReads x = staticRoute index p" if p: "p \<in> insert (snd tp) P" for p
  proof (cases "p = snd tp")
    case False
    then obtain x where x: "x \<in> routesOf k" "tunReads x = staticRoute index p" using p assms(4) by (auto simp: routed_def)
    then have "x \<in> routesOf k'" using keep False by (auto simp: tunReads_def)
    then show ?thesis using x by blast
  qed (use r in auto)
  moreover have "tunReads x \<in> staticRoute index ` insert (snd tp) P" if "x \<in> tunRoutesOn index (routesOf k')" for x
  proof (cases "x = r")
    case False
    then have "x \<in> tunRoutesOn index (routesOf k)" using that r(3) by (auto simp: tunRoutesOn_def)
    then show ?thesis using assms(4) by (auto simp: routed_def)
  qed (use r in auto)
  ultimately show ?thesis using reads by (auto simp: routed_def)
qed

lemma write_routes:
  "forE (writeTunRoute H index) tps k = (None, k') \<Longrightarrow>
     \<forall>p \<in> snd ` set tps. prefixMasked p = p \<and> \<not> addrIs4In6 (pfxAddr p) \<Longrightarrow> routed index P (routesOf k) \<Longrightarrow>
     routed index (P \<union> snd ` set tps) (routesOf k') \<and> (\<forall>p \<in> snd ` set tps. readable p)"
proof (induction tps arbitrary: k P)
  case (Cons tp tps)
  obtain k1 where w: "writeTunRoute H index tp k = (None, k1)" and f: "forE (writeTunRoute H index) tps k1 = (None, k')"
    using Cons.prems by (auto simp: forE_Cons_None simp del: forE.simps)
  have tp: "routed index (insert (snd tp) P) (routesOf k1)" "readable (snd tp)"
    using write_route [OF w _ _ Cons.prems(3)] Cons.prems(2) by simp_all
  from Cons.IH [OF f _ tp(1)] Cons.prems(2) tp(2) show ?case by simp
qed simp

theorem set_routes_ok:
  assumes "SetTunRoutes H (Some (Some fd)) ss k = (None, k')" and "parseTunRoutePrefixes ss = Inr ps"
    and "\<forall>p \<in> set ps. \<not> addrIs4In6 (pfxAddr p)"
  shows "routed (ifIndex fd) (set ps) (routesOf k') \<and> (\<forall>p \<in> set ps. readable p)"
proof -
  obtain info k1 where i: "tunFileInfo H (Some (Some fd)) k = (Inr info, k1)"
    using assms by (auto simp: SetTunRoutes_def split: prod.splits sum.splits)
  have idx: "ti_index info = ifIndex fd" using info_ok [OF i] by auto
  obtain rs k2 where l: "th_RouteListFiltered H FAMILY_ALL RT_TABLE_MAIN (ifIndex fd) k1 = (Inr rs, k2)"
    using assms i idx by (auto simp: SetTunRoutes_def split: prod.splits sum.splits)
  then obtain k3 where d: "forE (deleteTunRoute H) rs k2 = (None, k3)"
    and w: "forE (writeTunRoute H (ifIndex fd)) (zip ss ps) k3 = (None, k')"
    using assms i idx by (auto simp: SetTunRoutes_def thenE_None)
  note m = parseTunRoutePrefixes_masked [OF assms(2)]
  have s: "snd ` set (zip ss ps) = set ps" using m map_snd_zip [of ss ps] by (metis list.set_map)
  have "tunRoutesOn (ifIndex fd) (routesOf k3) = {}"
    using delete_routes [OF d] route_list [OF l] by (auto simp: tunRoutesOn_def)
  then have "routed (ifIndex fd) {} (routesOf k3)" by (simp add: routed_def)
  from write_routes [OF w _ this] show ?thesis using assms(3) m unfolding s by simp
qed

lemma get_routes_ok:
  assumes "GetTunRoutes H (Some (Some fd)) k = (Inr out, k')" and "routed (ifIndex fd) P (routesOf k)"
  shows "set out = prefixString ` P"
proof -
  obtain info k1 rs where i: "tunFileInfo H (Some (Some fd)) k = (Inr info, k1)"
    and l: "th_RouteListFiltered H FAMILY_ALL RT_TABLE_MAIN (ti_index info) k1 = (Inr rs, k')"
    and out: "out = List.map_filter tunRouteText rs"
    using assms(1) by (auto simp: GetTunRoutes_def split: prod.splits sum.splits)
  have rs: "set rs = tunRoutesOn (ifIndex fd) (routesOf k)" using route_list [OF l] info_ok [OF i] by auto
  have tx: "tunRouteText r = Some (prefixString p)" if "tunReads r = staticRoute (ifIndex fd) p" for r p
    using that by (simp add: tunReads_def tunRouteText_def)
  have on: "r \<in> set rs" if "r \<in> routesOf k" "tunReads r = staticRoute (ifIndex fd) p" for r p
    using that rs by (auto simp: tunReads_def tunRoutesOn_def)
  show ?thesis
  proof
    show "set out \<subseteq> prefixString ` P" using assms(2) rs tx by (fastforce simp: out set_map_filter_Some routed_def)
    show "prefixString ` P \<subseteq> set out" using assms(2) on tx by (fastforce simp: out set_map_filter_Some routed_def)
  qed
qed

end

section \<open>Text\<close>

lemma parseTunAddrPrefixes_back:
  "\<forall>s \<in> set ss. \<exists>p. readable p \<and> s = prefixString p \<Longrightarrow>
     \<exists>ps. parseTunAddrPrefixes ss = Inr ps \<and> ss = map prefixString ps \<and> (\<forall>p \<in> set ps. readable p)"
proof (induction ss)
  case (Cons s ss)
  then obtain p ps where p: "readable p" "s = prefixString p" and "parseTunAddrPrefixes ss = Inr ps" "ss = map prefixString ps"
    "\<forall>p \<in> set ps. readable p" by auto
  then show ?case using parseTunAddrPrefix_back [OF p(1)] by (intro exI [of _ "p # ps"]) simp
qed simp

lemma prefixString_inj: "readable p \<Longrightarrow> readable q \<Longrightarrow> prefixString p = prefixString q \<Longrightarrow> p = q"
  using parseTunAddrPrefix_back by (metis sum.inject(2))

end
