(* ===== verification/Tun_Properties.thy ===== *)
theory Tun_Properties
  imports Tun_Config
begin

text \<open>
  A TUN interface on lists that the contracts of the operating system describe, and the properties
  of the configuration calls with their witnesses on it.
\<close>

section \<open>A simulated interface\<close>

text \<open>One interface, number 7, behind descriptor 3.\<close>

record tunSim =
  ts_name :: string
  ts_up :: bool
  ts_mtu :: int
  ts_addrs :: "NLAddr list"
  ts_routes :: "TunNLRoute list"

definition simLink :: "tunSim \<Rightarrow> nlLink" where
  "simLink k = \<lparr>lk_Index = 7, lk_Up = ts_up k\<rparr>"

definition simAddrs :: "tunSim \<Rightarrow> int \<Rightarrow> NLAddr list" where
  "simAddrs k i = (if i = 7 then filter wf_NLAddr (ts_addrs k) else [])"

text \<open>A new address with NODAD is ready at once; an unusable one stays unusable until it is deleted.\<close>

definition simReplacement :: "NLAddr list \<Rightarrow> NLAddr \<Rightarrow> NLAddr" where
  "simReplacement as a = (case find (\<lambda>c. tunAddrPrefix c = tunAddrPrefix a \<and> \<not> usableV6 c) as of
     Some c \<Rightarrow> a\<lparr>na_Flags := na_Flags a OR na_Flags c, na_LinkIndex := 7\<rparr>
   | None \<Rightarrow> a\<lparr>na_Flags := na_Flags a AND IFA_F_NODAD, na_LinkIndex := 7\<rparr>)"

definition simAddrReplace :: "nlLink \<Rightarrow> NLAddr \<Rightarrow> tunSim act" where
  "simAddrReplace link a k = (case tunAddrPrefix a of None \<Rightarrow> (Some (Errno 22), k)
     | Some p \<Rightarrow> if lk_Index link \<noteq> 7 \<or> \<not> wf_NLAddr a then (Some (Errno 22), k)
         else if list_ex (\<lambda>b. hasAddr (pfxAddr p) b \<and> tunAddrPrefix b \<noteq> Some p) (simAddrs k 7) then (Some EEXIST, k)
         else (None, k\<lparr>ts_addrs := filter (\<lambda>c. tunAddrPrefix c \<noteq> Some p) (simAddrs k 7) @ [simReplacement (simAddrs k 7) a]\<rparr>))"

definition simAddrDel :: "nlLink \<Rightarrow> NLAddr \<Rightarrow> tunSim act" where
  "simAddrDel link a k = (if lk_Index link = 7 \<and> list_ex (\<lambda>b. addrKey b = addrKey a) (simAddrs k 7)
     then (None, k\<lparr>ts_addrs := filter (\<lambda>b. addrKey b \<noteq> addrKey a) (simAddrs k 7)\<rparr>) else (Some (Errno 99), k))"

definition simTunRouteDel :: "TunNLRoute \<Rightarrow> tunSim act" where
  "simTunRouteDel q k = (if list_ex (\<lambda>r. tunRouteDeleteSpec r = q) (ts_routes k)
     then (None, k\<lparr>ts_routes := filter (\<lambda>r. tunRouteDeleteSpec r \<noteq> q) (ts_routes k)\<rparr>) else (Some ESRCH, k))"

definition simTunRouteReplace :: "TunNLRoute \<Rightarrow> tunSim act" where
  "simTunRouteReplace q k = (None, k\<lparr>ts_routes := q # filter (\<lambda>x. tunPrefixFromIPNet (nlr_Dst x) (nlr_Family x) \<noteq>
     tunPrefixFromIPNet (nlr_Dst q) (nlr_Family q)) (ts_routes k)\<rparr>)"

definition simTunHandle :: "tunSim tunHandle" where
  "simTunHandle = \<lparr>th_ErrUnknownTun = ErrorsNew ''unknown tun'', th_NewIfreq = (\<lambda>_. None),
     th_TUNGETIFF = (\<lambda>fd k. if fd = 3 then (Inr (ts_name k), k) else (Inl (Errno 9), k)),
     th_LinkByName = (\<lambda>n k. if n = ts_name k then (Inr (simLink k), k) else (Inl (Errno 19), k)),
     th_LinkSetMTU = (\<lambda>link mtu k. (None, k\<lparr>ts_mtu := mtu\<rparr>)),
     th_LinkSetDown = (\<lambda>link k. (None, k\<lparr>ts_up := False\<rparr>)), th_LinkSetUp = (\<lambda>link k. (None, k\<lparr>ts_up := True\<rparr>)),
     th_LinkSetName = (\<lambda>link n k. if ts_up k then (Some EBUSY, k) else (None, k\<lparr>ts_name := n\<rparr>)),
     th_AddrList = (\<lambda>link fam k. (Inr (simAddrs k (lk_Index link)), k)),
     th_AddrReplace = simAddrReplace, th_AddrDel = simAddrDel, th_AddrString = (\<lambda>_. ''address''),
     th_RouteListFiltered = (\<lambda>fam table index k. (Inr (filter (\<lambda>r. nlr_Table r = table \<and> nlr_LinkIndex r = index) (ts_routes k)), k)),
     th_RouteDel = simTunRouteDel, th_RouteReplace = simTunRouteReplace\<rparr>"

lemma simReplacement_prefix [simp]: "tunAddrPrefix (simReplacement as a) = tunAddrPrefix a" "wf_NLAddr (simReplacement as a) = wf_NLAddr a"
  by (simp_all add: simReplacement_def tunAddrPrefix_def wf_NLAddr_def split: option.split)

lemma simAddrs_update [simp]: "simAddrs (k\<lparr>ts_addrs := as\<rparr>) 7 = filter wf_NLAddr as"
  by (simp add: simAddrs_def)

lemma simAddrs_wf: "a \<in> set (simAddrs k i) \<Longrightarrow> wf_NLAddr a"
  by (auto simp: simAddrs_def split: if_splits)

lemma filter_simAddrs [simp]: "filter wf_NLAddr (filter P (simAddrs k 7)) = filter P (simAddrs k 7)"
  by (rule filter_True) (auto simp: simAddrs_wf)

interpretation simTun: tun_handle simTunHandle simAddrs "\<lambda>k. set (ts_routes k)" "\<lambda>_. 7"
proof (unfold_locales, unfold simTunHandle_def tunHandle.simps)
  fix link :: nlLink and a b k k'
  show "addrKey b \<in> addrKey ` set (simAddrs k (lk_Index link)) \<or> tunAddrPrefix b = tunAddrPrefix a"
    if "simAddrReplace link a k = (None, k')" "b \<in> set (simAddrs k' (lk_Index link))"
    using that by (auto simp: simAddrReplace_def split: option.splits if_splits)
  show "addrKey ` set (simAddrs k' (lk_Index link)) \<subseteq> addrKey ` set (simAddrs k (lk_Index link)) - {addrKey a}"
    if "simAddrDel link a k = (None, k')"
    using that by (auto simp: simAddrDel_def split: if_splits)
qed (auto simp: simTunRouteDel_def simTunRouteReplace_def tunRoutesOn_def simAddrs_wf simLink_def ESRCH_def list_ex_iff split: if_splits)

text \<open>The simulated kernel carries out what is possible.\<close>

definition simLink7 :: nlLink where
  "simLink7 = \<lparr>lk_Index = 7, lk_Up = True\<rparr>"

interpretation simLinkAddrs: tun_addr_netlink "realTunAddrNetlink simTunHandle simLink7" "\<lambda>k. simAddrs k 7"
  using simTun.link_addrs [of simLink7] by (simp add: simLink7_def)

lemma readable_wf:
  assumes "tunAddrPrefix a = Some p" and "readable p"
  shows "wf_NLAddr a"
proof (cases "na_IPNet a")
  case (Some n)
  show ?thesis
  proof (cases "ipnet_Mask n")
    case (CIDRMask ones bits)
    then show ?thesis using assms Some
      by (auto simp: tunAddrPrefix_def wf_NLAddr_def readable_def split: option.splits if_splits)
  qed (use Some in \<open>simp add: wf_NLAddr_def\<close>)
qed (simp add: wf_NLAddr_def)

lemma noDAD_iff: "noDAD a \<longleftrightarrow> bit (na_Flags a) 1"
  using and_exp_eq_0_iff_not_bit [of "na_Flags a" 1] by (simp add: noDAD_def)

lemma simReplacement_flags:
  "noDAD a \<Longrightarrow> noDAD (simReplacement as a)"
  "(\<forall>c \<in> set as. tunAddrPrefix c = tunAddrPrefix a \<longrightarrow> usableV6 c) \<Longrightarrow> usableV6 (simReplacement as a)"
proof -
  have "bit (2 :: int) 1" by simp
  then show "noDAD a \<Longrightarrow> noDAD (simReplacement as a)"
    by (simp add: simReplacement_def noDAD_iff bit_or_iff bit_and_iff split: option.split)
  have "(x AND 2) AND unusableIPv6AddrFlags = 0" for x :: int
    by (simp add: unusableIPv6AddrFlags_def and.assoc)
  then show "(\<forall>c \<in> set as. tunAddrPrefix c = tunAddrPrefix a \<longrightarrow> usableV6 c) \<Longrightarrow> usableV6 (simReplacement as a)"
    by (auto simp: simReplacement_def usableV6_def find_Some_iff split: option.split dest!: nth_mem)
qed

interpretation simResponsive: responsive_netlink "realTunAddrNetlink simTunHandle simLink7" "\<lambda>k. simAddrs k 7"
proof (unfold_locales, unfold realTunAddrNetlink_def tunAddrNetlink.simps simTunHandle_def tunHandle.simps)
  fix a p and k :: tunSim
  show "\<exists>as k'. (Inr (simAddrs k (lk_Index simLink7)), k) = (Inr as, k') \<and> simAddrs k' 7 = simAddrs k 7" by simp
  show "\<exists>k'. simAddrDel simLink7 a k = (None, k') \<and> set (simAddrs k' 7) = {b \<in> set (simAddrs k 7). addrKey b \<noteq> addrKey a}"
    if "addrKey a \<in> addrKey ` set (simAddrs k 7)"
    using that by (auto simp: simAddrDel_def simLink7_def list_ex_iff image_iff simAddrs_wf)
  assume a: "tunAddrPrefix a = Some p" "readable p"
    and no: "\<And>b. b \<in> set (simAddrs k 7) \<Longrightarrow> hasAddr (pfxAddr p) b \<Longrightarrow> tunAddrPrefix b = Some p"
  let ?b = "simReplacement (simAddrs k 7) a"
  let ?k = "k\<lparr>ts_addrs := filter (\<lambda>c. tunAddrPrefix c \<noteq> Some p) (simAddrs k 7) @ [?b]\<rparr>"
  have "\<not> list_ex (\<lambda>b. hasAddr (pfxAddr p) b \<and> tunAddrPrefix b \<noteq> Some p) (simAddrs k 7)" using no by (auto simp: list_ex_iff)
  then have "simAddrReplace simLink7 a k = (None, ?k)"
    using a readable_wf [OF a] by (simp add: simAddrReplace_def simLink7_def)
  moreover have "set (simAddrs ?k 7) = insert ?b {c \<in> set (simAddrs k 7). tunAddrPrefix c \<noteq> Some p}"
    using readable_wf [OF a] by (auto simp: simAddrs_wf)
  ultimately show "\<exists>b k'. simAddrReplace simLink7 a k = (None, k') \<and> tunAddrPrefix b = Some p \<and>
      set (simAddrs k' 7) = insert b {c \<in> set (simAddrs k 7). tunAddrPrefix c \<noteq> Some p} \<and>
      (noDAD a \<longrightarrow> noDAD b \<and> ((\<forall>c \<in> set (simAddrs k 7). tunAddrPrefix c = Some p \<longrightarrow> usableV6 c) \<longrightarrow> usableV6 b))"
    using simReplacement_flags [where a = a and as = "simAddrs k 7"] a(1) by (intro exI [of _ ?b] exI [of _ ?k]) simp
qed

section \<open>Properties\<close>

lemma readyAddr_flags:
  "readyAddr a \<Longrightarrow> tunAddrPrefix a = Some p \<Longrightarrow> addrIs6 (pfxAddr p) \<Longrightarrow>
     na_Flags a AND IFA_F_NODAD \<noteq> 0 \<and> na_Flags a AND (IFA_F_TENTATIVE OR IFA_F_DADFAILED) = 0"
  by (simp add: readyAddr_def noDAD_def usableV6_def unusableIPv6AddrFlags_def)

text \<open>
  C27: After a successful SetTunAddrs the interface has exactly the given addresses: each of them is
  there with its length, an IPv6 one without duplicate address detection, neither tentative nor
  failed, every other address is gone, and what GetTunAddrs then reports parses to the same set of
  prefixes, however the input was written.
\<close>

theorem tun_addrs_exact:
  assumes "tun_handle H addrsOf routesOf ifIndex"
    and "SetTunAddrs H (Some (Some fd)) cidrs k = (None, k')" and "GetTunAddrs H (Some (Some fd)) k' = (Inr out, k'')"
  shows "\<exists>ps qs. parseTunAddrPrefixes cidrs = Inr ps \<and> parseTunAddrPrefixes out = Inr qs \<and> set qs = set ps \<and>
    tunAddrPrefix ` set (addrsOf k' (ifIndex fd)) = Some ` set ps \<and>
    (\<forall>p \<in> set ps. \<exists>a \<in> set (addrsOf k' (ifIndex fd)). tunAddrPrefix a = Some p \<and>
      (addrIs6 (pfxAddr p) \<longrightarrow> na_Flags a AND IFA_F_NODAD \<noteq> 0 \<and> na_Flags a AND (IFA_F_TENTATIVE OR IFA_F_DADFAILED) = 0))"
proof -
  obtain ps where ps: "parseTunAddrPrefixes cidrs = Inr ps" and as: "tunAddrPrefix ` set (addrsOf k' (ifIndex fd)) = Some ` set ps"
    and ready: "\<forall>p \<in> set ps. \<exists>a \<in> set (addrsOf k' (ifIndex fd)). tunAddrPrefix a = Some p \<and> readyAddr a"
    using tun_handle.set_addrs_ok [OF assms(1,2)] by blast
  have out: "set out = prefixString ` set ps" "\<forall>p \<in> set ps. readable p"
    using tun_handle.get_addrs_ok [OF assms(1,3) as] by blast+
  then obtain qs where qs: "parseTunAddrPrefixes out = Inr qs" "out = map prefixString qs" "\<forall>q \<in> set qs. readable q"
    using parseTunAddrPrefixes_back [of out] by auto
  have "prefixString ` set qs = prefixString ` set ps" using qs(2) out(1) by simp
  moreover have "inj_on prefixString {p. readable p}" using prefixString_inj by (auto simp: inj_on_def)
  ultimately have "set qs = set ps" using qs(3) out(2) by (intro iffD1 [OF inj_on_image_eq_iff [of prefixString "{p. readable p}"]]) (simp_all add: subset_eq)
  moreover have "\<forall>p \<in> set ps. \<exists>a \<in> set (addrsOf k' (ifIndex fd)). tunAddrPrefix a = Some p \<and>
      (addrIs6 (pfxAddr p) \<longrightarrow> na_Flags a AND IFA_F_NODAD \<noteq> 0 \<and> na_Flags a AND (IFA_F_TENTATIVE OR IFA_F_DADFAILED) = 0)"
    using ready readyAddr_flags by blast
  ultimately show ?thesis using ps qs(1) as by blast
qed

definition sampleAddr :: "netIP \<Rightarrow> int \<Rightarrow> int \<Rightarrow> int \<Rightarrow> NLAddr" where
  "sampleAddr ip ones bits flags = zeroNLAddr\<lparr>na_IPNet := Some \<lparr>ipnet_IP = ip, ipnet_Mask = CIDRMask ones bits\<rparr>,
     na_Flags := flags, na_LinkIndex := 7\<rparr>"

text \<open>An address to keep, one to remove, a tentative one and one of another length.\<close>

definition sampleTun :: tunSim where
  "sampleTun = \<lparr>ts_name = ''tun0'', ts_up = True, ts_mtu = 1500,
     ts_addrs = [sampleAddr (IP4 0x0a000001) 24 32 128, sampleAddr (IP4 0x0a000009) 24 32 128,
       sampleAddr (IP16 0xfd000000000000000000000000000001) 64 128 64,
       sampleAddr (IP16 0xfd000000000000000000000000000002) 64 128 130],
     ts_routes = []\<rparr>"

definition sampleCIDRs :: "string list" where
  "sampleCIDRs = [''fd00::2/128'', ''10.0.0.1/24'', ''fd00:0::1/64'', ''10.0.0.1/24'']"

theorem tun_addrs_exact_witness:
  "\<exists>ps qs. parseTunAddrPrefixes sampleCIDRs = Inr ps \<and>
    parseTunAddrPrefixes (projr (fst (GetTunAddrs simTunHandle (Some (Some 3))
      (snd (SetTunAddrs simTunHandle (Some (Some 3)) sampleCIDRs sampleTun))))) = Inr qs \<and> set qs = set ps"
proof -
  let ?s = "SetTunAddrs simTunHandle (Some (Some 3)) sampleCIDRs sampleTun"
  let ?g = "GetTunAddrs simTunHandle (Some (Some 3)) (snd ?s)"
  have "fst ?s = None" by code_simp
  then have s: "?s = (None, snd ?s)" by (simp add: prod_eq_iff)
  have "\<not> isl (fst ?g)" by code_simp
  then have g: "?g = (Inr (projr (fst ?g)), snd ?g)" by (cases "fst ?g") (simp_all add: prod_eq_iff)
  from tun_addrs_exact [OF simTun.tun_handle_axioms s g] show ?thesis by blast
qed


definition samplePrefixes :: "Prefix list" where
  "samplePrefixes = [Prefix (Addr6 0xfd000000000000000000000000000002 '''') 128, Prefix (Addr4 0x0a000001) 24,
     Prefix (Addr6 0xfd000000000000000000000000000001 '''') 64]"



definition sampleRoute :: TunNLRoute where
  "sampleRoute = \<lparr>nlr_Family = AF_INET, nlr_Table = RT_TABLE_MAIN,
     nlr_Dst = Some \<lparr>ipnet_IP = IP4 0x0a000000, ipnet_Mask = CIDRMask 8 32\<rparr>, nlr_Gw = IPNil, nlr_Src = IPNil,
     nlr_LinkIndex = 7, nlr_Priority = 0, nlr_Scope = SCOPE_LINK, nlr_Flags = 16, nlr_Type = RTN_UNICAST,
     nlr_MultiPath = [], nlr_NewDst = False, nlr_Encap = False, nlr_Via = False, nlr_MPLSDst = False, nlr_Protocol = 2\<rparr>"

definition sampleRouteTexts :: "string list" where
  "sampleRouteTexts = [''192.168.1.7/24'', ''fd00::/8'', ''0.0.0.0/0'']"


section \<open>IPv4-mapped prefixes\<close>

text \<open>
  A prefix of an IPv4-mapped IPv6 address is accepted as text, but it can never be verified as an
  address, and a route to it is reported as an invalid prefix.
\<close>

lemma mapped_addr_never_verified:
  assumes "tun_addr_netlink adapter addrs" and "addrIs4In6 (pfxAddr p)" and "p \<in> set ps"
  shows "fst (setTunAddrPrefixes adapter ps k) \<noteq> None"
proof
  assume "fst (setTunAddrPrefixes adapter ps k) = None"
  then obtain k' where "setTunAddrPrefixes adapter ps k = (None, k')" by (cases "setTunAddrPrefixes adapter ps k") simp
  from tun_addr_netlink.set_exact [OF assms(1) this] assms(3) obtain a where a: "a \<in> set (addrs k')" "tunAddrPrefix a = Some p" by blast
  have "wf_NLAddr a" using tun_addr_netlink.listed_wf [OF assms(1) a(1)] .
  then show False using tunAddrPrefix_Some [OF a(2)] assms(2) by (simp add: readable_def)
qed

lemma mapped_route_unreadable:
  "map_sum id tunRouteText (netlinkRouteFromPrefix 7 (projr (parseTunRoutePrefix ''::ffff:10.0.0.0/104''))) =
     Inr (Some ''invalid Prefix'')"
  by code_simp

end
