(* ===== verification/Tun_Create.thy ===== *)
theory Tun_Create
  imports Prelude Go_Strings
begin

text \<open>
  The creation of a TUN device under a generated name, \<open>tun/tun.go\<close>. The device driver
  (\<open>tuntap.CreateTUN\<close>) and the source of randomness (\<open>rand.Int\<close> on \<open>rand.Reader\<close>) are parameters on a
  world of their own; \<open>random_source\<close> says that a random number is below its bound.
\<close>

section \<open>Names\<close>

abbreviation maxLinuxInterfaceNameLength :: int where "maxLinuxInterfaceNameLength \<equiv> 15"
abbreviation maxCreateTUNNameAttempts :: nat where "maxCreateTUNNameAttempts \<equiv> 10000"
abbreviation minRandomNameLength :: int where "minRandomNameLength \<equiv> 1"
abbreviation nameSeparator :: string where "nameSeparator \<equiv> ''-''"

definition randomAlphabet :: string where
  "randomAlphabet = ''abcdefghijklmnopqrstuvwxyzABCDEFGHIJKLMNOPQRSTUVWXYZ0123456789''"

definition randomTUNNameSuffixLength :: "string \<Rightarrow> int" where
  "randomTUNNameSuffixLength base =
     (let len = maxLinuxInterfaceNameLength - int (length base) - int (length nameSeparator) in
      if len < minRandomNameLength then minRandomNameLength else len)"

definition defaultTUNName :: "string \<Rightarrow> string \<Rightarrow> string" where
  "defaultTUNName base suff =
     (let name = base @ nameSeparator @ suff in
      if int (length name) > maxLinuxInterfaceNameLength then take (nat maxLinuxInterfaceNameLength) name else name)"

text \<open>The loop over the bytes of the result, with the bytes so far.\<close>

fun randomLoop :: "(int \<Rightarrow> ('k, int) query) \<Rightarrow> nat \<Rightarrow> string \<Rightarrow> ('k, string) query" where
  "randomLoop rand 0 out k = (Inr out, k)"
| "randomLoop rand (Suc n) out k = (case rand (int (length randomAlphabet)) k of
       (Inl err, k) \<Rightarrow> (Inl err, k)
     | (Inr i, k) \<Rightarrow> randomLoop rand n (out @ [randomAlphabet ! nat i]) k)"

definition cryptoRandomString :: "(int \<Rightarrow> ('k, int) query) \<Rightarrow> int \<Rightarrow> ('k, string) query" where
  "cryptoRandomString rand len k = randomLoop rand (nat len) [] k"

definition isTUNNameOccupied :: "goError \<Rightarrow> bool" where
  "isTUNNameOccupied err = errors_is err EBUSY"

section \<open>Attempts\<close>

text \<open>The attempts that are left, and the name and the error of the last one.\<close>

fun createAttempts :: "(int \<Rightarrow> ('k, string) query) \<Rightarrow> (string \<Rightarrow> int \<Rightarrow> ('k, 'tun) query) \<Rightarrow> string \<Rightarrow> int \<Rightarrow>
    nat \<Rightarrow> string \<Rightarrow> goError option \<Rightarrow> ('k, 'tun) query" where
  "createAttempts randomString createTUN base mtu 0 lastName lastErr k =
     (Inl (Errorf ''create TUN %q after %d attempts: %w'' [AStr lastName, AInt (int maxCreateTUNNameAttempts)]
        (case lastErr of None \<Rightarrow> [] | Some err \<Rightarrow> [err])), k)"
| "createAttempts randomString createTUN base mtu (Suc n) lastName lastErr k =
     (case randomString (randomTUNNameSuffixLength base) k of
       (Inl err, k) \<Rightarrow> (Inl (Errorf ''generate TUN name suffix: %w'' [] [err]), k)
     | (Inr nameSuffix, k) \<Rightarrow>
         (let name = defaultTUNName base nameSuffix in
          case createTUN name mtu k of
            (Inr tun, k) \<Rightarrow> (Inr tun, k)
          | (Inl err, k) \<Rightarrow>
              if \<not> isTUNNameOccupied err then (Inl (Errorf ''create TUN %q: %w'' [AStr name] [err]), k)
              else createAttempts randomString createTUN base mtu n name (Some err) k))"

definition CreateDefaultTUN :: "(int \<Rightarrow> ('k, int) query) \<Rightarrow> (string \<Rightarrow> int \<Rightarrow> ('k, 'tun) query) \<Rightarrow>
    string \<Rightarrow> int \<Rightarrow> ('k, 'tun) query" where
  "CreateDefaultTUN rand createTUN base mtu k =
     createAttempts (cryptoRandomString rand) createTUN base mtu maxCreateTUNNameAttempts '''' None k"

section \<open>The names that are tried\<close>

locale random_source =
  fixes rand :: "int \<Rightarrow> ('k, int) query"
  assumes below: "rand n k = (Inr i, k') \<Longrightarrow> 0 < n \<Longrightarrow> 0 \<le> i \<and> i < n"
begin

lemma randomLoop_ok:
  "randomLoop rand n out k = (Inr s, k') \<Longrightarrow> \<exists>t. s = out @ t \<and> length t = n \<and> set t \<subseteq> set randomAlphabet"
proof (induction n arbitrary: out k)
  case (Suc n)
  obtain i k1 where r: "rand (int (length randomAlphabet)) k = (Inr i, k1)"
    and rest: "randomLoop rand n (out @ [randomAlphabet ! nat i]) k1 = (Inr s, k')"
    using Suc.prems by (auto split: prod.splits sum.splits)
  have "0 < length randomAlphabet" by (simp add: randomAlphabet_def)
  then have "randomAlphabet ! nat i \<in> set randomAlphabet" using below [OF r] by (intro nth_mem) linarith
  moreover obtain t where "s = (out @ [randomAlphabet ! nat i]) @ t" "length t = n" "set t \<subseteq> set randomAlphabet"
    using Suc.IH [OF rest] by blast
  ultimately show ?case by (intro exI [of _ "randomAlphabet ! nat i # t"]) simp
qed simp

lemma cryptoRandomString_ok:
  "cryptoRandomString rand len k = (Inr s, k') \<Longrightarrow> length s = nat len \<and> set s \<subseteq> set randomAlphabet"
  using randomLoop_ok unfolding cryptoRandomString_def by fastforce

end

text \<open>A name made from a base: at most 15 bytes; a short base is followed by a hyphen and random letters and digits up to
  exactly 15 bytes.\<close>

definition generated :: "string \<Rightarrow> string \<Rightarrow> bool" where
  "generated base name \<longleftrightarrow> length name = 15 \<and>
     (if length base \<le> 13 then (\<exists>s. name = base @ ''-'' @ s \<and> set s \<subseteq> set randomAlphabet)
      else name = take 15 (base @ ''-''))"

lemma take_hyphen: "n \<le> 1 \<Longrightarrow> take n (c # s) = take n [c]"
  by (cases n) simp_all

lemma defaultTUNName_generated:
  assumes "length s = nat (randomTUNNameSuffixLength base)" and "set s \<subseteq> set randomAlphabet"
  shows "generated base (defaultTUNName base s)"
proof (cases "length base \<le> 13")
  case True
  then have "length s = 14 - length base" using assms(1) by (simp add: randomTUNNameSuffixLength_def Let_def)
  with True assms(2) show ?thesis by (auto simp: generated_def defaultTUNName_def Let_def)
next
  case False
  then have "length s = 1" using assms(1) by (simp add: randomTUNNameSuffixLength_def Let_def)
  with False show ?thesis
    using take_hyphen [of "15 - length base" "CHR ''-''" s] by (simp add: generated_def defaultTUNName_def Let_def)
qed

text \<open>A number of attempts that all meet an occupied name.\<close>

inductive occupied :: "(int \<Rightarrow> ('k, string) query) \<Rightarrow> (string \<Rightarrow> int \<Rightarrow> ('k, 'tun) query) \<Rightarrow> string \<Rightarrow> int \<Rightarrow> nat \<Rightarrow> 'k \<Rightarrow> 'k \<Rightarrow> bool"
  for rs create base mtu where
  occupied_0: "occupied rs create base mtu 0 k k"
| occupied_Suc: "rs (randomTUNNameSuffixLength base) k = (Inr s, k1) \<Longrightarrow>
    create (defaultTUNName base s) mtu k1 = (Inl err, k2) \<Longrightarrow> errors_is err EBUSY \<Longrightarrow>
    occupied rs create base mtu n k2 k' \<Longrightarrow> occupied rs create base mtu (Suc n) k k'"

text \<open>What one attempt that is not retried ends with.\<close>

definition decided :: "(int \<Rightarrow> ('k, int) query) \<Rightarrow> (string \<Rightarrow> int \<Rightarrow> ('k, 'tun) query) \<Rightarrow> string \<Rightarrow> int \<Rightarrow> 'k \<Rightarrow> goError + 'tun \<Rightarrow> 'k \<Rightarrow> bool" where
  "decided rand create base mtu k r k' \<longleftrightarrow>
     (\<exists>err. cryptoRandomString rand (randomTUNNameSuffixLength base) k = (Inl err, k') \<and>
        r = Inl (Errorf ''generate TUN name suffix: %w'' [] [err])) \<or>
     (\<exists>name k1. generated base name \<and>
        ((\<exists>tun. create name mtu k1 = (Inr tun, k') \<and> r = Inr tun) \<or>
         (\<exists>err. create name mtu k1 = (Inl err, k') \<and> \<not> errors_is err EBUSY \<and>
            r = Inl (Errorf ''create TUN %q: %w'' [AStr name] [err]))))"

lemma createAttempts_result:
  assumes "random_source rand"
  shows "createAttempts (cryptoRandomString rand) create base mtu n lastName lastErr k = (r, k') \<Longrightarrow>
    (\<exists>m k0. m < n \<and> occupied (cryptoRandomString rand) create base mtu m k k0 \<and> decided rand create base mtu k0 r k') \<or>
    occupied (cryptoRandomString rand) create base mtu n k k' \<and>
      (\<exists>name errs. r = Inl (Errorf ''create TUN %q after %d attempts: %w'' [AStr name, AInt 10000] errs))"
proof (induction n arbitrary: lastName lastErr k)
  case 0
  then have "k' = k" "\<exists>name errs. r = Inl (Errorf ''create TUN %q after %d attempts: %w'' [AStr name, AInt 10000] errs)" by auto
  then show ?case using occupied_0 [of "cryptoRandomString rand" create base mtu k] by simp
next
  case (Suc n)
  let ?rs = "cryptoRandomString rand"
  obtain x k1 where x: "?rs (randomTUNNameSuffixLength base) k = (x, k1)" by force
  show ?case
  proof (cases x)
    case (Inl err)
    then have "decided rand create base mtu k r k'" using Suc.prems x by (auto simp: decided_def)
    then show ?thesis using occupied_0 [of ?rs create base mtu k] by (intro disjI1 exI [of _ 0] exI [of _ k] conjI) simp_all
  next
    case (Inr s)
    then have g: "generated base (defaultTUNName base s)"
      using random_source.cryptoRandomString_ok [OF assms] x by (blast intro: defaultTUNName_generated)
    obtain y k2 where c: "create (defaultTUNName base s) mtu k1 = (y, k2)" by force
    show ?thesis
    proof (cases "\<exists>err. y = Inl err \<and> errors_is err EBUSY")
      case True
      then obtain err where err: "y = Inl err" "errors_is err EBUSY" by blast
      have step: "occupied ?rs create base mtu m k2 k3 \<Longrightarrow> occupied ?rs create base mtu (Suc m) k k3" for m k3
        using x Inr c err by (auto intro: occupied_Suc)
      have "createAttempts ?rs create base mtu n (defaultTUNName base s) (Some err) k2 = (r, k')"
        using Suc.prems x Inr c err by (simp add: isTUNNameOccupied_def)
      from Suc.IH [OF this] show ?thesis
      proof (elim disjE exE conjE)
        fix m k0 assume "m < n" "occupied ?rs create base mtu m k2 k0" "decided rand create base mtu k0 r k'"
        then show ?thesis using step by (intro disjI1 exI [of _ "Suc m"] exI [of _ k0]) simp
      qed (use step in simp)
    next
      case False
      then have "decided rand create base mtu k r k'"
        using Suc.prems x Inr c g by (cases y) (auto simp: isTUNNameOccupied_def decided_def)
      then show ?thesis using occupied_0 [of ?rs create base mtu k] by (intro disjI1 exI [of _ 0] exI [of _ k] conjI) simp_all
    qed
  qed
qed

section \<open>Properties\<close>

text \<open>
  C30: CreateDefaultTUN only ever tries names of exactly 15 bytes made from the base, and ends after at most
  10000 attempts: after some attempts that all met an occupied name it returns the device, the error of
  the generator or an error of the driver that is not EBUSY, or it gives up after 10000 occupied names.
\<close>

theorem create_tun_attempts:
  assumes "random_source rand" and "CreateDefaultTUN rand create base mtu k = (r, k')"
  shows "(\<exists>m k0. m < 10000 \<and> occupied (cryptoRandomString rand) create base mtu m k k0 \<and> decided rand create base mtu k0 r k') \<or>
    occupied (cryptoRandomString rand) create base mtu 10000 k k' \<and>
      (\<exists>name errs. r = Inl (Errorf ''create TUN %q after %d attempts: %w'' [AStr name, AInt 10000] errs))"
  using createAttempts_result [OF assms(1) assms(2) [unfolded CreateDefaultTUN_def]] by simp

text \<open>A driver that knows the names in use, and a counter for random numbers.\<close>

record tunWorld =
  tw_next :: int
  tw_used :: "string list"

definition countRand :: "int \<Rightarrow> (tunWorld, int) query" where
  "countRand n k = (Inr (tw_next k mod n), k\<lparr>tw_next := tw_next k + 1\<rparr>)"

definition simCreateTUN :: "string \<Rightarrow> int \<Rightarrow> (tunWorld, string) query" where
  "simCreateTUN name mtu k = (if name \<in> set (tw_used k) then (Inl EBUSY, k)
     else (Inr name, k\<lparr>tw_used := name # tw_used k\<rparr>))"

interpretation countRand: random_source countRand
  by unfold_locales (auto simp: countRand_def)

theorem create_tun_attempts_witness:
  "\<exists>m k0. occupied (cryptoRandomString countRand) simCreateTUN ''wg'' 1420 m
      \<lparr>tw_next = 0, tw_used = [''wg-abcdefghijkl'']\<rparr> k0 \<and>
    decided countRand simCreateTUN ''wg'' 1420 k0 (Inr ''wg-mnopqrstuvwx'')
      \<lparr>tw_next = 24, tw_used = [''wg-mnopqrstuvwx'', ''wg-abcdefghijkl'']\<rparr>"
proof -
  let ?k = "\<lparr>tw_next = 0, tw_used = [''wg-abcdefghijkl'']\<rparr>"
  have two: "createAttempts (cryptoRandomString countRand) simCreateTUN ''wg'' 1420 (Suc (Suc n)) '''' None ?k =
      (Inr ''wg-mnopqrstuvwx'', \<lparr>tw_next = 24, tw_used = [''wg-mnopqrstuvwx'', ''wg-abcdefghijkl'']\<rparr>)" for n
    by code_simp
  have n: "(10000 :: nat) = Suc (Suc 9998)" by simp
  have "CreateDefaultTUN countRand simCreateTUN ''wg'' 1420 ?k =
      (Inr ''wg-mnopqrstuvwx'', \<lparr>tw_next = 24, tw_used = [''wg-mnopqrstuvwx'', ''wg-abcdefghijkl'']\<rparr>)"
    unfolding CreateDefaultTUN_def n by (rule two)
  from create_tun_attempts [OF countRand.random_source_axioms this] show ?thesis by blast
qed

text \<open>A base of 14 bytes or more leaves no room for the random part: every attempt tries the same name.\<close>

lemma long_base_one_name:
  assumes "14 \<le> length base"
  shows "generated base name \<longleftrightarrow> name = take 15 (base @ ''-'')"
  using assms by (auto simp: generated_def)

end
