(* ===== verification/Rules.thy ===== *)
theory Rules
  imports Strconv Go_Strings "HOL-Library.List_Lexorder" "HOL-Library.Char_ord"
begin

text \<open>
  The rules that select processes, \<open>rules.go\<close>: their table, their compilation to predicates on
  processes and on socket owners, the parsers of numbers and of \<open>/proc/<pid>/status\<close>, and the completion
  of rule values. Regular expressions and file name patterns (\<open>regexp.Compile\<close>, \<open>filepath.Match\<close>),
  the account database and the file system are parameters, the record \<open>ruleEnv\<close>; files do not change
  during one call. A directory is read through the calls of \<open>dirOS\<close>.
\<close>

section \<open>Numbers and paths\<close>

text \<open>\<open>strconv.ParseUint\<close> on integers, which evaluates for large numbers too.\<close>

fun parseDigitsInt :: "int \<Rightarrow> int \<Rightarrow> string \<Rightarrow> goError + int" where
  "parseDigitsInt lim n [] = Inr n"
| "parseDigitsInt lim n (c # cs) =
     (if \<not> is_digit c then Inl ErrSyntax
      else let m = 10 * n + int (digit_val c) in
        if lim < m then Inl ErrRange else parseDigitsInt lim m cs)"

definition parseUintInt :: "nat \<Rightarrow> string \<Rightarrow> goError + int" where
  "parseUintInt bits s = (if s = [] then Inl ErrSyntax else parseDigitsInt (2 ^ bits - 1) 0 s)"

text \<open>\<open>filepath.Clean\<close>: the elements kept so far, last first, of a path that is rooted or not.\<close>

fun cleanElems :: "bool \<Rightarrow> string list \<Rightarrow> string list \<Rightarrow> string list" where
  "cleanElems rooted kept [] = rev kept"
| "cleanElems rooted kept (e # es) =
     (if e = '''' \<or> e = ''.'' then cleanElems rooted kept es
      else if e = ''..'' then
        (if kept \<noteq> [] \<and> hd kept \<noteq> ''..'' then cleanElems rooted (tl kept) es
         else if rooted then cleanElems rooted kept es
         else cleanElems rooted (e # kept) es)
      else cleanElems rooted (e # kept) es)"

abbreviation slash :: char where "slash \<equiv> CHR ''/''"

definition isAbs :: "string \<Rightarrow> bool" where
  "isAbs path = hasPrefix path ''/''"

definition cleanPath :: "string \<Rightarrow> string" where
  "cleanPath path =
     (if path = '''' then ''.''
      else let out = joinByte slash (cleanElems (isAbs path) [] (splitByte slash path)) in
        if isAbs path then slash # out else if out = '''' then ''.'' else out)"

definition afterLastSlash :: "string \<Rightarrow> string" where
  "afterLastSlash path = rev (takeWhile (\<lambda>c. c \<noteq> slash) (rev path))"

definition pathDir :: "string \<Rightarrow> string" where
  "pathDir path = cleanPath (take (length path - length (afterLastSlash path)) path)"

definition pathBase :: "string \<Rightarrow> string" where
  "pathBase path = (if path = '''' then ''.''
     else let path = rev (dropWhile (\<lambda>c. c = slash) (rev path)); path = afterLastSlash path in
       if path = '''' then ''/'' else path)"

definition pathJoin :: "string \<Rightarrow> string \<Rightarrow> string" where
  "pathJoin dir name = (if dir = '''' then (if name = '''' then '''' else cleanPath name) else cleanPath (dir @ ''/'' @ name))"

section \<open>The environment\<close>

record ruleEnv =
  re_ErrNotSupported :: goError
  re_Compile :: "string \<Rightarrow> goError + (string \<Rightarrow> bool)"
  re_Match :: "string \<Rightarrow> string \<Rightarrow> goError + bool"
  re_LookupUser :: "string \<Rightarrow> goError + string"
  re_LookupGroup :: "string \<Rightarrow> goError + string"
  re_ReadFile :: "string \<Rightarrow> goError + string"
  re_Readlink :: "string \<Rightarrow> goError + string"

text \<open>\<open>Readdirnames\<close> gives names and possibly an error.\<close>

record 'k dirOS =
  do_Open :: "string \<Rightarrow> ('k, int) query"
  do_Readdirnames :: "int \<Rightarrow> int \<Rightarrow> 'k \<Rightarrow> string list \<times> goError option \<times> 'k"
  do_Close :: "int \<Rightarrow> 'k act"

definition ioEOF :: goError where
  "ioEOF = ErrorsNew ''EOF''"

text \<open>The fields of the packages sysnet, pmark and sockowner that the sources use.\<close>

record sysRule =
  sr_Type :: string
  sr_Rule :: string

record ProcessInfo =
  pi_Tgid :: u32
  pi_Comm :: string
  pi_Cmdline :: string
  pi_Exe :: string

record SocketOwner =
  so_Comm :: string
  so_ProcName :: string
  so_PIDs :: "int list"
  so_UID :: "u32 option"
  so_GID :: "u32 option"

datatype RuleValueKind = RuleValueRegex | RuleValuePath | RuleValuePID | RuleValueName | RuleValueOpaque

record ruleDefinition =
  rd_Type :: string
  rd_Description :: string
  rd_ValueKind :: RuleValueKind
  rd_SemanticsID :: string
  rd_Completion :: bool

definition supportedRules :: "ruleDefinition list" where
  "supportedRules =
     [\<lparr>rd_Type = ''comm'', rd_Description = ''Process command regular expression.'', rd_ValueKind = RuleValueRegex,
       rd_SemanticsID = ''linux.process-comm-regexp.v1'', rd_Completion = False\<rparr>,
      \<lparr>rd_Type = ''exec'', rd_Description = ''Process executable path or basename pattern.'', rd_ValueKind = RuleValuePath,
       rd_SemanticsID = ''linux.process-executable-pattern.v1'', rd_Completion = True\<rparr>,
      \<lparr>rd_Type = ''cmd'', rd_Description = ''Process command line regular expression.'', rd_ValueKind = RuleValueRegex,
       rd_SemanticsID = ''linux.process-command-line-regexp.v1'', rd_Completion = False\<rparr>,
      \<lparr>rd_Type = ''pid'', rd_Description = ''Space-separated process IDs.'', rd_ValueKind = RuleValuePID,
       rd_SemanticsID = ''linux.process-id-list.v1'', rd_Completion = False\<rparr>,
      \<lparr>rd_Type = ''user'', rd_Description = ''Process user name.'', rd_ValueKind = RuleValueName,
       rd_SemanticsID = ''linux.process-user-name.v1'', rd_Completion = True\<rparr>,
      \<lparr>rd_Type = ''uid'', rd_Description = ''Space-separated process user IDs.'', rd_ValueKind = RuleValueOpaque,
       rd_SemanticsID = ''linux.process-user-id-list.v1'', rd_Completion = True\<rparr>,
      \<lparr>rd_Type = ''group'', rd_Description = ''Process group name.'', rd_ValueKind = RuleValueName,
       rd_SemanticsID = ''linux.process-group-name.v1'', rd_Completion = True\<rparr>,
      \<lparr>rd_Type = ''gid'', rd_Description = ''Space-separated process group IDs.'', rd_ValueKind = RuleValueOpaque,
       rd_SemanticsID = ''linux.process-group-id-list.v1'', rd_Completion = True\<rparr>]"

section \<open>Parsing\<close>

text \<open>The map of a list of numbers is the set of its keys.\<close>

fun parseFields :: "u32 set \<Rightarrow> string list \<Rightarrow> goError + u32 set" where
  "parseFields out [] = Inr out"
| "parseFields out (field # fs) = (case parseUintInt 32 field of Inl err \<Rightarrow> Inl err
     | Inr n \<Rightarrow> parseFields (insert (word_of_int n) out) fs)"

definition parseUint32List :: "string \<Rightarrow> goError + u32 set" where
  "parseUint32List value = (let fs = strFields value in
     if length fs = 0 then Inl (ErrorsNew ''empty numeric rule'') else parseFields {} fs)"

definition pidToUint32 :: "int \<Rightarrow> u32 option" where
  "pidToUint32 pid = (case parseUintInt 32 (itoa pid) of Inl err \<Rightarrow> None | Inr n \<Rightarrow> Some (word_of_int n))"

text \<open>The loop over the lines of a status file, with the last user and group found.\<close>

fun statusLines :: "u32 option \<Rightarrow> u32 option \<Rightarrow> string list \<Rightarrow> u32 option \<times> u32 option" where
  "statusLines uid gid [] = (uid, gid)"
| "statusLines uid gid (line # rest) =
     (let fs = strFields line in
      if length fs < 2 then statusLines uid gid rest
      else if fs ! 0 = ''Uid:'' then
        (case parseUintInt 32 (fs ! 1) of Inr n \<Rightarrow> statusLines (Some (word_of_int n)) gid rest
         | Inl err \<Rightarrow> statusLines uid gid rest)
      else if fs ! 0 = ''Gid:'' then
        (case parseUintInt 32 (fs ! 1) of Inr n \<Rightarrow> statusLines uid (Some (word_of_int n)) rest
         | Inl err \<Rightarrow> statusLines uid gid rest)
      else statusLines uid gid rest)"

definition parseProcessStatusIDs :: "string \<Rightarrow> (u32 \<times> u32) option" where
  "parseProcessStatusIDs data = (case statusLines None None (splitByte (CHR 0x0A) data) of
     (Some uid, Some gid) \<Rightarrow> Some (uid, gid) | _ \<Rightarrow> None)"

definition processStatusIDs :: "ruleEnv \<Rightarrow> u32 \<Rightarrow> (u32 \<times> u32) option" where
  "processStatusIDs E pid = (case re_ReadFile E (''/proc/'' @ itoa (uint pid) @ ''/status'') of
     Inl err \<Rightarrow> None | Inr data \<Rightarrow> parseProcessStatusIDs data)"

section \<open>Compilation\<close>

type_synonym matcherProcessFields = byte

abbreviation matcherProcessComm :: matcherProcessFields where "matcherProcessComm \<equiv> 1"
abbreviation matcherProcessCmdline :: matcherProcessFields where "matcherProcessCmdline \<equiv> 2"
abbreviation matcherProcessExecutable :: matcherProcessFields where "matcherProcessExecutable \<equiv> 4"

record compiledRule =
  cr_process :: "ProcessInfo \<Rightarrow> bool"
  cr_owner :: "SocketOwner \<Rightarrow> bool"
  cr_matcherFields :: matcherProcessFields

definition relativeExec :: "string \<Rightarrow> goError" where
  "relativeExec pattern = Errorf ''relative exec path %q'' [AStr pattern] []"

definition compileExec :: "ruleEnv \<Rightarrow> string \<Rightarrow> goError + (string \<Rightarrow> bool)" where
  "compileExec E pattern =
     (if pattern = '''' then Inl (ErrorsNew ''empty exec rule'')
      else if hasPrefix pattern ''.'' \<and> (pattern = ''.'' \<or> hasPrefix pattern ''./'' \<or> hasPrefix pattern ''../'')
        then Inl (relativeExec pattern)
      else if slash \<in> set pattern \<and> \<not> isAbs pattern then Inl (relativeExec pattern)
      else if list_ex (\<lambda>c. c \<in> {CHR ''*'', CHR ''?'', CHR ''[''}) pattern then
        (case re_Match E pattern pattern of Inl err \<Rightarrow> Inl err
         | Inr _ \<Rightarrow> Inr (\<lambda>exe. case re_Match E pattern exe of Inr ok \<Rightarrow> ok | Inl _ \<Rightarrow> False))
      else if slash \<notin> set pattern then Inr (\<lambda>exe. hasSuffix exe pattern)
      else Inr (\<lambda>exe. exe = pattern))"

function compileRule :: "ruleEnv \<Rightarrow> sysRule \<Rightarrow> goError + compiledRule" where
  "compileRule E rule =
     (let v = sr_Rule rule in
      if sr_Type rule = ''comm'' then
        (case re_Compile E v of Inl err \<Rightarrow> Inl err
         | Inr re \<Rightarrow> Inr \<lparr>cr_process = (\<lambda>info. re (pi_Comm info)), cr_owner = (\<lambda>owner. re (so_Comm owner)),
             cr_matcherFields = matcherProcessComm\<rparr>)
      else if sr_Type rule = ''cmd'' then
        (case re_Compile E v of Inl err \<Rightarrow> Inl err
         | Inr re \<Rightarrow> Inr \<lparr>cr_process = (\<lambda>info. re (pi_Cmdline info)), cr_owner = (\<lambda>owner. False),
             cr_matcherFields = matcherProcessCmdline\<rparr>)
      else if sr_Type rule = ''exec'' then
        (case compileExec E v of Inl err \<Rightarrow> Inl err
         | Inr match \<Rightarrow> Inr \<lparr>cr_process = (\<lambda>info. match (pi_Exe info)),
             cr_owner = (\<lambda>owner. so_ProcName owner \<noteq> '''' \<and> match (so_ProcName owner)),
             cr_matcherFields = matcherProcessExecutable\<rparr>)
      else if sr_Type rule = ''pid'' then
        (case parseUint32List v of Inl err \<Rightarrow> Inl err
         | Inr vs \<Rightarrow> Inr \<lparr>cr_process = (\<lambda>info. pi_Tgid info \<in> vs),
             cr_owner = (\<lambda>owner. list_ex (\<lambda>pid. case pidToUint32 pid of Some pid32 \<Rightarrow> pid32 \<in> vs | None \<Rightarrow> False) (so_PIDs owner)),
             cr_matcherFields = 0\<rparr>)
      else if sr_Type rule = ''user'' then
        (case re_LookupUser E v of Inl err \<Rightarrow> Inl err
         | Inr uid \<Rightarrow> compileRule E \<lparr>sr_Type = ''uid'', sr_Rule = uid\<rparr>)
      else if sr_Type rule = ''uid'' then
        (case parseUint32List v of Inl err \<Rightarrow> Inl err
         | Inr vs \<Rightarrow> Inr \<lparr>cr_process = (\<lambda>info. case processStatusIDs E (pi_Tgid info) of Some (uid, gid) \<Rightarrow> uid \<in> vs | None \<Rightarrow> False),
             cr_owner = (\<lambda>owner. case so_UID owner of Some uid \<Rightarrow> uid \<in> vs | None \<Rightarrow> False), cr_matcherFields = 0\<rparr>)
      else if sr_Type rule = ''group'' then
        (case re_LookupGroup E v of Inl err \<Rightarrow> Inl err
         | Inr gid \<Rightarrow> compileRule E \<lparr>sr_Type = ''gid'', sr_Rule = gid\<rparr>)
      else if sr_Type rule = ''gid'' then
        (case parseUint32List v of Inl err \<Rightarrow> Inl err
         | Inr vs \<Rightarrow> Inr \<lparr>cr_process = (\<lambda>info. case processStatusIDs E (pi_Tgid info) of Some (uid, gid) \<Rightarrow> gid \<in> vs | None \<Rightarrow> False),
             cr_owner = (\<lambda>owner. case so_GID owner of Some gid \<Rightarrow> gid \<in> vs | None \<Rightarrow> False), cr_matcherFields = 0\<rparr>)
      else Inl (Errorf ''%w: rule type %q'' [AStr (sr_Type rule)] [re_ErrNotSupported E]))"
  by pat_completeness auto
termination
  by (relation "measure (\<lambda>(E, rule). if sr_Type rule = ''user'' \<or> sr_Type rule = ''group'' then 1 else 0)") simp_all

declare compileRule.simps [simp del]

section \<open>Completion\<close>

text \<open>The loop over the lines of an account file, with the values so far.\<close>

fun colonLines :: "string \<Rightarrow> bool \<Rightarrow> nat \<Rightarrow> nat \<Rightarrow> string set \<Rightarrow> string list \<Rightarrow> string list \<Rightarrow> string list" where
  "colonLines pre ids nameField idField seen vs [] = vs"
| "colonLines pre ids nameField idField seen vs (line # rest) =
     (if line = '''' \<or> hasPrefix line ''#'' then colonLines pre ids nameField idField seen vs rest
      else let fs = splitByte (CHR '':'') line in
      if length fs \<le> nameField \<or> length fs \<le> idField then colonLines pre ids nameField idField seen vs rest
      else let value = (if ids then fs ! idField else fs ! nameField) in
      if value = '''' \<or> value \<in> seen \<or> \<not> hasPrefix value pre then colonLines pre ids nameField idField seen vs rest
      else colonLines pre ids nameField idField (insert value seen) (vs @ [value]) rest)"

definition completeColonFileData :: "string \<Rightarrow> string \<Rightarrow> bool \<Rightarrow> nat \<Rightarrow> nat \<Rightarrow> string list" where
  "completeColonFileData data pre ids nameField idField =
     (let vs = colonLines pre ids nameField idField {} [] (splitByte (CHR 0x0A) data) in
      if length vs = 0 then [] else sort vs)"

definition completeColonFileRule :: "ruleEnv \<Rightarrow> string \<Rightarrow> bool \<Rightarrow> string \<Rightarrow> nat \<Rightarrow> nat \<Rightarrow> goError + string list" where
  "completeColonFileRule E pre ids path nameField idField = (case re_ReadFile E path of Inl err \<Rightarrow> Inl err
     | Inr data \<Rightarrow> Inr (completeColonFileData data pre ids nameField idField))"

definition completePasswdRule :: "ruleEnv \<Rightarrow> string \<Rightarrow> bool \<Rightarrow> string \<Rightarrow> goError + string list" where
  "completePasswdRule E pre ids path = completeColonFileRule E pre ids path 0 2"

definition completeGroupRule :: "ruleEnv \<Rightarrow> string \<Rightarrow> bool \<Rightarrow> string \<Rightarrow> goError + string list" where
  "completeGroupRule E pre ids path = completeColonFileRule E pre ids path 0 2"

abbreviation maxExecCompletions :: int where "maxExecCompletions \<equiv> 10"
abbreviation maxExecCompletionScan :: int where "maxExecCompletionScan \<equiv> 512"
abbreviation execCompletionReadSize :: int where "execCompletionReadSize \<equiv> 32"

definition execCompletionDirBase :: "string \<Rightarrow> string \<times> string" where
  "execCompletionDirBase pre = (if hasSuffix pre ''/'' then (cleanPath pre, '''') else (pathDir pre, pathBase pre))"

text \<open>The names of one batch: the loop stops at the bound.\<close>

fun execNames :: "string \<Rightarrow> string \<Rightarrow> string list \<Rightarrow> string list \<Rightarrow> string list" where
  "execNames dir base vs [] = vs"
| "execNames dir base vs (name # names) =
     (if name = ''.'' \<or> name = ''..'' \<or> \<not> hasPrefix name base then execNames dir base vs names
      else let vs = vs @ [pathJoin dir name] in
        if int (length vs) = maxExecCompletions then vs else execNames dir base vs names)"

text \<open>The loop over batches; every round that goes on has read a name.\<close>

function execScan :: "'k dirOS \<Rightarrow> int \<Rightarrow> string \<Rightarrow> string \<Rightarrow> int \<Rightarrow> string list \<Rightarrow> ('k, string list) query" where
  "execScan D f dir base scanned vs k =
     (if \<not> (scanned < maxExecCompletionScan \<and> int (length vs) < maxExecCompletions) then (Inr vs, k)
      else let want = min execCompletionReadSize (maxExecCompletionScan - scanned) in
        case do_Readdirnames D f want k of (names, err, k) \<Rightarrow>
          let vs = execNames dir base vs names in
          if err = Some ioEOF then (Inr vs, k)
          else case err of Some e \<Rightarrow> (Inl e, k)
            | None \<Rightarrow> if length names = 0 then (Inr vs, k)
                else execScan D f dir base (scanned + int (length names)) vs k)"
  by pat_completeness auto
termination
  by (relation "measure (\<lambda>(D, f, dir, base, scanned, vs, k). nat (maxExecCompletionScan - scanned))") auto

declare execScan.simps [simp del]

text \<open>The error of closing the directory counts when there is no other.\<close>

definition completeExecRule :: "'k dirOS \<Rightarrow> string \<Rightarrow> ('k, string list) query" where
  "completeExecRule D pre k =
     (if \<not> isAbs pre then (Inr [], k)
      else case execCompletionDirBase pre of (dir, base) \<Rightarrow>
        (case do_Open D dir k of (Inl err, k) \<Rightarrow> (Inl err, k)
         | (Inr f, k) \<Rightarrow> (case execScan D f dir base 0 [] k of (r, k) \<Rightarrow>
             let r = (case r of Inl err \<Rightarrow> Inl err | Inr vs \<Rightarrow> Inr (if length vs = 0 then [] else sort vs)) in
             case do_Close D f k of (closeErr, k) \<Rightarrow>
               (case (r, closeErr) of (Inr vs, Some e) \<Rightarrow> Inl e | _ \<Rightarrow> r, k))))"

definition completeRuleValue :: "ruleEnv \<Rightarrow> 'k dirOS \<Rightarrow> sysRule \<Rightarrow> ('k, string list) query" where
  "completeRuleValue E D rule k =
     (let t = sr_Type rule; v = sr_Rule rule in
      if t = ''user'' then (completePasswdRule E v False ''/etc/passwd'', k)
      else if t = ''uid'' then (completePasswdRule E v True ''/etc/passwd'', k)
      else if t = ''group'' then (completeGroupRule E v False ''/etc/group'', k)
      else if t = ''gid'' then (completeGroupRule E v True ''/etc/group'', k)
      else if t = ''exec'' then completeExecRule D v k
      else (Inl (re_ErrNotSupported E), k))"

section \<open>Numbers\<close>

lemma parseDigitsInt_nat:
  "0 \<le> n \<Longrightarrow> 0 \<le> lim \<Longrightarrow> parseDigitsInt lim n s = map_sum id int (parse_digits (nat lim) (nat n) s)"
proof (induction s arbitrary: n)
  case (Cons c s)
  have m: "nat (10 * n + int (digit_val c)) = 10 * nat n + digit_val c" using Cons.prems by (simp add: nat_add_distrib nat_mult_distrib)
  then have "lim < 10 * n + int (digit_val c) \<longleftrightarrow> nat lim < 10 * nat n + digit_val c" using Cons.prems by linarith
  then show ?case using Cons.IH [of "10 * n + int (digit_val c)"] Cons.prems m by (simp add: Let_def)
qed simp

lemma parseUintInt_nat: "parseUintInt bits s = map_sum id int (parseUint bits s)"
proof -
  have "nat (2 ^ bits - 1) = 2 ^ bits - (1 :: nat)" by (simp add: nat_diff_distrib nat_power_eq)
  then show ?thesis by (simp add: parseUintInt_def parseUint_def parseDigitsInt_nat)
qed

lemma parse_digits_mono: "parse_digits lim n s = Inr m \<Longrightarrow> lim \<le> lim' \<Longrightarrow> parse_digits lim' n s = Inr m"
  by (induction s arbitrary: n) (auto simp: Let_def split: if_splits)

lemma parseUint_format_nat: "parseUint bits (format_nat 10 n) = Inr m \<longleftrightarrow> m = n \<and> n < 2 ^ bits"
proof
  assume p: "parseUint bits (format_nat 10 n) = Inr m"
  then have "parse_digits (max (2 ^ bits - 1) n) 0 (format_nat 10 n) = Inr m"
    by (auto simp: parseUint_def split: if_splits intro: parse_digits_mono)
  then have "m = n" by (simp add: parse_format_nat)
  then show "m = n \<and> n < 2 ^ bits" using parseUint_bound [OF p] by simp
qed (simp add: parseUint_format)

text \<open>A process number is used when it fits 32 bits without a sign.\<close>

lemma pidToUint32_iff: "pidToUint32 pid = Some p \<longleftrightarrow> 0 \<le> pid \<and> pid < 2 ^ 32 \<and> p = word_of_int pid"
proof (cases "0 \<le> pid")
  case True
  then have i: "parseUintInt 32 (itoa pid) = map_sum id int (parseUint 32 (format_nat 10 (nat pid)))"
    by (simp add: itoa_def parseUintInt_nat)
  show ?thesis
  proof (cases "pid < 2 ^ 32")
    case True
    then have "parseUint 32 (format_nat 10 (nat pid)) = Inr (nat pid)" using \<open>0 \<le> pid\<close> by (simp add: parseUint_format_nat)
    then show ?thesis using True \<open>0 \<le> pid\<close> i by (auto simp: pidToUint32_def)
  next
    case False
    then have "\<not> nat pid < 2 ^ 32" using \<open>0 \<le> pid\<close> by simp
    then have "parseUint 32 (format_nat 10 (nat pid)) \<noteq> Inr m" for m using parseUint_format_nat [of 32 "nat pid" m] by blast
    then obtain e where "parseUint 32 (format_nat 10 (nat pid)) = Inl e" by (cases "parseUint 32 (format_nat 10 (nat pid))") auto
    then show ?thesis using False i by (simp add: pidToUint32_def)
  qed
next
  case False
  have "\<not> is_digit (CHR ''-'')" by (simp add: is_digit_iff)
  then have "pidToUint32 pid = None" using False by (simp add: pidToUint32_def itoa_def parseUintInt_def)
  then show ?thesis using False by simp
qed

section \<open>Completion of executables\<close>

text \<open>A suggestion: a name of the directory with the base as its prefix.\<close>

definition suggestion :: "string \<Rightarrow> string \<Rightarrow> string \<Rightarrow> bool" where
  "suggestion dir base v \<longleftrightarrow> (\<exists>name. v = pathJoin dir name \<and> hasPrefix name base \<and> name \<noteq> ''.'' \<and> name \<noteq> ''..'')"

lemma execNames_ok:
  "length vs \<le> 9 \<Longrightarrow> \<forall>v \<in> set vs. suggestion dir base v \<Longrightarrow>
     length (execNames dir base vs names) \<le> 10 \<and> (\<forall>v \<in> set (execNames dir base vs names). suggestion dir base v)"
proof (induction names arbitrary: vs)
  case (Cons name names)
  show ?case
  proof (cases "name = ''.'' \<or> name = ''..'' \<or> \<not> hasPrefix name base")
    case True
    then show ?thesis using Cons.IH [OF Cons.prems] by simp
  next
    case False
    then have s: "\<forall>v \<in> set (vs @ [pathJoin dir name]). suggestion dir base v" using Cons.prems(2) by (auto simp: suggestion_def)
    show ?thesis
    proof (cases "length vs = 9")
      case True
      then show ?thesis using s False by simp
    next
      case False
      then have "length (vs @ [pathJoin dir name]) \<le> 9" using Cons.prems(1) by simp
      from Cons.IH [OF this s] \<open>\<not> (name = ''.'' \<or> name = ''..'' \<or> \<not> hasPrefix name base)\<close> False show ?thesis by (simp add: Let_def)
    qed
  qed
qed simp

text \<open>\<open>namesRead\<close> counts the names read from directories; \<open>Readdirnames\<close> gives at most as many names as asked for.\<close>

locale directory =
  fixes D :: "'k dirOS" and namesRead :: "'k \<Rightarrow> int"
  assumes open_reads: "do_Open D dir k = (r, k') \<Longrightarrow> namesRead k' = namesRead k"
    and close_reads: "do_Close D f k = (e, k') \<Longrightarrow> namesRead k' = namesRead k"
    and read_some: "do_Readdirnames D f n k = (names, err, k') \<Longrightarrow> 0 < n \<Longrightarrow>
      int (length names) \<le> n \<and> namesRead k' = namesRead k + int (length names)"
begin

lemma execScan_ok:
  assumes "execScan D f dir base scanned vs k = (r, k')" and "length vs \<le> 10" and "\<forall>v \<in> set vs. suggestion dir base v"
    and "scanned \<le> 512"
  shows "namesRead k' \<le> namesRead k + (512 - scanned) \<and>
    (case r of Inr ws \<Rightarrow> length ws \<le> 10 \<and> (\<forall>v \<in> set ws. suggestion dir base v) | Inl e \<Rightarrow> True)"
  using assms
proof (induction "nat (512 - scanned)" arbitrary: scanned vs k rule: less_induct)
  case less
  show ?case
  proof (cases "scanned < 512 \<and> length vs < 10")
    case False
    then have "execScan D f dir base scanned vs k = (Inr vs, k)" using less.prems(2) by (subst execScan.simps) auto
    then show ?thesis using less.prems by auto
  next
    case True
    let ?want = "min 32 (512 - scanned)"
    obtain names err k1 where rd: "do_Readdirnames D f ?want k = (names, err, k1)" by (metis prod_cases3)
    have n: "int (length names) \<le> ?want" "namesRead k1 = namesRead k + int (length names)" using read_some [OF rd] True by auto
    let ?ws = "execNames dir base vs names"
    have ws: "length ?ws \<le> 10" "\<forall>v \<in> set ?ws. suggestion dir base v"
      using execNames_ok [of vs dir base names] True less.prems(3) by auto
    have step: "execScan D f dir base scanned vs k = (if err = Some ioEOF then (Inr ?ws, k1)
      else case err of Some e \<Rightarrow> (Inl e, k1)
        | None \<Rightarrow> if length names = 0 then (Inr ?ws, k1) else execScan D f dir base (scanned + int (length names)) ?ws k1)"
      using True rd by (subst execScan.simps) (auto simp: Let_def)
    show ?thesis
    proof (cases "err = None \<and> names \<noteq> []")
      case False
      then have "k' = k1" "r = Inr ?ws \<or> (\<exists>e. r = Inl e)" using step less.prems(1) by (auto split: if_splits option.splits)
      then show ?thesis using n ws by auto
    next
      case go: True
      then have e: "execScan D f dir base (scanned + int (length names)) ?ws k1 = (r, k')" using step less.prems(1) by simp
      have "nat (512 - (scanned + int (length names))) < nat (512 - scanned)" "scanned + int (length names) \<le> 512"
        using go True n(1) by auto
      from less.hyps [OF this(1) e ws this(2)] n(2) show ?thesis by auto
    qed
  qed
qed

theorem completeExecRule_ok:
  assumes "completeExecRule D pre k = (Inr vs, k')"
  shows "length vs \<le> 10 \<and> sorted vs \<and> namesRead k' \<le> namesRead k + 512 \<and>
    (\<forall>v \<in> set vs. suggestion (fst (execCompletionDirBase pre)) (snd (execCompletionDirBase pre)) v)"
proof (cases "isAbs pre")
  case True
  obtain dir base where db: "execCompletionDirBase pre = (dir, base)" by force
  obtain f k1 where op: "do_Open D dir k = (Inr f, k1)"
    using assms True db by (auto simp: completeExecRule_def split: prod.splits sum.splits)
  obtain ws k2 where sc: "execScan D f dir base 0 [] k1 = (Inr ws, k2)"
    using assms True db op by (auto simp: completeExecRule_def Let_def split: prod.splits sum.splits option.splits)
  then have r: "do_Close D f k2 = (None, k')" "vs = (if length ws = 0 then [] else sort ws)"
    using assms True db op by (auto simp: completeExecRule_def Let_def split: prod.splits option.splits)
  from execScan_ok [OF sc] open_reads [OF op] close_reads [OF r(1)] r(2) db show ?thesis by simp
qed (use assms in \<open>auto simp: completeExecRule_def\<close>)

end

section \<open>Completion of accounts\<close>

text \<open>The value of a line, when the line has the fields.\<close>

definition lineValue :: "bool \<Rightarrow> nat \<Rightarrow> nat \<Rightarrow> string \<Rightarrow> string option" where
  "lineValue ids nameField idField line =
     (let fs = splitByte (CHR '':'') line in
      if line = '''' \<or> hasPrefix line ''#'' \<or> length fs \<le> nameField \<or> length fs \<le> idField then None
      else let v = (if ids then fs ! idField else fs ! nameField) in if v = '''' then None else Some v)"

lemma colonLines_values:
  "set vs = seen \<Longrightarrow> distinct vs \<Longrightarrow>
     distinct (colonLines pre ids nf idf seen vs lines) \<and>
     set (colonLines pre ids nf idf seen vs lines) =
       seen \<union> {v. \<exists>line \<in> set lines. lineValue ids nf idf line = Some v \<and> hasPrefix v pre}"
proof (induction lines arbitrary: seen vs)
  case (Cons line lines)
  show ?case
  proof (cases "\<exists>v. lineValue ids nf idf line = Some v \<and> hasPrefix v pre \<and> v \<notin> seen")
    case True
    then obtain v where v: "lineValue ids nf idf line = Some v" "hasPrefix v pre" "v \<notin> seen" by blast
    then have "colonLines pre ids nf idf seen vs (line # lines) = colonLines pre ids nf idf (insert v seen) (vs @ [v]) lines"
      by (auto simp: lineValue_def Let_def split: if_splits)
    then show ?thesis using Cons.IH [of "vs @ [v]" "insert v seen"] Cons.prems v by auto
  next
    case False
    then have "colonLines pre ids nf idf seen vs (line # lines) = colonLines pre ids nf idf seen vs lines"
      by (auto simp: lineValue_def Let_def split: if_splits)
    then show ?thesis using Cons.IH [OF Cons.prems] False by auto
  qed
qed simp

lemma account_completion:
  "sorted (completeColonFileData data pre ids nf idf) \<and> distinct (completeColonFileData data pre ids nf idf) \<and>
   set (completeColonFileData data pre ids nf idf) =
     {v. \<exists>line \<in> set (splitByte (CHR 0x0A) data). lineValue ids nf idf line = Some v \<and> hasPrefix v pre}"
  using colonLines_values [of "[]" "{}" pre ids nf idf "splitByte (CHR 0x0A) data"]
  by (auto simp: completeColonFileData_def Let_def simp del: splitByte.simps)

section \<open>The table of rules\<close>


text \<open>A directory whose names come one by one.\<close>

record dirSim =
  ds_left :: "string list"
  ds_count :: int

definition simDir :: "dirSim dirOS" where
  "simDir = \<lparr>do_Open = (\<lambda>dir k. (Inr 5, k)),
     do_Readdirnames = (\<lambda>f n k. let ns = take (nat (min n 3)) (ds_left k) in
       (ns, if ns = [] then Some ioEOF else None, k\<lparr>ds_left := drop (length ns) (ds_left k), ds_count := ds_count k + int (length ns)\<rparr>)),
     do_Close = (\<lambda>f k. (None, k))\<rparr>"

interpretation simDir: directory simDir ds_count
  by unfold_locales (auto simp: simDir_def Let_def)


text \<open>
  The table, the compiler and the completion agree on the rule types: a type outside the table is
  refused as not supported, a type of the table is not, and exactly the types marked for completion are completed.
\<close>

lemma compileRule_unknown:
  assumes "sr_Type rule \<notin> rd_Type ` set supportedRules"
  shows "compileRule E rule = Inl (Errorf ''%w: rule type %q'' [AStr (sr_Type rule)] [re_ErrNotSupported E])"
  using assms by (subst compileRule.simps) (simp add: supportedRules_def Let_def)

lemma completeRuleValue_unmarked:
  assumes "sr_Type rule \<notin> rd_Type ` set (filter rd_Completion supportedRules)"
  shows "completeRuleValue E D rule k = (Inl (re_ErrNotSupported E), k)"
  using assms by (simp add: completeRuleValue_def supportedRules_def Let_def)

end
