(* ===== verification/Matcher.thy ===== *)
theory Matcher
  imports Rules
begin

text \<open>
  The matcher of flows by the owner of their socket, \<open>matcher.go\<close>. The rule tracker of package
  multirule is a parameter, a record of its calls on a world of its own, with the contract
  \<open>rule_tracker\<close>; so is the lookup of a flow's owner. The verdict of \<open>CheckRule\<close> is an argument of
  \<open>BuildMatcher\<close>. Waiting for the mutex is left out.
\<close>

section \<open>Processes\<close>

record 'k ruleTracker =
  rt_RegisterRule :: "(ProcessInfo \<Rightarrow> bool) \<Rightarrow> 'k \<Rightarrow> u64 \<times> 'k"
  rt_UnregisterRule :: "u64 \<Rightarrow> 'k \<Rightarrow> 'k"
  rt_MatchesPID :: "u32 \<Rightarrow> u64 \<Rightarrow> 'k \<Rightarrow> bool"

definition parseProcessCmdline :: "string \<Rightarrow> string" where
  "parseProcessCmdline cmdline =
     (let parts = splitByte (CHR 0x00) (trimByte (CHR 0x00) cmdline);
          args = filter (\<lambda>part. length part \<noteq> 0) parts
      in joinByte (CHR '' '') args)"

definition readError :: "u32 \<Rightarrow> string \<Rightarrow> goError \<Rightarrow> goError" where
  "readError pid what err = Errorf (''read process %d '' @ what @ '': %w'') [AInt (uint pid)] [err]"

definition readComm :: "ruleEnv \<Rightarrow> u32 \<Rightarrow> ProcessInfo \<Rightarrow> goError + ProcessInfo" where
  "readComm E pid info = (case re_ReadFile E (pathJoin (pathJoin ''/proc'' (itoa (uint pid))) ''comm'') of
       Inl err \<Rightarrow> Inl (readError pid ''comm'' err)
     | Inr comm \<Rightarrow> Inr (info\<lparr>pi_Comm := trimSuffix comm [CHR 0x0A]\<rparr>))"

definition readCmdline :: "ruleEnv \<Rightarrow> u32 \<Rightarrow> ProcessInfo \<Rightarrow> goError + ProcessInfo" where
  "readCmdline E pid info = (case re_ReadFile E (pathJoin (pathJoin ''/proc'' (itoa (uint pid))) ''cmdline'') of
       Inl err \<Rightarrow> Inl (readError pid ''command line'' err)
     | Inr cmdline \<Rightarrow> Inr (info\<lparr>pi_Cmdline := parseProcessCmdline cmdline\<rparr>))"

definition readExecutable :: "ruleEnv \<Rightarrow> u32 \<Rightarrow> ProcessInfo \<Rightarrow> goError + ProcessInfo" where
  "readExecutable E pid info = (case re_Readlink E (pathJoin (pathJoin ''/proc'' (itoa (uint pid))) ''exe'') of
       Inl err \<Rightarrow> Inl (readError pid ''executable'' err)
     | Inr executable \<Rightarrow> Inr (info\<lparr>pi_Exe := executable\<rparr>))"

definition whenE :: "bool \<Rightarrow> ('a \<Rightarrow> goError + 'a) \<Rightarrow> goError + 'a \<Rightarrow> goError + 'a" where
  "whenE b f r = (case r of Inl err \<Rightarrow> Inl err | Inr x \<Rightarrow> if b then f x else Inr x)"

definition readMatcherProcessInfo :: "ruleEnv \<Rightarrow> u32 \<Rightarrow> matcherProcessFields \<Rightarrow> goError + ProcessInfo" where
  "readMatcherProcessInfo E pid fs =
     (let info = \<lparr>pi_Tgid = pid, pi_Comm = '''', pi_Cmdline = '''', pi_Exe = ''''\<rparr> in
      whenE (fs AND matcherProcessExecutable \<noteq> 0) (readExecutable E pid)
       (whenE (fs AND matcherProcessCmdline \<noteq> 0) (readCmdline E pid)
         (whenE (fs AND matcherProcessComm \<noteq> 0) (readComm E pid) (Inr info))))"

section \<open>The matcher\<close>

record socketMatcher =
  sm_closed :: bool
  sm_ruleIDs :: "u64 list"
  sm_direct :: "(SocketOwner \<Rightarrow> bool) option"
  sm_process :: "(ProcessInfo \<Rightarrow> bool) option"
  sm_processFields :: matcherProcessFields

definition netErrClosed :: goError where
  "netErrClosed = ErrorsNew ''use of closed network connection''"

definition BuildMatcher :: "ruleEnv \<Rightarrow> 'k ruleTracker \<Rightarrow> goError option \<Rightarrow> sysRule \<Rightarrow> ('k, socketMatcher) query" where
  "BuildMatcher E T checkErr rule k = (case checkErr of Some err \<Rightarrow> (Inl err, k)
     | None \<Rightarrow> (case compileRule E rule of Inl err \<Rightarrow> (Inl err, k)
       | Inr compiled \<Rightarrow> (case rt_RegisterRule T (cr_process compiled) k of (i, k) \<Rightarrow>
           (Inr \<lparr>sm_closed = False, sm_ruleIDs = [i], sm_direct = Some (cr_owner compiled),
                sm_process = Some (cr_process compiled), sm_processFields = cr_matcherFields compiled\<rparr>, k))))"

fun matchPIDs :: "ruleEnv \<Rightarrow> 'k ruleTracker \<Rightarrow> 'k \<Rightarrow> socketMatcher \<Rightarrow> goError option \<Rightarrow> int list \<Rightarrow> bool \<times> goError option" where
  "matchPIDs E T k m processErr [] = (False, processErr)"
| "matchPIDs E T k m processErr (pid # pids) = (case pidToUint32 pid of
       None \<Rightarrow> matchPIDs E T k m processErr pids
     | Some pid32 \<Rightarrow>
         if list_ex (\<lambda>i. rt_MatchesPID T pid32 i k) (sm_ruleIDs m) then (True, None)
         else (case sm_process m of None \<Rightarrow> matchPIDs E T k m processErr pids
           | Some process \<Rightarrow>
               if sm_processFields m = 0 then matchPIDs E T k m processErr pids
               else (case readMatcherProcessInfo E pid32 (sm_processFields m) of
                   Inl err \<Rightarrow> matchPIDs E T k m (errors_join [processErr, Some err]) pids
                 | Inr info \<Rightarrow> if process info then (True, None) else matchPIDs E T k m processErr pids)))"

definition Match :: "ruleEnv \<Rightarrow> 'k ruleTracker \<Rightarrow> ('flow \<Rightarrow> goError + SocketOwner option) \<Rightarrow> 'k \<Rightarrow> socketMatcher \<Rightarrow> 'flow \<Rightarrow>
    bool \<times> goError option" where
  "Match E T ownerLookup k m flow =
     (if sm_closed m then (False, Some netErrClosed)
      else case ownerLookup flow of Inl err \<Rightarrow> (False, Some err) | Inr None \<Rightarrow> (False, None)
        | Inr (Some owner) \<Rightarrow>
            if (case sm_direct m of Some direct \<Rightarrow> direct owner | None \<Rightarrow> False) then (True, None)
            else matchPIDs E T k m None (so_PIDs owner))"

definition matcherClose :: "'k ruleTracker \<Rightarrow> socketMatcher \<Rightarrow> 'k \<Rightarrow> goError option \<times> socketMatcher \<times> 'k" where
  "matcherClose T m k =
     (if sm_closed m then (None, m, k)
      else let ids = sm_ruleIDs m; m = m\<lparr>sm_closed := True, sm_ruleIDs := []\<rparr> in
        (None, m, fold (rt_UnregisterRule T) ids k))"

section \<open>The verdict\<close>

text \<open>What is known about one process of the owner.\<close>

definition tracked :: "'k ruleTracker \<Rightarrow> 'k \<Rightarrow> socketMatcher \<Rightarrow> int \<Rightarrow> bool" where
  "tracked T k m pid \<longleftrightarrow> (\<exists>p. pidToUint32 pid = Some p \<and> (\<exists>i \<in> set (sm_ruleIDs m). rt_MatchesPID T p i k))"

definition examined :: "socketMatcher \<Rightarrow> int \<Rightarrow> bool" where
  "examined m pid \<longleftrightarrow> pidToUint32 pid \<noteq> None \<and> sm_process m \<noteq> None \<and> sm_processFields m \<noteq> 0"

definition processOf :: "ruleEnv \<Rightarrow> socketMatcher \<Rightarrow> int \<Rightarrow> goError + ProcessInfo" where
  "processOf E m pid = readMatcherProcessInfo E (the (pidToUint32 pid)) (sm_processFields m)"

definition matchesProcess :: "ruleEnv \<Rightarrow> 'k ruleTracker \<Rightarrow> 'k \<Rightarrow> socketMatcher \<Rightarrow> int \<Rightarrow> bool" where
  "matchesProcess E T k m pid \<longleftrightarrow> tracked T k m pid \<or>
     examined m pid \<and> (\<exists>info. processOf E m pid = Inr info \<and> the (sm_process m) info)"

definition unreadable :: "ruleEnv \<Rightarrow> socketMatcher \<Rightarrow> int \<Rightarrow> bool" where
  "unreadable E m pid \<longleftrightarrow> examined m pid \<and> isl (processOf E m pid)"

lemma errors_join_eq_Some: "errors_join [a, Some e] \<noteq> None"
  by (cases a) simp_all

lemma matchPIDs_verdict:
  "if list_ex (matchesProcess E T k m) pids then matchPIDs E T k m e pids = (True, None)
   else \<not> fst (matchPIDs E T k m e pids) \<and>
     (snd (matchPIDs E T k m e pids) = None \<longleftrightarrow> e = None \<and> \<not> list_ex (unreadable E m) pids)"
proof (induction pids arbitrary: e)
  case (Cons pid pids)
  show ?case
  proof (cases "pidToUint32 pid")
    case None
    then have "\<not> matchesProcess E T k m pid" "\<not> unreadable E m pid"
      by (simp_all add: matchesProcess_def tracked_def examined_def unreadable_def)
    then show ?thesis using Cons.IH [of e] None by simp
  next
    case (Some p)
    consider (tracked) "tracked T k m pid" | (skipped) "\<not> tracked T k m pid" "\<not> examined m pid"
      | (failed) err where "\<not> tracked T k m pid" "examined m pid" "processOf E m pid = Inl err"
      | (read) info where "\<not> tracked T k m pid" "examined m pid" "processOf E m pid = Inr info"
      by (cases "processOf E m pid") auto
    then show ?thesis
    proof cases
      case tracked
      then show ?thesis using Some by (auto simp: matchesProcess_def tracked_def list_ex_iff)
    next
      case skipped
      then have n: "\<not> matchesProcess E T k m pid" "\<not> unreadable E m pid" by (simp_all add: matchesProcess_def unreadable_def)
      have "matchPIDs E T k m e (pid # pids) = matchPIDs E T k m e pids"
        using skipped Some by (auto simp: tracked_def examined_def list_ex_iff split: option.splits)
      then show ?thesis using Cons.IH [of e] n by simp
    next
      case failed
      then have n: "\<not> matchesProcess E T k m pid" "unreadable E m pid" by (auto simp: matchesProcess_def unreadable_def)
      have "matchPIDs E T k m e (pid # pids) = matchPIDs E T k m (errors_join [e, Some err]) pids"
        using failed Some by (auto simp: tracked_def examined_def processOf_def list_ex_iff)
      then show ?thesis using Cons.IH [of "errors_join [e, Some err]"] n errors_join_eq_Some [of e err] by simp
    next
      case read
      then have u: "\<not> unreadable E m pid" by (simp add: unreadable_def)
      obtain process where p: "sm_process m = Some process" using read by (auto simp: examined_def)
      then have mp: "matchesProcess E T k m pid \<longleftrightarrow> process info" using read by (auto simp: matchesProcess_def)
      have "matchPIDs E T k m e (pid # pids) = (if process info then (True, None) else matchPIDs E T k m e pids)"
        using read Some p by (auto simp: tracked_def examined_def processOf_def list_ex_iff)
      then show ?thesis using Cons.IH [of e] u mp by (cases "process info") simp_all
    qed
  qed
qed simp

section \<open>Contract of the tracker\<close>

text \<open>The rules registered in the tracker: while there is room for numbers a
  new rule has a fresh one, and a number taken back is free.\<close>

locale rule_tracker =
  fixes T :: "'k ruleTracker" and rules :: "'k \<Rightarrow> u64 \<rightharpoonup> (ProcessInfo \<Rightarrow> bool)" and room :: "'k \<Rightarrow> bool"
  assumes register: "rt_RegisterRule T f k = (i, k') \<Longrightarrow> room k \<Longrightarrow> rules k i = None \<and> rules k' = (rules k)(i \<mapsto> f)"
    and unregister: "rules (rt_UnregisterRule T i k) = (rules k)(i := None)"
begin

lemma build_ok:
  assumes "BuildMatcher E T c rule k = (Inr m, k')" and "room k"
  shows "\<exists>compiled i. compileRule E rule = Inr compiled \<and> rules k i = None \<and> rules k' = (rules k)(i \<mapsto> cr_process compiled) \<and>
    m = \<lparr>sm_closed = False, sm_ruleIDs = [i], sm_direct = Some (cr_owner compiled),
      sm_process = Some (cr_process compiled), sm_processFields = cr_matcherFields compiled\<rparr>"
proof -
  obtain compiled where c: "compileRule E rule = Inr compiled" and n: "c = None"
    using assms by (auto simp: BuildMatcher_def split: option.splits sum.splits)
  obtain i k1 where r: "rt_RegisterRule T (cr_process compiled) k = (i, k1)" by force
  with assms c n register [OF r assms(2)] show ?thesis by (auto simp: BuildMatcher_def)
qed

lemma close_build:
  assumes "BuildMatcher E T c rule k = (Inr m, k1)" and "room k" and "rules k2 = rules k1"
  shows "rules (snd (snd (matcherClose T m k2))) = rules k"
proof -
  obtain f i where "rules k i = None" "rules k1 = (rules k)(i \<mapsto> f)" "sm_ruleIDs m = [i]" "\<not> sm_closed m"
    using build_ok [OF assms(1,2)] by auto
  then show ?thesis using assms(3) by (simp add: matcherClose_def Let_def unregister fun_upd_idem)
qed

end

section \<open>Properties\<close>

text \<open>
  C31: The verdict of an open matcher on a flow whose socket has an owner. It matches exactly when the owner
  itself matches, or a process of the owner does, as the tracker knows it or as read from procfs. It
  denies a match without an error only when no process matches and every process it had to look at
  was read, so that a process that could not be read is never taken for a non-match. Only process numbers that
  fit 32 bits are looked at.
\<close>

theorem match_verdict:
  assumes "\<not> sm_closed m" and "ownerLookup flow = Inr (Some owner)"
  shows "(Match E T ownerLookup k m flow = (True, None) \<longleftrightarrow>
      (\<exists>direct. sm_direct m = Some direct \<and> direct owner) \<or> (\<exists>pid \<in> set (so_PIDs owner). matchesProcess E T k m pid)) \<and>
    (Match E T ownerLookup k m flow = (False, None) \<longleftrightarrow>
      \<not> (\<exists>direct. sm_direct m = Some direct \<and> direct owner) \<and>
      (\<forall>pid \<in> set (so_PIDs owner). \<not> matchesProcess E T k m pid \<and> \<not> unreadable E m pid)) \<and>
    (fst (Match E T ownerLookup k m flow) \<longrightarrow> snd (Match E T ownerLookup k m flow) = None) \<and>
    (pidToUint32 pid = Some p \<longleftrightarrow> 0 \<le> pid \<and> pid < 2 ^ 32 \<and> p = word_of_int pid)"
proof -
  let ?M = "Match E T ownerLookup k m flow" and ?L = "matchPIDs E T k m None (so_PIDs owner)"
  have M: "?M = (if \<exists>direct. sm_direct m = Some direct \<and> direct owner then (True, None) else ?L)"
    using assms by (auto simp: Match_def split: option.splits)
  have v: "if \<exists>pid \<in> set (so_PIDs owner). matchesProcess E T k m pid then ?L = (True, None)
      else \<not> fst ?L \<and> (snd ?L = None \<longleftrightarrow> (\<forall>pid \<in> set (so_PIDs owner). \<not> unreadable E m pid))"
    using matchPIDs_verdict [of E T k m "so_PIDs owner" None] by (simp add: list_ex_iff)
  show ?thesis
  proof (intro conjI pidToUint32_iff)
    show "?M = (True, None) \<longleftrightarrow> (\<exists>direct. sm_direct m = Some direct \<and> direct owner) \<or>
        (\<exists>pid \<in> set (so_PIDs owner). matchesProcess E T k m pid)"
      using M v by (auto simp: prod_eq_iff split: if_splits)
    show "?M = (False, None) \<longleftrightarrow> \<not> (\<exists>direct. sm_direct m = Some direct \<and> direct owner) \<and>
        (\<forall>pid \<in> set (so_PIDs owner). \<not> matchesProcess E T k m pid \<and> \<not> unreadable E m pid)"
      using M v by (auto simp: prod_eq_iff split: if_splits)
    show "fst ?M \<longrightarrow> snd ?M = None" using M v by (auto simp: prod_eq_iff split: if_splits)
  qed
qed

text \<open>
  A tracker that has room for one rule and tracks no process, regular expressions that are literals,
  and a procfs with one process.
\<close>

definition simTracker :: "(ProcessInfo \<Rightarrow> bool) option ruleTracker" where
  "simTracker = \<lparr>rt_RegisterRule = (\<lambda>f k. (7, Some f)), rt_UnregisterRule = (\<lambda>i k. if i = 7 then None else k),
     rt_MatchesPID = (\<lambda>p i k. False)\<rparr>"

interpretation simTracker: rule_tracker simTracker "\<lambda>k i. if i = 7 then k else None" "\<lambda>k. k = None"
  by unfold_locales (auto simp: simTracker_def)

definition sampleEnv :: ruleEnv where
  "sampleEnv = \<lparr>re_ErrNotSupported = ErrorsNew ''not supported'', re_Compile = (\<lambda>s. Inr (\<lambda>t. t = s)),
     re_Match = (\<lambda>p n. Inr (p = n)), re_LookupUser = (\<lambda>n. Inr ''1000''), re_LookupGroup = (\<lambda>n. Inr ''100''),
     re_ReadFile = (\<lambda>f. if f = ''/proc/42/cmdline'' then Inr (''vpn'' @ [CHR 0x00] @ ''-v'' @ [CHR 0x00]) else Inl (Errno 2)),
     re_Readlink = (\<lambda>f. Inl (Errno 13))\<rparr>"

definition sampleOwner :: "int list \<Rightarrow> SocketOwner" where
  "sampleOwner pids = \<lparr>so_Comm = ''vpn'', so_ProcName = '''', so_PIDs = pids, so_UID = Some 1000, so_GID = None\<rparr>"

definition sampleMatcher :: socketMatcher where
  "sampleMatcher = projr (fst (BuildMatcher sampleEnv simTracker None \<lparr>sr_Type = ''cmd'', sr_Rule = ''vpn -v''\<rparr> None))"

theorem match_verdict_witness:
  "Match sampleEnv simTracker (\<lambda>_. Inr (Some (sampleOwner [-1, 99, 42]))) None sampleMatcher () = (True, None) \<and>
   Match sampleEnv simTracker (\<lambda>_. Inr (Some (sampleOwner [-1, 99]))) None sampleMatcher () \<noteq> (False, None)"
proof -
  have n: "\<not> sm_closed sampleMatcher" by code_simp
  have r: "processOf sampleEnv sampleMatcher 42 = Inr \<lparr>pi_Tgid = 42, pi_Comm = '''', pi_Cmdline = ''vpn -v'', pi_Exe = ''''\<rparr>"
    by code_simp
  have e: "examined sampleMatcher 42 \<and> the (sm_process sampleMatcher) \<lparr>pi_Tgid = 42, pi_Comm = '''', pi_Cmdline = ''vpn -v'', pi_Exe = ''''\<rparr>"
    by code_simp
  have "matchesProcess sampleEnv simTracker None sampleMatcher 42" using r e by (simp add: matchesProcess_def)
  moreover have "unreadable sampleEnv sampleMatcher 99" by code_simp
  ultimately show ?thesis
    using match_verdict [where ownerLookup = "\<lambda>_. Inr (Some (sampleOwner [-1, 99, 42]))" and owner = "sampleOwner [-1, 99, 42]" and flow = "()",
        OF n refl, of sampleEnv simTracker None]
      match_verdict [where ownerLookup = "\<lambda>_. Inr (Some (sampleOwner [-1, 99]))" and owner = "sampleOwner [-1, 99]" and flow = "()",
        OF n refl, of sampleEnv simTracker None]
    by (simp add: sampleOwner_def)
qed



end
