(* ===== verification/Dns_Servers.thy ===== *)
theory Dns_Servers
  imports Resolvconffile Net_IP
begin

text \<open>
  Addresses of DNS servers: \<open>netip.AddrPort\<close>, the lists of servers that the providers of package \<open>dns\<close>
  filter, deduplicate and turn into URLs (the helpers at the end of \<open>dns/resolved.go\<close>), the
  conversions from and to the addresses of systemd-resolved, and the resolv.conf texts of
  \<open>dns/direct.go\<close>, \<open>dns/debian_resolvconf.go\<close> and \<open>dns/openresolv.go\<close>.
\<close>

section \<open>Addresses with a port\<close>

type_synonym u16 = "16 word"

datatype AddrPort = AddrPort (apAddr: Addr) (apPort: u16)

definition apIsValid :: "AddrPort \<Rightarrow> bool" where
  "apIsValid s = addrIsValid (apAddr s)"

definition portString :: "u16 \<Rightarrow> string" where
  "portString p = formatInt 10 (uint p)"

definition apString :: "AddrPort \<Rightarrow> string" where
  "apString s = (case apAddr s of NoAddr \<Rightarrow> ''invalid AddrPort''
     | Addr4 w \<Rightarrow> addrString (Addr4 w) @ '':'' @ portString (apPort s)
     | Addr6 w z \<Rightarrow> ''['' @ addrString (Addr6 w z) @ '']:'' @ portString (apPort s))"

text \<open>\<open>bytes.Contains\<close> and \<open>strings.Contains\<close>.\<close>

fun strContains :: "string \<Rightarrow> string \<Rightarrow> bool" where
  "strContains [] sub = (sub = [])"
| "strContains (c # s) sub = (hasPrefix (c # s) sub \<or> strContains s sub)"

section \<open>Lists of servers\<close>

definition addrExcluded :: "Addr \<Rightarrow> Addr list \<Rightarrow> bool" where
  "addrExcluded addr exclude = list_ex (\<lambda>candidate. addrIsValid candidate \<and> addr = candidate) exclude"

definition filterAddr :: "AddrPort list \<Rightarrow> Addr list \<Rightarrow> AddrPort list" where
  "filterAddr servers exclude =
     (if length exclude = 0 then servers else filter (\<lambda>server. \<not> addrExcluded (apAddr server) exclude) servers)"

definition dedupeServers :: "AddrPort list \<Rightarrow> AddrPort list" where
  "dedupeServers servers = dedup_by (\<lambda>s. s) (filter apIsValid servers)"

definition serverURL :: "AddrPort \<Rightarrow> string" where
  "serverURL server = ''udp://'' @ apString server"

definition serverURLs :: "AddrPort list \<Rightarrow> string list" where
  "serverURLs servers = map serverURL (dedupeServers servers)"

definition sameStrings :: "string list \<Rightarrow> string list \<Rightarrow> bool" where
  "sameStrings a b = (length a = length b \<and> list_all (\<lambda>i. a ! i = b ! i) [0..<length a])"

text \<open>\<open>sort.SliceStable\<close> with the longer domain first.\<close>

definition longestDomain :: "string list \<Rightarrow> nat" where
  "longestDomain domains = foldl (\<lambda>maxLen domain. if domain \<noteq> ''.'' \<and> length domain > maxLen then length domain else maxLen) 0 domains"

definition cmpDomains :: "string \<Rightarrow> string \<Rightarrow> int" where
  "cmpDomains a b = int (longestDomain [b]) - int (longestDomain [a])"

definition dedupeStrings :: "string list \<Rightarrow> string list" where
  "dedupeStrings vs = sort_by cmpDomains (dedup_by (\<lambda>v. v) (filter (\<lambda>v. v \<noteq> '''') vs))"

section \<open>Addresses of systemd-resolved\<close>

abbreviation AF_INET_32 :: int where "AF_INET_32 \<equiv> 2"
abbreviation AF_INET6_32 :: int where "AF_INET6_32 \<equiv> 10"

record resolvedLinkNameserver =
  rn_Family :: int
  rn_Address :: bytes

definition addrBytes :: "nat \<Rightarrow> int \<Rightarrow> bytes" where
  "addrBytes n v = map word_of_int (groupsOf 256 n v)"

fun addrAs4 :: "Addr \<Rightarrow> bytes" where
  "addrAs4 (Addr4 w) = addrBytes 4 (uint w)"
| "addrAs4 a = []"

fun addrAs16 :: "Addr \<Rightarrow> bytes" where
  "addrAs16 NoAddr = replicate 16 0"
| "addrAs16 (Addr4 w) = v4InV6Prefix @ addrBytes 4 (uint w)"
| "addrAs16 (Addr6 w z) = addrBytes 16 (uint w)"

definition resolvedNameserver :: "Addr \<Rightarrow> resolvedLinkNameserver" where
  "resolvedNameserver addr =
     (if addrIs4 addr then \<lparr>rn_Family = AF_INET_32, rn_Address = addrAs4 addr\<rparr>
      else \<lparr>rn_Family = AF_INET6_32, rn_Address = addrAs16 addr\<rparr>)"

definition addrFromResolved :: "int \<Rightarrow> bytes \<Rightarrow> Addr option" where
  "addrFromResolved family raw =
     (if family = AF_INET_32 then
        (if length raw \<noteq> 4 then None else Some (Addr4 (word_of_int (ofFields 256 (map uint raw)))))
      else if family = AF_INET6_32 then
        (if length raw \<noteq> 16 then None else Some (Addr6 (word_of_int (ofFields 256 (map uint raw))) ''''))
      else None)"

definition addrPort :: "Addr \<Rightarrow> u16 \<Rightarrow> AddrPort" where
  "addrPort addr port = (let port = (if port = 0 then 53 else port) in AddrPort addr port)"

section \<open>resolv.conf texts\<close>

abbreviation resolvConfPath :: string where "resolvConfPath \<equiv> ''/etc/resolv.conf''"

definition resolvconfNameservers :: "string \<Rightarrow> goError + AddrPort list" where
  "resolvconfNameservers bs = (case Parse bs None of Inl err \<Rightarrow> Inl err
     | Inr cfg \<Rightarrow> Inr (dedupeServers (map (\<lambda>ns. AddrPort ns 53) (rc_Nameservers cfg))))"

definition directOwner :: string where
  "directOwner = ''sysnet-linux direct DNS provider''"

definition debianResolvconfOwner :: string where
  "debianResolvconfOwner = ''sysnet-linux Debian resolvconf DNS provider''"

definition openresolvOwner :: string where
  "openresolvOwner = ''sysnet-linux openresolv DNS provider''"

definition resolvconfForServer :: "Addr \<Rightarrow> string" where
  "resolvconfForServer server = Write \<lparr>rc_Nameservers = [server], rc_SearchDomains = []\<rparr> directOwner"

definition debianResolvconfForServer :: "Addr \<Rightarrow> string" where
  "debianResolvconfForServer server = Write \<lparr>rc_Nameservers = [server], rc_SearchDomains = []\<rparr> debianResolvconfOwner"

definition openresolvForServer :: "Addr \<Rightarrow> string" where
  "openresolvForServer server = Write \<lparr>rc_Nameservers = [server], rc_SearchDomains = []\<rparr> openresolvOwner"

definition directResolvconfOwned :: "string \<Rightarrow> bool" where
  "directResolvconfOwned bs = strContains bs (''generated by '' @ directOwner)"

section \<open>Texts and lists\<close>

lemma strContains_iff: "strContains s sub \<longleftrightarrow> (\<exists>u v. s = u @ sub @ v)"
proof (induction s)
  case (Cons c s)
  have "(\<exists>u v. c # s = u @ sub @ v) \<longleftrightarrow> (\<exists>v. c # s = sub @ v) \<or> (\<exists>u v. s = u @ sub @ v)"
    by (metis append_Cons append_Nil list.sel(3) neq_Nil_conv list.inject)
  then show ?case using Cons by (simp add: hasPrefix_iff)
qed simp

lemma sameStrings_iff [simp]: "sameStrings a b \<longleftrightarrow> a = b"
  by (auto simp: sameStrings_def list_all_iff intro: nth_equalityI)

lemma set_filterAddr [simp]: "set (filterAddr servers exclude) = {s \<in> set servers. apAddr s \<notin> set exclude \<or> \<not> apIsValid s}"
  by (auto simp: filterAddr_def addrExcluded_def list_ex_iff apIsValid_def)

lemma set_dedupeServers [simp]: "set (dedupeServers servers) = {s \<in> set servers. apIsValid s}"
  by (simp add: dedupeServers_def set_eq_iff)

lemma distinct_dedupeServers: "distinct (dedupeServers servers)"
  by (simp add: dedupeServers_def)

lemma set_serverURLs: "set (serverURLs servers) = serverURL ` {s \<in> set servers. apIsValid s}"
  by (simp add: serverURLs_def)

lemma longestDomain_single: "longestDomain [d] = (if d = ''.'' then 0 else length d)"
  by (simp add: longestDomain_def)

lemma set_dedupeStrings [simp]: "set (dedupeStrings vs) = set vs - {''''}"
  by (auto simp: dedupeStrings_def)

lemma dedupeStrings_props: "distinct (dedupeStrings vs)"
  "sorted_wrt (\<lambda>a b. longestDomain [b] \<le> longestDomain [a]) (dedupeStrings vs)"
proof -
  have "cmp_preorder cmpDomains" by (auto simp: cmp_preorder_def cmpDomains_def)
  from sorted_sort_by [OF this] show "sorted_wrt (\<lambda>a b. longestDomain [b] \<le> longestDomain [a]) (dedupeStrings vs)"
    unfolding dedupeStrings_def by (simp add: cmpDomains_def)
  have "distinct (dedup_by (\<lambda>v. v) (filter (\<lambda>v. v \<noteq> '''') vs))" by simp
  then show "distinct (dedupeStrings vs)"
    unfolding dedupeStrings_def by (metis mset_sort_by mset_eq_imp_distinct_iff)
qed

section \<open>URLs determine their servers\<close>

lemma formatInt10_inj: "0 \<le> m \<Longrightarrow> 0 \<le> n \<Longrightarrow> formatInt 10 m = formatInt 10 n \<Longrightarrow> m = n"
proof -
  assume a: "0 \<le> m" "0 \<le> n" "formatInt 10 m = formatInt 10 n"
  then have "format_nat 10 (nat m) = format_nat 10 (nat n)" by (simp add: formatInt_nat)
  then have "nat m = nat n"
    using parse_format_nat [OF max.cobounded1, of "nat m" "nat n"] parse_format_nat [OF max.cobounded2, of "nat m" "nat n"]
    by (metis sum.inject(2))
  then show "m = n" using a by simp
qed

lemma portString_inj: "portString p = portString q \<longleftrightarrow> p = q"
proof
  assume "portString p = portString q"
  then have "uint p = uint q" unfolding portString_def by (intro formatInt10_inj) simp_all
  then show "p = q" by (simp add: word_uint_eq_iff)
qed simp

lemma portString_noColon: "CHR '':'' \<notin> set (portString p)"
  using digits_plain [of 10 "uint p"] by (auto simp: portString_def)

lemma split_first: "c \<notin> set p \<Longrightarrow> c \<notin> set q \<Longrightarrow> p @ c # s = q @ c # t \<Longrightarrow> p = q \<and> s = t"
proof (induction p arbitrary: q)
  case Nil
  then show ?case by (cases q) auto
next
  case (Cons x p)
  then show ?case by (cases q) auto
qed

lemma split_last:
  assumes "s @ c # p = t @ c # q" and "c \<notin> set p" and "c \<notin> set q"
  shows "s = t \<and> p = q"
proof -
  have "rev p @ c # rev s = rev q @ c # rev t" using arg_cong [OF assms(1), of rev] by simp
  moreover have "c \<notin> set (rev p)" "c \<notin> set (rev q)" using assms by simp_all
  ultimately have "rev p = rev q \<and> rev s = rev t" using split_first by metis
  then show ?thesis by (simp only: rev_is_rev_conv simp_thms)
qed

lemma addrString_inj: "a \<noteq> NoAddr \<Longrightarrow> b \<noteq> NoAddr \<Longrightarrow> addrString a = addrString b \<Longrightarrow> a = b"
  using parse_addrString [of a] parse_addrString [of b] by (metis sum.inject(2))

text \<open>The text before the port.\<close>

fun hostText :: "Addr \<Rightarrow> string" where
  "hostText NoAddr = ''invalid IP''"
| "hostText (Addr4 w) = addrString (Addr4 w)"
| "hostText (Addr6 w z) = ''['' @ addrString (Addr6 w z) @ '']''"

lemma apString_host: "apIsValid s \<Longrightarrow> apString s = hostText (apAddr s) @ CHR '':'' # portString (apPort s)"
  by (cases "apAddr s") (simp_all add: apString_def apIsValid_def)

lemma string4_noBracket: "string4 w \<noteq> CHR ''['' # t"
proof
  assume s: "string4 w = CHR ''['' # t"
  obtain f rest where f: "string4 w = formatInt 10 f @ CHR ''.'' # rest" "0 \<le> f" using string4_start by blast
  obtain c cs where c: "formatInt 10 f = c # cs" by (cases "formatInt 10 f") simp_all
  then have "c = CHR ''[''" using s f(1) by simp
  moreover obtain d where "int d < 10" "c = digit_char d" using formatInt_digits [of 10 f] f(2) c by auto
  ultimately have "(of_char (CHR ''['') :: nat) = 48 + d" using of_char_digit_char [of d] by simp
  then show False using \<open>int d < 10\<close> by simp
qed

lemma hostText_inj:
  assumes "a \<noteq> NoAddr" "b \<noteq> NoAddr" "hostText a = hostText b"
  shows "a = b"
proof -
  note no = string4_noBracket
  show ?thesis
  proof (cases a)
    case a: (Addr4 w)
    show ?thesis
    proof (cases b)
      case (Addr4 v)
      then have "addrString a = addrString b" using assms a by simp
      then show ?thesis using assms addrString_inj by blast
    qed (use assms a no in auto)
  next
    case a: (Addr6 w z)
    show ?thesis
    proof (cases b)
      case (Addr6 v y)
      then have "addrString a = addrString b" using assms a by simp
      then show ?thesis using assms addrString_inj by blast
    qed (use assms a no in \<open>auto dest: sym\<close>)
  qed (use assms in simp)
qed

lemma serverURL_inj:
  assumes "apIsValid s" "apIsValid t" "serverURL s = serverURL t"
  shows "s = t"
proof -
  have "hostText (apAddr s) @ CHR '':'' # portString (apPort s) = hostText (apAddr t) @ CHR '':'' # portString (apPort t)"
    using assms by (simp add: serverURL_def apString_host)
  from split_last [OF this portString_noColon portString_noColon] show ?thesis
    using assms by (auto simp: portString_inj apIsValid_def addrIsValid_iff intro: hostText_inj AddrPort.expand)
qed

text \<open>The URLs of a filtered list name no excluded address, whatever the port.\<close>

definition urlOf :: "Addr \<Rightarrow> string \<Rightarrow> bool" where
  "urlOf a url \<longleftrightarrow> (\<exists>port. url = serverURL (AddrPort a port))"

definition avoids :: "Addr \<Rightarrow> string list \<Rightarrow> bool" where
  "avoids a urls \<longleftrightarrow> (\<forall>url \<in> set urls. \<not> urlOf a url)"

lemma serverURLs_avoid:
  assumes "addrIsValid a" and "\<forall>s \<in> set servers. apIsValid s \<longrightarrow> apAddr s \<noteq> a"
  shows "avoids a (serverURLs servers)"
  unfolding avoids_def set_serverURLs urlOf_def
proof (clarsimp)
  fix s port assume s: "s \<in> set servers" "apIsValid s" "serverURL s = serverURL (AddrPort a port)"
  then have "s = AddrPort a port" using assms(1) by (intro serverURL_inj) (simp_all add: apIsValid_def)
  then show False using assms(2) s by auto
qed

lemma filtered_avoid: "addrIsValid a \<Longrightarrow> a \<in> set exclude \<Longrightarrow> avoids a (serverURLs (filterAddr servers exclude))"
  by (rule serverURLs_avoid) auto

lemma avoids_Nil [simp]: "avoids a []"
  by (simp add: avoids_def)

section \<open>Round trips\<close>

lemma ofFields_addrBytes: "0 \<le> v \<Longrightarrow> v < 256 ^ n \<Longrightarrow> ofFields 256 (map uint (addrBytes n v)) = v"
proof -
  assume v: "0 \<le> v" "v < 256 ^ n"
  have "map uint (addrBytes n v) = groupsOf 256 n v"
    unfolding addrBytes_def map_map
  proof (rule map_idI)
    fix g assume "g \<in> set (groupsOf 256 n v)"
    then have "0 \<le> g" "g < 2 ^ 8" using groupsOf_range [of 256 g n v] by simp_all
    then show "(uint \<circ> (word_of_int :: int \<Rightarrow> byte)) g = g" by (simp add: uint_word_of_int)
  qed
  then show ?thesis using ofFields_groupsOf [of 256 v n] v by simp
qed

text \<open>systemd-resolved gives back the address that was set, without a zone.\<close>

lemma addrFromResolved_nameserver:
  assumes "addrIsValid a"
  shows "addrFromResolved (rn_Family (resolvedNameserver a)) (rn_Address (resolvedNameserver a)) = Some (addrWithoutZone a)"
proof (cases a)
  case (Addr4 w)
  have "ofFields 256 (map uint (addrBytes 4 (uint w))) = uint w"
    by (rule ofFields_addrBytes) (use uint_lt2p [of w] in simp_all)
  then show ?thesis using Addr4 by (simp add: resolvedNameserver_def addrFromResolved_def addrBytes_def)
next
  case (Addr6 w z)
  have "ofFields 256 (map uint (addrBytes 16 (uint w))) = uint w"
    by (rule ofFields_addrBytes) (use uint_lt2p [of w] in simp_all)
  then show ?thesis using Addr6 by (simp add: resolvedNameserver_def addrFromResolved_def addrBytes_def)
qed (use assms in simp)

end
