(* ===== verification/Dns_Provider.thy ===== *)
theory Dns_Provider
  imports Dns_Servers
begin

text \<open>
  The DNS providers that write \<open>/etc/resolv.conf\<close> or call \<open>resolvconf\<close>: \<open>dns/direct.go\<close>,
  \<open>dns/debian_resolvconf.go\<close> and \<open>dns/openresolv.go\<close>, with \<open>requireDNSNetworks\<close> of \<open>dns/network.go\<close>. The three have the same
  methods up to the names in their messages and the way the managed server is installed and taken back;
  \<open>refreshUpstreams\<close>, \<open>providerSetDNS\<close>, \<open>providerUnsetDNS\<close> and \<open>providerClose\<close> are the common text. The router and the clients of
  the package gonnect and the host (files, commands) are parameters, records of the calls that the
  sources make. Methods run one at a time.
\<close>

section \<open>The environment\<close>

record dnsMessage =
  dm_Questions :: "string list"

record ('n, 'c, 'k) dnsRouter =
  dr_ErrClosed :: goError
  dr_NewRouter :: "'k \<Rightarrow> 'k"
  dr_NewClient :: "'n option \<Rightarrow> string list \<Rightarrow> 'k \<Rightarrow> 'c \<times> 'k"
  dr_ClientClose :: "'c \<Rightarrow> 'k act"
  dr_Attach :: "string \<Rightarrow> 'c \<Rightarrow> 'k act"
  dr_SetRouter :: "(dnsMessage option \<Rightarrow> string) \<Rightarrow> 'k act"
  dr_Detach :: "string \<Rightarrow> 'k act"
  dr_Close :: "'k act"

text \<open>
  \<open>Env\<close>: files, and commands with their standard input. A failing file call gives the system error itself.
\<close>

record 'k dnsEnv =
  de_ReadFile :: "string \<Rightarrow> ('k, string) query"
  de_WriteFile :: "string \<Rightarrow> string \<Rightarrow> int \<Rightarrow> 'k act"
  de_Remove :: "string \<Rightarrow> 'k act"
  de_Run :: "string \<Rightarrow> string list \<Rightarrow> string option \<Rightarrow> 'k act"

definition osIsNotExist :: "goError \<Rightarrow> bool" where
  "osIsNotExist err \<longleftrightarrow> err = Errno 2"

definition requireDNSNetworks :: "string \<Rightarrow> 'n option \<Rightarrow> 'n option \<Rightarrow> goError option" where
  "requireDNSNetworks provider listenNetwork dialNetwork =
     (if listenNetwork = None then Some (Errorf ''%s: %w'' [AStr provider] [ErrorsNew ''nil listen network''])
      else if dialNetwork = None then Some (Errorf ''%s: %w'' [AStr provider] [ErrorsNew ''nil dial network''])
      else None)"

section \<open>The common methods\<close>

record ('n, 'c) dnsProvider =
  dp_closed :: bool
  dp_listenNetwork :: "'n option"
  dp_dialNetwork :: "'n option"
  dp_client :: "'c option"
  dp_fallback :: "AddrPort list"
  dp_originalServers :: "AddrPort list"
  dp_setDNS :: Addr
  dp_setDNSActive :: bool
  dp_upstreamSig :: "string list"

abbreviation backendName :: string where "backendName \<equiv> ''default''"

definition upstreamURLs :: "('n, 'c, 'z) dnsProvider_scheme \<Rightarrow> Addr list \<Rightarrow> string list" where
  "upstreamURLs p exclude =
     (let servers = filterAddr (dp_originalServers p) exclude;
          servers = (if length servers = 0 then filterAddr (dp_fallback p) exclude else servers)
      in serverURLs servers)"

definition refreshUpstreams :: "('n, 'c, 'k) dnsRouter \<Rightarrow> string \<Rightarrow> Addr list \<Rightarrow> ('n, 'c, 'z) dnsProvider_scheme \<Rightarrow> 'k \<Rightarrow>
    goError option \<times> ('n, 'c, 'z) dnsProvider_scheme \<times> 'k" where
  "refreshUpstreams R provider exclude p k =
     (let urls = upstreamURLs p exclude in
      if length urls = 0 then (Some (ErrorsNew (provider @ '': no upstream DNS servers'')), p, k)
      else if sameStrings urls (dp_upstreamSig p) then (None, p, k)
      else case dr_NewClient R (dp_dialNetwork p) urls k of (client, k) \<Rightarrow>
        if dp_closed p then (Some (dr_ErrClosed R), p, snd (dr_ClientClose R client k))
        else let oldClient = dp_client p in
          case dr_Attach R backendName client k of
            (Some err, k) \<Rightarrow> (Some err, p, snd (dr_ClientClose R client k))
          | (None, k) \<Rightarrow> (case dr_SetRouter R (\<lambda>_. backendName) k of
              (Some err, k) \<Rightarrow> (Some err, p, snd (dr_ClientClose R client k))
            | (None, k) \<Rightarrow> (None, p\<lparr>dp_client := Some client, dp_upstreamSig := urls\<rparr>,
                case oldClient of Some c \<Rightarrow> snd (dr_ClientClose R c k) | None \<Rightarrow> k)))"

definition providerSetDNS :: "('n, 'c, 'k) dnsRouter \<Rightarrow> string \<Rightarrow> (('n, 'c, 'z) dnsProvider_scheme \<Rightarrow> Addr \<Rightarrow> 'k act) \<Rightarrow> Addr \<Rightarrow>
    ('n, 'c, 'z) dnsProvider_scheme \<Rightarrow> 'k \<Rightarrow> goError option \<times> ('n, 'c, 'z) dnsProvider_scheme \<times> 'k" where
  "providerSetDNS R provider install server p k =
     (if \<not> addrIsValid server then (Some (ErrorsNew (provider @ '': invalid DNS server'')), p, k)
      else if dp_closed p then (Some (dr_ErrClosed R), p, k)
      else let exclude = [server] @ (if dp_setDNSActive p then [dp_setDNS p] else []) in
        case refreshUpstreams R provider exclude p k of
          (Some err, p, k) \<Rightarrow> (Some err, p, k)
        | (None, p, k) \<Rightarrow> (case install p server k of
            (Some err, k) \<Rightarrow> (Some err, p, k)
          | (None, k) \<Rightarrow> (None, p\<lparr>dp_setDNS := server, dp_setDNSActive := True\<rparr>, k)))"

definition clearDNS :: "('n, 'c, 'z) dnsProvider_scheme \<Rightarrow> ('n, 'c, 'z) dnsProvider_scheme" where
  "clearDNS p = p\<lparr>dp_setDNS := NoAddr, dp_setDNSActive := False\<rparr>"

definition providerUnsetDNS :: "('n, 'c, 'k) dnsRouter \<Rightarrow> string \<Rightarrow> (('n, 'c, 'z) dnsProvider_scheme \<Rightarrow> 'k act) \<Rightarrow>
    ('n, 'c, 'z) dnsProvider_scheme \<Rightarrow> 'k \<Rightarrow> goError option \<times> ('n, 'c, 'z) dnsProvider_scheme \<times> 'k" where
  "providerUnsetDNS R provider revert p k =
     (if dp_closed p then (Some (dr_ErrClosed R), p, k)
      else let active = dp_setDNSActive p; server = dp_setDNS p in
        if \<not> active then (None, p, k)
        else case revert p k of (err, k) \<Rightarrow>
          (case refreshUpstreams R provider [server] p k of (refreshErr, p, k) \<Rightarrow>
            let err = (case refreshErr of None \<Rightarrow> err | Some e \<Rightarrow> errors_join [err, Some e]) in
            (err, if err = None \<and> dp_setDNSActive p \<and> dp_setDNS p = server then clearDNS p else p, k)))"

definition providerClose :: "('n, 'c, 'k) dnsRouter \<Rightarrow> (('n, 'c, 'z) dnsProvider_scheme \<Rightarrow> 'k act) \<Rightarrow>
    ('n, 'c, 'z) dnsProvider_scheme \<Rightarrow> 'k \<Rightarrow> goError option \<times> ('n, 'c, 'z) dnsProvider_scheme \<times> 'k" where
  "providerClose R revert p k =
     (if dp_closed p \<and> \<not> dp_setDNSActive p then (None, p, k)
      else let active = dp_setDNSActive p; server = dp_setDNS p; client = dp_client p;
               p = p\<lparr>dp_closed := True, dp_client := None\<rparr> in
        case (if active then case revert p k of (restoreErr, k) \<Rightarrow>
                  (errors_join [None, restoreErr],
                   if restoreErr = None \<and> dp_setDNS p = server then clearDNS p else p, k)
              else (None, p, k)) of (err, p, k) \<Rightarrow>
        (case dr_Close R k of (closeErr, k) \<Rightarrow>
          let err = errors_join [err, closeErr] in
          (case client of None \<Rightarrow> (err, p, k)
           | Some c \<Rightarrow> (case dr_ClientClose R c k of (clientErr, k) \<Rightarrow> (errors_join [err, clientErr], p, k)))))"

text \<open>The original nameservers: a file that does not exist has none.\<close>

definition originalServers :: "string \<Rightarrow> goError + string \<Rightarrow> goError + AddrPort list" where
  "originalServers provider read = (case read of
       Inr bs \<Rightarrow> (case resolvconfNameservers bs of
           Inl err \<Rightarrow> Inl (Errorf (provider @ '': parse %s: %w'') [AStr resolvConfPath] [err])
         | Inr servers \<Rightarrow> Inr servers)
     | Inl err \<Rightarrow> if osIsNotExist err then Inr []
         else Inl (Errorf (provider @ '': read %s: %w'') [AStr resolvConfPath] [err]))"

text \<open>The end of every constructor: the first client, or the router is closed again.\<close>

definition startProvider :: "('n, 'c, 'k) dnsRouter \<Rightarrow> string \<Rightarrow> ('n, 'c, 'z) dnsProvider_scheme \<Rightarrow> ('k, ('n, 'c, 'z) dnsProvider_scheme) query" where
  "startProvider R provider p k = (case refreshUpstreams R provider [] p k of
     (Some err, p, k) \<Rightarrow> (Inl err, snd (dr_Close R k)) | (None, p, k) \<Rightarrow> (Inr p, k))"

section \<open>Direct\<close>

record ('n, 'c) Direct = "('n, 'c) dnsProvider" +
  dd_original :: string
  dd_originalExists :: bool

definition NewDirect :: "('n, 'c, 'k) dnsRouter \<Rightarrow> 'k dnsEnv \<Rightarrow> 'n option \<Rightarrow> 'n option \<Rightarrow> AddrPort list \<Rightarrow> ('k, ('n, 'c) Direct) query" where
  "NewDirect R E listenNetwork dialNetwork fallback k =
     (case requireDNSNetworks ''direct'' listenNetwork dialNetwork of Some err \<Rightarrow> (Inl err, k)
      | None \<Rightarrow> let k = dr_NewRouter R k in
        (case de_ReadFile E resolvConfPath k of (read, k) \<Rightarrow>
          (case originalServers ''direct'' read of Inl err \<Rightarrow> (Inl err, snd (dr_Close R k))
           | Inr servers \<Rightarrow> startProvider R ''direct''
               \<lparr>dp_closed = False, dp_listenNetwork = listenNetwork, dp_dialNetwork = dialNetwork, dp_client = None,
                dp_fallback = fallback, dp_originalServers = servers, dp_setDNS = NoAddr, dp_setDNSActive = False, dp_upstreamSig = [],
                dd_original = (case read of Inr bs \<Rightarrow> bs | Inl _ \<Rightarrow> ''''), dd_originalExists = (\<not> isl read)\<rparr> k)))"

definition directInstall :: "'k dnsEnv \<Rightarrow> ('n, 'c) Direct \<Rightarrow> Addr \<Rightarrow> 'k act" where
  "directInstall E d server = wrapE (\<lambda>err. Errorf ''direct: write %s: %w'' [AStr resolvConfPath] [err])
     (de_WriteFile E resolvConfPath (resolvconfForServer server) 420)"

definition restoreOriginal :: "'k dnsEnv \<Rightarrow> ('n, 'c) Direct \<Rightarrow> 'k act" where
  "restoreOriginal E d =
     (if dd_originalExists d then
        wrapE (\<lambda>err. Errorf ''direct: restore %s: %w'' [AStr resolvConfPath] [err]) (de_WriteFile E resolvConfPath (dd_original d) 420)
      else (\<lambda>k. case de_Remove E resolvConfPath k of
          (Some err, k) \<Rightarrow> (if osIsNotExist err then None else Some (Errorf ''direct: remove %s: %w'' [AStr resolvConfPath] [err]), k)
        | (None, k) \<Rightarrow> (None, k)))"

definition restoreResolvConfIfOwned :: "'k dnsEnv \<Rightarrow> ('n, 'c) Direct \<Rightarrow> 'k act" where
  "restoreResolvConfIfOwned E d k = (case de_ReadFile E resolvConfPath k of
       (Inl err, k) \<Rightarrow> if \<not> osIsNotExist err then (Some (Errorf ''direct: read current %s: %w'' [AStr resolvConfPath] [err]), k)
          else restoreOriginal E d k
     | (Inr bs, k) \<Rightarrow> if \<not> directResolvconfOwned bs then (None, k) else restoreOriginal E d k)"

definition DirectSetDNS :: "('n, 'c, 'k) dnsRouter \<Rightarrow> 'k dnsEnv \<Rightarrow> Addr \<Rightarrow> ('n, 'c) Direct \<Rightarrow> 'k \<Rightarrow> goError option \<times> ('n, 'c) Direct \<times> 'k" where
  "DirectSetDNS R E = providerSetDNS R ''direct'' (directInstall E)"

definition DirectUnsetDNS :: "('n, 'c, 'k) dnsRouter \<Rightarrow> 'k dnsEnv \<Rightarrow> ('n, 'c) Direct \<Rightarrow> 'k \<Rightarrow> goError option \<times> ('n, 'c) Direct \<times> 'k" where
  "DirectUnsetDNS R E = providerUnsetDNS R ''direct'' (restoreResolvConfIfOwned E)"

definition DirectClose :: "('n, 'c, 'k) dnsRouter \<Rightarrow> 'k dnsEnv \<Rightarrow> ('n, 'c) Direct \<Rightarrow> 'k \<Rightarrow> goError option \<times> ('n, 'c) Direct \<times> 'k" where
  "DirectClose R E = providerClose R (restoreResolvConfIfOwned E)"

section \<open>Debian resolvconf and openresolv\<close>

record ('n, 'c) resolvconfProvider = "('n, 'c) dnsProvider" +
  rp_iface :: string

text \<open>The two programs differ in the options of their calls.\<close>

definition runResolvconf :: "'k dnsEnv \<Rightarrow> string \<Rightarrow> string list \<Rightarrow> string option \<Rightarrow> 'k act" where
  "runResolvconf E provider args stdin =
     wrapE (\<lambda>err. Errorf (provider @ '': %s %v: %w'') [AStr ''resolvconf'', AStr (''['' @ joinByte CHR '' '' args @ '']'')] [err])
       (de_Run E ''resolvconf'' args stdin)"

definition newResolvconf :: "('n, 'c, 'k) dnsRouter \<Rightarrow> 'k dnsEnv \<Rightarrow> string \<Rightarrow> 'n option \<Rightarrow> 'n option \<Rightarrow> string \<Rightarrow> AddrPort list \<Rightarrow>
    ('k, ('n, 'c) resolvconfProvider) query" where
  "newResolvconf R E provider listenNetwork dialNetwork iface fallback k =
     (case requireDNSNetworks provider listenNetwork dialNetwork of Some err \<Rightarrow> (Inl err, k)
      | None \<Rightarrow> if iface = '''' then (Inl (ErrorsNew (provider @ '': empty interface name'')), k)
        else let k = dr_NewRouter R k in
        (case de_ReadFile E resolvConfPath k of (read, k) \<Rightarrow>
          (case originalServers provider read of Inl err \<Rightarrow> (Inl err, snd (dr_Close R k))
           | Inr servers \<Rightarrow> startProvider R provider
               \<lparr>dp_closed = False, dp_listenNetwork = listenNetwork, dp_dialNetwork = dialNetwork, dp_client = None,
                dp_fallback = fallback, dp_originalServers = servers, dp_setDNS = NoAddr, dp_setDNSActive = False, dp_upstreamSig = [],
                rp_iface = iface\<rparr> k)))"

abbreviation debianName :: string where "debianName \<equiv> ''debian-resolvconf''"
abbreviation openresolvName :: string where "openresolvName \<equiv> ''openresolv''"

definition debianInstall :: "'k dnsEnv \<Rightarrow> ('n, 'c) resolvconfProvider \<Rightarrow> Addr \<Rightarrow> 'k act" where
  "debianInstall E r server = runResolvconf E debianName [''-a'', rp_iface r] (Some (debianResolvconfForServer server))"

definition debianRevert :: "'k dnsEnv \<Rightarrow> ('n, 'c) resolvconfProvider \<Rightarrow> 'k act" where
  "debianRevert E r = runResolvconf E debianName [''-d'', rp_iface r] None"

definition openresolvInstall :: "'k dnsEnv \<Rightarrow> ('n, 'c) resolvconfProvider \<Rightarrow> Addr \<Rightarrow> 'k act" where
  "openresolvInstall E r server =
     runResolvconf E openresolvName [''-m'', ''0'', ''-x'', ''-a'', rp_iface r] (Some (openresolvForServer server))"

definition openresolvRevert :: "'k dnsEnv \<Rightarrow> ('n, 'c) resolvconfProvider \<Rightarrow> 'k act" where
  "openresolvRevert E r = runResolvconf E openresolvName [''-f'', ''-d'', rp_iface r] None"

definition NewDebianResolvconf :: "('n, 'c, 'k) dnsRouter \<Rightarrow> 'k dnsEnv \<Rightarrow> 'n option \<Rightarrow> 'n option \<Rightarrow> string \<Rightarrow> AddrPort list \<Rightarrow>
    ('k, ('n, 'c) resolvconfProvider) query" where
  "NewDebianResolvconf R E = newResolvconf R E debianName"

definition DebianSetDNS :: "('n, 'c, 'k) dnsRouter \<Rightarrow> 'k dnsEnv \<Rightarrow> Addr \<Rightarrow> ('n, 'c) resolvconfProvider \<Rightarrow> 'k \<Rightarrow>
    goError option \<times> ('n, 'c) resolvconfProvider \<times> 'k" where
  "DebianSetDNS R E = providerSetDNS R debianName (debianInstall E)"

definition DebianUnsetDNS :: "('n, 'c, 'k) dnsRouter \<Rightarrow> 'k dnsEnv \<Rightarrow> ('n, 'c) resolvconfProvider \<Rightarrow> 'k \<Rightarrow>
    goError option \<times> ('n, 'c) resolvconfProvider \<times> 'k" where
  "DebianUnsetDNS R E = providerUnsetDNS R debianName (debianRevert E)"

definition DebianClose :: "('n, 'c, 'k) dnsRouter \<Rightarrow> 'k dnsEnv \<Rightarrow> ('n, 'c) resolvconfProvider \<Rightarrow> 'k \<Rightarrow>
    goError option \<times> ('n, 'c) resolvconfProvider \<times> 'k" where
  "DebianClose R E = providerClose R (debianRevert E)"

definition NewOpenresolv :: "('n, 'c, 'k) dnsRouter \<Rightarrow> 'k dnsEnv \<Rightarrow> 'n option \<Rightarrow> 'n option \<Rightarrow> string \<Rightarrow> AddrPort list \<Rightarrow>
    ('k, ('n, 'c) resolvconfProvider) query" where
  "NewOpenresolv R E = newResolvconf R E openresolvName"

definition OpenresolvSetDNS :: "('n, 'c, 'k) dnsRouter \<Rightarrow> 'k dnsEnv \<Rightarrow> Addr \<Rightarrow> ('n, 'c) resolvconfProvider \<Rightarrow> 'k \<Rightarrow>
    goError option \<times> ('n, 'c) resolvconfProvider \<times> 'k" where
  "OpenresolvSetDNS R E = providerSetDNS R openresolvName (openresolvInstall E)"

definition OpenresolvUnsetDNS :: "('n, 'c, 'k) dnsRouter \<Rightarrow> 'k dnsEnv \<Rightarrow> ('n, 'c) resolvconfProvider \<Rightarrow> 'k \<Rightarrow>
    goError option \<times> ('n, 'c) resolvconfProvider \<times> 'k" where
  "OpenresolvUnsetDNS R E = providerUnsetDNS R openresolvName (openresolvRevert E)"

definition OpenresolvClose :: "('n, 'c, 'k) dnsRouter \<Rightarrow> 'k dnsEnv \<Rightarrow> ('n, 'c) resolvconfProvider \<Rightarrow> 'k \<Rightarrow>
    goError option \<times> ('n, 'c) resolvconfProvider \<times> 'k" where
  "OpenresolvClose R E = providerClose R (openresolvRevert E)"

end
