(* ===== verification/Dns_Safety.thy ===== *)
theory Dns_Safety
  imports Dns_Provider
begin

text \<open>
  What the providers rely on, the contract \<open>dns_world\<close> of the router and of the host, and what
  follows from it: requests are never forwarded to the managed server, and the changes to the host are taken
  back. The contract is met by a small world of lists and maps.
\<close>

section \<open>The contract\<close>

text \<open>
  What can be seen of the world: the clients attached to the router under their names, the clients
  that are open, the routing function, the files and the records of resolvconf.
\<close>

record 'c dnsWorld =
  w_backend :: "string \<Rightarrow> 'c option"
  w_live :: "'c set"
  w_route :: "dnsMessage option \<Rightarrow> string"
  w_file :: "string \<Rightarrow> string option"
  w_record :: "string \<Rightarrow> string option"

text \<open>The options of \<open>resolvconf(8)\<close> that the providers use.\<close>

fun resolvconfEffect :: "string list \<Rightarrow> string option \<Rightarrow> (string \<Rightarrow> string option) \<Rightarrow> (string \<Rightarrow> string option)" where
  "resolvconfEffect [] stdin rec = rec"
| "resolvconfEffect (a # args) stdin rec =
     (if a = ''-a'' \<and> length args = 1 then rec(args ! 0 := stdin)
      else if a = ''-d'' \<and> length args = 1 then rec(args ! 0 := None)
      else if a = ''-m'' then resolvconfEffect (tl args) stdin rec
      else if a = ''-x'' \<or> a = ''-f'' then resolvconfEffect args stdin rec
      else rec)"

text \<open>
  The URLs that a request is sent to. The invariant: an open client that is attached has the URLs
  of the signature, and these avoid the managed server.
\<close>

definition forwards :: "('c \<Rightarrow> string list) \<Rightarrow> 'c dnsWorld \<Rightarrow> dnsMessage option \<Rightarrow> string list" where
  "forwards urlsOf w msg = (case w_backend w (w_route w msg) of None \<Rightarrow> []
     | Some c \<Rightarrow> if c \<in> w_live w then urlsOf c else [])"

definition provInv :: "('c \<Rightarrow> string list) \<Rightarrow> 'c dnsWorld \<Rightarrow> ('n, 'c, 'z) dnsProvider_scheme \<Rightarrow> bool" where
  "provInv urlsOf w p \<longleftrightarrow>
     (\<forall>name c. w_backend w name = Some c \<longrightarrow> name = backendName \<and> (c \<in> w_live w \<longrightarrow> urlsOf c = dp_upstreamSig p)) \<and>
     (dp_setDNSActive p \<longrightarrow> addrIsValid (dp_setDNS p) \<and> avoids (dp_setDNS p) (dp_upstreamSig p))"

lemma errors_join_Some_ex: "\<exists>y. errors_join (Some e # es) = Some y" "\<exists>y. errors_join [errors_join (Some e # es), e2] = Some y"
  "\<exists>y. errors_join [errors_join [errors_join (Some e # es), e2], e3] = Some y"
  by (cases e2; cases e3; simp add: errors_join_def map_filter_simps split: list.split)+

lemma provInv_forwards: "provInv urlsOf w p \<Longrightarrow> dp_setDNSActive p \<Longrightarrow> avoids (dp_setDNS p) (forwards urlsOf w msg)"
  by (auto simp: provInv_def forwards_def split: option.splits)

lemma upstreamURLs_avoid: "addrIsValid a \<Longrightarrow> a \<in> set exclude \<Longrightarrow> avoids a (upstreamURLs p exclude)"
  by (simp add: upstreamURLs_def Let_def filtered_avoid)

lemma provInv_shrink:
  "provInv urlsOf w p \<Longrightarrow> w_backend w' \<subseteq>\<^sub>m w_backend w \<Longrightarrow> w_live w' \<subseteq> w_live w \<Longrightarrow> provInv urlsOf w' p"
  unfolding provInv_def map_le_def by (metis domI subsetD)

text \<open>The runs of a provider: calls of its methods in any order, and changes of the host that leave the router alone.\<close>

inductive provRun :: "('n, 'c, 'k) dnsRouter \<Rightarrow> string \<Rightarrow> (('n, 'c, 'z) dnsProvider_scheme \<Rightarrow> Addr \<Rightarrow> 'k act) \<Rightarrow>
    (('n, 'c, 'z) dnsProvider_scheme \<Rightarrow> 'k act) \<Rightarrow> ('k \<Rightarrow> 'k \<Rightarrow> bool) \<Rightarrow>
    ('n, 'c, 'z) dnsProvider_scheme \<times> 'k \<Rightarrow> ('n, 'c, 'z) dnsProvider_scheme \<times> 'k \<Rightarrow> bool"
  for R provider install revert external s where
  start: "provRun R provider install revert external s s"
| set: "provRun R provider install revert external s (p, k) \<Longrightarrow> providerSetDNS R provider install server p k = (e, p', k') \<Longrightarrow>
    provRun R provider install revert external s (p', k')"
| unset: "provRun R provider install revert external s (p, k) \<Longrightarrow> providerUnsetDNS R provider revert p k = (e, p', k') \<Longrightarrow>
    provRun R provider install revert external s (p', k')"
| close: "provRun R provider install revert external s (p, k) \<Longrightarrow> providerClose R revert p k = (e, p', k') \<Longrightarrow>
    provRun R provider install revert external s (p', k')"
| other: "provRun R provider install revert external s (p, k) \<Longrightarrow> external k k' \<Longrightarrow>
    provRun R provider install revert external s (p, k')"

text \<open>The router as others leave it.\<close>

definition routerKept :: "('k \<Rightarrow> 'c dnsWorld) \<Rightarrow> 'k \<Rightarrow> 'k \<Rightarrow> bool" where
  "routerKept view k k' \<longleftrightarrow> w_backend (view k') = w_backend (view k) \<and> w_live (view k') = w_live (view k) \<and>
     w_route (view k') = w_route (view k)"

text \<open>The files after a rollback: resolv.conf as it was, unless someone else has written it.\<close>

definition restoredFile :: "string option \<Rightarrow> (string \<Rightarrow> string option) \<Rightarrow> (string \<Rightarrow> string option)" where
  "restoredFile original f = (if \<exists>bs. f resolvConfPath = Some bs \<and> \<not> directResolvconfOwned bs then f else f(resolvConfPath := original))"

definition originalFile :: "('n, 'c) Direct \<Rightarrow> string option" where
  "originalFile d = (if dd_originalExists d then Some (dd_original d) else None)"

lemma originalFile_more: "dnsProvider.more d' = dnsProvider.more d \<Longrightarrow> originalFile d' = originalFile d"
  by (cases d; cases d') (simp add: originalFile_def)

lemma iface_more: "dnsProvider.more r' = dnsProvider.more r \<Longrightarrow> rp_iface r' = rp_iface r"
  by (cases r; cases r') simp

locale dns_router =
  fixes R :: "('n, 'c, 'k) dnsRouter" and view :: "'k \<Rightarrow> 'c dnsWorld" and urlsOf :: "'c \<Rightarrow> string list"
  assumes new_router: "view (dr_NewRouter R k) = (view k)\<lparr>w_backend := Map.empty\<rparr>"
    and new_client: "dr_NewClient R n us k = (c, k') \<Longrightarrow> urlsOf c = us \<and> c \<notin> ran (w_backend (view k)) \<and>
      view k' = (view k)\<lparr>w_live := insert c (w_live (view k))\<rparr>"
    and client_close: "dr_ClientClose R c k = (e, k') \<Longrightarrow> view k' = (view k)\<lparr>w_live := w_live (view k) - {c}\<rparr>"
    and attach: "dr_Attach R name c k = (e, k') \<Longrightarrow>
      view k' = (if e = None then (view k)\<lparr>w_backend := (w_backend (view k))(name \<mapsto> c)\<rparr> else view k)"
    and set_router: "dr_SetRouter R f k = (e, k') \<Longrightarrow> view k' = (if e = None then (view k)\<lparr>w_route := f\<rparr> else view k)"
    and detach: "dr_Detach R name k = (e, k') \<Longrightarrow>
      view k' = (if e = None then (view k)\<lparr>w_backend := (w_backend (view k))(name := None)\<rparr> else view k)"
    and close: "dr_Close R k = (e, k') \<Longrightarrow> view k' = (view k)\<lparr>w_backend := Map.empty\<rparr>"

text \<open>The host of the three providers, beside the router.\<close>

locale dns_world = dns_router R view urlsOf
  for R :: "('n, 'c, 'k) dnsRouter" and view :: "'k \<Rightarrow> 'c dnsWorld" and urlsOf :: "'c \<Rightarrow> string list" +
  fixes E :: "'k dnsEnv"
  assumes read_file: "de_ReadFile E path k = (r, k') \<Longrightarrow> view k' = view k \<and>
      (case r of Inr bs \<Rightarrow> w_file (view k) path = Some bs | Inl err \<Rightarrow> osIsNotExist err \<longrightarrow> w_file (view k) path = None)"
    and write_file: "de_WriteFile E path bs perm k = (e, k') \<Longrightarrow>
      (\<exists>c. view k' = (view k)\<lparr>w_file := (w_file (view k))(path := c)\<rparr> \<and> (e = None \<longrightarrow> c = Some bs))"
    and remove_file: "de_Remove E path k = (e, k') \<Longrightarrow>
      view k' = (view k)\<lparr>w_file := (w_file (view k))(path := if e = None then None else w_file (view k) path)\<rparr> \<and>
      (\<forall>err. e = Some err \<and> osIsNotExist err \<longrightarrow> w_file (view k) path = None)"
    and run: "de_Run E ''resolvconf'' args stdin k = (e, k') \<Longrightarrow>
      (\<exists>f rec. view k' = (view k)\<lparr>w_file := f, w_record := rec\<rparr> \<and>
        (e = None \<longrightarrow> rec = resolvconfEffect args stdin (w_record (view k))))"
begin

text \<open>What is left in the world after a refresh.\<close>

lemma refresh_view:
  assumes "refreshUpstreams R provider exclude p k = (e, p', k')"
  shows "w_file (view k') = w_file (view k) \<and> w_record (view k') = w_record (view k) \<and>
    dnsProvider.more p' = dnsProvider.more p \<and> dp_closed p' = dp_closed p \<and> dp_setDNS p' = dp_setDNS p \<and>
    dp_setDNSActive p' = dp_setDNSActive p \<and> dp_originalServers p' = dp_originalServers p \<and> dp_fallback p' = dp_fallback p"
proof -
  have w: "w_file (view (snd (dr_ClientClose R c k))) = w_file (view k)"
    "w_record (view (snd (dr_ClientClose R c k))) = w_record (view k)" for c k
    using client_close [of c k] by (cases "dr_ClientClose R c k"; simp)+
  show ?thesis using assms
    by (auto simp: refreshUpstreams_def Let_def w dest!: new_client attach set_router split: if_splits prod.splits option.splits)
qed

lemma client_close_inv: "provInv urlsOf (view k) p \<Longrightarrow> provInv urlsOf (view (snd (dr_ClientClose R c k))) p"
  by (erule provInv_shrink) (use client_close [of c k] in \<open>cases "dr_ClientClose R c k"; auto\<close>)+

lemma refresh_inv:
  assumes "refreshUpstreams R provider exclude p k = (e, p', k')" and inv: "provInv urlsOf (view k) p"
    and ex: "dp_setDNSActive p \<Longrightarrow> dp_setDNS p \<in> set exclude"
  shows "provInv urlsOf (view k') p' \<and> (e = None \<longrightarrow> dp_upstreamSig p' = upstreamURLs p exclude \<and> dp_upstreamSig p' \<noteq> [])"
proof -
  let ?urls = "upstreamURLs p exclude"
  consider (none) "?urls = []" | (same) "?urls \<noteq> []" "?urls = dp_upstreamSig p" | (new) "?urls \<noteq> []" "?urls \<noteq> dp_upstreamSig p" by blast
  then show ?thesis
  proof cases
    case new
    obtain c k1 where c: "dr_NewClient R (dp_dialNetwork p) ?urls k = (c, k1)" by force
    note v1 = new_client [OF c]
    have inv1: "provInv urlsOf (view k1) p" using inv v1 by (auto simp: provInv_def ran_def)
    obtain e2 k2 where a: "dr_Attach R backendName c k1 = (e2, k2)" by force
    note v2 = attach [OF a]
    obtain e3 k3 where r: "dr_SetRouter R (\<lambda>_. backendName) k2 = (e3, k3)" by force
    note v3 = set_router [OF r]
    let ?p = "p\<lparr>dp_client := Some c, dp_upstreamSig := ?urls\<rparr>"
    have dead: "provInv urlsOf (view (snd (dr_ClientClose R c k3))) p" if "e2 = None" "e3 \<noteq> None"
    proof -
      have "view (snd (dr_ClientClose R c k3)) = (view k3)\<lparr>w_live := w_live (view k3) - {c}\<rparr>"
        using client_close [of c k3] by (cases "dr_ClientClose R c k3") simp
      then show ?thesis using inv v1 v2 v3 that by (auto simp: provInv_def ran_def split: if_splits)
    qed
    have attached: "provInv urlsOf (view k3) ?p" if "e2 = None" "e3 = None"
      using inv v1 v2 v3 that ex upstreamURLs_avoid by (auto simp: provInv_def split: if_splits)
    show ?thesis
    proof (cases "dp_closed p")
      case True
      then show ?thesis using assms(1) new c client_close_inv [OF inv1] by (auto simp: refreshUpstreams_def Let_def)
    next
      case False
      have inv2: "provInv urlsOf (view k2) p" if "e2 \<noteq> None" using inv1 v2 that by simp
      show ?thesis
      proof (cases e2)
        case None
        then show ?thesis using assms(1) new c a r False attached dead client_close_inv
          by (cases e3) (auto simp: refreshUpstreams_def Let_def split: option.splits)
      next
        case (Some err)
        then show ?thesis using assms(1) new c a False client_close_inv [OF inv2] by (auto simp: refreshUpstreams_def Let_def)
      qed
    qed
  qed (use assms in \<open>auto simp: refreshUpstreams_def Let_def\<close>)
qed

lemma routerKept_inv: "provInv urlsOf (view k) p \<Longrightarrow> routerKept view k k' \<Longrightarrow> provInv urlsOf (view k') p"
  by (simp add: provInv_def routerKept_def)

lemma set_inv:
  assumes "providerSetDNS R provider install server p k = (e, p', k')" and inv: "provInv urlsOf (view k) p"
    and kept: "\<And>p server k e k'. install p server k = (e, k') \<Longrightarrow> routerKept view k k'"
  shows "provInv urlsOf (view k') p'"
proof (cases "addrIsValid server \<and> \<not> dp_closed p")
  case True
  let ?exclude = "[server] @ (if dp_setDNSActive p then [dp_setDNS p] else [])"
  obtain e1 p1 k1 where r: "refreshUpstreams R provider ?exclude p k = (e1, p1, k1)" by (metis prod_cases3)
  note i = refresh_inv [OF r inv]
  have i1: "provInv urlsOf (view k1) p1" and s1: "e1 = None \<longrightarrow> dp_upstreamSig p1 = upstreamURLs p ?exclude" using i by auto
  obtain e2 k2 where m: "install p1 server k1 = (e2, k2)" by force
  have i2: "provInv urlsOf (view k2) p1" using routerKept_inv [OF i1 kept [OF m]] .
  have "avoids server (upstreamURLs p ?exclude)" using True by (intro upstreamURLs_avoid) simp_all
  then have "provInv urlsOf (view k2) (p1\<lparr>dp_setDNS := server, dp_setDNSActive := True\<rparr>)" if "e1 = None"
    using i2 s1 that True by (simp add: provInv_def)
  then show ?thesis using assms(1) True r m i1 i2
    by (cases e1; cases e2) (auto simp: providerSetDNS_def Let_def split: if_splits)
qed (use assms(1,2) in \<open>auto simp: providerSetDNS_def split: if_splits\<close>)

lemma clearDNS_inv: "provInv urlsOf w p \<Longrightarrow> provInv urlsOf w (clearDNS p)"
  by (simp add: provInv_def clearDNS_def)

lemma unset_inv:
  assumes "providerUnsetDNS R provider revert p k = (e, p', k')" and inv: "provInv urlsOf (view k) p"
    and kept: "\<And>p k e k'. revert p k = (e, k') \<Longrightarrow> routerKept view k k'"
  shows "provInv urlsOf (view k') p'"
proof (cases "\<not> dp_closed p \<and> dp_setDNSActive p")
  case True
  obtain e1 k1 where m: "revert p k = (e1, k1)" by force
  obtain e2 p2 k2 where r: "refreshUpstreams R provider [dp_setDNS p] p k1 = (e2, p2, k2)" by (metis prod_cases3)
  have "provInv urlsOf (view k2) p2" using refresh_inv [OF r routerKept_inv [OF inv kept [OF m]]] by auto
  then show ?thesis using assms(1) True r m clearDNS_inv
    by (auto simp: providerUnsetDNS_def Let_def split: if_splits)
qed (use assms(1,2) in \<open>auto simp: providerUnsetDNS_def Let_def split: if_splits\<close>)

lemma close_inv:
  assumes "providerClose R revert p k = (e, p', k')" and inv: "provInv urlsOf (view k) p"
    and kept: "\<And>p k e k'. revert p k = (e, k') \<Longrightarrow> routerKept view k k'"
  shows "provInv urlsOf (view k') p'"
proof (cases "dp_closed p \<and> \<not> dp_setDNSActive p")
  case False
  let ?p = "p\<lparr>dp_closed := True, dp_client := None\<rparr>"
  obtain e1 k1 where m: "revert ?p k = (e1, k1)" by force
  obtain p2 k2 where s: "(p2, k2) = (if dp_setDNSActive p then (if e1 = None then clearDNS ?p else ?p, k1) else (?p, k))" by (metis surj_pair)
  have i: "provInv urlsOf (view k) ?p" using inv by (simp add: provInv_def)
  have "provInv urlsOf (view k2) p2"
    using s i routerKept_inv [OF i kept [OF m]] clearDNS_inv by (auto split: if_splits)
  obtain e3 k3 where c: "dr_Close R k2 = (e3, k3)" by force
  have "provInv urlsOf (view k3) p2"
    by (rule provInv_shrink [OF \<open>provInv urlsOf (view k2) p2\<close>]) (use close [OF c] in \<open>auto simp: map_le_def\<close>)
  then show ?thesis using assms(1) False m s c client_close_inv [of k3 p2 "the (dp_client p)"]
    by (cases "dp_client p"; cases "dr_ClientClose R (the (dp_client p)) k3") (auto simp: providerClose_def Let_def split: if_splits)
qed (use assms in \<open>auto simp: providerClose_def\<close>)

lemma run_inv:
  assumes "provRun R provider install revert (routerKept view) (p, k) (p', k')" and "provInv urlsOf (view k) p"
    and "\<And>p server k e k'. install p server k = (e, k') \<Longrightarrow> routerKept view k k'"
    and "\<And>p k e k'. revert p k = (e, k') \<Longrightarrow> routerKept view k k'"
  shows "provInv urlsOf (view k') p'"
  using assms(1)
proof (induction "(p', k')" arbitrary: p' k' rule: provRun.induct)
  case (set p1 k1 server e p' k')
  show ?case by (rule set_inv [OF set(3,2)]) (rule assms(3))
next
  case (unset p1 k1 e p' k')
  show ?case by (rule unset_inv [OF unset(3,2)]) (rule assms(4))
next
  case (close p1 k1 e p' k')
  show ?case by (rule close_inv [OF close(3,2)]) (rule assms(4))
qed (use assms(2) routerKept_inv in auto)

text \<open>The changes to the host leave the router alone.\<close>

lemma write_kept: "de_WriteFile E path bs perm k = (e, k') \<Longrightarrow> routerKept view k k'"
  using write_file [of path bs perm k e k'] by (auto simp: routerKept_def)

lemma resolvconf_kept: "runResolvconf E provider args stdin k = (e, k') \<Longrightarrow> routerKept view k k'"
  by (auto simp: runResolvconf_def wrapE_def routerKept_def dest!: run split: prod.splits)

lemma restoreOriginal_kept: "restoreOriginal E d k = (e, k') \<Longrightarrow> routerKept view k k'"
proof (cases "dd_originalExists d")
  case True
  assume "restoreOriginal E d k = (e, k')"
  with True show ?thesis by (auto simp: restoreOriginal_def wrapE_def dest: write_kept split: prod.splits)
next
  case False
  assume "restoreOriginal E d k = (e, k')"
  with False show ?thesis
    using remove_file [of resolvConfPath k] by (auto simp: restoreOriginal_def routerKept_def split: prod.splits option.splits)
qed

lemma direct_kept: "directInstall E d server k = (e, k') \<Longrightarrow> routerKept view k k'"
  "restoreResolvConfIfOwned E d k = (e, k') \<Longrightarrow> routerKept view k k'"
proof -
  show "directInstall E d server k = (e, k') \<Longrightarrow> routerKept view k k'"
    by (auto simp: directInstall_def wrapE_def dest: write_kept split: prod.splits)
  assume r: "restoreResolvConfIfOwned E d k = (e, k')"
  obtain rd k1 where rd: "de_ReadFile E resolvConfPath k = (rd, k1)" by force
  have v: "view k1 = view k" using read_file [OF rd] by blast
  have "k' = k1 \<or> restoreOriginal E d k1 = (e, k')"
    using r rd by (auto simp: restoreResolvConfIfOwned_def split: sum.splits if_splits)
  then show "routerKept view k k'" using v restoreOriginal_kept [of d k1 e k'] by (auto simp: routerKept_def)
qed

lemma debian_kept: "debianInstall E r server k = (e, k') \<Longrightarrow> routerKept view k k'" "debianRevert E r k = (e, k') \<Longrightarrow> routerKept view k k'"
  by (simp_all add: debianInstall_def debianRevert_def resolvconf_kept)

lemma openresolv_kept: "openresolvInstall E r server k = (e, k') \<Longrightarrow> routerKept view k k'" "openresolvRevert E r k = (e, k') \<Longrightarrow> routerKept view k k'"
  by (simp_all add: openresolvInstall_def openresolvRevert_def resolvconf_kept)

text \<open>The state after a constructor.\<close>

lemma start_forwards:
  assumes "startProvider R provider p k = (Inr p', k')" and "dp_upstreamSig p = []" and "dp_client p = None" and "\<not> dp_closed p"
  shows "forwards urlsOf (view k') msg = upstreamURLs p [] \<and> upstreamURLs p [] \<noteq> []"
proof -
  let ?urls = "upstreamURLs p []"
  have r: "refreshUpstreams R provider [] p k = (None, p', k')"
    using assms(1) by (auto simp: startProvider_def split: prod.splits option.splits)
  then have ne: "?urls \<noteq> []" using assms(2) by (auto simp: refreshUpstreams_def Let_def)
  obtain c k1 where c: "dr_NewClient R (dp_dialNetwork p) ?urls k = (c, k1)" by force
  obtain e2 k2 where a: "dr_Attach R backendName c k1 = (e2, k2)" by force
  obtain e3 k3 where s: "dr_SetRouter R (\<lambda>_. backendName) k2 = (e3, k3)" by force
  have "e2 = None \<and> e3 = None \<and> k' = k3"
    using r ne assms c a s by (auto simp: refreshUpstreams_def Let_def split: option.splits)
  then show ?thesis using ne new_client [OF c] attach [OF a] set_router [OF s] by (simp add: forwards_def)
qed

lemma start_inv:
  assumes "startProvider R provider p k = (Inr p', k')" and "w_backend (view k) = Map.empty" and "\<not> dp_setDNSActive p"
  shows "provInv urlsOf (view k') p' \<and> \<not> dp_setDNSActive p' \<and> dnsProvider.more p' = dnsProvider.more p \<and>
    w_file (view k') = w_file (view k) \<and> dp_closed p' = dp_closed p"
proof -
  have r: "refreshUpstreams R provider [] p k = (None, p', k')"
    using assms(1) by (auto simp: startProvider_def split: prod.splits option.splits)
  have "provInv urlsOf (view k) p" using assms(2,3) by (simp add: provInv_def)
  then show ?thesis using refresh_inv [OF r] refresh_view [OF r] assms(3) by auto
qed

lemma NewDirect_Inr:
  assumes "NewDirect R E l d fallback k = (Inr p, k')"
  shows "provInv urlsOf (view k') p \<and> w_file (view k') = w_file (view k) \<and>
    w_file (view k) resolvConfPath = (if dd_originalExists p then Some (dd_original p) else None) \<and> \<not> dp_setDNSActive p"
proof -
  obtain rd k1 where rd: "de_ReadFile E resolvConfPath (dr_NewRouter R k) = (rd, k1)" by force
  have v: "view k1 = (view k)\<lparr>w_backend := Map.empty\<rparr>" using read_file [OF rd] new_router [of k] by simp
  obtain servers where s: "originalServers ''direct'' rd = Inr servers"
    using assms rd by (auto simp: NewDirect_def Let_def split: option.splits sum.splits)
  let ?p = "\<lparr>dp_closed = False, dp_listenNetwork = l, dp_dialNetwork = d, dp_client = None,
    dp_fallback = fallback, dp_originalServers = servers, dp_setDNS = NoAddr, dp_setDNSActive = False, dp_upstreamSig = [],
    dd_original = (case rd of Inr bs \<Rightarrow> bs | Inl _ \<Rightarrow> ''''), dd_originalExists = (\<not> isl rd)\<rparr>"
  have st: "startProvider R ''direct'' ?p k1 = (Inr p, k')"
    using assms rd s by (auto simp: NewDirect_def Let_def split: option.splits)
  have i: "provInv urlsOf (view k') p \<and> \<not> dp_setDNSActive p \<and> dnsProvider.more p = dnsProvider.more ?p \<and> w_file (view k') = w_file (view k1)"
    using start_inv [OF st] v by simp
  then have "dd_original p = dd_original ?p" "dd_originalExists p = dd_originalExists ?p"
    by (cases p; simp)+
  moreover have "rd = Inl err \<Longrightarrow> osIsNotExist err" for err using s by (auto simp: originalServers_def split: if_splits)
  ultimately show ?thesis using i v read_file [OF rd] new_router [of k] by (auto split: sum.splits)
qed

lemma newResolvconf_Inr:
  assumes "newResolvconf R E provider l d iface fallback k = (Inr p, k')"
  shows "provInv urlsOf (view k') p \<and> \<not> dp_setDNSActive p \<and> rp_iface p = iface"
proof -
  obtain rd k1 where rd: "de_ReadFile E resolvConfPath (dr_NewRouter R k) = (rd, k1)" by force
  have v: "view k1 = (view k)\<lparr>w_backend := Map.empty\<rparr>" using read_file [OF rd] new_router [of k] by simp
  obtain servers where s: "originalServers provider rd = Inr servers"
    using assms rd by (auto simp: newResolvconf_def Let_def split: option.splits sum.splits if_splits)
  let ?p = "\<lparr>dp_closed = False, dp_listenNetwork = l, dp_dialNetwork = d, dp_client = None,
    dp_fallback = fallback, dp_originalServers = servers, dp_setDNS = NoAddr, dp_setDNSActive = False, dp_upstreamSig = [], rp_iface = iface\<rparr>"
  have st: "startProvider R provider ?p k1 = (Inr p, k')"
    using assms rd s by (auto simp: newResolvconf_def Let_def split: option.splits if_splits)
  have i: "provInv urlsOf (view k') p \<and> \<not> dp_setDNSActive p \<and> dnsProvider.more p = dnsProvider.more ?p"
    using start_inv [OF st] v by simp
  then have "rp_iface p = rp_iface ?p" by (cases p) simp
  then show ?thesis using i by simp
qed

text \<open>What a method does to the host is what installing or reverting does, and the fields of the provider's own stay.\<close>

lemma set_effect:
  assumes "providerSetDNS R provider install server p k = (e, p', k')"
  shows "dnsProvider.more p' = dnsProvider.more p"
    and "e = None \<Longrightarrow> dp_setDNSActive p' \<and> dp_setDNS p' = server \<and> (\<exists>p1 k1. dnsProvider.more p1 = dnsProvider.more p \<and>
      w_file (view k1) = w_file (view k) \<and> w_record (view k1) = w_record (view k) \<and> install p1 server k1 = (None, k'))"
proof -
  let ?exclude = "[server] @ (if dp_setDNSActive p then [dp_setDNS p] else [])"
  obtain e1 p1 k1 where r: "refreshUpstreams R provider ?exclude p k = (e1, p1, k1)" by (metis prod_cases3)
  obtain e2 k2 where m: "install p1 server k1 = (e2, k2)" by force
  note v = refresh_view [OF r]
  have "(p' = p \<or> p' = p1 \<or> p' = p1\<lparr>dp_setDNS := server, dp_setDNSActive := True\<rparr>) \<and>
     (e = None \<longrightarrow> e1 = None \<and> e2 = None \<and> p' = p1\<lparr>dp_setDNS := server, dp_setDNSActive := True\<rparr> \<and> k' = k2)"
    using assms r m by (cases e1; cases e2) (auto simp: providerSetDNS_def Let_def split: if_splits)
  then show "dnsProvider.more p' = dnsProvider.more p"
    "e = None \<Longrightarrow> dp_setDNSActive p' \<and> dp_setDNS p' = server \<and> (\<exists>p1 k1. dnsProvider.more p1 = dnsProvider.more p \<and>
      w_file (view k1) = w_file (view k) \<and> w_record (view k1) = w_record (view k) \<and> install p1 server k1 = (None, k'))"
    using v m by auto
qed

lemma unset_effect:
  assumes "providerUnsetDNS R provider revert p k = (e, p', k')"
  shows "dnsProvider.more p' = dnsProvider.more p"
    and "e = None \<Longrightarrow> dp_setDNSActive p \<Longrightarrow> \<not> dp_setDNSActive p' \<and>
      (\<exists>k1. revert p k = (None, k1) \<and> w_file (view k') = w_file (view k1) \<and> w_record (view k') = w_record (view k1))"
proof -
  obtain e1 k1 where m: "revert p k = (e1, k1)" by force
  obtain e2 p2 k2 where r: "refreshUpstreams R provider [dp_setDNS p] p k1 = (e2, p2, k2)" by (metis prod_cases3)
  note v = refresh_view [OF r]
  show "dnsProvider.more p' = dnsProvider.more p"
    using assms r m v by (auto simp: providerUnsetDNS_def clearDNS_def Let_def split: if_splits)
  have "\<not> dp_setDNSActive p' \<and> e1 = None \<and> k' = k2" if "e = None" "dp_setDNSActive p"
    using assms r m v that
    by (cases e1; cases e2) (auto simp: providerUnsetDNS_def clearDNS_def Let_def split: if_splits)
  then show "e = None \<Longrightarrow> dp_setDNSActive p \<Longrightarrow> \<not> dp_setDNSActive p' \<and>
      (\<exists>k1. revert p k = (None, k1) \<and> w_file (view k') = w_file (view k1) \<and> w_record (view k') = w_record (view k1))"
    using m v by auto
qed

lemma close_effect:
  assumes "providerClose R revert p k = (e, p', k')"
  shows "dnsProvider.more p' = dnsProvider.more p \<and> dp_closed p'"
    and "e = None \<Longrightarrow> dp_setDNSActive p \<Longrightarrow> \<not> dp_setDNSActive p' \<and> (\<exists>p1 k1. dnsProvider.more p1 = dnsProvider.more p \<and>
      revert p1 k = (None, k1) \<and> w_file (view k') = w_file (view k1) \<and> w_record (view k') = w_record (view k1))"
    and "\<not> dp_setDNSActive p \<Longrightarrow> \<not> dp_setDNSActive p' \<and> w_file (view k') = w_file (view k) \<and> w_record (view k') = w_record (view k)"
proof -
  let ?p = "p\<lparr>dp_closed := True, dp_client := None\<rparr>"
  obtain e1 k1 where m: "revert ?p k = (e1, k1)" by force
  let ?k2 = "if dp_setDNSActive p then k1 else k"
  obtain e3 k3 where c: "dr_Close R ?k2 = (e3, k3)" by force
  obtain e4 k4 where d: "dr_ClientClose R (the (dp_client p)) k3 = (e4, k4)" by force
  let ?p2 = "if dp_setDNSActive p \<and> e1 = None then clearDNS ?p else ?p"
  let ?err = "errors_join [if dp_setDNSActive p then e1 else None, e3]"
  have eq: "p' = ?p2 \<and> k' \<in> {k3, k4} \<and> (e = None \<longrightarrow> dp_setDNSActive p \<longrightarrow> e1 = None)" if "dp_setDNSActive p \<or> \<not> dp_closed p"
  proof (cases "dp_setDNSActive p")
    case True
    then show ?thesis using assms m c d
      by (cases "dp_client p"; cases e1) (auto simp: providerClose_def Let_def errors_join_Some_ex)
  next
    case False
    then show ?thesis using assms m c d that by (cases "dp_client p") (auto simp: providerClose_def Let_def)
  qed
  have same: "p' = p \<and> k' = k" if "\<not> (dp_setDNSActive p \<or> \<not> dp_closed p)"
    using assms that by (simp add: providerClose_def)
  have r: "dnsProvider.more p' = dnsProvider.more p \<and> dp_closed p' \<and> (dp_setDNSActive p \<or> \<not> dp_closed p \<longrightarrow> k' \<in> {k3, k4}) \<and>
      (\<not> dp_setDNSActive p \<and> dp_closed p \<longrightarrow> k' = k)"
    using eq same by (cases "dp_setDNSActive p \<or> \<not> dp_closed p") (auto simp: clearDNS_def)
  have a: "e = None \<Longrightarrow> dp_setDNSActive p \<Longrightarrow> \<not> dp_setDNSActive p' \<and> e1 = None" using eq by (simp add: clearDNS_def)
  have w: "w_file (view x) = w_file (view ?k2) \<and> w_record (view x) = w_record (view ?k2)" if "x \<in> {k3, k4}" for x
    using close [OF c] client_close [OF d] that by auto
  show "dnsProvider.more p' = dnsProvider.more p \<and> dp_closed p'" using r by blast
  show "e = None \<Longrightarrow> dp_setDNSActive p \<Longrightarrow> \<not> dp_setDNSActive p' \<and> (\<exists>p1 k1. dnsProvider.more p1 = dnsProvider.more p \<and>
      revert p1 k = (None, k1) \<and> w_file (view k') = w_file (view k1) \<and> w_record (view k') = w_record (view k1))"
    using a r w m by (intro conjI exI [of _ ?p] exI [of _ k1]) auto
  show "\<not> dp_setDNSActive p \<Longrightarrow> \<not> dp_setDNSActive p' \<and> w_file (view k') = w_file (view k) \<and> w_record (view k') = w_record (view k)"
    using r w eq same by (cases "dp_closed p") auto
qed

lemma run_more:
  "provRun R provider install revert external (p, k) (p', k') \<Longrightarrow> dnsProvider.more p' = dnsProvider.more p"
  by (induction "(p', k')" arbitrary: p' k' rule: provRun.induct) (auto simp: set_effect(1) unset_effect(1) close_effect(1))

lemma install_file:
  "directInstall E d server k = (None, k') \<Longrightarrow> w_file (view k') = (w_file (view k))(resolvConfPath \<mapsto> resolvconfForServer server)"
  by (auto simp: directInstall_def wrapE_None dest: write_file)

lemma restore_file:
  assumes "restoreResolvConfIfOwned E d k = (None, k')"
  shows "w_file (view k') = restoredFile (originalFile d) (w_file (view k))"
proof -
  obtain rd k1 where rd: "de_ReadFile E resolvConfPath k = (rd, k1)" by force
  note v = read_file [OF rd]
  have o: "w_file (view k') = (w_file (view k1))(resolvConfPath := originalFile d)" if r: "restoreOriginal E d k1 = (None, k')"
  proof (cases "dd_originalExists d")
    case True
    with r show ?thesis by (auto simp: restoreOriginal_def originalFile_def wrapE_None dest: write_file)
  next
    case False
    obtain e2 k2 where rm: "de_Remove E resolvConfPath k1 = (e2, k2)" by force
    show ?thesis using r False rm remove_file [OF rm]
      by (cases e2) (auto simp: restoreOriginal_def originalFile_def split: if_splits)
  qed
  show ?thesis
  proof (cases rd)
    case (Inl err)
    then show ?thesis using assms rd v o by (auto simp: restoreResolvConfIfOwned_def restoredFile_def split: if_splits)
  next
    case (Inr bs)
    then show ?thesis using assms rd v o by (auto simp: restoreResolvConfIfOwned_def restoredFile_def split: if_splits)
  qed
qed

lemma run_record:
  "runResolvconf E provider args stdin k = (None, k') \<Longrightarrow> w_record (view k') = resolvconfEffect args stdin (w_record (view k))"
  by (auto simp: runResolvconf_def wrapE_None dest!: run)

lemma debian_record:
  "debianInstall E r server k = (None, k') \<Longrightarrow> w_record (view k') = (w_record (view k))(rp_iface r \<mapsto> debianResolvconfForServer server)"
  "debianRevert E r k = (None, k') \<Longrightarrow> w_record (view k') = (w_record (view k))(rp_iface r := None)"
  by (simp_all add: debianInstall_def debianRevert_def run_record)

lemma openresolv_record:
  "openresolvInstall E r server k = (None, k') \<Longrightarrow> w_record (view k') = (w_record (view k))(rp_iface r \<mapsto> openresolvForServer server)"
  "openresolvRevert E r k = (None, k') \<Longrightarrow> w_record (view k') = (w_record (view k))(rp_iface r := None)"
  by (simp_all add: openresolvInstall_def openresolvRevert_def run_record)

text \<open>The life of a record: what successful calls leave of it.\<close>

lemma record_calls:
  assumes install: "\<And>r server k k'. install r server k = (None, k') \<Longrightarrow> w_record (view k') = (w_record (view k))(rp_iface r \<mapsto> content server)"
    and revert: "\<And>r k k'. revert r k = (None, k') \<Longrightarrow> w_record (view k') = (w_record (view k))(rp_iface r := None)"
  shows "(providerSetDNS R provider install server r k = (None, r', k') \<longrightarrow> w_record (view k') = (w_record (view k))(rp_iface r \<mapsto> content server)) \<and>
    (providerUnsetDNS R provider revert r k = (None, r', k') \<and> dp_setDNSActive r \<longrightarrow>
      w_record (view k') = (w_record (view k))(rp_iface r := None) \<and> \<not> dp_setDNSActive r') \<and>
    (providerClose R revert r k = (None, r', k') \<and> dp_setDNSActive r \<longrightarrow>
      w_record (view k') = (w_record (view k))(rp_iface r := None) \<and> \<not> dp_setDNSActive r' \<and> dp_closed r') \<and>
    (providerClose R revert r k = (None, r', k') \<and> \<not> dp_setDNSActive r \<longrightarrow> w_record (view k') = w_record (view k))"
proof (intro conjI impI; (elim conjE)?)
  assume s: "providerSetDNS R provider install server r k = (None, r', k')"
  obtain p1 k1 where "dnsProvider.more p1 = dnsProvider.more r" "w_record (view k1) = w_record (view k)" "install p1 server k1 = (None, k')"
    using set_effect(2) [OF s refl] by blast
  then show "w_record (view k') = (w_record (view k))(rp_iface r \<mapsto> content server)" using install iface_more by metis
next
  assume u: "providerUnsetDNS R provider revert r k = (None, r', k')" "dp_setDNSActive r"
  show "w_record (view k') = (w_record (view k))(rp_iface r := None)" "\<not> dp_setDNSActive r'"
    using unset_effect(2) [OF u(1) refl u(2)] revert by metis+
next
  assume c: "providerClose R revert r k = (None, r', k')" "dp_setDNSActive r"
  obtain p1 k1 where "dnsProvider.more p1 = dnsProvider.more r" "revert p1 k = (None, k1)" "w_record (view k') = w_record (view k1)"
    using close_effect(2) [OF c(1) refl c(2)] by blast
  then show "w_record (view k') = (w_record (view k))(rp_iface r := None)" using revert iface_more by metis
  show "\<not> dp_setDNSActive r'" "dp_closed r'" using close_effect(1) [OF c(1)] close_effect(2) [OF c(1) refl c(2)] by blast+
next
  assume c: "providerClose R revert r k = (None, r', k')" "\<not> dp_setDNSActive r"
  show "w_record (view k') = w_record (view k)" using close_effect(3) [OF c] by blast
qed

end

section \<open>A small world\<close>

text \<open>A client is a number and its URLs; numbers from \<open>sd_next\<close> on are free.\<close>

record simDNS =
  sd_next :: nat
  sd_world :: "(nat \<times> string list) dnsWorld"

definition simView :: "simDNS \<Rightarrow> (nat \<times> string list) dnsWorld" where
  "simView k = (sd_world k)\<lparr>w_backend := \<lambda>name. case w_backend (sd_world k) name of
     Some c \<Rightarrow> if fst c < sd_next k then Some c else None | None \<Rightarrow> None\<rparr>"

definition simDNSRouter :: "(unit, nat \<times> string list, simDNS) dnsRouter" where
  "simDNSRouter = \<lparr>dr_ErrClosed = ErrorsNew ''closed'',
     dr_NewRouter = (\<lambda>k. k\<lparr>sd_world := (simView k)\<lparr>w_backend := Map.empty\<rparr>\<rparr>),
     dr_NewClient = (\<lambda>n us k. ((sd_next k, us), k\<lparr>sd_next := Suc (sd_next k),
        sd_world := (simView k)\<lparr>w_live := insert (sd_next k, us) (w_live (simView k))\<rparr>\<rparr>)),
     dr_ClientClose = (\<lambda>c k. (None, k\<lparr>sd_world := (simView k)\<lparr>w_live := w_live (simView k) - {c}\<rparr>\<rparr>)),
     dr_Attach = (\<lambda>name c k. (None, k\<lparr>sd_next := max (sd_next k) (Suc (fst c)),
        sd_world := (simView k)\<lparr>w_backend := (w_backend (simView k))(name \<mapsto> c)\<rparr>\<rparr>)),
     dr_SetRouter = (\<lambda>f k. (None, k\<lparr>sd_world := (simView k)\<lparr>w_route := f\<rparr>\<rparr>)),
     dr_Detach = (\<lambda>name k. (None, k\<lparr>sd_world := (simView k)\<lparr>w_backend := (w_backend (simView k))(name := None)\<rparr>\<rparr>)),
     dr_Close = (\<lambda>k. (None, k\<lparr>sd_world := (simView k)\<lparr>w_backend := Map.empty\<rparr>\<rparr>))\<rparr>"

definition simDNSEnv :: "simDNS dnsEnv" where
  "simDNSEnv = \<lparr>de_ReadFile = (\<lambda>path k. (case w_file (simView k) path of Some bs \<Rightarrow> Inr bs | None \<Rightarrow> Inl (Errno 2), k)),
     de_WriteFile = (\<lambda>path bs perm k. (None, k\<lparr>sd_world := (simView k)\<lparr>w_file := (w_file (simView k))(path \<mapsto> bs)\<rparr>\<rparr>)),
     de_Remove = (\<lambda>path k. (None, k\<lparr>sd_world := (simView k)\<lparr>w_file := (w_file (simView k))(path := None)\<rparr>\<rparr>)),
     de_Run = (\<lambda>name args stdin k. (None, k\<lparr>sd_world := (simView k)\<lparr>w_record := resolvconfEffect args stdin (w_record (simView k))\<rparr>\<rparr>))\<rparr>"

lemma simView_world:
  "\<forall>name c. w_backend w name = Some c \<longrightarrow> fst c < n \<Longrightarrow> simView \<lparr>sd_next = n, sd_world = w\<rparr> = w"
proof -
  assume "\<forall>name c. w_backend w name = Some c \<longrightarrow> fst c < n"
  then have "(\<lambda>name. case w_backend w name of Some c \<Rightarrow> if fst c < n then Some c else None | None \<Rightarrow> None) = w_backend w"
    by (auto simp: fun_eq_iff split: option.split)
  then show ?thesis unfolding simView_def simDNS.select_convs by simp
qed

lemma simView_ids: "w_backend (simView k) name = Some (i, us) \<Longrightarrow> i < sd_next k"
  by (auto simp: simView_def split: option.splits if_splits)

lemma simDNS_update: "k\<lparr>sd_world := w\<rparr> = \<lparr>sd_next = sd_next k, sd_world = w\<rparr>" "k\<lparr>sd_next := n, sd_world := w\<rparr> = \<lparr>sd_next = n, sd_world = w\<rparr>"
  by simp_all

lemmas simDNS_simps = simDNSRouter_def simDNSEnv_def simDNS_update

interpretation simDNSWorld: dns_world simDNSRouter simView snd simDNSEnv
proof
  fix k k' :: simDNS and n us c e
  assume "dr_NewClient simDNSRouter n us k = (c, k')"
  then show "snd c = us \<and> c \<notin> ran (w_backend (simView k)) \<and> simView k' = (simView k)\<lparr>w_live := insert c (w_live (simView k))\<rparr>"
    by (auto simp: simDNS_simps ran_def less_Suc_eq dest: simView_ids intro!: simView_world)
next
  fix k k' :: simDNS and name c e
  assume "dr_Attach simDNSRouter name c k = (e, k')"
  then show "simView k' = (if e = None then (simView k)\<lparr>w_backend := (w_backend (simView k))(name \<mapsto> c)\<rparr> else simView k)"
    by (auto simp: simDNS_simps less_max_iff_disj dest: simView_ids intro!: simView_world split: if_splits)
next
  fix k k' :: simDNS and args stdin e
  assume r: "de_Run simDNSEnv ''resolvconf'' args stdin k = (e, k')"
  let ?rec = "resolvconfEffect args stdin (w_record (simView k))"
  have "simView k' = (simView k)\<lparr>w_file := w_file (simView k), w_record := ?rec\<rparr>"
    using r by (auto simp: simDNS_simps dest: simView_ids intro!: simView_world)
  then show "\<exists>f rec. simView k' = (simView k)\<lparr>w_file := f, w_record := rec\<rparr> \<and> (e = None \<longrightarrow> rec = ?rec)" by blast
qed (auto simp: simDNS_simps osIsNotExist_def intro!: simView_world dest: simView_ids split: option.splits if_splits)

section \<open>Properties\<close>

text \<open>
  C34: Requests are never forwarded to the managed server. Whatever calls of \<open>SetDNS\<close>, \<open>UnsetDNS\<close> and \<open>Close\<close> follow the
  construction of one of the three providers, in whatever order, with whatever results and with any
  changes of the host in between: while a server is installed, no request is sent to a URL with its address, on any port.
\<close>

theorem dns_never_loops:
  assumes "dns_world R view urlsOf E"
  shows "(NewDirect R E l d fallback k0 = (Inr d0, k1) \<longrightarrow>
      provRun R ''direct'' (directInstall E) (restoreResolvConfIfOwned E) (routerKept view) (d0, k1) (dp, k) \<longrightarrow>
      dp_setDNSActive dp \<longrightarrow> avoids (dp_setDNS dp) (forwards urlsOf (view k) msg)) \<and>
    (NewDebianResolvconf R E l d iface fallback k0 = (Inr r0, k1) \<longrightarrow>
      provRun R debianName (debianInstall E) (debianRevert E) (routerKept view) (r0, k1) (r, k) \<longrightarrow>
      dp_setDNSActive r \<longrightarrow> avoids (dp_setDNS r) (forwards urlsOf (view k) msg)) \<and>
    (NewOpenresolv R E l d iface fallback k0 = (Inr r0, k1) \<longrightarrow>
      provRun R openresolvName (openresolvInstall E) (openresolvRevert E) (routerKept view) (r0, k1) (r, k) \<longrightarrow>
      dp_setDNSActive r \<longrightarrow> avoids (dp_setDNS r) (forwards urlsOf (view k) msg))"
proof -
  note W = assms
  have "provInv urlsOf (view k) dp"
    if "NewDirect R E l d fallback k0 = (Inr d0, k1)"
      "provRun R ''direct'' (directInstall E) (restoreResolvConfIfOwned E) (routerKept view) (d0, k1) (dp, k)"
    using dns_world.run_inv [OF W that(2)] dns_world.NewDirect_Inr [OF W that(1)] dns_world.direct_kept [OF W] by blast
  moreover have "provInv urlsOf (view k) r"
    if "newResolvconf R E debianName l d iface fallback k0 = (Inr r0, k1)"
      "provRun R debianName (debianInstall E) (debianRevert E) (routerKept view) (r0, k1) (r, k)"
    using dns_world.run_inv [OF W that(2)] dns_world.newResolvconf_Inr [OF W that(1)] dns_world.debian_kept [OF W] by blast
  moreover have "provInv urlsOf (view k) r"
    if "newResolvconf R E openresolvName l d iface fallback k0 = (Inr r0, k1)"
      "provRun R openresolvName (openresolvInstall E) (openresolvRevert E) (routerKept view) (r0, k1) (r, k)"
    using dns_world.run_inv [OF W that(2)] dns_world.newResolvconf_Inr [OF W that(1)] dns_world.openresolv_kept [OF W] by blast
  ultimately show ?thesis unfolding NewDebianResolvconf_def NewOpenresolv_def by (blast intro: provInv_forwards)
qed

text \<open>A host with two nameservers, one of which is then installed as the managed server.\<close>

definition sampleHost :: simDNS where
  "sampleHost = \<lparr>sd_next = 0, sd_world = \<lparr>w_backend = Map.empty, w_live = {}, w_route = (\<lambda>_. ''''),
     w_file = [resolvConfPath \<mapsto> ''nameserver 10.0.0.1'' @ [nl] @ ''nameserver 10.0.0.2'' @ [nl]], w_record = Map.empty\<rparr>\<rparr>"

definition managedAddr :: Addr where
  "managedAddr = Addr4 0x0A000001"

definition sampleDirect :: "(unit, nat \<times> string list) Direct \<times> simDNS" where
  "sampleDirect = (case NewDirect simDNSRouter simDNSEnv (Some ()) (Some ()) [] sampleHost of (r, k) \<Rightarrow> (projr r, k))"

definition sampleSet :: "goError option \<times> (unit, nat \<times> string list) Direct \<times> simDNS" where
  "sampleSet = DirectSetDNS simDNSRouter simDNSEnv managedAddr (fst sampleDirect) (snd sampleDirect)"

lemma sampleDirect_new: "NewDirect simDNSRouter simDNSEnv (Some ()) (Some ()) [] sampleHost = (Inr (fst sampleDirect), snd sampleDirect)"
proof -
  have "\<not> isl (fst (NewDirect simDNSRouter simDNSEnv (Some ()) (Some ()) [] sampleHost))" by code_simp
  then show ?thesis by (cases "NewDirect simDNSRouter simDNSEnv (Some ()) (Some ()) [] sampleHost") (auto simp: sampleDirect_def)
qed

text \<open>Nothing fails in the small world.\<close>

lemma sim_set_ok:
  "addrIsValid server \<Longrightarrow> \<not> dp_closed p \<Longrightarrow> \<not> dp_setDNSActive p \<Longrightarrow> upstreamURLs p [server] \<noteq> [] \<Longrightarrow>
    (\<And>p k. fst (install p server k) = None) \<Longrightarrow> fst (providerSetDNS simDNSRouter provider install server p k) = None"
  by (auto simp: providerSetDNS_def refreshUpstreams_def simDNSRouter_def Let_def split: prod.splits option.splits)
    (metis fst_conv option.distinct(1))+

lemma sampleDirect_fields: "\<not> dp_closed (fst sampleDirect)" "\<not> dp_setDNSActive (fst sampleDirect)" "upstreamURLs (fst sampleDirect) [managedAddr] \<noteq> []"
  by code_simp+

lemma sampleSet_eq: "DirectSetDNS simDNSRouter simDNSEnv managedAddr (fst sampleDirect) (snd sampleDirect) = (None, fst (snd sampleSet), snd (snd sampleSet))"
proof -
  have "fst (DirectSetDNS simDNSRouter simDNSEnv managedAddr (fst sampleDirect) (snd sampleDirect)) = None"
    unfolding DirectSetDNS_def
    by (rule sim_set_ok) (use sampleDirect_fields in \<open>simp_all add: managedAddr_def directInstall_def wrapE_def simDNSEnv_def\<close>)
  then show ?thesis unfolding sampleSet_def by (simp add: prod_eq_iff)
qed

theorem dns_never_loops_witness: "avoids managedAddr (forwards snd (simView (snd (snd sampleSet))) None)"
proof -
  note s = sampleSet_eq [unfolded DirectSetDNS_def]
  have e: "dp_setDNSActive (fst (snd sampleSet)) \<and> dp_setDNS (fst (snd sampleSet)) = managedAddr"
    using simDNSWorld.set_effect(2) [OF s refl] by simp
  have "provRun simDNSRouter ''direct'' (directInstall simDNSEnv) (restoreResolvConfIfOwned simDNSEnv) (routerKept simView)
      (fst sampleDirect, snd sampleDirect) (fst (snd sampleSet), snd (snd sampleSet))"
    using provRun.set [OF provRun.start s] .
  then show ?thesis using dns_never_loops [OF simDNSWorld.dns_world_axioms] sampleDirect_new e by metis
qed

text \<open>
  C37: \<open>Direct\<close> takes back what it did to \<open>/etc/resolv.conf\<close>. In every state that calls of its methods and changes
  by others lead to: a successful \<open>SetDNS\<close> leaves a file that names the server and is recognised as the provider's; a successful
  \<open>UnsetDNS\<close> or \<open>Close\<close> of an installed server leaves the file as it was before the provider was made, the absence of the file
  included, if the current file is the provider's or gone, and leaves it alone if someone else has written it.
  Without an installed server, and on every other file, nothing changes.
\<close>

theorem direct_restores:
  fixes R :: "('n, 'c, 'k) dnsRouter"
  assumes "dns_world R view urlsOf E" and "NewDirect R E l d fallback k0 = (Inr d0, k1)"
    and "provRun R ''direct'' (directInstall E) (restoreResolvConfIfOwned E) external (d0, k1) (p, k)"
  shows "(DirectSetDNS R E server p k = (None, p', k') \<longrightarrow> dp_setDNSActive p' \<and> directResolvconfOwned (resolvconfForServer server) \<and>
      w_file (view k') = (w_file (view k))(resolvConfPath \<mapsto> resolvconfForServer server)) \<and>
    (DirectUnsetDNS R E p k = (None, p', k') \<longrightarrow> \<not> dp_setDNSActive p' \<and> w_file (view k') =
      (if dp_setDNSActive p then restoredFile (w_file (view k0) resolvConfPath) (w_file (view k)) else w_file (view k))) \<and>
    (DirectClose R E p k = (None, p', k') \<longrightarrow> \<not> dp_setDNSActive p' \<and> dp_closed p' \<and> w_file (view k') =
      (if dp_setDNSActive p then restoredFile (w_file (view k0) resolvConfPath) (w_file (view k)) else w_file (view k)))"
proof (intro conjI impI)
  note W = assms(1)
  have o: "originalFile p' = w_file (view k0) resolvConfPath" if "dnsProvider.more p' = dnsProvider.more p" for p'
    using originalFile_more [OF that] originalFile_more [OF dns_world.run_more [OF W assms(3)]] dns_world.NewDirect_Inr [OF W assms(2)]
    by (simp add: originalFile_def)
  { assume s: "DirectSetDNS R E server p k = (None, p', k')"
    show "w_file (view k') = (w_file (view k))(resolvConfPath \<mapsto> resolvconfForServer server)" "dp_setDNSActive p'"
      using dns_world.set_effect(2) [OF W s [unfolded DirectSetDNS_def] refl] dns_world.install_file [OF W] by metis+
    show "directResolvconfOwned (resolvconfForServer server)"
      unfolding directResolvconfOwned_def resolvconfForServer_def Write_def strContains_iff
      by (rule exI [of _ "''# resolv.conf(5) file ''"]) simp }
  { assume u: "DirectUnsetDNS R E p k = (None, p', k')"
    note u' = u [unfolded DirectUnsetDNS_def]
    have "dp_setDNSActive p \<Longrightarrow> \<not> dp_setDNSActive p' \<and> w_file (view k') = restoredFile (originalFile p) (w_file (view k))"
      using dns_world.unset_effect(2) [OF W u' refl] dns_world.restore_file [OF W] by metis
    moreover have "\<not> dp_setDNSActive p \<Longrightarrow> p' = p \<and> k' = k" using u' by (auto simp: providerUnsetDNS_def split: if_splits)
    ultimately show "\<not> dp_setDNSActive p'"
      "w_file (view k') = (if dp_setDNSActive p then restoredFile (w_file (view k0) resolvConfPath) (w_file (view k)) else w_file (view k))"
      using o [OF refl] by (cases "dp_setDNSActive p"; simp)+ }
  { assume c: "DirectClose R E p k = (None, p', k')"
    note c' = c [unfolded DirectClose_def]
    have "dp_setDNSActive p \<Longrightarrow> \<not> dp_setDNSActive p' \<and> w_file (view k') = restoredFile (originalFile p) (w_file (view k))"
    proof -
      assume "dp_setDNSActive p"
      from dns_world.close_effect(2) [OF W c' refl this]
      obtain p1 :: "('n, 'c) Direct" and k2 where "dnsProvider.more p1 = dnsProvider.more p" "restoreResolvConfIfOwned E p1 k = (None, k2)"
        "w_file (view k') = w_file (view k2)" "\<not> dp_setDNSActive p'" by blast
      then show ?thesis using dns_world.restore_file [OF W, of p1 k k2] originalFile_more [of p1 p] by simp
    qed
    moreover have "\<not> dp_setDNSActive p \<Longrightarrow> \<not> dp_setDNSActive p' \<and> w_file (view k') = w_file (view k)"
      using dns_world.close_effect(3) [OF W c'] by blast
    ultimately show "\<not> dp_setDNSActive p'"
      "w_file (view k') = (if dp_setDNSActive p then restoredFile (w_file (view k0) resolvConfPath) (w_file (view k)) else w_file (view k))"
      using o [OF refl] by (cases "dp_setDNSActive p"; simp)+
    show "dp_closed p'" using dns_world.close_effect(1) [OF W c'] by blast }
qed

lemma sim_unset_ok:
  assumes "\<not> dp_closed p" and "upstreamURLs p [dp_setDNS p] \<noteq> []" and "\<And>k. fst (revert p k) = None"
  shows "fst (providerUnsetDNS simDNSRouter provider revert p k) = None"
proof -
  obtain k1 where r: "revert p k = (None, k1)" using assms(3) [of k] by (metis prod.collapse)
  have "fst (refreshUpstreams simDNSRouter provider [dp_setDNS p] p k1) = None"
    using assms(1,2) by (auto simp: refreshUpstreams_def simDNSRouter_def Let_def)
  then show ?thesis using r assms(1) by (auto simp: providerUnsetDNS_def Let_def split: prod.splits option.splits)
qed

lemma sampleSet_fields:
  "\<not> dp_closed (fst (snd sampleSet))" "upstreamURLs (fst (snd sampleSet)) [managedAddr] \<noteq> []"
  "dp_setDNSActive (fst (snd sampleSet))" "dp_setDNS (fst (snd sampleSet)) = managedAddr"
proof -
  note s = sampleSet_eq [unfolded DirectSetDNS_def]
  show "dp_setDNSActive (fst (snd sampleSet))" "dp_setDNS (fst (snd sampleSet)) = managedAddr"
    using simDNSWorld.set_effect(2) [OF s refl] by simp_all
  have "\<exists>p1 k1. refreshUpstreams simDNSRouter ''direct'' [managedAddr] (fst sampleDirect) (snd sampleDirect) = (None, p1, k1) \<and>
      fst (snd sampleSet) = p1\<lparr>dp_setDNS := managedAddr, dp_setDNSActive := True\<rparr>"
    using s sampleDirect_fields
    by (auto simp: providerSetDNS_def Let_def split: prod.splits option.splits if_splits) (metis fst_conv)
  then obtain p1 k1 where r: "refreshUpstreams simDNSRouter ''direct'' [managedAddr] (fst sampleDirect) (snd sampleDirect) = (None, p1, k1)"
    and p: "fst (snd sampleSet) = p1\<lparr>dp_setDNS := managedAddr, dp_setDNSActive := True\<rparr>" by blast
  note v = simDNSWorld.refresh_view [OF r]
  then show "\<not> dp_closed (fst (snd sampleSet))" using p sampleDirect_fields by simp
  have "upstreamURLs (fst (snd sampleSet)) [managedAddr] = upstreamURLs (fst sampleDirect) [managedAddr]"
    using p v by (simp add: upstreamURLs_def Let_def)
  then show "upstreamURLs (fst (snd sampleSet)) [managedAddr] \<noteq> []" using sampleDirect_fields by simp
qed

theorem direct_restores_witness:
  "\<exists>p' k'. DirectUnsetDNS simDNSRouter simDNSEnv (fst (snd sampleSet)) (snd (snd sampleSet)) = (None, p', k') \<and>
     w_file (simView k') resolvConfPath = w_file (simView sampleHost) resolvConfPath \<and> \<not> dp_setDNSActive p'"
proof -
  let ?u = "DirectUnsetDNS simDNSRouter simDNSEnv (fst (snd sampleSet)) (snd (snd sampleSet))"
  have "fst (restoreResolvConfIfOwned simDNSEnv p k) = None" for p :: "(unit, nat \<times> string list) Direct" and k
    by (auto simp: restoreResolvConfIfOwned_def restoreOriginal_def wrapE_def simDNSEnv_def osIsNotExist_def split: option.splits)
  then have "fst ?u = None"
    unfolding DirectUnsetDNS_def by (intro sim_unset_ok) (use sampleSet_fields in simp_all)
  then obtain p' k' where u: "?u = (None, p', k')" by (metis prod.collapse)
  have run: "provRun simDNSRouter ''direct'' (directInstall simDNSEnv) (restoreResolvConfIfOwned simDNSEnv) (\<lambda>_ _. False)
      (fst sampleDirect, snd sampleDirect) (fst (snd sampleSet), snd (snd sampleSet))"
    using provRun.set [OF provRun.start sampleSet_eq [unfolded DirectSetDNS_def]] .
  have run0: "provRun simDNSRouter ''direct'' (directInstall simDNSEnv) (restoreResolvConfIfOwned simDNSEnv) (\<lambda>_ _. False)
      (fst sampleDirect, snd sampleDirect) (fst sampleDirect, snd sampleDirect)" by (rule provRun.start)
  note D = direct_restores [OF simDNSWorld.dns_world_axioms sampleDirect_new]
  have f: "w_file (simView (snd (snd sampleSet))) resolvConfPath = Some (resolvconfForServer managedAddr)"
    "directResolvconfOwned (resolvconfForServer managedAddr)"
    using D [OF run0, THEN conjunct1, rule_format, OF sampleSet_eq] by simp_all
  have w: "\<not> dp_setDNSActive p' \<and> w_file (simView k') =
      restoredFile (w_file (simView sampleHost) resolvConfPath) (w_file (simView (snd (snd sampleSet))))"
    using D [OF run, THEN conjunct2, THEN conjunct1, rule_format, OF u] sampleSet_fields(3) by simp
  then show ?thesis using u f by (intro exI [of _ p'] exI [of _ k']) (simp add: restoredFile_def)
qed

text \<open>
  The providers for resolvconf own one record. A successful \<open>SetDNS\<close> leaves the record of the provider's interface with the text
  for the server, a successful \<open>UnsetDNS\<close> or \<open>Close\<close> of an installed server removes it, and the records of
  other interfaces stay as they are, for both flavours of the program.
\<close>

theorem resolvconf_record:
  assumes "dns_world R view urlsOf E" and "newResolvconf R E provider l d iface fallback k0 = (Inr r0, k1)"
    and "provRun R provider install revert external (r0, k1) (r, k)"
  shows "(DebianSetDNS R E server r k = (None, r', k') \<longrightarrow> w_record (view k') = (w_record (view k))(iface \<mapsto> debianResolvconfForServer server)) \<and>
    (DebianUnsetDNS R E r k = (None, r', k') \<and> dp_setDNSActive r \<longrightarrow>
      w_record (view k') = (w_record (view k))(iface := None) \<and> \<not> dp_setDNSActive r') \<and>
    (DebianClose R E r k = (None, r', k') \<longrightarrow>
      w_record (view k') = (if dp_setDNSActive r then (w_record (view k))(iface := None) else w_record (view k))) \<and>
    (OpenresolvSetDNS R E server r k = (None, r', k') \<longrightarrow> w_record (view k') = (w_record (view k))(iface \<mapsto> openresolvForServer server)) \<and>
    (OpenresolvUnsetDNS R E r k = (None, r', k') \<and> dp_setDNSActive r \<longrightarrow>
      w_record (view k') = (w_record (view k))(iface := None) \<and> \<not> dp_setDNSActive r') \<and>
    (OpenresolvClose R E r k = (None, r', k') \<longrightarrow>
      w_record (view k') = (if dp_setDNSActive r then (w_record (view k))(iface := None) else w_record (view k)))"
proof -
  note W = assms(1)
  have "rp_iface r = iface"
    using iface_more [OF dns_world.run_more [OF W assms(3)]] dns_world.newResolvconf_Inr [OF W assms(2)] by simp
  moreover note dns_world.record_calls [OF W dns_world.debian_record(1) [OF W] dns_world.debian_record(2) [OF W], where provider = debianName and server = server and r = r and k = k and r' = r' and k' = k']
    dns_world.record_calls [OF W dns_world.openresolv_record(1) [OF W] dns_world.openresolv_record(2) [OF W], where provider = openresolvName and server = server and r = r and k = k and r' = r' and k' = k']
  ultimately show ?thesis
    unfolding DebianSetDNS_def DebianUnsetDNS_def DebianClose_def OpenresolvSetDNS_def OpenresolvUnsetDNS_def OpenresolvClose_def
    by (cases "dp_setDNSActive r") auto
qed

definition sampleDebian :: "(unit, nat \<times> string list) resolvconfProvider \<times> simDNS" where
  "sampleDebian = (case NewDebianResolvconf simDNSRouter simDNSEnv (Some ()) (Some ()) ''sysnet'' [] sampleHost of (r, k) \<Rightarrow> (projr r, k))"

theorem resolvconf_record_witness:
  "\<exists>r' k'. DebianSetDNS simDNSRouter simDNSEnv managedAddr (fst sampleDebian) (snd sampleDebian) = (None, r', k') \<and>
     w_record (simView k') ''sysnet'' = Some (debianResolvconfForServer managedAddr)"
proof -
  let ?n = "NewDebianResolvconf simDNSRouter simDNSEnv (Some ()) (Some ()) ''sysnet'' [] sampleHost"
  let ?s = "DebianSetDNS simDNSRouter simDNSEnv managedAddr (fst sampleDebian) (snd sampleDebian)"
  have "\<not> isl (fst ?n)" by code_simp
  then have n: "newResolvconf simDNSRouter simDNSEnv debianName (Some ()) (Some ()) ''sysnet'' [] sampleHost = (Inr (fst sampleDebian), snd sampleDebian)"
    unfolding sampleDebian_def NewDebianResolvconf_def [symmetric] by (cases ?n) auto
  have "\<not> dp_closed (fst sampleDebian)" "\<not> dp_setDNSActive (fst sampleDebian)" "upstreamURLs (fst sampleDebian) [managedAddr] \<noteq> []"
    by code_simp+
  then have "fst ?s = None"
    unfolding DebianSetDNS_def
    by (intro sim_set_ok) (simp_all add: managedAddr_def debianInstall_def runResolvconf_def wrapE_def simDNSEnv_def)
  then obtain r' k' where s: "?s = (None, r', k')" by (metis prod.collapse)
  have run: "provRun simDNSRouter debianName (debianInstall simDNSEnv) (debianRevert simDNSEnv) (\<lambda>_ _. False)
      (fst sampleDebian, snd sampleDebian) (fst sampleDebian, snd sampleDebian)" by (rule provRun.start)
  show ?thesis using s resolvconf_record [OF simDNSWorld.dns_world_axioms n run, THEN conjunct1, rule_format, OF s] by simp
qed

end
