(* ===== verification/Dns_Network.thy ===== *)
theory Dns_Network
  imports Dns_Servers
begin

text \<open>
  The dialing of upstream servers, \<open>dns/network.go\<close>, with \<open>net.SplitHostPort\<close>, \<open>net.JoinHostPort\<close> and \<open>strconv.Atoi\<close>. The
  network that dials and the offline table of port names belong to the package gonnect and are arguments.
\<close>

section \<open>Host and port\<close>

definition lastIndexByte :: "string \<Rightarrow> char \<Rightarrow> int" where
  "lastIndexByte s c = (if c \<in> set s then int (length s - 1 - length (takeWhile (\<lambda>d. d \<noteq> c) (rev s))) else -1)"

definition indexByte :: "string \<Rightarrow> char \<Rightarrow> int" where
  "indexByte s c = (if c \<in> set s then int (length (takeWhile (\<lambda>d. d \<noteq> c) s)) else -1)"

definition addrErr :: "string \<Rightarrow> string \<Rightarrow> goError" where
  "addrErr addr why = Errorf ''address %s: %s'' [AStr addr, AStr why] []"

definition splitHostPort :: "string \<Rightarrow> goError + (string \<times> string)" where
  "splitHostPort hp =
     (let i = lastIndexByte hp (CHR '':'') in
      if i < 0 then Inl (addrErr hp ''missing port in address'')
      else if hd hp = CHR ''['' then
        let rb = indexByte hp (CHR '']'') in
        if rb < 0 then Inl (addrErr hp ''missing \"]\" in address'')
        else if rb + 1 = int (length hp) then Inl (addrErr hp ''missing port in address'')
        else if rb + 1 \<noteq> i then
          Inl (addrErr hp (if hp ! nat (rb + 1) = CHR '':'' then ''too many colons in address'' else ''missing port in address''))
        else if CHR ''['' \<in> set (drop 1 hp) then Inl (addrErr hp ''unexpected \"[\" in address'')
        else if CHR '']'' \<in> set (drop (nat (rb + 1)) hp) then Inl (addrErr hp ''unexpected \"]\" in address'')
        else Inr (take (nat (rb - 1)) (drop 1 hp), drop (nat (i + 1)) hp)
      else let host = take (nat i) hp in
        if CHR '':'' \<in> set host then Inl (addrErr hp ''too many colons in address'')
        else if CHR ''['' \<in> set hp then Inl (addrErr hp ''unexpected \"[\" in address'')
        else if CHR '']'' \<in> set hp then Inl (addrErr hp ''unexpected \"]\" in address'')
        else Inr (host, drop (nat (i + 1)) hp))"

definition joinHostPort :: "string \<Rightarrow> string \<Rightarrow> string" where
  "joinHostPort host port = (if CHR '':'' \<in> set host then ''['' @ host @ '']:'' @ port else host @ '':'' @ port)"

text \<open>\<open>strconv.Atoi\<close>: an optional sign and decimal digits within 64 bits.\<close>

definition atoi :: "string \<Rightarrow> goError + int" where
  "atoi s =
     (if s = [] then Inl ErrSyntax
      else let neg = hd s = CHR ''-''; ds = (if hd s = CHR ''-'' \<or> hd s = CHR ''+'' then tl s else s) in
        if ds = [] then Inl ErrSyntax
        else case parse_digits (if neg then 2 ^ 63 else 2 ^ 63 - 1) 0 ds of Inl err \<Rightarrow> Inl err
          | Inr n \<Rightarrow> Inr (if neg then - int n else int n))"

section \<open>Dialing\<close>

definition errRecursive :: goError where
  "errRecursive = ErrorsNew ''recursive resolver call''"

definition resolveDialAddr :: "(string \<Rightarrow> string \<Rightarrow> goError + int) \<Rightarrow> string \<Rightarrow> string \<Rightarrow> string \<Rightarrow> goError + string" where
  "resolveDialAddr lookupPortOffline dialNetwork host port =
     (case parseAddr host of
        Inr addr \<Rightarrow> Inr (joinHostPort (addrString addr) port)
      | Inl _ \<Rightarrow>
          (case atoi port of
             Inl _ \<Rightarrow> (case lookupPortOffline dialNetwork port of Inl lookupErr \<Rightarrow> Inl lookupErr | Inr _ \<Rightarrow> Inl errRecursive)
           | Inr _ \<Rightarrow> Inl errRecursive))"

text \<open>The dial function of a client, over the \<open>Dial\<close> method of a network.\<close>

definition upstreamDNSDial :: "(string \<Rightarrow> string \<Rightarrow> goError + int) \<Rightarrow> (string \<Rightarrow> string \<Rightarrow> ('k, 'conn) query) \<Rightarrow>
    string \<Rightarrow> string \<Rightarrow> ('k, 'conn) query" where
  "upstreamDNSDial lookupPortOffline dial dialNetwork address k =
     (case splitHostPort address of Inl err \<Rightarrow> (Inl err, k)
      | Inr (host, port) \<Rightarrow> (case resolveDialAddr lookupPortOffline dialNetwork host port of Inl err \<Rightarrow> (Inl err, k)
         | Inr addr \<Rightarrow> dial dialNetwork addr k))"

section \<open>Splitting what was printed\<close>

lemma lastIndexByte_append: "c \<notin> set t \<Longrightarrow> lastIndexByte (s @ c # t) c = int (length s)"
proof -
  assume "c \<notin> set t"
  then have "takeWhile (\<lambda>d. d \<noteq> c) (rev (s @ c # t)) = rev t" by (simp add: takeWhile_append2 takeWhile_append)
  then show ?thesis by (simp add: lastIndexByte_def)
qed

lemma indexByte_append: "c \<notin> set s \<Longrightarrow> indexByte (s @ c # t) c = int (length s)"
proof -
  assume "c \<notin> set s"
  then have "takeWhile (\<lambda>d. d \<noteq> c) (s @ c # t) = s" by (simp add: takeWhile_append2 takeWhile_append)
  then show ?thesis by (simp add: indexByte_def)
qed

lemma split_plain:
  assumes "CHR '':'' \<notin> set host" "CHR ''['' \<notin> set host" "CHR '']'' \<notin> set host" "host \<noteq> []"
    and "CHR '':'' \<notin> set port" "CHR ''['' \<notin> set port" "CHR '']'' \<notin> set port"
  shows "splitHostPort (host @ CHR '':'' # port) = Inr (host, port)"
proof -
  have "hd (host @ CHR '':'' # port) \<noteq> CHR ''[''" using assms(2,4) by (cases host) auto
  moreover have "nat (int (length host) + 1) = Suc (length host)" by simp
  ultimately show ?thesis using assms by (simp add: splitHostPort_def lastIndexByte_append Let_def)
qed

lemma split_bracketed:
  assumes "CHR ''['' \<notin> set host" "CHR '']'' \<notin> set host"
    and "CHR '':'' \<notin> set port" "CHR ''['' \<notin> set port" "CHR '']'' \<notin> set port"
  shows "splitHostPort (''['' @ host @ '']:'' @ port) = Inr (host, port)"
proof -
  let ?hp = "''['' @ host @ '']:'' @ port"
  have "?hp = (CHR ''['' # host @ [CHR '']'']) @ CHR '':'' # port" by simp
  then have i: "lastIndexByte ?hp (CHR '':'') = int (length host) + 2"
    using lastIndexByte_append [OF assms(3), of "CHR ''['' # host @ [CHR '']'']"] by simp
  have "?hp = (CHR ''['' # host) @ CHR '']'' # CHR '':'' # port" by simp
  then have j: "indexByte ?hp (CHR '']'') = int (length host) + 1"
    using indexByte_append [of "CHR '']''" "CHR ''['' # host" "CHR '':'' # port"] assms(2) by simp
  have d: "nat (int (length host) + 1 + 1) = Suc (Suc (length host))" "nat (int (length host) + 2 + 1) = Suc (Suc (Suc (length host)))" by simp_all
  show ?thesis using assms unfolding splitHostPort_def Let_def i j d by simp
qed

section \<open>Texts of addresses\<close>

lemma digits_plain2:
  assumes "2 \<le> b" "b \<le> 16" "0 \<le> n" "c \<in> set (formatInt b n)"
  shows "c \<notin> {CHR ''['', CHR '']''}"
proof -
  obtain d where "int d < b" "c = digit_char d" using formatInt_digits assms by blast
  moreover from this assms(2) have "(of_char (digit_char d) :: nat) \<noteq> 91 \<and> (of_char (digit_char d) :: nat) \<noteq> 93"
    by (auto simp: digit_char_def)
  ultimately show ?thesis by auto
qed

lemma portString_plain: "CHR '':'' \<notin> set (portString p)" "CHR ''['' \<notin> set (portString p)" "CHR '']'' \<notin> set (portString p)"
  using portString_noColon digits_plain2 [of 10 "uint p"] by (auto simp: portString_def)

lemma string4_plain2: "CHR '':'' \<notin> set (string4 w)" "CHR ''['' \<notin> set (string4 w)" "CHR '']'' \<notin> set (string4 w)"
proof -
  have s: "c = CHR ''.'' \<or> (\<exists>g. 0 \<le> g \<and> c \<in> set (formatInt 10 g))" if "c \<in> set (string4 w)" for c
  proof -
    have "c \<in> insert (CHR ''.'') (\<Union>x \<in> set (map (formatInt 10) (groupsOf 256 4 (uint w))). set x)"
      using that set_joinByte unfolding string4_def by blast
    then show ?thesis using groupsOf_range [of 256 _ 4 "uint w"] by force
  qed
  show "CHR '':'' \<notin> set (string4 w)" using s [of "CHR '':''"] digits_plain [of 10] by auto
  show "CHR ''['' \<notin> set (string4 w)" "CHR '']'' \<notin> set (string4 w)"
    using s [of "CHR ''[''"] s [of "CHR '']''"] digits_plain2 [of 10] by auto
qed

lemma hexes_plain2: "groups_ok gs \<Longrightarrow> c \<in> set (hexes gs) \<Longrightarrow> c \<notin> {CHR ''['', CHR '']''}"
proof -
  assume gs: "groups_ok gs" and "c \<in> set (hexes gs)"
  then have "c \<in> insert (CHR '':'') (\<Union>x \<in> set (map (formatInt 16) gs). set x)" using set_joinByte by blast
  then consider "c = CHR '':''" | g where "g \<in> set gs" "c \<in> set (formatInt 16 g)" by auto
  then show ?thesis
  proof cases
    case 2
    then have "0 \<le> g" using gs by (auto simp: groups_ok_def)
    then show ?thesis using digits_plain2 [OF _ _ _ 2(2)] by simp
  qed simp
qed

lemma string6_plain2: "CHR ''['' \<notin> set (string6 w)" "CHR '']'' \<notin> set (string6 w)"
proof -
  have gs: "groups_ok (groupsOf 65536 8 (uint w))" by (rule groups_ok_of)
  have h: "CHR ''['' \<notin> set (hexes gs) \<and> CHR '']'' \<notin> set (hexes gs)" if "groups_ok gs" for gs
    using hexes_plain2 [OF that] by blast
  show "CHR ''['' \<notin> set (string6 w)" "CHR '']'' \<notin> set (string6 w)"
    using h [OF gs] h [OF groups_ok_sub(1) [OF gs]] h [OF groups_ok_sub(2) [OF gs]]
    by (simp_all add: string6_def Let_def take_map drop_map split: option.splits)
qed

lemma addrString6_text:
  assumes "CHR ''['' \<notin> set z" "CHR '']'' \<notin> set z"
  shows "CHR '':'' \<in> set (addrString (Addr6 w z))" "CHR ''['' \<notin> set (addrString (Addr6 w z))" "CHR '']'' \<notin> set (addrString (Addr6 w z))"
proof -
  obtain pre rest where "string6 w = pre @ CHR '':'' # rest" using colonFirst_string6 [of w] unfolding colonFirst_def by blast
  then show "CHR '':'' \<in> set (addrString (Addr6 w z))" by simp
  show "CHR ''['' \<notin> set (addrString (Addr6 w z))" "CHR '']'' \<notin> set (addrString (Addr6 w z))"
    using assms string6_plain2 string4_plain2 by simp_all
qed

lemma split_apString:
  assumes "apIsValid s" and "CHR ''['' \<notin> set (addrZone (apAddr s))" and "CHR '']'' \<notin> set (addrZone (apAddr s))"
  shows "splitHostPort (apString s) = Inr (addrString (apAddr s), portString (apPort s))"
    and "joinHostPort (addrString (apAddr s)) (portString (apPort s)) = apString s"
proof -
  show "splitHostPort (apString s) = Inr (addrString (apAddr s), portString (apPort s))"
  proof (cases "apAddr s")
    case (Addr4 w)
    obtain f rest where "string4 w = formatInt 10 f @ CHR ''.'' # rest" using string4_start by blast
    then have "string4 w \<noteq> []" by simp
    then show ?thesis using Addr4 split_plain [OF string4_plain2 _ portString_plain] by (simp add: apString_def)
  next
    case (Addr6 w z)
    then show ?thesis using split_bracketed [OF addrString6_text(2,3) portString_plain] assms by (simp add: apString_def)
  qed (use assms in \<open>simp add: apIsValid_def\<close>)
  show "joinHostPort (addrString (apAddr s)) (portString (apPort s)) = apString s"
  proof (cases "apAddr s")
    case (Addr6 w z)
    then show ?thesis using addrString6_text(1) [of z w] assms by (simp add: joinHostPort_def apString_def)
  qed (use assms string4_plain2 in \<open>simp_all add: apIsValid_def joinHostPort_def apString_def\<close>)
qed

section \<open>Properties\<close>

text \<open>
  Dialing an upstream server never needs a resolver. The host and port of every URL that a provider gives to its
  client are dialed as they are, for servers of both families and with zones that have no brackets; any
  other address is dialed only if its host is the text of an IP address, and otherwise the call ends with an error
  before the network is used.
\<close>

theorem upstream_dial_exact:
  assumes "apIsValid s" and "CHR ''['' \<notin> set (addrZone (apAddr s))" and "CHR '']'' \<notin> set (addrZone (apAddr s))"
  shows "upstreamDNSDial lookupPort dial net (apString s) k = dial net (apString s) k \<and>
    ((\<exists>host port a. splitHostPort address = Inr (host, port) \<and> parseAddr host = Inr a \<and>
        upstreamDNSDial lookupPort dial net address k = dial net (joinHostPort (addrString a) port) k) \<or>
     (\<exists>err. upstreamDNSDial lookupPort dial net address k = (Inl err, k)))"
proof (intro conjI)
  have "parseAddr (addrString (apAddr s)) = Inr (apAddr s)"
    using assms(1) by (intro parse_addrString) (auto simp: apIsValid_def)
  then show "upstreamDNSDial lookupPort dial net (apString s) k = dial net (apString s) k"
    using split_apString [OF assms] by (simp add: upstreamDNSDial_def resolveDialAddr_def)
  show "(\<exists>host port a. splitHostPort address = Inr (host, port) \<and> parseAddr host = Inr a \<and>
      upstreamDNSDial lookupPort dial net address k = dial net (joinHostPort (addrString a) port) k) \<or>
    (\<exists>err. upstreamDNSDial lookupPort dial net address k = (Inl err, k))"
    by (auto simp: upstreamDNSDial_def resolveDialAddr_def split: sum.splits)
qed

theorem upstream_dial_exact_witness:
  "upstreamDNSDial (\<lambda>_ _. Inl ErrSyntax) (\<lambda>net addr k. (Inr addr, k)) ''udp'' (apString (AddrPort (Addr6 1 ''eth0'') 53)) () =
     (Inr ''[::1%eth0]:53'', ())"
proof -
  have a: "apString (AddrPort (Addr6 1 ''eth0'') 53) = ''[::1%eth0]:53''" by code_simp
  show ?thesis
    using upstream_dial_exact [of "AddrPort (Addr6 1 ''eth0'') 53" "\<lambda>_ _. Inl ErrSyntax" "\<lambda>net addr k. (Inr addr, k)" "''udp''" "()", THEN conjunct1]
    by (simp add: a apIsValid_def)
qed

end
