(* ===== verification/Dns_Mode.thy ===== *)
theory Dns_Mode
  imports Dns_Provider
begin

text \<open>
  The choice of the DNS provider, \<open>DnsMode\<close> of \<open>dns/dns.go\<close>, with the detection of the owner of resolv.conf and of the
  use of systemd-resolved, and the probes of \<open>dns/resolvconf.go\<close> and \<open>dns/networkmanager.go\<close>. D-Bus, programs and files are
  parameters; log calls are left out, and with them the property of systemd-resolved that is read only for the log.
\<close>

section \<open>The owner of resolv.conf\<close>

fun ownerLines :: "string \<Rightarrow> string list \<Rightarrow> string" where
  "ownerLines likely [] = likely"
| "ownerLines likely (l # ls) =
     (let line = trimSpace l in
      if line = '''' then ownerLines likely ls
      else if line ! 0 \<noteq> CHR ''#'' then likely
      else if strContains line ''systemd-resolved'' then ownerLines ''systemd-resolved'' ls
      else if strContains line ''NetworkManager'' then ownerLines ''NetworkManager'' ls
      else if strContains line ''resolvconf'' then ownerLines ''resolvconf'' ls
      else ownerLines likely ls)"

definition ResolvOwner :: "string \<Rightarrow> string" where
  "ResolvOwner bs = ownerLines '''' (splitByte nl bs)"

section \<open>The use of systemd-resolved\<close>

definition SysdResolver :: Addr where
  "SysdResolver = Addr4 0x7F000035"

text \<open>The modules of one line: the verdict, if the loop returns.\<close>

fun nssModules :: "string list \<Rightarrow> goError option option" where
  "nssModules [] = None"
| "nssModules (module # ms) =
     (if module = ''dns'' then Some (Some (ErrorsNew ''dns with a higher priority than libnss_resolve''))
      else if module = ''resolve'' then Some None
      else nssModules ms)"

fun nssLines :: "string list \<Rightarrow> goError option" where
  "nssLines [] = Some (ErrorsNew ''libnss_resolve not used'')"
| "nssLines (line # ls) =
     (let fs = strFields line in
      if length fs < 2 \<or> fs ! 0 \<noteq> ''hosts:'' then nssLines ls
      else case nssModules (drop 1 fs) of Some r \<Rightarrow> r | None \<Rightarrow> nssLines ls)"

definition IsLibnssResolveUsed :: "('k, 'z) dnsEnv_scheme \<Rightarrow> 'k act" where
  "IsLibnssResolveUsed E k = (case de_ReadFile E ''/etc/nsswitch.conf'' k of
     (Inl err, k) \<Rightarrow> (Some (Errorf ''reading /etc/nsswitch.conf: %w'' [] [err]), k)
   | (Inr bs, k) \<Rightarrow> (nssLines (splitByte nl bs), k))"

definition onlySysdResolver :: "Addr list \<Rightarrow> goError option" where
  "onlySysdResolver nameservers =
     (if length nameservers = 0 then Some (ErrorsNew ''resolv.conf has no nameservers'')
      else if list_ex (\<lambda>ns. ns \<noteq> SysdResolver) nameservers then
        Some (Errorf (''resolv.conf doesn'' @ [CHR 0x27] @ ''t point to systemd-resolved; points to %v'') (map (\<lambda>ns. AStr (addrString ns)) nameservers) [])
      else None)"

definition ResolvedIsActuallyResolver :: "('k, 'z) dnsEnv_scheme \<Rightarrow> string \<Rightarrow> 'k act" where
  "ResolvedIsActuallyResolver E bs k = (case IsLibnssResolveUsed E k of
     (None, k) \<Rightarrow> (None, k)
   | (Some _, k) \<Rightarrow> (case Parse bs None of Inl err \<Rightarrow> (Some err, k)
       | Inr cfg \<Rightarrow> (onlySysdResolver (rc_Nameservers cfg), k)))"

section \<open>The mode\<close>

record 'k modeEnv = "'k dnsEnv" +
  me_DbusPing :: "string \<Rightarrow> string \<Rightarrow> 'k act"
  me_ResolvconfStyle :: "'k \<Rightarrow> string \<times> 'k"
  me_NmIsUsingResolved :: "'k act"

text \<open>The branches of the owners \<open>resolvconf\<close> and \<open>NetworkManager\<close>.\<close>

definition resolvconfMode :: "string \<Rightarrow> string" where
  "resolvconfMode style = (if style = '''' then ''direct'' else if style = ''debian'' then ''debian-resolvconf''
     else if style = ''openresolv'' then ''openresolv'' else ''direct'')"

definition networkManagerMode :: "'k modeEnv \<Rightarrow> string \<Rightarrow> 'k \<Rightarrow> string \<times> 'k" where
  "networkManagerMode E bs k = (case ResolvedIsActuallyResolver E bs k of
     (Some _, k) \<Rightarrow> (''direct'', k)
   | (None, k) \<Rightarrow> (case me_DbusPing E ''org.freedesktop.NetworkManager'' ''/org/freedesktop/NetworkManager/DnsManager'' k of
       (Some _, k) \<Rightarrow> (''systemd-resolved'', k)
     | (None, k) \<Rightarrow> (case me_NmIsUsingResolved E k of (Some _, k) \<Rightarrow> (''direct'', k) | (None, k) \<Rightarrow> (''systemd-resolved'', k))))"

definition DnsMode :: "'k modeEnv \<Rightarrow> ('k, string) query" where
  "DnsMode E k =
     (let k = snd (me_DbusPing E ''org.freedesktop.resolve1'' ''/org/freedesktop/resolve1'' k) in
      case de_ReadFile E resolvConfPath k of
        (Inl err, k) \<Rightarrow> if osIsNotExist err then (Inr ''direct'', k)
          else (Inl (Errorf ''reading /etc/resolv.conf: %w'' [] [err]), k)
      | (Inr bs, k) \<Rightarrow>
          let typ = ResolvOwner bs in
          if typ = ''systemd-resolved'' then
            (case ResolvedIsActuallyResolver E bs k of (Some _, k) \<Rightarrow> (Inr ''direct'', k) | (None, k) \<Rightarrow> (Inr ''systemd-resolved'', k))
          else if typ = ''resolvconf'' then
            (case me_ResolvconfStyle E k of (style, k) \<Rightarrow> (Inr (resolvconfMode style), k))
          else if typ = ''NetworkManager'' then
            (case networkManagerMode E bs k of (mode, k) \<Rightarrow> (Inr mode, k))
          else (Inr ''direct'', k))"

section \<open>Probes\<close>

text \<open>
  \<open>exec.LookPath\<close> and \<open>CombinedOutput\<close> of \<open>resolvconf --version\<close>, with the exit code of an \<open>ExitError\<close>; the mode property
  of NetworkManager, a string or the name of another type.
\<close>

datatype execError = ExitError int | OtherExecError goError

record 'k probeOS =
  po_LookPath :: "string \<Rightarrow> ('k, string) query"
  po_CombinedOutput :: "string \<Rightarrow> string list \<Rightarrow> 'k \<Rightarrow> string \<times> execError option \<times> 'k"
  po_SystemBus :: "'k act"
  po_NMMode :: "('k, string + string) query"

definition ResolvconfStyle :: "'k probeOS \<Rightarrow> 'k \<Rightarrow> string \<times> 'k" where
  "ResolvconfStyle P k = (case po_LookPath P ''resolvconf'' k of
     (Inl _, k) \<Rightarrow> ('''', k)
   | (Inr _, k) \<Rightarrow> (case po_CombinedOutput P ''resolvconf'' [''--version''] k of (output, err, k) \<Rightarrow>
       if err = Some (ExitError 99) then (''debian'', k)
       else if hasPrefix output ''Debian resolvconf'' then (''debian'', k)
       else (''openresolv'', k)))"

definition NmIsUsingResolved :: "'k probeOS \<Rightarrow> 'k act" where
  "NmIsUsingResolved P k = (case po_SystemBus P k of
     (Some err, k) \<Rightarrow> (Some err, k)
   | (None, k) \<Rightarrow> (case po_NMMode P k of
       (Inl err, k) \<Rightarrow> (Some (Errorf ''getting NM mode: %w'' [] [err]), k)
     | (Inr (Inl typ), k) \<Rightarrow> (Some (Errorf ''unexpected type %T for NM DNS mode'' [AStr typ] []), k)
     | (Inr (Inr mode), k) \<Rightarrow> (if mode \<noteq> ''systemd-resolved'' then
           Some (ErrorsNew ''NetworkManager is not using systemd-resolved for DNS'') else None, k)))"

section \<open>Reference definitions\<close>

text \<open>
  The comment lines at the start of a file, blank lines left out; the owner that a line names; the
  owner of the file is the one named last.
\<close>

definition leadingComments :: "string list \<Rightarrow> string list" where
  "leadingComments ls = takeWhile (\<lambda>l. hd l = CHR ''#'') (filter (\<lambda>l. l \<noteq> '''') (map trimSpace ls))"

definition namedOwner :: "string \<Rightarrow> string option" where
  "namedOwner l = (if strContains l ''systemd-resolved'' then Some ''systemd-resolved''
     else if strContains l ''NetworkManager'' then Some ''NetworkManager''
     else if strContains l ''resolvconf'' then Some ''resolvconf'' else None)"

definition refOwner :: "string \<Rightarrow> string" where
  "refOwner bs = (case List.map_filter namedOwner (leadingComments (splitByte nl bs)) of [] \<Rightarrow> '''' | os \<Rightarrow> last os)"

lemma ownerLines_ref:
  "ownerLines likely ls = (case List.map_filter namedOwner (leadingComments ls) of [] \<Rightarrow> likely | os \<Rightarrow> last os)"
proof (induction ls arbitrary: likely)
  case Nil
  show ?case by (simp add: leadingComments_def map_filter_simps)
next
  case (Cons l ls)
  let ?line = "trimSpace l"
  let ?os = "List.map_filter namedOwner (leadingComments ls)"
  consider (blank) "?line = ''''" | (stop) "?line \<noteq> ''''" "hd ?line \<noteq> CHR ''#''" | (comment) "?line \<noteq> ''''" "hd ?line = CHR ''#''" by blast
  then show ?case
  proof cases
    case blank
    then show ?thesis using Cons.IH by (simp add: leadingComments_def Let_def)
  next
    case stop
    then show ?thesis by (simp add: leadingComments_def Let_def hd_conv_nth map_filter_simps)
  next
    case comment
    have "ownerLines likely (l # ls) = ownerLines (case namedOwner ?line of None \<Rightarrow> likely | Some o1 \<Rightarrow> o1) ls"
      using comment by (simp add: namedOwner_def Let_def hd_conv_nth)
    moreover have "List.map_filter namedOwner (leadingComments (l # ls)) = (case namedOwner ?line of None \<Rightarrow> ?os | Some o1 \<Rightarrow> o1 # ?os)"
      using comment by (simp add: leadingComments_def map_filter_simps split: option.split)
    ultimately show ?thesis using Cons.IH by (auto split: option.split list.split)
  qed
qed

text \<open>libnss\_resolve is used when a hosts line has it and no module of that or an earlier hosts line is a dns module before it.\<close>

definition hostsModules :: "string list \<Rightarrow> string list" where
  "hostsModules ls = concat (map (\<lambda>l. drop 1 (strFields l)) (filter (\<lambda>l. length (strFields l) \<ge> 2 \<and> strFields l ! 0 = ''hosts:'') ls))"

definition resolveFirst :: "string list \<Rightarrow> bool" where
  "resolveFirst ms \<longleftrightarrow> ''resolve'' \<in> set ms \<and> ''dns'' \<notin> set (takeWhile (\<lambda>m. m \<noteq> ''resolve'') ms)"

lemma resolveFirst_Cons: "resolveFirst (m # ms) \<longleftrightarrow> m = ''resolve'' \<or> m \<noteq> ''dns'' \<and> resolveFirst ms"
  by (auto simp: resolveFirst_def)

lemma nssModules_append:
  "resolveFirst (ms @ rest) \<longleftrightarrow> (case nssModules ms of Some r \<Rightarrow> r = None | None \<Rightarrow> resolveFirst rest)"
  by (induction ms) (auto simp: resolveFirst_Cons)

lemma nssLines_ref: "nssLines ls = None \<longleftrightarrow> resolveFirst (hostsModules ls)"
proof (induction ls)
  case Nil
  show ?case by (simp add: hostsModules_def resolveFirst_def)
next
  case (Cons l ls)
  show ?case
  proof (cases "length (strFields l) \<ge> 2 \<and> strFields l ! 0 = ''hosts:''")
    case True
    then have "hostsModules (l # ls) = drop 1 (strFields l) @ hostsModules ls" by (simp add: hostsModules_def)
    then have "resolveFirst (hostsModules (l # ls)) \<longleftrightarrow> (case nssModules (drop 1 (strFields l)) of Some r \<Rightarrow> r = None | None \<Rightarrow> nssLines ls = None)"
      using nssModules_append [of "drop 1 (strFields l)" "hostsModules ls"] Cons.IH by (simp split: option.split)
    then show ?thesis using True by (simp add: Let_def split: option.split)
  next
    case False
    then have "hostsModules (l # ls) = hostsModules ls" by (auto simp: hostsModules_def)
    moreover have "nssLines (l # ls) = nssLines ls" using False by (auto simp: Let_def)
    ultimately show ?thesis using Cons.IH by simp
  qed
qed

definition usesResolved :: "goError + string \<Rightarrow> string \<Rightarrow> bool" where
  "usesResolved nsswitch bs \<longleftrightarrow> (\<exists>nss. nsswitch = Inr nss \<and> resolveFirst (hostsModules (splitByte nl nss))) \<or>
     (\<exists>cfg. Parse bs None = Inr cfg \<and> set (rc_Nameservers cfg) = {SysdResolver})"

lemma onlySysdResolver_iff: "onlySysdResolver ns = None \<longleftrightarrow> set ns = {SysdResolver}"
  by (cases ns) (auto simp: onlySysdResolver_def list_ex_iff)

lemma resolver_iff:
  "fst (ResolvedIsActuallyResolver E bs k) = None \<longleftrightarrow> usesResolved (fst (de_ReadFile E ''/etc/nsswitch.conf'' k)) bs"
proof -
  obtain r k1 where r: "de_ReadFile E ''/etc/nsswitch.conf'' k = (r, k1)" by force
  have i: "fst (IsLibnssResolveUsed E k) = None \<longleftrightarrow> (\<exists>nss. r = Inr nss \<and> resolveFirst (hostsModules (splitByte nl nss)))"
    using r by (cases r) (auto simp: IsLibnssResolveUsed_def nssLines_ref)
  obtain v k2 where v: "IsLibnssResolveUsed E k = (v, k2)" by force
  show ?thesis
    using i v r by (cases v; cases "Parse bs None") (auto simp: ResolvedIsActuallyResolver_def usesResolved_def onlySysdResolver_iff)
qed

section \<open>Properties\<close>


definition sampleModeEnv :: "unit modeEnv" where
  "sampleModeEnv = \<lparr>de_ReadFile = (\<lambda>path k. (if path = resolvConfPath
       then Inr (''# This file is managed by man:systemd-resolved(8). Do not edit.'' @ [nl] @ ''nameserver 127.0.0.53'' @ [nl])
       else Inl (Errno 2), k)),
     de_WriteFile = (\<lambda>_ _ _ k. (None, k)), de_Remove = (\<lambda>_ k. (None, k)), de_Run = (\<lambda>_ _ _ k. (None, k)),
     me_DbusPing = (\<lambda>_ _ k. (None, k)), me_ResolvconfStyle = (\<lambda>k. ('''', k)), me_NmIsUsingResolved = (\<lambda>k. (None, k))\<rparr>"


end
