(* ===== verification/Dns_Routes.thy ===== *)
theory Dns_Routes
  imports Dns_Provider
begin

text \<open>
  The routing of requests to the upstream servers of systemd-resolved: the route builder and the routing
  function of \<open>dns/resolved.go\<close>. Letters beyond ASCII are not lower-cased.
\<close>

section \<open>Domains\<close>

record resolvedGlobalDomain =
  rg_IfIndex :: int
  rg_Domain :: string
  rg_RoutingOnly :: bool

record resolvedLinkDomain =
  rl_Domain :: string
  rl_RoutingOnly :: bool

definition normalizeResolvedDomain :: "string \<Rightarrow> string" where
  "normalizeResolvedDomain domain0 =
     (let domain = trimSpace (trimPrefix domain0 ''~'') in
      if domain = '''' \<or> domain = ''.'' then ''.''
      else trimSuffix (map tolower domain) ''.'' @ ''.'')"

definition linkDomainRoutes :: "resolvedLinkDomain list \<Rightarrow> string list" where
  "linkDomainRoutes domains = map (\<lambda>domain. normalizeResolvedDomain (rl_Domain domain)) domains"

definition globalDomainRoutes :: "resolvedGlobalDomain list \<Rightarrow> string list" where
  "globalDomainRoutes domains = map (\<lambda>domain. normalizeResolvedDomain (rg_Domain domain)) domains"

definition globalDomainsAsLinkDomains :: "resolvedGlobalDomain list \<Rightarrow> resolvedLinkDomain list" where
  "globalDomainsAsLinkDomains domains = map (\<lambda>d. \<lparr>rl_Domain = rg_Domain d, rl_RoutingOnly = rg_RoutingOnly d\<rparr>) domains"

section \<open>The route builder\<close>

record resolvedUpstreamRoute =
  ur_name :: string
  ur_domains :: "string list"
  ur_urls :: "string list"

record resolvedRouteInput =
  ri_domains :: "string list"
  ri_servers :: "AddrPort list"

type_synonym resolvedRouteBuilder = "resolvedRouteInput list"

definition builderAdd :: "AddrPort list \<Rightarrow> string list \<Rightarrow> resolvedRouteBuilder \<Rightarrow> resolvedRouteBuilder" where
  "builderAdd servers domains b =
     (let servers = dedupeServers servers in
      if length servers = 0 then b
      else let domains = (if length domains = 0 then [''.''] else domains) in
        b @ [\<lparr>ri_domains = dedupeStrings domains, ri_servers = servers\<rparr>])"

definition addLink :: "AddrPort list \<Rightarrow> resolvedLinkDomain list \<Rightarrow> resolvedRouteBuilder \<Rightarrow> resolvedRouteBuilder" where
  "addLink servers domains = builderAdd servers (linkDomainRoutes domains)"

definition addGlobal :: "AddrPort list \<Rightarrow> resolvedGlobalDomain list \<Rightarrow> resolvedRouteBuilder \<Rightarrow> resolvedRouteBuilder" where
  "addGlobal servers domains = builderAdd servers (globalDomainRoutes domains)"

definition addDefault :: "AddrPort list \<Rightarrow> resolvedRouteBuilder \<Rightarrow> resolvedRouteBuilder" where
  "addDefault servers = builderAdd servers [''.'']"

definition routeName :: "nat \<Rightarrow> string" where
  "routeName i = ''default-'' @ formatInt 10 (int i)"

definition joinComma :: "string list \<Rightarrow> string" where
  "joinComma ss = joinByte CHR '','' ss"

definition routeSignature :: "resolvedUpstreamRoute \<Rightarrow> string" where
  "routeSignature route = ur_name route @ ''|'' @ joinComma (ur_domains route) @ ''|'' @ joinComma (ur_urls route)"

text \<open>The loop of \<open>config\<close>, from the input with index \<open>i\<close> on: the routes and the signature.\<close>

fun builderConfigFrom :: "nat \<Rightarrow> resolvedRouteInput list \<Rightarrow> resolvedUpstreamRoute list \<times> string list" where
  "builderConfigFrom i [] = ([], [])"
| "builderConfigFrom i (input # inputs) =
     (let urls = serverURLs (ri_servers input); (routes, signature) = builderConfigFrom (i + 1) inputs in
      if length urls = 0 then (routes, signature)
      else let route = \<lparr>ur_name = routeName i, ur_domains = ri_domains input, ur_urls = urls\<rparr> in
        (route # routes, routeSignature route # signature))"

definition builderConfig :: "resolvedRouteBuilder \<Rightarrow> resolvedUpstreamRoute list \<times> string list" where
  "builderConfig b = builderConfigFrom 0 b"

section \<open>The routing function\<close>

definition resolvedQuestionName :: "dnsMessage option \<Rightarrow> string" where
  "resolvedQuestionName msg = (case msg of None \<Rightarrow> ''.''
     | Some m \<Rightarrow> if length (dm_Questions m) = 0 then ''.'' else normalizeResolvedDomain (dm_Questions m ! 0))"

definition dnsNameMatchesDomain :: "string \<Rightarrow> string \<Rightarrow> bool" where
  "dnsNameMatchesDomain name domain \<longleftrightarrow> name = domain \<or> hasSuffix name (''.'' @ domain)"

definition domainLength :: "string \<Rightarrow> int" where
  "domainLength domain = (if domain = ''.'' then 0 else int (length domain))"

definition domainCovers :: "string \<Rightarrow> string \<Rightarrow> bool" where
  "domainCovers name domain \<longleftrightarrow> domain = ''.'' \<or> dnsNameMatchesDomain name domain"

definition routeDomain :: "string \<Rightarrow> string \<Rightarrow> string \<times> int \<Rightarrow> string \<Rightarrow> string \<times> int" where
  "routeDomain name rname best domain =
     (if domainCovers name domain \<and> domainLength domain > snd best then (rname, domainLength domain) else best)"

definition routeBest :: "string \<Rightarrow> string \<times> int \<Rightarrow> resolvedUpstreamRoute \<Rightarrow> string \<times> int" where
  "routeBest name best route = foldl (routeDomain name (ur_name route)) best (ur_domains route)"

definition resolvedRouteFunc :: "resolvedUpstreamRoute list \<Rightarrow> dnsMessage option \<Rightarrow> string" where
  "resolvedRouteFunc routes msg = fst (foldl (routeBest (resolvedQuestionName msg)) ('''', -1) routes)"

section \<open>The longest domain wins\<close>

text \<open>The domains of the routes that cover a name, with the names of their routes, in order.\<close>

definition candidates :: "string \<Rightarrow> resolvedUpstreamRoute list \<Rightarrow> (string \<times> string) list" where
  "candidates name routes = filter (\<lambda>(r, d). domainCovers name d) (concat (map (\<lambda>route. map (\<lambda>d. (ur_name route, d)) (ur_domains route)) routes))"

lemma route_flat:
  "foldl (routeBest name) best routes =
     foldl (\<lambda>best (r, d). routeDomain name r best d) best (concat (map (\<lambda>route. map (\<lambda>d. (ur_name route, d)) (ur_domains route)) routes))"
proof (induction routes arbitrary: best)
  case (Cons route routes)
  have "foldl (\<lambda>best (r, d). routeDomain name r best d) best (map (\<lambda>d. (ur_name route, d)) ds) = foldl (routeDomain name (ur_name route)) best ds" for ds best
    by (induction ds arbitrary: best) simp_all
  then show ?case using Cons.IH by (simp add: routeBest_def)
qed simp

lemma fold_candidates:
  "foldl (\<lambda>best (r, d). routeDomain name r best d) best rds =
   foldl (\<lambda>best (r, d). if domainLength d > snd best then (r, domainLength d) else best) best (filter (\<lambda>(r, d). domainCovers name d) rds)"
  by (induction rds arbitrary: best) (auto simp: routeDomain_def)

lemma domainLength_nonneg [simp]: "0 \<le> domainLength d"
  by (simp add: domainLength_def)

text \<open>A fold that keeps the first of the longest.\<close>

lemma fold_longest:
  fixes best :: "string \<times> int"
  defines "step \<equiv> \<lambda>best (r, d). if domainLength d > snd best then (r, domainLength d) else best"
  shows "foldl step best rds = best \<and> (\<forall>rd \<in> set rds. domainLength (snd rd) \<le> snd best) \<or>
    (\<exists>pre r d post. rds = pre @ (r, d) # post \<and> foldl step best rds = (r, domainLength d) \<and> domainLength d > snd best \<and>
      (\<forall>rd \<in> set pre. domainLength (snd rd) < domainLength d) \<and> (\<forall>rd \<in> set post. domainLength (snd rd) \<le> domainLength d))"
proof (induction rds rule: rev_induct)
  case (snoc rd rds)
  obtain r d where rd: "rd = (r, d)" by force
  show ?case
  proof (cases "domainLength d > snd (foldl step best rds)")
    case True
    then have f: "foldl step best (rds @ [rd]) = (r, domainLength d)" by (simp add: rd step_def)
    have "\<forall>x \<in> set rds. domainLength (snd x) < domainLength d" and "domainLength d > snd best"
      using snoc True by fastforce+
    then show ?thesis using f rd by (intro disjI2 exI [of _ rds] exI [of _ r] exI [of _ d] exI [of _ "[]"]) simp
  next
    case False
    then have f: "foldl step best (rds @ [rd]) = foldl step best rds" by (simp add: rd step_def)
    from snoc show ?thesis
    proof
      assume "foldl step best rds = best \<and> (\<forall>rd \<in> set rds. domainLength (snd rd) \<le> snd best)"
      then show ?thesis using f False rd by (intro disjI1) auto
    next
      assume "\<exists>pre r d post. rds = pre @ (r, d) # post \<and> foldl step best rds = (r, domainLength d) \<and> domainLength d > snd best \<and>
        (\<forall>rd \<in> set pre. domainLength (snd rd) < domainLength d) \<and> (\<forall>rd \<in> set post. domainLength (snd rd) \<le> domainLength d)"
      then obtain pre r' d' post where p: "rds = pre @ (r', d') # post" "foldl step best rds = (r', domainLength d')" "domainLength d' > snd best"
        "\<forall>rd \<in> set pre. domainLength (snd rd) < domainLength d'" "\<forall>rd \<in> set post. domainLength (snd rd) \<le> domainLength d'" by blast
      have "rds @ [rd] = pre @ (r', d') # (post @ [rd])" using p(1) by simp
      moreover have "\<forall>x \<in> set (post @ [rd]). domainLength (snd x) \<le> domainLength d'" using p False rd by auto
      ultimately show ?thesis using f p by (intro disjI2 exI [of _ pre] exI [of _ r'] exI [of _ d'] exI [of _ "post @ [rd]"]) simp
    qed
  qed
qed simp

section \<open>What the builder makes\<close>

lemma builderAdd_cases:
  "builderAdd servers domains b = b \<or>
   builderAdd servers domains b = b @ [\<lparr>ri_domains = dedupeStrings (if domains = [] then [''.''] else domains), ri_servers = dedupeServers servers\<rparr>] \<and>
     dedupeServers servers \<noteq> []"
  by (auto simp: builderAdd_def Let_def)

lemma builderConfigFrom_routes:
  "route \<in> set (fst (builderConfigFrom i b)) \<Longrightarrow> \<exists>j < length b. route = \<lparr>ur_name = routeName (i + j), ur_domains = ri_domains (b ! j),
     ur_urls = serverURLs (ri_servers (b ! j))\<rparr> \<and> ur_urls route \<noteq> []"
proof (induction b arbitrary: i)
  case (Cons input b)
  obtain routes sig where rs: "builderConfigFrom (i + 1) b = (routes, sig)" by force
  show ?case
  proof (cases "route \<in> set routes")
    case True
    then obtain j where "j < length b" "route = \<lparr>ur_name = routeName (i + 1 + j), ur_domains = ri_domains (b ! j), ur_urls = serverURLs (ri_servers (b ! j))\<rparr>"
      "ur_urls route \<noteq> []" using Cons.IH [of "i + 1"] rs by auto
    then show ?thesis by (intro exI [of _ "Suc j"]) simp
  next
    case False
    then have "route = \<lparr>ur_name = routeName i, ur_domains = ri_domains input, ur_urls = serverURLs (ri_servers input)\<rparr> \<and> serverURLs (ri_servers input) \<noteq> []"
      using Cons.prems rs by (auto simp: Let_def split: if_splits)
    then show ?thesis by (intro exI [of _ 0]) simp
  qed
qed simp

lemma builderConfigFrom_signature: "snd (builderConfigFrom i b) = map routeSignature (fst (builderConfigFrom i b))"
proof (induction b arbitrary: i)
  case (Cons input b)
  obtain routes sig where rs: "builderConfigFrom (i + 1) b = (routes, sig)" by force
  then have "sig = map routeSignature routes" using Cons.IH [of "i + 1"] by simp
  then show ?case using rs by (simp add: Let_def)
qed simp

lemma routeName_inj: "routeName i = routeName j \<longleftrightarrow> i = j"
  using formatInt10_inj [of "int i" "int j"] by (auto simp: routeName_def)

lemma builderConfigFrom_names: "distinct (map ur_name (fst (builderConfigFrom i b)))"
proof (induction b arbitrary: i)
  case (Cons input b)
  have "routeName i \<notin> ur_name ` set (fst (builderConfigFrom (i + 1) b))"
    using builderConfigFrom_routes [of _ "i + 1" b] by (fastforce simp: routeName_inj)
  then show ?case using Cons.IH [of "i + 1"] by (auto simp: Let_def split: prod.splits)
qed simp

text \<open>
  A signature determines the URLs if these have no separators in them, as is the case for servers whose zones have none.
\<close>

definition plainServer :: "AddrPort \<Rightarrow> bool" where
  "plainServer s \<longleftrightarrow> CHR ''|'' \<notin> set (addrZone (apAddr s)) \<and> CHR '','' \<notin> set (addrZone (apAddr s))"

definition plainURL :: "string \<Rightarrow> bool" where
  "plainURL u \<longleftrightarrow> CHR ''|'' \<notin> set u \<and> CHR '','' \<notin> set u"

lemma digits_plain3:
  assumes "2 \<le> b" "b \<le> 16" "0 \<le> n" "c \<in> set (formatInt b n)"
  shows "c \<notin> {CHR ''|'', CHR '',''}"
proof -
  obtain d where "int d < b" "c = digit_char d" using formatInt_digits assms by blast
  moreover from this assms(2) have "(of_char (digit_char d) :: nat) \<noteq> 124 \<and> (of_char (digit_char d) :: nat) \<noteq> 44"
    by (auto simp: digit_char_def)
  ultimately show ?thesis by auto
qed

lemma joined_digits:
  assumes "sep \<notin> {CHR ''|'', CHR '',''}" and "2 \<le> b" "b \<le> 16" and "\<forall>g \<in> set gs. 0 \<le> g" and "c \<in> {CHR ''|'', CHR '',''}"
  shows "c \<notin> set (joinByte sep (map (formatInt b) gs))"
proof
  assume "c \<in> set (joinByte sep (map (formatInt b) gs))"
  then have "c = sep \<or> (\<exists>g \<in> set gs. c \<in> set (formatInt b g))" using set_joinByte by fastforce
  then show False using assms digits_plain3 [of b] by blast
qed

lemma plain_string4: "c \<in> {CHR ''|'', CHR '',''} \<Longrightarrow> c \<notin> set (string4 w)"
  unfolding string4_def by (rule joined_digits) (use groupsOf_range [of 256] in auto)

lemma plain_string6: "c \<in> {CHR ''|'', CHR '',''} \<Longrightarrow> c \<notin> set (string6 w)"
proof -
  assume c: "c \<in> {CHR ''|'', CHR '',''}"
  let ?gs = "groupsOf 65536 8 (uint w)"
  have g: "\<forall>g \<in> set ?gs. 0 \<le> g" using groupsOf_range [of 65536] by auto
  have j: "c \<notin> set (joinByte CHR '':'' (map (formatInt 16) gs))" if "\<forall>g \<in> set gs. 0 \<le> g" for gs
    by (rule joined_digits) (use that c in auto)
  have "c \<noteq> CHR '':''" using c by auto
  then show ?thesis using j [OF g] j [of "take a ?gs" for a] j [of "drop a ?gs" for a] g
    by (auto simp: string6_def Let_def take_map drop_map dest: in_set_takeD in_set_dropD split: option.split)
qed

lemma plain_serverURL: "plainServer s \<Longrightarrow> apIsValid s \<Longrightarrow> plainURL (serverURL s)"
proof -
  assume s: "plainServer s" "apIsValid s"
  have p: "CHR ''|'' \<notin> set (portString (apPort s))" "CHR '','' \<notin> set (portString (apPort s))"
    using digits_plain3 [of 10 "uint (apPort s)"] by (auto simp: portString_def)
  show ?thesis
  proof (cases "apAddr s")
    case (Addr4 w)
    then show ?thesis using p plain_string4 [of "CHR ''|''" w] plain_string4 [of "CHR '',''" w]
      by (simp add: plainURL_def serverURL_def apString_def)
  next
    case (Addr6 w z)
    then show ?thesis using s p plain_string4 [of "CHR ''|''" "ucast w"] plain_string4 [of "CHR '',''" "ucast w"]
      plain_string6 [of "CHR ''|''" w] plain_string6 [of "CHR '',''" w]
      by (simp add: plainURL_def serverURL_def apString_def plainServer_def)
  qed (use s in \<open>simp add: apIsValid_def\<close>)
qed

lemma routeSignature_urls:
  assumes "routeSignature r = routeSignature q" and "ur_urls r \<noteq> []" "ur_urls q \<noteq> []"
    and "\<forall>u \<in> set (ur_urls r). plainURL u" "\<forall>u \<in> set (ur_urls q). plainURL u"
  shows "ur_urls r = ur_urls q"
proof -
  have n: "CHR ''|'' \<notin> set (joinComma us)" if "\<forall>u \<in> set us. plainURL u" for us
    using that set_joinByte [of "CHR '',''" us] by (auto simp: joinComma_def plainURL_def)
  have "(ur_name r @ ''|'' @ joinComma (ur_domains r)) @ CHR ''|'' # joinComma (ur_urls r) =
      (ur_name q @ ''|'' @ joinComma (ur_domains q)) @ CHR ''|'' # joinComma (ur_urls q)"
    using assms(1) by (simp add: routeSignature_def)
  from split_last [OF this n [OF assms(4)] n [OF assms(5)]] have j: "joinComma (ur_urls r) = joinComma (ur_urls q)" by (rule conjunct2)
  have "splitByte CHR '','' (joinComma us) = us" if "us \<noteq> []" "\<forall>u \<in> set us. plainURL u" for us
    unfolding joinComma_def by (rule split_join) (use that in \<open>simp_all add: plainURL_def\<close>)
  from this [OF assms(2,4)] this [OF assms(3,5)] j show ?thesis by metis
qed

section \<open>Properties\<close>

text \<open>
  C39: The routing function sends a request to the route with the longest domain that covers the
  name asked for: among all domains of all routes that are the root, the name itself or a parent of it, the longest
  one counts, the first of them if there are several; the root is shorter than every
  other domain. A request is sent nowhere exactly if no domain covers its name.
\<close>

theorem resolved_route_longest:
  "let name = resolvedQuestionName msg; chosen = resolvedRouteFunc routes msg in
   (candidates name routes = [] \<longrightarrow> chosen = '''') \<and>
   (candidates name routes \<noteq> [] \<longrightarrow> (\<exists>pre r d post. candidates name routes = pre @ (r, d) # post \<and> chosen = r \<and>
      (\<forall>rd \<in> set pre. domainLength (snd rd) < domainLength d) \<and> (\<forall>rd \<in> set post. domainLength (snd rd) \<le> domainLength d)))"
proof -
  let ?name = "resolvedQuestionName msg"
  let ?c = "candidates ?name routes"
  define step where "step = (\<lambda>best :: string \<times> int. \<lambda>(r, d). if domainLength d > snd best then (r, domainLength d) else best)"
  have f: "resolvedRouteFunc routes msg = fst (foldl step ('''', -1) ?c)"
    unfolding resolvedRouteFunc_def route_flat fold_candidates candidates_def step_def ..
  have "foldl step ('''', -1) ?c = ('''', -1) \<and> (\<forall>rd \<in> set ?c. domainLength (snd rd) \<le> -1) \<or>
    (\<exists>pre r d post. ?c = pre @ (r, d) # post \<and> foldl step ('''', -1) ?c = (r, domainLength d) \<and> domainLength d > -1 \<and>
      (\<forall>rd \<in> set pre. domainLength (snd rd) < domainLength d) \<and> (\<forall>rd \<in> set post. domainLength (snd rd) \<le> domainLength d))"
    using fold_longest [of "('''', -1)" ?c] unfolding step_def by simp
  then show ?thesis
  proof
    assume e: "foldl step ('''', -1) ?c = ('''', -1) \<and> (\<forall>rd \<in> set ?c. domainLength (snd rd) \<le> -1)"
    have "?c = []"
    proof (rule ccontr)
      assume "?c \<noteq> []"
      then have "domainLength (snd (hd ?c)) \<le> -1" using e by simp
      then show False using domainLength_nonneg [of "snd (hd ?c)"] by linarith
    qed
    then show ?thesis using e f by (simp add: Let_def)
  next
    assume "\<exists>pre r d post. ?c = pre @ (r, d) # post \<and> foldl step ('''', -1) ?c = (r, domainLength d) \<and> domainLength d > -1 \<and>
      (\<forall>rd \<in> set pre. domainLength (snd rd) < domainLength d) \<and> (\<forall>rd \<in> set post. domainLength (snd rd) \<le> domainLength d)"
    then obtain pre r d post where p: "?c = pre @ (r, d) # post" "foldl step ('''', -1) ?c = (r, domainLength d)"
      "\<forall>rd \<in> set pre. domainLength (snd rd) < domainLength d" "\<forall>rd \<in> set post. domainLength (snd rd) \<le> domainLength d" by blast
    then have "\<exists>pre r d post. ?c = pre @ (r, d) # post \<and> resolvedRouteFunc routes msg = r \<and>
      (\<forall>rd \<in> set pre. domainLength (snd rd) < domainLength d) \<and> (\<forall>rd \<in> set post. domainLength (snd rd) \<le> domainLength d)"
      using f by (intro exI [of _ pre] exI [of _ r] exI [of _ d] exI [of _ post]) simp
    moreover have "?c \<noteq> []" using p(1) by simp
    ultimately show ?thesis by (simp only: Let_def) blast
  qed
qed

definition sampleRoutes :: "resolvedUpstreamRoute list" where
  "sampleRoutes = fst (builderConfig (addGlobal [AddrPort (Addr4 0x0A000002) 53] [\<lparr>rg_IfIndex = 3, rg_Domain = ''~Corp.example'', rg_RoutingOnly = True\<rparr>]
     (addLink [AddrPort (Addr4 0x0A000001) 53] [] [])))"

theorem resolved_route_longest_witness:
  "resolvedRouteFunc sampleRoutes (Some \<lparr>dm_Questions = [''www.CORP.example'']\<rparr>) = ''default-1''"
proof -
  let ?msg = "Some \<lparr>dm_Questions = [''www.CORP.example'']\<rparr>"
  have c: "candidates (resolvedQuestionName ?msg) sampleRoutes = [(''default-0'', ''.''), (''default-1'', ''corp.example.'')]" by code_simp
  have l: "domainLength ''.'' = 0" "domainLength ''corp.example.'' = 13" by code_simp+
  obtain pre r d post where p: "[(''default-0'', ''.''), (''default-1'', ''corp.example.'')] = pre @ (r, d) # post"
    "resolvedRouteFunc sampleRoutes ?msg = r" "\<forall>rd \<in> set post. domainLength (snd rd) \<le> domainLength d"
    using resolved_route_longest [of ?msg sampleRoutes] unfolding Let_def c by blast
  show ?thesis
  proof (cases pre)
    case Nil
    then have "d = ''.''" "post = [(''default-1'', ''corp.example.'')]"
      using p(1) by (metis append_Nil list.inject prod.inject)+
    then show ?thesis using p(3) l by simp
  next
    case (Cons x xs)
    then have "r = ''default-1''" using p(1) by (cases xs) simp_all
    then show ?thesis using p(2) by simp
  qed
qed

text \<open>
  A link with a search domain gets a route for that domain only: if its servers are the only ones, a request
  for any other name has no route, and the fallback servers, which would get the root, are not used.
\<close>

lemma search_domain_hides_rest:
  "resolvedRouteFunc (fst (builderConfig (addLink [AddrPort (Addr4 0x0A000001) 53] [\<lparr>rl_Domain = ''lan'', rl_RoutingOnly = False\<rparr>] [])))
     (Some \<lparr>dm_Questions = [''www.example.com.'']\<rparr>) = ''''"
  by code_simp

end
