(* ===== verification/Dns_Resolved.thy ===== *)
theory Dns_Resolved
  imports Dns_Routes
begin

text \<open>
  The provider for systemd-resolved, \<open>dns/resolved.go\<close>: reading its configuration over D-Bus, choosing upstream servers,
  installing and reverting the managed server, and the goroutine that follows changes. The calls of the D-Bus interface are
  a parameter; a property that is read is an error of the call, a value that does not decode, or the decoded value.
  Go maps are association lists in the order of their making. Log calls and timeouts are left out. Methods and
  rounds of the goroutine run one at a time; \<open>syncRest\<close> is the part of a round after the fields of the
  provider were read, during which other methods may run in the program.
\<close>

section \<open>The bus\<close>

record resolvedGlobalNameserver =
  gn_IfIndex :: int
  gn_Family :: int
  gn_Address :: bytes

record resolvedLinkNameserverEx =
  lx_Family :: int
  lx_Address :: bytes
  lx_Port :: u16
  lx_Name :: string

record resolvedGlobalNameserverEx =
  gx_IfIndex :: int
  gx_Family :: int
  gx_Address :: bytes
  gx_Port :: u16
  gx_Name :: string

type_synonym ('k, 'a) property = "('k, goError + 'a) query"

record ('k, 'o) resolvedBus =
  rb_Connect :: "'k act"
  rb_DBusError :: "goError \<Rightarrow> (string \<times> string list) option"
  rb_SetLinkDomains :: "int \<Rightarrow> resolvedLinkDomain list \<Rightarrow> 'k act"
  rb_SetLinkDefaultRoute :: "int \<Rightarrow> bool \<Rightarrow> 'k act"
  rb_SetLinkDNS :: "int \<Rightarrow> resolvedLinkNameserver list \<Rightarrow> 'k act"
  rb_SetLinkOption :: "string \<Rightarrow> int \<Rightarrow> string \<Rightarrow> 'k act"
  rb_FlushCaches :: "'k act"
  rb_RevertLink :: "int \<Rightarrow> 'k act"
  rb_GetLink :: "int \<Rightarrow> ('k, 'o) query"
  rb_LinkDNSEx :: "'o \<Rightarrow> ('k, resolvedLinkNameserverEx list) property"
  rb_LinkDNS :: "'o \<Rightarrow> ('k, resolvedLinkNameserver list) property"
  rb_LinkDomains :: "'o \<Rightarrow> ('k, resolvedLinkDomain list) property"
  rb_LinkDefaultRoute :: "'o \<Rightarrow> ('k, bool) property"
  rb_ManagerDNSEx :: "('k, resolvedGlobalNameserverEx list) property"
  rb_ManagerDNS :: "('k, resolvedGlobalNameserver list) property"
  rb_ManagerDomains :: "('k, resolvedGlobalDomain list) property"
  rb_AddMatchSignal :: "string \<Rightarrow> 'k act"
  rb_ConnClose :: "'k act"

definition isDBusUnknownMethod :: "('k, 'o) resolvedBus \<Rightarrow> goError \<Rightarrow> bool" where
  "isDBusUnknownMethod B err = (case rb_DBusError B err of None \<Rightarrow> False
     | Some (name, body) \<Rightarrow> name = ''org.freedesktop.DBus.Error.UnknownMethod'')"

definition isResolvedNoSuchLink :: "('k, 'o) resolvedBus \<Rightarrow> goError option \<Rightarrow> bool" where
  "isResolvedNoSuchLink B err = (case err of None \<Rightarrow> False | Some e \<Rightarrow> (case rb_DBusError B e of None \<Rightarrow> False
     | Some (name, body) \<Rightarrow> hasSuffix name ''.NoSuchLink'' \<or> list_ex (\<lambda>b. strContains b ''not known'') body))"

section \<open>The provider\<close>

record ('n, 'c) Resolved =
  rs_ifidx :: int
  rs_closed :: bool
  rs_dialNetwork :: "'n option"
  rs_clients :: "(string \<times> 'c) list"
  rs_fallback :: "AddrPort list"
  rs_setDNS :: Addr
  rs_setDNSActive :: bool
  rs_upstreamSig :: "string list"
  rs_watching :: bool
  rs_targetServers :: "AddrPort list"
  rs_targetDomains :: "resolvedLinkDomain list"

definition maxResolvedIfIndex :: int where
  "maxResolvedIfIndex = 2 ^ 31 - 1"

definition resolvedIfIndex :: "int \<Rightarrow> goError + int" where
  "resolvedIfIndex ifidx = (if ifidx \<le> 0 \<or> ifidx > maxResolvedIfIndex
     then Inl (Errorf ''resolved: invalid interface index %d'' [AInt ifidx] []) else Inr ifidx)"

definition resolvedOptionalIfIndex :: "int \<Rightarrow> goError + int" where
  "resolvedOptionalIfIndex ifidx = (if ifidx = 0 then Inr 0 else resolvedIfIndex ifidx)"

definition InterfaceIndex :: "('n, 'c) Resolved \<Rightarrow> int" where
  "InterfaceIndex r = rs_ifidx r"

definition requireInterfaceIndex :: "('n, 'c) Resolved \<Rightarrow> goError + int" where
  "requireInterfaceIndex r = (if rs_ifidx r = 0 then Inl (ErrorsNew ''resolved: no interface index configured'') else Inr (rs_ifidx r))"

section \<open>Reading the configuration\<close>

definition wrapQ :: "(goError \<Rightarrow> goError) \<Rightarrow> ('k, 'a) query \<Rightarrow> ('k, 'a) query" where
  "wrapQ w f k = (case f k of (r, k) \<Rightarrow> (map_sum w id r, k))"

definition linkObjectFor :: "('k, 'o) resolvedBus \<Rightarrow> int \<Rightarrow> ('k, 'o) query" where
  "linkObjectFor B ifidx = wrapQ (\<lambda>err. Errorf ''resolved: GetLink(%d): %w'' [AInt ifidx] [err]) (rb_GetLink B ifidx)"

definition linkObject :: "('k, 'o) resolvedBus \<Rightarrow> ('n, 'c) Resolved \<Rightarrow> ('k, 'o) query" where
  "linkObject B r k = (case requireInterfaceIndex r of Inl err \<Rightarrow> (Inl err, k) | Inr ifidx \<Rightarrow> linkObjectFor B ifidx k)"

text \<open>A property with the messages for an error of the call and of the decoding.\<close>

definition readProperty :: "string \<Rightarrow> ('k, 'a) property \<Rightarrow> ('k, 'a) query" where
  "readProperty what f k = (case f k of
     (Inl err, k) \<Rightarrow> (Inl (Errorf (''resolved: read '' @ what @ '': %w'') [] [err]), k)
   | (Inr (Inl err), k) \<Rightarrow> (Inl (Errorf (''resolved: decode '' @ what @ '': %w'') [] [err]), k)
   | (Inr (Inr v), k) \<Rightarrow> (Inr v, k))"

definition linkServers :: "resolvedLinkNameserver list \<Rightarrow> AddrPort list" where
  "linkServers raw = List.map_filter (\<lambda>s. map_option (\<lambda>addr. AddrPort addr 53) (addrFromResolved (rn_Family s) (rn_Address s))) raw"

definition linkServersEx :: "resolvedLinkNameserverEx list \<Rightarrow> AddrPort list" where
  "linkServersEx raw = List.map_filter (\<lambda>s. map_option (\<lambda>addr. addrPort addr (lx_Port s)) (addrFromResolved (lx_Family s) (lx_Address s))) raw"

definition mapQ :: "('a \<Rightarrow> 'b) \<Rightarrow> ('k, 'a) query \<Rightarrow> ('k, 'b) query" where
  "mapQ g f k = (case f k of (r, k) \<Rightarrow> (map_sum id g r, k))"

definition linkDNSServersLegacy :: "('k, 'o) resolvedBus \<Rightarrow> 'o \<Rightarrow> ('k, AddrPort list) query" where
  "linkDNSServersLegacy B link = mapQ linkServers (readProperty ''link DNS'' (rb_LinkDNS B link))"

definition linkDNSServersFor :: "('k, 'o) resolvedBus \<Rightarrow> 'o \<Rightarrow> ('k, AddrPort list) query" where
  "linkDNSServersFor B link k = (case rb_LinkDNSEx B link k of
     (Inr (Inr raw), k) \<Rightarrow> (Inr (linkServersEx raw), k)
   | (_, k) \<Rightarrow> linkDNSServersLegacy B link k)"

definition linkDNSServers :: "('k, 'o) resolvedBus \<Rightarrow> ('n, 'c) Resolved \<Rightarrow> ('k, AddrPort list) query" where
  "linkDNSServers B r k = (case linkObject B r k of (Inl err, k) \<Rightarrow> (Inl err, k) | (Inr link, k) \<Rightarrow> linkDNSServersFor B link k)"

definition linkDomainsFor :: "('k, 'o) resolvedBus \<Rightarrow> 'o \<Rightarrow> ('k, resolvedLinkDomain list) query" where
  "linkDomainsFor B link = readProperty ''link domains'' (rb_LinkDomains B link)"

definition linkDomains :: "('k, 'o) resolvedBus \<Rightarrow> ('n, 'c) Resolved \<Rightarrow> ('k, resolvedLinkDomain list) query" where
  "linkDomains B r k = (case linkObject B r k of (Inl err, k) \<Rightarrow> (Inl err, k) | (Inr link, k) \<Rightarrow> linkDomainsFor B link k)"

text \<open>Maps from interfaces to lists, with the empty list as the default.\<close>

type_synonym 'a ifmap = "(int \<times> 'a list) list"

fun ifAppend :: "int \<Rightarrow> 'a \<Rightarrow> 'a ifmap \<Rightarrow> 'a ifmap" where
  "ifAppend i x [] = [(i, [x])]"
| "ifAppend i x ((j, xs) # m) = (if i = j then (j, xs @ [x]) # m else (j, xs) # ifAppend i x m)"

definition ifGet :: "'a ifmap \<Rightarrow> int \<Rightarrow> 'a list" where
  "ifGet m i = (case map_of m i of Some xs \<Rightarrow> xs | None \<Rightarrow> [])"

definition ifCollect :: "(int \<times> 'a) list \<Rightarrow> 'a ifmap" where
  "ifCollect ps = foldl (\<lambda>m (i, x). ifAppend i x m) [] ps"

definition managerServersEx :: "resolvedGlobalNameserverEx list \<Rightarrow> AddrPort ifmap" where
  "managerServersEx raw = ifCollect (List.map_filter (\<lambda>s. map_option (\<lambda>addr. (gx_IfIndex s, addrPort addr (gx_Port s)))
     (addrFromResolved (gx_Family s) (gx_Address s))) raw)"

definition managerServersOf :: "resolvedGlobalNameserver list \<Rightarrow> AddrPort ifmap" where
  "managerServersOf raw = ifCollect (List.map_filter (\<lambda>s. map_option (\<lambda>addr. (gn_IfIndex s, AddrPort addr 53))
     (addrFromResolved (gn_Family s) (gn_Address s))) raw)"

definition managerDNSServersLegacy :: "('k, 'o) resolvedBus \<Rightarrow> ('k, AddrPort ifmap) query" where
  "managerDNSServersLegacy B = mapQ managerServersOf (readProperty ''manager DNS'' (rb_ManagerDNS B))"

definition managerDNSServers :: "('k, 'o) resolvedBus \<Rightarrow> ('k, AddrPort ifmap) query" where
  "managerDNSServers B k = (case rb_ManagerDNSEx B k of
     (Inr (Inr raw), k) \<Rightarrow> (Inr (managerServersEx raw), k)
   | (_, k) \<Rightarrow> managerDNSServersLegacy B k)"

definition managerDomains :: "('k, 'o) resolvedBus \<Rightarrow> ('k, resolvedGlobalDomain ifmap) query" where
  "managerDomains B = mapQ (\<lambda>raw. ifCollect (map (\<lambda>d. (rg_IfIndex d, d)) raw)) (readProperty ''manager domains'' (rb_ManagerDomains B))"

section \<open>The upstream configuration\<close>

record resolvedUpstreamConfig =
  uc_routes :: "resolvedUpstreamRoute list"
  uc_signature :: "string list"
  uc_targetServers :: "AddrPort list"
  uc_targetDomains :: "resolvedLinkDomain list"

text \<open>The servers of the target link: those given, else those the manager has for it, else the saved ones.\<close>

definition chooseTarget :: "('n, 'c) Resolved \<Rightarrow> Addr list \<Rightarrow> AddrPort list \<Rightarrow> resolvedLinkDomain list \<Rightarrow> AddrPort ifmap \<Rightarrow>
    resolvedGlobalDomain ifmap \<Rightarrow> AddrPort list \<times> resolvedLinkDomain list" where
  "chooseTarget r exclude targetServers targetDomains managerServers mdomains =
     (let targetIfidx = rs_ifidx r; targetServers = filterAddr targetServers exclude in
      if length targetServers = 0 \<and> targetIfidx \<noteq> 0 then
        let servers = filterAddr (ifGet managerServers targetIfidx) exclude in
        if length servers > 0 then (servers, globalDomainsAsLinkDomains (ifGet mdomains targetIfidx))
        else (filterAddr (rs_targetServers r) exclude, rs_targetDomains r)
      else (targetServers, targetDomains))"

definition addGlobals :: "int \<Rightarrow> Addr list \<Rightarrow> AddrPort ifmap \<Rightarrow> resolvedGlobalDomain ifmap \<Rightarrow> resolvedRouteBuilder \<Rightarrow> resolvedRouteBuilder" where
  "addGlobals targetIfidx exclude managerServers mdomains builder =
     foldl (\<lambda>b ifidx. if targetIfidx \<noteq> 0 \<and> ifidx = targetIfidx then b
         else let servers = filterAddr (ifGet managerServers ifidx) exclude in
           if length servers = 0 then b else addGlobal servers (ifGet mdomains ifidx) b)
       builder (sort (map fst managerServers))"

definition upstreamConfigFromLink :: "('k, 'o) resolvedBus \<Rightarrow> ('n, 'c) Resolved \<Rightarrow> AddrPort list \<Rightarrow> Addr list \<Rightarrow> AddrPort list \<Rightarrow>
    resolvedLinkDomain list \<Rightarrow> ('k, resolvedUpstreamConfig) query" where
  "upstreamConfigFromLink B r fallback exclude targetServers targetDomains k =
     (case managerDNSServers B k of (Inl err, k) \<Rightarrow> (Inl err, k)
      | (Inr managerServers, k) \<Rightarrow> (case managerDomains B k of (domains, k) \<Rightarrow>
          let mdomains = (case domains of Inl _ \<Rightarrow> [] | Inr m \<Rightarrow> m) in
          (case chooseTarget r exclude targetServers targetDomains managerServers mdomains of (targetServers, targetDomains) \<Rightarrow>
            let builder = addGlobals (rs_ifidx r) exclude managerServers mdomains (addLink targetServers targetDomains []);
                builder = (if builder = [] then addDefault (filterAddr fallback exclude) builder else builder) in
            if builder = [] then (Inl (ErrorsNew ''resolved: no upstream DNS servers''), k)
            else (case builderConfig builder of (routes, signature) \<Rightarrow>
              if length routes = 0 then (Inl (ErrorsNew ''resolved: no usable upstream DNS servers''), k)
              else (Inr \<lparr>uc_routes = routes, uc_signature = signature, uc_targetServers = targetServers, uc_targetDomains = targetDomains\<rparr>, k)))))"

text \<open>The servers and domains of the link, if there is one; domains that cannot be read count as none.\<close>

definition readTarget :: "('k, 'o) resolvedBus \<Rightarrow> ('n, 'c) Resolved \<Rightarrow> ('k, AddrPort list \<times> resolvedLinkDomain list) query" where
  "readTarget B r k =
     (if InterfaceIndex r = 0 then (Inr ([], []), k)
      else case linkDNSServers B r k of (Inl err, k) \<Rightarrow> (Inl err, k)
        | (Inr servers, k) \<Rightarrow> (case linkDomains B r k of (domains, k) \<Rightarrow> (Inr (servers, case domains of Inl _ \<Rightarrow> [] | Inr ds \<Rightarrow> ds), k)))"

definition upstreamConfig :: "('k, 'o) resolvedBus \<Rightarrow> ('n, 'c) Resolved \<Rightarrow> AddrPort list \<Rightarrow> Addr list \<Rightarrow> ('k, resolvedUpstreamConfig) query" where
  "upstreamConfig B r fallback exclude k = (case readTarget B r k of (Inl err, k) \<Rightarrow> (Inl err, k)
     | (Inr (servers, domains), k) \<Rightarrow> upstreamConfigFromLink B r fallback exclude servers domains k)"

section \<open>Installing the upstream configuration\<close>

fun newClients :: "('n, 'c, 'k) dnsRouter \<Rightarrow> 'n option \<Rightarrow> resolvedUpstreamRoute list \<Rightarrow> 'k \<Rightarrow> (string \<times> 'c) list \<times> 'k" where
  "newClients R net [] k = ([], k)"
| "newClients R net (route # routes) k = (case dr_NewClient R net (ur_urls route) k of (c, k) \<Rightarrow>
     (case newClients R net routes k of (cs, k) \<Rightarrow> ((ur_name route, c) # cs, k)))"

definition closeDNSClients :: "('n, 'c, 'k) dnsRouter \<Rightarrow> (string \<times> 'c) list \<Rightarrow> 'k \<Rightarrow> 'k" where
  "closeDNSClients R clients k = foldl (\<lambda>k (name, c). snd (dr_ClientClose R c k)) k clients"

definition detachOld :: "('n, 'c, 'k) dnsRouter \<Rightarrow> (string \<times> 'c) list \<Rightarrow> (string \<times> 'c) list \<Rightarrow> 'k \<Rightarrow> 'k" where
  "detachOld R oldClients clients k =
     foldl (\<lambda>k (name, c). if map_of clients name = None then snd (dr_Detach R name k) else k) k oldClients"

definition setUpstreamConfig :: "('n, 'c, 'k) dnsRouter \<Rightarrow> resolvedUpstreamConfig \<Rightarrow> ('n, 'c) Resolved \<Rightarrow> 'k \<Rightarrow>
    goError option \<times> ('n, 'c) Resolved \<times> 'k" where
  "setUpstreamConfig R cfg r k = (case newClients R (rs_dialNetwork r) (uc_routes cfg) k of (clients, k) \<Rightarrow>
     if rs_closed r then (Some (dr_ErrClosed R), r, closeDNSClients R clients k)
     else let oldClients = rs_clients r in
       (case forE (\<lambda>(name, client). dr_Attach R name client) clients k of
          (Some err, k) \<Rightarrow> (Some err, r, closeDNSClients R clients k)
        | (None, k) \<Rightarrow> (case dr_SetRouter R (resolvedRouteFunc (uc_routes cfg)) k of
            (Some err, k) \<Rightarrow> (Some err, r, closeDNSClients R clients k)
          | (None, k) \<Rightarrow>
              let k = detachOld R oldClients clients k;
                  r = r\<lparr>rs_clients := clients, rs_upstreamSig := uc_signature cfg,
                        rs_targetServers := uc_targetServers cfg, rs_targetDomains := uc_targetDomains cfg\<rparr> in
              (None, r, closeDNSClients R oldClients k))))"

text \<open>The common end of the two refresh functions.\<close>

definition installConfig :: "('n, 'c, 'k) dnsRouter \<Rightarrow> goError + resolvedUpstreamConfig \<Rightarrow> ('n, 'c) Resolved \<Rightarrow> 'k \<Rightarrow>
    goError option \<times> ('n, 'c) Resolved \<times> 'k" where
  "installConfig R cfg r k = (case cfg of Inl err \<Rightarrow> (Some err, r, k)
     | Inr cfg \<Rightarrow> if sameStrings (uc_signature cfg) (rs_upstreamSig r) then (None, r, k) else setUpstreamConfig R cfg r k)"

definition refreshUpstreamsWithFallback :: "('n, 'c, 'k) dnsRouter \<Rightarrow> ('k, 'o) resolvedBus \<Rightarrow> AddrPort list \<Rightarrow> Addr list \<Rightarrow> ('n, 'c) Resolved \<Rightarrow> 'k \<Rightarrow>
    goError option \<times> ('n, 'c) Resolved \<times> 'k" where
  "refreshUpstreamsWithFallback R B fallback exclude r k = (case upstreamConfig B r fallback exclude k of (cfg, k) \<Rightarrow> installConfig R cfg r k)"

definition refreshUpstreamsFromLink :: "('n, 'c, 'k) dnsRouter \<Rightarrow> ('k, 'o) resolvedBus \<Rightarrow> AddrPort list \<Rightarrow> Addr list \<Rightarrow> AddrPort list \<Rightarrow>
    resolvedLinkDomain list \<Rightarrow> ('n, 'c) Resolved \<Rightarrow> 'k \<Rightarrow> goError option \<times> ('n, 'c) Resolved \<times> 'k" where
  "refreshUpstreamsFromLink R B fallback exclude servers domains r k =
     (case upstreamConfigFromLink B r fallback exclude servers domains k of (cfg, k) \<Rightarrow> installConfig R cfg r k)"

definition refreshUpstreamsExcluding :: "('n, 'c, 'k) dnsRouter \<Rightarrow> ('k, 'o) resolvedBus \<Rightarrow> Addr list \<Rightarrow> ('n, 'c) Resolved \<Rightarrow> 'k \<Rightarrow>
    goError option \<times> ('n, 'c) Resolved \<times> 'k" where
  "refreshUpstreamsExcluding R B exclude r = refreshUpstreamsWithFallback R B (rs_fallback r) exclude r"

definition resolvedRefreshUpstreams :: "('n, 'c, 'k) dnsRouter \<Rightarrow> ('k, 'o) resolvedBus \<Rightarrow> Addr \<Rightarrow> ('n, 'c) Resolved \<Rightarrow> 'k \<Rightarrow>
    goError option \<times> ('n, 'c) Resolved \<times> 'k" where
  "resolvedRefreshUpstreams R B exclude = refreshUpstreamsExcluding R B [exclude]"

section \<open>The managed server\<close>

text \<open>The last calls are made whatever they return.\<close>

definition bestEffort :: "'k act \<Rightarrow> 'k \<Rightarrow> 'k" where
  "bestEffort f k = snd (f k)"

definition linkDefaultRoute :: "('k, 'o) resolvedBus \<Rightarrow> int \<Rightarrow> 'k act" where
  "linkDefaultRoute B ifidx k = (case rb_SetLinkDefaultRoute B ifidx True k of
     (Some err, k) \<Rightarrow> (if isDBusUnknownMethod B err then None else Some (Errorf ''resolved: SetLinkDefaultRoute: %w'' [] [err]), k)
   | (None, k) \<Rightarrow> (None, k))"

definition applyDNS :: "('k, 'o) resolvedBus \<Rightarrow> ('n, 'c) Resolved \<Rightarrow> Addr \<Rightarrow> 'k act" where
  "applyDNS B r server k = (case requireInterfaceIndex r of Inl err \<Rightarrow> (Some err, k)
     | Inr ifidx \<Rightarrow>
         (case thenE (wrapE (\<lambda>err. Errorf ''resolved: SetLinkDomains: %w'' [] [err])
                (rb_SetLinkDomains B ifidx [\<lparr>rl_Domain = ''.'', rl_RoutingOnly = True\<rparr>]))
              (thenE (linkDefaultRoute B ifidx)
                (wrapE (\<lambda>err. Errorf ''resolved: SetLinkDNS: %w'' [] [err]) (rb_SetLinkDNS B ifidx [resolvedNameserver server]))) k of
            (Some err, k) \<Rightarrow> (Some err, k)
          | (None, k) \<Rightarrow> (None, bestEffort (rb_FlushCaches B)
              (bestEffort (rb_SetLinkOption B ''SetLinkDNSOverTLS'' ifidx ''no'')
              (bestEffort (rb_SetLinkOption B ''SetLinkDNSSEC'' ifidx ''no'')
              (bestEffort (rb_SetLinkOption B ''SetLinkMulticastDNS'' ifidx ''no'')
              (bestEffort (rb_SetLinkOption B ''SetLinkLLMNR'' ifidx ''no'') k)))))))"

definition revertLink :: "('k, 'o) resolvedBus \<Rightarrow> int \<Rightarrow> 'k act" where
  "revertLink B ifidx k =
     (if ifidx = 0 then (None, k)
      else case rb_RevertLink B ifidx k of (callErr, k) \<Rightarrow>
        (if isResolvedNoSuchLink B callErr then None else errors_join [None, callErr], k))"

definition revertDNS :: "('k, 'o) resolvedBus \<Rightarrow> ('n, 'c) Resolved \<Rightarrow> 'k act" where
  "revertDNS B r k = (case resolvedOptionalIfIndex (InterfaceIndex r) of Inl err \<Rightarrow> (Some err, k) | Inr ifidx \<Rightarrow> revertLink B ifidx k)"

definition ResolvedSetDNS :: "('n, 'c, 'k) dnsRouter \<Rightarrow> ('k, 'o) resolvedBus \<Rightarrow> Addr \<Rightarrow> ('n, 'c) Resolved \<Rightarrow> 'k \<Rightarrow>
    goError option \<times> ('n, 'c) Resolved \<times> 'k" where
  "ResolvedSetDNS R B server r k =
     (if rs_closed r then (Some (dr_ErrClosed R), r, k)
      else if \<not> addrIsValid server then (Some (ErrorsNew ''resolved: invalid DNS server''), r, k)
      else let exclude = [server] @ (if rs_setDNSActive r then [rs_setDNS r] else []) in
        (case refreshUpstreamsExcluding R B exclude r k of
           (Some err, r, k) \<Rightarrow> (Some err, r, k)
         | (None, r, k) \<Rightarrow> (case applyDNS B r server k of
             (Some err, k) \<Rightarrow> (Some err, r, k)
           | (None, k) \<Rightarrow> (None, r\<lparr>rs_setDNS := server, rs_setDNSActive := True\<rparr>, k))))"

definition ResolvedUnsetDNS :: "('n, 'c, 'k) dnsRouter \<Rightarrow> ('k, 'o) resolvedBus \<Rightarrow> ('n, 'c) Resolved \<Rightarrow> 'k \<Rightarrow>
    goError option \<times> ('n, 'c) Resolved \<times> 'k" where
  "ResolvedUnsetDNS R B r k =
     (if rs_closed r then (Some (dr_ErrClosed R), r, k)
      else let active = rs_setDNSActive r; server = rs_setDNS r; r = r\<lparr>rs_setDNS := NoAddr, rs_setDNSActive := False\<rparr> in
        if \<not> active then (None, r, k)
        else (case revertDNS B r k of
            (None, k) \<Rightarrow> resolvedRefreshUpstreams R B NoAddr r k
          | (Some err, k) \<Rightarrow> (case resolvedRefreshUpstreams R B server r k of
              (None, r, k) \<Rightarrow> (Some err, r, k)
            | (Some refreshErr, r, k) \<Rightarrow> (errors_join [Some err, Some refreshErr], r, k))))"

definition SetInterfaceIndex :: "('n, 'c, 'k) dnsRouter \<Rightarrow> ('k, 'o) resolvedBus \<Rightarrow> int \<Rightarrow> ('n, 'c) Resolved \<Rightarrow> 'k \<Rightarrow>
    goError option \<times> ('n, 'c) Resolved \<times> 'k" where
  "SetInterfaceIndex R B ifidx r k = (case resolvedOptionalIfIndex ifidx of Inl err \<Rightarrow> (Some err, r, k)
     | Inr ifidx32 \<Rightarrow>
         if rs_closed r then (Some (dr_ErrClosed R), r, k)
         else let oldIfidx = rs_ifidx r; managedDNS = rs_setDNS r; managedDNSActive = rs_setDNSActive r in
         if oldIfidx = ifidx32 then (None, r, k)
         else if managedDNSActive \<and> ifidx32 = 0 then (Some (ErrorsNew ''resolved: cannot clear interface index while DNS is active''), r, k)
         else (case revertLink B oldIfidx k of (err, k) \<Rightarrow>
           let r = r\<lparr>rs_ifidx := ifidx32, rs_targetServers := [], rs_targetDomains := [], rs_upstreamSig := []\<rparr> in
           (case resolvedRefreshUpstreams R B (if managedDNSActive then managedDNS else NoAddr) r k of (refreshErr, r, k) \<Rightarrow>
             let err = (case refreshErr of None \<Rightarrow> err | Some e \<Rightarrow> errors_join [err, Some e]) in
             if managedDNSActive then
               (case applyDNS B r managedDNS k of (applyErr, k) \<Rightarrow>
                 (case applyErr of None \<Rightarrow> err | Some e \<Rightarrow> errors_join [err, Some e], r, k))
             else (err, r, k))))"

definition UpdateInterfaceIndex :: "('n, 'c, 'k) dnsRouter \<Rightarrow> ('k, 'o) resolvedBus \<Rightarrow> int \<Rightarrow> ('n, 'c) Resolved \<Rightarrow> 'k \<Rightarrow>
    goError option \<times> ('n, 'c) Resolved \<times> 'k" where
  "UpdateInterfaceIndex R B = SetInterfaceIndex R B"

definition ResolvedClose :: "('n, 'c, 'k) dnsRouter \<Rightarrow> ('k, 'o) resolvedBus \<Rightarrow> ('n, 'c) Resolved \<Rightarrow> 'k \<Rightarrow>
    goError option \<times> ('n, 'c) Resolved \<times> 'k" where
  "ResolvedClose R B r k =
     (if rs_closed r then (None, r, k)
      else let r = r\<lparr>rs_closed := True, rs_watching := False\<rparr> in
        (case revertDNS B r k of (err, k) \<Rightarrow>
          (case dr_Close R k of (closeErr, k) \<Rightarrow>
            (case foldl (\<lambda>(err, k) (name, c). case dr_ClientClose R c k of (e, k) \<Rightarrow> (errors_join [err, e], k))
                  (errors_join [err, closeErr], k) (rs_clients r) of (err, k) \<Rightarrow>
              (case rb_ConnClose B k of (connErr, k) \<Rightarrow> (errors_join [err, connErr], r, k))))))"

section \<open>Following changes\<close>

definition linkConfigNeedsApply :: "('k, 'o) resolvedBus \<Rightarrow> ('n, 'c) Resolved \<Rightarrow> Addr \<Rightarrow> AddrPort list \<Rightarrow> ('k, bool) query" where
  "linkConfigNeedsApply B r server servers k =
     (if length servers \<noteq> 1 \<or> apAddr (servers ! 0) \<noteq> server then (Inr True, k)
      else (case linkObject B r k of (Inl err, k) \<Rightarrow> (Inl err, k)
        | (Inr link, k) \<Rightarrow> (case rb_LinkDomains B link k of
            (Inr (Inr domains), k) \<Rightarrow>
              if \<not> list_ex (\<lambda>d. rl_Domain d = ''.'' \<and> rl_RoutingOnly d) domains then (Inr True, k)
              else (case rb_LinkDefaultRoute B link k of
                  (Inl err, k) \<Rightarrow> (Inr False, k)
                | (Inr (Inl err), k) \<Rightarrow> (Inr True, k)
                | (Inr (Inr defaultRoute), k) \<Rightarrow> (Inr (\<not> defaultRoute), k))
          | (_, k) \<Rightarrow> (Inr True, k))))"

definition reapplyDNSIfNeeded :: "('k, 'o) resolvedBus \<Rightarrow> ('n, 'c) Resolved \<Rightarrow> bool \<Rightarrow> Addr \<Rightarrow> AddrPort list \<Rightarrow> ('k, bool) query" where
  "reapplyDNSIfNeeded B r managedDNSActive managedDNS servers k =
     (if \<not> managedDNSActive then (Inr False, k)
      else (case linkConfigNeedsApply B r managedDNS servers k of
          (Inl err, k) \<Rightarrow> (Inl err, k)
        | (Inr False, k) \<Rightarrow> (Inr False, k)
        | (Inr True, k) \<Rightarrow>
            if \<not> (rs_setDNSActive r \<and> rs_setDNS r = managedDNS \<and> \<not> rs_closed r) then (Inr False, k)
            else (case applyDNS B r managedDNS k of (Some err, k) \<Rightarrow> (Inl err, k) | (None, k) \<Rightarrow> (Inr True, k))))"

text \<open>The fields that a round reads first, and the rest of the round.\<close>

record syncSnapshot =
  sy_managedDNS :: Addr
  sy_managedDNSActive :: bool
  sy_fallback :: "AddrPort list"
  sy_ifidx :: int

definition syncRead :: "('n, 'c) Resolved \<Rightarrow> syncSnapshot" where
  "syncRead r = \<lparr>sy_managedDNS = rs_setDNS r, sy_managedDNSActive = rs_setDNSActive r, sy_fallback = rs_fallback r, sy_ifidx = rs_ifidx r\<rparr>"

definition syncLink :: "('k, 'o) resolvedBus \<Rightarrow> syncSnapshot \<Rightarrow> ('n, 'c) Resolved \<Rightarrow> ('k, AddrPort list \<times> resolvedLinkDomain list) query" where
  "syncLink B s r k =
     (if sy_ifidx s = 0 then (Inr ([], []), k)
      else case linkDNSServers B r k of (Inl err, k) \<Rightarrow> (Inl err, k)
        | (Inr servers, k) \<Rightarrow> (case linkDomains B r k of (domains, k) \<Rightarrow> (Inr (servers, case domains of Inl _ \<Rightarrow> [] | Inr ds \<Rightarrow> ds), k)))"

definition syncRest :: "('n, 'c, 'k) dnsRouter \<Rightarrow> ('k, 'o) resolvedBus \<Rightarrow> syncSnapshot \<Rightarrow> ('n, 'c) Resolved \<Rightarrow> 'k \<Rightarrow>
    goError option \<times> ('n, 'c) Resolved \<times> 'k" where
  "syncRest R B s r k = (case syncLink B s r k of (Inl err, k) \<Rightarrow> (Some err, r, k)
     | (Inr (servers, domains), k) \<Rightarrow>
         (case reapplyDNSIfNeeded B r (sy_managedDNSActive s) (sy_managedDNS s) servers k of
            (Inl err, k) \<Rightarrow> (Some err, r, k)
          | (Inr needsApply, k) \<Rightarrow>
              if needsApply then refreshUpstreamsFromLink R B (sy_fallback s) [sy_managedDNS s] servers domains r k
              else refreshUpstreamsWithFallback R B (sy_fallback s) [sy_managedDNS s] r k))"

definition syncResolvedState :: "('n, 'c, 'k) dnsRouter \<Rightarrow> ('k, 'o) resolvedBus \<Rightarrow> ('n, 'c) Resolved \<Rightarrow> 'k \<Rightarrow>
    goError option \<times> ('n, 'c) Resolved \<times> 'k" where
  "syncResolvedState R B r k = (if rs_closed r then (Some (dr_ErrClosed R), r, k) else syncRest R B (syncRead r) r k)"

text \<open>Signals: the strings of the body, nothing for a value of another type.\<close>

record dbusSignal =
  sg_Name :: string
  sg_Path :: string
  sg_Body :: "string option list"

abbreviation dbusResolvedPath :: string where "dbusResolvedPath \<equiv> ''/org/freedesktop/resolve1''"

definition asString :: "string option \<Rightarrow> string" where
  "asString v = (case v of Some s \<Rightarrow> s | None \<Rightarrow> '''')"

definition resolvedSignalNeedsSync :: "dbusSignal option \<Rightarrow> bool" where
  "resolvedSignalNeedsSync signal = (case signal of None \<Rightarrow> False
     | Some s \<Rightarrow>
         if sg_Name s = ''org.freedesktop.DBus.NameOwnerChanged'' then
           (if sg_Path s \<noteq> ''/org/freedesktop/DBus'' \<or> length (sg_Body s) \<noteq> 3 then False
            else asString (sg_Body s ! 0) = ''org.freedesktop.resolve1'' \<and> asString (sg_Body s ! 2) \<noteq> '''')
         else if sg_Name s \<noteq> ''org.freedesktop.DBus.Properties.PropertiesChanged'' then False
         else sg_Path s = dbusResolvedPath \<or> hasPrefix (sg_Path s) (dbusResolvedPath @ ''/link/''))"

text \<open>
  The goroutine: an event of its \<open>select\<close> statement and whether its timer is armed. \<open>None\<close> is its end. The timer
  fires only when it is armed; the error of a round is only logged.
\<close>

datatype monitorEvent = MonDone | MonSignal "dbusSignal option" | MonSignalsClosed | MonTimer

definition resolvedMonitorStep :: "('n, 'c, 'k) dnsRouter \<Rightarrow> ('k, 'o) resolvedBus \<Rightarrow> monitorEvent \<Rightarrow> bool \<Rightarrow> ('n, 'c) Resolved \<Rightarrow> 'k \<Rightarrow>
    (bool option) \<times> ('n, 'c) Resolved \<times> 'k" where
  "resolvedMonitorStep R B ev armed r k = (case ev of
       MonDone \<Rightarrow> (None, r, k)
     | MonSignalsClosed \<Rightarrow> (None, r, k)
     | MonSignal signal \<Rightarrow> (Some (armed \<or> resolvedSignalNeedsSync signal), r, k)
     | MonTimer \<Rightarrow> if \<not> armed then (Some armed, r, k)
         else (case syncResolvedState R B r k of (err, r, k) \<Rightarrow> (Some False, r, k)))"

definition startMonitor :: "('k, 'o) resolvedBus \<Rightarrow> ('n, 'c) Resolved \<Rightarrow> 'k \<Rightarrow> goError option \<times> ('n, 'c) Resolved \<times> 'k" where
  "startMonitor B r k = (case thenE
       (wrapE (\<lambda>err. Errorf ''resolved: subscribe properties changes: %w'' [] [err]) (rb_AddMatchSignal B ''PropertiesChanged''))
       (wrapE (\<lambda>err. Errorf ''resolved: subscribe owner changes: %w'' [] [err]) (rb_AddMatchSignal B ''NameOwnerChanged'')) k of
     (Some err, k) \<Rightarrow> (Some err, r, k) | (None, k) \<Rightarrow> (None, r\<lparr>rs_watching := True\<rparr>, k))"

definition NewResolved :: "('n, 'c, 'k) dnsRouter \<Rightarrow> ('k, 'o) resolvedBus \<Rightarrow> 'n option \<Rightarrow> 'n option \<Rightarrow> int \<Rightarrow> AddrPort list \<Rightarrow>
    ('k, ('n, 'c) Resolved) query" where
  "NewResolved R B listenNetwork dialNetwork ifidx fallback k =
     (case requireDNSNetworks ''resolved'' listenNetwork dialNetwork of Some err \<Rightarrow> (Inl err, k)
      | None \<Rightarrow> (case resolvedOptionalIfIndex ifidx of Inl err \<Rightarrow> (Inl err, k)
        | Inr ifidx32 \<Rightarrow> (case rb_Connect B k of
            (Some err, k) \<Rightarrow> (Inl (Errorf ''resolved: connect system bus: %w'' [] [err]), k)
          | (None, k) \<Rightarrow>
              let r = \<lparr>rs_ifidx = ifidx32, rs_closed = False, rs_dialNetwork = dialNetwork, rs_clients = [], rs_fallback = fallback,
                       rs_setDNS = NoAddr, rs_setDNSActive = False, rs_upstreamSig = [], rs_watching = False, rs_targetServers = [], rs_targetDomains = []\<rparr>;
                  k = dr_NewRouter R k in
              (case resolvedRefreshUpstreams R B NoAddr r k of
                 (Some err, r, k) \<Rightarrow> (Inl err, snd (rb_ConnClose B (snd (dr_Close R k))))
               | (None, r, k) \<Rightarrow> (case startMonitor B r k of
                   (Some err, r, k) \<Rightarrow> (Inl err, snd (snd (ResolvedClose R B r k)))
                 | (None, r, k) \<Rightarrow> (Inr r, k))))))"

section \<open>Warnings about other DNS routes\<close>

record resolvedLinkDNSRoute =
  ld_IfIndex :: int
  ld_Servers :: "AddrPort list"
  ld_Domains :: "string list"

record resolvedDNSRoute =
  dr_Servers :: "AddrPort list"
  dr_Domains :: "string list"

record resolvedRouteSnapshot =
  sn_ManagedIfIndex :: int
  sn_ManagedDNS :: Addr
  sn_ManagedLink :: resolvedLinkDNSRoute
  sn_Links :: "resolvedLinkDNSRoute list"
  sn_Global :: resolvedDNSRoute

datatype sysnetWarning = WarningDefaultTunDNSRouteNotExclusive

definition linkDNSRouteDomains :: "resolvedLinkDomain list \<Rightarrow> string list" where
  "linkDNSRouteDomains domains = dedupeStrings (map (\<lambda>d. normalizeResolvedDomain (rl_Domain d)) (filter rl_RoutingOnly domains))"

definition globalDNSRouteDomains :: "resolvedGlobalDomain list \<Rightarrow> string list" where
  "globalDNSRouteDomains domains = dedupeStrings (map (\<lambda>d. normalizeResolvedDomain (rg_Domain d)) (filter rg_RoutingOnly domains))"

definition hasRootDNSRoute :: "string list \<Rightarrow> bool" where
  "hasRootDNSRoute domains = list_ex (\<lambda>d. d = ''.'') domains"

definition onlyManagedDNSServer :: "AddrPort list \<Rightarrow> Addr \<Rightarrow> bool" where
  "onlyManagedDNSServer servers managedDNS = (let servers = dedupeServers servers in length servers = 1 \<and> apAddr (servers ! 0) = managedDNS)"

definition hasNonManagedDNSServer :: "AddrPort list \<Rightarrow> Addr \<Rightarrow> bool" where
  "hasNonManagedDNSServer servers managedDNS = list_ex (\<lambda>s. apAddr s \<noteq> managedDNS) (dedupeServers servers)"

definition resolvedDefaultTunDNSRouteWarnings :: "resolvedRouteSnapshot \<Rightarrow> sysnetWarning list" where
  "resolvedDefaultTunDNSRouteWarnings s =
     (if \<not> addrIsValid (sn_ManagedDNS s) \<or> sn_ManagedIfIndex s \<le> 0 then []
      else if \<not> hasRootDNSRoute (ld_Domains (sn_ManagedLink s)) \<or> \<not> onlyManagedDNSServer (ld_Servers (sn_ManagedLink s)) (sn_ManagedDNS s)
        then [WarningDefaultTunDNSRouteNotExclusive]
      else if hasRootDNSRoute (dr_Domains (sn_Global s)) \<and> hasNonManagedDNSServer (dr_Servers (sn_Global s)) (sn_ManagedDNS s)
        then [WarningDefaultTunDNSRouteNotExclusive]
      else if list_ex (\<lambda>l. hasRootDNSRoute (ld_Domains l) \<and> hasNonManagedDNSServer (ld_Servers l) (sn_ManagedDNS s)) (sn_Links s)
        then [WarningDefaultTunDNSRouteNotExclusive]
      else [])"

text \<open>The links of the snapshot are in the order of the map.\<close>

definition snapshotOf :: "int \<Rightarrow> Addr \<Rightarrow> AddrPort list \<Rightarrow> resolvedLinkDomain list \<Rightarrow> AddrPort ifmap \<Rightarrow> resolvedGlobalDomain ifmap \<Rightarrow> resolvedRouteSnapshot" where
  "snapshotOf ifidx dnsIP servers domains mservers mdomains =
     \<lparr>sn_ManagedIfIndex = ifidx, sn_ManagedDNS = dnsIP,
      sn_ManagedLink = \<lparr>ld_IfIndex = ifidx, ld_Servers = servers, ld_Domains = linkDNSRouteDomains domains\<rparr>,
      sn_Links = map (\<lambda>(i, ss). \<lparr>ld_IfIndex = i, ld_Servers = ss, ld_Domains = globalDNSRouteDomains (ifGet mdomains i)\<rparr>)
        (filter (\<lambda>(i, ss). i \<noteq> 0 \<and> i \<noteq> ifidx) mservers),
      sn_Global = \<lparr>dr_Servers = ifGet mservers 0, dr_Domains = globalDNSRouteDomains (ifGet mdomains 0)\<rparr>\<rparr>"

definition defaultTunDNSRouteSnapshot :: "('k, 'o) resolvedBus \<Rightarrow> int \<Rightarrow> Addr \<Rightarrow> ('k, resolvedRouteSnapshot) query" where
  "defaultTunDNSRouteSnapshot B ifidx dnsIP k =
     (case linkObjectFor B ifidx k of (Inl err, k) \<Rightarrow> (Inl err, k)
      | (Inr link, k) \<Rightarrow> (case linkDNSServersFor B link k of (Inl err, k) \<Rightarrow> (Inl err, k)
        | (Inr servers, k) \<Rightarrow> (case linkDomainsFor B link k of (Inl err, k) \<Rightarrow> (Inl err, k)
          | (Inr domains, k) \<Rightarrow> (case managerDNSServers B k of (Inl err, k) \<Rightarrow> (Inl err, k)
            | (Inr mservers, k) \<Rightarrow> (case managerDomains B k of (Inl err, k) \<Rightarrow> (Inl err, k)
              | (Inr mdomains, k) \<Rightarrow> (Inr (snapshotOf ifidx dnsIP servers domains mservers mdomains), k))))))"

definition DefaultTunDNSRouteWarnings :: "('k, 'o) resolvedBus \<Rightarrow> int \<Rightarrow> Addr \<Rightarrow> 'k \<Rightarrow> sysnetWarning list \<times> 'k" where
  "DefaultTunDNSRouteWarnings B ifidx dnsIP k = (case defaultTunDNSRouteSnapshot B ifidx dnsIP k of
     (Inl _, k) \<Rightarrow> ([], k) | (Inr s, k) \<Rightarrow> (resolvedDefaultTunDNSRouteWarnings s, k))"

section \<open>The flat list of upstream servers\<close>

definition otherServersEx :: "int \<Rightarrow> resolvedGlobalNameserverEx list \<Rightarrow> AddrPort list" where
  "otherServersEx targetIfidx raw = List.map_filter (\<lambda>s. if targetIfidx \<noteq> 0 \<and> gx_IfIndex s = targetIfidx then None
     else map_option (\<lambda>addr. addrPort addr (gx_Port s)) (addrFromResolved (gx_Family s) (gx_Address s))) raw"

definition otherServers :: "int \<Rightarrow> resolvedGlobalNameserver list \<Rightarrow> AddrPort list" where
  "otherServers targetIfidx raw = List.map_filter (\<lambda>s. if targetIfidx \<noteq> 0 \<and> gn_IfIndex s = targetIfidx then None
     else map_option (\<lambda>addr. AddrPort addr 53) (addrFromResolved (gn_Family s) (gn_Address s))) raw"

definition globalDNSServersLegacy :: "('k, 'o) resolvedBus \<Rightarrow> ('n, 'c) Resolved \<Rightarrow> ('k, AddrPort list) query" where
  "globalDNSServersLegacy B r k = (case resolvedOptionalIfIndex (InterfaceIndex r) of Inl err \<Rightarrow> (Inl err, k)
     | Inr targetIfidx \<Rightarrow> mapQ (otherServers targetIfidx) (readProperty ''manager DNS'' (rb_ManagerDNS B)) k)"

definition globalDNSServers :: "('k, 'o) resolvedBus \<Rightarrow> ('n, 'c) Resolved \<Rightarrow> ('k, AddrPort list) query" where
  "globalDNSServers B r k = (case resolvedOptionalIfIndex (InterfaceIndex r) of Inl err \<Rightarrow> (Inl err, k)
     | Inr targetIfidx \<Rightarrow> (case rb_ManagerDNSEx B k of
         (Inr (Inr raw), k) \<Rightarrow> (Inr (otherServersEx targetIfidx raw), k)
       | (_, k) \<Rightarrow> globalDNSServersLegacy B r k))"

definition upstreamServersFiltered :: "('k, 'o) resolvedBus \<Rightarrow> ('n, 'c) Resolved \<Rightarrow> AddrPort list \<Rightarrow> Addr \<Rightarrow> ('k, string list) query" where
  "upstreamServersFiltered B r fallback exclude k = (case linkDNSServers B r k of (Inl err, k) \<Rightarrow> (Inl err, k)
     | (Inr servers, k) \<Rightarrow>
         (case (let servers = filterAddr servers [exclude] in
             if length servers = 0 then mapQ (\<lambda>s. filterAddr s [exclude]) (globalDNSServers B r) k else (Inr servers, k)) of
            (Inl err, k) \<Rightarrow> (Inl err, k)
          | (Inr servers, k) \<Rightarrow>
              let servers = (if length servers = 0 then filterAddr fallback [exclude] else servers) in
              if length servers = 0 then (Inl (ErrorsNew ''resolved: no upstream DNS servers''), k)
              else let urls = serverURLs servers in
                if length urls = 0 then (Inl (ErrorsNew ''resolved: no usable upstream DNS servers''), k) else (Inr urls, k)))"

definition upstreamServers :: "('k, 'o) resolvedBus \<Rightarrow> ('n, 'c) Resolved \<Rightarrow> AddrPort list \<Rightarrow> ('k, string list) query" where
  "upstreamServers B r fallback = upstreamServersFiltered B r fallback NoAddr"

end
