(* ===== verification/Dns_Resolved_Safety.thy ===== *)
theory Dns_Resolved_Safety
  imports Dns_Resolved Dns_Safety
begin

text \<open>
  What the provider for systemd-resolved guarantees: no request goes to the managed server, and the link is configured as
  long as a server is installed. The bus is described by the contract \<open>resolved_world\<close>.
\<close>

section \<open>Routes that avoid servers\<close>

text \<open>The servers a list of excluded addresses leaves, with texts that have no separators.\<close>

definition admissible :: "Addr list \<Rightarrow> AddrPort \<Rightarrow> bool" where
  "admissible exclude s \<longleftrightarrow> (apIsValid s \<longrightarrow> plainServer s \<and> apAddr s \<notin> set exclude)"

definition goodRoute :: "Addr list \<Rightarrow> resolvedUpstreamRoute \<Rightarrow> bool" where
  "goodRoute exclude route \<longleftrightarrow> ur_urls route \<noteq> [] \<and> (\<forall>u \<in> set (ur_urls route). plainURL u) \<and>
     (\<forall>a \<in> set exclude. addrIsValid a \<longrightarrow> avoids a (ur_urls route))"

definition goodBuilder :: "Addr list \<Rightarrow> resolvedRouteBuilder \<Rightarrow> bool" where
  "goodBuilder exclude b \<longleftrightarrow> (\<forall>input \<in> set b. \<forall>s \<in> set (ri_servers input). admissible exclude s)"

lemma filter_admissible: "\<forall>s \<in> set servers. plainServer s \<Longrightarrow> \<forall>s \<in> set (filterAddr servers exclude). admissible exclude s"
  by (auto simp: admissible_def)

lemma goodBuilder_add:
  "goodBuilder exclude b \<Longrightarrow> \<forall>s \<in> set servers. admissible exclude s \<Longrightarrow> goodBuilder exclude (builderAdd servers domains b)"
  by (auto simp: goodBuilder_def builderAdd_def Let_def)

lemma goodBuilder_globals:
  assumes "goodBuilder exclude b" and "\<forall>i. \<forall>s \<in> set (ifGet ms i). plainServer s"
  shows "goodBuilder exclude (addGlobals t exclude ms mdomains b)"
  unfolding addGlobals_def
proof (rule foldl_inv)
  show "goodBuilder exclude b" by (rule assms(1))
  fix b i assume "goodBuilder exclude b"
  then show "goodBuilder exclude (if t \<noteq> 0 \<and> i = t then b
      else let servers = filterAddr (ifGet ms i) exclude in if length servers = 0 then b else addGlobal servers (ifGet mdomains i) b)"
    using assms(2) filter_admissible [of "ifGet ms i" exclude] by (auto simp: Let_def addGlobal_def intro: goodBuilder_add)
qed

lemma goodBuilder_routes:
  assumes "goodBuilder exclude b" and "route \<in> set (fst (builderConfig b))"
  shows "goodRoute exclude route"
proof -
  obtain j where j: "j < length b" and u: "ur_urls route = serverURLs (ri_servers (b ! j))" and ne: "ur_urls route \<noteq> []"
    using builderConfigFrom_routes [OF assms(2) [unfolded builderConfig_def]] by auto
  have a: "\<forall>s \<in> set (ri_servers (b ! j)). admissible exclude s" using assms(1) j by (auto simp: goodBuilder_def)
  have "avoids x (ur_urls route)" if "x \<in> set exclude" "addrIsValid x" for x
    unfolding u by (rule serverURLs_avoid) (use that a in \<open>auto simp: admissible_def\<close>)
  moreover have "plainURL x" if "x \<in> set (ur_urls route)" for x
    using that a plain_serverURL by (auto simp: u set_serverURLs admissible_def)
  ultimately show ?thesis using ne by (auto simp: goodRoute_def)
qed

text \<open>What systemd-resolved reports has no zones.\<close>

lemma addrFromResolved_plain: "addrFromResolved family raw = Some a \<Longrightarrow> plainServer (AddrPort a p)"
  by (auto simp: addrFromResolved_def plainServer_def split: if_splits)

lemma linkServers_plain: "\<forall>s \<in> set (linkServers raw). plainServer s" "\<forall>s \<in> set (linkServersEx raw2). plainServer s"
  by (auto simp: linkServers_def linkServersEx_def set_map_filter_Some addrPort_def Let_def dest: addrFromResolved_plain)

lemma ifGet_append: "ifGet (ifAppend i x m) j = (if i = j then ifGet m j @ [x] else ifGet m j)"
  by (induction i x m rule: ifAppend.induct) (auto simp: ifGet_def)

lemma ifGet_collect: "s \<in> set (ifGet (ifCollect ps) i) \<Longrightarrow> (i, s) \<in> set ps"
proof -
  have "s \<in> set (ifGet (foldl (\<lambda>m (i, x). ifAppend i x m) m ps) i) \<Longrightarrow> s \<in> set (ifGet m i) \<or> (i, s) \<in> set ps" for m
  proof (induction ps arbitrary: m)
    case (Cons p ps)
    obtain j x where p: "p = (j, x)" by force
    have "s \<in> set (ifGet (ifAppend j x m) i) \<or> (i, s) \<in> set ps" using Cons.IH [of "ifAppend j x m"] Cons.prems p by simp
    then show ?case by (auto simp: p ifGet_append split: if_splits)
  qed simp
  from this [of "[]"] show "s \<in> set (ifGet (ifCollect ps) i) \<Longrightarrow> (i, s) \<in> set ps" by (auto simp: ifCollect_def ifGet_def)
qed

lemma managerServers_plain: "\<forall>s \<in> set (ifGet (managerServersEx raw) i). plainServer s" "\<forall>s \<in> set (ifGet (managerServersOf raw2) i). plainServer s"
  by (auto simp: managerServersEx_def managerServersOf_def set_map_filter_Some addrPort_def Let_def
      dest!: ifGet_collect dest: addrFromResolved_plain)

lemma wrapQ_Inr: "wrapQ w f k = (Inr y, k') \<longleftrightarrow> f k = (Inr y, k')"
proof (cases "f k")
  case (Pair r k1)
  then show ?thesis by (cases r) (auto simp: wrapQ_def)
qed

lemma mapQ_Inr: "mapQ g f k = (Inr y, k') \<longleftrightarrow> (\<exists>z. f k = (Inr z, k') \<and> y = g z)"
proof (cases "f k")
  case (Pair r k1)
  then show ?thesis by (cases r) (auto simp: mapQ_def)
qed

lemma managerDNSServers_plain: "managerDNSServers B k = (Inr ms, k') \<Longrightarrow> \<forall>s \<in> set (ifGet ms i). plainServer s"
  using managerServers_plain
  by (auto simp: managerDNSServers_def managerDNSServersLegacy_def mapQ_Inr split: prod.splits sum.splits)

lemma linkDNSServers_plain: "linkDNSServers B r k = (Inr ss, k') \<Longrightarrow> \<forall>s \<in> set ss. plainServer s"
  using linkServers_plain
  by (auto simp: linkDNSServers_def linkDNSServersFor_def linkDNSServersLegacy_def mapQ_Inr split: prod.splits sum.splits)

lemma readTarget_plain: "readTarget B r k = (Inr (ss, ds), k') \<Longrightarrow> \<forall>s \<in> set ss. plainServer s"
  by (auto simp: readTarget_def split: if_splits prod.splits sum.splits dest!: linkDNSServers_plain)

lemma syncLink_plain: "syncLink B s r k = (Inr (ss, ds), k') \<Longrightarrow> \<forall>s \<in> set ss. plainServer s"
  by (auto simp: syncLink_def split: if_splits prod.splits sum.splits dest!: linkDNSServers_plain)

definition goodConfig :: "Addr list \<Rightarrow> resolvedUpstreamConfig \<Rightarrow> bool" where
  "goodConfig exclude cfg \<longleftrightarrow> (\<forall>route \<in> set (uc_routes cfg). goodRoute exclude route) \<and> uc_routes cfg \<noteq> [] \<and>
     uc_signature cfg = map routeSignature (uc_routes cfg) \<and> (\<forall>s \<in> set (uc_targetServers cfg). plainServer s)"

lemma upstreamConfigFromLink_good:
  assumes "upstreamConfigFromLink B r fallback exclude ss ds k = (Inr cfg, k')"
    and "\<forall>s \<in> set ss. plainServer s" and "\<forall>s \<in> set fallback. plainServer s" and "\<forall>s \<in> set (rs_targetServers r). plainServer s"
  shows "goodConfig exclude cfg"
proof -
  obtain ms k1 where ms: "managerDNSServers B k = (Inr ms, k1)"
    using assms(1) by (cases "managerDNSServers B k"; cases "fst (managerDNSServers B k)") (auto simp: upstreamConfigFromLink_def)
  obtain md k2 where md: "managerDomains B k1 = (md, k2)" by force
  let ?md = "case md of Inl _ \<Rightarrow> [] | Inr m \<Rightarrow> m"
  obtain ts td where t: "chooseTarget r exclude ss ds ms ?md = (ts, td)" by force
  note plain = managerDNSServers_plain [OF ms]
  have ts: "\<forall>s \<in> set ts. admissible exclude s \<and> plainServer s"
    using t assms(2,4) plain filter_admissible [of _ exclude] by (auto simp: chooseTarget_def Let_def admissible_def split: if_splits)
  let ?b1 = "addGlobals (rs_ifidx r) exclude ms ?md (addLink ts td [])"
  define b where "b = (if ?b1 = [] then addDefault (filterAddr fallback exclude) ?b1 else ?b1)"
  have b1: "goodBuilder exclude ?b1"
    by (rule goodBuilder_globals) (use ts plain in \<open>auto simp: addLink_def goodBuilder_def [of _ "[]"] intro!: goodBuilder_add\<close>)
  then have b: "goodBuilder exclude b"
    using filter_admissible [OF assms(3)] unfolding b_def by (auto simp: addDefault_def intro!: goodBuilder_add)
  have u: "uc_routes cfg = fst (builderConfig b) \<and> uc_signature cfg = snd (builderConfig b) \<and> uc_targetServers cfg = ts \<and> uc_routes cfg \<noteq> []"
    unfolding b_def using assms(1) ms md t by (auto simp: upstreamConfigFromLink_def Let_def split: if_splits prod.splits)
  have "snd (builderConfig b) = map routeSignature (fst (builderConfig b))"
    unfolding builderConfig_def by (rule builderConfigFrom_signature)
  then show ?thesis unfolding goodConfig_def using u goodBuilder_routes [OF b] ts by metis
qed

lemma upstreamConfig_good:
  assumes "upstreamConfig B r fallback exclude k = (Inr cfg, k')"
    and "\<forall>s \<in> set fallback. plainServer s" and "\<forall>s \<in> set (rs_targetServers r). plainServer s"
  shows "goodConfig exclude cfg"
proof -
  obtain ss ds k1 where t: "readTarget B r k = (Inr (ss, ds), k1)" "upstreamConfigFromLink B r fallback exclude ss ds k1 = (Inr cfg, k')"
    using assms(1) by (auto simp: upstreamConfig_def split: prod.splits sum.splits)
  from upstreamConfigFromLink_good [OF t(2) readTarget_plain [OF t(1)] assms(2,3)] show ?thesis .
qed

section \<open>The invariant\<close>

text \<open>
  The open clients attached to the router are the provider's, and each has the URLs of one of the
  routes that the signature stands for, if there is one; these routes avoid the managed server.
\<close>

definition attachedTo :: "('c \<Rightarrow> string list) \<Rightarrow> 'c dnsWorld \<Rightarrow> (string \<times> 'c) list \<Rightarrow> resolvedUpstreamRoute list \<Rightarrow> bool" where
  "attachedTo urlsOf w clients routes \<longleftrightarrow> (\<forall>name c. w_backend w name = Some c \<and> c \<in> w_live w \<longrightarrow>
     (name, c) \<in> set clients \<and> (\<exists>route \<in> set routes. urlsOf c = ur_urls route))"

definition managedAddrs :: "('n, 'c) Resolved \<Rightarrow> Addr list" where
  "managedAddrs r = (if rs_setDNSActive r then [rs_setDNS r] else [])"

definition settled :: "('c \<Rightarrow> string list) \<Rightarrow> 'c dnsWorld \<Rightarrow> Addr list \<Rightarrow> ('n, 'c) Resolved \<Rightarrow> bool" where
  "settled urlsOf w exclude r \<longleftrightarrow> (\<exists>routes. attachedTo urlsOf w (rs_clients r) routes \<and> (\<forall>route \<in> set routes. goodRoute exclude route) \<and>
     rs_upstreamSig r \<in> {[], map routeSignature routes})"

definition resInv :: "('c \<Rightarrow> string list) \<Rightarrow> 'c dnsWorld \<Rightarrow> ('n, 'c) Resolved \<Rightarrow> bool" where
  "resInv urlsOf w r \<longleftrightarrow> settled urlsOf w (managedAddrs r) r \<and> (rs_setDNSActive r \<longrightarrow> addrIsValid (rs_setDNS r)) \<and>
     (\<forall>s \<in> set (rs_fallback r). plainServer s) \<and> (\<forall>s \<in> set (rs_targetServers r). plainServer s)"

lemma resInv_forwards:
  assumes "resInv urlsOf w r" and "rs_setDNSActive r"
  shows "avoids (rs_setDNS r) (forwards urlsOf w msg)"
proof -
  obtain routes where r: "attachedTo urlsOf w (rs_clients r) routes" "\<forall>route \<in> set routes. goodRoute (managedAddrs r) route"
    using assms(1) by (auto simp: resInv_def settled_def)
  show ?thesis
  proof (cases "w_backend w (w_route w msg)")
    case (Some c)
    show ?thesis
    proof (cases "c \<in> w_live w")
      case True
      then obtain route where "route \<in> set routes" "urlsOf c = ur_urls route" using r(1) Some unfolding attachedTo_def by blast
      moreover from this have "avoids (rs_setDNS r) (ur_urls route)"
        using r(2) assms by (auto simp: goodRoute_def managedAddrs_def resInv_def)
      ultimately show ?thesis using Some True by (simp add: forwards_def)
    qed (simp add: forwards_def Some)
  qed (simp add: forwards_def)
qed

lemma goodRoute_mono: "goodRoute exclude route \<Longrightarrow> set xs \<subseteq> set exclude \<Longrightarrow> goodRoute xs route"
  by (auto simp: goodRoute_def)

text \<open>Routes with the same signatures are equally good.\<close>

lemma same_signature_good:
  assumes "map routeSignature rs = map routeSignature qs" and "\<forall>r \<in> set rs. goodRoute exclude r" and "\<forall>q \<in> set qs. goodRoute [] q"
  shows "\<forall>q \<in> set qs. goodRoute exclude q"
proof
  fix q assume "q \<in> set qs"
  then obtain i where i: "i < length qs" "q = qs ! i" by (metis in_set_conv_nth)
  have l: "length rs = length qs" using assms(1) by (metis length_map)
  then have s: "routeSignature (rs ! i) = routeSignature q" using assms(1) i by (metis nth_map)
  have r: "goodRoute exclude (rs ! i)" using assms(2) i l by simp
  have "goodRoute [] q" using assms(3) \<open>q \<in> set qs\<close> by blast
  then have "ur_urls (rs ! i) = ur_urls q" using r s by (intro routeSignature_urls) (auto simp: goodRoute_def)
  then show "goodRoute exclude q" using r by (simp add: goodRoute_def)
qed

lemma attachedTo_shrink: "attachedTo urlsOf w clients routes \<Longrightarrow> w_backend w' \<subseteq>\<^sub>m w_backend w \<Longrightarrow> w_live w' \<subseteq> w_live w \<Longrightarrow>
    attachedTo urlsOf w' clients routes"
  unfolding attachedTo_def map_le_def by (metis domI subsetD)

context dns_router
begin

lemma newClients_view:
  assumes "newClients R net routes k = (cs, k')"
  shows "w_backend (view k') = w_backend (view k) \<and> w_live (view k') = w_live (view k) \<union> snd ` set cs \<and>
    snd ` set cs \<inter> ran (w_backend (view k)) = {} \<and> (\<forall>(name, c) \<in> set cs. \<exists>route \<in> set routes. urlsOf c = ur_urls route)"
  using assms
proof (induction routes arbitrary: k k' cs)
  case (Cons route routes)
  obtain c k1 where c: "dr_NewClient R net (ur_urls route) k = (c, k1)" by force
  obtain ds k2 where ds: "newClients R net routes k1 = (ds, k2)" by force
  have eq: "cs = (ur_name route, c) # ds" "k' = k2" using Cons.prems c ds by auto
  note n = new_client [OF c]
  note i = Cons.IH [OF ds]
  have "\<forall>(name, c) \<in> set cs. \<exists>q \<in> set (route # routes). urlsOf c = ur_urls q" using i n eq by auto
  moreover have "snd ` set cs \<inter> ran (w_backend (view k)) = {}" using i n eq by auto
  ultimately show ?case using i n eq by auto
qed simp

lemma closeClients_view:
  "w_backend (view (closeDNSClients R cs k)) = w_backend (view k) \<and> w_live (view (closeDNSClients R cs k)) = w_live (view k) - snd ` set cs"
proof (induction cs arbitrary: k)
  case (Cons nc cs)
  obtain name c where nc: "nc = (name, c)" by force
  obtain e k1 where c: "dr_ClientClose R c k = (e, k1)" by force
  show ?case using Cons.IH [of k1] client_close [OF c] c nc by (auto simp: closeDNSClients_def)
qed (simp add: closeDNSClients_def)

lemma attachAll_view:
  assumes "forE (\<lambda>(name, client). dr_Attach R name client) cs k = (e, k')"
  shows "w_live (view k') = w_live (view k) \<and>
    (\<forall>name c. w_backend (view k') name = Some c \<longrightarrow> w_backend (view k) name = Some c \<or> (name, c) \<in> set cs)"
  using assms
proof (induction cs arbitrary: k)
  case (Cons nc cs)
  obtain name c where nc: "nc = (name, c)" by force
  obtain e1 k1 where a: "dr_Attach R name c k = (e1, k1)" by force
  show ?case
  proof (cases e1)
    case None
    then have "forE (\<lambda>(name, client). dr_Attach R name client) cs k1 = (e, k')" using Cons.prems nc a by simp
    from Cons.IH [OF this] attach [OF a] None nc show ?thesis by (auto split: if_splits)
  next
    case (Some err)
    then show ?thesis using Cons.prems nc a attach [OF a] by simp
  qed
qed simp

lemma detachOld_view: "w_live (view (detachOld R old cs k)) = w_live (view k) \<and> w_backend (view (detachOld R old cs k)) \<subseteq>\<^sub>m w_backend (view k)"
proof (induction old arbitrary: k)
  case (Cons nc old)
  obtain name c where nc: "nc = (name, c)" by force
  obtain e k1 where d: "dr_Detach R name k = (e, k1)" by force
  have v: "w_live (view k1) = w_live (view k) \<and> w_backend (view k1) \<subseteq>\<^sub>m w_backend (view k)"
    using detach [OF d] by (auto simp: map_le_def)
  show ?case
  proof (cases "map_of cs name = None")
    case True
    then show ?thesis using Cons.IH [of k1] v d nc by (auto simp: detachOld_def intro: map_le_trans)
  next
    case False
    then have "detachOld R (nc # old) cs k = detachOld R old cs k" by (auto simp: detachOld_def nc)
    then show ?thesis using Cons.IH [of k] by simp
  qed
qed (simp add: detachOld_def)

lemma settled_mono: "settled urlsOf w exclude r \<Longrightarrow> set xs \<subseteq> set exclude \<Longrightarrow> settled urlsOf w xs r"
  unfolding settled_def using goodRoute_mono by blast

lemma setUpstreamConfig_settled:
  assumes "setUpstreamConfig R cfg r k = (e, r', k')" and old: "settled urlsOf (view k) xs r" and good: "goodConfig exclude cfg"
  shows "if e = None then settled urlsOf (view k') exclude r' else settled urlsOf (view k') xs r'"
proof -
  obtain routes where r: "attachedTo urlsOf (view k) (rs_clients r) routes" "\<forall>route \<in> set routes. goodRoute xs route"
    "rs_upstreamSig r \<in> {[], map routeSignature routes}" using old by (auto simp: settled_def)
  obtain cs k1 where n: "newClients R (rs_dialNetwork r) (uc_routes cfg) k = (cs, k1)" by force
  note v1 = newClients_view [OF n]
  obtain e2 k2 where a: "forE (\<lambda>(name, client). dr_Attach R name client) cs k1 = (e2, k2)" by force
  note v2 = attachAll_view [OF a]
  obtain e3 k3 where s: "dr_SetRouter R (resolvedRouteFunc (uc_routes cfg)) k2 = (e3, k3)" by force
  have v3: "w_backend (view k3) = w_backend (view k2) \<and> w_live (view k3) = w_live (view k2)" using set_router [OF s] by simp
  have dead: "attachedTo urlsOf (view (closeDNSClients R cs x)) (rs_clients r) routes" if "x \<in> {k1, k2, k3}" for x
  proof -
    have bk: "w_backend (view x) = w_backend (view k) \<or> w_backend (view x) = w_backend (view k2)" using that v1 v3 by auto
    have b2: "w_backend (view k2) name = Some c \<Longrightarrow> w_backend (view k) name = Some c \<or> (name, c) \<in> set cs" for name c
      using v1 v2 by simp
    have "w_live (view x) = w_live (view k) \<union> snd ` set cs" using that v1 v2 v3 by auto
    moreover have "w_backend (view x) name = Some c \<Longrightarrow> w_backend (view k) name = Some c \<or> (name, c) \<in> set cs" for name c
      using bk b2 by metis
    ultimately have lb: "w_live (view x) = w_live (view k) \<union> snd ` set cs"
      "\<And>name c. w_backend (view x) name = Some c \<Longrightarrow> w_backend (view k) name = Some c \<or> (name, c) \<in> set cs" by blast+
    show ?thesis unfolding attachedTo_def
    proof (intro allI impI)
      fix name c assume "w_backend (view (closeDNSClients R cs x)) name = Some c \<and> c \<in> w_live (view (closeDNSClients R cs x))"
      then have b: "w_backend (view x) name = Some c" and l: "c \<in> w_live (view x)" and "c \<notin> snd ` set cs"
        using closeClients_view [of cs x] by auto
      then have "(name, c) \<notin> set cs" by force
      then have "w_backend (view k) name = Some c" "c \<in> w_live (view k)" using lb(2) [OF b] lb(1) l \<open>c \<notin> snd ` set cs\<close> by auto
      then show "(name, c) \<in> set (rs_clients r) \<and> (\<exists>route \<in> set routes. urlsOf c = ur_urls route)"
        using r(1) unfolding attachedTo_def by blast
    qed
  qed
  let ?k4 = "detachOld R (rs_clients r) cs k3"
  let ?k5 = "closeDNSClients R (rs_clients r) ?k4"
  have new: "attachedTo urlsOf (view ?k5) cs (uc_routes cfg)"
    unfolding attachedTo_def
  proof (intro allI impI)
    fix name c assume b: "w_backend (view ?k5) name = Some c \<and> c \<in> w_live (view ?k5)"
    then have "w_backend (view ?k4) name = Some c" "c \<in> w_live (view ?k4)" "c \<notin> snd ` set (rs_clients r)"
      using closeClients_view [of "rs_clients r" ?k4] by auto
    then have "w_backend (view k2) name = Some c" "c \<in> w_live (view k2)"
      using detachOld_view [of "rs_clients r" cs k3] v3 by (auto simp: map_le_def dom_def)
    then have "w_backend (view k) name = Some c \<or> (name, c) \<in> set cs" and l: "c \<in> w_live (view k) \<union> snd ` set cs"
      using v1 v2 by auto
    moreover have False if "w_backend (view k) name = Some c"
    proof -
      have "c \<notin> snd ` set cs" using that v1 by (auto simp: ran_def)
      then have "(name, c) \<in> set (rs_clients r)" using that l r(1) by (auto simp: attachedTo_def)
      then show False using \<open>c \<notin> snd ` set (rs_clients r)\<close> by force
    qed
    ultimately show "(name, c) \<in> set cs \<and> (\<exists>route \<in> set (uc_routes cfg). urlsOf c = ur_urls route)" using v1 by blast
  qed
  have fail: "settled urlsOf (view (closeDNSClients R cs x)) xs r" if "x \<in> {k1, k2, k3}" for x
    using dead [OF that] r by (auto simp: settled_def)
  let ?r = "r\<lparr>rs_clients := cs, rs_upstreamSig := uc_signature cfg, rs_targetServers := uc_targetServers cfg, rs_targetDomains := uc_targetDomains cfg\<rparr>"
  have done5: "settled urlsOf (view ?k5) exclude ?r" using new good by (auto simp: settled_def goodConfig_def)
  show ?thesis
  proof (cases "rs_closed r")
    case True
    then show ?thesis using assms(1) n fail by (auto simp: setUpstreamConfig_def)
  next
    case False
    then show ?thesis using assms(1) n a s fail done5
      by (cases e2; cases e3) (auto simp: setUpstreamConfig_def Let_def)
  qed
qed

lemma setUpstreamConfig_fields:
  assumes "setUpstreamConfig R cfg r k = (e, r', k')"
  shows "rs_setDNS r' = rs_setDNS r \<and> rs_setDNSActive r' = rs_setDNSActive r \<and> rs_fallback r' = rs_fallback r \<and> rs_closed r' = rs_closed r \<and>
    rs_ifidx r' = rs_ifidx r \<and> (rs_targetServers r' = rs_targetServers r \<or> rs_targetServers r' = uc_targetServers cfg)"
  using assms by (auto simp: setUpstreamConfig_def Let_def split: if_splits prod.splits option.splits)

lemma installConfig_inv:
  assumes "installConfig R c r k = (e, r', k')" and inv: "resInv urlsOf (view k) r" and good: "\<And>cfg. c = Inr cfg \<Longrightarrow> goodConfig exclude cfg"
    and ex: "set (managedAddrs r) \<subseteq> set exclude"
  shows "resInv urlsOf (view k') r'" and "e = None \<Longrightarrow> settled urlsOf (view k') exclude r'"
    and "rs_setDNS r' = rs_setDNS r \<and> rs_setDNSActive r' = rs_setDNSActive r \<and> rs_closed r' = rs_closed r \<and> rs_ifidx r' = rs_ifidx r"
proof -
  have old: "settled urlsOf (view k) (managedAddrs r) r" using inv by (simp add: resInv_def)
  consider (err) err where "c = Inl err" | (same) cfg where "c = Inr cfg" "uc_signature cfg = rs_upstreamSig r"
    | (new) cfg where "c = Inr cfg" "uc_signature cfg \<noteq> rs_upstreamSig r" by (cases c) auto
  then have "resInv urlsOf (view k') r' \<and> (e = None \<longrightarrow> settled urlsOf (view k') exclude r') \<and>
    rs_setDNS r' = rs_setDNS r \<and> rs_setDNSActive r' = rs_setDNSActive r \<and> rs_closed r' = rs_closed r \<and> rs_ifidx r' = rs_ifidx r"
  proof cases
    case err
    then show ?thesis using assms(1) inv by (auto simp: installConfig_def)
  next
    case same
    note g = good [OF same(1)]
    have u: "r' = r \<and> k' = k" using assms(1) same by (simp add: installConfig_def)
    obtain routes where r: "attachedTo urlsOf (view k) (rs_clients r) routes" "\<forall>route \<in> set routes. goodRoute (managedAddrs r) route"
      "rs_upstreamSig r \<in> {[], map routeSignature routes}" using old by (auto simp: settled_def)
    then have eq: "map routeSignature (uc_routes cfg) = map routeSignature routes" using g same(2) by (auto simp: goodConfig_def)
    have "\<forall>route \<in> set routes. goodRoute exclude route"
    proof (rule same_signature_good [OF eq])
      show "\<forall>r \<in> set (uc_routes cfg). goodRoute exclude r" using g by (simp add: goodConfig_def)
      show "\<forall>q \<in> set routes. goodRoute [] q" using r(2) by (simp add: goodRoute_def)
    qed
    then have "settled urlsOf (view k) exclude r" using r unfolding settled_def by blast
    then show ?thesis using u inv by blast
  next
    case new
    note g = good [OF new(1)]
    have s: "setUpstreamConfig R cfg r k = (e, r', k')" using assms(1) new by (simp add: installConfig_def)
    note f = setUpstreamConfig_fields [OF s]
    have m: "managedAddrs r' = managedAddrs r" using f by (simp add: managedAddrs_def)
    have t: "if e = None then settled urlsOf (view k') exclude r' else settled urlsOf (view k') (managedAddrs r) r'"
      by (rule setUpstreamConfig_settled [OF s old g])
    then have "settled urlsOf (view k') (managedAddrs r') r'" using m ex settled_mono by (auto split: if_splits)
    moreover have "\<forall>s \<in> set (rs_targetServers r'). plainServer s" using f inv g by (metis goodConfig_def resInv_def)
    ultimately have "resInv urlsOf (view k') r'" using f inv by (simp add: resInv_def)
    moreover have "e = None \<longrightarrow> settled urlsOf (view k') exclude r'" using t by simp
    ultimately show ?thesis using f by blast
  qed
  then show "resInv urlsOf (view k') r'" "e = None \<Longrightarrow> settled urlsOf (view k') exclude r'"
    "rs_setDNS r' = rs_setDNS r \<and> rs_setDNSActive r' = rs_setDNSActive r \<and> rs_closed r' = rs_closed r \<and> rs_ifidx r' = rs_ifidx r" by auto
qed

end

section \<open>The contract of the bus\<close>

text \<open>The configuration of a link, the servers and the domains, as systemd-resolved keeps it.\<close>

record linkConf =
  lc_dns :: "resolvedLinkNameserver list"
  lc_domains :: "resolvedLinkDomain list"

text \<open>A link with the managed server and the routing domain of everything.\<close>

definition managedConf :: "Addr \<Rightarrow> linkConf" where
  "managedConf server = \<lparr>lc_dns = [resolvedNameserver server], lc_domains = [\<lparr>rl_Domain = ''.'', rl_RoutingOnly = True\<rparr>]\<rparr>"

text \<open>A call that leaves what is observed as it was.\<close>

definition quiet :: "('k \<Rightarrow> 'a \<times> 'k) \<Rightarrow> ('k \<Rightarrow> 'b) \<Rightarrow> bool" where
  "quiet f obs \<longleftrightarrow> (\<forall>k. obs (snd (f k)) = obs k)"

lemma quietD: "quiet f obs \<Longrightarrow> f k = (x, k') \<Longrightarrow> obs k' = obs k"
  unfolding quiet_def by (metis snd_conv)

lemma quietI: "(\<And>k x k'. f k = (x, k') \<Longrightarrow> obs k' = obs k) \<Longrightarrow> quiet f obs"
  unfolding quiet_def by (metis prod.collapse)

lemma quiet_query:
  "quiet f obs \<Longrightarrow> quiet (wrapQ w f) obs" "quiet f obs \<Longrightarrow> quiet (mapQ g f) obs"
  by (auto intro!: quietI simp: wrapQ_def mapQ_def split: prod.splits dest: quietD)

lemma quiet_act: "quiet f obs \<Longrightarrow> quiet (wrapE w f) obs" "quiet f obs \<Longrightarrow> quiet g obs \<Longrightarrow> quiet (thenE f g) obs"
  "quiet f obs \<Longrightarrow> obs (bestEffort f k) = obs k"
  by (auto intro!: quietI simp: wrapE_def thenE_def bestEffort_def quiet_def split: prod.splits option.splits dest: quietD)
    (metis quiet_def snd_conv)+

lemma quiet_readProperty: "quiet p obs \<Longrightarrow> quiet (readProperty what p) obs"
  by (auto intro!: quietI simp: readProperty_def split: prod.splits sum.splits dest: quietD)

text \<open>
  What the calls of the bus do to a link, \<open>systemConf\<close> being its configuration without the settings made over
  the bus, and that the properties which are read are the ones that were set.
\<close>

locale resolved_world = dns_router R view urlsOf
  for R :: "('n, 'c, 'k) dnsRouter" and view :: "'k \<Rightarrow> 'c dnsWorld" and urlsOf :: "'c \<Rightarrow> string list" +
  fixes B :: "('k, 'o) resolvedBus" and linkOf :: "'k \<Rightarrow> int \<Rightarrow> linkConf" and objLink :: "'o \<Rightarrow> int" and systemConf :: "int \<Rightarrow> linkConf"
  assumes reads: "quiet (rb_GetLink B i) (\<lambda>k. (view k, linkOf k))" "quiet (rb_LinkDNSEx B link) (\<lambda>k. (view k, linkOf k))"
      "quiet (rb_LinkDNS B link) (\<lambda>k. (view k, linkOf k))" "quiet (rb_LinkDomains B link) (\<lambda>k. (view k, linkOf k))"
      "quiet (rb_LinkDefaultRoute B link) (\<lambda>k. (view k, linkOf k))" "quiet (rb_ManagerDNSEx B) (\<lambda>k. (view k, linkOf k))"
      "quiet (rb_ManagerDNS B) (\<lambda>k. (view k, linkOf k))" "quiet (rb_ManagerDomains B) (\<lambda>k. (view k, linkOf k))"
    and others: "quiet (rb_Connect B) (\<lambda>k. (view k, linkOf k))" "quiet (rb_AddMatchSignal B what) (\<lambda>k. (view k, linkOf k))"
      "quiet (rb_ConnClose B) (\<lambda>k. (view k, linkOf k))" "quiet (rb_FlushCaches B) (\<lambda>k. (view k, linkOf k))"
      "quiet (rb_SetLinkOption B what i v) (\<lambda>k. (view k, linkOf k))" "quiet (rb_SetLinkDefaultRoute B i b) (\<lambda>k. (view k, linkOf k))"
    and router_links: "linkOf (dr_NewRouter R k) = linkOf k" "quiet (dr_NewClient R net us) linkOf" "quiet (dr_ClientClose R c) linkOf"
      "quiet (dr_Attach R name c) linkOf" "quiet (dr_SetRouter R f) linkOf" "quiet (dr_Detach R name) linkOf" "quiet (dr_Close R) linkOf"
    and set_domains: "rb_SetLinkDomains B i ds k = (e, k') \<Longrightarrow> view k' = view k \<and>
      linkOf k' = (if e = None then (linkOf k)(i := (linkOf k i)\<lparr>lc_domains := ds\<rparr>) else linkOf k)"
    and set_dns: "rb_SetLinkDNS B i ns k = (e, k') \<Longrightarrow> view k' = view k \<and>
      linkOf k' = (if e = None then (linkOf k)(i := (linkOf k i)\<lparr>lc_dns := ns\<rparr>) else linkOf k)"
    and revert_link: "rb_RevertLink B i k = (e, k') \<Longrightarrow> view k' = view k \<and>
      linkOf k' = (if e = None then (linkOf k)(i := systemConf i) else linkOf k)"
    and no_link: "rb_RevertLink B i k = (Some err, k') \<Longrightarrow> isResolvedNoSuchLink B (Some err) \<Longrightarrow> linkOf k i = systemConf i"
    and get_link: "rb_GetLink B i k = (Inr link, k') \<Longrightarrow> objLink link = i"
    and link_dns_ex: "rb_LinkDNSEx B link k = (Inr (Inr raw), k') \<Longrightarrow>
      map (\<lambda>s. (lx_Family s, lx_Address s)) raw = map (\<lambda>n. (rn_Family n, rn_Address n)) (lc_dns (linkOf k (objLink link)))"
    and link_dns: "rb_LinkDNS B link k = (Inr (Inr ns), k') \<Longrightarrow> ns = lc_dns (linkOf k (objLink link))"
    and link_domains: "rb_LinkDomains B link k = (Inr (Inr ds), k') \<Longrightarrow> ds = lc_domains (linkOf k (objLink link))"
begin

abbreviation (input) seen :: "'k \<Rightarrow> 'c dnsWorld \<times> (int \<Rightarrow> linkConf)" where "seen k \<equiv> (view k, linkOf k)"

lemmas read_seen = reads [THEN quietD] others [THEN quietD]

lemma link_seen: "quiet (linkObject B r) seen" "quiet (linkDNSServers B r) seen" "quiet (linkDomains B r) seen"
proof -
  have o: "quiet (linkObject B r) seen"
    by (rule quietI) (auto simp: linkObject_def linkObjectFor_def wrapQ_def split: sum.splits prod.splits dest!: read_seen)
  then show "quiet (linkObject B r) seen" .
  have f: "quiet (linkDNSServersFor B link) seen" for link
  proof (rule quietI)
    fix k x k' assume l: "linkDNSServersFor B link k = (x, k')"
    obtain y k1 where y: "rb_LinkDNSEx B link k = (y, k1)" by force
    have "k' = k1 \<or> linkDNSServersLegacy B link k1 = (x, k')" using l y by (auto simp: linkDNSServersFor_def split: sum.splits)
    moreover have "quiet (linkDNSServersLegacy B link) seen"
      unfolding linkDNSServersLegacy_def by (intro quiet_query quiet_readProperty reads)
    ultimately show "seen k' = seen k" using read_seen(2) [OF y] by (metis quietD)
  qed
  show "quiet (linkDNSServers B r) seen"
    by (rule quietI) (auto simp: linkDNSServers_def split: prod.splits sum.splits dest!: quietD [OF o] quietD [OF f])
  have d: "quiet (linkDomainsFor B link) seen" for link
    unfolding linkDomainsFor_def by (intro quiet_readProperty reads)
  show "quiet (linkDomains B r) seen"
    by (rule quietI) (auto simp: linkDomains_def split: prod.splits sum.splits dest!: quietD [OF o] quietD [OF d])
qed

lemma manager_seen: "quiet (managerDNSServers B) seen" "quiet (managerDomains B) seen"
proof -
  show "quiet (managerDomains B) seen" unfolding managerDomains_def by (intro quiet_query quiet_readProperty reads)
  show "quiet (managerDNSServers B) seen"
  proof (rule quietI)
    fix k x k' assume l: "managerDNSServers B k = (x, k')"
    obtain y k1 where y: "rb_ManagerDNSEx B k = (y, k1)" by force
    have "k' = k1 \<or> managerDNSServersLegacy B k1 = (x, k')" using l y by (auto simp: managerDNSServers_def split: sum.splits)
    moreover have "quiet (managerDNSServersLegacy B) seen"
      unfolding managerDNSServersLegacy_def by (intro quiet_query quiet_readProperty reads)
    ultimately show "seen k' = seen k" using read_seen(6) [OF y] by (metis quietD)
  qed
qed

lemma target_seen: "quiet (readTarget B r) seen" "quiet (syncLink B s r) seen"
  by (rule quietI, auto simp: readTarget_def syncLink_def split: if_splits prod.splits sum.splits dest!: quietD [OF link_seen(2)] quietD [OF link_seen(3)])+

lemma config_seen: "quiet (upstreamConfigFromLink B r fallback exclude ss ds) seen" "quiet (upstreamConfig B r fallback exclude) seen"
proof -
  show c: "quiet (upstreamConfigFromLink B r fallback exclude ss ds) seen" for ss ds
  proof (rule quietI)
    fix k x k' assume l: "upstreamConfigFromLink B r fallback exclude ss ds k = (x, k')"
    obtain ms k1 where ms: "managerDNSServers B k = (ms, k1)" by force
    obtain md k2 where md: "managerDomains B k1 = (md, k2)" by force
    have "k' = k1 \<or> k' = k2" using l ms md by (auto simp: upstreamConfigFromLink_def Let_def split: sum.splits prod.splits if_splits)
    then show "seen k' = seen k" using quietD [OF manager_seen(1) ms] quietD [OF manager_seen(2) md] by auto
  qed
  show "quiet (upstreamConfig B r fallback exclude) seen"
    by (rule quietI) (auto simp: upstreamConfig_def split: prod.splits sum.splits dest!: quietD [OF target_seen(1)] quietD [OF c])
qed

lemma linkDefaultRoute_seen: "quiet (linkDefaultRoute B i) seen"
  by (rule quietI) (auto simp: linkDefaultRoute_def split: prod.splits option.splits dest!: read_seen)

lemma bestEffort_seen: "bestEffort (rb_FlushCaches B) k = k' \<Longrightarrow> seen k' = seen k" "bestEffort (rb_SetLinkOption B what i v) k = k' \<Longrightarrow> seen k' = seen k"
  using quiet_act(3) [OF others(4)] quiet_act(3) [OF others(5)] by blast+

lemma applyDNS_effect:
  assumes "applyDNS B r server k = (e, k')"
  shows "view k' = view k" and "e = None \<Longrightarrow> rs_ifidx r \<noteq> 0 \<and> linkOf k' = (linkOf k)(rs_ifidx r := managedConf server)"
proof -
  let ?i = "rs_ifidx r"
  have "view k' = view k \<and> (e = None \<longrightarrow> ?i \<noteq> 0 \<and> linkOf k' = (linkOf k)(?i := managedConf server))"
  proof (cases "?i = 0")
    case True
    then show ?thesis using assms by (auto simp: applyDNS_def requireInterfaceIndex_def)
  next
    case False
    obtain e1 k1 where d: "rb_SetLinkDomains B ?i [\<lparr>rl_Domain = ''.'', rl_RoutingOnly = True\<rparr>] k = (e1, k1)" by force
    obtain e2 k2 where f: "linkDefaultRoute B ?i k1 = (e2, k2)" by force
    obtain e3 k3 where s: "rb_SetLinkDNS B ?i [resolvedNameserver server] k2 = (e3, k3)" by force
    let ?rest = "\<lambda>k. bestEffort (rb_FlushCaches B) (bestEffort (rb_SetLinkOption B ''SetLinkDNSOverTLS'' ?i ''no'')
      (bestEffort (rb_SetLinkOption B ''SetLinkDNSSEC'' ?i ''no'') (bestEffort (rb_SetLinkOption B ''SetLinkMulticastDNS'' ?i ''no'')
      (bestEffort (rb_SetLinkOption B ''SetLinkLLMNR'' ?i ''no'') k))))"
    have z: "seen (?rest k) = seen k" for k using bestEffort_seen [OF refl] by simp
    note u = set_domains [OF d] quietD [OF linkDefaultRoute_seen f] set_dns [OF s]
    have c: "k' = (if e1 \<noteq> None then k1 else if e2 \<noteq> None then k2 else if e3 \<noteq> None then k3 else ?rest k3) \<and>
        (e = None \<longrightarrow> e1 = None \<and> e2 = None \<and> e3 = None)"
      using assms False d f s by (cases e1; cases e2; cases e3) (auto simp: applyDNS_def requireInterfaceIndex_def thenE_def wrapE_def)
    show ?thesis using c u z [of k3] False by (auto simp: managedConf_def split: if_splits)
  qed
  then show "view k' = view k" "e = None \<Longrightarrow> rs_ifidx r \<noteq> 0 \<and> linkOf k' = (linkOf k)(rs_ifidx r := managedConf server)" by auto
qed

lemma revertLink_effect:
  assumes "revertLink B i k = (e, k')"
  shows "view k' = view k" and "linkOf k' = linkOf k \<or> linkOf k' = (linkOf k)(i := systemConf i)"
    and "i = 0 \<Longrightarrow> linkOf k' = linkOf k"
  using assms by (auto simp: revertLink_def split: if_splits prod.splits dest!: revert_link)

lemma revertDNS_view: "revertDNS B r k = (e, k') \<Longrightarrow> view k' = view k"
  by (auto simp: revertDNS_def split: sum.splits dest: revertLink_effect)

lemma reapply_view: "reapplyDNSIfNeeded B r active server servers k = (x, k') \<Longrightarrow> view k' = view k"
proof -
  assume x: "reapplyDNSIfNeeded B r active server servers k = (x, k')"
  have n: "quiet (linkConfigNeedsApply B r server servers) seen" for server
    by (rule quietI) (auto simp: linkConfigNeedsApply_def split: prod.splits sum.splits if_splits dest!: read_seen quietD [OF link_seen(1)])
  show ?thesis using x
    by (auto simp: reapplyDNSIfNeeded_def split: if_splits prod.splits sum.splits bool.splits option.splits dest!: quietD [OF n] applyDNS_effect)
qed

end

section \<open>The invariant is kept\<close>

context resolved_world
begin

lemma refresh_inv:
  assumes "refreshUpstreamsExcluding R B exclude r k = (e, r', k')" and inv: "resInv urlsOf (view k) r" and ex: "set (managedAddrs r) \<subseteq> set exclude"
  shows "resInv urlsOf (view k') r'" and "e = None \<Longrightarrow> settled urlsOf (view k') exclude r'"
    and "rs_setDNS r' = rs_setDNS r \<and> rs_setDNSActive r' = rs_setDNSActive r \<and> rs_closed r' = rs_closed r \<and> rs_ifidx r' = rs_ifidx r"
proof -
  obtain c k1 where c: "upstreamConfig B r (rs_fallback r) exclude k = (c, k1)" and i: "installConfig R c r k1 = (e, r', k')"
    using assms(1) by (auto simp: refreshUpstreamsExcluding_def refreshUpstreamsWithFallback_def split: prod.splits)
  have v: "resInv urlsOf (view k1) r" using quietD [OF config_seen(2) c] inv by simp
  have "goodConfig exclude cfg" if "c = Inr cfg" for cfg
    using upstreamConfig_good [of B r "rs_fallback r" exclude k cfg k1] c that inv by (auto simp: resInv_def)
  note i = installConfig_inv [OF i v this ex]
  show "resInv urlsOf (view k') r'" "e = None \<Longrightarrow> settled urlsOf (view k') exclude r'"
    "rs_setDNS r' = rs_setDNS r \<and> rs_setDNSActive r' = rs_setDNSActive r \<and> rs_closed r' = rs_closed r \<and> rs_ifidx r' = rs_ifidx r"
    using i by auto
qed

lemma refreshLink_inv:
  assumes "refreshUpstreamsFromLink R B (rs_fallback r) exclude servers domains r k = (e, r', k')" and inv: "resInv urlsOf (view k) r"
    and ex: "set (managedAddrs r) \<subseteq> set exclude" and "\<forall>s \<in> set servers. plainServer s"
  shows "resInv urlsOf (view k') r'" and "rs_closed r' = rs_closed r \<and> rs_ifidx r' = rs_ifidx r" and "rs_setDNS r' = rs_setDNS r \<and> rs_setDNSActive r' = rs_setDNSActive r"
proof -
  obtain c k1 where c: "upstreamConfigFromLink B r (rs_fallback r) exclude servers domains k = (c, k1)" and i: "installConfig R c r k1 = (e, r', k')"
    using assms(1) by (auto simp: refreshUpstreamsFromLink_def split: prod.splits)
  have v: "resInv urlsOf (view k1) r" using quietD [OF config_seen(1) c] inv by simp
  have "goodConfig exclude cfg" if "c = Inr cfg" for cfg
    using upstreamConfigFromLink_good [of B r "rs_fallback r" exclude servers domains k cfg k1] c that inv assms(4) by (auto simp: resInv_def)
  note i = installConfig_inv [OF i v this ex]
  show "resInv urlsOf (view k') r'" "rs_closed r' = rs_closed r \<and> rs_ifidx r' = rs_ifidx r" "rs_setDNS r' = rs_setDNS r \<and> rs_setDNSActive r' = rs_setDNSActive r"
    using i by auto
qed

lemma SetDNS_inv:
  assumes "ResolvedSetDNS R B server r k = (e, r', k')" and "resInv urlsOf (view k) r"
  shows "resInv urlsOf (view k') r'" and "e = None \<Longrightarrow> rs_setDNSActive r' \<and> rs_setDNS r' = server \<and> \<not> rs_closed r' \<and> rs_ifidx r' = rs_ifidx r \<and>
      rs_ifidx r \<noteq> 0 \<and> linkOf k' (rs_ifidx r') = managedConf server"
    and "e \<noteq> None \<Longrightarrow> rs_setDNSActive r' = rs_setDNSActive r \<and> rs_ifidx r' = rs_ifidx r"
proof -
  let ?ex = "[server] @ (if rs_setDNSActive r then [rs_setDNS r] else [])"
  have "resInv urlsOf (view k') r' \<and> (e = None \<longrightarrow> rs_setDNSActive r' \<and> rs_setDNS r' = server \<and> \<not> rs_closed r' \<and> rs_ifidx r' = rs_ifidx r \<and>
      rs_ifidx r \<noteq> 0 \<and> linkOf k' (rs_ifidx r') = managedConf server) \<and> (e \<noteq> None \<longrightarrow> rs_setDNSActive r' = rs_setDNSActive r \<and> rs_ifidx r' = rs_ifidx r)"
  proof (cases "rs_closed r \<or> \<not> addrIsValid server")
    case True
    then show ?thesis using assms by (auto simp: ResolvedSetDNS_def split: if_splits)
  next
    case False
    obtain e1 r1 k1 where f: "refreshUpstreamsExcluding R B ?ex r k = (e1, r1, k1)" by (metis prod_cases3)
    note i = refresh_inv [OF f assms(2)]
    have ex: "set (managedAddrs r) \<subseteq> set ?ex" by (auto simp: managedAddrs_def)
    show ?thesis
    proof (cases e1)
      case (Some err)
      then show ?thesis using assms(1) False f i [OF ex] by (auto simp: ResolvedSetDNS_def Let_def)
    next
      case None
      obtain e2 k2 where a: "applyDNS B r1 server k1 = (e2, k2)" by force
      note a' = applyDNS_effect [OF a]
      have "settled urlsOf (view k1) [server] r1" using i(2) [OF ex None] by (rule settled_mono) auto
      then have "resInv urlsOf (view k1) (r1\<lparr>rs_setDNS := server, rs_setDNSActive := True\<rparr>)"
        using i(1) [OF ex] False by (auto simp: resInv_def managedAddrs_def settled_def)
      moreover have "e = e2 \<and> k' = k2 \<and> r' = (if e2 = None then r1\<lparr>rs_setDNS := server, rs_setDNSActive := True\<rparr> else r1)"
        using assms(1) False f None a by (cases e2) (auto simp: ResolvedSetDNS_def Let_def)
      ultimately show ?thesis using i [OF ex] a' False by auto
    qed
  qed
  then show "resInv urlsOf (view k') r'" "e = None \<Longrightarrow> rs_setDNSActive r' \<and> rs_setDNS r' = server \<and> \<not> rs_closed r' \<and> rs_ifidx r' = rs_ifidx r \<and>
      rs_ifidx r \<noteq> 0 \<and> linkOf k' (rs_ifidx r') = managedConf server"
    "e \<noteq> None \<Longrightarrow> rs_setDNSActive r' = rs_setDNSActive r \<and> rs_ifidx r' = rs_ifidx r" by auto
qed

lemma resInv_weaken:
  assumes "resInv urlsOf w r" and "rs_clients r' = rs_clients r" and "rs_upstreamSig r' \<in> {[], rs_upstreamSig r}" and "set (managedAddrs r') \<subseteq> set (managedAddrs r)"
    and "rs_fallback r' = rs_fallback r" and "set (rs_targetServers r') \<subseteq> set (rs_targetServers r)" and "rs_setDNSActive r' \<longrightarrow> rs_setDNSActive r \<and> rs_setDNS r' = rs_setDNS r"
  shows "resInv urlsOf w r'"
proof -
  have "settled urlsOf w (managedAddrs r') r" using assms(1,4) by (auto simp: resInv_def intro: settled_mono)
  then have "settled urlsOf w (managedAddrs r') r'" using assms(2,3) by (auto simp: settled_def)
  then show ?thesis using assms by (auto simp: resInv_def)
qed

lemma UnsetDNS_inv:
  assumes "ResolvedUnsetDNS R B r k = (e, r', k')" and "resInv urlsOf (view k) r"
  shows "resInv urlsOf (view k') r'" and "\<not> rs_closed r \<Longrightarrow> \<not> rs_setDNSActive r' \<and> \<not> rs_closed r'"
proof -
  let ?r = "r\<lparr>rs_setDNS := NoAddr, rs_setDNSActive := False\<rparr>"
  have "resInv urlsOf (view k') r' \<and> (\<not> rs_closed r \<longrightarrow> \<not> rs_setDNSActive r' \<and> \<not> rs_closed r')"
  proof (cases "rs_closed r")
    case False
    have i: "resInv urlsOf (view k) ?r" by (rule resInv_weaken [OF assms(2)]) (simp_all add: managedAddrs_def)
    show ?thesis
    proof (cases "rs_setDNSActive r")
      case True
      obtain e1 k1 where v: "revertDNS B ?r k = (e1, k1)" by force
      obtain x e2 r2 k2 where f: "refreshUpstreamsExcluding R B [x] ?r k1 = (e2, r2, k2)" "r' = r2" "k' = k2"
        using assms(1) False True v
        by (auto simp: ResolvedUnsetDNS_def resolvedRefreshUpstreams_def Let_def split: option.splits prod.splits)
      have "resInv urlsOf (view k1) ?r" using i revertDNS_view [OF v] by simp
      from refresh_inv [OF f(1) this] show ?thesis using f False by (auto simp: managedAddrs_def)
    next
      case inactive: False
      then show ?thesis using assms(1) False i by (auto simp: ResolvedUnsetDNS_def)
    qed
  qed (use assms in \<open>auto simp: ResolvedUnsetDNS_def\<close>)
  then show "resInv urlsOf (view k') r'" "\<not> rs_closed r \<Longrightarrow> \<not> rs_setDNSActive r' \<and> \<not> rs_closed r'" by auto
qed

lemma SetInterfaceIndex_inv:
  assumes "SetInterfaceIndex R B i r k = (e, r', k')" and "resInv urlsOf (view k) r"
  shows "resInv urlsOf (view k') r'" and "rs_setDNS r' = rs_setDNS r \<and> rs_setDNSActive r' = rs_setDNSActive r \<and> rs_closed r' = rs_closed r \<and> (rs_ifidx r' = rs_ifidx r \<or> \<not> (rs_setDNSActive r \<and> rs_ifidx r' = 0))"
proof -
  have "resInv urlsOf (view k') r' \<and> rs_setDNS r' = rs_setDNS r \<and> rs_setDNSActive r' = rs_setDNSActive r \<and> rs_closed r' = rs_closed r \<and> (rs_ifidx r' = rs_ifidx r \<or> \<not> (rs_setDNSActive r \<and> rs_ifidx r' = 0))"
  proof (cases "resolvedOptionalIfIndex i")
    case (Inr j)
    show ?thesis
    proof (cases "rs_closed r \<or> rs_ifidx r = j \<or> rs_setDNSActive r \<and> j = 0")
      case True
      then show ?thesis using assms Inr by (auto simp: SetInterfaceIndex_def Let_def split: if_splits)
    next
      case False
      let ?r = "r\<lparr>rs_ifidx := j, rs_targetServers := [], rs_targetDomains := [], rs_upstreamSig := []\<rparr>"
      let ?x = "if rs_setDNSActive r then rs_setDNS r else NoAddr"
      obtain e1 k1 where v: "revertLink B (rs_ifidx r) k = (e1, k1)" by force
      obtain e2 r2 k2 where f: "refreshUpstreamsExcluding R B [?x] ?r k1 = (e2, r2, k2)" by (metis prod_cases3)
      have i: "resInv urlsOf (view k1) ?r" unfolding revertLink_effect(1) [OF v]
        by (rule resInv_weaken [OF assms(2)]) (simp_all add: managedAddrs_def)
      have ex: "set (managedAddrs ?r) \<subseteq> set [?x]" by (simp add: managedAddrs_def)
      note n = refresh_inv [OF f i ex]
      have "r' = r2 \<and> (k' = k2 \<or> (\<exists>e. applyDNS B r2 (rs_setDNS r) k2 = (e, k')))"
        using assms(1) Inr False v f by (auto simp: SetInterfaceIndex_def resolvedRefreshUpstreams_def Let_def split: prod.splits if_splits)
      then have "r' = r2 \<and> view k' = view k2" using applyDNS_effect(1) by auto
      then show ?thesis using n False by auto
    qed
  qed (use assms in \<open>auto simp: SetInterfaceIndex_def\<close>)
  then show "resInv urlsOf (view k') r'" "rs_setDNS r' = rs_setDNS r \<and> rs_setDNSActive r' = rs_setDNSActive r \<and> rs_closed r' = rs_closed r \<and> (rs_ifidx r' = rs_ifidx r \<or> \<not> (rs_setDNSActive r \<and> rs_ifidx r' = 0))" by auto
qed

lemma sync_inv:
  assumes "syncResolvedState R B r k = (e, r', k')" and "resInv urlsOf (view k) r"
  shows "resInv urlsOf (view k') r'" and "rs_setDNS r' = rs_setDNS r \<and> rs_setDNSActive r' = rs_setDNSActive r \<and> rs_closed r' = rs_closed r \<and> rs_ifidx r' = rs_ifidx r"
proof -
  have "resInv urlsOf (view k') r' \<and> rs_setDNS r' = rs_setDNS r \<and> rs_setDNSActive r' = rs_setDNSActive r \<and> rs_closed r' = rs_closed r \<and> rs_ifidx r' = rs_ifidx r"
  proof (cases "rs_closed r")
    case False
    obtain l k1 where l: "syncLink B (syncRead r) r k = (l, k1)" by force
    have v1: "view k1 = view k" using quietD [OF target_seen(2) l] by simp
    have ex: "set (managedAddrs r) \<subseteq> set [rs_setDNS r]" by (auto simp: managedAddrs_def)
    show ?thesis
    proof (cases l)
      case (Inl err)
      then show ?thesis using assms False l v1 by (auto simp: syncResolvedState_def syncRest_def)
    next
      case (Inr sd)
      obtain servers domains where sd: "sd = (servers, domains)" by force
      obtain a k2 where a: "reapplyDNSIfNeeded B r (rs_setDNSActive r) (rs_setDNS r) servers k1 = (a, k2)" by force
      have i2: "resInv urlsOf (view k2) r" using reapply_view [OF a] v1 assms(2) by simp
      have p: "\<forall>s \<in> set servers. plainServer s" using l Inr sd syncLink_plain by metis
      consider (err) "r' = r" "k' = k2" | (link) "refreshUpstreamsFromLink R B (rs_fallback r) [rs_setDNS r] servers domains r k2 = (e, r', k')"
        | (all) "refreshUpstreamsExcluding R B [rs_setDNS r] r k2 = (e, r', k')"
        using assms(1) False l Inr sd a
        by (auto simp: syncResolvedState_def syncRest_def syncRead_def refreshUpstreamsExcluding_def split: sum.splits if_splits)
      then show ?thesis
      proof cases
        case link
        from refreshLink_inv [OF link i2 ex p] show ?thesis by auto
      next
        case all
        from refresh_inv [OF all i2 ex] show ?thesis by auto
      qed (use i2 in auto)
    qed
  qed (use assms in \<open>auto simp: syncResolvedState_def\<close>)
  then show "resInv urlsOf (view k') r'" "rs_setDNS r' = rs_setDNS r \<and> rs_setDNSActive r' = rs_setDNSActive r \<and> rs_closed r' = rs_closed r \<and> rs_ifidx r' = rs_ifidx r" by auto
qed

lemma closeAll_view:
  assumes "foldl (\<lambda>(err, k) (name, c). case dr_ClientClose R c k of (e, k) \<Rightarrow> (errors_join [err, e], k)) (e0, k) cs = (e, k')"
  shows "w_backend (view k') = w_backend (view k) \<and> linkOf k' = linkOf k"
  using assms
proof (induction cs arbitrary: e0 k)
  case (Cons nc cs)
  obtain name c where nc: "nc = (name, c)" by force
  obtain e1 k1 where c: "dr_ClientClose R c k = (e1, k1)" by force
  show ?case using Cons.IH [of "errors_join [e0, e1]" k1] Cons.prems client_close [OF c] quietD [OF router_links(3) c] nc c by simp
qed simp

lemma Close_inv:
  assumes "ResolvedClose R B r k = (e, r', k')" and "resInv urlsOf (view k) r"
  shows "resInv urlsOf (view k') r'" and "\<not> rs_closed r \<Longrightarrow> w_backend (view k') = Map.empty" and "rs_closed r'"
proof -
  have "resInv urlsOf (view k') r' \<and> (\<not> rs_closed r \<longrightarrow> w_backend (view k') = Map.empty) \<and> rs_closed r'"
  proof (cases "rs_closed r")
    case False
    let ?r = "r\<lparr>rs_closed := True, rs_watching := False\<rparr>"
    obtain e1 k1 where v: "revertDNS B ?r k = (e1, k1)" by force
    obtain e2 k2 where c: "dr_Close R k1 = (e2, k2)" by force
    obtain e3 k3 where a: "foldl (\<lambda>(err, k) (name, c). case dr_ClientClose R c k of (e, k) \<Rightarrow> (errors_join [err, e], k))
        (errors_join [e1, e2], k2) (rs_clients r) = (e3, k3)" by force
    obtain e4 k4 where d: "rb_ConnClose B k3 = (e4, k4)" by force
    have eq: "r' = ?r \<and> k' = k4" using assms(1) False v c a d by (simp add: ResolvedClose_def Let_def)
    have e: "w_backend (view k') = Map.empty" using eq read_seen(11) [OF d] closeAll_view [OF a] close [OF c] by simp
    obtain routes where ro: "\<forall>route \<in> set routes. goodRoute (managedAddrs r) route" "rs_upstreamSig r \<in> {[], map routeSignature routes}"
      using assms(2) by (auto simp: resInv_def settled_def)
    have "attachedTo urlsOf (view k') (rs_clients r') routes" using e by (simp add: attachedTo_def)
    then have "settled urlsOf (view k') (managedAddrs r') r'" using ro eq unfolding settled_def by (auto simp: managedAddrs_def)
    then show ?thesis using assms(2) e eq by (auto simp: resInv_def)
  qed (use assms in \<open>auto simp: ResolvedClose_def\<close>)
  then show "resInv urlsOf (view k') r'" "\<not> rs_closed r \<Longrightarrow> w_backend (view k') = Map.empty" "rs_closed r'" by auto
qed

lemma New_inv:
  assumes "NewResolved R B ln dn i fallback k = (Inr r, k')" and "\<forall>s \<in> set fallback. plainServer s"
  shows "resInv urlsOf (view k') r" and "\<not> rs_setDNSActive r \<and> \<not> rs_closed r"
proof -
  obtain j where j: "resolvedOptionalIfIndex i = Inr j"
    using assms(1) by (cases "resolvedOptionalIfIndex i") (auto simp: NewResolved_def split: option.splits)
  let ?r = "\<lparr>rs_ifidx = j, rs_closed = False, rs_dialNetwork = dn, rs_clients = [], rs_fallback = fallback,
    rs_setDNS = NoAddr, rs_setDNSActive = False, rs_upstreamSig = [], rs_watching = False, rs_targetServers = [], rs_targetDomains = []\<rparr>"
  obtain e1 k1 where c: "rb_Connect B k = (e1, k1)" by force
  obtain e2 r2 k2 where f: "refreshUpstreamsExcluding R B [NoAddr] ?r (dr_NewRouter R k1) = (e2, r2, k2)" by (metis prod_cases3)
  obtain e3 r3 k3 where m: "startMonitor B r2 k2 = (e3, r3, k3)" by (metis prod_cases3)
  have ok: "e2 = None \<and> r = r3 \<and> k' = k3 \<and> e3 = None"
    using assms(1) j c f m by (auto simp: NewResolved_def resolvedRefreshUpstreams_def Let_def split: option.splits)
  have "w_backend (view (dr_NewRouter R k1)) = Map.empty" using new_router by simp
  then have "resInv urlsOf (view (dr_NewRouter R k1)) ?r"
    using assms(2) by (auto simp: resInv_def settled_def attachedTo_def intro!: exI [of _ "[]"])
  note n = refresh_inv [OF f this]
  have s: "seen k3 = seen k2"
    using m by (auto simp: startMonitor_def thenE_def wrapE_def split: prod.splits option.splits dest!: read_seen)
  have "r3 = r2\<lparr>rs_watching := True\<rparr>" using m ok by (auto simp: startMonitor_def split: prod.splits option.splits)
  then show "resInv urlsOf (view k') r" "\<not> rs_setDNSActive r \<and> \<not> rs_closed r"
    using n ok s by (auto simp: managedAddrs_def resInv_def settled_def)

qed

end

section \<open>What happens to the link\<close>

text \<open>The servers of a link that the program can read.\<close>

definition linkAddrs :: "linkConf \<Rightarrow> Addr list" where
  "linkAddrs c = List.map_filter (\<lambda>n. addrFromResolved (rn_Family n) (rn_Address n)) (lc_dns c)"

definition managedBy :: "Addr \<Rightarrow> linkConf \<Rightarrow> bool" where
  "managedBy server c \<longleftrightarrow> linkAddrs c = [addrWithoutZone server] \<and> list_ex (\<lambda>d. rl_Domain d = ''.'' \<and> rl_RoutingOnly d) (lc_domains c)"

lemma managedBy_managedConf: "addrIsValid server \<Longrightarrow> managedBy server (managedConf server)"
  by (simp add: managedBy_def linkAddrs_def managedConf_def map_filter_simps addrFromResolved_nameserver)

lemma linkServers_addrs:
  "map apAddr (linkServers (lc_dns c)) = linkAddrs c"
  "map (\<lambda>s. (lx_Family s, lx_Address s)) raw = map (\<lambda>n. (rn_Family n, rn_Address n)) (lc_dns c) \<Longrightarrow> map apAddr (linkServersEx raw) = linkAddrs c"
proof -
  have l: "map apAddr (linkServers ns) = List.map_filter (\<lambda>n. addrFromResolved (rn_Family n) (rn_Address n)) ns" for ns
    by (induction ns) (auto simp: linkServers_def map_filter_simps split: option.splits)
  then show "map apAddr (linkServers (lc_dns c)) = linkAddrs c" by (simp add: linkAddrs_def)
  have "map (\<lambda>s. (lx_Family s, lx_Address s)) raw = map (\<lambda>n. (rn_Family n, rn_Address n)) ns \<Longrightarrow>
      map apAddr (linkServersEx raw) = List.map_filter (\<lambda>n. addrFromResolved (rn_Family n) (rn_Address n)) ns" for ns
  proof (induction ns arbitrary: raw)
    case (Cons n ns)
    then obtain s rest where "raw = s # rest" by (cases raw) auto
    then show ?case using Cons by (auto simp: linkServersEx_def map_filter_simps addrPort_def Let_def split: option.splits)
  qed (simp add: linkServersEx_def map_filter_simps)
  then show "map (\<lambda>s. (lx_Family s, lx_Address s)) raw = map (\<lambda>n. (rn_Family n, rn_Address n)) (lc_dns c) \<Longrightarrow> map apAddr (linkServersEx raw) = linkAddrs c"
    unfolding linkAddrs_def .
qed

context resolved_world
begin

lemma newClients_links: "quiet (newClients R net routes) linkOf"
proof (rule quietI)
  show "newClients R net routes k = (x, k') \<Longrightarrow> linkOf k' = linkOf k" for k x k'
    by (induction routes arbitrary: k x k') (auto split: prod.splits dest!: router_links(2) [THEN quietD])
qed

lemma closeClients_links: "linkOf (closeDNSClients R cs k) = linkOf k"
proof (induction cs arbitrary: k)
  case (Cons nc cs)
  show ?case using Cons.IH router_links(3) by (cases nc) (auto simp: closeDNSClients_def quiet_def)
qed (simp add: closeDNSClients_def)

lemma detachOld_links: "linkOf (detachOld R old cs k) = linkOf k"
proof (induction old arbitrary: k)
  case (Cons nc old)
  show ?case using Cons.IH router_links(6) by (cases nc) (auto simp: detachOld_def quiet_def)
qed (simp add: detachOld_def)

lemma attachAll_links: "forE (\<lambda>(name, c). dr_Attach R name c) cs k = (e, k') \<Longrightarrow> linkOf k' = linkOf k"
  by (induction cs arbitrary: k) (auto split: prod.splits option.splits dest!: router_links(4) [THEN quietD])

lemma install_links: "installConfig R c r k = (e, r', k') \<Longrightarrow> linkOf k' = linkOf k"
  by (auto simp: installConfig_def setUpstreamConfig_def Let_def closeClients_links detachOld_links
      split: sum.splits if_splits prod.splits option.splits
      dest!: quietD [OF newClients_links] attachAll_links router_links(5) [THEN quietD])

lemma refresh_links: "refreshUpstreamsWithFallback R B fb ex r k = (e, r', k') \<Longrightarrow> linkOf k' = linkOf k"
  "refreshUpstreamsFromLink R B fb ex ss ds r k = (e, r', k') \<Longrightarrow> linkOf k' = linkOf k"
  by (auto simp: refreshUpstreamsWithFallback_def refreshUpstreamsFromLink_def split: prod.splits
      dest!: install_links quietD [OF config_seen(1)] quietD [OF config_seen(2)])

lemma linkObject_obj: "linkObject B r k = (Inr link, k') \<Longrightarrow> objLink link = rs_ifidx r"
  by (auto simp: linkObject_def linkObjectFor_def requireInterfaceIndex_def wrapQ_Inr split: if_splits dest: get_link)

lemma linkDNSServers_read:
  assumes "linkDNSServers B r k = (Inr ss, k')"
  shows "map apAddr ss = linkAddrs (linkOf k (rs_ifidx r))"
proof -
  obtain link k1 where o: "linkObject B r k = (Inr link, k1)" "linkDNSServersFor B link k1 = (Inr ss, k')"
    using assms by (auto simp: linkDNSServers_def split: prod.splits sum.splits)
  have l: "linkOf k1 = linkOf k" using quietD [OF link_seen(1) o(1)] by simp
  note i = linkObject_obj [OF o(1)]
  obtain x k2 where x: "rb_LinkDNSEx B link k1 = (x, k2)" by force
  show ?thesis
  proof (cases "\<exists>raw. x = Inr (Inr raw)")
    case True
    then show ?thesis using o(2) x link_dns_ex [of link k1] linkServers_addrs(2) i l by (auto simp: linkDNSServersFor_def)
  next
    case False
    then have "linkDNSServersLegacy B link k2 = (Inr ss, k')" using o(2) x by (auto simp: linkDNSServersFor_def split: sum.splits)
    then obtain ns where n: "rb_LinkDNS B link k2 = (Inr (Inr ns), k')" "ss = linkServers ns"
      by (auto simp: linkDNSServersLegacy_def mapQ_Inr readProperty_def split: prod.splits sum.splits)
    have "linkOf k2 = linkOf k1" using read_seen(2) [OF x] by simp
    then show ?thesis using link_dns [OF n(1)] n(2) linkServers_addrs(1) i l by simp
  qed
qed

lemma revertDNS_link:
  assumes "revertDNS B r k = (None, k')" and "rs_ifidx r \<noteq> 0"
  shows "linkOf k' (rs_ifidx r) = systemConf (rs_ifidx r)"
proof -
  obtain e k1 where e: "rb_RevertLink B (rs_ifidx r) k = (e, k1)" by force
  have i: "k' = k1 \<and> (e = None \<or> isResolvedNoSuchLink B e)"
    using assms e by (auto simp: revertDNS_def revertLink_def InterfaceIndex_def resolvedOptionalIfIndex_def resolvedIfIndex_def errors_join_eq_None
        split: if_splits)
  then show ?thesis using revert_link [OF e] no_link [of _ k _ k1] e by (cases e) auto
qed

lemma UnsetDNS_link:
  assumes "ResolvedUnsetDNS R B r k = (None, r', k')" and "rs_setDNSActive r" and "rs_ifidx r \<noteq> 0"
  shows "linkOf k' (rs_ifidx r) = systemConf (rs_ifidx r)"
proof -
  let ?r = "r\<lparr>rs_setDNS := NoAddr, rs_setDNSActive := False\<rparr>"
  obtain k1 where v: "revertDNS B ?r k = (None, k1)" "refreshUpstreamsWithFallback R B (rs_fallback ?r) [NoAddr] ?r k1 = (None, r', k')"
    using assms(1,2) by (auto simp: ResolvedUnsetDNS_def resolvedRefreshUpstreams_def refreshUpstreamsExcluding_def Let_def
        split: if_splits option.splits prod.splits)
  then show ?thesis using revertDNS_link [OF v(1)] refresh_links(1) [OF v(2)] assms(3) by simp
qed

lemma closeAll_error: "foldl (\<lambda>(err, k) (name, c). case dr_ClientClose R c k of (e, k) \<Rightarrow> (errors_join [err, e], k)) (e0, k) cs = (None, k') \<Longrightarrow> e0 = None"
proof (induction cs arbitrary: e0 k)
  case (Cons nc cs)
  obtain name c e1 k1 where "nc = (name, c)" "dr_ClientClose R c k = (e1, k1)" by (cases nc; cases "dr_ClientClose R (snd nc) k") auto
  then show ?case using Cons.IH [of "errors_join [e0, e1]" k1] Cons.prems by (auto simp: errors_join_eq_None)
qed simp

lemma Close_link:
  assumes "ResolvedClose R B r k = (None, r', k')" and "\<not> rs_closed r" and "rs_ifidx r \<noteq> 0"
  shows "linkOf k' (rs_ifidx r) = systemConf (rs_ifidx r)"
proof -
  let ?r = "r\<lparr>rs_closed := True, rs_watching := False\<rparr>"
  obtain e1 k1 where v: "revertDNS B ?r k = (e1, k1)" by force
  obtain e2 k2 where c: "dr_Close R k1 = (e2, k2)" by force
  obtain e3 k3 where a: "foldl (\<lambda>(err, k) (name, c). case dr_ClientClose R c k of (e, k) \<Rightarrow> (errors_join [err, e], k))
      (errors_join [e1, e2], k2) (rs_clients r) = (e3, k3)" by force
  obtain e4 k4 where d: "rb_ConnClose B k3 = (e4, k4)" by force
  have eq: "k' = k4 \<and> e3 = None" using assms(1,2) v c a d by (auto simp: ResolvedClose_def Let_def errors_join_eq_None)
  then have "e1 = None" using closeAll_error a by (fastforce simp: errors_join_eq_None)
  then show ?thesis
    using eq v revertDNS_link [of ?r k k1] assms(3) read_seen(11) [OF d] closeAll_view [OF a] quietD [OF router_links(7) c] by auto
qed

lemma linkAddrs_unzoned: "a \<in> set (linkAddrs c) \<Longrightarrow> addrWithoutZone a = a"
  by (auto simp: linkAddrs_def set_map_filter_Some addrFromResolved_def split: if_splits)

lemma linkConfigNeedsApply_kept:
  assumes "linkConfigNeedsApply B r server servers k = (Inr False, k')" and "map apAddr servers = linkAddrs (linkOf k (rs_ifidx r))"
  shows "managedBy server (linkOf k (rs_ifidx r))"
proof -
  have s: "length servers = 1" "apAddr (servers ! 0) = server" using assms(1) by (auto simp: linkConfigNeedsApply_def split: if_splits)
  then have l: "linkAddrs (linkOf k (rs_ifidx r)) = [server]" using assms(2) by (cases servers) auto
  obtain link k1 where o: "linkObject B r k = (Inr link, k1)" using assms(1) s by (auto simp: linkConfigNeedsApply_def split: prod.splits sum.splits)
  obtain ds k2 where d: "rb_LinkDomains B link k1 = (Inr (Inr ds), k2)" "list_ex (\<lambda>d. rl_Domain d = ''.'' \<and> rl_RoutingOnly d) ds"
    using assms(1) s o by (auto simp: linkConfigNeedsApply_def split: prod.splits sum.splits if_splits)
  have "lc_domains (linkOf k (rs_ifidx r)) = ds" using link_domains [OF d(1)] linkObject_obj [OF o] quietD [OF link_seen(1) o] by simp
  then show ?thesis using d(2) l linkAddrs_unzoned [of server "linkOf k (rs_ifidx r)"] by (simp add: managedBy_def)
qed

lemma sync_link:
  assumes "syncResolvedState R B r k = (None, r', k')" and "rs_setDNSActive r" and "addrIsValid (rs_setDNS r)"
  shows "managedBy (rs_setDNS r) (linkOf k' (rs_ifidx r)) \<and> rs_ifidx r \<noteq> 0"
proof -
  have open': "\<not> rs_closed r" using assms(1) by (auto simp: syncResolvedState_def)
  obtain l k1 where l: "syncLink B (syncRead r) r k = (l, k1)" by force
  obtain servers domains where s: "l = Inr (servers, domains)"
    using assms(1) open' l by (cases l) (auto simp: syncResolvedState_def syncRest_def)
  obtain a k2 where a: "reapplyDNSIfNeeded B r True (rs_setDNS r) servers k1 = (a, k2)" by force
  obtain b where b: "a = Inr b"
    using assms(1,2) open' l s a by (cases a) (auto simp: syncResolvedState_def syncRest_def syncRead_def)
  have keep: "linkOf k' = linkOf k2"
    using assms(1,2) open' l s a b by (auto simp: syncResolvedState_def syncRest_def syncRead_def split: if_splits dest: refresh_links)
  obtain n k3 where n: "linkConfigNeedsApply B r (rs_setDNS r) servers k1 = (Inr n, k3)"
    using a b by (auto simp: reapplyDNSIfNeeded_def split: prod.splits sum.splits)
  show ?thesis
  proof (cases n)
    case True
    then have "applyDNS B r (rs_setDNS r) k3 = (None, k2)"
      using a b n assms(2) open' by (auto simp: reapplyDNSIfNeeded_def split: prod.splits option.splits)
    then show ?thesis using applyDNS_effect(2) [OF _ refl] managedBy_managedConf [OF assms(3)] keep by auto
  next
    case False
    then have k: "k2 = k3" using a b n by (auto simp: reapplyDNSIfNeeded_def)
    have o: "linkOf k3 = linkOf k1" "rs_ifidx r \<noteq> 0"
    proof -
      have "length servers = 1" "rs_ifidx r \<noteq> 0" using n False by (auto simp: linkConfigNeedsApply_def linkObject_def requireInterfaceIndex_def split: if_splits)
      then show "rs_ifidx r \<noteq> 0" by simp
      show "linkOf k3 = linkOf k1" using n
        by (auto simp: linkConfigNeedsApply_def split: prod.splits sum.splits if_splits dest!: read_seen quietD [OF link_seen(1)])
    qed
    obtain k4 where d: "linkDNSServers B r k = (Inr servers, k4)"
      using l s o(2) by (auto simp: syncLink_def syncRead_def split: prod.splits sum.splits)
    have "linkOf k1 = linkOf k" using quietD [OF target_seen(2) l] by simp
    then have "managedBy (rs_setDNS r) (linkOf k1 (rs_ifidx r))"
      using linkConfigNeedsApply_kept [of r "rs_setDNS r" servers k1 k3] n False linkDNSServers_read [OF d] by simp
    then show ?thesis using keep k o by simp
  qed
qed

end

section \<open>Runs\<close>

text \<open>
  Calls of the methods in any order, steps of the goroutine, and changes of the rest of the host, the configuration
  of systemd-resolved included, that leave the router alone.
\<close>

inductive resRun :: "('n, 'c, 'k) dnsRouter \<Rightarrow> ('k, 'o) resolvedBus \<Rightarrow> ('k \<Rightarrow> 'k \<Rightarrow> bool) \<Rightarrow>
    ('n, 'c) Resolved \<times> 'k \<Rightarrow> ('n, 'c) Resolved \<times> 'k \<Rightarrow> bool"
  for R B external s where
  start: "resRun R B external s s"
| set: "resRun R B external s (r, k) \<Longrightarrow> ResolvedSetDNS R B server r k = (e, r', k') \<Longrightarrow> resRun R B external s (r', k')"
| unset: "resRun R B external s (r, k) \<Longrightarrow> ResolvedUnsetDNS R B r k = (e, r', k') \<Longrightarrow> resRun R B external s (r', k')"
| move: "resRun R B external s (r, k) \<Longrightarrow> UpdateInterfaceIndex R B i r k = (e, r', k') \<Longrightarrow> resRun R B external s (r', k')"
| close: "resRun R B external s (r, k) \<Longrightarrow> ResolvedClose R B r k = (e, r', k') \<Longrightarrow> resRun R B external s (r', k')"
| monitor: "resRun R B external s (r, k) \<Longrightarrow> resolvedMonitorStep R B ev armed r k = (next, r', k') \<Longrightarrow> resRun R B external s (r', k')"
| other: "resRun R B external s (r, k) \<Longrightarrow> external k k' \<Longrightarrow> resRun R B external s (r, k')"

lemma resInv_kept: "resInv urlsOf (view k) r \<Longrightarrow> routerKept view k k' \<Longrightarrow> resInv urlsOf (view k') r"
  by (auto simp: resInv_def settled_def attachedTo_def routerKept_def)

context resolved_world
begin

lemma run_inv:
  assumes run: "resRun R B (routerKept view) (r0, k0) s" and start: "resInv urlsOf (view k0) r0" "\<not> rs_setDNSActive r0"
  shows "resInv urlsOf (view (snd s)) (fst s) \<and> (rs_setDNSActive (fst s) \<longrightarrow> rs_ifidx (fst s) \<noteq> 0)"
  using run
proof (induction rule: resRun.induct)
  case (set r k server e r' k')
  have i: "resInv urlsOf (view k) r" "rs_setDNSActive r \<longrightarrow> rs_ifidx r \<noteq> 0" using set.IH by auto
  show ?case using SetDNS_inv [OF set.hyps(2) i(1)] i by (cases e) auto
next
  case (unset r k e r' k')
  have "rs_closed r \<Longrightarrow> r' = r" using unset.hyps(2) by (simp add: ResolvedUnsetDNS_def)
  then show ?case using UnsetDNS_inv [OF unset.hyps(2)] unset.IH by (cases "rs_closed r") auto
next
  case (move r k i e r' k')
  then show ?case using SetInterfaceIndex_inv [OF move.hyps(2) [unfolded UpdateInterfaceIndex_def]] by auto
next
  case (close r k e r' k')
  have "rs_setDNSActive r' = rs_setDNSActive r \<and> rs_ifidx r' = rs_ifidx r"
    using close.hyps(2) by (auto simp: ResolvedClose_def Let_def split: if_splits prod.splits)
  then show ?case using Close_inv [OF close.hyps(2)] close.IH by auto
next
  case (monitor r k ev armed "next" r' k')
  have "(r', k') = (r, k) \<or> (\<exists>e. syncResolvedState R B r k = (e, r', k'))"
    using monitor.hyps(2) by (auto simp: resolvedMonitorStep_def split: monitorEvent.splits if_splits prod.splits)
  then show ?case using sync_inv [of r k _ r' k'] monitor.IH by auto
next
  case (other r k k')
  then show ?case using resInv_kept by auto
qed (use start in simp)

end

section \<open>A small systemd-resolved\<close>

text \<open>The links beside the router of the small host; the servers of a link are known by the older property only.\<close>

type_synonym simRes = "simDNS \<times> (int \<Rightarrow> linkConf)"

definition onHost :: "(simDNS \<Rightarrow> 'a \<times> simDNS) \<Rightarrow> simRes \<Rightarrow> 'a \<times> simRes" where
  "onHost f s = (case f (fst s) of (x, k) \<Rightarrow> (x, (k, snd s)))"

definition simResRouter :: "(unit, nat \<times> string list, simRes) dnsRouter" where
  "simResRouter = \<lparr>dr_ErrClosed = dr_ErrClosed simDNSRouter, dr_NewRouter = map_prod (dr_NewRouter simDNSRouter) id,
     dr_NewClient = (\<lambda>n us. onHost (dr_NewClient simDNSRouter n us)), dr_ClientClose = (\<lambda>c. onHost (dr_ClientClose simDNSRouter c)),
     dr_Attach = (\<lambda>name c. onHost (dr_Attach simDNSRouter name c)), dr_SetRouter = (\<lambda>f. onHost (dr_SetRouter simDNSRouter f)),
     dr_Detach = (\<lambda>name. onHost (dr_Detach simDNSRouter name)), dr_Close = onHost (dr_Close simDNSRouter)\<rparr>"

definition networkConf :: "int \<Rightarrow> linkConf" where
  "networkConf i = (if i = 2 then \<lparr>lc_dns = [resolvedNameserver managedAddr, resolvedNameserver (Addr4 0x0A000002)], lc_domains = []\<rparr>
     else \<lparr>lc_dns = [], lc_domains = []\<rparr>)"

definition simBus :: "(simRes, int) resolvedBus" where
  "simBus = \<lparr>rb_Connect = Pair None, rb_DBusError = (\<lambda>_. None),
     rb_SetLinkDomains = (\<lambda>i ds (k, l). (None, (k, l(i := (l i)\<lparr>lc_domains := ds\<rparr>)))),
     rb_SetLinkDefaultRoute = (\<lambda>i b. Pair None),
     rb_SetLinkDNS = (\<lambda>i ns (k, l). (None, (k, l(i := (l i)\<lparr>lc_dns := ns\<rparr>)))),
     rb_SetLinkOption = (\<lambda>what i v. Pair None), rb_FlushCaches = Pair None,
     rb_RevertLink = (\<lambda>i (k, l). (None, (k, l(i := networkConf i)))),
     rb_GetLink = (\<lambda>i. Pair (Inr i)), rb_LinkDNSEx = (\<lambda>i. Pair (Inl (ErrorsNew ''unknown property''))),
     rb_LinkDNS = (\<lambda>i s. (Inr (Inr (lc_dns (snd s i))), s)), rb_LinkDomains = (\<lambda>i s. (Inr (Inr (lc_domains (snd s i))), s)),
     rb_LinkDefaultRoute = (\<lambda>i. Pair (Inr (Inr True))), rb_ManagerDNSEx = Pair (Inr (Inr [])),
     rb_ManagerDNS = Pair (Inr (Inr [])), rb_ManagerDomains = Pair (Inr (Inr [])),
     rb_AddMatchSignal = (\<lambda>what. Pair None), rb_ConnClose = Pair None\<rparr>"

abbreviation simResView :: "simRes \<Rightarrow> (nat \<times> string list) dnsWorld" where
  "simResView s \<equiv> simView (fst s)"

lemma onHost_eq: "onHost f s = (x, s') \<longleftrightarrow> f (fst s) = (x, fst s') \<and> snd s' = snd s"
  by (cases s') (auto simp: onHost_def split: prod.splits)

interpretation simResolved: resolved_world simResRouter simResView snd simBus snd "\<lambda>i. i" networkConf
proof unfold_locales
  fix s s' :: simRes and n :: "unit option" and us c
  assume "dr_NewClient simResRouter n us s = (c, s')"
  then show "snd c = us \<and> c \<notin> ran (w_backend (simResView s)) \<and> simResView s' = (simResView s)\<lparr>w_live := insert c (w_live (simResView s))\<rparr>"
    using simDNSWorld.new_client [of n us "fst s" c "fst s'"] by (simp add: simResRouter_def onHost_eq)
qed (auto simp: simResRouter_def onHost_eq simBus_def quiet_def onHost_def isResolvedNoSuchLink_def
    dest: simDNSWorld.client_close simDNSWorld.attach simDNSWorld.set_router simDNSWorld.detach simDNSWorld.close
    intro: simDNSWorld.new_router split: prod.splits)

section \<open>Properties\<close>


definition sampleRes :: "(unit, nat \<times> string list) Resolved \<times> simRes" where
  "sampleRes = (case NewResolved simResRouter simBus (Some ()) (Some ()) 2 [] (sampleHost, networkConf) of (r, s) \<Rightarrow> (projr r, s))"

definition sampleResSet :: "goError option \<times> (unit, nat \<times> string list) Resolved \<times> simRes" where
  "sampleResSet = ResolvedSetDNS simResRouter simBus managedAddr (fst sampleRes) (snd sampleRes)"

lemma sampleRes_new: "NewResolved simResRouter simBus (Some ()) (Some ()) 2 [] (sampleHost, networkConf) = (Inr (fst sampleRes), snd sampleRes)"
proof -
  have "\<not> isl (fst (NewResolved simResRouter simBus (Some ()) (Some ()) 2 [] (sampleHost, networkConf)))" by code_simp
  then show ?thesis by (cases "NewResolved simResRouter simBus (Some ()) (Some ()) 2 [] (sampleHost, networkConf)") (auto simp: sampleRes_def)
qed

lemma sampleRes_config: "\<not> isl (fst (upstreamConfig simBus (fst sampleRes) [] [managedAddr] (snd sampleRes)))"
  "rs_ifidx (fst sampleRes) = 2" "\<not> rs_closed (fst sampleRes)" "\<not> rs_setDNSActive (fst sampleRes)" "rs_fallback (fst sampleRes) = []"
  by code_simp+

text \<open>Nothing fails in the small world.\<close>

lemma sim_attach_ok: "fst (forE (\<lambda>(name, c). dr_Attach simResRouter name c) cs s) = None"
  by (induction cs arbitrary: s) (auto simp: simResRouter_def simDNSRouter_def onHost_def)

lemma sim_install_ok:
  assumes "\<not> rs_closed r"
  shows "fst (installConfig simResRouter (Inr cfg) r s) = None"
proof -
  obtain cs s1 where n: "newClients simResRouter (rs_dialNetwork r) (uc_routes cfg) s = (cs, s1)" by (metis prod.exhaust)
  obtain s2 where a: "forE (\<lambda>(name, c). dr_Attach simResRouter name c) cs s1 = (None, s2)" using sim_attach_ok [of cs s1] by (metis prod.collapse)
  have "fst (dr_SetRouter simResRouter f s2) = None" for f by (simp add: simResRouter_def simDNSRouter_def onHost_def)
  then obtain s3 where "dr_SetRouter simResRouter (resolvedRouteFunc (uc_routes cfg)) s2 = (None, s3)" by (metis prod.collapse)
  then show ?thesis using assms n a by (simp add: installConfig_def setUpstreamConfig_def Let_def)
qed

lemma sim_apply_ok: "rs_ifidx r \<noteq> 0 \<Longrightarrow> fst (applyDNS simBus r server s) = None"
  by (cases s) (simp add: applyDNS_def requireInterfaceIndex_def thenE_def wrapE_def linkDefaultRoute_def simBus_def)

lemma sampleResSet_ok: "sampleResSet = (None, fst (snd sampleResSet), snd (snd sampleResSet))"
proof -
  obtain cfg s1 where c: "upstreamConfig simBus (fst sampleRes) [] [managedAddr] (snd sampleRes) = (Inr cfg, s1)"
    using sampleRes_config(1) by (cases "upstreamConfig simBus (fst sampleRes) [] [managedAddr] (snd sampleRes)"; cases "fst (upstreamConfig simBus (fst sampleRes) [] [managedAddr] (snd sampleRes))") auto
  obtain r2 s2 where i: "installConfig simResRouter (Inr cfg) (fst sampleRes) s1 = (None, r2, s2)"
    using sim_install_ok [OF sampleRes_config(3), of cfg s1] by (metis prod.collapse)
  have "rs_ifidx r2 = 2"
    using i sampleRes_config(2) by (auto simp: installConfig_def split: if_splits dest: simResolved.setUpstreamConfig_fields)
  then obtain s3 where "applyDNS simBus r2 managedAddr s2 = (None, s3)" using sim_apply_ok [of r2 managedAddr s2] by (metis prod.collapse zero_neq_numeral)
  then show ?thesis unfolding sampleResSet_def
    using c i sampleRes_config by (simp add: ResolvedSetDNS_def refreshUpstreamsExcluding_def refreshUpstreamsWithFallback_def managedAddr_def)
qed

lemma sampleResSet_run: "resRun simResRouter simBus (routerKept simResView) (fst sampleRes, snd sampleRes) (fst (snd sampleResSet), snd (snd sampleResSet))"
  by (rule resRun.set [OF resRun.start]) (use sampleResSet_ok in \<open>simp add: sampleResSet_def\<close>)

lemma sampleResSet_effect: "rs_setDNSActive (fst (snd sampleResSet)) \<and> rs_setDNS (fst (snd sampleResSet)) = managedAddr"
proof -
  have "resInv snd (simResView (snd sampleRes)) (fst sampleRes)" using simResolved.New_inv [OF sampleRes_new] by simp
  then show ?thesis using simResolved.SetDNS_inv(2) [OF sampleResSet_ok [unfolded sampleResSet_def]] by (simp add: sampleResSet_def)
qed


text \<open>
  C36: The link is managed exactly while a server is installed. In every run of the provider: after a successful
  \<open>SetDNS\<close> the link has this server, and the routing domain of all names, and nothing else; after a successful round of the monitor
  with a server installed the link has its address as the only server that can be read and the routing domain of all
  names, whatever others have made of the link before; a successful \<open>UnsetDNS\<close> or \<open>Close\<close> leaves the link as it is without
  settings made over the bus, and after a \<open>Close\<close> no client is attached to the router.
\<close>

theorem resolved_manages_link:
  assumes "resolved_world R view urlsOf B linkOf objLink systemConf"
    and "NewResolved R B l d ifidx fallback k0 = (Inr r0, k1)" and "\<forall>s \<in> set fallback. plainServer s"
    and "resRun R B (routerKept view) (r0, k1) (r, k)"
  shows "(ResolvedSetDNS R B server r k = (None, r', k') \<longrightarrow>
      rs_setDNSActive r' \<and> rs_setDNS r' = server \<and> rs_ifidx r' = rs_ifidx r \<and> linkOf k' (rs_ifidx r) = managedConf server) \<and>
    (syncResolvedState R B r k = (None, r', k') \<and> rs_setDNSActive r \<longrightarrow> rs_ifidx r' = rs_ifidx r \<and> managedBy (rs_setDNS r) (linkOf k' (rs_ifidx r))) \<and>
    (ResolvedUnsetDNS R B r k = (None, r', k') \<and> rs_setDNSActive r \<longrightarrow> \<not> rs_setDNSActive r' \<and> linkOf k' (rs_ifidx r) = systemConf (rs_ifidx r)) \<and>
    (ResolvedClose R B r k = (None, r', k') \<and> \<not> rs_closed r \<longrightarrow>
      (rs_setDNSActive r \<longrightarrow> linkOf k' (rs_ifidx r) = systemConf (rs_ifidx r)) \<and> w_backend (view k') = Map.empty)"
proof -
  note W = assms(1)
  have i: "resInv urlsOf (view k) r" "rs_setDNSActive r \<longrightarrow> rs_ifidx r \<noteq> 0"
    using resolved_world.run_inv [OF assms(1,4)] resolved_world.New_inv [OF assms(1-3)] by simp_all
  have valid: "rs_setDNSActive r \<Longrightarrow> addrIsValid (rs_setDNS r)" using i(1) by (simp add: resInv_def)
  have "ResolvedUnsetDNS R B r k = (None, r', k') \<Longrightarrow> \<not> rs_closed r" by (auto simp: ResolvedUnsetDNS_def)
  then show ?thesis
    using resolved_world.SetDNS_inv(2) [OF W _ i(1), of server None r' k'] resolved_world.sync_link [OF W, of r k r' k'] valid
      resolved_world.sync_inv(2) [OF W _ i(1), of None r' k']
      resolved_world.UnsetDNS_link [OF W, of r k r' k'] resolved_world.UnsetDNS_inv(2) [OF W _ i(1), of None r' k'] i(2)
      resolved_world.Close_link [OF W, of r k r' k'] resolved_world.Close_inv(2) [OF W _ i(1), of None r' k']
    by auto
qed

theorem resolved_manages_link_witness:
  "lc_dns (snd (snd (snd sampleResSet)) 2) = [resolvedNameserver managedAddr]"
proof -
  have "snd (snd (snd sampleResSet)) (rs_ifidx (fst sampleRes)) = managedConf managedAddr"
    using resolved_manages_link [OF simResolved.resolved_world_axioms sampleRes_new _ resRun.start, of managedAddr "fst (snd sampleResSet)" "snd (snd sampleResSet)"]
      sampleResSet_ok by (simp add: sampleResSet_def)
  then show ?thesis by (simp add: sampleRes_config(2) managedConf_def)
qed

section \<open>Limits\<close>

text \<open>
  An address with a zone is read back without it. It is then not excluded from the upstream servers, and a round of
  the monitor always installs it again.
\<close>

lemma zoned_server_not_recognized:
  assumes "a = Addr6 w z" and "z \<noteq> ''''"
  shows "filterAddr (linkServers [resolvedNameserver a]) [a] = [AddrPort (addrWithoutZone a) 53]"
    and "linkConfigNeedsApply B r a (linkServers [resolvedNameserver a]) k = (Inr True, k)"
proof -
  have l: "linkServers [resolvedNameserver a] = [AddrPort (addrWithoutZone a) 53]"
    using assms(1) addrFromResolved_nameserver [of a] by (simp add: linkServers_def map_filter_simps)
  show "filterAddr (linkServers [resolvedNameserver a]) [a] = [AddrPort (addrWithoutZone a) 53]"
    using assms unfolding l by (simp add: filterAddr_def addrExcluded_def)
  show "linkConfigNeedsApply B r a (linkServers [resolvedNameserver a]) k = (Inr True, k)"
    using assms unfolding l by (simp add: linkConfigNeedsApply_def)
qed

text \<open>
  A round of the monitor reads the fields of the provider and then works without the lock of \<open>SetDNS\<close>. When a server is
  installed in between, the round does not exclude it from the upstream servers, and requests are sent back to it.
\<close>

definition loopingRoutes :: "resolvedUpstreamRoute list \<times> string list" where
  "loopingRoutes = builderConfig (addLink [AddrPort managedAddr 53] [\<lparr>rl_Domain = ''.'', rl_RoutingOnly = True\<rparr>] [])"

lemma loopingRoutes_urls: "map ur_urls (fst loopingRoutes) = [[serverURL (AddrPort managedAddr 53)]]"
  by code_simp

lemma managed_link_config:
  assumes "snd s 2 = managedConf managedAddr" and "rs_ifidx r = 2"
  shows "upstreamConfig simBus r [] [NoAddr] s = (Inr \<lparr>uc_routes = fst loopingRoutes, uc_signature = snd loopingRoutes,
    uc_targetServers = [AddrPort managedAddr 53], uc_targetDomains = [\<lparr>rl_Domain = ''.'', rl_RoutingOnly = True\<rparr>]\<rparr>, s)"
proof -
  have v: "addrIsValid managedAddr" by (simp add: managedAddr_def)
  have u: "addrWithoutZone managedAddr = managedAddr" by (simp add: managedAddr_def)
  have "readTarget simBus r s = (Inr ([AddrPort managedAddr 53], [\<lparr>rl_Domain = ''.'', rl_RoutingOnly = True\<rparr>]), s)"
    using assms by (simp add: readTarget_def InterfaceIndex_def linkDNSServers_def linkObject_def requireInterfaceIndex_def
        linkObjectFor_def wrapQ_def linkDNSServersFor_def linkDNSServersLegacy_def mapQ_def readProperty_def simBus_def linkDomains_def
        linkDomainsFor_def managedConf_def linkServers_def map_filter_simps addrFromResolved_nameserver [OF v] u)
  moreover have "filterAddr [AddrPort managedAddr 53] [NoAddr] = [AddrPort managedAddr 53]" by code_simp
  moreover have "addLink [AddrPort managedAddr 53] [\<lparr>rl_Domain = ''.'', rl_RoutingOnly = True\<rparr>] [] \<noteq> []" by code_simp
  ultimately show ?thesis using loopingRoutes_urls
    by (auto simp: upstreamConfig_def upstreamConfigFromLink_def managerDNSServers_def simBus_def managerServersEx_def managerDomains_def
        map_filter_simps ifCollect_def mapQ_def readProperty_def chooseTarget_def addGlobals_def Let_def loopingRoutes_def split: prod.splits)
qed

lemma stale_round_loops:
  "\<exists>r' s'. syncRest simResRouter simBus (syncRead (fst sampleRes)) (fst (snd sampleResSet)) (snd (snd sampleResSet)) = (None, r', s') \<and>
     rs_setDNSActive r' \<and> rs_setDNS r' = managedAddr \<and> rs_targetServers r' = [AddrPort managedAddr 53]"
proof -
  let ?r = "fst (snd sampleResSet)" and ?s = "snd (snd sampleResSet)"
  have i0: "resInv snd (simResView (snd sampleRes)) (fst sampleRes)" using simResolved.New_inv [OF sampleRes_new] by simp
  note e = simResolved.SetDNS_inv [OF sampleResSet_ok [unfolded sampleResSet_def] i0, folded sampleResSet_def]
  let ?cfg = "\<lparr>uc_routes = fst loopingRoutes, uc_signature = snd loopingRoutes,
    uc_targetServers = [AddrPort managedAddr 53], uc_targetDomains = [\<lparr>rl_Domain = ''.'', rl_RoutingOnly = True\<rparr>]\<rparr>"
  have c: "upstreamConfig simBus ?r [] [NoAddr] ?s = (Inr ?cfg, ?s)"
    by (rule managed_link_config) (use e sampleRes_config in auto)
  have "snd loopingRoutes \<noteq> rs_upstreamSig ?r"
  proof
    assume eq: "snd loopingRoutes = rs_upstreamSig ?r"
    have m: "snd loopingRoutes = map routeSignature (fst loopingRoutes)"
      unfolding loopingRoutes_def builderConfig_def by (rule builderConfigFrom_signature)
    obtain route where l: "fst loopingRoutes = [route]" "ur_urls route = [serverURL (AddrPort managedAddr 53)]" using loopingRoutes_urls by auto
    obtain routes where g: "\<forall>q \<in> set routes. goodRoute [managedAddr] q" "rs_upstreamSig ?r \<in> {[], map routeSignature routes}"
      using e by (auto simp: resInv_def settled_def managedAddrs_def)
    have "plainURL (serverURL (AddrPort managedAddr 53))" by code_simp
    then have "goodRoute [] route" using l by (simp add: goodRoute_def)
    moreover have "map routeSignature routes = map routeSignature [route]" using eq m g(2) l by auto
    ultimately have "goodRoute [managedAddr] route" using same_signature_good [of routes "[route]" "[managedAddr]"] g(1) by simp
    then show False using l by (auto simp: goodRoute_def avoids_def urlOf_def managedAddr_def)
  qed
  moreover obtain r' s' where n: "installConfig simResRouter (Inr ?cfg) ?r ?s = (None, r', s')"
    using sim_install_ok [of ?r ?cfg ?s] e(2) by (metis prod.collapse)
  ultimately have u: "setUpstreamConfig simResRouter ?cfg ?r ?s = (None, r', s')" by (simp add: installConfig_def)
  have t: "rs_targetServers r' = [AddrPort managedAddr 53]"
    using u by (auto simp: setUpstreamConfig_def Let_def split: prod.splits if_splits option.splits)
  have "\<exists>x. syncLink simBus (syncRead (fst sampleRes)) ?r ?s = (Inr x, ?s)"
    using e(2) sampleRes_config(2) by (simp add: syncLink_def syncRead_def linkDNSServers_def linkObject_def requireInterfaceIndex_def
        linkObjectFor_def wrapQ_def linkDNSServersFor_def linkDNSServersLegacy_def mapQ_def readProperty_def simBus_def linkDomains_def linkDomainsFor_def)
  moreover have "rs_setDNS (fst sampleRes) = NoAddr" by code_simp
  ultimately have "syncRest simResRouter simBus (syncRead (fst sampleRes)) ?r ?s = (None, r', s')"
    using c n sampleRes_config by (auto simp: syncRest_def reapplyDNSIfNeeded_def syncRead_def refreshUpstreamsWithFallback_def)
  then show ?thesis using t e(2) simResolved.setUpstreamConfig_fields [OF u] by simp
qed

end
