(* ===== verification/Resolver.thy ===== *)
theory Resolver
  imports Dns_Servers
begin

text \<open>
  \<open>resolver.go\<close>: names are looked up in the hosts file before the DNS resolver is asked. The DNS resolver, the contents of files
  and the error of the context are parameters. Letters beyond ASCII are not lower-cased.
\<close>

section \<open>Local data\<close>

definition normalizeHostName :: "string \<Rightarrow> string" where
  "normalizeHostName host = map tolower (trimSuffix host ''.'')"

definition addressMatchesNetwork :: "Addr \<Rightarrow> string \<Rightarrow> bool" where
  "addressMatchesNetwork address network =
     (if hasSuffix network ''4'' then addrIs4 address else if hasSuffix network ''6'' then addrIs6 address else True)"

definition localNoSuchHost :: "string \<Rightarrow> goError" where
  "localNoSuchHost host = Errorf ''lookup %s: no such host'' [AStr host] []"

text \<open>The closure \<open>appendAddress\<close> on the list of addresses and the set of those seen.\<close>

definition appendAddress :: "string \<Rightarrow> Addr \<Rightarrow> Addr list \<times> Addr set \<Rightarrow> Addr list \<times> Addr set" where
  "appendAddress network address0 st =
     (let address = addrUnmap address0 in
      case st of (addresses, seen) \<Rightarrow>
        if \<not> addressMatchesNetwork address network then st
        else if address \<in> seen then st
        else (addresses @ [address], insert address seen))"

definition cutComment :: "string \<Rightarrow> string" where
  "cutComment line = takeWhile (\<lambda>c. c \<noteq> CHR ''#'') line"

definition hostsLine :: "string \<Rightarrow> string \<Rightarrow> string \<Rightarrow> Addr list \<times> Addr set \<Rightarrow> Addr list \<times> Addr set" where
  "hostsLine network name line st =
     (let fs = strFields (cutComment line) in
      if length fs < 2 then st
      else case parseAddr (fs ! 0) of Inl _ \<Rightarrow> st
        | Inr address \<Rightarrow> if list_ex (\<lambda>alias. normalizeHostName alias = name) (drop 1 fs) then appendAddress network address st else st)"

definition lookupLocalHostData :: "string \<Rightarrow> string \<Rightarrow> string \<Rightarrow> Addr list \<Rightarrow> Addr set \<Rightarrow> Addr list \<times> bool" where
  "lookupLocalHostData data network host addresses seen =
     (fst (foldl (\<lambda>st line. hostsLine network (normalizeHostName host) line st) (addresses, seen) (splitByte nl data)), False)"

definition IPv6Loopback :: Addr where
  "IPv6Loopback = Addr6 1 ''''"

text \<open>The file is read whatever the error; \<open>readFile\<close> gives the bytes that were read.\<close>

definition lookupLocalHost :: "(string \<Rightarrow> string) \<Rightarrow> string \<Rightarrow> string \<Rightarrow> string \<Rightarrow> goError + Addr list \<times> bool" where
  "lookupLocalHost readFile hostsFile network host = (case parseAddr host of
     Inr address \<Rightarrow>
       let address = addrUnmap address in
       if \<not> addressMatchesNetwork address network then Inl (localNoSuchHost host) else Inr ([address], True)
   | Inl _ \<Rightarrow>
       let name = normalizeHostName host;
           st = (if name = ''localhost'' then appendAddress network IPv6Loopback (appendAddress network (Addr4 0x7F000001) ([], {}))
                 else ([], {})) in
       Inr (lookupLocalHostData (readFile hostsFile) network host (fst st) (snd st)))"

section \<open>The resolver\<close>

fun addrAsSlice :: "Addr \<Rightarrow> bytes" where
  "addrAsSlice NoAddr = []"
| "addrAsSlice (Addr4 w) = addrBytes 4 (uint w)"
| "addrAsSlice (Addr6 w z) = addrBytes 16 (uint w)"

definition netIPs :: "Addr list \<Rightarrow> bytes list" where
  "netIPs addresses = map addrAsSlice addresses"

definition addrFromSlice :: "bytes \<Rightarrow> Addr option" where
  "addrFromSlice ip = (if length ip = 4 then Some (Addr4 (word_of_int (ofFields 256 (map uint ip))))
     else if length ip = 16 then Some (Addr6 (word_of_int (ofFields 256 (map uint ip))) '''') else None)"

text \<open>\<open>net.IP.String\<close>.\<close>

definition goIPString :: "bytes \<Rightarrow> string" where
  "goIPString ip = (if length ip = 0 then ''<nil>''
     else if length ip \<noteq> 4 \<and> length ip \<noteq> 16 then ''?'' @ concat (map (\<lambda>b. concat (map (formatInt 16) (groupsOf 16 2 (uint b)))) ip)
     else case addrFromSlice (if length (To4 ip) = 4 then To4 ip else ip) of Some a \<Rightarrow> addrString a | None \<Rightarrow> '''')"

text \<open>
  The resolver: the path of the hosts file and the DNS resolver. A context gives its error, which depends on the
  state; \<open>None\<close> is the nil context.
\<close>

record 'k localThenDNSResolver =
  lr_hostsFile :: string
  lr_Resolver :: "string \<Rightarrow> string \<Rightarrow> ('k, bytes list) query"

type_synonym 'k goContext = "('k \<Rightarrow> goError option) option"

definition ctxErr :: "'k goContext \<Rightarrow> 'k \<Rightarrow> goError option" where
  "ctxErr ctx k = (case ctx of None \<Rightarrow> None | Some err \<Rightarrow> err k)"

definition newLocalThenDNSResolver :: "string \<Rightarrow> (string \<Rightarrow> string \<Rightarrow> ('k, bytes list) query) \<Rightarrow> 'k localThenDNSResolver" where
  "newLocalThenDNSResolver hostsFile dnsResolver =
     \<lparr>lr_hostsFile = (if hostsFile = '''' then ''/etc/hosts'' else hostsFile), lr_Resolver = dnsResolver\<rparr>"

text \<open>The loop over the two families: the addresses so far and the last error.\<close>

fun familyLoop :: "'k localThenDNSResolver \<Rightarrow> 'k goContext \<Rightarrow> string \<Rightarrow> string list \<Rightarrow> bytes list \<Rightarrow> goError option \<Rightarrow>
    ('k, bytes list) query" where
  "familyLoop r ctx host [] addresses lookupErr k =
     (if length addresses \<noteq> 0 then (Inr addresses, k)
      else (Inl (case lookupErr of None \<Rightarrow> localNoSuchHost host | Some err \<Rightarrow> err), k))"
| "familyLoop r ctx host (network # networks) addresses lookupErr k = (case lr_Resolver r network host k of
     (Inl err, k) \<Rightarrow> (case ctxErr ctx k of Some e \<Rightarrow> (Inl e, k) | None \<Rightarrow> familyLoop r ctx host networks addresses (Some err) k)
   | (Inr ips, k) \<Rightarrow> familyLoop r ctx host networks (addresses @ ips) lookupErr k)"

definition lookupBothDNSFamilies :: "'k localThenDNSResolver \<Rightarrow> 'k goContext \<Rightarrow> string \<Rightarrow> ('k, bytes list) query" where
  "lookupBothDNSFamilies r ctx host = familyLoop r ctx host [''ip4'', ''ip6''] [] None"

definition LookupIP :: "(string \<Rightarrow> string) \<Rightarrow> 'k localThenDNSResolver \<Rightarrow> 'k goContext \<Rightarrow> string \<Rightarrow> string \<Rightarrow> ('k, bytes list) query" where
  "LookupIP readFile r ctx network host k = (case ctxErr ctx k of Some err \<Rightarrow> (Inl err, k)
     | None \<Rightarrow> (case lookupLocalHost readFile (lr_hostsFile r) network host of
         Inl err \<Rightarrow> (Inl err, k)
       | Inr (addresses, literal) \<Rightarrow>
           if literal \<or> length addresses \<noteq> 0 then (Inr (netIPs addresses), k)
           else if network = ''ip'' then lookupBothDNSFamilies r ctx host k
           else lr_Resolver r network host k))"

text \<open>\<open>LookupIPAddr\<close> gives the addresses without zones, which are the addresses themselves.\<close>

definition LookupIPAddr :: "(string \<Rightarrow> string) \<Rightarrow> 'k localThenDNSResolver \<Rightarrow> 'k goContext \<Rightarrow> string \<Rightarrow> ('k, (bytes \<times> string) list) query" where
  "LookupIPAddr readFile r ctx host k = (case LookupIP readFile r ctx ''ip'' host k of
     (Inl err, k) \<Rightarrow> (Inl err, k) | (Inr ips, k) \<Rightarrow> (Inr (map (\<lambda>ip. (ip, '''')) ips), k))"

definition LookupNetIP :: "(string \<Rightarrow> string) \<Rightarrow> 'k localThenDNSResolver \<Rightarrow> 'k goContext \<Rightarrow> string \<Rightarrow> string \<Rightarrow> ('k, Addr list) query" where
  "LookupNetIP readFile r ctx network host k = (case LookupIP readFile r ctx network host k of
     (Inl err, k) \<Rightarrow> (Inl err, k) | (Inr ips, k) \<Rightarrow> (Inr (List.map_filter (\<lambda>ip. map_option addrUnmap (addrFromSlice ip)) ips), k))"

definition LookupHost :: "(string \<Rightarrow> string) \<Rightarrow> 'k localThenDNSResolver \<Rightarrow> 'k goContext \<Rightarrow> string \<Rightarrow> ('k, string list) query" where
  "LookupHost readFile r ctx host k = (case LookupIP readFile r ctx ''ip'' host k of
     (Inl err, k) \<Rightarrow> (Inl err, k) | (Inr ips, k) \<Rightarrow> (Inr (map goIPString ips), k))"

section \<open>Reference definition\<close>

text \<open>
  The entries of a hosts file, and the local addresses of a name: those of the entries that list it, the loopback addresses first for
  \<open>localhost\<close>, of the wanted family and without repetition.
\<close>

definition hostsEntry :: "string \<Rightarrow> (Addr \<times> string list) option" where
  "hostsEntry line = (case strFields (cutComment line) of
     first # alias # aliases \<Rightarrow> (case parseAddr first of Inr a \<Rightarrow> Some (a, map normalizeHostName (alias # aliases)) | Inl _ \<Rightarrow> None)
   | _ \<Rightarrow> None)"

definition namedIn :: "string \<Rightarrow> string \<Rightarrow> Addr list" where
  "namedIn data name = map fst (filter (\<lambda>(a, names). name \<in> set names) (List.map_filter hostsEntry (splitByte nl data)))"

definition loopbacks :: "string \<Rightarrow> Addr list" where
  "loopbacks name = (if name = ''localhost'' then [Addr4 0x7F000001, IPv6Loopback] else [])"

definition localAddrs :: "string \<Rightarrow> string \<Rightarrow> string \<Rightarrow> Addr list" where
  "localAddrs data network host =
     dedup_by (\<lambda>a. a) (filter (\<lambda>a. addressMatchesNetwork a network)
       (map addrUnmap (loopbacks (normalizeHostName host) @ namedIn data (normalizeHostName host))))"

lemma appendAll:
  "set seen = S \<Longrightarrow> foldl (\<lambda>st a. appendAddress network a st) (xs, S) as =
     (let ys = dedup_from (\<lambda>a. a) seen (filter (\<lambda>a. addressMatchesNetwork a network) (map addrUnmap as)) in (xs @ ys, S \<union> set ys))"
proof (induction as arbitrary: xs S seen)
  case (Cons a as)
  show ?case
  proof (cases "addressMatchesNetwork (addrUnmap a) network \<and> addrUnmap a \<notin> S")
    case True
    then show ?thesis using Cons.IH [of "addrUnmap a # seen" "insert (addrUnmap a) S"] Cons.prems by (simp add: appendAddress_def Let_def)
  next
    case False
    then show ?thesis using Cons by (auto simp: appendAddress_def Let_def)
  qed
qed simp

lemma hostsLine_entry: "hostsLine network name line st = (case hostsEntry line of None \<Rightarrow> st
    | Some (a, names) \<Rightarrow> if name \<in> set names then appendAddress network a st else st)"
  by (auto simp: hostsLine_def hostsEntry_def Let_def list_ex_iff split: list.splits sum.splits)

lemma lines_fold:
  "foldl (\<lambda>st line. hostsLine network name line st) st lines =
     foldl (\<lambda>st a. appendAddress network a st) st (map fst (filter (\<lambda>(a, names). name \<in> set names) (List.map_filter hostsEntry lines)))"
  by (induction lines arbitrary: st) (auto simp: hostsLine_entry map_filter_simps split: option.splits)

lemma local_lookup:
  assumes "parseAddr host = Inl err"
  shows "lookupLocalHost readFile path network host = Inr (localAddrs (readFile path) network host, False)"
proof -
  let ?name = "normalizeHostName host"
  let ?st = "if ?name = ''localhost'' then appendAddress network IPv6Loopback (appendAddress network (Addr4 0x7F000001) ([], {})) else ([], {})"
  have st: "?st = foldl (\<lambda>st a. appendAddress network a st) ([], {}) (loopbacks ?name)" by (simp add: loopbacks_def)
  have "fst (foldl (\<lambda>st line. hostsLine network ?name line st) ?st (splitByte nl (readFile path))) = localAddrs (readFile path) network host"
    unfolding st lines_fold namedIn_def [symmetric] foldl_append [symmetric] by (simp add: appendAll [of "[]"] Let_def localAddrs_def del: foldl_append map_append)
  then show ?thesis using assms unfolding lookupLocalHost_def lookupLocalHostData_def Let_def by simp
qed

section \<open>The property\<close>

text \<open>The bytes of an address give it back, without its zone.\<close>

lemma addrFromSlice_slice: "addrIsValid a \<Longrightarrow> addrFromSlice (addrAsSlice a) = Some (addrWithoutZone a)"
proof (cases a)
  case (Addr4 w)
  have "ofFields 256 (map uint (addrBytes 4 (uint w))) = uint w"
    by (rule ofFields_addrBytes) (use uint_lt2p [of w] in simp_all)
  then show ?thesis using Addr4 by (simp add: addrFromSlice_def addrBytes_def)
next
  case (Addr6 w z)
  have "ofFields 256 (map uint (addrBytes 16 (uint w))) = uint w"
    by (rule ofFields_addrBytes) (use uint_lt2p [of w] in simp_all)
  then show ?thesis using Addr6 by (simp add: addrFromSlice_def addrBytes_def)
qed simp

lemma unmap_unmap: "addrUnmap (addrWithoutZone (addrUnmap a)) = addrWithoutZone (addrUnmap a)"
  by (cases a) auto

lemma unmap_valid: "addrIsValid (addrUnmap a) = addrIsValid a"
  by (cases a) auto

lemma localAddrs_unmapped: "a \<in> set (localAddrs data network host) \<Longrightarrow> \<exists>b. a = addrUnmap b \<and> addrIsValid b"
proof -
  assume "a \<in> set (localAddrs data network host)"
  then obtain b where b: "a = addrUnmap b" "b \<in> set (loopbacks (normalizeHostName host)) \<or> b \<in> set (namedIn data (normalizeHostName host))"
    by (auto simp: localAddrs_def)
  have "hostsEntry line = Some (c, names) \<Longrightarrow> addrIsValid c" for line c names
    by (auto simp: hostsEntry_def split: list.splits sum.splits dest: parseAddr_valid)
  then have "addrIsValid b" if "b \<in> set (namedIn data name)" for name
    using that by (auto simp: namedIn_def set_map_filter_Some)
  then show ?thesis using b by (auto simp: loopbacks_def IPv6Loopback_def split: if_splits)
qed

lemma slices_back: "\<forall>a \<in> set as. \<exists>b. a = addrUnmap b \<and> addrIsValid b \<Longrightarrow>
    List.map_filter (\<lambda>ip. map_option addrUnmap (addrFromSlice ip)) (netIPs as) = map addrWithoutZone as"
  by (induction as) (auto simp: netIPs_def map_filter_simps addrFromSlice_slice unmap_valid unmap_unmap)

lemma LookupNetIP_literal:
  assumes "ctxErr ctx k = None" and "parseAddr host = Inr a"
  shows "LookupNetIP readFile r ctx network host k =
    (if addressMatchesNetwork (addrUnmap a) network then Inr [addrWithoutZone (addrUnmap a)] else Inl (localNoSuchHost host), k)"
proof -
  have "List.map_filter (\<lambda>ip. map_option addrUnmap (addrFromSlice ip)) (netIPs [addrUnmap a]) = [addrWithoutZone (addrUnmap a)]"
    using slices_back [of "[addrUnmap a]"] parseAddr_valid [OF assms(2)] by auto
  then show ?thesis using assms by (simp add: LookupNetIP_def LookupIP_def lookupLocalHost_def Let_def)
qed

text \<open>
  C40: Names are looked up locally first, and the DNS resolver is asked only when that gives nothing. A literal address is its own
  answer, or no answer when it is of another family. Another name has the addresses of exactly the lines of the hosts
  file that list it, compared without case and final dot, after the loopback addresses for \<open>localhost\<close>, of the wanted family,
  each once and in the order of the file; no request is then made. Without a local address the answer is that of the DNS resolver.
\<close>

theorem hosts_before_dns:
  assumes "ctxErr ctx k = None"
  shows "(case parseAddr host of
      Inr a \<Rightarrow> LookupNetIP readFile r ctx network host k =
        (if addressMatchesNetwork (addrUnmap a) network then Inr [addrWithoutZone (addrUnmap a)] else Inl (localNoSuchHost host), k)
    | Inl _ \<Rightarrow> (let local = localAddrs (readFile (lr_hostsFile r)) network host in
        if local \<noteq> [] then LookupNetIP readFile r ctx network host k = (Inr (map addrWithoutZone local), k)
        else LookupIP readFile r ctx network host k =
          (if network = ''ip'' then lookupBothDNSFamilies r ctx host k else lr_Resolver r network host k)))"
proof (cases "parseAddr host")
  case (Inl err)
  let ?local = "localAddrs (readFile (lr_hostsFile r)) network host"
  have l: "LookupIP readFile r ctx network host k = (if ?local \<noteq> [] then (Inr (netIPs ?local), k)
      else if network = ''ip'' then lookupBothDNSFamilies r ctx host k else lr_Resolver r network host k)"
    using assms by (simp add: LookupIP_def local_lookup [OF Inl])
  have "List.map_filter (\<lambda>ip. map_option addrUnmap (addrFromSlice ip)) (netIPs ?local) = map addrWithoutZone ?local"
    by (rule slices_back) (use localAddrs_unmapped in blast)
  then show ?thesis using l Inl by (simp add: LookupNetIP_def Let_def)
next
  case (Inr a)
  then show ?thesis using LookupNetIP_literal [OF assms] by simp
qed

theorem hosts_before_dns_witness:
  "LookupNetIP (\<lambda>_. ''192.0.2.7 Example example.org # comment'') (newLocalThenDNSResolver '''' (\<lambda>network host k. (Inl (Errno 1), k))) None
     ''ip4'' ''EXAMPLE.org.'' () = (Inr [Addr4 0xC0000207], ())"
proof -
  have "isl (parseAddr ''EXAMPLE.org.'')" by code_simp
  then obtain err where "parseAddr ''EXAMPLE.org.'' = Inl err" by (auto simp: isl_def)
  moreover have "localAddrs ''192.0.2.7 Example example.org # comment'' ''ip4'' ''EXAMPLE.org.'' = [Addr4 0xC0000207]" by code_simp
  ultimately show ?thesis
    using hosts_before_dns [where readFile = "\<lambda>_. ''192.0.2.7 Example example.org # comment''" and host = "''EXAMPLE.org.''" and ctx = None
        and r = "newLocalThenDNSResolver '''' (\<lambda>network host k. (Inl (Errno 1), k))" and network = "''ip4''" and k = "()"]
    by (simp add: ctxErr_def)
qed

text \<open>The zone of a literal address or of an address in the hosts file is lost.\<close>

lemma zone_lost: "LookupNetIP readFile r None ''ip'' ''fe80::1%eth0'' k = (Inr [Addr6 0xFE800000000000000000000000000001 ''''], k)"
proof -
  have "parseAddr ''fe80::1%eth0'' = Inr (Addr6 0xFE800000000000000000000000000001 ''eth0'')" by code_simp
  moreover have "addressMatchesNetwork (addrUnmap (Addr6 0xFE800000000000000000000000000001 ''eth0'')) ''ip''" by code_simp
  moreover have "drop_bit 32 (0xFE800000000000000000000000000001 :: 128 word) \<noteq> 0xffff" by code_simp
  ultimately show ?thesis using LookupNetIP_literal [where host = "''fe80::1%eth0''" and ctx = None and k = k] by (simp add: ctxErr_def)
qed

end
