(* ===== verification/Sys_Options.thy ===== *)
theory Sys_Options
  imports Netip_Text Routing_Config
begin

text \<open>
  The options of a TUN, \<open>sysnet.go\<close> and \<open>capabilities.go\<close>: normalisation of addresses, routes and source routes, the address
  families they use, and the syntax of interface names. Maps whose values are not read are sets.
\<close>

section \<open>Addresses and routes\<close>

text \<open>The loop of \<open>normalizeTunAddrs\<close>: the texts seen and kept, and whether the DNS and the fallback address occurred.\<close>

fun addrsLoop :: "Addr \<Rightarrow> Prefix \<Rightarrow> string set \<Rightarrow> string list \<Rightarrow> bool \<Rightarrow> bool \<Rightarrow> string list \<Rightarrow>
    goError + string set \<times> string list \<times> bool \<times> bool" where
  "addrsLoop dnsAddr fb seen out containsDNS containsFallbackAddr [] = Inr (seen, out, containsDNS, containsFallbackAddr)"
| "addrsLoop dnsAddr fb seen out containsDNS containsFallbackAddr (addr # addrs) = (case parsePrefix addr of
     Inl err \<Rightarrow> Inl err
   | Inr pfx \<Rightarrow>
       if addrIsLoopback (pfxAddr pfx) then addrsLoop dnsAddr fb seen out containsDNS containsFallbackAddr addrs
       else let cidr = prefixString pfx in
         addrsLoop dnsAddr fb (insert cidr seen) (if cidr \<notin> seen then out @ [cidr] else out)
           (containsDNS \<or> addrIsValid dnsAddr \<and> pfxAddr pfx = dnsAddr)
           (containsFallbackAddr \<or> prefixIsValid fb \<and> pfxAddr pfx = pfxAddr fb) addrs)"

definition normalizeTunAddrs :: "string list \<Rightarrow> string \<Rightarrow> string \<Rightarrow> goError + string list \<times> Addr" where
  "normalizeTunAddrs addrs fallbackCIDR dnsIP =
     (case (if fallbackCIDR \<noteq> '''' then parsePrefix fallbackCIDR else Inr NoPrefix) of
        Inl err \<Rightarrow> Inl err
      | Inr fb \<Rightarrow>
          let dnsAddr = (case parseAddr dnsIP of Inr a \<Rightarrow> a | Inl _ \<Rightarrow> NoAddr) in
          (case addrsLoop dnsAddr fb {} [] False False addrs of
             Inl err \<Rightarrow> Inl err
           | Inr (seen, out, containsDNS, containsFallbackAddr) \<Rightarrow>
               let append = prefixIsValid fb \<and> \<not> containsFallbackAddr;
                   cidr = prefixString fb;
                   out = (if append \<and> cidr \<notin> seen then out @ [cidr] else out);
                   containsDNS = (containsDNS \<or> append \<and> addrIsValid dnsAddr \<and> pfxAddr fb = dnsAddr) in
               if addrIsValid dnsAddr \<and> containsDNS then Inr (out, dnsAddr)
               else if prefixIsValid fb then Inr (out, pfxAddr fb)
               else Inr (out, NoAddr)))"

fun routesLoop :: "string set \<Rightarrow> string list \<Rightarrow> string list \<Rightarrow> goError + string list" where
  "routesLoop seen out [] = Inr out"
| "routesLoop seen out (route # routes) = (case parsePrefix route of
     Inl err \<Rightarrow> Inl err
   | Inr pfx \<Rightarrow>
       if addrIsLoopback (pfxAddr pfx) then routesLoop seen out routes
       else let cidr = prefixString pfx in
         if cidr \<notin> seen then routesLoop (insert cidr seen) (out @ [cidr]) routes else routesLoop seen out routes)"

definition normalizeTunRoutes :: "string list \<Rightarrow> goError + string list" where
  "normalizeTunRoutes routes = routesLoop {} [] routes"

section \<open>Source routes\<close>

definition validTunSourceRouteAddr :: "Addr \<Rightarrow> bool" where
  "validTunSourceRouteAddr addr \<longleftrightarrow> addrIsValid addr \<and> \<not> addrIs4In6 addr \<and> \<not> addrIsUnspecified addr \<and> \<not> addrIsMulticast addr \<and>
     \<not> addrIsLoopback addr \<and> addrZone addr = '''' \<and> (addrIsGlobalUnicast addr \<or> addrIsLinkLocalUnicast addr)"

fun assignedAddrs :: "string list \<Rightarrow> goError + Addr set" where
  "assignedAddrs [] = Inr {}"
| "assignedAddrs (s # ss) = (case parsePrefix s of Inl err \<Rightarrow> Inl err
     | Inr pfx \<Rightarrow> (case assignedAddrs ss of Inl err \<Rightarrow> Inl err | Inr as \<Rightarrow> Inr (insert (pfxAddr pfx) as)))"

fun sourceRoutesLoop :: "Addr set \<Rightarrow> int \<Rightarrow> (Prefix \<times> Addr) list \<Rightarrow> SourceRoute list \<Rightarrow> goError + SourceRoute list" where
  "sourceRoutesLoop assigned i seen [] = Inr []"
| "sourceRoutesLoop assigned i seen (route # routes) =
     (let dst = sr_Destination route; source = sr_Source route in
      if \<not> prefixIsValid dst \<or> addrIs4In6 (pfxAddr dst) then Inl (Errorf ''source route %d has an invalid destination prefix'' [AInt i] [])
      else if \<not> validTunSourceRouteAddr source then Inl (Errorf ''source route %d has an invalid source address'' [AInt i] [])
      else if addrIs4 (pfxAddr dst) \<noteq> addrIs4 source then Inl (Errorf ''source route %d uses different address families'' [AInt i] [])
      else if source \<notin> assigned then
        Inl (Errorf ''source route %d source %s is not assigned to the TUN'' [AInt i, AStr (addrString source)] [])
      else let destination = prefixMasked dst in
        (case map_of seen destination of
           Some s \<Rightarrow> if s \<noteq> source then
               Inl (Errorf ''source route destination %s has conflicting sources'' [AStr (prefixString destination)] [])
             else sourceRoutesLoop assigned (i + 1) seen routes
         | None \<Rightarrow> (case sourceRoutesLoop assigned (i + 1) ((destination, source) # seen) routes of
             Inl err \<Rightarrow> Inl err
           | Inr rs \<Rightarrow> Inr (\<lparr>sr_Destination = destination, sr_Source = source\<rparr> # rs))))"

text \<open>The nil slice and the empty slice are the empty list.\<close>

definition normalizeTunSourceRoutes :: "string list \<Rightarrow> SourceRoute list \<Rightarrow> goError + SourceRoute list" where
  "normalizeTunSourceRoutes tunAddrs routes =
     (if routes = [] then Inr []
      else case assignedAddrs tunAddrs of Inl err \<Rightarrow> Inl err | Inr assigned \<Rightarrow> sourceRoutesLoop assigned 0 [] routes)"

definition validateDefaultTunSourceAddrs :: "string list \<Rightarrow> SourceRoute list \<Rightarrow> goError option" where
  "validateDefaultTunSourceAddrs addrs sourceRoutes = (case assignedAddrs addrs of Inl err \<Rightarrow> Some err
     | Inr assigned \<Rightarrow> (case List.find (\<lambda>route. sr_Source route \<notin> assigned) sourceRoutes of
         None \<Rightarrow> None
       | Some route \<Rightarrow> Some (Errorf ''default tun address update removes source route address %s'' [AStr (addrString (sr_Source route))] [])))"

section \<open>Families\<close>

definition familyFlags :: "string \<Rightarrow> FamilySet \<Rightarrow> FamilySet" where
  "familyFlags value f = (case parsePrefix value of Inl _ \<Rightarrow> f
     | Inr pfx \<Rightarrow> if addrIs4 (pfxAddr pfx) then f\<lparr>fam_IPv4 := True\<rparr> else if addrIs6 (pfxAddr pfx) then f\<lparr>fam_IPv6 := True\<rparr> else f)"

definition routeFamilies :: "string list \<Rightarrow> string list \<Rightarrow> FamilySet" where
  "routeFamilies addrs routes =
     (let f = foldl (\<lambda>f value. familyFlags value f) \<lparr>fam_IPv4 = False, fam_IPv6 = False\<rparr> (addrs @ routes) in
      if \<not> fam_IPv4 f \<and> \<not> fam_IPv6 f then BothFamilies else f)"

definition setDefaultTunRoutingFamilies :: "Config \<Rightarrow> string list \<Rightarrow> string list \<Rightarrow> Config" where
  "setDefaultTunRoutingFamilies config addrs routes =
     (let config = config\<lparr>cfg_TunnelFamilies := routeFamilies addrs routes\<rparr>; config = config\<lparr>cfg_Families := cfg_TunnelFamilies config\<rparr> in
      if cfg_Strictness config = Strict then config\<lparr>cfg_Families := BothFamilies\<rparr> else config)"

definition cloneDefaultTunRoutingConfig :: "Config \<Rightarrow> Config" where
  "cloneDefaultTunRoutingConfig config = config\<lparr>cfg_SourceRoutes := cfg_SourceRoutes config\<rparr>"

datatype AddressFamily = FamilyNone | FamilyIPv4 | FamilyIPv6 | FamilyDual

definition optionFlags :: "string \<Rightarrow> bool \<times> bool \<Rightarrow> bool \<times> bool" where
  "optionFlags value f = (case parsePrefix value of Inl _ \<Rightarrow> f
     | Inr pfx \<Rightarrow> if addrIsLoopback (pfxAddr pfx) then f
         else if addrIs4 (pfxAddr pfx) then (True, snd f) else if addrIs6 (pfxAddr pfx) then (fst f, True) else f)"

definition optionFamily :: "string list \<Rightarrow> string list \<Rightarrow> AddressFamily" where
  "optionFamily addrs routes = (case foldl (\<lambda>f value. optionFlags value f) (False, False) (addrs @ routes) of
     (True, True) \<Rightarrow> FamilyDual | (True, False) \<Rightarrow> FamilyIPv4 | (False, True) \<Rightarrow> FamilyIPv6 | (False, False) \<Rightarrow> FamilyNone)"

definition prefixFamily :: "Prefix \<Rightarrow> AddressFamily" where
  "prefixFamily pfx = (if addrIs4 (pfxAddr pfx) then FamilyIPv4 else FamilyIPv6)"

section \<open>Names and marks\<close>

text \<open>
  The syntax of a name, and whether it is free. Decoding a byte above 127 as UTF-8 gives a rune above 127, or the
  replacement character, which is one too.
\<close>

definition TunNameVerify :: "(string \<Rightarrow> 'k \<Rightarrow> bool \<times> 'k) \<Rightarrow> string \<Rightarrow> 'k \<Rightarrow> (bool \<times> bool) \<times> 'k" where
  "TunNameVerify interfaceExists name k =
     (if name = '''' \<or> length name \<ge> 16 \<or> name = ''.'' \<or> name = ''..'' then ((False, False), k)
      else if list_ex (\<lambda>c. c = CHR ''/'' \<or> c = CHR '':'' \<or> c = CHR 0x00 \<or> (of_char c :: nat) > 127) name then ((False, False), k)
      else case interfaceExists name k of (found, k) \<Rightarrow> ((True, \<not> found), k))"

definition hexMark :: "u32 \<Rightarrow> string" where
  "hexMark mark = ''0x'' @ formatInt 16 (uint mark)"

section \<open>What normalisation gives\<close>

text \<open>All prefixes of a list of texts, and the texts of those that are not loopback, each once.\<close>

fun parseAll :: "string list \<Rightarrow> goError + Prefix list" where
  "parseAll [] = Inr []"
| "parseAll (s # ss) = (case parsePrefix s of Inl err \<Rightarrow> Inl err | Inr p \<Rightarrow> (case parseAll ss of Inl err \<Rightarrow> Inl err | Inr ps \<Rightarrow> Inr (p # ps)))"

definition ordinary :: "Prefix list \<Rightarrow> Prefix list" where
  "ordinary ps = filter (\<lambda>p. \<not> addrIsLoopback (pfxAddr p)) ps"

lemma addrsLoop_parseAll:
  "addrsLoop d fb (set s) out cd cf addrs = (case parseAll addrs of Inl err \<Rightarrow> Inl err
     | Inr ps \<Rightarrow> let ts = map prefixString (ordinary ps) in
         Inr (set s \<union> set ts, out @ dedup_from (\<lambda>t. t) s ts, cd \<or> addrIsValid d \<and> d \<in> pfxAddr ` set (ordinary ps),
              cf \<or> prefixIsValid fb \<and> pfxAddr fb \<in> pfxAddr ` set (ordinary ps)))"
proof (induction addrs arbitrary: s out cd cf)
  case (Cons a addrs)
  show ?case
  proof (cases "parsePrefix a")
    case (Inr p)
    have same: "set (prefixString p # s) = set s" if "prefixString p \<in> set s" using that by auto
    have cong: "dedup_from (\<lambda>t. t) (prefixString p # s) ts = dedup_from (\<lambda>t. t) s ts" if "prefixString p \<in> set s" for ts
      by (rule dedup_from_set) (use same [OF that] in simp)
    show ?thesis
    proof (cases "addrIsLoopback (pfxAddr p)")
      case True
      then show ?thesis using Inr Cons.IH by (auto simp: ordinary_def split: sum.splits)
    next
      case False
      then show ?thesis using Inr Cons.IH [of "prefixString p # s"] cong
        by (cases "parseAll addrs") (auto simp: ordinary_def Let_def image_iff insert_absorb)
    qed
  qed (simp split: sum.splits)
qed (simp add: ordinary_def)

lemma parseAll_valid: "parseAll ss = Inr ps \<Longrightarrow> \<forall>p \<in> set ps. prefixIsValid p \<and> addrZone (pfxAddr p) = ''''"
  by (induction ss arbitrary: ps) (auto split: sum.splits dest: parsePrefix_valid)

lemma parseAll_texts: "\<forall>p \<in> set ps. prefixIsValid p \<and> addrZone (pfxAddr p) = '''' \<Longrightarrow> parseAll (map prefixString ps) = Inr ps"
  by (induction ps) (auto simp: parse_prefixString)

lemma dedup_fixed: "distinct xs \<Longrightarrow> dedup_by (\<lambda>x. x) xs = xs"
  using dedup_from_distinct [of "\<lambda>x. x" xs "[]"] by simp

lemma prefixString_unique: "prefixIsValid p \<Longrightarrow> prefixIsValid q \<Longrightarrow> addrZone (pfxAddr p) = '''' \<Longrightarrow> addrZone (pfxAddr q) = '''' \<Longrightarrow>
    prefixString p = prefixString q \<longleftrightarrow> p = q"
  using parse_prefixString by (metis sum.inject(2))

text \<open>The result from the parsed prefixes: \<open>qs\<close> those kept, \<open>fb\<close> the fallback prefix, \<open>d\<close> the wanted DNS address.\<close>

definition withFallback :: "Prefix \<Rightarrow> Prefix list \<Rightarrow> Prefix list" where
  "withFallback fb qs = qs @ (if prefixIsValid fb \<and> pfxAddr fb \<notin> pfxAddr ` set qs then [fb] else [])"

definition chosenDNS :: "Addr \<Rightarrow> Prefix \<Rightarrow> Prefix list \<Rightarrow> Addr" where
  "chosenDNS d fb ps = (if addrIsValid d \<and> d \<in> pfxAddr ` set ps then d else if prefixIsValid fb then pfxAddr fb else NoAddr)"

definition fallbackOf :: "string \<Rightarrow> goError + Prefix" where
  "fallbackOf cidr = (if cidr \<noteq> '''' then parsePrefix cidr else Inr NoPrefix)"

definition dnsOf :: "string \<Rightarrow> Addr" where
  "dnsOf s = (case parseAddr s of Inr a \<Rightarrow> a | Inl _ \<Rightarrow> NoAddr)"

lemma NoPrefix_invalid [simp]: "\<not> prefixIsValid NoPrefix"
  by (simp add: prefixIsValid_def NoPrefix_def)

lemma fallbackOf_zone: "fallbackOf cidr = Inr fb \<Longrightarrow> addrZone (pfxAddr fb) = ''''"
  by (auto simp: fallbackOf_def NoPrefix_def split: if_splits dest: parsePrefix_valid)

lemma dedup_map: "inj_on f (set xs \<union> set s) \<Longrightarrow> dedup_from (\<lambda>t. t) (map f s) (map f xs) = map f (dedup_from (\<lambda>t. t) s xs)"
proof (induction xs arbitrary: s)
  case (Cons x xs)
  have "inj_on f (set xs \<union> set s)" "inj_on f (set xs \<union> set (x # s))" using Cons.prems by (auto intro: inj_on_subset)
  then have "dedup_from (\<lambda>t. t) (map f s) (map f xs) = map f (dedup_from (\<lambda>t. t) s xs)"
    "dedup_from (\<lambda>t. t) (f x # map f s) (map f xs) = map f (dedup_from (\<lambda>t. t) (x # s) xs)" using Cons.IH [of s] Cons.IH [of "x # s"] by simp_all
  moreover have "f x \<in> f ` set s \<longleftrightarrow> x \<in> set s" using Cons.prems by (auto simp: inj_on_def)
  ultimately show ?case by simp
qed simp

lemma normalizeTunAddrs_iff:
  "normalizeTunAddrs addrs cidr dns = (case fallbackOf cidr of Inl err \<Rightarrow> Inl err
     | Inr fb \<Rightarrow> (case parseAll addrs of Inl err \<Rightarrow> Inl err
         | Inr ps \<Rightarrow> let qs = dedup_by (\<lambda>q. q) (ordinary ps) in
             Inr (map prefixString (withFallback fb qs), chosenDNS (dnsOf dns) fb (withFallback fb qs))))"
proof (cases "fallbackOf cidr")
  case (Inr fb)
  show ?thesis
  proof (cases "parseAll addrs")
    case ps: (Inr ps)
    let ?qs = "dedup_by (\<lambda>q. q) (ordinary ps)"
    have v: "\<forall>p \<in> set (ordinary ps). prefixIsValid p \<and> addrZone (pfxAddr p) = ''''" using parseAll_valid [OF ps] by (simp add: ordinary_def)
    have inj: "inj_on prefixString (set (ordinary ps))" using v by (auto simp: inj_on_def prefixString_unique)
    have t: "dedup_by (\<lambda>t. t) (map prefixString (ordinary ps)) = map prefixString ?qs" using dedup_map [of prefixString "ordinary ps" "[]"] inj by simp
    have fresh: "prefixString fb \<notin> prefixString ` set (ordinary ps)" if "prefixIsValid fb" "pfxAddr fb \<notin> pfxAddr ` set (ordinary ps)"
    proof
      assume "prefixString fb \<in> prefixString ` set (ordinary ps)"
      then obtain q where "q \<in> set (ordinary ps)" "prefixString fb = prefixString q" by auto
      then have "fb = q" using prefixString_unique that(1) v fallbackOf_zone [OF Inr] by blast
      then show False using that(2) \<open>q \<in> set (ordinary ps)\<close> by simp
    qed
    show ?thesis
      using Inr ps t fresh addrsLoop_parseAll [of "dnsOf dns" fb "[]" "[]" False False addrs]
      unfolding normalizeTunAddrs_def fallbackOf_def dnsOf_def
      by (auto simp: withFallback_def chosenDNS_def Let_def)
  next
    case (Inl err)
    then show ?thesis using Inr addrsLoop_parseAll [of "dnsOf dns" fb "[]" "[]" False False addrs]
      by (simp add: normalizeTunAddrs_def fallbackOf_def dnsOf_def)
  qed
qed (simp add: normalizeTunAddrs_def fallbackOf_def)

lemma withFallback_stable:
  assumes "distinct qs" and "\<forall>q \<in> set qs. \<not> addrIsLoopback (pfxAddr q)"
  shows "withFallback fb (dedup_by (\<lambda>q. q) (ordinary (withFallback fb qs))) = withFallback fb qs"
proof -
  have o: "ordinary qs = qs" using assms(2) by (simp add: ordinary_def)
  show ?thesis
  proof (cases "prefixIsValid fb \<and> pfxAddr fb \<notin> pfxAddr ` set qs")
    case True
    then have "fb \<notin> set qs" by auto
    then show ?thesis using True assms o by (cases "addrIsLoopback (pfxAddr fb)") (simp_all add: withFallback_def ordinary_def dedup_fixed)
  next
    case False
    then have "withFallback fb qs = qs" by (auto simp: withFallback_def)
    then show ?thesis using assms o by (simp add: dedup_fixed)
  qed
qed

text \<open>
  C16: Normalised addresses of a TUN. The result has every address of the input that is not a loopback address, each once, and an
  address equal to the fallback address if there is one; the DNS address is an address of the TUN, it is the
  wanted one whenever the TUN has that, and there is one whenever there is a fallback address. Normalising the result again changes nothing, so that
  later updates, which start from the stored addresses, keep the DNS address.
\<close>

theorem tun_addrs_normal:
  assumes "normalizeTunAddrs addrs cidr dns = Inr (out, ip)"
  shows "distinct out \<and> normalizeTunAddrs out cidr dns = Inr (out, ip) \<and>
    (\<exists>ps qs fb. parseAll addrs = Inr ps \<and> parseAll out = Inr qs \<and> fallbackOf cidr = Inr fb \<and> set (ordinary ps) \<subseteq> set qs \<and>
      set qs \<subseteq> set (ordinary ps) \<union> {fb} \<and> (cidr \<noteq> '''' \<longrightarrow> pfxAddr fb \<in> pfxAddr ` set qs \<and> addrIsValid ip) \<and>
      (addrIsValid ip \<longrightarrow> ip \<in> pfxAddr ` set qs) \<and> (dnsOf dns \<in> pfxAddr ` set qs \<longrightarrow> ip = dnsOf dns))"
proof -
  obtain fb ps where f: "fallbackOf cidr = Inr fb" "parseAll addrs = Inr ps"
    using assms by (auto simp: normalizeTunAddrs_iff Let_def split: sum.splits)
  let ?qs = "dedup_by (\<lambda>q. q) (ordinary ps)"
  let ?w = "withFallback fb ?qs"
  have eq: "out = map prefixString ?w" "ip = chosenDNS (dnsOf dns) fb ?w" using assms f by (auto simp: normalizeTunAddrs_iff Let_def)
  have v: "\<forall>p \<in> set ?w. prefixIsValid p \<and> addrZone (pfxAddr p) = ''''"
    using parseAll_valid [OF f(2)] fallbackOf_zone [OF f(1)] by (auto simp: withFallback_def ordinary_def)
  then have p: "parseAll out = Inr ?w" unfolding eq by (rule parseAll_texts)
  have dw: "distinct ?w" by (auto simp: withFallback_def)
  then have "distinct out" using v by (auto simp: eq distinct_map inj_on_def prefixString_unique)
  moreover have "withFallback fb (dedup_by (\<lambda>q. q) (ordinary ?w)) = ?w" by (rule withFallback_stable) (auto simp: ordinary_def)
  then have "normalizeTunAddrs out cidr dns = Inr (out, ip)"
    unfolding normalizeTunAddrs_iff f(1) p by (simp only: sum.case Let_def eq)
  moreover have "set (ordinary ps) \<subseteq> set ?w" "set ?w \<subseteq> set (ordinary ps) \<union> {fb}" by (auto simp: withFallback_def)
  moreover have fb: "prefixIsValid fb \<Longrightarrow> pfxAddr fb \<in> pfxAddr ` set ?w" by (auto simp: withFallback_def)
  then have "cidr \<noteq> '''' \<longrightarrow> pfxAddr fb \<in> pfxAddr ` set ?w \<and> addrIsValid ip"
    using f(1) parsePrefix_valid(1) [of cidr fb] unfolding eq(2) chosenDNS_def fallbackOf_def by (auto simp: prefixIsValid_def [of fb] split: if_splits)
  moreover have "addrIsValid ip \<longrightarrow> ip \<in> pfxAddr ` set ?w" using fb unfolding eq(2) chosenDNS_def by simp
  moreover have "addrIsValid a" if "a \<in> pfxAddr ` set ?w" for a using v that by (auto simp: prefixIsValid_def)
  then have "dnsOf dns \<in> pfxAddr ` set ?w \<longrightarrow> ip = dnsOf dns" unfolding eq(2) chosenDNS_def by simp
  ultimately show ?thesis using f p by blast
qed

theorem tun_addrs_normal_witness:
  "normalizeTunAddrs [''10.8.0.2/24'', ''100.64.0.1/32''] ''100.64.0.1/32'' ''10.8.0.2'' = Inr ([''10.8.0.2/24'', ''100.64.0.1/32''], Addr4 0x0A080002)"
proof -
  have "normalizeTunAddrs [''10.8.0.2/24'', ''127.0.0.1/8'', ''10.8.0.2/24''] ''100.64.0.1/32'' ''10.8.0.2'' =
      Inr ([''10.8.0.2/24'', ''100.64.0.1/32''], Addr4 0x0A080002)" by code_simp
  from tun_addrs_normal [OF this] show ?thesis by simp
qed

section \<open>The routing configuration of a default TUN\<close>

text \<open>The configuration that \<open>NewSystem\<close> validates, and the one that \<open>BuildDefaultTun\<close> applies.\<close>

definition markConfig :: "u32 \<Rightarrow> u32 \<Rightarrow> u32 \<Rightarrow> u32 \<Rightarrow> Config" where
  "markConfig appMark appMask userMark userMask = DefaultConfig\<lparr>cfg_TUNIndex := 1, cfg_AppBypassMark := appMark, cfg_AppBypassMask := appMask,
     cfg_UserMark := userMark, cfg_UserMarkMask := userMask\<rparr>"

definition defaultTunConfig :: "u32 \<Rightarrow> u32 \<Rightarrow> u32 \<Rightarrow> u32 \<Rightarrow> int \<Rightarrow> string list \<Rightarrow> string list \<Rightarrow> SourceRoute list \<Rightarrow> bool \<Rightarrow> bool \<Rightarrow> Config" where
  "defaultTunConfig appMark appMask userMark userMask index addrs routes sourceRoutes includes strict =
     (let rc = DefaultConfig\<lparr>cfg_TUNIndex := index, cfg_AppBypassMark := appMark, cfg_AppBypassMask := appMask,
            cfg_UserMark := userMark, cfg_UserMarkMask := userMask, cfg_TunnelFamilies := routeFamilies addrs routes\<rparr>;
          rc = rc\<lparr>cfg_Families := cfg_TunnelFamilies rc, cfg_SourceRoutes := sourceRoutes\<rparr>;
          rc = (if includes then rc\<lparr>cfg_Mode := ModeInclude\<rparr> else rc\<lparr>cfg_Mode := ModeExclude\<rparr>) in
      if strict then rc\<lparr>cfg_Strictness := Strict, cfg_Families := BothFamilies\<rparr> else rc\<lparr>cfg_Strictness := NonStrict\<rparr>)"

definition addrFamilyOf :: "Addr \<Rightarrow> int" where
  "addrFamilyOf a = (if addrIs4 a then AF_INET else AF_INET6)"

lemma validateSourceRoutes_families:
  "validateSourceRoutes T i seen rs = None \<Longrightarrow> \<forall>r \<in> set rs. familyEnabled T' (addrFamilyOf (sr_Source r)) \<Longrightarrow> validateSourceRoutes T' i seen rs = None"
  by (induction T i seen rs rule: validateSourceRoutes.induct) (auto simp: Let_def addrFamilyOf_def split: if_splits option.splits)

lemma mask_not_mapped: "\<not> addrIs4In6 a \<Longrightarrow> 0 \<le> b \<Longrightarrow> b \<le> addrBitLen a \<Longrightarrow> \<not> addrIs4In6 (addrMask a b)"
proof (cases a)
  case (Addr6 w z)
  assume a: "\<not> addrIs4In6 a" "0 \<le> b" "b \<le> addrBitLen a"
  let ?n = "nat (128 - b)"
  show ?thesis
  proof
    assume "addrIs4In6 (addrMask a b)"
    then have m: "drop_bit 32 (push_bit ?n (drop_bit ?n w)) = 0xffff" using Addr6 by simp
    show False
    proof (cases "?n \<le> 32")
      case True
      have "drop_bit 32 (push_bit ?n (drop_bit ?n w)) = drop_bit 32 w"
        by (rule bit_eqI) (use True in \<open>auto simp: bit_simps dest: bit_imp_le_length\<close>)
      then show False using m a Addr6 by simp
    next
      case False
      have "bit (drop_bit 32 (push_bit ?n (drop_bit ?n w))) 0 = False" using False by (simp add: bit_simps)
      moreover have "bit (0xffff :: 128 word) 0" by simp
      ultimately show False using m by metis
    qed
  qed
qed simp_all

lemma addrMask_shape: "addrIsValid (addrMask a b) = addrIsValid a" "addrBitLen (addrMask a b) = addrBitLen a" "addrIs4 (addrMask a b) = addrIs4 a"
  by (cases a; simp)+

lemma addrWithoutZone_shape: "addrIsValid (addrWithoutZone a) = addrIsValid a" "addrBitLen (addrWithoutZone a) = addrBitLen a"
    "addrIs4 (addrWithoutZone a) = addrIs4 a" "addrIs4In6 (addrWithoutZone a) = addrIs4In6 a"
  by (cases a; simp)+

lemma masked_parts:
  assumes "prefixIsValid p"
  shows "prefixIsValid (prefixMasked p)" and "addrIs4 (pfxAddr (prefixMasked p)) = addrIs4 (pfxAddr p)"
    and "\<not> addrIs4In6 (pfxAddr p) \<Longrightarrow> \<not> addrIs4In6 (pfxAddr (prefixMasked p))"
proof -
  note v = assms [unfolded prefixIsValid_def]
  have m: "prefixMasked p = Prefix (addrWithoutZone (addrMask (pfxAddr p) (pfxBits p))) (pfxBits p)"
    using v by (simp add: prefixMasked_def prefixFrom_def Let_def addrMask_shape)
  show "prefixIsValid (prefixMasked p)" "addrIs4 (pfxAddr (prefixMasked p)) = addrIs4 (pfxAddr p)"
    using v by (simp_all add: m prefixIsValid_def addrMask_shape addrWithoutZone_shape)
  show "\<not> addrIs4In6 (pfxAddr (prefixMasked p))" if "\<not> addrIs4In6 (pfxAddr p)"
    using mask_not_mapped [of "pfxAddr p" "pfxBits p"] v that by (simp add: m addrWithoutZone_shape)
qed

lemma validTunSourceRouteAddr_preferred: "validTunSourceRouteAddr a = validPreferredSource a"
  by (simp add: validTunSourceRouteAddr_def validPreferredSource_def)

lemma sourceRoutesLoop_ok:
  assumes "sourceRoutesLoop assigned i seen routes = Inr rs"
    and "\<And>a. a \<in> assigned \<Longrightarrow> familyEnabled T (addrFamilyOf a)"
  shows "(\<forall>r \<in> set rs. source_route_ok T r \<and> sr_Source r \<in> assigned) \<and> distinct (map sr_Destination rs) \<and>
    sr_Destination ` set rs \<inter> fst ` set seen = {}"
  using assms(1)
proof (induction routes arbitrary: i seen rs)
  case (Cons r routes)
  let ?d = "prefixMasked (sr_Destination r)"
  have ok: "prefixIsValid (sr_Destination r)" "\<not> addrIs4In6 (pfxAddr (sr_Destination r))" "validPreferredSource (sr_Source r)"
    "addrIs4 (pfxAddr (sr_Destination r)) = addrIs4 (sr_Source r)" "sr_Source r \<in> assigned"
    using Cons.prems by (simp_all add: Let_def validTunSourceRouteAddr_preferred split: if_splits)
  then have s: "source_route_ok T \<lparr>sr_Destination = ?d, sr_Source = sr_Source r\<rparr>"
    using assms(2) [OF ok(5)] masked_parts [OF ok(1)] by (simp add: source_route_ok_def prefixMasked_idem addrFamilyOf_def)
  show ?case
  proof (cases "map_of seen ?d")
    case None
    then obtain rs' where rs': "sourceRoutesLoop assigned (i + 1) ((?d, sr_Source r) # seen) routes = Inr rs'"
      "rs = \<lparr>sr_Destination = ?d, sr_Source = sr_Source r\<rparr> # rs'"
      using Cons.prems ok by (auto simp: Let_def validTunSourceRouteAddr_preferred split: sum.splits)
    show ?thesis using Cons.IH [OF rs'(1)] s ok(5) None unfolding rs'(2) by (auto simp: map_of_eq_None_iff)
  next
    case (Some s')
    then have "sourceRoutesLoop assigned (i + 1) seen routes = Inr rs"
      using Cons.prems ok by (auto simp: Let_def validTunSourceRouteAddr_preferred split: if_splits)
    then show ?thesis by (rule Cons.IH)
  qed
qed simp

lemma familyFlags_step: "familyEnabled f k \<Longrightarrow> familyEnabled (familyFlags v f) k"
  by (cases "parsePrefix v") (auto simp: familyFlags_def familyEnabled_def)

lemma familyFlags_mono: "familyEnabled f k \<Longrightarrow> familyEnabled (foldl (\<lambda>f value. familyFlags value f) f vs) k"
  by (induction vs arbitrary: f) (simp_all add: familyFlags_step)

lemma familyFlags_hit: "parsePrefix v = Inr p \<Longrightarrow> familyEnabled (familyFlags v f) (addrFamilyOf (pfxAddr p))"
  using parsePrefix_valid(1) [of v p] by (cases "pfxAddr p") (auto simp: familyFlags_def familyEnabled_def addrFamilyOf_def prefixIsValid_def)

lemma familyFlags_all: "v \<in> set vs \<Longrightarrow> parsePrefix v = Inr p \<Longrightarrow>
    familyEnabled (foldl (\<lambda>f value. familyFlags value f) f vs) (addrFamilyOf (pfxAddr p))"
  by (induction vs arbitrary: f) (auto intro: familyFlags_mono familyFlags_hit)

lemma routeFamilies_covers:
  assumes "v \<in> set (addrs @ routes)" and "parsePrefix v = Inr p"
  shows "familyEnabled (routeFamilies addrs routes) (addrFamilyOf (pfxAddr p))"
  using familyFlags_all [OF assms] by (auto simp: routeFamilies_def Let_def familyEnabled_def)

lemma routeFamilies_some: "fam_IPv4 (routeFamilies addrs routes) \<or> fam_IPv6 (routeFamilies addrs routes)"
  by (simp add: routeFamilies_def Let_def BothFamilies_def)

lemma assignedAddrs_parse: "assignedAddrs ss = Inr as \<Longrightarrow> a \<in> as \<Longrightarrow> \<exists>v \<in> set ss. \<exists>p. parsePrefix v = Inr p \<and> a = pfxAddr p"
  by (induction ss arbitrary: as) (auto split: sum.splits)

lemma assignedAddrs_families: "assignedAddrs addrs = Inr as \<Longrightarrow> a \<in> as \<Longrightarrow> familyEnabled (routeFamilies addrs routes) (addrFamilyOf a)"
  using assignedAddrs_parse [of addrs as a] by (auto intro!: routeFamilies_covers)

lemma normalizeTunSourceRoutes_ok:
  assumes "normalizeTunSourceRoutes addrs srs = Inr rs"
  shows "(\<forall>r \<in> set rs. source_route_ok (routeFamilies addrs routes) r) \<and> distinct (map sr_Destination rs)"
proof (cases "srs = []")
  case False
  then obtain as where as: "assignedAddrs addrs = Inr as" "sourceRoutesLoop as 0 [] srs = Inr rs"
    using assms by (auto simp: normalizeTunSourceRoutes_def split: sum.splits)
  show ?thesis using sourceRoutesLoop_ok [OF as(2), of "routeFamilies addrs routes"] assignedAddrs_families [OF as(1)] by blast
qed (use assms in \<open>simp add: normalizeTunSourceRoutes_def\<close>)



text \<open>What the stored configuration of a default TUN with these addresses and routes satisfies.\<close>

definition config_for :: "string list \<Rightarrow> string list \<Rightarrow> Config \<Rightarrow> bool" where
  "config_for addrs routes rc \<longleftrightarrow> ValidateConfig rc = None \<and> cfg_TunnelFamilies rc = routeFamilies addrs routes \<and>
     validateDefaultTunSourceAddrs addrs (cfg_SourceRoutes rc) = None"

lemma sourceAddrs_ok: "validateDefaultTunSourceAddrs addrs rs = None \<longleftrightarrow>
    (\<exists>as. assignedAddrs addrs = Inr as \<and> sr_Source ` set rs \<subseteq> as)"
  by (auto simp: validateDefaultTunSourceAddrs_def find_None_iff image_subset_iff split: sum.splits option.splits simp: find_Some_iff)

lemma source_route_ok_family: "source_route_ok T r \<Longrightarrow> familyEnabled T' (addrFamilyOf (sr_Source r)) \<Longrightarrow> source_route_ok T' r"
  by (simp add: source_route_ok_def addrFamilyOf_def)

lemma families_covered: "valid_config (setDefaultTunRoutingFamilies rc addrs routes)"
  if "valid_config rc" "assignedAddrs addrs = Inr as" "sr_Source ` set (cfg_SourceRoutes rc) \<subseteq> as"
proof -
  have "source_route_ok (routeFamilies addrs routes) r" if "r \<in> set (cfg_SourceRoutes rc)" for r
    using assignedAddrs_families [OF \<open>assignedAddrs addrs = Inr as\<close>, of "sr_Source r"] that \<open>valid_config rc\<close> \<open>sr_Source ` set _ \<subseteq> as\<close>
    unfolding valid_config_def by (blast intro: source_route_ok_family)
  then show ?thesis using \<open>valid_config rc\<close> routeFamilies_some [of addrs routes]
    by (auto simp: valid_config_def effectiveTunnelFamilies_def setDefaultTunRoutingFamilies_def Let_def BothFamilies_def)
qed

lemma setFamilies_for:
  assumes "ValidateConfig rc = None" and "validateDefaultTunSourceAddrs addrs (cfg_SourceRoutes rc) = None"
  shows "config_for addrs routes (setDefaultTunRoutingFamilies rc addrs routes)"
proof -
  have "cfg_SourceRoutes (setDefaultTunRoutingFamilies rc addrs routes) = cfg_SourceRoutes rc"
    "cfg_TunnelFamilies (setDefaultTunRoutingFamilies rc addrs routes) = routeFamilies addrs routes"
    by (simp_all add: setDefaultTunRoutingFamilies_def Let_def)
  then show ?thesis using assms families_covered [of rc addrs] unfolding config_for_def ValidateConfig_def validate_None_iff
    by (auto simp: sourceAddrs_ok)
qed

lemma normalizeTunSourceRoutes_assigned:
  "normalizeTunSourceRoutes addrs srs = Inr rs \<Longrightarrow> assignedAddrs addrs = Inr as \<Longrightarrow> sr_Source ` set rs \<subseteq> as"
  using sourceRoutesLoop_ok [of as 0 "[]" srs rs "BothFamilies"]
  by (auto simp: normalizeTunSourceRoutes_def BothFamilies_def familyEnabled_def addrFamilyOf_def split: if_splits)

lemma defaultTunConfig_for:
  assumes "ValidateConfig (markConfig am amask um umask) = None" and "0 < index"
    and "assignedAddrs addrs = Inr as" and "normalizeTunSourceRoutes addrs srs = Inr rs"
  shows "config_for addrs routes (defaultTunConfig am amask um umask index addrs routes rs includes strict)"
proof -
  let ?rc = "defaultTunConfig am amask um umask index addrs routes rs includes strict"
  note ok = normalizeTunSourceRoutes_ok [OF assms(4), of routes]
  have f: "cfg_TunnelFamilies ?rc = routeFamilies addrs routes" "cfg_SourceRoutes ?rc = rs" by (simp_all add: defaultTunConfig_def Let_def)
  have "valid_config ?rc" using assms(1,2) ok routeFamilies_some [of addrs routes]
    unfolding ValidateConfig_def validate_None_iff
    by (simp add: valid_config_def effectiveTunnelFamilies_def defaultTunConfig_def markConfig_def DefaultConfig_def BothFamilies_def Let_def) blast
  then show ?thesis using f normalizeTunSourceRoutes_assigned [OF assms(4,3)] assms(3)
    by (simp add: config_for_def ValidateConfig_def validate_None_iff sourceAddrs_ok)
qed

end
