(* ===== verification/Sys_State.thy ===== *)
theory Sys_State
  imports Sys_Options Rules Killswitch Connmark Tun_Prefix Routing_Manager
begin

text \<open>
  The state of the facade in \<open>sysnet.go\<close> and \<open>default_tun.go\<close>, and its view of the outside. Every call of an injected component or of
  the operating system is an event of a log, with what came back; a host answers each call from
  the log so far, in any way it likes. A native TUN and a DNS server are named by the place in the log where they were made, so that two
  of them are never the same object. Mutexes are left out: an operation runs from start to end.
\<close>

section \<open>The outside\<close>

type_synonym tunObj = nat
type_synonym serverObj = nat

text \<open>The policies that \<open>p-mark\<close> is given; a mark is the argument of its \<open>fwmark.ToMark\<close>.\<close>

datatype kernelPolicyMode = KernelPolicyAuthoritative | KernelPolicyPositiveOnly | KernelPolicyUserspaceOnly

record ExactCommRule =
  ec_Comm :: string
  ec_Priority :: int
  ec_Mark :: u32

record KernelPolicy =
  kp_CommRules :: "ExactCommRule list"
  kp_Mode :: kernelPolicyMode

datatype hostCall =
    CallInterfaceByName string
  | CallCreateTUN string int | CallTunClose tunObj | CallTunMTU tunObj | CallTunName tunObj | CallTunMetadata tunObj | CallTunIndex tunObj
  | CallSetTunMTU tunObj int | CallSetTunName tunObj string
  | CallSetTunAddrs tunObj "string list" | CallAddTunAddr tunObj string | CallGetTunAddrs tunObj
  | CallSetTunRoutes tunObj "string list" | CallAddTunRoute tunObj string | CallGetTunRoutes tunObj
  | CallPacketListen string | CallNewServer | CallAttach serverObj nat | CallDetach serverObj | CallServerClose serverObj
  | CallRegisterRule sysRule | CallUnregisterRule u64
  | CallSetChecker bool | CallSetKernelPolicy KernelPolicy | CallForceProcessTraversal
  | CallSetInterfaceIndex int | CallSetDNS Addr | CallUnsetDNS | CallDNSClose
  | CallApply Config | CallRollback Config | CallRoutingClose
  | CallConnmarkApply ConnmarkConfig | CallConnmarkRollback | CallConnmarkClose
  | CallCreateTMPRuleset AllowRules | CallUpdateTMPRuleset u64 AllowRules | CallDeleteTMPRuleset u64 | CallKillswitchClose
  | CallOutNetClose | CallLocalNetClose | CallExtraClose nat

text \<open>What a call gives: an error or none, a number, a text and a list of texts.\<close>

record answer =
  an_err :: "goError option"
  an_num :: int
  an_text :: string
  an_texts :: "string list"

type_synonym event = "hostCall \<times> answer"
type_synonym host = "event list \<Rightarrow> hostCall \<Rightarrow> answer"

section \<open>The system\<close>

record FeatureConfig =
  ft_Tun :: bool
  ft_DefaultTun :: bool
  ft_DynTun :: bool
  ft_DynDefaultTun :: bool
  ft_TunNames :: bool
  ft_DefaultTunNames :: bool
  ft_StrictMode :: bool
  ft_TunRules :: bool
  ft_MatcherRules :: bool
  ft_DNSControl :: bool
  ft_Routing :: bool
  ft_Pmark :: bool
  ft_Killswitch :: bool

text \<open>
  The fields of \<open>System\<close> that do not change once it is built. For an injected component only whether it is there matters; two of them have
  an extended interface or do not.
\<close>

record sysConfig =
  sc_features :: FeatureConfig
  sc_defaultTunCIDR :: string
  sc_baseName :: string
  sc_dnsProvider :: bool
  sc_dnsIndexer :: bool
  sc_outDNS :: bool
  sc_routingManager :: bool
  sc_connmark :: bool
  sc_pmark :: bool
  sc_kernelPolicy :: bool
  sc_killswitch :: bool
  sc_tunFactory :: bool
  sc_tunConfig :: bool
  sc_ruleTracker :: bool
  sc_ownerLookup :: bool
  sc_packetListen :: bool
  sc_appBypassMark :: u32
  sc_appBypassMask :: u32
  sc_userMark :: u32
  sc_userMarkMask :: u32
  sc_pmarkPriority :: int
  sc_connmarkRequired :: bool
  sc_killswitchAllowExclude :: bool
  sc_extraClosers :: "bool list"
  sc_rules :: ruleEnv
  sc_exactComm :: "string \<Rightarrow> goError + string \<times> bool"

text \<open>The public object of a default TUN is named by the native TUN it was made with; resolvers are named by numbers.\<close>

record defaultTunState =
  dt_public :: nat
  dt_tun :: "tunObj option"
  dt_server :: "serverObj option"
  dt_resolver :: "nat option"
  dt_dnsIP :: Addr
  dt_generation :: u64
  dt_sourceGeneration :: u64
  dt_addrs :: "string list"
  dt_routes :: "string list"
  dt_routingConfig :: "Config option"
  dt_ruleIDs :: "u64 list"
  dt_killswitchID :: u64
  dt_pmarkChecker :: bool
  dt_dnsIfidxSet :: bool
  dt_connmarkSet :: bool

text \<open>The map of regular TUNs goes from the public object, named by its native TUN, to that native TUN.\<close>

record sysState =
  sy_closed :: bool
  sy_defaultTun :: "defaultTunState option"
  sy_tuns :: "tunObj list"
  sy_sourceGeneration :: u64
  sy_log :: "event list"

definition call :: "host \<Rightarrow> hostCall \<Rightarrow> sysState \<Rightarrow> answer \<times> sysState" where
  "call H c s = (let a = H (sy_log s) c in (a, s\<lparr>sy_log := sy_log s @ [(c, a)]\<rparr>))"

definition attempt :: "host \<Rightarrow> hostCall \<Rightarrow> sysState \<Rightarrow> goError option \<times> sysState" where
  "attempt H c s = (case call H c s of (a, s) \<Rightarrow> (an_err a, s))"

definition interfaceExists :: "host \<Rightarrow> string \<Rightarrow> sysState \<Rightarrow> bool \<times> sysState" where
  "interfaceExists H name s = (case attempt H (CallInterfaceByName name) s of (err, s) \<Rightarrow> (err = None, s))"

definition defaultTunBaseName_of :: "sysConfig \<Rightarrow> string" where
  "defaultTunBaseName_of C = (if sc_baseName C \<noteq> '''' then sc_baseName C else ''gonnect'')"

definition tunRulesSupportedLocked :: "sysConfig \<Rightarrow> bool" where
  "tunRulesSupportedLocked C \<longleftrightarrow> ft_TunRules (sc_features C) \<and> ft_Pmark (sc_features C) \<and> sc_pmark C \<and> sc_ruleTracker C"

end
