(* ===== verification/Sys_Capabilities.thy ===== *)
theory Sys_Capabilities
  imports Sys_State
begin

text \<open>
  Capabilities and the checks of options, \<open>capabilities.go\<close>. The vocabulary of reports is that of the package \<open>gonnect/sysnet\<close>: its constants are
  constructors; the order of its capability states, the lookups in a report and the error of a validation report are parameters.
\<close>

section \<open>Vocabulary\<close>

datatype CapabilityState = CapabilityUnknown | CapabilityUnsupported | CapabilityUnavailable | CapabilityAvailable

datatype CapabilityReason = ReasonNotImplemented | ReasonDisabledByConfig | ReasonMissingDependency | ReasonSystemClosed | ReasonOther string

record Capability =
  cap_State :: CapabilityState
  cap_Reasons :: "CapabilityReason list"
  cap_Limitations :: "string list"
  cap_Detail :: string

datatype Target = TargetSystem | TargetTun | TargetDefaultTun | TargetOutNet | TargetLocalNet | TargetOutDNS

datatype Operation = OpAllocateIP | OpAllocateSubnet | OpCreate | OpCreateNamed | OpSetMTU | OpRename | OpSetAddresses | OpAddAddress
  | OpGetAddresses | OpSetRoutes | OpAddRoute | OpGetRoutes | OpReconfigureInPlace | OpSourceRoutes | OpDNSProvider | OpDNSConfigure
  | OpDNSPort53Exclusive | OpDNSSystemExclusive | OpDialTCP | OpDialUDP | OpPacketDialUDP | OpListenTCP | OpListenUDP | OpListenPacketUDP
  | OpMulticastUDP | OpResolve | OpInterfaces | OpQueryUDP | OpQueryTCP

datatype RoutingMode = RoutingFull | RoutingExclude | RoutingInclude
datatype Transport = TransportTCP | TransportUDP
datatype MatchQuality = MatchQualityBestEffortTuple | MatchQualityBestEffortLocalEndpoint
datatype OwnerField = OwnerPID | OwnerProcessName | OwnerExecutablePath | OwnerUID | OwnerGID | OwnerUserSID

type_synonym OperationKey = "Target \<times> Operation \<times> AddressFamily"
type_synonym RoutingProfileKey = "AddressFamily \<times> RoutingMode \<times> bool"
type_synonym MatcherProfileKey = "AddressFamily \<times> Transport"

record DefaultTunProfile =
  pr_Key :: RoutingProfileKey
  pr_Capability :: Capability
  pr_Rules :: "(string \<times> Capability) list"

record MatcherProfile =
  mp_Key :: MatcherProfileKey
  mp_Capability :: Capability
  mp_Quality :: MatchQuality

record RuleCapability =
  rc_Type :: string
  rc_Description :: string
  rc_ValueKind :: RuleValueKind
  rc_SemanticsID :: string
  rc_Validation :: Capability
  rc_Completion :: Capability
  rc_Matchers :: "MatcherProfile list"

record OwnerCapability =
  oc_Key :: MatcherProfileKey
  oc_Capability :: Capability
  oc_Quality :: MatchQuality
  oc_Fields :: "(OwnerField \<times> Capability) list"

record CapabilityReport =
  rp_Revision :: u64
  rp_Operations :: "(OperationKey \<times> Capability) list"
  rp_DefaultTunProfiles :: "DefaultTunProfile list"
  rp_Rules :: "RuleCapability list"
  rp_Ownership :: "OwnerCapability list"

record ValidationIssue =
  vi_Path :: string
  vi_State :: CapabilityState
  vi_Reason :: "CapabilityReason option"
  vi_Detail :: string
  vi_Err :: "goError option"

record ValidationReport =
  vr_CapabilityRevision :: u64
  vr_Issues :: "ValidationIssue list"

record sysnetAPI =
  api_less :: "CapabilityState \<Rightarrow> CapabilityState \<Rightarrow> bool"
  api_Operation :: "CapabilityReport \<Rightarrow> OperationKey \<Rightarrow> Capability"
  api_DefaultTunProfile :: "CapabilityReport \<Rightarrow> RoutingProfileKey \<Rightarrow> DefaultTunProfile"
  api_Rule :: "CapabilityReport \<Rightarrow> string \<Rightarrow> RuleCapability"
  api_Err :: "ValidationReport \<Rightarrow> goError option"
  api_ErrInvalidOptions :: goError
  api_ErrUnknownTun :: goError
  api_ErrNotSupported :: goError

section \<open>Combining capabilities\<close>

definition capability :: "CapabilityState \<Rightarrow> CapabilityReason list \<Rightarrow> Capability" where
  "capability st rs = \<lparr>cap_State = st, cap_Reasons = rs, cap_Limitations = [], cap_Detail = ''''\<rparr>"

definition availableCapability :: Capability where
  "availableCapability = capability CapabilityAvailable []"

definition notImplementedCapability :: Capability where
  "notImplementedCapability = capability CapabilityUnsupported [ReasonNotImplemented]"

definition uniqueReasons :: "CapabilityReason list \<Rightarrow> CapabilityReason list" where
  "uniqueReasons values = dedup_by (\<lambda>v. v) (filter (\<lambda>v. v \<noteq> ReasonOther '''') values)"

definition uniqueLimitations :: "string list \<Rightarrow> string list" where
  "uniqueLimitations values = dedup_by (\<lambda>v. v) (filter (\<lambda>v. v \<noteq> '''') values)"

definition componentCapability :: "bool \<Rightarrow> bool \<Rightarrow> CapabilityReason list \<Rightarrow> Capability" where
  "componentCapability enabled dependenciesPresent failures =
     (if failures \<noteq> [] then capability CapabilityUnavailable (uniqueReasons failures)
      else if \<not> enabled then capability CapabilityUnavailable [ReasonDisabledByConfig]
      else if \<not> dependenciesPresent then capability CapabilityUnavailable [ReasonMissingDependency]
      else availableCapability)"

definition configuredCapability :: "bool \<Rightarrow> Capability" where
  "configuredCapability enabled = componentCapability enabled True []"

definition dependentConfiguredCapability :: "Capability \<Rightarrow> bool \<Rightarrow> Capability" where
  "dependentConfiguredCapability dependency enabled =
     (if cap_State dependency \<noteq> CapabilityAvailable then dependency else configuredCapability enabled)"

definition combineCapabilities :: "sysnetAPI \<Rightarrow> Capability list \<Rightarrow> Capability" where
  "combineCapabilities A caps =
     \<lparr>cap_State = foldl (\<lambda>st c. if api_less A (cap_State c) st then cap_State c else st) CapabilityAvailable caps,
      cap_Reasons = uniqueReasons (concat (map cap_Reasons caps)),
      cap_Limitations = uniqueLimitations (concat (map cap_Limitations caps)), cap_Detail = ''''\<rparr>"

definition dependentCapability :: "sysnetAPI \<Rightarrow> Capability \<Rightarrow> Capability \<Rightarrow> Capability" where
  "dependentCapability A base requirement =
     (if cap_State base \<noteq> CapabilityAvailable then base else combineCapabilities A [base, requirement])"

section \<open>The report\<close>

record capabilityFailures =
  cf_tun :: "CapabilityReason list"
  cf_routing :: "CapabilityReason list"
  cf_dns :: "CapabilityReason list"
  cf_pmark :: "CapabilityReason list"

definition tunCapability :: "sysConfig \<Rightarrow> capabilityFailures \<Rightarrow> Capability" where
  "tunCapability C F = componentCapability (ft_Tun (sc_features C)) (sc_tunFactory C \<and> sc_tunConfig C) (cf_tun F)"

definition routingCapability :: "sysConfig \<Rightarrow> capabilityFailures \<Rightarrow> Capability" where
  "routingCapability C F = componentCapability (ft_Routing (sc_features C)) (sc_routingManager C) (cf_routing F)"

definition dnsCapability :: "sysConfig \<Rightarrow> capabilityFailures \<Rightarrow> Capability" where
  "dnsCapability C F = componentCapability (ft_DNSControl (sc_features C)) (sc_dnsProvider C \<and> sc_packetListen C) (cf_dns F)"

definition defaultCapability :: "sysnetAPI \<Rightarrow> sysConfig \<Rightarrow> capabilityFailures \<Rightarrow> Capability" where
  "defaultCapability A C F = combineCapabilities A
     [componentCapability (ft_DefaultTun (sc_features C)) True (cf_tun F @ cf_routing F @ cf_dns F), tunCapability C F, routingCapability C F,
      dnsCapability C F]"

definition matcherCapability :: "sysConfig \<Rightarrow> Capability" where
  "matcherCapability C = componentCapability (ft_MatcherRules (sc_features C)) (sc_ruleTracker C \<and> sc_ownerLookup C) []"

definition tunRuleCapability :: "sysConfig \<Rightarrow> capabilityFailures \<Rightarrow> Capability" where
  "tunRuleCapability C F = componentCapability (ft_TunRules (sc_features C))
     (ft_Pmark (sc_features C) \<and> sc_pmark C \<and> sc_ruleTracker C) (cf_pmark F)"

definition listOperations :: "Target \<Rightarrow> AddressFamily \<Rightarrow> Capability \<Rightarrow> (OperationKey \<times> Capability) list" where
  "listOperations target family c = map (\<lambda>op. ((target, op, family), c))
     [OpSetAddresses, OpAddAddress, OpGetAddresses, OpSetRoutes, OpAddRoute, OpGetRoutes]"

definition tunOperations :: "sysnetAPI \<Rightarrow> sysConfig \<Rightarrow> capabilityFailures \<Rightarrow> (OperationKey \<times> Capability) list" where
  "tunOperations A C F =
     (let tunCap = tunCapability C F;
          tunDynamic = dependentConfiguredCapability tunCap (ft_DynTun (sc_features C));
          tunNames = dependentConfiguredCapability tunCap (ft_TunNames (sc_features C));
          tunRename = combineCapabilities A [tunDynamic, tunNames] in
      concat (map (\<lambda>family. [((TargetTun, OpCreate, family), tunCap), ((TargetTun, OpCreateNamed, family), tunNames)])
        [FamilyNone, FamilyIPv4, FamilyIPv6, FamilyDual]) @
      [((TargetTun, OpSetMTU, FamilyNone), tunDynamic), ((TargetTun, OpRename, FamilyNone), tunRename)] @
      concat (map (\<lambda>family. listOperations TargetTun family tunDynamic) [FamilyIPv4, FamilyIPv6, FamilyDual]))"

definition defaultOperations :: "sysnetAPI \<Rightarrow> sysConfig \<Rightarrow> capabilityFailures \<Rightarrow> (OperationKey \<times> Capability) list" where
  "defaultOperations A C F =
     (let defaultCap = defaultCapability A C F;
          defaultDynamic = dependentConfiguredCapability defaultCap (ft_DynDefaultTun (sc_features C)) in
      concat (map (\<lambda>family. [((TargetDefaultTun, OpCreate, family), defaultCap),
          ((TargetDefaultTun, OpCreateNamed, family), notImplementedCapability),
          ((TargetDefaultTun, OpReconfigureInPlace, family), defaultCap), ((TargetDefaultTun, OpSourceRoutes, family), defaultCap)] @
          listOperations TargetDefaultTun family defaultDynamic) [FamilyIPv4, FamilyIPv6, FamilyDual]) @
      [((TargetDefaultTun, OpSetMTU, FamilyNone), defaultDynamic), ((TargetDefaultTun, OpRename, FamilyNone), notImplementedCapability)] @
      concat (map (\<lambda>family. [((TargetDefaultTun, OpDNSProvider, family), defaultCap), ((TargetDefaultTun, OpDNSConfigure, family), defaultCap),
          ((TargetDefaultTun, OpDNSPort53Exclusive, family), notImplementedCapability),
          ((TargetDefaultTun, OpDNSSystemExclusive, family), notImplementedCapability)]) [FamilyIPv4, FamilyIPv6]))"

definition networkOperations :: "sysConfig \<Rightarrow> capabilityFailures \<Rightarrow> (OperationKey \<times> Capability) list" where
  "networkOperations C F =
     concat (map (\<lambda>target. concat (map (\<lambda>family. map (\<lambda>op. ((target, op, family), availableCapability))
         [OpDialTCP, OpDialUDP, OpPacketDialUDP, OpListenTCP, OpListenUDP, OpListenPacketUDP, OpMulticastUDP]) [FamilyIPv4, FamilyIPv6]) @
       [((target, OpResolve, FamilyNone), availableCapability), ((target, OpInterfaces, FamilyNone), availableCapability)])
       [TargetOutNet, TargetLocalNet]) @
     (let outDNSCap = componentCapability (sc_dnsProvider C) (sc_outDNS C) (cf_dns F) in
      concat (map (\<lambda>family. [((TargetOutDNS, OpQueryUDP, family), outDNSCap), ((TargetOutDNS, OpQueryTCP, family), outDNSCap)])
        [FamilyIPv4, FamilyIPv6]))"

definition matcherKeys :: "MatcherProfileKey list" where
  "matcherKeys = [(FamilyIPv4, TransportTCP), (FamilyIPv4, TransportUDP), (FamilyIPv6, TransportTCP), (FamilyIPv6, TransportUDP)]"

definition matchQuality :: "MatcherProfileKey \<Rightarrow> MatchQuality" where
  "matchQuality key = (if snd key = TransportUDP then MatchQualityBestEffortLocalEndpoint else MatchQualityBestEffortTuple)"

definition ruleCapabilityOf :: "sysConfig \<Rightarrow> ruleDefinition \<Rightarrow> RuleCapability" where
  "ruleCapabilityOf C d = \<lparr>rc_Type = rd_Type d, rc_Description = rd_Description d, rc_ValueKind = rd_ValueKind d, rc_SemanticsID = rd_SemanticsID d,
     rc_Validation = availableCapability, rc_Completion = (if rd_Completion d then availableCapability else notImplementedCapability),
     rc_Matchers = map (\<lambda>key. \<lparr>mp_Key = key, mp_Capability = matcherCapability C, mp_Quality = matchQuality key\<rparr>) matcherKeys\<rparr>"

definition profileCapability :: "sysnetAPI \<Rightarrow> sysConfig \<Rightarrow> capabilityFailures \<Rightarrow> RoutingMode \<Rightarrow> bool \<Rightarrow> Capability" where
  "profileCapability A C F mode strict =
     (let strictCapability = dependentConfiguredCapability (routingCapability C F) (ft_StrictMode (sc_features C));
          c = defaultCapability A C F;
          c = (if strict then dependentCapability A c strictCapability else c) in
      if mode \<noteq> RoutingFull then dependentCapability A c (tunRuleCapability C F) else c)"

definition profileOf :: "sysnetAPI \<Rightarrow> sysConfig \<Rightarrow> capabilityFailures \<Rightarrow> RoutingProfileKey \<Rightarrow> DefaultTunProfile" where
  "profileOf A C F key = (case key of (family, mode, strict) \<Rightarrow>
     let c = profileCapability A C F mode strict in
     \<lparr>pr_Key = key, pr_Capability = c, pr_Rules = (if mode \<noteq> RoutingFull then map (\<lambda>d. (rd_Type d, c)) supportedRules else [])\<rparr>)"

definition profileKeys :: "RoutingProfileKey list" where
  "profileKeys = concat (map (\<lambda>family. concat (map (\<lambda>mode. map (\<lambda>strict. (family, mode, strict)) [False, True])
     [RoutingFull, RoutingExclude, RoutingInclude])) [FamilyIPv4, FamilyIPv6, FamilyDual])"

definition ownerCapabilityOf :: "sysConfig \<Rightarrow> MatcherProfileKey \<Rightarrow> OwnerCapability" where
  "ownerCapabilityOf C key = (let m = matcherCapability C in
     \<lparr>oc_Key = key, oc_Capability = m, oc_Quality = matchQuality key,
      oc_Fields = [(OwnerPID, m), (OwnerProcessName, m), (OwnerExecutablePath, m), (OwnerUID, m), (OwnerGID, m),
        (OwnerUserSID, notImplementedCapability)]\<rparr>)"

text \<open>The revision is the one that \<open>NewSystem\<close> stores; the version of the schema, a constant of the package, is left out.\<close>

definition openCapabilityReportLocked :: "sysnetAPI \<Rightarrow> sysConfig \<Rightarrow> capabilityFailures \<Rightarrow> CapabilityReport" where
  "openCapabilityReportLocked A C F =
     \<lparr>rp_Revision = 1,
      rp_Operations = concat (map (\<lambda>family. [((TargetSystem, OpAllocateIP, family), availableCapability),
          ((TargetSystem, OpAllocateSubnet, family), availableCapability)]) [FamilyIPv4, FamilyIPv6]) @
        tunOperations A C F @ defaultOperations A C F @ networkOperations C F,
      rp_DefaultTunProfiles = map (profileOf A C F) profileKeys,
      rp_Rules = map (ruleCapabilityOf C) supportedRules,
      rp_Ownership = map (ownerCapabilityOf C) matcherKeys\<rparr>"

definition closeCapability :: "Capability \<Rightarrow> Capability" where
  "closeCapability c = (if cap_State c \<noteq> CapabilityAvailable then c else capability CapabilityUnavailable [ReasonSystemClosed])"

definition markCapabilityReportClosed :: "CapabilityReport \<Rightarrow> CapabilityReport" where
  "markCapabilityReportClosed r = r\<lparr>
     rp_Operations := map (\<lambda>(k, c). (k, closeCapability c)) (rp_Operations r),
     rp_DefaultTunProfiles := map (\<lambda>p. p\<lparr>pr_Capability := closeCapability (pr_Capability p),
       pr_Rules := map (\<lambda>(t, c). (t, closeCapability c)) (pr_Rules p)\<rparr>) (rp_DefaultTunProfiles r),
     rp_Rules := map (\<lambda>p. p\<lparr>rc_Validation := closeCapability (rc_Validation p), rc_Completion := closeCapability (rc_Completion p),
       rc_Matchers := map (\<lambda>m. m\<lparr>mp_Capability := closeCapability (mp_Capability m)\<rparr>) (rc_Matchers p)\<rparr>) (rp_Rules r),
     rp_Ownership := map (\<lambda>p. p\<lparr>oc_Capability := closeCapability (oc_Capability p),
       oc_Fields := map (\<lambda>(t, c). (t, closeCapability c)) (oc_Fields p)\<rparr>) (rp_Ownership r)\<rparr>"

definition capabilitiesLocked :: "sysnetAPI \<Rightarrow> sysConfig \<Rightarrow> capabilityFailures \<Rightarrow> sysState \<Rightarrow> CapabilityReport" where
  "capabilitiesLocked A C F s =
     (let report = openCapabilityReportLocked A C F in
      if sy_closed s then let report = markCapabilityReportClosed report in report\<lparr>rp_Revision := rp_Revision report + 1\<rparr> else report)"

section \<open>Issues\<close>

definition issueForCapability :: "string \<Rightarrow> Capability \<Rightarrow> ValidationIssue option" where
  "issueForCapability path c =
     (if cap_State c = CapabilityAvailable then None
      else Some \<lparr>vi_Path = path, vi_State = cap_State c, vi_Reason = (case cap_Reasons c of [] \<Rightarrow> None | r # _ \<Rightarrow> Some r),
        vi_Detail = cap_Detail c, vi_Err = None\<rparr>)"

definition capabilityIssues :: "string \<Rightarrow> Capability \<Rightarrow> ValidationIssue list" where
  "capabilityIssues path c = (case issueForCapability path c of None \<Rightarrow> [] | Some issue \<Rightarrow> [issue])"

definition appendCapabilityIssue :: "ValidationReport \<Rightarrow> string \<Rightarrow> Capability \<Rightarrow> ValidationReport" where
  "appendCapabilityIssue r path c = r\<lparr>vr_Issues := vr_Issues r @ capabilityIssues path c\<rparr>"

definition invalidIssue :: "sysnetAPI \<Rightarrow> string \<Rightarrow> string \<Rightarrow> goError option \<Rightarrow> ValidationIssue" where
  "invalidIssue A path detail cause =
     \<lparr>vi_Path = path, vi_State = CapabilityUnknown, vi_Reason = None, vi_Detail = detail,
      vi_Err = (case cause of None \<Rightarrow> Some (api_ErrInvalidOptions A)
        | Some e \<Rightarrow> if \<not> errors_is e (api_ErrInvalidOptions A) then errors_join [Some (api_ErrInvalidOptions A), Some e] else Some e)\<rparr>"

definition addIssues :: "ValidationReport \<Rightarrow> ValidationIssue list \<Rightarrow> ValidationReport" where
  "addIssues r issues = r\<lparr>vr_Issues := vr_Issues r @ issues\<rparr>"

definition capabilityError :: "sysnetAPI \<Rightarrow> Capability \<Rightarrow> goError option" where
  "capabilityError A c = (if cap_State c = CapabilityAvailable then None
     else api_Err A (appendCapabilityIssue \<lparr>vr_CapabilityRevision = 0, vr_Issues = []\<rparr> '''' c))"

definition indexedPath :: "string \<Rightarrow> int \<Rightarrow> string" where
  "indexedPath path i = path @ ''['' @ itoa i @ '']''"

fun prefixIssuesFrom :: "sysnetAPI \<Rightarrow> string \<Rightarrow> int \<Rightarrow> string list \<Rightarrow> ValidationIssue list" where
  "prefixIssuesFrom A path i [] = []"
| "prefixIssuesFrom A path i (v # vs) = (case parsePrefix v of
     Inl err \<Rightarrow> [invalidIssue A (indexedPath path i) ''invalid IP prefix'' (Some err)] | Inr _ \<Rightarrow> []) @ prefixIssuesFrom A path (i + 1) vs"

definition prefixListIssues :: "sysnetAPI \<Rightarrow> string \<Rightarrow> string list \<Rightarrow> ValidationIssue list" where
  "prefixListIssues A path values = prefixIssuesFrom A path 0 values"

section \<open>Rules in a context\<close>

record RuleContext =
  ctx_Routing :: "RoutingProfileKey option"
  ctx_Matcher :: "MatcherProfileKey option"

definition unknownCapability :: Capability where
  "unknownCapability = capability CapabilityUnknown []"

definition findRuleDefinition :: "string \<Rightarrow> ruleDefinition option" where
  "findRuleDefinition ruleType = List.find (\<lambda>d. rd_Type d = ruleType) supportedRules"

definition bindingOf :: "string \<Rightarrow> DefaultTunProfile \<Rightarrow> Capability" where
  "bindingOf ruleType p = (case List.find (\<lambda>(t, c). t = ruleType) (pr_Rules p) of Some (t, c) \<Rightarrow> c | None \<Rightarrow> unknownCapability)"

definition matcherOf :: "MatcherProfileKey \<Rightarrow> RuleCapability \<Rightarrow> Capability" where
  "matcherOf key r = (case List.find (\<lambda>m. mp_Key m = key) (rc_Matchers r) of Some m \<Rightarrow> mp_Capability m | None \<Rightarrow> unknownCapability)"

definition checkRuleAgainstReport :: "sysnetAPI \<Rightarrow> ruleEnv \<Rightarrow> CapabilityReport \<Rightarrow> sysRule \<Rightarrow> RuleContext \<Rightarrow> ValidationReport" where
  "checkRuleAgainstReport A E report rule ctx =
     (let result = \<lparr>vr_CapabilityRevision = rp_Revision report, vr_Issues = []\<rparr> in
      if (ctx_Routing ctx = None) = (ctx_Matcher ctx = None) then
        addIssues result [invalidIssue A ''Context'' ''exactly one rule context must be set'' None]
      else case findRuleDefinition (sr_Type rule) of
        None \<Rightarrow> appendCapabilityIssue result ''Type'' (capability CapabilityUnsupported [ReasonNotImplemented])
      | Some d \<Rightarrow>
          let ruleCap = api_Rule A report (rd_Type d);
              result = appendCapabilityIssue result ''Type'' (rc_Validation ruleCap);
              result = (case ctx_Routing ctx of
                  Some key \<Rightarrow> let profile = api_DefaultTunProfile A report key in
                    appendCapabilityIssue (appendCapabilityIssue result ''Context'' (pr_Capability profile)) ''Type'' (bindingOf (sr_Type rule) profile)
                | None \<Rightarrow> (case ctx_Matcher ctx of
                    Some key \<Rightarrow> appendCapabilityIssue result ''Context'' (matcherOf key ruleCap) | None \<Rightarrow> result)) in
          (case compileRule E rule of
             Inl err \<Rightarrow> addIssues result [invalidIssue A ''Rule'' ''invalid rule value'' (Some err)] | Inr _ \<Rightarrow> result))"

definition CheckRule :: "sysnetAPI \<Rightarrow> sysConfig \<Rightarrow> capabilityFailures \<Rightarrow> sysState \<Rightarrow> sysRule \<Rightarrow> RuleContext \<Rightarrow> ValidationReport" where
  "CheckRule A C F s rule ctx = checkRuleAgainstReport A (sc_rules C) (capabilitiesLocked A C F s) rule ctx"

definition completionContextIssue :: "sysnetAPI \<Rightarrow> CapabilityReport \<Rightarrow> string \<Rightarrow> RuleContext \<Rightarrow> ValidationIssue option" where
  "completionContextIssue A report ruleType ctx =
     (if (ctx_Routing ctx = None) = (ctx_Matcher ctx = None) then
        Some (invalidIssue A ''Context'' ''exactly one rule context must be set'' None)
      else case findRuleDefinition ruleType of
        None \<Rightarrow> issueForCapability ''Type'' notImplementedCapability
      | Some d \<Rightarrow>
          let rule = api_Rule A report (rd_Type d) in
          (case issueForCapability ''Type'' (rc_Completion rule) of
             Some issue \<Rightarrow> Some issue
           | None \<Rightarrow> (case ctx_Routing ctx of
               Some key \<Rightarrow> let profile = api_DefaultTunProfile A report key in
                 (case issueForCapability ''Context'' (pr_Capability profile) of
                    Some issue \<Rightarrow> Some issue | None \<Rightarrow> issueForCapability ''Type'' (bindingOf ruleType profile))
             | None \<Rightarrow> (case ctx_Matcher ctx of
                 Some key \<Rightarrow> issueForCapability ''Context'' (matcherOf key rule) | None \<Rightarrow> None))))"

text \<open>No panic occurs in the model, so there is nothing to recover from; the log line of an error is left out.\<close>

definition CompleteRule :: "sysnetAPI \<Rightarrow> sysConfig \<Rightarrow> capabilityFailures \<Rightarrow> sysState \<Rightarrow> 'k dirOS \<Rightarrow> sysRule \<Rightarrow> RuleContext \<Rightarrow> 'k \<Rightarrow>
    (string list \<times> goError option) \<times> 'k" where
  "CompleteRule A C F s D rule ctx k =
     (let report = capabilitiesLocked A C F s in
      case completionContextIssue A report (sr_Type rule) ctx of
        Some issue \<Rightarrow> (([], api_Err A \<lparr>vr_CapabilityRevision = rp_Revision report, vr_Issues = [issue]\<rparr>), k)
      | None \<Rightarrow> (case completeRuleValue (sc_rules C) D rule k of
          (Inl err, k) \<Rightarrow> (([], Some err), k) | (Inr vs, k) \<Rightarrow> ((vs, None), k)))"

section \<open>Options\<close>

record TunOpts =
  to_Name :: string
  to_TunAddrs :: "string list"
  to_TunRoutes :: "string list"
  to_MTU :: int

record DefaultTunOpts = TunOpts +
  do_DnsIP :: string
  do_SourceRoutes :: "SourceRoute list"
  do_Include :: "sysRule list"
  do_Exclude :: "sysRule list"
  do_Strict :: bool

definition nameIssues :: "sysnetAPI \<Rightarrow> bool \<Rightarrow> bool \<Rightarrow> ValidationIssue list" where
  "nameIssues A valid free = (if \<not> valid \<or> \<not> free then [invalidIssue A ''Name'' ''TUN name is invalid or already in use'' None] else [])"

definition CheckTunOpts :: "host \<Rightarrow> sysnetAPI \<Rightarrow> sysConfig \<Rightarrow> capabilityFailures \<Rightarrow> TunOpts \<Rightarrow> sysState \<Rightarrow> ValidationReport \<times> sysState" where
  "CheckTunOpts H A C F opts s =
     (let report = capabilitiesLocked A C F s;
          result = \<lparr>vr_CapabilityRevision = rp_Revision report, vr_Issues = []\<rparr>;
          result = addIssues result (prefixListIssues A ''TunAddrs'' (to_TunAddrs opts));
          result = addIssues result (prefixListIssues A ''TunRoutes'' (to_TunRoutes opts));
          family = optionFamily (to_TunAddrs opts) (to_TunRoutes opts);
          operation = (if to_Name opts \<noteq> '''' then OpCreateNamed else OpCreate);
          result = appendCapabilityIssue result '''' (api_Operation A report (TargetTun, operation, family)) in
      if to_Name opts \<noteq> '''' then
        (case TunNameVerify (interfaceExists H) (to_Name opts) s of ((valid, free), s) \<Rightarrow> (addIssues result (nameIssues A valid free), s))
      else (result, s))"

definition activeDefaultTunName :: "host \<Rightarrow> sysState \<Rightarrow> string \<times> sysState" where
  "activeDefaultTunName H s =
     (case sy_defaultTun s of
        None \<Rightarrow> ('''', s)
      | Some st \<Rightarrow>
          if sy_closed s then ('''', s)
          else case dt_tun st of None \<Rightarrow> ('''', s) | Some t \<Rightarrow> (case call H (CallTunName t) s of (a, s) \<Rightarrow> (an_text a, s)))"

text \<open>The issues of one rule, with their paths below the list and its index.\<close>

fun ruleIssuesFrom :: "sysnetAPI \<Rightarrow> ruleEnv \<Rightarrow> CapabilityReport \<Rightarrow> RoutingProfileKey \<Rightarrow> string \<Rightarrow> int \<Rightarrow> sysRule list \<Rightarrow> ValidationIssue list" where
  "ruleIssuesFrom A E report key rulePath i [] = []"
| "ruleIssuesFrom A E report key rulePath i (rule # rules) =
     map (\<lambda>issue. issue\<lparr>vi_Path := (if vi_Path issue = '''' then indexedPath rulePath i else indexedPath rulePath i @ ''.'' @ vi_Path issue)\<rparr>)
       (vr_Issues (checkRuleAgainstReport A E report rule \<lparr>ctx_Routing = Some key, ctx_Matcher = None\<rparr>)) @
     ruleIssuesFrom A E report key rulePath (i + 1) rules"

definition errIssues :: "sysnetAPI \<Rightarrow> string \<Rightarrow> string \<Rightarrow> goError + 'a \<Rightarrow> ValidationIssue list" where
  "errIssues A path detail r = (case r of Inl err \<Rightarrow> [invalidIssue A path detail (Some err)] | Inr _ \<Rightarrow> [])"

text \<open>The addresses and the DNS address, and the routes, normalised unless their texts have issues.\<close>

definition checkedAddrs :: "sysnetAPI \<Rightarrow> sysConfig \<Rightarrow> DefaultTunOpts \<Rightarrow> goError + string list \<times> Addr" where
  "checkedAddrs A C opts =
     (if prefixListIssues A ''TunAddrs'' (to_TunAddrs opts) = [] then normalizeTunAddrs (to_TunAddrs opts) (sc_defaultTunCIDR C) (do_DnsIP opts)
      else Inr (to_TunAddrs opts, NoAddr))"

definition checkedRoutes :: "sysnetAPI \<Rightarrow> DefaultTunOpts \<Rightarrow> goError + string list" where
  "checkedRoutes A opts =
     (if prefixListIssues A ''TunRoutes'' (to_TunRoutes opts) = [] then normalizeTunRoutes (to_TunRoutes opts) else Inr (to_TunRoutes opts))"

definition modeOf :: "DefaultTunOpts \<Rightarrow> RoutingMode" where
  "modeOf opts = (if do_Exclude opts \<noteq> [] then RoutingExclude else if do_Include opts \<noteq> [] then RoutingInclude else RoutingFull)"

definition rulesOf :: "DefaultTunOpts \<Rightarrow> sysRule list" where
  "rulesOf opts = (if do_Exclude opts \<noteq> [] then do_Exclude opts else if do_Include opts \<noteq> [] then do_Include opts else do_Exclude opts)"

definition familyOrDual :: "string list \<Rightarrow> string list \<Rightarrow> AddressFamily" where
  "familyOrDual addrs routes = (let f = optionFamily addrs routes in if f = FamilyNone then FamilyDual else f)"

text \<open>The issues in the order of the source, up to those of the name.\<close>

definition defaultOptsIssues :: "sysnetAPI \<Rightarrow> sysConfig \<Rightarrow> CapabilityReport \<Rightarrow> DefaultTunOpts \<Rightarrow> ValidationIssue list" where
  "defaultOptsIssues A C report opts =
     (let na = checkedAddrs A C opts; nr = checkedRoutes A opts;
          addrs = (case na of Inl _ \<Rightarrow> [] | Inr r \<Rightarrow> fst r);
          dnsIP = (case na of Inl _ \<Rightarrow> NoAddr | Inr r \<Rightarrow> snd r);
          routes = (case nr of Inl _ \<Rightarrow> [] | Inr r \<Rightarrow> r);
          family = familyOrDual addrs routes;
          operation = (if to_Name opts \<noteq> '''' then OpCreateNamed else OpCreate);
          rulePath = (if do_Exclude opts = [] \<and> do_Include opts \<noteq> [] then ''Include'' else ''Exclude'');
          key = (family, modeOf opts, do_Strict opts) in
      (if do_Exclude opts \<noteq> [] \<and> do_Include opts \<noteq> [] then [invalidIssue A ''Include'' ''Include and Exclude are mutually exclusive'' None] else []) @
      prefixListIssues A ''TunAddrs'' (to_TunAddrs opts) @ prefixListIssues A ''TunRoutes'' (to_TunRoutes opts) @
      errIssues A ''TunAddrs'' ''invalid TUN addresses'' na @ errIssues A ''TunRoutes'' ''invalid TUN routes'' nr @
      (if \<not> addrIsValid dnsIP then [invalidIssue A ''DnsIP'' ''default TUN DNS address is unavailable'' None] else []) @
      capabilityIssues '''' (api_Operation A report (TargetDefaultTun, operation, family)) @
      capabilityIssues '''' (pr_Capability (api_DefaultTunProfile A report key)) @
      ruleIssuesFrom A (sc_rules C) report key rulePath 0 (rulesOf opts) @
      (if do_SourceRoutes opts \<noteq> [] then
         capabilityIssues ''SourceRoutes'' (api_Operation A report (TargetDefaultTun, OpSourceRoutes, family)) @
         errIssues A ''SourceRoutes'' ''invalid source-route policy'' (normalizeTunSourceRoutes addrs (do_SourceRoutes opts))
       else []))"

definition CheckDefaultTunOpts :: "host \<Rightarrow> sysnetAPI \<Rightarrow> sysConfig \<Rightarrow> capabilityFailures \<Rightarrow> DefaultTunOpts \<Rightarrow> sysState \<Rightarrow>
    ValidationReport \<times> sysState" where
  "CheckDefaultTunOpts H A C F opts s =
     (let report = capabilitiesLocked A C F s;
          result = \<lparr>vr_CapabilityRevision = rp_Revision report, vr_Issues = defaultOptsIssues A C report opts\<rparr> in
      if to_Name opts \<noteq> '''' then
        (case TunNameVerify (interfaceExists H) (to_Name opts) s of ((valid, free), s) \<Rightarrow>
           (case (if valid \<and> \<not> free then activeDefaultTunName H s else ('''', s)) of (name, s) \<Rightarrow>
              (addIssues result (nameIssues A valid (free \<or> valid \<and> name = to_Name opts)), s)))
      else (result, s))"

section \<open>Capabilities of one TUN\<close>

text \<open>A public object is that of the default TUN or that of a regular one.\<close>

datatype publicTun = NilTun | DefaultTunObj nat | RegularTunObj nat

definition defaultTunCapabilityTargetLocked :: "sysnetAPI \<Rightarrow> sysState \<Rightarrow> nat \<Rightarrow> goError + Target \<times> u64" where
  "defaultTunCapabilityTargetLocked A s d =
     (case sy_defaultTun s of
        None \<Rightarrow> Inl (api_ErrUnknownTun A)
      | Some st \<Rightarrow> if dt_public st \<noteq> d \<or> dt_tun st = None then Inl (api_ErrUnknownTun A) else Inr (TargetDefaultTun, dt_generation st))"

definition tunCapabilityTargetLocked :: "sysnetAPI \<Rightarrow> sysState \<Rightarrow> publicTun \<Rightarrow> goError + Target \<times> u64" where
  "tunCapabilityTargetLocked A s t =
     (case t of
        DefaultTunObj d \<Rightarrow> defaultTunCapabilityTargetLocked A s d
      | RegularTunObj n \<Rightarrow> if n \<in> set (sy_tuns s) then Inr (TargetTun, 1) else Inl (api_ErrUnknownTun A)
      | NilTun \<Rightarrow> Inl (api_ErrUnknownTun A))"

definition CapabilitiesForTun :: "sysnetAPI \<Rightarrow> sysConfig \<Rightarrow> capabilityFailures \<Rightarrow> sysState \<Rightarrow> publicTun \<Rightarrow>
    goError + u64 \<times> u64 \<times> (OperationKey \<times> Capability) list" where
  "CapabilitiesForTun A C F s t =
     (if sy_closed s \<or> t = NilTun then Inl (api_ErrUnknownTun A)
      else case tunCapabilityTargetLocked A s t of
        Inl err \<Rightarrow> Inl err
      | Inr (target, instanceRevision) \<Rightarrow>
          let report = capabilitiesLocked A C F s in
          Inr (rp_Revision report, instanceRevision,
            filter (\<lambda>((tg, op, fam), c). tg = target \<and> op \<noteq> OpCreate \<and> op \<noteq> OpCreateNamed) (rp_Operations report)))"

section \<open>What a clean check means\<close>

text \<open>What the package documents: available is the largest state, a lookup finds the first entry with the key and is not
  available otherwise, and a validation report is an error exactly when it has an issue.\<close>

locale capability_lookups =
  fixes A :: sysnetAPI
  assumes less_available: "api_less A st CapabilityAvailable \<longleftrightarrow> st \<noteq> CapabilityAvailable"
    and available_top: "\<not> api_less A CapabilityAvailable st"
    and operation: "map_of (rp_Operations r) k = Some c \<Longrightarrow> api_Operation A r k = c"
    and no_operation: "map_of (rp_Operations r) k = None \<Longrightarrow> cap_State (api_Operation A r k) \<noteq> CapabilityAvailable"
    and profile: "List.find (\<lambda>p. pr_Key p = pk) (rp_DefaultTunProfiles r) = Some p \<Longrightarrow> api_DefaultTunProfile A r pk = p"
    and rule: "List.find (\<lambda>p. rc_Type p = t) (rp_Rules r) = Some rcap \<Longrightarrow> api_Rule A r t = rcap"
    and err: "api_Err A v = None \<longleftrightarrow> vr_Issues v = []"

lemma component_available [simp]:
  "cap_State (componentCapability enabled deps failures) = CapabilityAvailable \<longleftrightarrow> failures = [] \<and> enabled \<and> deps"
  by (simp add: componentCapability_def capability_def availableCapability_def)

lemma available_state [simp]: "cap_State availableCapability = CapabilityAvailable" "cap_State notImplementedCapability = CapabilityUnsupported"
    "cap_State unknownCapability = CapabilityUnknown"
  by (simp_all add: availableCapability_def notImplementedCapability_def unknownCapability_def capability_def)

lemma dependent_configured [simp]:
  "cap_State (dependentConfiguredCapability c enabled) = CapabilityAvailable \<longleftrightarrow> cap_State c = CapabilityAvailable \<and> enabled"
  by (simp add: dependentConfiguredCapability_def configuredCapability_def)

lemma close_unavailable [simp]: "cap_State (closeCapability c) \<noteq> CapabilityAvailable"
  by (simp add: closeCapability_def capability_def)

lemma capabilityIssues_none [simp]: "capabilityIssues path c = [] \<longleftrightarrow> cap_State c = CapabilityAvailable"
  by (simp add: capabilityIssues_def issueForCapability_def)

lemma issues_add [simp]: "vr_Issues (addIssues r is) = vr_Issues r @ is" "vr_Issues (appendCapabilityIssue r path c) = vr_Issues r @ capabilityIssues path c"
  by (simp_all add: addIssues_def appendCapabilityIssue_def)

lemma errIssues_none: "errIssues A path detail r = [] \<longleftrightarrow> (\<exists>x. r = Inr x)"
  by (cases r) (simp_all add: errIssues_def)

lemma prefixListIssues_none: "prefixListIssues A path vs = [] \<longleftrightarrow> (\<forall>v \<in> set vs. \<exists>p. parsePrefix v = Inr p)"
proof -
  have "prefixIssuesFrom A path i vs = [] \<longleftrightarrow> (\<forall>v \<in> set vs. \<exists>p. parsePrefix v = Inr p)" for i
    by (induction vs arbitrary: i) (auto split: sum.splits)
  then show ?thesis by (simp add: prefixListIssues_def)
qed

context capability_lookups
begin

lemma combine_available: "cap_State (combineCapabilities A caps) = CapabilityAvailable \<longleftrightarrow> (\<forall>c \<in> set caps. cap_State c = CapabilityAvailable)"
proof -
  let ?f = "\<lambda>st c. if api_less A (cap_State c) st then cap_State c else st"
  have "foldl ?f st caps = CapabilityAvailable \<longleftrightarrow> st = CapabilityAvailable \<and> (\<forall>c \<in> set caps. cap_State c = CapabilityAvailable)" for st
    by (induction caps arbitrary: st) (auto simp: less_available available_top split: if_splits)
  then show ?thesis by (simp add: combineCapabilities_def)
qed

lemma dependent_available: "cap_State (dependentCapability A base req) = CapabilityAvailable \<longleftrightarrow>
    cap_State base = CapabilityAvailable \<and> cap_State req = CapabilityAvailable"
  by (simp add: dependentCapability_def combine_available)

lemma locked_operation:
  assumes "map_of (rp_Operations (openCapabilityReportLocked A C F)) k = Some c"
  shows "cap_State (api_Operation A (capabilitiesLocked A C F s) k) = CapabilityAvailable \<longleftrightarrow> \<not> sy_closed s \<and> cap_State c = CapabilityAvailable"
proof (cases "sy_closed s")
  case True
  have "map_of (rp_Operations (capabilitiesLocked A C F s)) k = Some (closeCapability c)"
    using assms True by (simp add: capabilitiesLocked_def markCapabilityReportClosed_def Let_def map_of_map)
  then show ?thesis using True operation by simp
next
  case False
  then have "map_of (rp_Operations (capabilitiesLocked A C F s)) k = Some c" using assms by (simp add: capabilitiesLocked_def)
  then show ?thesis using False operation by simp
qed

lemma find_profile: "pk \<in> set profileKeys \<Longrightarrow>
    List.find (\<lambda>p. pr_Key p = pk) (rp_DefaultTunProfiles (openCapabilityReportLocked A C F)) = Some (profileOf A C F pk)"
proof -
  have k: "pr_Key (profileOf A C F key) = key" for key by (cases key) (simp add: profileOf_def Let_def)
  have "pk \<in> set ks \<Longrightarrow> List.find (\<lambda>p. pr_Key p = pk) (map (profileOf A C F) ks) = Some (profileOf A C F pk)" for ks
    by (induction ks) (auto simp: k)
  then show "pk \<in> set profileKeys \<Longrightarrow> ?thesis" by (simp add: openCapabilityReportLocked_def)
qed

end

definition closeProfile :: "DefaultTunProfile \<Rightarrow> DefaultTunProfile" where
  "closeProfile p = p\<lparr>pr_Capability := closeCapability (pr_Capability p), pr_Rules := map (\<lambda>(t, c). (t, closeCapability c)) (pr_Rules p)\<rparr>"

lemma find_map_key: "(\<And>x. K (f x) = K x) \<Longrightarrow> List.find (\<lambda>x. K x = k) (map f xs) = map_option f (List.find (\<lambda>x. K x = k) xs)"
  by (induction xs) auto

context capability_lookups
begin

lemma locked_profile:
  assumes "pk \<in> set profileKeys"
  shows "api_DefaultTunProfile A (capabilitiesLocked A C F s) pk = (if sy_closed s then closeProfile (profileOf A C F pk) else profileOf A C F pk)"
proof -
  have "rp_DefaultTunProfiles (capabilitiesLocked A C F s) = (if sy_closed s then map closeProfile else (\<lambda>ps. ps))
      (rp_DefaultTunProfiles (openCapabilityReportLocked A C F))"
    by (simp add: capabilitiesLocked_def markCapabilityReportClosed_def Let_def closeProfile_def)
  moreover have "pr_Key (closeProfile p) = pr_Key p" for p by (simp add: closeProfile_def)
  ultimately show ?thesis using find_profile [OF assms] by (intro profile) (simp add: find_map_key)
qed

lemma locked_rule:
  assumes "\<not> sy_closed s" and "d \<in> set supportedRules"
  shows "rc_Validation (api_Rule A (capabilitiesLocked A C F s) (rd_Type d)) = availableCapability"
proof -
  have t: "rc_Type (ruleCapabilityOf C e) = rd_Type e" for e by (simp add: ruleCapabilityOf_def)
  have "d \<in> set ds \<Longrightarrow> \<exists>e. List.find (\<lambda>p. rc_Type p = rd_Type d) (map (ruleCapabilityOf C) ds) = Some (ruleCapabilityOf C e)" for ds
    by (induction ds) (auto simp: t)
  then obtain e where "List.find (\<lambda>p. rc_Type p = rd_Type d) (rp_Rules (capabilitiesLocked A C F s)) = Some (ruleCapabilityOf C e)"
    using assms by (auto simp: capabilitiesLocked_def openCapabilityReportLocked_def)
  then show ?thesis using rule by (simp add: ruleCapabilityOf_def)
qed

end

text \<open>What the capability of a default TUN needs.\<close>

definition default_ready :: "sysConfig \<Rightarrow> capabilityFailures \<Rightarrow> bool" where
  "default_ready C F \<longleftrightarrow> cf_tun F = [] \<and> cf_routing F = [] \<and> cf_dns F = [] \<and>
     ft_DefaultTun (sc_features C) \<and> ft_Tun (sc_features C) \<and> ft_Routing (sc_features C) \<and> ft_DNSControl (sc_features C) \<and>
     sc_tunFactory C \<and> sc_tunConfig C \<and> sc_routingManager C \<and> sc_dnsProvider C \<and> sc_packetListen C"

lemma default_operations:
  assumes "family \<noteq> FamilyNone"
  shows "map_of (rp_Operations (openCapabilityReportLocked A C F)) (TargetDefaultTun, OpCreate, family) = Some (defaultCapability A C F)"
    and "map_of (rp_Operations (openCapabilityReportLocked A C F)) (TargetDefaultTun, OpSourceRoutes, family) = Some (defaultCapability A C F)"
    and "map_of (rp_Operations (openCapabilityReportLocked A C F)) (TargetDefaultTun, OpCreateNamed, family) = Some notImplementedCapability"
  using assms
  by (cases family; simp add: openCapabilityReportLocked_def tunOperations_def defaultOperations_def listOperations_def Let_def)+

lemma profile_keys: "family \<noteq> FamilyNone \<Longrightarrow> (family, mode, strict) \<in> set profileKeys"
  by (cases family; cases mode; cases strict) (simp_all add: profileKeys_def)

context capability_lookups
begin

lemma default_available: "cap_State (defaultCapability A C F) = CapabilityAvailable \<longleftrightarrow> default_ready C F"
  by (auto simp: defaultCapability_def combine_available tunCapability_def routingCapability_def dnsCapability_def default_ready_def)

lemma profile_available: "cap_State (profileCapability A C F mode strict) = CapabilityAvailable \<longleftrightarrow>
    default_ready C F \<and> (strict \<longrightarrow> ft_StrictMode (sc_features C)) \<and>
    (mode \<noteq> RoutingFull \<longrightarrow> cf_pmark F = [] \<and> tunRulesSupportedLocked C)"
  by (auto simp: profileCapability_def Let_def dependent_available default_available tunRuleCapability_def tunRulesSupportedLocked_def
      routingCapability_def default_ready_def)

end

lemma compile_known: "compileRule E rule = Inr c \<Longrightarrow> findRuleDefinition (sr_Type rule) \<noteq> None"
proof
  assume c: "compileRule E rule = Inr c" and "findRuleDefinition (sr_Type rule) = None"
  then have "sr_Type rule \<notin> rd_Type ` set supportedRules" by (auto simp: findRuleDefinition_def find_None_iff)
  from compileRule_unknown [OF this] c show False by simp
qed

lemma binding_profile:
  assumes "mode \<noteq> RoutingFull" and "findRuleDefinition t = Some d"
  shows "bindingOf t (profileOf A C F (family, mode, strict)) = profileCapability A C F mode strict"
proof -
  have f: "List.find (\<lambda>d. rd_Type d = t) ds = Some d \<Longrightarrow> List.find (\<lambda>(t', c). t' = t) (map (\<lambda>d. (rd_Type d, cap)) ds) = Some (t, cap)" for ds and cap :: Capability
    by (induction ds) (auto split: if_splits)
  show ?thesis using assms(1) f [OF assms(2) [unfolded findRuleDefinition_def]] by (simp add: bindingOf_def profileOf_def Let_def)
qed

context capability_lookups
begin

lemma profile_state: "family \<noteq> FamilyNone \<Longrightarrow>
    cap_State (pr_Capability (api_DefaultTunProfile A (capabilitiesLocked A C F s) (family, mode, strict))) = CapabilityAvailable \<longleftrightarrow>
    \<not> sy_closed s \<and> cap_State (profileCapability A C F mode strict) = CapabilityAvailable"
  by (simp add: locked_profile [OF profile_keys] closeProfile_def profileOf_def Let_def)

lemma rule_clean:
  assumes "\<not> sy_closed s" and "family \<noteq> FamilyNone" and "mode \<noteq> RoutingFull"
  shows "vr_Issues (checkRuleAgainstReport A E (capabilitiesLocked A C F s) rule \<lparr>ctx_Routing = Some (family, mode, strict), ctx_Matcher = None\<rparr>) = [] \<longleftrightarrow>
    cap_State (profileCapability A C F mode strict) = CapabilityAvailable \<and> (\<exists>c. compileRule E rule = Inr c)"
proof (cases "findRuleDefinition (sr_Type rule)")
  case None
  then have "\<nexists>c. compileRule E rule = Inr c" using compile_known [of E rule] by auto
  then show ?thesis using None by (simp add: checkRuleAgainstReport_def Let_def capability_def)
next
  case (Some d)
  then have d: "d \<in> set supportedRules" by (auto simp: findRuleDefinition_def find_Some_iff)
  note b = binding_profile [OF assms(3) Some, of A C F family strict]
  note p = locked_profile [OF profile_keys [OF assms(2)], of C F s mode strict]
  have "pr_Capability (profileOf A C F (family, mode, strict)) = profileCapability A C F mode strict" by (simp add: profileOf_def Let_def)
  then show ?thesis using Some assms(1) locked_rule [OF assms(1) d] b p
    by (cases "compileRule E rule") (auto simp: checkRuleAgainstReport_def Let_def)
qed

lemma rules_clean:
  assumes "\<not> sy_closed s" and "family \<noteq> FamilyNone" and "mode \<noteq> RoutingFull" and "cap_State (profileCapability A C F mode strict) = CapabilityAvailable"
  shows "ruleIssuesFrom A E (capabilitiesLocked A C F s) (family, mode, strict) path i rules = [] \<longleftrightarrow> (\<forall>r \<in> set rules. \<exists>c. compileRule E r = Inr c)"
  using rule_clean [OF assms(1-3), of E C F _ strict] assms(4) by (induction rules arbitrary: i) simp_all

end

text \<open>What the options of a default TUN need on a system.\<close>

definition opts_ok :: "sysConfig \<Rightarrow> capabilityFailures \<Rightarrow> DefaultTunOpts \<Rightarrow> bool" where
  "opts_ok C F opts \<longleftrightarrow> to_Name opts = '''' \<and> (do_Exclude opts = [] \<or> do_Include opts = []) \<and> default_ready C F \<and>
     (do_Strict opts \<longrightarrow> ft_StrictMode (sc_features C)) \<and>
     (rulesOf opts \<noteq> [] \<longrightarrow> cf_pmark F = [] \<and> tunRulesSupportedLocked C) \<and>
     (\<forall>r \<in> set (rulesOf opts). \<exists>c. compileRule (sc_rules C) r = Inr c) \<and>
     (\<exists>addrs dnsIP routes srs. normalizeTunAddrs (to_TunAddrs opts) (sc_defaultTunCIDR C) (do_DnsIP opts) = Inr (addrs, dnsIP) \<and> addrIsValid dnsIP \<and>
        normalizeTunRoutes (to_TunRoutes opts) = Inr routes \<and> normalizeTunSourceRoutes addrs (do_SourceRoutes opts) = Inr srs)"

lemma normalize_parses:
  "normalizeTunAddrs addrs cidr dns = Inr r \<Longrightarrow> \<forall>v \<in> set addrs. \<exists>p. parsePrefix v = Inr p"
  "normalizeTunRoutes routes = Inr rs \<Longrightarrow> \<forall>v \<in> set routes. \<exists>p. parsePrefix v = Inr p"
proof -
  have "parseAll ss = Inr ps \<Longrightarrow> \<forall>v \<in> set ss. \<exists>p. parsePrefix v = Inr p" for ss ps
    by (induction ss arbitrary: ps) (auto split: sum.splits)
  then show "normalizeTunAddrs addrs cidr dns = Inr r \<Longrightarrow> \<forall>v \<in> set addrs. \<exists>p. parsePrefix v = Inr p"
    by (auto simp: normalizeTunAddrs_iff split: sum.splits)
  have "routesLoop seen out routes = Inr rs \<Longrightarrow> \<forall>v \<in> set routes. \<exists>p. parsePrefix v = Inr p" for seen out
    by (induction routes arbitrary: seen out) (auto simp: Let_def split: sum.splits if_splits)
  then show "normalizeTunRoutes routes = Inr rs \<Longrightarrow> \<forall>v \<in> set routes. \<exists>p. parsePrefix v = Inr p" by (simp add: normalizeTunRoutes_def)
qed

lemma familyOrDual_some: "familyOrDual addrs routes \<noteq> FamilyNone"
  by (simp add: familyOrDual_def Let_def)

lemma source_routes_none [simp]: "normalizeTunSourceRoutes addrs [] = Inr []"
  by (simp add: normalizeTunSourceRoutes_def)

context capability_lookups
begin

lemma normalised_issues:
  assumes "normalizeTunAddrs (to_TunAddrs opts) (sc_defaultTunCIDR C) (do_DnsIP opts) = Inr (addrs, dnsIP)" and "normalizeTunRoutes (to_TunRoutes opts) = Inr routes"
  shows "checkedAddrs A C opts = Inr (addrs, dnsIP)" and "checkedRoutes A opts = Inr routes"
    and "prefixListIssues A path (to_TunAddrs opts) = []" and "prefixListIssues A path (to_TunRoutes opts) = []"
proof -
  show p: "prefixListIssues A path (to_TunAddrs opts) = []" "prefixListIssues A path (to_TunRoutes opts) = []" for path
    unfolding prefixListIssues_none by (rule normalize_parses(1) [OF assms(1)], rule normalize_parses(2) [OF assms(2)])
  show "checkedAddrs A C opts = Inr (addrs, dnsIP)" "checkedRoutes A opts = Inr routes" using assms p by (simp_all add: checkedAddrs_def checkedRoutes_def)
qed

lemma clean_normalises:
  assumes "defaultOptsIssues A C report opts = []"
  obtains addrs dnsIP routes where "normalizeTunAddrs (to_TunAddrs opts) (sc_defaultTunCIDR C) (do_DnsIP opts) = Inr (addrs, dnsIP)"
    "normalizeTunRoutes (to_TunRoutes opts) = Inr routes"
proof -
  have "prefixListIssues A ''TunAddrs'' (to_TunAddrs opts) = []" "prefixListIssues A ''TunRoutes'' (to_TunRoutes opts) = []"
    "errIssues A ''TunAddrs'' ''invalid TUN addresses'' (checkedAddrs A C opts) = []" "errIssues A ''TunRoutes'' ''invalid TUN routes'' (checkedRoutes A opts) = []"
    using assms unfolding defaultOptsIssues_def Let_def append_is_Nil_conv by blast+
  then show ?thesis using that by (auto simp: errIssues_none checkedAddrs_def checkedRoutes_def)
qed

lemma issues_exact:
  assumes "normalizeTunAddrs (to_TunAddrs opts) (sc_defaultTunCIDR C) (do_DnsIP opts) = Inr (addrs, dnsIP)" and "normalizeTunRoutes (to_TunRoutes opts) = Inr routes"
    and "to_Name opts = ''''"
  shows "defaultOptsIssues A C (capabilitiesLocked A C F s) opts = [] \<longleftrightarrow> \<not> sy_closed s \<and> opts_ok C F opts"
proof -
  let ?f = "familyOrDual addrs routes" and ?R = "capabilitiesLocked A C F s"
  note f = familyOrDual_some [of addrs routes]
  have op: "cap_State (api_Operation A ?R (TargetDefaultTun, OpCreate, ?f)) = CapabilityAvailable \<longleftrightarrow> \<not> sy_closed s \<and> default_ready C F"
    "cap_State (api_Operation A ?R (TargetDefaultTun, OpSourceRoutes, ?f)) = CapabilityAvailable \<longleftrightarrow> \<not> sy_closed s \<and> default_ready C F"
    using locked_operation [OF default_operations(1) [OF f], of C F s] locked_operation [OF default_operations(2) [OF f], of C F s]
    by (simp_all add: default_available)
  have m: "modeOf opts = RoutingFull \<longleftrightarrow> rulesOf opts = []" by (simp add: modeOf_def rulesOf_def)
  note st = profile_state [OF f, of C F s "modeOf opts" "do_Strict opts", unfolded profile_available m]
  have ru: "ruleIssuesFrom A (sc_rules C) ?R (?f, modeOf opts, do_Strict opts) path 0 (rulesOf opts) = [] \<longleftrightarrow>
      (\<forall>r \<in> set (rulesOf opts). \<exists>c. compileRule (sc_rules C) r = Inr c)"
    if "\<not> sy_closed s" "cap_State (profileCapability A C F (modeOf opts) (do_Strict opts)) = CapabilityAvailable" for path
    using rules_clean [OF that(1) f _ that(2)] m by (cases "rulesOf opts = []") simp_all
  have sr: "errIssues A p d (normalizeTunSourceRoutes addrs (do_SourceRoutes opts)) = [] \<longleftrightarrow>
      (\<exists>srs. normalizeTunSourceRoutes addrs (do_SourceRoutes opts) = Inr srs)" for p d by (rule errIssues_none)
  have ok: "opts_ok C F opts \<longleftrightarrow> (do_Exclude opts = [] \<or> do_Include opts = []) \<and> default_ready C F \<and> (do_Strict opts \<longrightarrow> ft_StrictMode (sc_features C)) \<and>
      (rulesOf opts \<noteq> [] \<longrightarrow> cf_pmark F = [] \<and> tunRulesSupportedLocked C) \<and> (\<forall>r \<in> set (rulesOf opts). \<exists>c. compileRule (sc_rules C) r = Inr c) \<and>
      addrIsValid dnsIP \<and> (\<exists>srs. normalizeTunSourceRoutes addrs (do_SourceRoutes opts) = Inr srs)"
    using assms by (simp add: opts_ok_def)
  note d = defaultOptsIssues_def [of A C ?R opts, unfolded Let_def normalised_issues(1,2) [OF assms(1,2)] normalised_issues(3,4) [OF assms(1,2)]]
  show ?thesis
  proof (cases "\<not> sy_closed s \<and> cap_State (profileCapability A C F (modeOf opts) (do_Strict opts)) = CapabilityAvailable")
    case True
    then have r: "default_ready C F" "do_Strict opts \<longrightarrow> ft_StrictMode (sc_features C)" "rulesOf opts \<noteq> [] \<longrightarrow> cf_pmark F = [] \<and> tunRulesSupportedLocked C"
      by (auto simp: profile_available m)
    show ?thesis unfolding d ok using True r op st ru assms(3)
      by (simp add: sr errIssues_def [of _ _ _ "Inr _"])
  next
    case False
    then show ?thesis unfolding d ok using st by (auto simp: profile_available m)
  qed
qed

end

lemma checked_issues:
  assumes "CheckDefaultTunOpts H A C F opts s = (r, s')" and "to_Name opts = ''''"
  shows "r = \<lparr>vr_CapabilityRevision = rp_Revision (capabilitiesLocked A C F s), vr_Issues = defaultOptsIssues A C (capabilitiesLocked A C F s) opts\<rparr>"
  using assms by (auto simp: CheckDefaultTunOpts_def Let_def)

lemma named_create:
  assumes "to_Name opts \<noteq> ''''" and "defaultOptsIssues A C R opts = []"
  shows "\<exists>family. family \<noteq> FamilyNone \<and> capabilityIssues '''' (api_Operation A R (TargetDefaultTun, OpCreateNamed, family)) = []"
  using assms(2) unfolding defaultOptsIssues_def Let_def append_is_Nil_conv if_P [OF assms(1)]
  by (elim conjE) (rule exI, rule conjI, rule familyOrDual_some, assumption)

lemma checked_issues_named:
  assumes "CheckDefaultTunOpts H A C F opts s = (r, s')" and "to_Name opts \<noteq> ''''" and "vr_Issues r = []"
  shows "defaultOptsIssues A C (capabilitiesLocked A C F s) opts = []"
proof -
  let ?res = "\<lparr>vr_CapabilityRevision = rp_Revision (capabilitiesLocked A C F s), vr_Issues = defaultOptsIssues A C (capabilitiesLocked A C F s) opts\<rparr>"
  obtain valid free s1 where v: "TunNameVerify (interfaceExists H) (to_Name opts) s = ((valid, free), s1)" by (metis surj_pair)
  obtain name s2 where n: "(if valid \<and> \<not> free then activeDefaultTunName H s1 else ('''', s1)) = (name, s2)" by fastforce
  have "r = addIssues ?res (nameIssues A valid (free \<or> valid \<and> name = to_Name opts))"
    using assms(1,2) v n by (simp add: CheckDefaultTunOpts_def Let_def)
  then show ?thesis using assms(3) by simp
qed

context capability_lookups
begin

lemma check_exact:
  assumes "CheckDefaultTunOpts H A C F opts s = (r, s')"
  shows "api_Err A r = None \<longleftrightarrow> \<not> sy_closed s \<and> opts_ok C F opts"
proof -
  let ?R = "capabilitiesLocked A C F s"
  have named: "defaultOptsIssues A C ?R opts \<noteq> []" if "to_Name opts \<noteq> ''''"
  proof
    assume "defaultOptsIssues A C ?R opts = []"
    from named_create [OF that this] show False using locked_operation [OF default_operations(3), of _ C F s] by auto
  qed
  show ?thesis
  proof (cases "to_Name opts = ''''")
    case True
    note r = checked_issues [OF assms True]
    show ?thesis
    proof (cases "defaultOptsIssues A C ?R opts = [] \<or> opts_ok C F opts")
      case False
      then show ?thesis by (simp add: err r)
    next
      case ok: True
      obtain addrs dnsIP routes where "normalizeTunAddrs (to_TunAddrs opts) (sc_defaultTunCIDR C) (do_DnsIP opts) = Inr (addrs, dnsIP)"
        "normalizeTunRoutes (to_TunRoutes opts) = Inr routes"
        using ok clean_normalises [of C ?R opts] unfolding opts_ok_def by blast
      from issues_exact [OF this True] show ?thesis by (simp add: err r)
    qed
  next
    case False
    then show ?thesis using checked_issues_named [OF assms False] named by (auto simp: err opts_ok_def)
  qed
qed

end

text \<open>The lookups by their documentation.\<close>

definition stateRank :: "CapabilityState \<Rightarrow> int" where
  "stateRank st = (case st of CapabilityUnknown \<Rightarrow> 0 | CapabilityUnsupported \<Rightarrow> 1 | CapabilityUnavailable \<Rightarrow> 2 | CapabilityAvailable \<Rightarrow> 3)"

definition plainAPI :: sysnetAPI where
  "plainAPI = \<lparr>api_less = (\<lambda>a b. stateRank a < stateRank b),
     api_Operation = (\<lambda>r k. case map_of (rp_Operations r) k of Some c \<Rightarrow> c | None \<Rightarrow> unknownCapability),
     api_DefaultTunProfile = (\<lambda>r k. case List.find (\<lambda>p. pr_Key p = k) (rp_DefaultTunProfiles r) of Some p \<Rightarrow> p
       | None \<Rightarrow> \<lparr>pr_Key = k, pr_Capability = unknownCapability, pr_Rules = []\<rparr>),
     api_Rule = (\<lambda>r t. case List.find (\<lambda>p. rc_Type p = t) (rp_Rules r) of Some p \<Rightarrow> p
       | None \<Rightarrow> \<lparr>rc_Type = t, rc_Description = '''', rc_ValueKind = RuleValueOpaque, rc_SemanticsID = '''', rc_Validation = unknownCapability,
           rc_Completion = unknownCapability, rc_Matchers = []\<rparr>),
     api_Err = (\<lambda>v. if vr_Issues v = [] then None else Some (ErrorsNew ''sysnet: invalid options'')),
     api_ErrInvalidOptions = ErrorsNew ''sysnet: invalid options'', api_ErrUnknownTun = ErrorsNew ''sysnet: unknown TUN'',
     api_ErrNotSupported = ErrorsNew ''sysnet: not supported''\<rparr>"

interpretation plain: capability_lookups plainAPI
  by unfold_locales (auto simp: plainAPI_def stateRank_def split: CapabilityState.splits)

text \<open>
  C15: Checking the options of a default TUN. The check reports no issue exactly when the system is open, no name is
  asked for, include and exclude rules do not occur together, every component that building uses is there and enabled (TUN factory and configurator, routing
  manager, DNS provider and socket, and for rules the process tracker and the mark controller), strict mode is enabled if it is asked for,
  every rule compiles, and addresses, routes and source routes are accepted by the functions that building uses.
\<close>

theorem default_tun_check_exact:
  assumes "capability_lookups A" and "CheckDefaultTunOpts H A C F opts s = (r, s')"
  shows "api_Err A r = None \<longleftrightarrow> \<not> sy_closed s \<and> opts_ok C F opts"
  using capability_lookups.check_exact [OF assms] .

definition quietHost :: host where
  "quietHost log c = \<lparr>an_err = None, an_num = 7, an_text = '''', an_texts = []\<rparr>"

definition facadeRules :: ruleEnv where
  "facadeRules = \<lparr>re_ErrNotSupported = ErrorsNew ''not supported'', re_Compile = (\<lambda>p. Inr (\<lambda>s. s = p)), re_Match = (\<lambda>p s. Inr (p = s)),
     re_LookupUser = (\<lambda>u. Inr ''1000''), re_LookupGroup = (\<lambda>u. Inr ''1000''), re_ReadFile = (\<lambda>p. Inr ''''), re_Readlink = (\<lambda>p. Inr '''')\<rparr>"

definition sampleSys :: sysConfig where
  "sampleSys = \<lparr>sc_features = \<lparr>ft_Tun = True, ft_DefaultTun = True, ft_DynTun = True, ft_DynDefaultTun = True, ft_TunNames = True,
       ft_DefaultTunNames = True, ft_StrictMode = True, ft_TunRules = True, ft_MatcherRules = True, ft_DNSControl = True, ft_Routing = True,
       ft_Pmark = True, ft_Killswitch = True\<rparr>,
     sc_defaultTunCIDR = ''10.9.0.1/24'', sc_baseName = '''', sc_dnsProvider = True, sc_dnsIndexer = True, sc_outDNS = True, sc_routingManager = True,
     sc_connmark = True, sc_pmark = True, sc_kernelPolicy = True, sc_killswitch = True, sc_tunFactory = True, sc_tunConfig = True,
     sc_ruleTracker = True, sc_ownerLookup = True, sc_packetListen = True, sc_appBypassMark = DefaultAppBypassMark, sc_appBypassMask = DefaultMarkMask,
     sc_userMark = 0x4d000001, sc_userMarkMask = DefaultMarkMask, sc_pmarkPriority = 10, sc_connmarkRequired = False,
     sc_killswitchAllowExclude = False, sc_extraClosers = [], sc_rules = facadeRules, sc_exactComm = (\<lambda>r. Inr (r, True))\<rparr>"

definition noFailures :: capabilityFailures where
  "noFailures = \<lparr>cf_tun = [], cf_routing = [], cf_dns = [], cf_pmark = []\<rparr>"

definition sampleOpts :: DefaultTunOpts where
  "sampleOpts = \<lparr>to_Name = '''', to_TunAddrs = [''10.8.0.2/24''], to_TunRoutes = [''0.0.0.0/0''], to_MTU = 1400, do_DnsIP = '''',
     do_SourceRoutes = [\<lparr>sr_Destination = Prefix (Addr4 0x0A000000) 8, sr_Source = Addr4 0x0A080002\<rparr>],
     do_Include = [], do_Exclude = [\<lparr>sr_Type = ''comm'', sr_Rule = ''curl''\<rparr>], do_Strict = True\<rparr>"

definition freshSystem :: sysState where
  "freshSystem = \<lparr>sy_closed = False, sy_defaultTun = None, sy_tuns = [], sy_sourceGeneration = 0, sy_log = []\<rparr>"

lemma sample_check: "api_Err plainAPI (fst (CheckDefaultTunOpts quietHost plainAPI sampleSys noFailures sampleOpts freshSystem)) = None"
  by code_simp

theorem default_tun_check_exact_witness: "opts_ok sampleSys noFailures sampleOpts"
  using default_tun_check_exact [OF plain.capability_lookups_axioms prod.collapse [symmetric], of quietHost sampleSys noFailures sampleOpts freshSystem] sample_check
  by simp

end
