(* ===== verification/Sys_Tun.thy ===== *)
theory Sys_Tun
  imports Sys_Capabilities
begin

text \<open>
  TUN devices of the facade: building, updating and closing the default TUN (\<open>default_tun.go\<close>), regular TUNs and
  \<open>System.Close\<close> (\<open>sysnet.go\<close>). Callbacks and log lines are left out. Getters of a native TUN that are only compared are one number.
\<close>

section \<open>Closing\<close>

text \<open>\<open>err = errors.Join(err, call)\<close>.\<close>

definition also_call :: "host \<Rightarrow> hostCall \<Rightarrow> goError option \<times> sysState \<Rightarrow> goError option \<times> sysState" where
  "also_call H c r = (case r of (err, s) \<Rightarrow> case attempt H c s of (e, s) \<Rightarrow> (errors_join [err, e], s))"

definition quiet_call :: "host \<Rightarrow> hostCall \<Rightarrow> sysState \<Rightarrow> sysState" where
  "quiet_call H c s = snd (call H c s)"

definition onlyIf :: "bool \<Rightarrow> ('a \<Rightarrow> 'a) \<Rightarrow> 'a \<Rightarrow> 'a" where
  "onlyIf b f x = (if b then f x else x)"

definition unregisterRule :: "host \<Rightarrow> sysConfig \<Rightarrow> u64 \<Rightarrow> sysState \<Rightarrow> sysState" where
  "unregisterRule H C rid s = (if sc_ruleTracker C then quiet_call H (CallUnregisterRule rid) s else s)"

definition unregisterRules :: "host \<Rightarrow> sysConfig \<Rightarrow> u64 list \<Rightarrow> sysState \<Rightarrow> sysState" where
  "unregisterRules H C ids s = foldl (\<lambda>s rid. unregisterRule H C rid s) s ids"

definition closeServer :: "host \<Rightarrow> serverObj option \<Rightarrow> goError option \<times> sysState \<Rightarrow> goError option \<times> sysState" where
  "closeServer H server r = (case server of None \<Rightarrow> r
     | Some sv \<Rightarrow> also_call H (CallServerClose sv) (fst r, quiet_call H (CallDetach sv) (snd r)))"

text \<open>The state that is closed is no longer that of the system, so that its fields need not be cleared.\<close>

definition closeActive :: "host \<Rightarrow> sysConfig \<Rightarrow> defaultTunState \<Rightarrow> sysState \<Rightarrow> goError option \<times> sysState" where
  "closeActive H C st s =
     (let s = unregisterRules H C (dt_ruleIDs st) s;
          r = closeServer H (dt_server st) (None, s);
          r = onlyIf (sc_dnsProvider C) (also_call H CallUnsetDNS) r;
          r = onlyIf (dt_dnsIfidxSet st \<and> sc_dnsIndexer C) (also_call H (CallSetInterfaceIndex 0)) r;
          r = (case dt_routingConfig st of Some rc \<Rightarrow> onlyIf (sc_routingManager C) (also_call H (CallRollback rc)) r | None \<Rightarrow> r);
          r = onlyIf (dt_connmarkSet st \<and> sc_connmark C) (also_call H CallConnmarkRollback) r;
          r = onlyIf (dt_killswitchID st \<noteq> 0 \<and> sc_killswitch C) (also_call H (CallDeleteTMPRuleset (dt_killswitchID st))) r;
          r = onlyIf (dt_pmarkChecker st \<and> sc_pmark C) (also_call H (CallSetChecker False)) r in
      case dt_tun st of Some t \<Rightarrow> also_call H (CallTunClose t) r | None \<Rightarrow> r)"

definition defaultTun_Close :: "host \<Rightarrow> sysConfig \<Rightarrow> nat \<Rightarrow> sysState \<Rightarrow> goError option \<times> sysState" where
  "defaultTun_Close H C d s =
     (case sy_defaultTun s of
        None \<Rightarrow> (None, s)
      | Some st \<Rightarrow> if dt_public st = d then closeActive H C st (s\<lparr>sy_defaultTun := None\<rparr>) else (None, s))"

definition regularTun_Close :: "host \<Rightarrow> tunObj \<Rightarrow> sysState \<Rightarrow> goError option \<times> sysState" where
  "regularTun_Close H t s =
     (if t \<notin> set (sy_tuns s) then (None, s) else attempt H (CallTunClose t) (s\<lparr>sy_tuns := remove1 t (sy_tuns s)\<rparr>))"

definition defaultTun_SetDNS :: "host \<Rightarrow> sysnetAPI \<Rightarrow> nat \<Rightarrow> nat option \<Rightarrow> sysState \<Rightarrow> goError option \<times> sysState" where
  "defaultTun_SetDNS H A d resolver s =
     (case sy_defaultTun s of
        None \<Rightarrow> (Some (api_ErrUnknownTun A), s)
      | Some st \<Rightarrow>
          if sy_closed s \<or> dt_public st \<noteq> d then (Some (api_ErrUnknownTun A), s)
          else case dt_server st of
            None \<Rightarrow> (Some (api_ErrUnknownTun A), s)
          | Some sv \<Rightarrow>
              let s = quiet_call H (case resolver of None \<Rightarrow> CallDetach sv | Some res \<Rightarrow> CallAttach sv res) s in
              (None, s\<lparr>sy_defaultTun := Some (st\<lparr>dt_resolver := resolver\<rparr>)\<rparr>))"

text \<open>The map of regular TUNs is closed in some order, here that of the list.\<close>

definition System_Close :: "host \<Rightarrow> sysConfig \<Rightarrow> sysState \<Rightarrow> goError option \<times> sysState" where
  "System_Close H C s =
     (if sy_closed s then (None, s)
      else let defaultTun = sy_defaultTun s; tuns = sy_tuns s;
               s = s\<lparr>sy_closed := True, sy_defaultTun := None, sy_tuns := []\<rparr>;
               r = also_call H CallLocalNetClose (also_call H CallOutNetClose (None, s));
               r = (case defaultTun of None \<Rightarrow> r | Some st \<Rightarrow> (case closeActive H C st (snd r) of (e, s) \<Rightarrow> (errors_join [fst r, e], s)));
               r = foldl (\<lambda>r t. also_call H (CallTunClose t) r) r tuns;
               r = onlyIf (sc_dnsProvider C) (also_call H CallDNSClose) r;
               r = onlyIf (sc_routingManager C) (also_call H CallRoutingClose) r;
               r = onlyIf (sc_connmark C) (also_call H CallConnmarkClose) r;
               r = onlyIf (sc_killswitch C) (also_call H CallKillswitchClose) r in
      foldl (\<lambda>r i. onlyIf (sc_extraClosers C ! i) (also_call H (CallExtraClose i)) r) r (rev [0..<length (sc_extraClosers C)]))"

section \<open>Regular TUNs\<close>

text \<open>Steps that run one after the other; the first error ends them.\<close>

fun steps :: "('s \<Rightarrow> goError option \<times> 's) list \<Rightarrow> 's \<Rightarrow> goError option \<times> 's" where
  "steps [] x = (None, x)"
| "steps (f # fs) x = (case f x of (Some e, x) \<Rightarrow> (Some e, x) | (None, x) \<Rightarrow> steps fs x)"

definition netErrClosed :: goError where
  "netErrClosed = ErrorsNew ''use of closed network connection''"

definition setupTun :: "host \<Rightarrow> tunObj \<Rightarrow> TunOpts \<Rightarrow> string list \<Rightarrow> string list \<Rightarrow> (sysState \<Rightarrow> goError option \<times> sysState) list" where
  "setupTun H t opts addrs routes =
     [attempt H (CallSetTunMTU t (to_MTU opts)), attempt H (CallSetTunAddrs t addrs), attempt H (CallSetTunRoutes t routes)] @
     (if to_Name opts \<noteq> '''' then [attempt H (CallSetTunName t (to_Name opts))] else [])"

definition BuildTun :: "host \<Rightarrow> sysnetAPI \<Rightarrow> sysConfig \<Rightarrow> capabilityFailures \<Rightarrow> TunOpts \<Rightarrow> sysState \<Rightarrow> (goError + tunObj) \<times> sysState" where
  "BuildTun H A C F opts s =
     (case CheckTunOpts H A C F opts s of (report, s) \<Rightarrow>
      case api_Err A report of Some err \<Rightarrow> (Inl err, s)
      | None \<Rightarrow>
          let t = length (sy_log s) in
          (case attempt H (CallCreateTUN (defaultTunBaseName_of C) (NormalizeMTU (to_MTU opts))) s of
             (Some err, s) \<Rightarrow> (Inl err, s)
           | (None, s) \<Rightarrow>
               let body = (case normalizeTunAddrs (to_TunAddrs opts) '''' '''' of
                   Inl err \<Rightarrow> (Some err, s)
                 | Inr (addrs, _) \<Rightarrow> (case normalizeTunRoutes (to_TunRoutes opts) of
                     Inl err \<Rightarrow> (Some err, s)
                   | Inr routes \<Rightarrow> steps (setupTun H t opts addrs routes) s)) in
               (case body of
                  (Some err, s) \<Rightarrow> (Inl err, quiet_call H (CallTunClose t) s)
                | (None, s) \<Rightarrow>
                    if sy_closed s then (Inl netErrClosed, quiet_call H (CallTunClose t) s)
                    else (Inr t, s\<lparr>sy_tuns := t # sy_tuns s\<rparr>))))"

section \<open>The process rules of a default TUN\<close>

record defaultTunPmarkConfig =
  pc_ruleIDs :: "u64 list"
  pc_check :: bool
  pc_kernelPolicy :: KernelPolicy

text \<open>The loop over the rules: the registered identifiers, the exact rules and whether one needs a fallback.\<close>

fun checkerLoop :: "host \<Rightarrow> sysConfig \<Rightarrow> u64 list \<Rightarrow> ExactCommRule list \<Rightarrow> bool \<Rightarrow> sysRule list \<Rightarrow> sysState \<Rightarrow>
    (goError + u64 list \<times> ExactCommRule list \<times> bool) \<times> sysState" where
  "checkerLoop H C ids exact fallback [] s = (Inr (ids, exact, fallback), s)"
| "checkerLoop H C ids exact fallback (rule # rules) s = (case compileRule (sc_rules C) rule of
     Inl err \<Rightarrow> (Inl err, s)
   | Inr _ \<Rightarrow>
       (case call H (CallRegisterRule rule) s of (a, s) \<Rightarrow>
          let ids = ids @ [of_int (an_num a)] in
          if sr_Type rule \<noteq> ''comm'' then checkerLoop H C ids exact True rules s
          else case sc_exactComm C (sr_Rule rule) of
            Inl err \<Rightarrow> (Inl err, s)
          | Inr (comm, exactly) \<Rightarrow>
              if \<not> exactly then checkerLoop H C ids exact True rules s
              else checkerLoop H C ids (exact @ [\<lparr>ec_Comm = comm, ec_Priority = sc_pmarkPriority C, ec_Mark = sc_userMark C\<rparr>]) fallback rules s))"

definition defaultTunChecker :: "host \<Rightarrow> sysConfig \<Rightarrow> DefaultTunOpts \<Rightarrow> sysState \<Rightarrow> (goError + defaultTunPmarkConfig) \<times> sysState" where
  "defaultTunChecker H C opts s =
     (let none = \<lparr>kp_CommRules = [], kp_Mode = KernelPolicyAuthoritative\<rparr> in
      if \<not> sc_ruleTracker C then (Inr \<lparr>pc_ruleIDs = [], pc_check = False, pc_kernelPolicy = none\<rparr>, s)
      else if sc_pmarkPriority C < -128 \<or> sc_pmarkPriority C > 127 then
        (Inl (Errorf ''pmark priority %d is outside int8 range'' [AInt (sc_pmarkPriority C)] []), s)
      else let rules = (if do_Include opts \<noteq> [] then do_Include opts else do_Exclude opts) in
        (case checkerLoop H C [] [] False rules s of
           (Inl err, s) \<Rightarrow> (Inl err, s)
         | (Inr (ids, exact, fallback), s) \<Rightarrow>
             (Inr \<lparr>pc_ruleIDs = ids, pc_check = True,
                pc_kernelPolicy = \<lparr>kp_CommRules = exact, kp_Mode = (if \<not> fallback then KernelPolicyAuthoritative
                  else if exact \<noteq> [] then KernelPolicyPositiveOnly else KernelPolicyUserspaceOnly)\<rparr>\<rparr>, s)))"

section \<open>Building the default TUN\<close>

text \<open>The local variables of \<open>BuildDefaultTun\<close> that its cleanup reads, with the system.\<close>

record buildState =
  b_sys :: sysState
  b_nativeTun :: tunObj
  b_oldNativeTun :: "tunObj option"
  b_tunRecreated :: bool
  b_oldServer :: "serverObj option"
  b_oldResolver :: "nat option"
  b_oldDNSIP :: Addr
  b_oldRuleIDs :: "u64 list"
  b_oldPmarkChecker :: bool
  b_server :: "serverObj option"
  b_serverReplaced :: bool
  b_pmarkCheckerInstalled :: bool
  b_connmarkSet :: bool
  b_ruleIDs :: "u64 list"
  b_appliedRC :: "Config option"
  b_pmark :: defaultTunPmarkConfig
  b_index :: int

definition updState :: "(defaultTunState \<Rightarrow> defaultTunState) \<Rightarrow> sysState \<Rightarrow> sysState" where
  "updState f s = s\<lparr>sy_defaultTun := map_option f (sy_defaultTun s)\<rparr>"

definition try_call :: "host \<Rightarrow> hostCall \<Rightarrow> buildState \<Rightarrow> goError option \<times> buildState" where
  "try_call H c b = (case attempt H c (b_sys b) of (err, s) \<Rightarrow> (err, b\<lparr>b_sys := s\<rparr>))"

text \<open>The cleanup \<open>fail\<close>.\<close>

definition buildFail :: "host \<Rightarrow> sysConfig \<Rightarrow> goError \<Rightarrow> buildState \<Rightarrow> goError option \<times> sysState" where
  "buildFail H C cause b =
     (let r = (Some cause, b_sys b);
          r = onlyIf (b_tunRecreated b) (also_call H (CallTunClose (b_nativeTun b))) r;
          r = (fst r, unregisterRules H C (b_ruleIDs b) (snd r));
          r = (if b_serverReplaced b then closeServer H (b_server b) r else r);
          r = onlyIf (\<not> b_oldPmarkChecker b \<and> b_pmarkCheckerInstalled b) (also_call H (CallSetChecker False)) r;
          r = (case b_appliedRC b of None \<Rightarrow> r | Some rc \<Rightarrow> (fst r, updState (\<lambda>st. st\<lparr>dt_routingConfig := Some rc\<rparr>) (snd r)));
          r = onlyIf (b_connmarkSet b \<and> sc_connmark C) (also_call H CallConnmarkRollback) r in
      case sy_defaultTun (snd r) of
        None \<Rightarrow> r
      | Some st \<Rightarrow> (case closeActive H C st ((snd r)\<lparr>sy_defaultTun := None\<rparr>) of (e, s) \<Rightarrow> (errors_join [fst r, e], s)))"

definition releaseServer :: "host \<Rightarrow> Addr \<Rightarrow> buildState \<Rightarrow> goError option \<times> buildState" where
  "releaseServer H dnsIP b =
     (case b_server b of
        None \<Rightarrow> (None, b)
      | Some sv \<Rightarrow>
          if b_tunRecreated b \<and> b_oldDNSIP b = dnsIP then
            let b = b\<lparr>b_sys := quiet_call H (CallDetach sv) (b_sys b)\<rparr> in
            (case try_call H (CallServerClose sv) b of
               (Some err, b) \<Rightarrow> (Some err, b)
             | (None, b) \<Rightarrow>
                 let b = (if b_oldServer b = b_server b then b\<lparr>b_oldServer := None\<rparr> else b) in
                 (None, b\<lparr>b_server := None\<rparr>))
          else (None, b))"

definition openServer :: "host \<Rightarrow> Addr \<Rightarrow> buildState \<Rightarrow> goError option \<times> buildState" where
  "openServer H dnsIP b =
     (if b_server b = None \<or> b_oldDNSIP b \<noteq> dnsIP \<or> b_tunRecreated b then
        (case try_call H (CallPacketListen (addrString dnsIP)) b of
           (Some err, b) \<Rightarrow> (Some err, b)
         | (None, b) \<Rightarrow>
             let sv = length (sy_log (b_sys b));
                 s = quiet_call H CallNewServer (b_sys b);
                 s = (case b_oldResolver b of None \<Rightarrow> s | Some res \<Rightarrow> quiet_call H (CallAttach sv res) s) in
             (None, b\<lparr>b_sys := s, b_server := Some sv, b_serverReplaced := True\<rparr>))
      else (None, b))"

definition registerRules :: "host \<Rightarrow> sysConfig \<Rightarrow> DefaultTunOpts \<Rightarrow> buildState \<Rightarrow> goError option \<times> buildState" where
  "registerRules H C opts b =
     (if tunRulesSupportedLocked C then
        (case defaultTunChecker H C opts (b_sys b) of
           (Inl err, s) \<Rightarrow> (Some err, b\<lparr>b_sys := s\<rparr>)
         | (Inr pc, s) \<Rightarrow> (None, b\<lparr>b_sys := s, b_pmark := pc, b_ruleIDs := pc_ruleIDs pc\<rparr>))
      else (None, b))"

definition installChecker :: "host \<Rightarrow> sysConfig \<Rightarrow> buildState \<Rightarrow> goError option \<times> buildState" where
  "installChecker H C b =
     (if pc_check (b_pmark b) then
        (case try_call H (if sc_kernelPolicy C then CallSetKernelPolicy (pc_kernelPolicy (b_pmark b)) else CallSetChecker True) b of
           (Some err, b) \<Rightarrow> (Some err, b)
         | (None, b) \<Rightarrow> try_call H CallForceProcessTraversal (b\<lparr>b_pmarkCheckerInstalled := True\<rparr>))
      else (None, b))"

definition readIndex :: "host \<Rightarrow> buildState \<Rightarrow> goError option \<times> buildState" where
  "readIndex H b = (case call H (CallTunIndex (b_nativeTun b)) (b_sys b) of
     (a, s) \<Rightarrow> (an_err a, b\<lparr>b_sys := s, b_index := (if an_err a = None then an_num a else 0)\<rparr>))"

definition setDefaultTunDNSInterface :: "host \<Rightarrow> sysConfig \<Rightarrow> buildState \<Rightarrow> goError option \<times> buildState" where
  "setDefaultTunDNSInterface H C b =
     (if \<not> sc_dnsIndexer C then (None, b)
      else case try_call H (CallSetInterfaceIndex (b_index b)) b of
        (Some err, b) \<Rightarrow> (Some err, b)
      | (None, b) \<Rightarrow> (None, b\<lparr>b_sys := updState (\<lambda>st. st\<lparr>dt_dnsIfidxSet := True\<rparr>) (b_sys b)\<rparr>))"

definition buildConfig :: "sysConfig \<Rightarrow> DefaultTunOpts \<Rightarrow> int \<Rightarrow> string list \<Rightarrow> string list \<Rightarrow> SourceRoute list \<Rightarrow> Config" where
  "buildConfig C opts index addrs routes sourceRoutes =
     defaultTunConfig (sc_appBypassMark C) (sc_appBypassMask C) (sc_userMark C) (sc_userMarkMask C) index addrs routes sourceRoutes
       (do_Include opts \<noteq> []) (do_Strict opts)"

definition applyRouting :: "host \<Rightarrow> (int \<Rightarrow> Config) \<Rightarrow> buildState \<Rightarrow> goError option \<times> buildState" where
  "applyRouting H rc b =
     (let rc = rc (b_index b) in
      case try_call H (CallApply rc) b of
        (None, b) \<Rightarrow> (None, b\<lparr>b_appliedRC := Some rc\<rparr>)
      | (Some err, b) \<Rightarrow>
          if errors_is err ErrApplyFailedGuardActive then
            (case try_call H (CallRollback rc) b of (e, b) \<Rightarrow> (errors_join [Some err, e], b))
          else (Some err, b))"

definition applyConnmark :: "host \<Rightarrow> sysConfig \<Rightarrow> buildState \<Rightarrow> goError option \<times> buildState" where
  "applyConnmark H C b =
     (if \<not> sc_connmark C then (None, b\<lparr>b_connmarkSet := False\<rparr>)
      else case try_call H (CallConnmarkApply \<lparr>cm_Marks = [\<lparr>mk_Value = sc_appBypassMark C, mk_Mask = sc_appBypassMask C\<rparr>,
          \<lparr>mk_Value = sc_userMark C, mk_Mask = sc_userMarkMask C\<rparr>]\<rparr>) b of
        (None, b) \<Rightarrow> (None, b\<lparr>b_connmarkSet := True\<rparr>)
      | (Some err, b) \<Rightarrow> if sc_connmarkRequired C then (Some err, b) else (None, b\<lparr>b_connmarkSet := False\<rparr>))"

definition killswitchRules :: "sysConfig \<Rightarrow> Mode \<Rightarrow> AllowRules" where
  "killswitchRules C mode = zeroAllowRules\<lparr>ar_EnableV4 := True, ar_EnableV6 := True,
     ar_AllowedMarks := hexMark (sc_appBypassMark C) #
       (if mode = ModeExclude \<and> sc_killswitchAllowExclude C then [hexMark (sc_userMark C)] else [])\<rparr>"

definition updateKillswitch :: "host \<Rightarrow> sysConfig \<Rightarrow> Mode \<Rightarrow> buildState \<Rightarrow> goError option \<times> buildState" where
  "updateKillswitch H C mode b =
     (if \<not> ft_Killswitch (sc_features C) \<or> \<not> sc_killswitch C then (None, b)
      else let rules = killswitchRules C mode;
               rid = (case sy_defaultTun (b_sys b) of Some st \<Rightarrow> dt_killswitchID st | None \<Rightarrow> 0) in
        (case call H (if rid = 0 then CallCreateTMPRuleset rules else CallUpdateTMPRuleset rid rules) (b_sys b) of (a, s) \<Rightarrow>
           (case an_err a of
              Some err \<Rightarrow> (Some err, b\<lparr>b_sys := s\<rparr>)
            | None \<Rightarrow> let rid = (if rid = 0 then of_int (an_num a) else rid) in
                (None, b\<lparr>b_sys := updState (\<lambda>st. st\<lparr>dt_killswitchID := rid\<rparr>) s\<rparr>))))"

definition validateDefaultTunReplacement :: "host \<Rightarrow> tunObj option \<Rightarrow> tunObj \<Rightarrow> sysState \<Rightarrow> goError option \<times> sysState" where
  "validateDefaultTunReplacement H old replacement s =
     (case old of
        None \<Rightarrow> (Some (ErrorsNew ''default tun replacement source is unavailable''), s)
      | Some t \<Rightarrow> (case call H (CallTunMetadata t) s of (m, s) \<Rightarrow> case call H (CallTunMetadata replacement) s of (n, s) \<Rightarrow>
          if an_num m \<noteq> an_num n then (Some (ErrorsNew ''default tun replacement has incompatible I/O metadata''), s) else (None, s)))"

definition linkAlive :: "host \<Rightarrow> tunObj option \<Rightarrow> sysState \<Rightarrow> bool \<times> sysState" where
  "linkAlive H t s = (case t of None \<Rightarrow> (False, s) | Some t \<Rightarrow> (case attempt H (CallTunIndex t) s of (err, s) \<Rightarrow> (err = None, s)))"

text \<open>The native TUN to use, the one it replaces, and whether it is new.\<close>

definition prepareDefaultTunLink :: "host \<Rightarrow> sysConfig \<Rightarrow> defaultTunState \<Rightarrow> int \<Rightarrow> sysState \<Rightarrow>
    (goError + tunObj \<times> tunObj option \<times> bool) \<times> sysState" where
  "prepareDefaultTunLink H C st mtu s =
     (case linkAlive H (dt_tun st) s of (alive, s) \<Rightarrow>
      case (if alive then dt_tun st else None) of Some t \<Rightarrow> (Inr (t, None, False), s)
      | None \<Rightarrow>
          let replacement = length (sy_log s) in
          (case attempt H (CallCreateTUN (defaultTunBaseName_of C) mtu) s of
             (Some err, s) \<Rightarrow> (Inl err, s)
           | (None, s) \<Rightarrow> (case validateDefaultTunReplacement H (dt_tun st) replacement s of
               (Some err, s) \<Rightarrow> (case attempt H (CallTunClose replacement) s of (e, s) \<Rightarrow> (Inl (the (errors_join [Some err, e])), s))
             | (None, s) \<Rightarrow> (Inr (replacement, dt_tun st, True), s))))"

definition newDefaultTunState :: "tunObj \<Rightarrow> u64 \<Rightarrow> defaultTunState" where
  "newDefaultTunState t gen = \<lparr>dt_public = t, dt_tun = Some t, dt_server = None, dt_resolver = None, dt_dnsIP = NoAddr, dt_generation = 0,
     dt_sourceGeneration = gen, dt_addrs = [], dt_routes = [], dt_routingConfig = None, dt_ruleIDs = [], dt_killswitchID = 0,
     dt_pmarkChecker = False, dt_dnsIfidxSet = False, dt_connmarkSet = False\<rparr>"

definition startBuild :: "defaultTunState \<Rightarrow> tunObj \<Rightarrow> tunObj option \<Rightarrow> bool \<Rightarrow> sysState \<Rightarrow> buildState" where
  "startBuild st nativeTun oldNativeTun tunRecreated s =
     \<lparr>b_sys = s, b_nativeTun = nativeTun, b_oldNativeTun = oldNativeTun, b_tunRecreated = tunRecreated, b_oldServer = dt_server st,
      b_oldResolver = dt_resolver st, b_oldDNSIP = dt_dnsIP st, b_oldRuleIDs = dt_ruleIDs st, b_oldPmarkChecker = dt_pmarkChecker st,
      b_server = dt_server st, b_serverReplaced = False, b_pmarkCheckerInstalled = False, b_connmarkSet = False, b_ruleIDs = [],
      b_appliedRC = None, b_pmark = \<lparr>pc_ruleIDs = [], pc_check = False, pc_kernelPolicy = \<lparr>kp_CommRules = [], kp_Mode = KernelPolicyAuthoritative\<rparr>\<rparr>,
      b_index = 0\<rparr>"

definition buildSteps :: "host \<Rightarrow> sysConfig \<Rightarrow> DefaultTunOpts \<Rightarrow> string list \<Rightarrow> Addr \<Rightarrow> string list \<Rightarrow> SourceRoute list \<Rightarrow>
    (buildState \<Rightarrow> goError option \<times> buildState) list" where
  "buildSteps H C opts addrs dnsIP routes sourceRoutes =
     [\<lambda>b. try_call H (CallSetTunMTU (b_nativeTun b) (to_MTU opts)) b,
      \<lambda>b. try_call H (CallSetTunAddrs (b_nativeTun b) addrs) b,
      \<lambda>b. try_call H (CallSetTunRoutes (b_nativeTun b) []) b,
      releaseServer H dnsIP, openServer H dnsIP, registerRules H C opts, installChecker H C, readIndex H, setDefaultTunDNSInterface H C,
      applyRouting H (\<lambda>index. buildConfig C opts index addrs routes sourceRoutes), applyConnmark H C,
      try_call H (CallSetDNS dnsIP),
      updateKillswitch H C (if do_Include opts \<noteq> [] then ModeInclude else ModeExclude)]"

text \<open>The new state is stored, and what it replaces is released.\<close>

definition finishBuild :: "host \<Rightarrow> sysConfig \<Rightarrow> DefaultTunOpts \<Rightarrow> string list \<Rightarrow> Addr \<Rightarrow> string list \<Rightarrow> SourceRoute list \<Rightarrow> buildState \<Rightarrow> sysState" where
  "finishBuild H C opts addrs dnsIP routes sourceRoutes b =
     (let s = b_sys b;
          s = (if b_tunRecreated b then s\<lparr>sy_sourceGeneration := sy_sourceGeneration s + 1\<rparr> else s);
          rc = buildConfig C opts (b_index b) addrs routes sourceRoutes;
          s = updState (\<lambda>st. (if b_tunRecreated b then st\<lparr>dt_sourceGeneration := sy_sourceGeneration s, dt_tun := Some (b_nativeTun b)\<rparr> else st)
            \<lparr>dt_server := b_server b, dt_dnsIP := dnsIP, dt_ruleIDs := b_ruleIDs b, dt_routingConfig := Some rc,
             dt_pmarkChecker := b_pmarkCheckerInstalled b, dt_dnsIfidxSet := sc_dnsIndexer C, dt_connmarkSet := b_connmarkSet b,
             dt_generation := dt_generation st + 1, dt_addrs := addrs, dt_routes := routes\<rparr>) s;
          s = (case b_oldNativeTun b of Some t \<Rightarrow> if b_tunRecreated b then quiet_call H (CallTunClose t) s else s | None \<Rightarrow> s);
          s = unregisterRules H C (b_oldRuleIDs b) s in
      if b_serverReplaced b then snd (closeServer H (b_oldServer b) (None, s)) else s)"

definition runBuild :: "host \<Rightarrow> sysConfig \<Rightarrow> DefaultTunOpts \<Rightarrow> string list \<Rightarrow> Addr \<Rightarrow> string list \<Rightarrow> SourceRoute list \<Rightarrow> buildState \<Rightarrow>
    goError option \<times> sysState" where
  "runBuild H C opts addrs dnsIP routes sourceRoutes b =
     (case steps (buildSteps H C opts addrs dnsIP routes sourceRoutes) b of
        (Some err, b) \<Rightarrow> buildFail H C err b
      | (None, b) \<Rightarrow> (None, finishBuild H C opts addrs dnsIP routes sourceRoutes b))"

text \<open>The state to build on: a new native TUN, or the link of the active state, prepared.\<close>

definition beginBuild :: "host \<Rightarrow> sysConfig \<Rightarrow> int \<Rightarrow> sysState \<Rightarrow> (goError + buildState) \<times> sysState" where
  "beginBuild H C mtu s =
     (case sy_defaultTun s of
        None \<Rightarrow>
          let t = length (sy_log s) in
          (case attempt H (CallCreateTUN (defaultTunBaseName_of C) mtu) s of
             (Some err, s) \<Rightarrow> (Inl err, s)
           | (None, s) \<Rightarrow>
               let s = s\<lparr>sy_sourceGeneration := sy_sourceGeneration s + 1\<rparr>;
                   st = newDefaultTunState t (sy_sourceGeneration s);
                   s = s\<lparr>sy_defaultTun := Some st\<rparr> in
               (Inr (startBuild st t None False s), s))
      | Some st \<Rightarrow>
          (case prepareDefaultTunLink H C st mtu s of
             (Inl err, s) \<Rightarrow> (Inl err, s)
           | (Inr (t, old, recreated), s) \<Rightarrow> (Inr (startBuild st t old recreated s), s)))"

definition BuildDefaultTun :: "host \<Rightarrow> sysnetAPI \<Rightarrow> sysConfig \<Rightarrow> capabilityFailures \<Rightarrow> DefaultTunOpts \<Rightarrow> sysState \<Rightarrow> goError option \<times> sysState" where
  "BuildDefaultTun H A C F opts s =
     (case CheckDefaultTunOpts H A C F opts s of (report, s) \<Rightarrow>
      case api_Err A report of Some err \<Rightarrow> (Some err, s)
      | None \<Rightarrow> (case normalizeTunAddrs (to_TunAddrs opts) (sc_defaultTunCIDR C) (do_DnsIP opts) of
          Inl err \<Rightarrow> (Some err, s)
        | Inr (addrs, dnsIP) \<Rightarrow>
            if \<not> addrIsValid dnsIP then (Some (ErrorsNew ''default tun DNS IP is unavailable''), s)
            else (case normalizeTunRoutes (to_TunRoutes opts) of
              Inl err \<Rightarrow> (Some err, s)
            | Inr routes \<Rightarrow> (case normalizeTunSourceRoutes addrs (do_SourceRoutes opts) of
                Inl err \<Rightarrow> (Some err, s)
              | Inr sourceRoutes \<Rightarrow>
                  if sy_closed s then (Some netErrClosed, s)
                  else (case beginBuild H C (NormalizeMTU (to_MTU opts)) s of
                    (Inl err, s) \<Rightarrow> (Some err, s)
                  | (Inr b, s) \<Rightarrow> runBuild H C opts addrs dnsIP routes sourceRoutes b)))))"

section \<open>Updates\<close>

definition restoreDefaultTunLinkLocked :: "host \<Rightarrow> tunObj \<Rightarrow> string list \<Rightarrow> string list \<Rightarrow> sysState \<Rightarrow> goError option \<times> sysState" where
  "restoreDefaultTunLinkLocked H t addrs routes s =
     (case attempt H (CallSetTunAddrs t addrs) s of (e1, s) \<Rightarrow> case attempt H (CallSetTunRoutes t routes) s of (e2, s) \<Rightarrow> (errors_join [e1, e2], s))"

definition restoreDefaultTunRoutingLocked :: "host \<Rightarrow> Config \<Rightarrow> Config \<Rightarrow> sysState \<Rightarrow> goError option \<times> sysState" where
  "restoreDefaultTunRoutingLocked H oldRC failedRC s =
     (case attempt H (CallRollback failedRC) s of (e1, s) \<Rightarrow> case attempt H (CallApply oldRC) s of (e2, s) \<Rightarrow> (errors_join [e1, e2], s))"

text \<open>A query whose error is returned, and a call with a branch for its error.\<close>

definition readThen :: "host \<Rightarrow> hostCall \<Rightarrow> (answer \<Rightarrow> sysState \<Rightarrow> goError option \<times> sysState) \<Rightarrow> sysState \<Rightarrow> goError option \<times> sysState" where
  "readThen H c f s = (case call H c s of (a, s) \<Rightarrow> case an_err a of Some err \<Rightarrow> (Some err, s) | None \<Rightarrow> f a s)"

definition tryElse :: "host \<Rightarrow> hostCall \<Rightarrow> (goError \<Rightarrow> sysState \<Rightarrow> goError option \<times> sysState) \<Rightarrow> (sysState \<Rightarrow> goError option \<times> sysState) \<Rightarrow> sysState \<Rightarrow>
    goError option \<times> sysState" where
  "tryElse H c failed next_step s = (case attempt H c s of (Some err, s) \<Rightarrow> failed err s | (None, s) \<Rightarrow> next_step s)"

definition updateDefaultTunAddrsLocked :: "host \<Rightarrow> sysnetAPI \<Rightarrow> tunObj \<Rightarrow> string list \<Rightarrow> string \<Rightarrow> defaultTunState \<Rightarrow> sysState \<Rightarrow>
    goError option \<times> sysState" where
  "updateDefaultTunAddrsLocked H A t addrs addedAddr st s =
     (case dt_routingConfig st of
        None \<Rightarrow> (Some (api_ErrUnknownTun A), s)
      | Some rc \<Rightarrow> (case validateDefaultTunSourceAddrs addrs (cfg_SourceRoutes rc) of
          Some err \<Rightarrow> (Some err, s)
        | None \<Rightarrow>
            readThen H (CallGetTunAddrs t) (\<lambda>oldAddrs. readThen H (CallGetTunRoutes t) (\<lambda>oldMainRoutes.
              let oldRC = cloneDefaultTunRoutingConfig rc;
                  newRC = setDefaultTunRoutingFamilies (cloneDefaultTunRoutingConfig oldRC) addrs (dt_routes st);
                  restoreLink = restoreDefaultTunLinkLocked H t (an_texts oldAddrs) (an_texts oldMainRoutes);
                  restore = (\<lambda>err s. case restoreLink s of (e, s) \<Rightarrow> (errors_join [Some err, e], s)) in
              tryElse H (if addedAddr = '''' then CallSetTunAddrs t addrs else CallAddTunAddr t addedAddr) restore (
              tryElse H (CallSetTunRoutes t []) restore (
              tryElse H (CallApply newRC)
                (\<lambda>err s. case restoreLink s of (e1, s) \<Rightarrow> case restoreDefaultTunRoutingLocked H oldRC newRC s of (e2, s) \<Rightarrow> (errors_join [Some err, e1, e2], s))
                (\<lambda>s. (None, updState (\<lambda>st. st\<lparr>dt_addrs := addrs, dt_routingConfig := Some newRC\<rparr>) s)))))) s))"

definition setDefaultTunRoutesLocked :: "host \<Rightarrow> sysnetAPI \<Rightarrow> tunObj \<Rightarrow> string list \<Rightarrow> defaultTunState \<Rightarrow> sysState \<Rightarrow> goError option \<times> sysState" where
  "setDefaultTunRoutesLocked H A t routes st s =
     (case dt_routingConfig st of
        None \<Rightarrow> (Some (api_ErrUnknownTun A), s)
      | Some rc \<Rightarrow>
          readThen H (CallGetTunRoutes t) (\<lambda>oldMainRoutes.
            let oldRC = cloneDefaultTunRoutingConfig rc;
                newRC = setDefaultTunRoutingFamilies (cloneDefaultTunRoutingConfig oldRC) (dt_addrs st) routes;
                restoreRoutes = attempt H (CallSetTunRoutes t (an_texts oldMainRoutes)) in
            tryElse H (CallSetTunRoutes t []) (\<lambda>err s. case restoreRoutes s of (e, s) \<Rightarrow> (errors_join [Some err, e], s)) (
            tryElse H (CallApply newRC)
              (\<lambda>err s. case restoreRoutes s of (e1, s) \<Rightarrow> case restoreDefaultTunRoutingLocked H oldRC newRC s of (e2, s) \<Rightarrow> (errors_join [Some err, e1, e2], s))
              (\<lambda>s. (None, updState (\<lambda>st. st\<lparr>dt_routes := routes, dt_routingConfig := Some newRC\<rparr>) s)))) s)"

text \<open>The native TUN of a public object, and the state if it is that of the default TUN.\<close>

definition resolveTunLocked :: "sysnetAPI \<Rightarrow> publicTun \<Rightarrow> sysState \<Rightarrow> goError + tunObj \<times> defaultTunState option" where
  "resolveTunLocked A t s =
     (case t of
        NilTun \<Rightarrow> Inl (api_ErrUnknownTun A)
      | DefaultTunObj d \<Rightarrow>
          (case sy_defaultTun s of
             None \<Rightarrow> Inl (api_ErrUnknownTun A)
           | Some st \<Rightarrow> if sy_closed s \<or> dt_public st \<noteq> d then Inl (api_ErrUnknownTun A)
               else (case dt_tun st of None \<Rightarrow> Inl (api_ErrUnknownTun A) | Some n \<Rightarrow> Inr (n, Some st)))
      | RegularTunObj n \<Rightarrow> if n \<in> set (sy_tuns s) then Inr (n, None) else Inl (api_ErrUnknownTun A))"

definition tunOperationError :: "sysnetAPI \<Rightarrow> sysConfig \<Rightarrow> capabilityFailures \<Rightarrow> bool \<Rightarrow> Operation \<Rightarrow> AddressFamily \<Rightarrow> goError option" where
  "tunOperationError A C F isDefault operation family =
     capabilityError A (api_Operation A (openCapabilityReportLocked A C F) (if isDefault then TargetDefaultTun else TargetTun, operation, family))"

text \<open>An operation on a resolved object, once it is allowed.\<close>

definition withTun :: "sysnetAPI \<Rightarrow> publicTun \<Rightarrow> (tunObj \<Rightarrow> defaultTunState option \<Rightarrow> sysState \<Rightarrow> goError option \<times> sysState) \<Rightarrow> sysState \<Rightarrow>
    goError option \<times> sysState" where
  "withTun A t f s = (case resolveTunLocked A t s of Inl err \<Rightarrow> (Some err, s) | Inr (n, st) \<Rightarrow> f n st s)"

definition allowed :: "sysnetAPI \<Rightarrow> sysConfig \<Rightarrow> capabilityFailures \<Rightarrow> defaultTunState option \<Rightarrow> Operation \<Rightarrow> AddressFamily \<Rightarrow>
    (sysState \<Rightarrow> goError option \<times> sysState) \<Rightarrow> sysState \<Rightarrow> goError option \<times> sysState" where
  "allowed A C F st operation family f s = (case tunOperationError A C F (st \<noteq> None) operation family of Some err \<Rightarrow> (Some err, s) | None \<Rightarrow> f s)"

definition System_SetTunMTU :: "host \<Rightarrow> sysnetAPI \<Rightarrow> sysConfig \<Rightarrow> capabilityFailures \<Rightarrow> publicTun \<Rightarrow> int \<Rightarrow> sysState \<Rightarrow> goError option \<times> sysState" where
  "System_SetTunMTU H A C F t mtu = withTun A t (\<lambda>n st. allowed A C F st OpSetMTU FamilyNone (\<lambda>s.
     if st = None then attempt H (CallSetTunMTU n mtu) s
     else case call H (CallTunMTU n) s of (a, s) \<Rightarrow> case an_err a of Some err \<Rightarrow> (Some err, s)
       | None \<Rightarrow> (case attempt H (CallSetTunMTU n mtu) s of
           (Some err, s) \<Rightarrow> (case attempt H (CallSetTunMTU n (an_num a)) s of (e, s) \<Rightarrow> (errors_join [Some err, e], s))
         | (None, s) \<Rightarrow> (None, s))))"

definition dnsWouldChange :: "sysnetAPI \<Rightarrow> goError" where
  "dnsWouldChange A = Errorf ''default tun address update would change the DNS address: %w'' [] [api_ErrNotSupported A]"

definition setDefaultTunAddrsLocked :: "host \<Rightarrow> sysnetAPI \<Rightarrow> sysConfig \<Rightarrow> tunObj \<Rightarrow> string list \<Rightarrow> defaultTunState \<Rightarrow> sysState \<Rightarrow> goError option \<times> sysState" where
  "setDefaultTunAddrsLocked H A C n addrs st s =
     (case normalizeTunAddrs addrs (sc_defaultTunCIDR C) (addrString (dt_dnsIP st)) of
        Inl err \<Rightarrow> (Some err, s)
      | Inr (normalized, dnsIP) \<Rightarrow>
          if dnsIP \<noteq> dt_dnsIP st then (Some (dnsWouldChange A), s) else updateDefaultTunAddrsLocked H A n normalized '''' st s)"

definition addDefaultTunAddrLocked :: "host \<Rightarrow> sysnetAPI \<Rightarrow> sysConfig \<Rightarrow> tunObj \<Rightarrow> string \<Rightarrow> defaultTunState \<Rightarrow> sysState \<Rightarrow> goError option \<times> sysState" where
  "addDefaultTunAddrLocked H A C n addr st s =
     (if addr \<in> set (dt_addrs st) then (None, s)
      else case normalizeTunAddrs (dt_addrs st @ [addr]) (sc_defaultTunCIDR C) (addrString (dt_dnsIP st)) of
        Inl err \<Rightarrow> (Some err, s)
      | Inr (normalized, dnsIP) \<Rightarrow>
          if dnsIP \<noteq> dt_dnsIP st then (Some (dnsWouldChange A), s) else updateDefaultTunAddrsLocked H A n normalized addr st s)"

definition System_SetTunAddrs :: "host \<Rightarrow> sysnetAPI \<Rightarrow> sysConfig \<Rightarrow> capabilityFailures \<Rightarrow> publicTun \<Rightarrow> string list \<Rightarrow> sysState \<Rightarrow>
    goError option \<times> sysState" where
  "System_SetTunAddrs H A C F t addrs = withTun A t (\<lambda>n st s.
     case normalizeTunAddrs addrs '''' '''' of
       Inl err \<Rightarrow> (Some err, s)
     | Inr (normalized, _) \<Rightarrow> allowed A C F st OpSetAddresses (familyOrDual normalized []) (\<lambda>s.
         case st of Some st \<Rightarrow> setDefaultTunAddrsLocked H A C n addrs st s | None \<Rightarrow> attempt H (CallSetTunAddrs n normalized) s) s)"

definition System_AddTunAddr :: "host \<Rightarrow> sysnetAPI \<Rightarrow> sysConfig \<Rightarrow> capabilityFailures \<Rightarrow> publicTun \<Rightarrow> string \<Rightarrow> sysState \<Rightarrow>
    goError option \<times> sysState" where
  "System_AddTunAddr H A C F t addr = withTun A t (\<lambda>n st s.
     case parsePrefix addr of
       Inl err \<Rightarrow> (Some err, s)
     | Inr pfx \<Rightarrow> allowed A C F st OpAddAddress (prefixFamily pfx) (\<lambda>s.
         case normalizeTunAddrs [addr] '''' '''' of
           Inl err \<Rightarrow> (Some err, s)
         | Inr ([], _) \<Rightarrow> (None, s)
         | Inr (first # _, _) \<Rightarrow> (case st of Some st \<Rightarrow> addDefaultTunAddrLocked H A C n first st s
             | None \<Rightarrow> attempt H (CallAddTunAddr n first) s)) s)"

definition System_SetTunRoutes :: "host \<Rightarrow> sysnetAPI \<Rightarrow> sysConfig \<Rightarrow> capabilityFailures \<Rightarrow> publicTun \<Rightarrow> string list \<Rightarrow> sysState \<Rightarrow>
    goError option \<times> sysState" where
  "System_SetTunRoutes H A C F t routes = withTun A t (\<lambda>n st s.
     case normalizeTunRoutes routes of
       Inl err \<Rightarrow> (Some err, s)
     | Inr normalized \<Rightarrow> allowed A C F st OpSetRoutes (familyOrDual [] normalized) (\<lambda>s.
         case st of Some st \<Rightarrow> setDefaultTunRoutesLocked H A n normalized st s | None \<Rightarrow> attempt H (CallSetTunRoutes n normalized) s) s)"

definition System_AddTunRoute :: "host \<Rightarrow> sysnetAPI \<Rightarrow> sysConfig \<Rightarrow> capabilityFailures \<Rightarrow> publicTun \<Rightarrow> string \<Rightarrow> sysState \<Rightarrow>
    goError option \<times> sysState" where
  "System_AddTunRoute H A C F t route = withTun A t (\<lambda>n st s.
     case parsePrefix route of
       Inl err \<Rightarrow> (Some err, s)
     | Inr pfx \<Rightarrow> allowed A C F st OpAddRoute (prefixFamily pfx) (\<lambda>s.
         case normalizeTunRoutes [route] of
           Inl err \<Rightarrow> (Some err, s)
         | Inr [] \<Rightarrow> (None, s)
         | Inr (first # _) \<Rightarrow> (case st of
             Some st \<Rightarrow> (case normalizeTunRoutes (dt_routes st @ [first]) of
               Inl err \<Rightarrow> (Some err, s) | Inr routes \<Rightarrow> setDefaultTunRoutesLocked H A n routes st s)
           | None \<Rightarrow> attempt H (CallAddTunRoute n first) s)) s)"

definition System_SetTunName :: "host \<Rightarrow> sysnetAPI \<Rightarrow> sysConfig \<Rightarrow> capabilityFailures \<Rightarrow> publicTun \<Rightarrow> string \<Rightarrow> sysState \<Rightarrow>
    goError option \<times> sysState" where
  "System_SetTunName H A C F t name = withTun A t (\<lambda>n st. allowed A C F st OpRename FamilyNone (\<lambda>s.
     case TunNameVerify (interfaceExists H) name s of ((valid, free), s) \<Rightarrow>
     case (if valid \<and> \<not> free then (case call H (CallTunName n) s of (a, s) \<Rightarrow> (an_text a = name, s)) else (free, s)) of (free, s) \<Rightarrow>
       if \<not> valid \<or> \<not> free then
         (Some (Errorf ''TUN name %q is invalid or already in use: %w'' [AStr name] [api_ErrInvalidOptions A]), s)
       else attempt H (CallSetTunName n name) s))"

text \<open>The getters.\<close>

definition System_GetTunAddrs :: "host \<Rightarrow> sysnetAPI \<Rightarrow> sysConfig \<Rightarrow> capabilityFailures \<Rightarrow> publicTun \<Rightarrow> sysState \<Rightarrow> (goError + string list) \<times> sysState" where
  "System_GetTunAddrs H A C F t s =
     (case resolveTunLocked A t s of
        Inl err \<Rightarrow> (Inl err, s)
      | Inr (n, st) \<Rightarrow> (case tunOperationError A C F (st \<noteq> None) OpGetAddresses FamilyIPv4 of
          Some err \<Rightarrow> (Inl err, s)
        | None \<Rightarrow> (case call H (CallGetTunAddrs n) s of (a, s) \<Rightarrow> (case an_err a of Some err \<Rightarrow> Inl err | None \<Rightarrow> Inr (an_texts a), s))))"

definition System_GetTunRoutes :: "host \<Rightarrow> sysnetAPI \<Rightarrow> sysConfig \<Rightarrow> capabilityFailures \<Rightarrow> publicTun \<Rightarrow> sysState \<Rightarrow> (goError + string list) \<times> sysState" where
  "System_GetTunRoutes H A C F t s =
     (case resolveTunLocked A t s of
        Inl err \<Rightarrow> (Inl err, s)
      | Inr (n, st) \<Rightarrow> (case tunOperationError A C F (st \<noteq> None) OpGetRoutes FamilyIPv4 of
          Some err \<Rightarrow> (Inl err, s)
        | None \<Rightarrow> (case st of
            Some st \<Rightarrow> (Inr (dt_routes st), s)
          | None \<Rightarrow> (case call H (CallGetTunRoutes n) s of (a, s) \<Rightarrow> (case an_err a of Some err \<Rightarrow> Inl err | None \<Rightarrow> Inr (an_texts a), s)))))"

definition defaultTun_nativeTun :: "nat \<Rightarrow> sysState \<Rightarrow> tunObj option" where
  "defaultTun_nativeTun d s = (case sy_defaultTun s of None \<Rightarrow> None
     | Some st \<Rightarrow> if sy_closed s \<or> dt_public st \<noteq> d then None else dt_tun st)"

definition regularTun_nativeTun :: "tunObj \<Rightarrow> sysState \<Rightarrow> tunObj option" where
  "regularTun_nativeTun t s = (if sy_closed s \<or> t \<notin> set (sy_tuns s) then None else Some t)"

end
