(* ===== verification/Sys_Resources.thy ===== *)
theory Sys_Resources
  imports Sys_Tun
begin

text \<open>
  The resources that the facade holds, computed from the log of its calls, and the proof that it records all of them: nothing leaks when building
  a TUN fails, when it is rebuilt or updated, and when a TUN or the system is closed.
\<close>

section \<open>Resources\<close>

record resources =
  rs_tuns :: "tunObj set"
  rs_servers :: "serverObj set"
  rs_rules :: "u64 multiset"
  rs_rulesets :: "u64 set"
  rs_checker :: bool
  rs_dns :: bool
  rs_ifidx :: bool
  rs_routing :: bool

definition noResources :: resources where
  "noResources = \<lparr>rs_tuns = {}, rs_servers = {}, rs_rules = {#}, rs_rulesets = {}, rs_checker = False, rs_dns = False, rs_ifidx = False,
     rs_routing = False\<rparr>"

text \<open>
  What one call acquires or releases. A call that acquires does so when it succeeds (a failed \<open>Apply\<close> also when it says that its guard is
  still there); a call that releases counts as a release in any case, as there is nothing more to do when it fails.
\<close>

definition track :: "nat \<Rightarrow> resources \<Rightarrow> event \<Rightarrow> resources" where
  "track i h e = (let ok = (an_err (snd e) = None) in case fst e of
     CallCreateTUN name mtu \<Rightarrow> if ok then h\<lparr>rs_tuns := insert i (rs_tuns h)\<rparr> else h
   | CallTunClose t \<Rightarrow> h\<lparr>rs_tuns := rs_tuns h - {t}\<rparr>
   | CallNewServer \<Rightarrow> h\<lparr>rs_servers := insert i (rs_servers h)\<rparr>
   | CallServerClose sv \<Rightarrow> h\<lparr>rs_servers := rs_servers h - {sv}\<rparr>
   | CallRegisterRule rule \<Rightarrow> h\<lparr>rs_rules := add_mset (of_int (an_num (snd e))) (rs_rules h)\<rparr>
   | CallUnregisterRule rid \<Rightarrow> h\<lparr>rs_rules := rs_rules h - {#rid#}\<rparr>
   | CallCreateTMPRuleset rules \<Rightarrow> if ok then h\<lparr>rs_rulesets := insert (of_int (an_num (snd e))) (rs_rulesets h)\<rparr> else h
   | CallDeleteTMPRuleset rid \<Rightarrow> h\<lparr>rs_rulesets := rs_rulesets h - {rid}\<rparr>
   | CallSetChecker on \<Rightarrow> h\<lparr>rs_checker := on \<and> (ok \<or> rs_checker h)\<rparr>
   | CallSetKernelPolicy policy \<Rightarrow> h\<lparr>rs_checker := ok \<or> rs_checker h\<rparr>
   | CallSetDNS addr \<Rightarrow> h\<lparr>rs_dns := ok \<or> rs_dns h\<rparr>
   | CallUnsetDNS \<Rightarrow> h\<lparr>rs_dns := False\<rparr>
   | CallSetInterfaceIndex n \<Rightarrow> h\<lparr>rs_ifidx := n \<noteq> 0 \<and> (ok \<or> rs_ifidx h)\<rparr>
   | CallApply rc \<Rightarrow> h\<lparr>rs_routing := rs_routing h \<or> (case an_err (snd e) of None \<Rightarrow> True | Some err \<Rightarrow> errors_is err ErrApplyFailedGuardActive)\<rparr>
   | CallRollback rc \<Rightarrow> h\<lparr>rs_routing := False\<rparr>
   | _ \<Rightarrow> h)"

fun heldFrom :: "nat \<Rightarrow> resources \<Rightarrow> event list \<Rightarrow> resources" where
  "heldFrom i h [] = h"
| "heldFrom i h (e # es) = heldFrom (i + 1) (track i h e) es"

definition held :: "sysState \<Rightarrow> resources" where
  "held s = heldFrom 0 noResources (sy_log s)"

lemma heldFrom_snoc: "heldFrom i h (es @ [e]) = track (i + length es) (heldFrom i h es) e"
  by (induction es arbitrary: i h) simp_all

lemma held_fields [simp]: "held (s\<lparr>sy_defaultTun := d\<rparr>) = held s" "held (s\<lparr>sy_tuns := ts\<rparr>) = held s" "held (s\<lparr>sy_closed := c\<rparr>) = held s"
    "held (s\<lparr>sy_sourceGeneration := g\<rparr>) = held s" "held (updState f s) = held s"
  by (simp_all add: held_def updState_def)

text \<open>Calls in terms of the state after them.\<close>

lemma call_quiet: "call H c s = (H (sy_log s) c, quiet_call H c s)"
  by (simp add: quiet_call_def call_def Let_def)

lemma attempt_quiet: "attempt H c s = (an_err (H (sy_log s) c), quiet_call H c s)"
  by (simp add: attempt_def call_quiet)

lemma also_quiet: "snd (also_call H c r) = quiet_call H c (snd r)"
  by (simp add: also_call_def attempt_quiet split: prod.split)

definition maybe_call :: "bool \<Rightarrow> host \<Rightarrow> hostCall \<Rightarrow> sysState \<Rightarrow> sysState" where
  "maybe_call b H c s = (if b then quiet_call H c s else s)"

lemma onlyIf_quiet: "snd (onlyIf b (also_call H c) r) = maybe_call b H c (snd r)"
  by (simp add: onlyIf_def maybe_call_def also_quiet)

lemma quiet_fields [simp]: "sy_defaultTun (quiet_call H c s) = sy_defaultTun s" "sy_tuns (quiet_call H c s) = sy_tuns s"
    "sy_closed (quiet_call H c s) = sy_closed s" "sy_sourceGeneration (quiet_call H c s) = sy_sourceGeneration s"
  by (simp_all add: quiet_call_def call_def Let_def)

lemma maybe_fields [simp]: "sy_defaultTun (maybe_call b H c s) = sy_defaultTun s" "sy_tuns (maybe_call b H c s) = sy_tuns s"
    "sy_closed (maybe_call b H c s) = sy_closed s" "sy_sourceGeneration (maybe_call b H c s) = sy_sourceGeneration s"
  by (simp_all add: maybe_call_def)

lemma updState_fields [simp]: "sy_defaultTun (updState f s) = map_option f (sy_defaultTun s)" "sy_tuns (updState f s) = sy_tuns s"
    "sy_closed (updState f s) = sy_closed s" "sy_sourceGeneration (updState f s) = sy_sourceGeneration s" "sy_log (updState f s) = sy_log s"
  by (simp_all add: updState_def)

lemma held_quiet [simp]: "held (quiet_call H c s) = track (length (sy_log s)) (held s) (c, H (sy_log s) c)"
  by (simp add: held_def quiet_call_def call_def Let_def heldFrom_snoc)

lemma held_maybe [simp]: "held (maybe_call b H c s) = (if b then track (length (sy_log s)) (held s) (c, H (sy_log s) c) else held s)"
  by (simp add: maybe_call_def)

text \<open>A TUN or server that is held was made before.\<close>

lemma held_old: "rs_tuns (held s) \<subseteq> {..<length (sy_log s)}" "rs_servers (held s) \<subseteq> {..<length (sy_log s)}"
proof -
  have "rs_tuns h \<subseteq> {..<i} \<and> rs_servers h \<subseteq> {..<i} \<Longrightarrow>
      rs_tuns (heldFrom i h es) \<subseteq> {..<i + length es} \<and> rs_servers (heldFrom i h es) \<subseteq> {..<i + length es}" for i h es
  proof (induction es arbitrary: i h)
    case (Cons e es)
    have "rs_tuns (track i h e) \<subseteq> {..<i + 1} \<and> rs_servers (track i h e) \<subseteq> {..<i + 1}"
      using Cons.prems by (cases e; cases "fst e") (auto simp: track_def Let_def)
    from Cons.IH [OF this] show ?case by simp
  qed simp
  from this [of noResources 0 "sy_log s"] show "rs_tuns (held s) \<subseteq> {..<length (sy_log s)}" "rs_servers (held s) \<subseteq> {..<length (sy_log s)}"
    by (simp_all add: held_def noResources_def)
qed

section \<open>What closing releases\<close>

lemma unregister_held: "held (unregisterRules H C ids s) = (if sc_ruleTracker C then (held s)\<lparr>rs_rules := rs_rules (held s) - mset ids\<rparr> else held s)"
proof (induction ids arbitrary: s)
  case (Cons i ids)
  have "unregisterRules H C (i # ids) s = unregisterRules H C ids (unregisterRule H C i s)" by (simp add: unregisterRules_def)
  then show ?case using Cons by (simp add: unregisterRule_def track_def)
qed (simp add: unregisterRules_def)

lemma unregister_fields [simp]: "sy_defaultTun (unregisterRules H C ids s) = sy_defaultTun s" "sy_tuns (unregisterRules H C ids s) = sy_tuns s"
    "sy_closed (unregisterRules H C ids s) = sy_closed s" "sy_sourceGeneration (unregisterRules H C ids s) = sy_sourceGeneration s"
  by (induction ids arbitrary: s) (simp_all add: unregisterRules_def unregisterRule_def)

definition sopt :: "'a option \<Rightarrow> 'a set" where
  "sopt x = (case x of None \<Rightarrow> {} | Some y \<Rightarrow> {y})"

lemma sopt_simps [simp]: "sopt None = {}" "sopt (Some x) = {x}"
  by (simp_all add: sopt_def)

lemma closeServer_held: "held (snd (closeServer H sv r)) = (held (snd r))\<lparr>rs_servers := rs_servers (held (snd r)) - sopt sv\<rparr>"
  by (cases sv) (simp_all add: closeServer_def also_quiet track_def)

lemma closeServer_fields [simp]: "sy_defaultTun (snd (closeServer H sv r)) = sy_defaultTun (snd r)" "sy_tuns (snd (closeServer H sv r)) = sy_tuns (snd r)"
    "sy_closed (snd (closeServer H sv r)) = sy_closed (snd r)" "sy_sourceGeneration (snd (closeServer H sv r)) = sy_sourceGeneration (snd r)"
  by (cases sv; simp add: closeServer_def also_quiet)+

lemma snd_pair_if [simp]: "snd (fst r, s) = s"
  by simp

text \<open>Closing a state releases what it records.\<close>

definition released :: "sysConfig \<Rightarrow> defaultTunState \<Rightarrow> resources \<Rightarrow> resources" where
  "released C st h = \<lparr>rs_tuns = rs_tuns h - sopt (dt_tun st), rs_servers = rs_servers h - sopt (dt_server st),
     rs_rules = (if sc_ruleTracker C then rs_rules h - mset (dt_ruleIDs st) else rs_rules h),
     rs_rulesets = (if dt_killswitchID st \<noteq> 0 \<and> sc_killswitch C then rs_rulesets h - {dt_killswitchID st} else rs_rulesets h),
     rs_checker = (rs_checker h \<and> \<not> (dt_pmarkChecker st \<and> sc_pmark C)), rs_dns = (rs_dns h \<and> \<not> sc_dnsProvider C),
     rs_ifidx = (rs_ifidx h \<and> \<not> (dt_dnsIfidxSet st \<and> sc_dnsIndexer C)),
     rs_routing = (rs_routing h \<and> \<not> (dt_routingConfig st \<noteq> None \<and> sc_routingManager C))\<rparr>"

lemma closeActive_effect:
  "held (snd (closeActive H C st s)) = released C st (held s)"
  "sy_defaultTun (snd (closeActive H C st s)) = sy_defaultTun s" "sy_tuns (snd (closeActive H C st s)) = sy_tuns s"
  "sy_closed (snd (closeActive H C st s)) = sy_closed s" "sy_sourceGeneration (snd (closeActive H C st s)) = sy_sourceGeneration s"
proof -
  define s1 where "s1 = snd (closeServer H (dt_server st) (None, unregisterRules H C (dt_ruleIDs st) s))"
  define s2 where "s2 = maybe_call (dt_dnsIfidxSet st \<and> sc_dnsIndexer C) H (CallSetInterfaceIndex 0) (maybe_call (sc_dnsProvider C) H CallUnsetDNS s1)"
  define s3 where "s3 = (case dt_routingConfig st of Some rc \<Rightarrow> maybe_call (sc_routingManager C) H (CallRollback rc) s2 | None \<Rightarrow> s2)"
  define s4 where "s4 = maybe_call (dt_killswitchID st \<noteq> 0 \<and> sc_killswitch C) H (CallDeleteTMPRuleset (dt_killswitchID st))
    (maybe_call (dt_connmarkSet st \<and> sc_connmark C) H CallConnmarkRollback s3)"
  define s5 where "s5 = maybe_call (dt_pmarkChecker st \<and> sc_pmark C) H (CallSetChecker False) s4"
  have s': "snd (closeActive H C st s) = (case dt_tun st of Some t \<Rightarrow> quiet_call H (CallTunClose t) s5 | None \<Rightarrow> s5)"
    unfolding closeActive_def Let_def s5_def s4_def s3_def s2_def s1_def
    by (cases "dt_tun st"; cases "dt_routingConfig st") (simp_all add: also_quiet onlyIf_quiet)
  have h1: "held s1 = (held s)\<lparr>rs_servers := rs_servers (held s) - sopt (dt_server st),
      rs_rules := (if sc_ruleTracker C then rs_rules (held s) - mset (dt_ruleIDs st) else rs_rules (held s))\<rparr>"
    by (simp add: s1_def closeServer_held unregister_held)
  have h2: "held s2 = (held s1)\<lparr>rs_dns := rs_dns (held s1) \<and> \<not> sc_dnsProvider C, rs_ifidx := rs_ifidx (held s1) \<and> \<not> (dt_dnsIfidxSet st \<and> sc_dnsIndexer C)\<rparr>"
    by (simp add: s2_def track_def)
  have h3: "held s3 = (held s2)\<lparr>rs_routing := rs_routing (held s2) \<and> \<not> (dt_routingConfig st \<noteq> None \<and> sc_routingManager C)\<rparr>"
    by (cases "dt_routingConfig st") (simp_all add: s3_def track_def)
  have h4: "held s4 = (held s3)\<lparr>rs_rulesets := (if dt_killswitchID st \<noteq> 0 \<and> sc_killswitch C then rs_rulesets (held s3) - {dt_killswitchID st} else rs_rulesets (held s3))\<rparr>"
    by (simp add: s4_def track_def)
  have h5: "held s5 = (held s4)\<lparr>rs_checker := rs_checker (held s4) \<and> \<not> (dt_pmarkChecker st \<and> sc_pmark C)\<rparr>"
    by (simp add: s5_def track_def)
  have "held (snd (closeActive H C st s)) = (held s5)\<lparr>rs_tuns := rs_tuns (held s5) - sopt (dt_tun st)\<rparr>"
    by (cases "dt_tun st") (simp_all add: s' track_def)
  then show "held (snd (closeActive H C st s)) = released C st (held s)" unfolding h5 h4 h3 h2 h1 by (simp add: released_def)
  have "sy_defaultTun s3 = sy_defaultTun s" "sy_tuns s3 = sy_tuns s" "sy_closed s3 = sy_closed s" "sy_sourceGeneration s3 = sy_sourceGeneration s"
    by (cases "dt_routingConfig st"; simp add: s3_def s2_def s1_def)+
  then show "sy_defaultTun (snd (closeActive H C st s)) = sy_defaultTun s" "sy_tuns (snd (closeActive H C st s)) = sy_tuns s"
    "sy_closed (snd (closeActive H C st s)) = sy_closed s" "sy_sourceGeneration (snd (closeActive H C st s)) = sy_sourceGeneration s"
    by (cases "dt_tun st"; simp add: s' s5_def s4_def)+
qed

section \<open>Everything held is recorded\<close>

text \<open>What the state of a default TUN has only when the component is there.\<close>

definition state_static :: "sysConfig \<Rightarrow> defaultTunState \<Rightarrow> bool" where
  "state_static C st \<longleftrightarrow> (\<not> sc_ruleTracker C \<longrightarrow> dt_ruleIDs st = []) \<and> (\<not> sc_killswitch C \<longrightarrow> dt_killswitchID st = 0) \<and>
     (dt_pmarkChecker st \<longrightarrow> tunRulesSupportedLocked C) \<and> (dt_dnsIfidxSet st \<longrightarrow> sc_dnsIndexer C)"

definition sketch_rulesets :: "u64 \<Rightarrow> u64 set" where
  "sketch_rulesets rid = (if rid = 0 then {} else {rid})"

definition recorded :: "sysConfig \<Rightarrow> sysState \<Rightarrow> defaultTunState \<Rightarrow> bool" where
  "recorded C s st \<longleftrightarrow> (let h = held s in
     \<not> sy_closed s \<and> sc_dnsProvider C \<and> sc_routingManager C \<and> state_static C st \<and> (\<exists>t. dt_tun st = Some t \<and> t \<notin> set (sy_tuns s)) \<and>
     rs_tuns h = set (sy_tuns s) \<union> sopt (dt_tun st) \<and> rs_servers h \<subseteq> sopt (dt_server st) \<and> rs_rules h = mset (dt_ruleIDs st) \<and>
     rs_rulesets h \<subseteq> sketch_rulesets (dt_killswitchID st) \<and> (rs_checker h \<longrightarrow> dt_pmarkChecker st) \<and> (rs_ifidx h \<longrightarrow> dt_dnsIfidxSet st) \<and>
     (rs_routing h \<longrightarrow> dt_routingConfig st \<noteq> None))"

definition owned :: "sysConfig \<Rightarrow> sysState \<Rightarrow> bool" where
  "owned C s \<longleftrightarrow> (sy_closed s \<longrightarrow> sy_tuns s = []) \<and> distinct (sy_tuns s) \<and>
     (case sy_defaultTun s of None \<Rightarrow> held s = noResources\<lparr>rs_tuns := set (sy_tuns s)\<rparr> | Some st \<Rightarrow> recorded C s st)"

lemma released_all:
  assumes "recorded C s st"
  shows "released C st (held s) = noResources\<lparr>rs_tuns := set (sy_tuns s)\<rparr>"
proof -
  have "rs_tuns (held s) - sopt (dt_tun st) = set (sy_tuns s)" "rs_servers (held s) - sopt (dt_server st) = {}"
    using assms by (auto simp: recorded_def Let_def)
  then show ?thesis using assms
    by (auto simp: released_def noResources_def recorded_def Let_def state_static_def sketch_rulesets_def tunRulesSupportedLocked_def split: if_splits)
qed

lemma defaultTun_Close_owned: "owned C s \<Longrightarrow> owned C (snd (defaultTun_Close H C d s))"
  by (cases "sy_defaultTun s") (simp_all add: defaultTun_Close_def owned_def closeActive_effect released_all)

lemma owned_neutral:
  assumes "owned C s" and "sy_defaultTun s' = sy_defaultTun s" and "sy_tuns s' = sy_tuns s" and "sy_closed s' = sy_closed s" and "held s' = held s"
  shows "owned C s'"
  using assms by (auto simp: owned_def recorded_def split: option.splits)

lemma regularTun_Close_owned: "owned C s \<Longrightarrow> owned C (snd (regularTun_Close H t s))"
  by (cases "sy_defaultTun s")
    (auto simp: regularTun_Close_def owned_def attempt_quiet track_def recorded_def noResources_def Let_def distinct_remove1 dest: notin_set_remove1)

lemma SetDNS_owned:
  assumes "owned C s"
  shows "owned C (snd (defaultTun_SetDNS H A d resolver s))"
proof (cases "sy_defaultTun s")
  case (Some st)
  have n: "track i h (case resolver of None \<Rightarrow> CallDetach sv | Some res \<Rightarrow> CallAttach sv res, a) = h" for i h sv a
    by (cases resolver) (simp_all add: track_def)
  show ?thesis using assms Some
    by (auto simp: defaultTun_SetDNS_def Let_def owned_def recorded_def state_static_def n split: option.splits)
qed (use assms in \<open>simp add: defaultTun_SetDNS_def\<close>)

lemma closeTuns_effect: "held (snd (foldl (\<lambda>r t. also_call H (CallTunClose t) r) r ts)) = (held (snd r))\<lparr>rs_tuns := rs_tuns (held (snd r)) - set ts\<rparr> \<and>
    sy_closed (snd (foldl (\<lambda>r t. also_call H (CallTunClose t) r) r ts)) = sy_closed (snd r) \<and>
    sy_defaultTun (snd (foldl (\<lambda>r t. also_call H (CallTunClose t) r) r ts)) = sy_defaultTun (snd r) \<and>
    sy_tuns (snd (foldl (\<lambda>r t. also_call H (CallTunClose t) r) r ts)) = sy_tuns (snd r)"
  by (induction ts arbitrary: r) (simp_all add: also_quiet track_def flip: Diff_insert2)

lemma closeExtra_effect: "held (snd (foldl (\<lambda>r i. onlyIf (f i) (also_call H (CallExtraClose i)) r) r is)) = held (snd r) \<and>
    sy_closed (snd (foldl (\<lambda>r i. onlyIf (f i) (also_call H (CallExtraClose i)) r) r is)) = sy_closed (snd r) \<and>
    sy_defaultTun (snd (foldl (\<lambda>r i. onlyIf (f i) (also_call H (CallExtraClose i)) r) r is)) = sy_defaultTun (snd r) \<and>
    sy_tuns (snd (foldl (\<lambda>r i. onlyIf (f i) (also_call H (CallExtraClose i)) r) r is)) = sy_tuns (snd r)"
  by (induction "is" arbitrary: r) (simp_all add: onlyIf_quiet track_def)

lemma System_Close_owned:
  assumes "owned C s"
  shows "owned C (snd (System_Close H C s))"
proof (cases "sy_closed s")
  case False
  define s1 where "s1 = quiet_call H CallLocalNetClose (quiet_call H CallOutNetClose (s\<lparr>sy_closed := True, sy_defaultTun := None, sy_tuns := []\<rparr>))"
  have h1: "held s1 = held s" "sy_closed s1" "sy_defaultTun s1 = None" "sy_tuns s1 = []" by (simp_all add: s1_def track_def)
  define s2 where "s2 = (case sy_defaultTun s of None \<Rightarrow> s1 | Some st \<Rightarrow> snd (closeActive H C st s1))"
  have h2: "held s2 = noResources\<lparr>rs_tuns := set (sy_tuns s)\<rparr>" "sy_closed s2" "sy_defaultTun s2 = None" "sy_tuns s2 = []"
    using assms h1 by (cases "sy_defaultTun s"; simp add: s2_def owned_def closeActive_effect released_all)+
  obtain r where r: "snd r = s2" "snd (System_Close H C s) = snd (foldl (\<lambda>r i. onlyIf (sc_extraClosers C ! i) (also_call H (CallExtraClose i)) r)
      (onlyIf (sc_killswitch C) (also_call H CallKillswitchClose) (onlyIf (sc_connmark C) (also_call H CallConnmarkClose)
        (onlyIf (sc_routingManager C) (also_call H CallRoutingClose) (onlyIf (sc_dnsProvider C) (also_call H CallDNSClose)
          (foldl (\<lambda>r t. also_call H (CallTunClose t) r) r (sy_tuns s)))))) (rev [0..<length (sc_extraClosers C)]))"
  proof (rule that)
    let ?r1 = "also_call H CallLocalNetClose (also_call H CallOutNetClose (None, s\<lparr>sy_closed := True, sy_defaultTun := None, sy_tuns := []\<rparr>))"
    let ?r = "case sy_defaultTun s of None \<Rightarrow> ?r1 | Some st \<Rightarrow> (case closeActive H C st (snd ?r1) of (e, s) \<Rightarrow> (errors_join [fst ?r1, e], s))"
    show "snd ?r = s2" by (auto simp: s2_def s1_def also_quiet split: option.split prod.split)
    show "snd (System_Close H C s) = snd (foldl (\<lambda>r i. onlyIf (sc_extraClosers C ! i) (also_call H (CallExtraClose i)) r)
      (onlyIf (sc_killswitch C) (also_call H CallKillswitchClose) (onlyIf (sc_connmark C) (also_call H CallConnmarkClose)
        (onlyIf (sc_routingManager C) (also_call H CallRoutingClose) (onlyIf (sc_dnsProvider C) (also_call H CallDNSClose)
          (foldl (\<lambda>r t. also_call H (CallTunClose t) r) ?r (sy_tuns s)))))) (rev [0..<length (sc_extraClosers C)]))"
      using False unfolding System_Close_def Let_def by simp
  qed
  show ?thesis unfolding owned_def r(2) using h2 by (simp add: closeExtra_effect closeTuns_effect r(1) onlyIf_quiet track_def noResources_def)
qed (use assms in \<open>simp add: System_Close_def\<close>)

section \<open>Building\<close>

text \<open>While a default TUN is built, everything held is in the variables or in the state.\<close>

definition servers_known :: "buildState \<Rightarrow> defaultTunState \<Rightarrow> bool" where
  "servers_known b st \<longleftrightarrow> rs_servers (held (b_sys b)) \<subseteq> sopt (b_server b) \<union> sopt (b_oldServer b) \<and> sopt (b_oldServer b) \<subseteq> sopt (dt_server st) \<and>
     (\<not> b_serverReplaced b \<longrightarrow> b_server b = b_oldServer b)"

definition building_with :: "sysConfig \<Rightarrow> buildState \<Rightarrow> defaultTunState \<Rightarrow> bool" where
  "building_with C b st \<longleftrightarrow> (let s = b_sys b; h = held s in
     sy_defaultTun s = Some st \<and> \<not> sy_closed s \<and> distinct (sy_tuns s) \<and> sc_dnsProvider C \<and> sc_routingManager C \<and> state_static C st \<and>
     dt_tun st \<noteq> None \<and> sopt (dt_tun st) \<inter> set (sy_tuns s) = {} \<and> (\<not> b_tunRecreated b \<longrightarrow> dt_tun st = Some (b_nativeTun b)) \<and>
     (b_tunRecreated b \<longrightarrow> dt_tun st = b_oldNativeTun b \<and> b_oldNativeTun b \<noteq> Some (b_nativeTun b)) \<and>
     b_nativeTun b \<notin> set (sy_tuns s) \<and> rs_tuns h = set (sy_tuns s) \<union> sopt (dt_tun st) \<union> {b_nativeTun b} \<and>
     servers_known b st \<and> rs_rules h = mset (b_ruleIDs b) + mset (dt_ruleIDs st) \<and> b_oldRuleIDs b = dt_ruleIDs st \<and> (\<not> sc_ruleTracker C \<longrightarrow> b_ruleIDs b = []) \<and>
     rs_rulesets h \<subseteq> sketch_rulesets (dt_killswitchID st) \<and> b_oldPmarkChecker b = dt_pmarkChecker st \<and>
     (rs_checker h \<longrightarrow> b_pmarkCheckerInstalled b \<or> dt_pmarkChecker st) \<and> (b_pmarkCheckerInstalled b \<longrightarrow> tunRulesSupportedLocked C) \<and>
     (pc_check (b_pmark b) \<longrightarrow> tunRulesSupportedLocked C) \<and>
     (rs_ifidx h \<longrightarrow> dt_dnsIfidxSet st) \<and> (rs_routing h \<longrightarrow> b_appliedRC b \<noteq> None \<or> dt_routingConfig st \<noteq> None))"

definition building :: "sysConfig \<Rightarrow> buildState \<Rightarrow> bool" where
  "building C b \<longleftrightarrow> (\<exists>st. building_with C b st)"

lemma buildingI: "building_with C b st \<Longrightarrow> building C b"
  by (auto simp: building_def)

lemma building_neutral:
  assumes "building_with C b st" and "\<And>i h a. track i h (c, a) = h"
  shows "building_with C (b\<lparr>b_sys := quiet_call H c (b_sys b)\<rparr>) st"
  using assms by (auto simp: building_with_def servers_known_def Let_def)

lemma building_servers:
  assumes "building_with C b st" and "held (b_sys b') = (held (b_sys b))\<lparr>rs_servers := S\<rparr>" and "servers_known b' st"
    and "b' = b\<lparr>b_sys := b_sys b', b_server := b_server b', b_oldServer := b_oldServer b', b_serverReplaced := b_serverReplaced b'\<rparr>"
    and "sy_defaultTun (b_sys b') = sy_defaultTun (b_sys b)" "sy_tuns (b_sys b') = sy_tuns (b_sys b)" "sy_closed (b_sys b') = sy_closed (b_sys b)"
  shows "building_with C b' st"
proof -
  have "b_nativeTun b' = b_nativeTun b" "b_oldNativeTun b' = b_oldNativeTun b" "b_tunRecreated b' = b_tunRecreated b" "b_oldRuleIDs b' = b_oldRuleIDs b"
    "b_oldPmarkChecker b' = b_oldPmarkChecker b" "b_pmarkCheckerInstalled b' = b_pmarkCheckerInstalled b" "b_ruleIDs b' = b_ruleIDs b"
    "b_appliedRC b' = b_appliedRC b" "b_pmark b' = b_pmark b" by (subst assms(4), simp)+
  then show ?thesis using assms(1-3,5-7) unfolding building_with_def Let_def by simp
qed

lemma try_quiet: "try_call H c b = (an_err (H (sy_log (b_sys b)) c), b\<lparr>b_sys := quiet_call H c (b_sys b)\<rparr>)"
  by (simp add: try_call_def attempt_quiet)

lemma building_try: "building C b \<Longrightarrow> (\<And>i h a. track i h (c, a) = h) \<Longrightarrow> building C (snd (try_call H c b))"
  unfolding building_def try_quiet snd_conv using building_neutral by blast

lemma releaseServer_ok: "building C b \<Longrightarrow> building C (snd (releaseServer H dnsIP b))"
proof -
  assume "building C b"
  then obtain st where b: "building_with C b st" by (auto simp: building_def)
  then have k: "servers_known b st" by (simp add: building_with_def Let_def)
  show ?thesis
  proof (cases "\<exists>sv. b_server b = Some sv \<and> b_tunRecreated b \<and> b_oldDNSIP b = dnsIP")
    case True
    then obtain sv where sv: "b_server b = Some sv" by blast
    let ?s = "quiet_call H (CallServerClose sv) (quiet_call H (CallDetach sv) (b_sys b))"
    have "servers_known (b\<lparr>b_sys := ?s\<rparr>) st" using k unfolding servers_known_def by (auto simp: track_def)
    then have 1: "building_with C (b\<lparr>b_sys := ?s\<rparr>) st" by (intro building_servers [OF b]) (simp_all add: track_def)
    have "servers_known (b\<lparr>b_sys := ?s, b_oldServer := None, b_server := None\<rparr>) st" if "b_oldServer b = b_server b"
      using k sv that unfolding servers_known_def by (auto simp: track_def)
    then have 2: "building_with C (b\<lparr>b_sys := ?s, b_oldServer := None, b_server := None\<rparr>) st" if "b_oldServer b = b_server b"
      using that by (intro building_servers [OF b]) (simp_all add: track_def)
    have "servers_known (b\<lparr>b_sys := ?s, b_server := None\<rparr>) st" if "b_oldServer b \<noteq> b_server b"
      using k sv that unfolding servers_known_def by (auto simp: track_def)
    then have 3: "building_with C (b\<lparr>b_sys := ?s, b_server := None\<rparr>) st" if "b_oldServer b \<noteq> b_server b"
      using that by (intro building_servers [OF b]) (simp_all add: track_def)
    have "snd (releaseServer H dnsIP b) = b\<lparr>b_sys := ?s\<rparr> \<or> snd (releaseServer H dnsIP b) =
        (if b_oldServer b = b_server b then b\<lparr>b_sys := ?s, b_oldServer := None, b_server := None\<rparr> else b\<lparr>b_sys := ?s, b_server := None\<rparr>)"
      using True sv by (cases "an_err (H (sy_log (quiet_call H (CallDetach sv) (b_sys b))) (CallServerClose sv))")
        (simp_all add: releaseServer_def try_quiet Let_def)
    then show ?thesis using 1 2 3 unfolding building_def by metis
  next
    case False
    then have "snd (releaseServer H dnsIP b) = b" by (auto simp: releaseServer_def split: option.split)
    then show ?thesis using b by (auto simp: building_def)
  qed
qed

lemma openServer_ok: "building C b \<Longrightarrow> b_serverReplaced b = False \<Longrightarrow> building C (snd (openServer H dnsIP b))"
proof -
  assume "building C b" and r: "b_serverReplaced b = False"
  then obtain st where b: "building_with C b st" by (auto simp: building_def)
  then have k: "servers_known b st" by (simp add: building_with_def Let_def)
  let ?s1 = "quiet_call H (CallPacketListen (addrString dnsIP)) (b_sys b)" and ?s2 = "quiet_call H CallNewServer (quiet_call H (CallPacketListen (addrString dnsIP)) (b_sys b))"
  let ?sv = "length (sy_log ?s1)"
  define s3 where "s3 = (case b_oldResolver b of None \<Rightarrow> ?s2 | Some res \<Rightarrow> quiet_call H (CallAttach ?sv res) ?s2)"
  let ?b3 = "b\<lparr>b_sys := s3, b_server := Some ?sv, b_serverReplaced := True\<rparr>"
  have h3: "held s3 = (held (b_sys b))\<lparr>rs_servers := insert ?sv (rs_servers (held (b_sys b)))\<rparr>"
    by (cases "b_oldResolver b") (simp_all add: s3_def track_def)
  have "servers_known ?b3 st" using k r unfolding servers_known_def by (auto simp: h3)
  moreover have "sy_defaultTun s3 = sy_defaultTun (b_sys b)" "sy_tuns s3 = sy_tuns (b_sys b)" "sy_closed s3 = sy_closed (b_sys b)"
    by (cases "b_oldResolver b"; simp add: s3_def)+
  ultimately have 3: "building_with C ?b3 st" using h3 by (intro building_servers [OF b]) simp_all
  have 1: "building_with C (b\<lparr>b_sys := ?s1\<rparr>) st" by (rule building_neutral [OF b]) (simp add: track_def)
  have "snd (openServer H dnsIP b) \<in> {b, b\<lparr>b_sys := ?s1\<rparr>, ?b3}"
    by (cases "an_err (H (sy_log (b_sys b)) (CallPacketListen (addrString dnsIP)))"; cases "b_oldResolver b") (simp_all add: openServer_def try_quiet Let_def s3_def)
  then show ?thesis using buildingI [OF b] buildingI [OF 1] buildingI [OF 3] by auto
qed

text \<open>Registering rules leaks nothing when every rule compiles and the exact form of each command rule can be computed.\<close>

definition rules_fine :: "sysConfig \<Rightarrow> sysRule list \<Rightarrow> bool" where
  "rules_fine C rules \<longleftrightarrow> (\<forall>r \<in> set rules. (\<exists>c. compileRule (sc_rules C) r = Inr c) \<and> (sr_Type r = ''comm'' \<longrightarrow> (\<exists>x. sc_exactComm C (sr_Rule r) = Inr x)))"

lemma checkerLoop_held:
  assumes "rules_fine C rules" and "checkerLoop H C ids exact fb rules s = (r, s')"
  shows "\<exists>ids' x. r = Inr (ids', x) \<and> held s' = (held s)\<lparr>rs_rules := rs_rules (held s')\<rparr> \<and> mset ids' + rs_rules (held s) = mset ids + rs_rules (held s') \<and>
    sy_defaultTun s' = sy_defaultTun s \<and> sy_tuns s' = sy_tuns s \<and> sy_closed s' = sy_closed s"
  using assms
proof (induction rules arbitrary: ids exact fb s)
  case (Cons rule rules)
  let ?s = "quiet_call H (CallRegisterRule rule) s" and ?id = "of_int (an_num (H (sy_log s) (CallRegisterRule rule))) :: u64"
  have fine: "rules_fine C rules" using Cons.prems(1) by (simp add: rules_fine_def)
  have h: "held ?s = (held s)\<lparr>rs_rules := add_mset ?id (rs_rules (held s))\<rparr>" by (simp add: track_def)
  obtain exact' fb' where "checkerLoop H C (ids @ [?id]) exact' fb' rules ?s = (r, s')"
    using Cons.prems by (auto simp: rules_fine_def call_quiet Let_def split: if_splits sum.splits)
  from Cons.IH [OF fine this] obtain ids' x where i: "r = Inr (ids', x)" "held s' = (held ?s)\<lparr>rs_rules := rs_rules (held s')\<rparr>"
    "mset ids' + rs_rules (held ?s) = mset (ids @ [?id]) + rs_rules (held s')"
    "sy_defaultTun s' = sy_defaultTun s" "sy_tuns s' = sy_tuns s" "sy_closed s' = sy_closed s" by auto
  have "held s' = (held s)\<lparr>rs_rules := rs_rules (held s')\<rparr>" using i(2) unfolding h by simp
  moreover have "mset ids' + rs_rules (held s) = mset ids + rs_rules (held s')" using i(3) unfolding h by simp
  ultimately show ?case using i by blast
qed auto

lemma registerRules_ok:
  assumes "building C b" and "rules_fine C (if do_Include opts \<noteq> [] then do_Include opts else do_Exclude opts)" and "b_ruleIDs b = []"
  shows "building C (snd (registerRules H C opts b))"
proof (cases "tunRulesSupportedLocked C")
  case True
  then have tr: "sc_ruleTracker C" by (simp add: tunRulesSupportedLocked_def)
  obtain st where b: "building_with C b st" using assms(1) by (auto simp: building_def)
  obtain r s' where d: "defaultTunChecker H C opts (b_sys b) = (r, s')" by (metis surj_pair)
  show ?thesis
  proof (cases "sc_pmarkPriority C < -128 \<or> sc_pmarkPriority C > 127")
    case bad: True
    then have "snd (registerRules H C opts b) = b" using True tr by (simp add: registerRules_def defaultTunChecker_def Let_def)
    then show ?thesis using assms(1) by simp
  next
    case False
    obtain r0 s0 where l: "checkerLoop H C [] [] False (if do_Include opts \<noteq> [] then do_Include opts else do_Exclude opts) (b_sys b) = (r0, s0)"
      by (metis surj_pair)
    from checkerLoop_held [OF assms(2) l] obtain ids x where i: "r0 = Inr (ids, x)" "held s0 = (held (b_sys b))\<lparr>rs_rules := rs_rules (held s0)\<rparr>"
      "mset ids + rs_rules (held (b_sys b)) = rs_rules (held s0)" "sy_defaultTun s0 = sy_defaultTun (b_sys b)" "sy_tuns s0 = sy_tuns (b_sys b)"
      "sy_closed s0 = sy_closed (b_sys b)" by auto
    obtain pc where pc: "r = Inr pc" "s' = s0" "pc_ruleIDs pc = ids"
      using d l i(1) tr False by (cases x) (auto simp: defaultTunChecker_def Let_def)
    have "rs_tuns (held s0) = rs_tuns (held (b_sys b))" "rs_servers (held s0) = rs_servers (held (b_sys b))" "rs_rulesets (held s0) = rs_rulesets (held (b_sys b))"
      "rs_checker (held s0) = rs_checker (held (b_sys b))" "rs_ifidx (held s0) = rs_ifidx (held (b_sys b))" "rs_routing (held s0) = rs_routing (held (b_sys b))"
      by (subst i(2), simp)+
    then have "building_with C (b\<lparr>b_sys := s0, b_pmark := pc, b_ruleIDs := ids\<rparr>) st"
      using b i(3-) True tr assms(3) unfolding building_with_def servers_known_def Let_def by auto
    moreover have "snd (registerRules H C opts b) = b\<lparr>b_sys := s0, b_pmark := pc, b_ruleIDs := ids\<rparr>"
      using True d pc by (simp add: registerRules_def)
    ultimately show ?thesis by (auto simp: building_def)
  qed
qed (use assms in \<open>simp add: registerRules_def\<close>)

lemma installChecker_ok: "building C b \<Longrightarrow> building C (snd (installChecker H C b))"
proof -
  assume "building C b"
  then obtain st where b: "building_with C b st" by (auto simp: building_def)
  let ?c = "if sc_kernelPolicy C then CallSetKernelPolicy (pc_kernelPolicy (b_pmark b)) else CallSetChecker True"
  let ?b1 = "b\<lparr>b_sys := quiet_call H ?c (b_sys b)\<rparr>"
  have 1: "building_with C ?b1 st" if "an_err (H (sy_log (b_sys b)) ?c) = Some e" for e
    using b that unfolding building_with_def servers_known_def Let_def by (cases "sc_kernelPolicy C") (simp_all add: track_def)
  have 2: "building_with C (?b1\<lparr>b_pmarkCheckerInstalled := True\<rparr>) st" if "pc_check (b_pmark b)"
    using b that unfolding building_with_def servers_known_def Let_def by (cases "sc_kernelPolicy C") (simp_all add: track_def)
  have 3: "building C (snd (try_call H CallForceProcessTraversal (?b1\<lparr>b_pmarkCheckerInstalled := True\<rparr>)))" if "pc_check (b_pmark b)"
    by (rule building_try [OF buildingI [OF 2 [OF that]]]) (simp add: track_def)
  have "snd (installChecker H C b) = (if \<not> pc_check (b_pmark b) then b else if an_err (H (sy_log (b_sys b)) ?c) \<noteq> None then ?b1
      else snd (try_call H CallForceProcessTraversal (?b1\<lparr>b_pmarkCheckerInstalled := True\<rparr>)))"
    by (simp add: installChecker_def try_quiet split: option.split)
  then show ?thesis using buildingI [OF b] buildingI [OF 1] 3 by (auto split: if_splits)
qed

lemma readIndex_ok: "building C b \<Longrightarrow> building C (snd (readIndex H b))"
proof -
  assume "building C b"
  then obtain st where b: "building_with C b st" by (auto simp: building_def)
  then have "building_with C (snd (readIndex H b)) st" unfolding building_with_def servers_known_def Let_def readIndex_def call_quiet by (auto simp: track_def)
  then show ?thesis by (auto simp: building_def)
qed

lemma dnsInterface_ok: "building C b \<Longrightarrow> building C (snd (setDefaultTunDNSInterface H C b))"
proof -
  assume "building C b"
  then obtain st where b: "building_with C b st" by (auto simp: building_def)
  let ?b1 = "b\<lparr>b_sys := quiet_call H (CallSetInterfaceIndex (b_index b)) (b_sys b)\<rparr>"
  have 1: "building_with C ?b1 st" if "an_err (H (sy_log (b_sys b)) (CallSetInterfaceIndex (b_index b))) = Some e" for e
    using b that unfolding building_with_def servers_known_def Let_def by (simp add: track_def)
  have 2: "building_with C (?b1\<lparr>b_sys := updState (\<lambda>st. st\<lparr>dt_dnsIfidxSet := True\<rparr>) (b_sys ?b1)\<rparr>) (st\<lparr>dt_dnsIfidxSet := True\<rparr>)" if "sc_dnsIndexer C"
    using b that unfolding building_with_def servers_known_def Let_def by (simp add: track_def state_static_def)
  have "snd (setDefaultTunDNSInterface H C b) = (if \<not> sc_dnsIndexer C then b
      else if an_err (H (sy_log (b_sys b)) (CallSetInterfaceIndex (b_index b))) \<noteq> None then ?b1
      else ?b1\<lparr>b_sys := updState (\<lambda>st. st\<lparr>dt_dnsIfidxSet := True\<rparr>) (b_sys ?b1)\<rparr>)"
    by (simp add: setDefaultTunDNSInterface_def try_quiet split: option.split)
  then show ?thesis using buildingI [OF b] buildingI [OF 1] buildingI [OF 2] by (auto split: if_splits)
qed

lemma applyRouting_ok: "building C b \<Longrightarrow> building C (snd (applyRouting H rc b))"
proof -
  assume "building C b"
  then obtain st where b: "building_with C b st" by (auto simp: building_def)
  let ?c = "CallApply (rc (b_index b))"
  let ?b1 = "b\<lparr>b_sys := quiet_call H ?c (b_sys b)\<rparr>"
  let ?b2 = "b\<lparr>b_sys := quiet_call H (CallRollback (rc (b_index b))) (quiet_call H ?c (b_sys b))\<rparr>"
  have 1: "building_with C (?b1\<lparr>b_appliedRC := Some (rc (b_index b))\<rparr>) st"
    using b unfolding building_with_def servers_known_def Let_def by (simp add: track_def)
  have 2: "building_with C ?b1 st" if "an_err (H (sy_log (b_sys b)) ?c) = Some e" "\<not> errors_is e ErrApplyFailedGuardActive" for e
    using b that unfolding building_with_def servers_known_def Let_def by (simp add: track_def)
  have 3: "building_with C ?b2 st"
    using b unfolding building_with_def servers_known_def Let_def by (simp add: track_def)
  have "snd (applyRouting H rc b) = (case an_err (H (sy_log (b_sys b)) ?c) of None \<Rightarrow> ?b1\<lparr>b_appliedRC := Some (rc (b_index b))\<rparr>
      | Some e \<Rightarrow> if errors_is e ErrApplyFailedGuardActive then ?b2 else ?b1)"
    by (simp add: applyRouting_def try_quiet Let_def split: option.split)
  then show ?thesis using buildingI [OF 1] buildingI [OF 2] buildingI [OF 3] by (auto split: option.splits if_splits)
qed

lemma applyConnmark_ok: "building C b \<Longrightarrow> building C (snd (applyConnmark H C b))"
proof -
  assume "building C b"
  then obtain st where b: "building_with C b st" by (auto simp: building_def)
  let ?c = "CallConnmarkApply \<lparr>cm_Marks = [\<lparr>mk_Value = sc_appBypassMark C, mk_Mask = sc_appBypassMask C\<rparr>,
          \<lparr>mk_Value = sc_userMark C, mk_Mask = sc_userMarkMask C\<rparr>]\<rparr>"
  let ?b1 = "b\<lparr>b_sys := quiet_call H ?c (b_sys b)\<rparr>"
  have s: "building_with C (b\<lparr>b_connmarkSet := x\<rparr>) st" if "building_with C b st" for x b using that by (simp add: building_with_def servers_known_def)
  have 1: "building_with C ?b1 st" by (rule building_neutral [OF b]) (simp add: track_def)
  have "snd (applyConnmark H C b) \<in> {b\<lparr>b_connmarkSet := False\<rparr>, ?b1, ?b1\<lparr>b_connmarkSet := True\<rparr>, ?b1\<lparr>b_connmarkSet := False\<rparr>}"
    by (simp add: applyConnmark_def try_quiet split: option.split)
  then show ?thesis using buildingI [OF s [OF b]] buildingI [OF 1] buildingI [OF s [OF 1]] by auto
qed

text \<open>The client of the killswitch daemon numbers its rulesets from one, so that it never gives the identifier zero.\<close>

definition ruleset_ids :: "host \<Rightarrow> bool" where
  "ruleset_ids H \<longleftrightarrow> (\<forall>log rules. (of_int (an_num (H log (CallCreateTMPRuleset rules))) :: u64) \<noteq> 0)"

lemma updateKillswitch_ok: "building C b \<Longrightarrow> ruleset_ids H \<Longrightarrow> building C (snd (updateKillswitch H C mode b))"
proof -
  assume "building C b" and ids: "ruleset_ids H"
  then obtain st where b: "building_with C b st" by (auto simp: building_def)
  then have st: "sy_defaultTun (b_sys b) = Some st" by (simp add: building_with_def Let_def)
  let ?id = "dt_killswitchID st" and ?R = "killswitchRules C mode"
  let ?c = "if ?id = 0 then CallCreateTMPRuleset ?R else CallUpdateTMPRuleset ?id ?R"
  let ?a = "H (sy_log (b_sys b)) ?c" and ?s1 = "quiet_call H ?c (b_sys b)"
  let ?n = "if ?id = 0 then of_int (an_num ?a) else ?id"
  have nz: "?n \<noteq> 0" using ids by (simp add: ruleset_ids_def)
  have 1: "building_with C (b\<lparr>b_sys := ?s1\<rparr>) st" if "an_err ?a = Some e" for e
    using b that unfolding building_with_def servers_known_def Let_def by (cases "?id = 0") (simp_all add: track_def)
  have 2: "building_with C (b\<lparr>b_sys := updState (\<lambda>st. st\<lparr>dt_killswitchID := ?n\<rparr>) ?s1\<rparr>) (st\<lparr>dt_killswitchID := ?n\<rparr>)" if "an_err ?a = None" "sc_killswitch C"
  proof -
    have "rs_rulesets (held ?s1) \<subseteq> sketch_rulesets ?n"
      using b that nz unfolding building_with_def Let_def by (cases "?id = 0") (auto simp: track_def sketch_rulesets_def)
    moreover have "held ?s1 = (held (b_sys b))\<lparr>rs_rulesets := rs_rulesets (held ?s1)\<rparr>" by (simp add: track_def)
    ultimately show ?thesis using b that unfolding building_with_def servers_known_def Let_def
      by (cases "?id = 0") (simp_all add: track_def state_static_def)
  qed
  have "snd (updateKillswitch H C mode b) = (if \<not> ft_Killswitch (sc_features C) \<or> \<not> sc_killswitch C then b
      else if an_err ?a \<noteq> None then b\<lparr>b_sys := ?s1\<rparr> else b\<lparr>b_sys := updState (\<lambda>st. st\<lparr>dt_killswitchID := ?n\<rparr>) ?s1\<rparr>)"
    using st by (cases "an_err ?a") (simp_all add: updateKillswitch_def call_quiet Let_def)
  then show ?thesis using buildingI [OF b] buildingI [OF 1] buildingI [OF 2] by (auto split: if_splits)
qed

definition serverClosed :: "host \<Rightarrow> serverObj option \<Rightarrow> sysState \<Rightarrow> sysState" where
  "serverClosed H sv s = snd (closeServer H sv (None, s))"

lemma closeServer_state: "snd (closeServer H sv r) = serverClosed H sv (snd r)"
  by (cases sv) (simp_all add: serverClosed_def closeServer_def also_quiet)

lemma serverClosed_effect: "held (serverClosed H sv s) = (held s)\<lparr>rs_servers := rs_servers (held s) - sopt sv\<rparr>"
    "sy_defaultTun (serverClosed H sv s) = sy_defaultTun s" "sy_tuns (serverClosed H sv s) = sy_tuns s" "sy_closed (serverClosed H sv s) = sy_closed s"
  by (simp_all add: serverClosed_def closeServer_held)

lemma building_parts:
  assumes "building_with C b st"
  shows "\<not> sy_closed (b_sys b)" "distinct (sy_tuns (b_sys b))" "sc_dnsProvider C" "sc_routingManager C" "state_static C st"
    "\<exists>t. dt_tun st = Some t \<and> t \<notin> set (sy_tuns (b_sys b))" "b_nativeTun b \<notin> set (sy_tuns (b_sys b))"
    "rs_rulesets (held (b_sys b)) \<subseteq> sketch_rulesets (dt_killswitchID st)" "b_oldPmarkChecker b = dt_pmarkChecker st"
    "rs_checker (held (b_sys b)) \<longrightarrow> b_pmarkCheckerInstalled b \<or> dt_pmarkChecker st"
    "rs_ifidx (held (b_sys b)) \<longrightarrow> dt_dnsIfidxSet st" "rs_routing (held (b_sys b)) \<longrightarrow> b_appliedRC b \<noteq> None \<or> dt_routingConfig st \<noteq> None"
  using assms unfolding building_with_def Let_def by (auto simp del: not_None_eq)

lemma recordedI:
  assumes "\<not> sy_closed s" "sc_dnsProvider C" "sc_routingManager C" "state_static C st" "dt_tun st = Some t" "t \<notin> set (sy_tuns s)"
    "rs_tuns (held s) = set (sy_tuns s) \<union> {t}" "rs_servers (held s) \<subseteq> sopt (dt_server st)" "rs_rules (held s) = mset (dt_ruleIDs st)"
    "rs_rulesets (held s) \<subseteq> sketch_rulesets (dt_killswitchID st)" "rs_checker (held s) \<Longrightarrow> dt_pmarkChecker st"
    "rs_ifidx (held s) \<Longrightarrow> dt_dnsIfidxSet st" "rs_routing (held s) \<Longrightarrow> dt_routingConfig st \<noteq> None"
  shows "recorded C s st"
  using assms by (simp add: recorded_def Let_def)

text \<open>Failing releases everything.\<close>

lemma buildFail_owned:
  assumes "building C b"
  shows "owned C (snd (buildFail H C err b))"
proof -
  obtain st where b: "building_with C b st" using assms by (auto simp: building_def)
  define s1 where "s1 = maybe_call (b_tunRecreated b) H (CallTunClose (b_nativeTun b)) (b_sys b)"
  define s2 where "s2 = unregisterRules H C (b_ruleIDs b) s1"
  define s3 where "s3 = (if b_serverReplaced b then serverClosed H (b_server b) s2 else s2)"
  define s4 where "s4 = maybe_call (\<not> b_oldPmarkChecker b \<and> b_pmarkCheckerInstalled b) H (CallSetChecker False) s3"
  define s5 where "s5 = (case b_appliedRC b of None \<Rightarrow> s4 | Some rc \<Rightarrow> updState (\<lambda>st. st\<lparr>dt_routingConfig := Some rc\<rparr>) s4)"
  define s6 where "s6 = maybe_call (b_connmarkSet b \<and> sc_connmark C) H CallConnmarkRollback s5"
  define st' where "st' = (case b_appliedRC b of None \<Rightarrow> st | Some rc \<Rightarrow> st\<lparr>dt_routingConfig := Some rc\<rparr>)"
  have f: "sy_defaultTun s4 = Some st" "sy_tuns s4 = sy_tuns (b_sys b)" "sy_closed s4 = sy_closed (b_sys b)"
    using b by (auto simp: s4_def s3_def s2_def s1_def building_with_def serverClosed_effect Let_def)
  have f6: "sy_defaultTun s6 = Some st'" "sy_tuns s6 = sy_tuns (b_sys b)" "sy_closed s6 = sy_closed (b_sys b)"
    using f by (cases "b_appliedRC b"; simp add: s6_def s5_def st'_def)+
  have final: "snd (buildFail H C err b) = snd (closeActive H C st' (s6\<lparr>sy_defaultTun := None\<rparr>))"
  proof -
    define r1 where "r1 = onlyIf (b_tunRecreated b) (also_call H (CallTunClose (b_nativeTun b))) (Some err, b_sys b)"
    define r3 where "r3 = (if b_serverReplaced b then closeServer H (b_server b) (fst r1, unregisterRules H C (b_ruleIDs b) (snd r1))
      else (fst r1, unregisterRules H C (b_ruleIDs b) (snd r1)))"
    define r4 where "r4 = onlyIf (\<not> b_oldPmarkChecker b \<and> b_pmarkCheckerInstalled b) (also_call H (CallSetChecker False)) r3"
    define r5 where "r5 = (case b_appliedRC b of None \<Rightarrow> r4 | Some rc \<Rightarrow> (fst r4, updState (\<lambda>st. st\<lparr>dt_routingConfig := Some rc\<rparr>) (snd r4)))"
    define r6 where "r6 = onlyIf (b_connmarkSet b \<and> sc_connmark C) (also_call H CallConnmarkRollback) r5"
    have "snd r1 = s1" by (simp add: r1_def s1_def onlyIf_quiet)
    then have "snd r3 = s3" by (simp add: r3_def s3_def s2_def closeServer_state)
    then have "snd r4 = s4" by (simp add: r4_def s4_def onlyIf_quiet)
    then have "snd r5 = s5" by (simp add: r5_def s5_def split: option.split)
    then have r6: "snd r6 = s6" by (simp add: r6_def s6_def onlyIf_quiet)
    have "buildFail H C err b = (case sy_defaultTun (snd r6) of None \<Rightarrow> r6
        | Some st \<Rightarrow> (case closeActive H C st ((snd r6)\<lparr>sy_defaultTun := None\<rparr>) of (e, s) \<Rightarrow> (errors_join [fst r6, e], s)))"
      unfolding buildFail_def Let_def r6_def r5_def r4_def r3_def r1_def by simp
    then show ?thesis using f6(1) by (simp add: r6 split: prod.split)
  qed
  have h2: "held s2 = (held (b_sys b))\<lparr>rs_tuns := rs_tuns (held (b_sys b)) - (if b_tunRecreated b then {b_nativeTun b} else {}),
      rs_rules := mset (dt_ruleIDs st)\<rparr>"
    using b by (auto simp: s2_def s1_def unregister_held track_def building_with_def state_static_def Let_def)
  have h6: "held s6 = (held s2)\<lparr>rs_servers := rs_servers (held s2) - (if b_serverReplaced b then sopt (b_server b) else {}),
      rs_checker := rs_checker (held s2) \<and> \<not> (\<not> b_oldPmarkChecker b \<and> b_pmarkCheckerInstalled b)\<rparr>"
    by (cases "b_appliedRC b") (simp_all add: s6_def s5_def s4_def s3_def serverClosed_effect track_def)
  have "rs_tuns (held s6) = set (sy_tuns (b_sys b)) \<union> sopt (dt_tun st)"
    using b unfolding h6 h2 building_with_def Let_def by auto
  moreover have "servers_known b st" using b by (simp add: building_with_def Let_def)
  then have "rs_servers (held s6) \<subseteq> sopt (dt_server st)" unfolding h6 h2 servers_known_def
    by (cases "b_serverReplaced b"; simp; blast)
  moreover have "dt_tun st' = dt_tun st" "dt_server st' = dt_server st" "dt_ruleIDs st' = dt_ruleIDs st" "dt_killswitchID st' = dt_killswitchID st"
    "dt_pmarkChecker st' = dt_pmarkChecker st" "dt_dnsIfidxSet st' = dt_dnsIfidxSet st" "state_static C st' = state_static C st"
    "dt_routingConfig st' \<noteq> None \<longleftrightarrow> b_appliedRC b \<noteq> None \<or> dt_routingConfig st \<noteq> None"
    by (cases "b_appliedRC b"; simp add: st'_def state_static_def)+
  moreover note p = building_parts [OF b]
  obtain t where t: "dt_tun st = Some t" "t \<notin> set (sy_tuns (b_sys b))" using p(6) by blast
  ultimately have "recorded C s6 st'"
    using p(1-5,8-12) t f6 by (intro recordedI [where t = t]) (simp_all add: h6 h2, blast)
  from released_all [OF this] show ?thesis using b f6 unfolding final
    by (simp add: owned_def closeActive_effect building_with_def Let_def)
qed

text \<open>The state that is stored records everything.\<close>

lemma finishBuild_owned:
  assumes "building C b" and "b_pmarkCheckerInstalled b = tunRulesSupportedLocked C"
  shows "owned C (finishBuild H C opts addrs dnsIP routes srs b)"
proof -
  obtain st where b: "building_with C b st" using assms by (auto simp: building_def)
  define s1 where "s1 = (if b_tunRecreated b then (b_sys b)\<lparr>sy_sourceGeneration := sy_sourceGeneration (b_sys b) + 1\<rparr> else b_sys b)"
  define upd where "upd = (\<lambda>st :: defaultTunState. (if b_tunRecreated b then st\<lparr>dt_sourceGeneration := sy_sourceGeneration s1, dt_tun := Some (b_nativeTun b)\<rparr> else st)
            \<lparr>dt_server := b_server b, dt_dnsIP := dnsIP, dt_ruleIDs := b_ruleIDs b, dt_routingConfig := Some (buildConfig C opts (b_index b) addrs routes srs),
             dt_pmarkChecker := b_pmarkCheckerInstalled b, dt_dnsIfidxSet := sc_dnsIndexer C, dt_connmarkSet := b_connmarkSet b,
             dt_generation := dt_generation st + 1, dt_addrs := addrs, dt_routes := routes\<rparr>)"
  define s3 where "s3 = (case b_oldNativeTun b of Some t \<Rightarrow> if b_tunRecreated b then quiet_call H (CallTunClose t) (updState upd s1) else updState upd s1
    | None \<Rightarrow> updState upd s1)"
  define s4 where "s4 = unregisterRules H C (b_oldRuleIDs b) s3"
  define s5 where "s5 = (if b_serverReplaced b then serverClosed H (b_oldServer b) s4 else s4)"
  have final: "finishBuild H C opts addrs dnsIP routes srs b = s5"
    unfolding finishBuild_def Let_def s5_def s4_def s3_def upd_def s1_def by (simp add: closeServer_state cong: option.case_cong)
  have f1: "sy_defaultTun s1 = Some st" "sy_tuns s1 = sy_tuns (b_sys b)" "sy_closed s1 = sy_closed (b_sys b)" "held s1 = held (b_sys b)"
    using b by (simp_all add: s1_def building_with_def Let_def)
  have f3: "sy_defaultTun s3 = Some (upd st)" "sy_tuns s3 = sy_tuns (b_sys b)" "sy_closed s3 = sy_closed (b_sys b)"
    using f1 by (cases "b_oldNativeTun b"; simp add: s3_def)+
  then have f5: "sy_defaultTun s5 = Some (upd st)" "sy_tuns s5 = sy_tuns (b_sys b)" "sy_closed s5 = sy_closed (b_sys b)"
    by (simp_all add: s5_def s4_def serverClosed_effect)
  have h3: "held s3 = (held (b_sys b))\<lparr>rs_tuns := rs_tuns (held (b_sys b)) - (if b_tunRecreated b then sopt (b_oldNativeTun b) else {})\<rparr>"
    using f1 by (cases "b_oldNativeTun b") (simp_all add: s3_def track_def)
  have h5: "held s5 = (held s3)\<lparr>rs_rules := mset (b_ruleIDs b), rs_servers := rs_servers (held s3) - (if b_serverReplaced b then sopt (b_oldServer b) else {})\<rparr>"
    using b by (auto simp: s5_def s4_def serverClosed_effect unregister_held building_with_def state_static_def Let_def h3)
  have "dt_tun (upd st) = Some (b_nativeTun b)" using b by (cases "b_tunRecreated b") (simp_all add: upd_def building_with_def Let_def)
  moreover have "rs_tuns (held s5) = set (sy_tuns (b_sys b)) \<union> {b_nativeTun b}"
    using b unfolding h5 h3 building_with_def Let_def by (cases "b_tunRecreated b") auto
  moreover have "servers_known b st" using b by (simp add: building_with_def Let_def)
  then have "rs_servers (held s5) \<subseteq> sopt (b_server b)" unfolding h5 h3 servers_known_def
    by (cases "b_serverReplaced b"; simp; blast)
  moreover have "dt_server (upd st) = b_server b" "dt_ruleIDs (upd st) = b_ruleIDs b" "dt_killswitchID (upd st) = dt_killswitchID st"
    "dt_pmarkChecker (upd st) = b_pmarkCheckerInstalled b" "dt_dnsIfidxSet (upd st) = sc_dnsIndexer C" "dt_routingConfig (upd st) \<noteq> None"
    by (simp_all add: upd_def)
  moreover have "state_static C (upd st)" using b by (simp add: state_static_def upd_def building_with_def Let_def)
  moreover have "dt_dnsIfidxSet st \<longrightarrow> sc_dnsIndexer C" "dt_pmarkChecker st \<longrightarrow> b_pmarkCheckerInstalled b"
    using b assms(2) by (simp_all add: building_with_def state_static_def Let_def)
  moreover note p = building_parts [OF b]
  ultimately have "recorded C s5 (upd st)"
    using p(1-5,7-12) f5 by (intro recordedI [where t = "b_nativeTun b"]) (auto simp: h5 h3)
  then show ?thesis using b f5 unfolding final by (simp add: owned_def recorded_def building_with_def Let_def)
qed

text \<open>The steps: what each needs, and what it leaves when it succeeds. When it fails, everything held is still known.\<close>

definition triple :: "sysConfig \<Rightarrow> (buildState \<Rightarrow> bool) \<Rightarrow> (buildState \<Rightarrow> goError option \<times> buildState) list \<Rightarrow> (buildState \<Rightarrow> bool) \<Rightarrow> bool" where
  "triple C P fs Q \<longleftrightarrow> (\<forall>b. P b \<longrightarrow> building C (snd (steps fs b)) \<and> (fst (steps fs b) = None \<longrightarrow> Q (snd (steps fs b))))"

lemma triple_nil: "(\<And>b. P b \<Longrightarrow> building C b) \<Longrightarrow> triple C P [] P"
  by (simp add: triple_def)

lemma triple_step:
  assumes "\<And>b. P b \<Longrightarrow> building C (snd (f b)) \<and> (fst (f b) = None \<longrightarrow> Q (snd (f b)))" and "triple C Q fs R"
  shows "triple C P (f # fs) R"
  unfolding triple_def
proof (intro allI impI)
  fix b assume "P b"
  obtain e b' where f: "f b = (e, b')" by (cases "f b")
  then have "building C b'" "e = None \<Longrightarrow> Q b'" using assms(1) [OF \<open>P b\<close>] by simp_all
  then show "building C (snd (steps (f # fs) b)) \<and> (fst (steps (f # fs) b) = None \<longrightarrow> R (snd (steps (f # fs) b)))"
    using assms(2) f by (cases e) (auto simp: triple_def)
qed

definition early :: "sysConfig \<Rightarrow> buildState \<Rightarrow> bool" where
  "early C b \<longleftrightarrow> building C b \<and> \<not> b_serverReplaced b \<and> b_ruleIDs b = []"

definition unruled :: "sysConfig \<Rightarrow> buildState \<Rightarrow> bool" where
  "unruled C b \<longleftrightarrow> building C b \<and> b_ruleIDs b = []"

definition ruled :: "sysConfig \<Rightarrow> buildState \<Rightarrow> bool" where
  "ruled C b \<longleftrightarrow> building C b \<and> pc_check (b_pmark b) = tunRulesSupportedLocked C"

definition late :: "sysConfig \<Rightarrow> buildState \<Rightarrow> bool" where
  "late C b \<longleftrightarrow> building C b \<and> b_pmarkCheckerInstalled b = tunRulesSupportedLocked C"

lemma early_try: "early C b \<Longrightarrow> (\<And>i h a. track i h (c, a) = h) \<Longrightarrow> building C (snd (try_call H c b)) \<and> (fst (try_call H c b) = None \<longrightarrow> early C (snd (try_call H c b)))"
  using building_try [of C b c H] by (simp add: early_def try_quiet)

lemma late_try: "late C b \<Longrightarrow> (\<And>i h a. track i h (c, a) = h) \<Longrightarrow> building C (snd (try_call H c b)) \<and> (fst (try_call H c b) = None \<longrightarrow> late C (snd (try_call H c b)))"
  using building_try [of C b c H] by (simp add: late_def try_quiet)

lemma release_frame: "b_serverReplaced (snd (releaseServer H dnsIP b)) = b_serverReplaced b" "b_ruleIDs (snd (releaseServer H dnsIP b)) = b_ruleIDs b"
  by (auto simp: releaseServer_def try_quiet Let_def split: option.split)

lemma open_frame: "b_ruleIDs (snd (openServer H dnsIP b)) = b_ruleIDs b"
  by (auto simp: openServer_def try_quiet Let_def split: option.split)

lemma register_check: "unruled C b \<Longrightarrow> fst (registerRules H C opts b) = None \<Longrightarrow> pc_check (b_pmark (snd (registerRules H C opts b))) = tunRulesSupportedLocked C"
proof (cases "tunRulesSupportedLocked C")
  case True
  moreover obtain r s' where d: "defaultTunChecker H C opts (b_sys b) = (r, s')" by (metis surj_pair)
  moreover assume "fst (registerRules H C opts b) = None"
  ultimately obtain pc where "r = Inr pc" by (cases r) (auto simp: registerRules_def)
  moreover have "pc_check pc" if "defaultTunChecker H C opts (b_sys b) = (Inr pc, s')"
    using that True by (auto simp: defaultTunChecker_def Let_def tunRulesSupportedLocked_def split: if_splits prod.splits sum.splits)
  ultimately show ?thesis using d True by (simp add: registerRules_def)
next
  case False
  moreover assume "unruled C b"
  ultimately show ?thesis by (auto simp: registerRules_def unruled_def building_def building_with_def Let_def)
qed

lemma install_check: "ruled C b \<Longrightarrow> fst (installChecker H C b) = None \<Longrightarrow> b_pmarkCheckerInstalled (snd (installChecker H C b)) = tunRulesSupportedLocked C"
  by (auto simp: installChecker_def try_quiet ruled_def building_def building_with_def Let_def split: option.splits if_splits)

lemma late_frame: "b_pmarkCheckerInstalled (snd (readIndex H b)) = b_pmarkCheckerInstalled b"
    "b_pmarkCheckerInstalled (snd (setDefaultTunDNSInterface H C b)) = b_pmarkCheckerInstalled b"
    "b_pmarkCheckerInstalled (snd (applyRouting H rc b)) = b_pmarkCheckerInstalled b"
    "b_pmarkCheckerInstalled (snd (applyConnmark H C b)) = b_pmarkCheckerInstalled b"
    "b_pmarkCheckerInstalled (snd (updateKillswitch H C mode b)) = b_pmarkCheckerInstalled b"
  by (auto simp: readIndex_def setDefaultTunDNSInterface_def applyRouting_def applyConnmark_def updateKillswitch_def try_quiet call_quiet Let_def
      split: option.split)

lemma setDNS_ok: "late C b \<Longrightarrow> building C (snd (try_call H (CallSetDNS a) b)) \<and> (fst (try_call H (CallSetDNS a) b) = None \<longrightarrow> late C (snd (try_call H (CallSetDNS a) b)))"
proof -
  assume l: "late C b"
  then obtain st where b: "building_with C b st" by (auto simp: late_def building_def)
  have "building_with C (snd (try_call H (CallSetDNS a) b)) st"
    using b unfolding building_with_def servers_known_def Let_def try_quiet by (simp add: track_def)
  then show ?thesis using l by (auto simp: late_def building_def try_quiet)
qed

lemma buildSteps_ok:
  assumes "rules_fine C (if do_Include opts \<noteq> [] then do_Include opts else do_Exclude opts)" and "ruleset_ids H"
  shows "triple C (early C) (buildSteps H C opts addrs dnsIP routes srs) (late C)"
  unfolding buildSteps_def
proof (rule triple_step [where Q = "early C"], goal_cases)
  case 2
  show ?case
  proof (rule triple_step [where Q = "early C"], goal_cases)
    case 2
    show ?case
    proof (rule triple_step [where Q = "early C"], goal_cases)
      case 2
      show ?case
      proof (rule triple_step [where Q = "early C"], goal_cases)
        case (1 b)
        then show ?case by (simp add: early_def releaseServer_ok release_frame)
      next
        case 2
        show ?case
          by (rule triple_step [where Q = "unruled C"], simp add: early_def unruled_def openServer_ok open_frame,
              rule triple_step [where Q = "ruled C"], metis registerRules_ok [OF _ assms(1)] register_check ruled_def unruled_def,
              rule triple_step [where Q = "late C"], metis installChecker_ok install_check ruled_def late_def,
              rule triple_step [where Q = "late C"], simp add: late_def readIndex_ok late_frame,
              rule triple_step [where Q = "late C"], simp add: late_def dnsInterface_ok late_frame,
              rule triple_step [where Q = "late C"], simp add: late_def applyRouting_ok late_frame,
              rule triple_step [where Q = "late C"], simp add: late_def applyConnmark_ok late_frame,
              rule triple_step [where Q = "late C"], erule setDNS_ok,
              rule triple_step [where Q = "late C"], simp add: late_def updateKillswitch_ok [OF _ assms(2)] late_frame,
              rule triple_nil, simp add: late_def)
      qed
    qed (rule early_try, simp_all add: track_def)
  qed (rule early_try, simp_all add: track_def)
qed (rule early_try, simp_all add: track_def)

lemma runBuild_owned:
  assumes "early C b" and "rules_fine C (if do_Include opts \<noteq> [] then do_Include opts else do_Exclude opts)" and "ruleset_ids H"
  shows "owned C (snd (runBuild H C opts addrs dnsIP routes srs b))"
proof -
  obtain e b' where s: "steps (buildSteps H C opts addrs dnsIP routes srs) b = (e, b')" by (metis surj_pair)
  have "building C b'" "e = None \<longrightarrow> late C b'"
    using buildSteps_ok [OF assms(2,3), of addrs dnsIP routes srs] assms(1) s by (auto simp: triple_def)
  then show ?thesis using s buildFail_owned finishBuild_owned by (cases e) (auto simp: runBuild_def late_def)
qed

section \<open>Operations keep the record\<close>

text \<open>States with the same record and the same resources.\<close>

definition same :: "sysState \<Rightarrow> sysState \<Rightarrow> bool" where
  "same s s' \<longleftrightarrow> sy_defaultTun s' = sy_defaultTun s \<and> sy_tuns s' = sy_tuns s \<and> sy_closed s' = sy_closed s \<and> held s' = held s"

lemma same_refl [simp]: "same s s"
  by (simp add: same_def)

lemma same_trans: "same s s' \<Longrightarrow> same s' s'' \<Longrightarrow> same s s''"
  by (simp add: same_def)

lemma same_owned: "same s s' \<Longrightarrow> owned C s \<Longrightarrow> owned C s'"
  using owned_neutral by (simp add: same_def)

lemma same_quiet: "(\<And>i h a. track i h (c, a) = h) \<Longrightarrow> same s (quiet_call H c s)"
  by (simp add: same_def)

lemma same_name: "same s (snd (TunNameVerify (interfaceExists H) name s))"
  by (auto simp: TunNameVerify_def interfaceExists_def attempt_quiet same_def track_def split: prod.split)

lemma CheckDefaultTunOpts_same: "same s (snd (CheckDefaultTunOpts H A C F opts s))"
proof -
  have n: "same s (snd (if b then activeDefaultTunName H s else ('''', s)))" for b s
    by (auto simp: activeDefaultTunName_def call_quiet same_def track_def split: option.split)
  obtain valid free s1 where v: "TunNameVerify (interfaceExists H) (to_Name opts) s = ((valid, free), s1)" by (metis surj_pair)
  obtain name s2 where m: "(if valid \<and> \<not> free then activeDefaultTunName H s1 else ('''', s1)) = (name, s2)" by fastforce
  have "same s s1" "same s1 s2" using same_name [of s H "to_Name opts"] n [of s1 "valid \<and> \<not> free"] v m by simp_all
  then show ?thesis using v m same_trans by (auto simp: CheckDefaultTunOpts_def Let_def)
qed

lemma fresh_tun: "length (sy_log s) \<notin> rs_tuns (held s)"
  using held_old(1) [of s] by auto

lemma beginBuild_new:
  assumes "owned C s" and "\<not> sy_closed s" and "sy_defaultTun s = None" and "sc_dnsProvider C" and "sc_routingManager C"
    and "beginBuild H C mtu s = (r, s')"
  shows "case r of Inl err \<Rightarrow> owned C s' | Inr b \<Rightarrow> early C b"
proof -
  let ?c = "CallCreateTUN (defaultTunBaseName_of C) mtu" and ?t = "length (sy_log s)"
  have h: "held s = noResources\<lparr>rs_tuns := set (sy_tuns s)\<rparr>" "distinct (sy_tuns s)" using assms(1,3) by (simp_all add: owned_def)
  have t: "?t \<notin> set (sy_tuns s)" using fresh_tun [of s] by (simp add: h)
  show ?thesis
  proof (cases "an_err (H (sy_log s) ?c)")
    case None
    let ?st = "newDefaultTunState ?t (sy_sourceGeneration s + 1)"
    let ?s2 = "(quiet_call H ?c s)\<lparr>sy_sourceGeneration := sy_sourceGeneration s + 1, sy_defaultTun := Some ?st\<rparr>"
    have "r = Inr (startBuild ?st ?t None False ?s2)" using assms(3,6) None by (auto simp: beginBuild_def attempt_quiet Let_def)
    moreover have "held ?s2 = noResources\<lparr>rs_tuns := insert ?t (set (sy_tuns s))\<rparr>" using None by (simp add: track_def h)
    then have "building_with C (startBuild ?st ?t None False ?s2) ?st"
      using assms(2,4,5) h(2) t unfolding building_with_def servers_known_def Let_def
      by (simp add: startBuild_def newDefaultTunState_def state_static_def noResources_def)
    ultimately show ?thesis by (auto simp: early_def building_def startBuild_def)
  next
    case (Some e)
    then have "r = Inl e" "s' = quiet_call H ?c s" using assms(3,6) by (auto simp: beginBuild_def attempt_quiet Let_def)
    then show ?thesis using assms(1) Some same_owned [of s s' C] by (simp add: same_def track_def)
  qed
qed

lemma recorded_start:
  assumes "recorded C s st" and "sy_defaultTun s = Some st" and "distinct (sy_tuns s)" and "same s s'" and "dt_tun st = Some t"
  shows "early C (startBuild st t None False s')"
proof -
  have "building_with C (startBuild st t None False s') st"
    using assms unfolding building_with_def servers_known_def recorded_def same_def Let_def by (simp add: startBuild_def)
  then show ?thesis by (auto simp: early_def building_def startBuild_def)
qed

lemma recorded_restart:
  assumes "recorded C s st" and "sy_defaultTun s = Some st" and "distinct (sy_tuns s)" and "dt_tun st = Some t" and "n \<notin> rs_tuns (held s)"
    and "sy_defaultTun s' = sy_defaultTun s" "sy_tuns s' = sy_tuns s" "sy_closed s' = sy_closed s" "held s' = (held s)\<lparr>rs_tuns := insert n (rs_tuns (held s))\<rparr>"
  shows "early C (startBuild st n (Some t) True s')"
proof -
  have "building_with C (startBuild st n (Some t) True s') st"
    using assms unfolding building_with_def servers_known_def recorded_def Let_def by (auto simp: startBuild_def)
  then show ?thesis by (auto simp: early_def building_def startBuild_def)
qed

lemma beginBuild_again:
  assumes "owned C s" and "sy_defaultTun s = Some st" and "beginBuild H C mtu s = (r, s')"
  shows "case r of Inl err \<Rightarrow> owned C s' | Inr b \<Rightarrow> early C b"
proof -
  have rec: "recorded C s st" "distinct (sy_tuns s)" using assms(1,2) by (simp_all add: owned_def)
  obtain t where t: "dt_tun st = Some t" using rec(1) by (auto simp: recorded_def Let_def)
  define s1 where "s1 = quiet_call H (CallTunIndex t) s"
  have s1: "same s s1" unfolding s1_def by (rule same_quiet) (simp add: track_def)
  show ?thesis
  proof (cases "an_err (H (sy_log s) (CallTunIndex t))")
    case None
    then have "r = Inr (startBuild st t None False s1)"
      using assms(2,3) t by (auto simp: beginBuild_def prepareDefaultTunLink_def linkAlive_def attempt_quiet s1_def)
    then show ?thesis using recorded_start [OF rec(1) assms(2) rec(2) s1 t] by simp
  next
    case (Some e)
    let ?c = "CallCreateTUN (defaultTunBaseName_of C) mtu" and ?n = "length (sy_log s1)"
    define s2 where "s2 = quiet_call H ?c s1"
    have n: "?n \<notin> rs_tuns (held s)" using fresh_tun [of s1] s1 by (simp add: same_def)
    have prep: "beginBuild H C mtu s = (case prepareDefaultTunLink H C st mtu s of (Inl err, s) \<Rightarrow> (Inl err, s)
        | (Inr (t, old, recreated), s) \<Rightarrow> (Inr (startBuild st t old recreated s), s))" using assms(2) by (simp add: beginBuild_def)
    show ?thesis
    proof (cases "an_err (H (sy_log s1) ?c)")
      case (Some e')
      then have "r = Inl e'" "s' = s2" using assms(3) \<open>an_err (H (sy_log s) (CallTunIndex t)) = Some e\<close> t
        by (auto simp: prep prepareDefaultTunLink_def linkAlive_def attempt_quiet Let_def s1_def s2_def)
      moreover have "same s1 s2" using Some by (simp add: s2_def same_def track_def)
      ultimately show ?thesis using same_owned [OF same_trans [OF s1] assms(1)] by simp
    next
      case None
      define s3 where "s3 = quiet_call H (CallTunMetadata ?n) (quiet_call H (CallTunMetadata t) s2)"
      have h2: "held s2 = (held s)\<lparr>rs_tuns := insert ?n (rs_tuns (held s))\<rparr>" using None s1 by (simp add: s2_def track_def same_def)
      have s3: "same s2 s3" by (simp add: s3_def same_def track_def)
      have f3: "sy_defaultTun s3 = sy_defaultTun s" "sy_tuns s3 = sy_tuns s" "sy_closed s3 = sy_closed s" "held s3 = (held s)\<lparr>rs_tuns := insert ?n (rs_tuns (held s))\<rparr>"
        using s1 s3 h2 by (simp_all add: same_def s2_def)
      have "r = Inr (startBuild st ?n (Some t) True s3) \<or> (\<exists>err. r = Inl err) \<and> s' = quiet_call H (CallTunClose ?n) s3"
        using assms(3) \<open>an_err (H (sy_log s) (CallTunIndex t)) = Some e\<close> None t unfolding prep prepareDefaultTunLink_def
        by (auto simp: linkAlive_def attempt_quiet call_quiet validateDefaultTunReplacement_def Let_def s1_def s2_def s3_def split: if_splits)
      moreover have "early C (startBuild st ?n (Some t) True s3)" by (rule recorded_restart [OF rec(1) assms(2) rec(2) t n f3])
      moreover have "rs_tuns (held s) - {?n} = rs_tuns (held s)" using n by simp
      then have "same s (quiet_call H (CallTunClose ?n) s3)" using f3 by (simp add: same_def track_def)
      then have "owned C (quiet_call H (CallTunClose ?n) s3)" using same_owned assms(1) by blast
      ultimately show ?thesis by auto
    qed
  qed
qed

text \<open>The exact form of a command rule that compiles can be computed.\<close>

definition exact_total :: "sysConfig \<Rightarrow> bool" where
  "exact_total C \<longleftrightarrow> (\<forall>v c. compileRule (sc_rules C) \<lparr>sr_Type = ''comm'', sr_Rule = v\<rparr> = Inr c \<longrightarrow> (\<exists>x. sc_exactComm C v = Inr x))"

lemma opts_rules_fine:
  assumes "opts_ok C F opts" and "exact_total C"
  shows "rules_fine C (if do_Include opts \<noteq> [] then do_Include opts else do_Exclude opts)"
proof -
  have "(if do_Include opts \<noteq> [] then do_Include opts else do_Exclude opts) = rulesOf opts" using assms(1) by (auto simp: opts_ok_def rulesOf_def)
  moreover have "\<exists>x. sc_exactComm C (sr_Rule r) = Inr x" if "r \<in> set (rulesOf opts)" "sr_Type r = ''comm''" for r
  proof -
    have "r = \<lparr>sr_Type = ''comm'', sr_Rule = sr_Rule r\<rparr>" using that(2) by simp
    then show ?thesis using assms that(1) unfolding opts_ok_def exact_total_def by metis
  qed
  ultimately show ?thesis using assms(1) by (simp add: rules_fine_def opts_ok_def)
qed

lemma BuildDefaultTun_owned:
  assumes "owned C s" and "capability_lookups A" and "exact_total C" and "ruleset_ids H"
  shows "owned C (snd (BuildDefaultTun H A C F opts s))"
proof -
  obtain report s1 where c: "CheckDefaultTunOpts H A C F opts s = (report, s1)" by (metis surj_pair)
  have s1: "same s s1" using CheckDefaultTunOpts_same [of s H A C F opts] c by simp
  then have o1: "owned C s1" using assms(1) same_owned by blast
  show ?thesis
  proof (cases "api_Err A report")
    case (Some err)
    then show ?thesis using c o1 by (simp add: BuildDefaultTun_def)
  next
    case None
    then have ok: "\<not> sy_closed s" "opts_ok C F opts" using capability_lookups.check_exact [OF assms(2) c] by simp_all
    then obtain addrs dnsIP routes srs where n: "normalizeTunAddrs (to_TunAddrs opts) (sc_defaultTunCIDR C) (do_DnsIP opts) = Inr (addrs, dnsIP)"
      "addrIsValid dnsIP" "normalizeTunRoutes (to_TunRoutes opts) = Inr routes" "normalizeTunSourceRoutes addrs (do_SourceRoutes opts) = Inr srs"
      by (auto simp: opts_ok_def)
    obtain r s2 where b: "beginBuild H C (NormalizeMTU (to_MTU opts)) s1 = (r, s2)" by (metis surj_pair)
    have "sc_dnsProvider C" "sc_routingManager C" "\<not> sy_closed s1" using ok s1 by (simp_all add: opts_ok_def default_ready_def same_def)
    then have "case r of Inl err \<Rightarrow> owned C s2 | Inr b \<Rightarrow> early C b"
      using beginBuild_new [OF o1 _ _ _ _ b] beginBuild_again [OF o1 _ b] by (cases "sy_defaultTun s1") auto
    then show ?thesis using c None n b \<open>\<not> sy_closed s1\<close> runBuild_owned [OF _ opts_rules_fine [OF ok(2) assms(3)] assms(4)]
      by (cases r) (simp_all add: BuildDefaultTun_def)
  qed
qed

lemma steps_same: "(\<And>f s. f \<in> set fs \<Longrightarrow> same s (snd (f s))) \<Longrightarrow> same s (snd (steps fs s))"
proof (induction fs arbitrary: s)
  case (Cons f fs)
  obtain e s1 where f: "f s = (e, s1)" by (cases "f s")
  then have "same s s1" using Cons.prems [of f s] by simp
  moreover have "same s1 (snd (steps fs s1))" using Cons by simp
  ultimately show ?case using f same_trans by (cases e) auto
qed simp

lemma CheckTunOpts_same: "same s (snd (CheckTunOpts H A C F opts s))"
  using same_name [of s H "to_Name opts"] by (auto simp: CheckTunOpts_def Let_def split: prod.split)

lemma owned_add:
  assumes "owned C s" and "\<not> sy_closed s'" and "t \<notin> rs_tuns (held s)" and "held s' = (held s)\<lparr>rs_tuns := insert t (rs_tuns (held s))\<rparr>"
    and "sy_defaultTun s' = sy_defaultTun s" and "sy_tuns s' = sy_tuns s" and "sy_closed s' = sy_closed s"
  shows "owned C (s'\<lparr>sy_tuns := t # sy_tuns s'\<rparr>)"
  using assms by (cases "sy_defaultTun s") (auto simp: owned_def recorded_def Let_def noResources_def)

lemma BuildTun_owned:
  assumes "owned C s"
  shows "owned C (snd (BuildTun H A C F opts s))"
proof -
  obtain report s1 where c: "CheckTunOpts H A C F opts s = (report, s1)" by (metis surj_pair)
  have o1: "owned C s1" using CheckTunOpts_same [of s H A C F opts] c assms same_owned by fastforce
  let ?c = "CallCreateTUN (defaultTunBaseName_of C) (NormalizeMTU (to_MTU opts))" and ?t = "length (sy_log s1)"
  let ?s2 = "quiet_call H ?c s1"
  define body where "body = (case normalizeTunAddrs (to_TunAddrs opts) '''' '''' of
       Inl err \<Rightarrow> (Some err, ?s2)
     | Inr (addrs, _) \<Rightarrow> (case normalizeTunRoutes (to_TunRoutes opts) of
         Inl err \<Rightarrow> (Some err, ?s2)
       | Inr routes \<Rightarrow> steps (setupTun H ?t opts addrs routes) ?s2))"
  have "same ?s2 (snd (steps (setupTun H ?t opts addrs routes) ?s2))" for addrs routes
    by (rule steps_same) (auto simp: setupTun_def attempt_quiet track_def split: if_splits intro!: same_quiet)
  then have sb: "same ?s2 (snd body)" unfolding body_def by (auto split: sum.split)
  have fresh: "?t \<notin> rs_tuns (held s1)" by (rule fresh_tun)
  obtain e s3 where b: "body = (e, s3)" by (cases body)
  show ?thesis
  proof (cases "api_Err A report = None \<and> an_err (H (sy_log s1) ?c) = None")
    case True
    then have f3: "sy_defaultTun s3 = sy_defaultTun s1" "sy_tuns s3 = sy_tuns s1" "sy_closed s3 = sy_closed s1"
      "held s3 = (held s1)\<lparr>rs_tuns := insert ?t (rs_tuns (held s1))\<rparr>" using sb b by (simp_all add: same_def track_def)
    have "rs_tuns (held s1) - {?t} = rs_tuns (held s1)" using fresh by simp
    then have "same s1 (quiet_call H (CallTunClose ?t) s3)" using f3 by (simp add: same_def track_def)
    then have closed: "owned C (quiet_call H (CallTunClose ?t) s3)" using o1 same_owned by blast
    have "snd (BuildTun H A C F opts s) = (if e = None \<and> \<not> sy_closed s3 then s3\<lparr>sy_tuns := ?t # sy_tuns s3\<rparr> else quiet_call H (CallTunClose ?t) s3)"
      using c True b unfolding BuildTun_def body_def by (auto simp: attempt_quiet Let_def split: option.split)
    then show ?thesis using closed owned_add [OF o1 _ fresh f3(4,1,2,3)] by simp
  next
    case False
    have "same s1 ?s2" if "an_err (H (sy_log s1) ?c) \<noteq> None" using that by (auto simp: same_def track_def)
    then have "owned C ?s2" if "an_err (H (sy_log s1) ?c) \<noteq> None" using that o1 same_owned by blast
    then show ?thesis using c False o1 by (auto simp: BuildTun_def attempt_quiet Let_def split: option.split)
  qed
qed

text \<open>Updates of a default TUN change nothing but its configuration, and whether routing is in place.\<close>

definition routed :: "sysState \<Rightarrow> sysState \<Rightarrow> bool" where
  "routed s s' \<longleftrightarrow> sy_defaultTun s' = sy_defaultTun s \<and> sy_tuns s' = sy_tuns s \<and> sy_closed s' = sy_closed s \<and>
     (held s')\<lparr>rs_routing := False\<rparr> = (held s)\<lparr>rs_routing := False\<rparr>"

lemma routed_refl [simp]: "routed s s"
  by (simp add: routed_def)

lemma routed_quiet:
  "routed s s' \<Longrightarrow> (\<And>i h a. (track i h (c, a))\<lparr>rs_routing := False\<rparr> = h\<lparr>rs_routing := False\<rparr>) \<Longrightarrow> routed s (quiet_call H c s')"
  by (simp add: routed_def)

lemma routed_owned:
  assumes "owned C s" and "sy_defaultTun s = Some st" and "dt_routingConfig st \<noteq> None" and "routed s s'"
    and "\<And>st. dt_tun (f st) = dt_tun st \<and> dt_server (f st) = dt_server st \<and> dt_ruleIDs (f st) = dt_ruleIDs st \<and> dt_killswitchID (f st) = dt_killswitchID st \<and>
      dt_pmarkChecker (f st) = dt_pmarkChecker st \<and> dt_dnsIfidxSet (f st) = dt_dnsIfidxSet st \<and> (dt_routingConfig st \<noteq> None \<longrightarrow> dt_routingConfig (f st) \<noteq> None)"
  shows "owned C (updState f s')"
proof -
  have h: "(held s')\<lparr>rs_routing := False\<rparr> = (held s)\<lparr>rs_routing := False\<rparr>" using assms(4) by (simp add: routed_def)
  have "rs_tuns (held s') = rs_tuns (held s)" "rs_servers (held s') = rs_servers (held s)" "rs_rules (held s') = rs_rules (held s)"
    "rs_rulesets (held s') = rs_rulesets (held s)" "rs_checker (held s') = rs_checker (held s)" "rs_ifidx (held s') = rs_ifidx (held s)"
    using arg_cong [OF h, of rs_tuns] arg_cong [OF h, of rs_servers] arg_cong [OF h, of rs_rules] arg_cong [OF h, of rs_rulesets]
      arg_cong [OF h, of rs_checker] arg_cong [OF h, of rs_ifidx] by simp_all
  moreover have "recorded C s st" using assms(1,2) by (simp add: owned_def)
  moreover have "state_static C (f st) = state_static C st" using assms(5) [of st] by (simp add: state_static_def)
  ultimately have "recorded C (updState f s') (f st)" using assms(3,4) assms(5) [of st] unfolding recorded_def routed_def Let_def by simp
  then show ?thesis using assms(1,2,4) by (simp add: owned_def routed_def)
qed

lemma updState_id: "updState (\<lambda>st. st) s = s"
  by (simp add: updState_def option.map_ident)

lemma routed_owned_same: "owned C s \<Longrightarrow> sy_defaultTun s = Some st \<Longrightarrow> dt_routingConfig st \<noteq> None \<Longrightarrow> routed s s' \<Longrightarrow> owned C s'"
  using routed_owned [of C s st s' "\<lambda>st. st"] by (simp add: updState_id)

lemma restoreLink_routed: "routed s s' \<Longrightarrow> routed s (snd (restoreDefaultTunLinkLocked H t addrs routes s'))"
  by (simp add: restoreDefaultTunLinkLocked_def attempt_quiet routed_quiet track_def)

lemma restoreRouting_routed: "routed s s' \<Longrightarrow> routed s (snd (restoreDefaultTunRoutingLocked H old failed s'))"
  by (simp add: restoreDefaultTunRoutingLocked_def attempt_quiet routed_quiet track_def)

lemma readThen_state: "(an_err (H (sy_log s) c) \<noteq> None \<Longrightarrow> P (quiet_call H c s)) \<Longrightarrow> P (snd (f (H (sy_log s) c) (quiet_call H c s))) \<Longrightarrow> P (snd (readThen H c f s))"
  by (auto simp: readThen_def call_quiet split: option.split)

lemma tryElse_state: "(\<And>e. an_err (H (sy_log s) c) = Some e \<Longrightarrow> P (snd (g e (quiet_call H c s)))) \<Longrightarrow> P (snd (f (quiet_call H c s))) \<Longrightarrow> P (snd (tryElse H c g f s))"
  by (auto simp: tryElse_def attempt_quiet split: option.split)

text \<open>The states an update may end in.\<close>

definition updated :: "sysState \<Rightarrow> sysState \<Rightarrow> bool" where
  "updated s s' \<longleftrightarrow> routed s s' \<or> (\<exists>s'' addrs new. routed s s'' \<and> (s' = updState (\<lambda>st. st\<lparr>dt_addrs := addrs, dt_routingConfig := Some new\<rparr>) s'' \<or>
     s' = updState (\<lambda>st. st\<lparr>dt_routes := addrs, dt_routingConfig := Some new\<rparr>) s''))"

lemma updated_routed: "routed s s' \<Longrightarrow> updated s s'"
  by (simp add: updated_def)

lemma updated_set: "routed s s' \<Longrightarrow> updated s (updState (\<lambda>st. st\<lparr>dt_addrs := addrs, dt_routingConfig := Some new\<rparr>) s')"
    "routed s s' \<Longrightarrow> updated s (updState (\<lambda>st. st\<lparr>dt_routes := addrs, dt_routingConfig := Some new\<rparr>) s')"
  unfolding updated_def by blast+

lemma updated_owned: "owned C s \<Longrightarrow> sy_defaultTun s = Some st \<Longrightarrow> dt_routingConfig st \<noteq> None \<Longrightarrow> updated s s' \<Longrightarrow> owned C s'"
  using routed_owned_same [of C s st] routed_owned [of C s st] unfolding updated_def by auto

lemma snd_join [simp]: "snd (case r of (e, s) \<Rightarrow> (f e, s)) = snd r" "snd (case r of (e, s) \<Rightarrow> g e s) = snd (g (fst r) (snd r))"
  by (simp_all split: prod.split)

lemma updateAddrs_updated: "updated s (snd (updateDefaultTunAddrsLocked H A t addrs added st s))"
proof (cases "dt_routingConfig st")
  case (Some rc)
  show ?thesis
  proof (cases "validateDefaultTunSourceAddrs addrs (cfg_SourceRoutes rc)")
    case None
    show ?thesis unfolding updateDefaultTunAddrsLocked_def Some None option.case Let_def
      apply (rule readThen_state [where P = "updated s"])
       apply (simp add: updated_routed routed_quiet track_def)
      apply (rule readThen_state [where P = "updated s"])
       apply (simp add: updated_routed routed_quiet track_def)
      apply (rule tryElse_state [where P = "updated s"])
       apply (simp add: updated_routed restoreLink_routed routed_quiet track_def)
      apply (rule tryElse_state [where P = "updated s"])
       apply (simp add: updated_routed restoreLink_routed routed_quiet track_def)
      apply (rule tryElse_state [where P = "updated s"])
       apply (simp add: updated_routed restoreLink_routed restoreRouting_routed routed_quiet track_def)
      apply (simp add: updated_set routed_quiet track_def)
      done
  qed (simp add: updateDefaultTunAddrsLocked_def Some updated_routed)
qed (simp add: updateDefaultTunAddrsLocked_def updated_routed)

lemma setRoutes_updated: "updated s (snd (setDefaultTunRoutesLocked H A t routes st s))"
proof (cases "dt_routingConfig st")
  case (Some rc)
  show ?thesis unfolding setDefaultTunRoutesLocked_def Some option.case Let_def
    by (rule readThen_state, (simp add: updated_routed routed_quiet track_def))
      (rule tryElse_state, simp add: updated_routed attempt_quiet routed_quiet track_def,
       rule tryElse_state, simp add: updated_routed attempt_quiet restoreRouting_routed routed_quiet track_def,
       simp add: updated_set routed_quiet track_def)
qed (simp add: setDefaultTunRoutesLocked_def updated_routed)

section \<open>Runs\<close>

datatype sysOp =
    DoBuildDefaultTun DefaultTunOpts | DoBuildTun TunOpts | DoSetDNS nat "nat option" | DoCloseDefaultTun nat | DoCloseTun tunObj | DoClose
  | DoSetTunMTU publicTun int | DoSetTunAddrs publicTun "string list" | DoAddTunAddr publicTun string | DoSetTunRoutes publicTun "string list"
  | DoAddTunRoute publicTun string | DoSetTunName publicTun string | DoGetTunAddrs publicTun | DoGetTunRoutes publicTun

definition perform :: "host \<Rightarrow> sysnetAPI \<Rightarrow> sysConfig \<Rightarrow> capabilityFailures \<Rightarrow> sysState \<Rightarrow> sysOp \<Rightarrow> sysState" where
  "perform H A C F s op = (case op of
     DoBuildDefaultTun opts \<Rightarrow> snd (BuildDefaultTun H A C F opts s)
   | DoBuildTun opts \<Rightarrow> snd (BuildTun H A C F opts s)
   | DoSetDNS d resolver \<Rightarrow> snd (defaultTun_SetDNS H A d resolver s)
   | DoCloseDefaultTun d \<Rightarrow> snd (defaultTun_Close H C d s)
   | DoCloseTun t \<Rightarrow> snd (regularTun_Close H t s)
   | DoClose \<Rightarrow> snd (System_Close H C s)
   | DoSetTunMTU t mtu \<Rightarrow> snd (System_SetTunMTU H A C F t mtu s)
   | DoSetTunAddrs t addrs \<Rightarrow> snd (System_SetTunAddrs H A C F t addrs s)
   | DoAddTunAddr t addr \<Rightarrow> snd (System_AddTunAddr H A C F t addr s)
   | DoSetTunRoutes t routes \<Rightarrow> snd (System_SetTunRoutes H A C F t routes s)
   | DoAddTunRoute t route \<Rightarrow> snd (System_AddTunRoute H A C F t route s)
   | DoSetTunName t name \<Rightarrow> snd (System_SetTunName H A C F t name s)
   | DoGetTunAddrs t \<Rightarrow> snd (System_GetTunAddrs H A C F t s)
   | DoGetTunRoutes t \<Rightarrow> snd (System_GetTunRoutes H A C F t s))"

definition run :: "host \<Rightarrow> sysnetAPI \<Rightarrow> sysConfig \<Rightarrow> capabilityFailures \<Rightarrow> sysOp list \<Rightarrow> sysState" where
  "run H A C F ops = foldl (perform H A C F) freshSystem ops"

lemma resolve_state: "resolveTunLocked A t s = Inr (n, Some st) \<Longrightarrow> sy_defaultTun s = Some st"
  by (auto simp: resolveTunLocked_def split: publicTun.splits option.splits if_splits)

lemma withTun_state:
  assumes "P s" and "\<And>n. P (snd (f n None s))" and "\<And>n st. sy_defaultTun s = Some st \<Longrightarrow> P (snd (f n (Some st) s))"
  shows "P (snd (withTun A t f s))"
proof (cases "resolveTunLocked A t s")
  case (Inr r)
  obtain n d where "r = (n, d)" by (cases r)
  then show ?thesis using Inr assms resolve_state [of A t s n] by (cases d) (auto simp: withTun_def)
qed (use assms(1) in \<open>simp add: withTun_def\<close>)

lemma allowed_state: "P s \<Longrightarrow> P (snd (f s)) \<Longrightarrow> P (snd (allowed A C F st operation family f s))"
  by (simp add: allowed_def split: option.split)

lemma same_updated: "same s s' \<Longrightarrow> updated s s'"
  by (simp add: same_def updated_def routed_def)

lemma setAddrs_updated: "updated s (snd (setDefaultTunAddrsLocked H A C n addrs st s))"
  by (auto simp: setDefaultTunAddrsLocked_def same_updated intro: updateAddrs_updated split: sum.split)

lemma addAddr_updated: "updated s (snd (addDefaultTunAddrLocked H A C n addr st s))"
  by (auto simp: addDefaultTunAddrLocked_def same_updated intro: updateAddrs_updated split: sum.split)

lemma updated_quiet: "(\<And>i h a. track i h (c, a) = h) \<Longrightarrow> updated s (quiet_call H c s)"
  by (rule same_updated, rule same_quiet)

text \<open>Updates without a routing configuration do nothing at all.\<close>

lemma no_config: "dt_routingConfig st = None \<Longrightarrow> snd (updateDefaultTunAddrsLocked H A n addrs added st s) = s"
    "dt_routingConfig st = None \<Longrightarrow> snd (setDefaultTunRoutesLocked H A n routes st s) = s"
  by (simp_all add: updateDefaultTunAddrsLocked_def setDefaultTunRoutesLocked_def)

lemma updates_owned:
  assumes "owned C s" and "sy_defaultTun s = Some st"
  shows "owned C (snd (setDefaultTunAddrsLocked H A C n addrs st s))" and "owned C (snd (addDefaultTunAddrLocked H A C n addr st s))"
    and "owned C (snd (setDefaultTunRoutesLocked H A n routes st s))"
proof -
  note u = updated_owned [OF assms]
  show "owned C (snd (setDefaultTunAddrsLocked H A C n addrs st s))"
    using u [OF _ setAddrs_updated] assms(1) no_config [of st] by (cases "dt_routingConfig st = None") (auto simp: setDefaultTunAddrsLocked_def split: sum.split)
  show "owned C (snd (addDefaultTunAddrLocked H A C n addr st s))"
    using u [OF _ addAddr_updated] assms(1) no_config [of st] by (cases "dt_routingConfig st = None") (auto simp: addDefaultTunAddrLocked_def split: sum.split)
  show "owned C (snd (setDefaultTunRoutesLocked H A n routes st s))"
    using u [OF _ setRoutes_updated] assms(1) no_config [of st] by (cases "dt_routingConfig st = None") auto
qed

lemma owned_quiet: "owned C s \<Longrightarrow> (\<And>i h a. track i h (c, a) = h) \<Longrightarrow> owned C (quiet_call H c s)"
  using same_owned same_quiet by blast

lemma SetTunMTU_owned: "owned C s \<Longrightarrow> owned C (snd (System_SetTunMTU H A C F t mtu s))"
  unfolding System_SetTunMTU_def
  by (rule withTun_state [where P = "owned C"]; (rule allowed_state [where P = "owned C"])?)
    (auto simp: attempt_quiet call_quiet track_def intro!: owned_quiet split: option.split)

lemma SetTunAddrs_owned: "owned C s \<Longrightarrow> owned C (snd (System_SetTunAddrs H A C F t addrs s))"
  unfolding System_SetTunAddrs_def
  by (rule withTun_state [where P = "owned C"])
    (auto simp: attempt_quiet track_def updates_owned intro!: allowed_state [where P = "owned C"] owned_quiet split: sum.split)

lemma AddTunAddr_owned: "owned C s \<Longrightarrow> owned C (snd (System_AddTunAddr H A C F t addr s))"
  unfolding System_AddTunAddr_def
  by (rule withTun_state [where P = "owned C"])
    (auto simp: attempt_quiet track_def updates_owned intro!: allowed_state [where P = "owned C"] owned_quiet split: sum.split list.split)

lemma SetTunRoutes_owned: "owned C s \<Longrightarrow> owned C (snd (System_SetTunRoutes H A C F t routes s))"
  unfolding System_SetTunRoutes_def
  by (rule withTun_state [where P = "owned C"])
    (auto simp: attempt_quiet track_def updates_owned intro!: allowed_state [where P = "owned C"] owned_quiet split: sum.split)

lemma AddTunRoute_owned: "owned C s \<Longrightarrow> owned C (snd (System_AddTunRoute H A C F t route s))"
  unfolding System_AddTunRoute_def
  by (rule withTun_state [where P = "owned C"])
    (auto simp: attempt_quiet track_def updates_owned intro!: allowed_state [where P = "owned C"] owned_quiet split: sum.split list.split)

lemma SetTunName_owned: "owned C s \<Longrightarrow> owned C (snd (System_SetTunName H A C F t name s))"
proof -
  assume o: "owned C s"
  obtain valid free s1 where v: "TunNameVerify (interfaceExists H) name s = ((valid, free), s1)" by (metis surj_pair)
  have "owned C s1" using same_name [of s H name] v o same_owned by fastforce
  then show ?thesis using o v unfolding System_SetTunName_def
    by (intro withTun_state [where P = "owned C"] allowed_state [where P = "owned C"])
      (auto simp: attempt_quiet call_quiet track_def intro!: owned_quiet)
qed

lemma getters_owned: "owned C s \<Longrightarrow> owned C (snd (System_GetTunAddrs H A C F t s))" "owned C s \<Longrightarrow> owned C (snd (System_GetTunRoutes H A C F t s))"
  by (auto simp: System_GetTunAddrs_def System_GetTunRoutes_def call_quiet track_def intro!: owned_quiet split: sum.split option.split)

lemma perform_owned:
  assumes "owned C s" and "capability_lookups A" and "exact_total C" and "ruleset_ids H"
  shows "owned C (perform H A C F s op)"
  using BuildDefaultTun_owned [OF assms] assms(1) SetTunMTU_owned SetTunAddrs_owned AddTunAddr_owned SetTunRoutes_owned AddTunRoute_owned SetTunName_owned
    getters_owned BuildTun_owned SetDNS_owned defaultTun_Close_owned regularTun_Close_owned System_Close_owned
  by (cases op) (simp_all add: perform_def)

lemma run_owned:
  assumes "capability_lookups A" and "exact_total C" and "ruleset_ids H"
  shows "owned C (run H A C F ops)"
proof -
  have "owned C s \<Longrightarrow> owned C (foldl (perform H A C F) s ops)" for s
    using perform_owned [OF _ assms] by (induction ops arbitrary: s) simp_all
  moreover have "owned C freshSystem" by (simp add: owned_def freshSystem_def held_def noResources_def)
  ultimately show ?thesis by (simp add: run_def)
qed


lemma System_Close_closed: "sy_closed (snd (System_Close H C s))"
proof (cases "sy_closed s")
  case False
  let ?r1 = "also_call H CallLocalNetClose (also_call H CallOutNetClose (None, s\<lparr>sy_closed := True, sy_defaultTun := None, sy_tuns := []\<rparr>))"
  have "sy_closed (snd ?r1)" by (simp add: also_quiet)
  moreover have "sy_closed (snd (case closeActive H C st (snd ?r1) of (e, s) \<Rightarrow> (errors_join [fst ?r1, e], s))) = sy_closed (snd ?r1)" for st
    using closeActive_effect(4) [of H C st "snd ?r1"] by (simp split: prod.split)
  ultimately show ?thesis using False unfolding System_Close_def Let_def
    by (simp add: closeExtra_effect closeTuns_effect onlyIf_quiet split: option.split)
qed (simp add: System_Close_def)

definition sampleRun :: "sysOp list" where
  "sampleRun = [DoBuildDefaultTun sampleOpts]"

lemma sample_hypotheses: "exact_total sampleSys" "ruleset_ids quietHost"
  by (auto simp: exact_total_def ruleset_ids_def sampleSys_def quietHost_def)

lemma sample_builds: "map_option dt_ruleIDs (sy_defaultTun (run quietHost plainAPI sampleSys noFailures sampleRun)) = Some [7]"
  by code_simp


section \<open>Two leaks\<close>

text \<open>
  A command rule that compiles and whose exact form cannot be computed is registered with the tracker, but its identifier is dropped with the error.
\<close>

lemma rule_leak:
  assumes "compileRule (sc_rules C) r = Inr c" and "sr_Type r = ''comm''" and "sc_exactComm C (sr_Rule r) = Inl err"
  shows "\<exists>s'. checkerLoop H C [] [] False [r] s = (Inl err, s') \<and> size (rs_rules (held s')) = size (rs_rules (held s)) + 1"
  using assms by (simp add: call_quiet Let_def track_def)

text \<open>
  When the default TUN is rebuilt and the marks of connections cannot be set up again, which is tolerated, the new state forgets that they were set
  up before: closing the TUN then leaves the old table of marks behind.
\<close>

lemma connmark_forgotten:
  assumes "sc_connmark C" and "\<not> sc_connmarkRequired C"
    and "an_err (H (sy_log (b_sys b)) (CallConnmarkApply \<lparr>cm_Marks = [\<lparr>mk_Value = sc_appBypassMark C, mk_Mask = sc_appBypassMask C\<rparr>,
      \<lparr>mk_Value = sc_userMark C, mk_Mask = sc_userMarkMask C\<rparr>]\<rparr>)) = Some err"
  shows "fst (applyConnmark H C b) = None" and "\<not> b_connmarkSet (snd (applyConnmark H C b))"
    and "\<not> b_connmarkSet b' \<Longrightarrow> sy_defaultTun (finishBuild H C opts addrs dnsIP routes srs b') = Some st \<Longrightarrow> \<not> dt_connmarkSet st"
proof -
  show "fst (applyConnmark H C b) = None" "\<not> b_connmarkSet (snd (applyConnmark H C b))" using assms by (simp_all add: applyConnmark_def try_quiet)
  show "\<not> dt_connmarkSet st" if "\<not> b_connmarkSet b'" "sy_defaultTun (finishBuild H C opts addrs dnsIP routes srs b') = Some st"
    using that by (auto simp: finishBuild_def Let_def closeServer_state serverClosed_effect split: option.splits if_splits)
qed

end
