(* ===== verification/Sys_Routing.thy ===== *)
theory Sys_Routing
  imports Sys_Resources
begin

text \<open>
  The facade and the routing manager: every configuration that the facade hands to the manager is valid, so that the manager never refuses one, and the
  stored configuration always covers the addresses, routes and source routes of the default TUN.
\<close>

section \<open>A new system\<close>

definition defaultUserMark :: u32 where "defaultUserMark = 0x4d000001"

text \<open>
  The fields of a system from a configuration, of which the record of the fields has the shape: what is missing is filled in with a default, which
  is always there except for DNS, routing, marks and killswitch. The address of the default TUN comes from the allocator.
\<close>

definition NewSystem :: "sysConfig \<Rightarrow> string \<Rightarrow> goError + sysConfig" where
  "NewSystem config cidr =
     (let appMark = (if sc_appBypassMark config = 0 then DefaultAppBypassMark else sc_appBypassMark config);
          appMask = (if sc_appBypassMask config = 0 then DefaultMarkMask else sc_appBypassMask config);
          userMark = (if sc_userMark config = 0 then defaultUserMark else sc_userMark config);
          userMask = (if sc_userMarkMask config = 0 then DefaultMarkMask else sc_userMarkMask config);
          features = sc_features config in
      case ValidateConfig (markConfig appMark appMask userMark userMask) of
        Some err \<Rightarrow> Inl err
      | None \<Rightarrow> Inr (config\<lparr>sc_defaultTunCIDR := cidr, sc_outDNS := sc_dnsProvider config, sc_tunFactory := True, sc_tunConfig := True,
          sc_ruleTracker := sc_ruleTracker config \<or> ft_MatcherRules features \<or> ft_TunRules features \<and> ft_Pmark features,
          sc_ownerLookup := True, sc_packetListen := True,
          sc_connmark := sc_connmark config \<or> ft_DefaultTun features \<and> ft_Routing features, sc_connmarkRequired := sc_connmark config,
          sc_appBypassMark := appMark, sc_appBypassMask := appMask, sc_userMark := userMark, sc_userMarkMask := userMask\<rparr>))"

section \<open>Configurations given to the manager\<close>

definition applies_ok :: "sysState \<Rightarrow> bool" where
  "applies_ok s \<longleftrightarrow> (\<forall>rc a. (CallApply rc, a) \<in> set (sy_log s) \<longrightarrow> ValidateConfig rc = None)"

definition config_stored :: "sysState \<Rightarrow> bool" where
  "config_stored s \<longleftrightarrow> (\<forall>st rc. sy_defaultTun s = Some st \<longrightarrow> dt_routingConfig st = Some rc \<longrightarrow> config_for (dt_addrs st) (dt_routes st) rc)"

definition configured :: "sysState \<Rightarrow> bool" where
  "configured s \<longleftrightarrow> applies_ok s \<and> config_stored s"

lemma applies_quiet [simp]: "applies_ok (quiet_call H c s) \<longleftrightarrow> applies_ok s \<and> (\<forall>rc. c = CallApply rc \<longrightarrow> ValidateConfig rc = None)"
  by (auto simp: applies_ok_def quiet_call_def call_def Let_def)

lemma applies_fields [simp]: "applies_ok (s\<lparr>sy_defaultTun := d\<rparr>) = applies_ok s" "applies_ok (s\<lparr>sy_tuns := ts\<rparr>) = applies_ok s"
    "applies_ok (s\<lparr>sy_closed := c\<rparr>) = applies_ok s" "applies_ok (s\<lparr>sy_sourceGeneration := g\<rparr>) = applies_ok s" "applies_ok (updState f s) = applies_ok s"
  by (simp_all add: applies_ok_def updState_def)

lemma stored_fields [simp]: "config_stored (quiet_call H c s) = config_stored s" "config_stored (s\<lparr>sy_tuns := ts\<rparr>) = config_stored s"
    "config_stored (s\<lparr>sy_closed := cl\<rparr>) = config_stored s" "config_stored (s\<lparr>sy_sourceGeneration := g\<rparr>) = config_stored s"
    "config_stored (s\<lparr>sy_defaultTun := None\<rparr>)"
  by (simp_all add: config_stored_def)

lemma configured_quiet [simp]: "configured (quiet_call H c s) \<longleftrightarrow> configured s \<and> (\<forall>rc. c = CallApply rc \<longrightarrow> ValidateConfig rc = None)"
  by (auto simp: configured_def)

lemma applies_maybe [simp]: "applies_ok (maybe_call b H c s) \<longleftrightarrow> applies_ok s \<and> (b \<longrightarrow> (\<forall>rc. c = CallApply rc \<longrightarrow> ValidateConfig rc = None))"
  by (simp add: maybe_call_def)

lemma applies_unregister [simp]: "applies_ok (unregisterRules H C ids s) = applies_ok s"
  by (induction ids arbitrary: s) (simp_all add: unregisterRules_def unregisterRule_def)

lemma applies_server [simp]: "applies_ok (serverClosed H sv s) = applies_ok s"
  by (cases sv) (simp_all add: serverClosed_def closeServer_def also_quiet)

lemma applies_closeActive [simp]: "applies_ok (snd (closeActive H C st s)) = applies_ok s"
  unfolding closeActive_def Let_def
  by (cases "dt_tun st"; cases "dt_routingConfig st") (simp_all add: also_quiet onlyIf_quiet closeServer_state)

lemma Close_configured: "configured s \<Longrightarrow> configured (snd (defaultTun_Close H C d s))"
  by (auto simp: defaultTun_Close_def configured_def config_stored_def closeActive_effect split: option.split)

lemma SetDNS_configured: "configured s \<Longrightarrow> configured (snd (defaultTun_SetDNS H A d resolver s))"
  by (auto simp: defaultTun_SetDNS_def configured_def config_stored_def Let_def split: option.splits)

lemma regularClose_configured: "configured s \<Longrightarrow> configured (snd (regularTun_Close H t s))"
  by (simp add: regularTun_Close_def attempt_quiet configured_def)

lemma System_Close_configured: "configured s \<Longrightarrow> configured (snd (System_Close H C s))"
proof (cases "sy_closed s")
  case False
  assume "configured s"
  have t: "applies_ok (snd (foldl (\<lambda>r t. also_call H (CallTunClose t) r) r ts)) = applies_ok (snd r)" for r ts
    by (induction ts arbitrary: r) (simp_all add: also_quiet)
  have x: "applies_ok (snd (foldl (\<lambda>r i. onlyIf (f i) (also_call H (CallExtraClose i)) r) r is)) = applies_ok (snd r)" for r f "is"
    by (induction "is" arbitrary: r) (simp_all add: onlyIf_quiet)
  let ?r1 = "also_call H CallLocalNetClose (also_call H CallOutNetClose (None, s\<lparr>sy_closed := True, sy_defaultTun := None, sy_tuns := []\<rparr>))"
  have c: "applies_ok (snd (case closeActive H C st (snd ?r1) of (e, s) \<Rightarrow> (errors_join [fst ?r1, e], s))) = applies_ok s" for st
    using applies_closeActive [of H C st "snd ?r1"] by (simp add: also_quiet split: prod.split)
  have d: "sy_defaultTun (snd (case closeActive H C st (snd ?r1) of (e, s) \<Rightarrow> (errors_join [fst ?r1, e], s))) = None" for st
    using closeActive_effect(2) [of H C st "snd ?r1"] by (simp add: also_quiet split: prod.split)
  show ?thesis using False \<open>configured s\<close> c d unfolding System_Close_def Let_def configured_def config_stored_def
    by (simp add: closeExtra_effect closeTuns_effect onlyIf_quiet t x also_quiet split: option.split)
qed (simp add: System_Close_def)

section \<open>Building\<close>

text \<open>The index of an interface is positive.\<close>

definition positive_index :: "host \<Rightarrow> bool" where
  "positive_index H \<longleftrightarrow> (\<forall>log t. an_err (H log (CallTunIndex t)) = None \<longrightarrow> 0 < an_num (H log (CallTunIndex t)))"

text \<open>A step keeps what is stored, and gives the manager valid configurations only.\<close>

definition keeps :: "(buildState \<Rightarrow> bool) \<Rightarrow> (buildState \<Rightarrow> goError option \<times> buildState) list \<Rightarrow> (buildState \<Rightarrow> bool) \<Rightarrow> bool" where
  "keeps P fs Q \<longleftrightarrow> (\<forall>b. P b \<longrightarrow> applies_ok (b_sys (snd (steps fs b))) \<and> (fst (steps fs b) = None \<longrightarrow> Q (snd (steps fs b))))"

lemma keeps_nil: "(\<And>b. P b \<Longrightarrow> applies_ok (b_sys b)) \<Longrightarrow> keeps P [] P"
  by (simp add: keeps_def)

lemma keeps_step:
  assumes "\<And>b. P b \<Longrightarrow> applies_ok (b_sys (snd (f b))) \<and> (fst (f b) = None \<longrightarrow> Q (snd (f b)))" and "keeps Q fs R"
  shows "keeps P (f # fs) R"
  unfolding keeps_def
proof (intro allI impI)
  fix b assume "P b"
  obtain e b' where f: "f b = (e, b')" by (cases "f b")
  then have "applies_ok (b_sys b')" "e = None \<Longrightarrow> Q b'" using assms(1) [OF \<open>P b\<close>] by simp_all
  then show "applies_ok (b_sys (snd (steps (f # fs) b))) \<and> (fst (steps (f # fs) b) = None \<longrightarrow> R (snd (steps (f # fs) b)))"
    using assms(2) f by (cases e) (auto simp: keeps_def)
qed

abbreviation (input) plain_apply :: "buildState \<Rightarrow> bool" where
  "plain_apply b \<equiv> applies_ok (b_sys b)"

definition indexed :: "buildState \<Rightarrow> bool" where
  "indexed b \<longleftrightarrow> applies_ok (b_sys b) \<and> 0 < b_index b"

lemma checkerLoop_applies: "applies_ok (snd (checkerLoop H C ids exact fb rules s)) = applies_ok s"
  by (induction rules arbitrary: ids exact fb s) (auto simp: call_quiet Let_def split: sum.split)

lemma steps_applies:
  "applies_ok (b_sys (snd (releaseServer H dnsIP b))) = applies_ok (b_sys b)" "applies_ok (b_sys (snd (openServer H dnsIP b))) = applies_ok (b_sys b)"
  "applies_ok (b_sys (snd (registerRules H C opts b))) = applies_ok (b_sys b)" "applies_ok (b_sys (snd (installChecker H C b))) = applies_ok (b_sys b)"
  "applies_ok (b_sys (snd (readIndex H b))) = applies_ok (b_sys b)"
  "applies_ok (b_sys (snd (setDefaultTunDNSInterface H C b))) = applies_ok (b_sys b)" "applies_ok (b_sys (snd (applyConnmark H C b))) = applies_ok (b_sys b)"
  "applies_ok (b_sys (snd (updateKillswitch H C mode b))) = applies_ok (b_sys b)"
proof -
  have "applies_ok (snd (defaultTunChecker H C opts s)) = applies_ok s" for s
    using checkerLoop_applies [of H C "[]" "[]" False "if do_Include opts \<noteq> [] then do_Include opts else do_Exclude opts" s]
    by (auto simp: defaultTunChecker_def Let_def split: prod.split sum.split)
  then show "applies_ok (b_sys (snd (registerRules H C opts b))) = applies_ok (b_sys b)"
    by (auto simp: registerRules_def split: prod.split sum.split)
qed (auto simp: releaseServer_def openServer_def installChecker_def readIndex_def setDefaultTunDNSInterface_def applyConnmark_def updateKillswitch_def
    try_quiet call_quiet Let_def split: option.split)

lemma index_frame: "b_index (snd (setDefaultTunDNSInterface H C b)) = b_index b" "b_index (snd (applyRouting H rc b)) = b_index b"
    "b_index (snd (applyConnmark H C b)) = b_index b" "b_index (snd (updateKillswitch H C mode b)) = b_index b" "b_index (snd (try_call H c b)) = b_index b"
  by (auto simp: setDefaultTunDNSInterface_def applyRouting_def applyConnmark_def updateKillswitch_def try_quiet call_quiet Let_def split: option.split)

lemma applyRouting_applies: "ValidateConfig (rc (b_index b)) = None \<Longrightarrow> applies_ok (b_sys (snd (applyRouting H rc b))) = applies_ok (b_sys b)"
  by (auto simp: applyRouting_def try_quiet Let_def split: option.split)

lemma readIndex_positive: "positive_index H \<Longrightarrow> fst (readIndex H b) = None \<Longrightarrow> 0 < b_index (snd (readIndex H b))"
  by (simp add: readIndex_def call_quiet positive_index_def)

lemma buildSteps_keeps:
  assumes "positive_index H" and "\<And>index. 0 < index \<Longrightarrow> ValidateConfig (buildConfig C opts index addrs routes srs) = None"
  shows "keeps plain_apply (buildSteps H C opts addrs dnsIP routes srs) indexed"
  unfolding buildSteps_def
  by (rule keeps_step [where Q = plain_apply], simp add: try_quiet, rule keeps_step [where Q = plain_apply], simp add: try_quiet,
      rule keeps_step [where Q = plain_apply], simp add: try_quiet, rule keeps_step [where Q = plain_apply], simp add: steps_applies,
      rule keeps_step [where Q = plain_apply], simp add: steps_applies, rule keeps_step [where Q = plain_apply], simp add: steps_applies,
      rule keeps_step [where Q = plain_apply], simp add: steps_applies,
      rule keeps_step [where Q = indexed], simp add: steps_applies indexed_def readIndex_positive [OF assms(1)],
      rule keeps_step [where Q = indexed], simp add: steps_applies indexed_def index_frame,
      rule keeps_step [where Q = indexed], simp add: applyRouting_applies assms(2) indexed_def index_frame,
      rule keeps_step [where Q = indexed], simp add: steps_applies indexed_def index_frame,
      rule keeps_step [where Q = indexed], simp add: try_quiet indexed_def,
      rule keeps_step [where Q = indexed], simp add: steps_applies indexed_def index_frame,
      rule keeps_nil, simp add: indexed_def)

lemma buildFail_configured:
  assumes "applies_ok (b_sys b)"
  shows "configured (snd (buildFail H C err b))"
proof -
  define r1 where "r1 = onlyIf (b_tunRecreated b) (also_call H (CallTunClose (b_nativeTun b))) (Some err, b_sys b)"
  define r3 where "r3 = (if b_serverReplaced b then closeServer H (b_server b) (fst r1, unregisterRules H C (b_ruleIDs b) (snd r1))
    else (fst r1, unregisterRules H C (b_ruleIDs b) (snd r1)))"
  define r4 where "r4 = onlyIf (\<not> b_oldPmarkChecker b \<and> b_pmarkCheckerInstalled b) (also_call H (CallSetChecker False)) r3"
  define r5 where "r5 = (case b_appliedRC b of None \<Rightarrow> r4 | Some rc \<Rightarrow> (fst r4, updState (\<lambda>st. st\<lparr>dt_routingConfig := Some rc\<rparr>) (snd r4)))"
  define r6 where "r6 = onlyIf (b_connmarkSet b \<and> sc_connmark C) (also_call H CallConnmarkRollback) r5"
  have "applies_ok (snd r1)" using assms by (simp add: r1_def onlyIf_quiet)
  then have "applies_ok (snd r3)" by (simp add: r3_def closeServer_state)
  then have "applies_ok (snd r4)" by (simp add: r4_def onlyIf_quiet)
  then have "applies_ok (snd r5)" by (simp add: r5_def split: option.split)
  then have a: "applies_ok (snd r6)" by (simp add: r6_def onlyIf_quiet)
  have "buildFail H C err b = (case sy_defaultTun (snd r6) of None \<Rightarrow> r6
      | Some st \<Rightarrow> (case closeActive H C st ((snd r6)\<lparr>sy_defaultTun := None\<rparr>) of (e, s) \<Rightarrow> (errors_join [fst r6, e], s)))"
    unfolding buildFail_def Let_def r6_def r5_def r4_def r3_def r1_def by simp
  then show ?thesis using a applies_closeActive [of H C _ "(snd r6)\<lparr>sy_defaultTun := None\<rparr>"] closeActive_effect(2) [of H C _ "(snd r6)\<lparr>sy_defaultTun := None\<rparr>"]
    by (cases "sy_defaultTun (snd r6)") (simp_all add: configured_def config_stored_def)
qed

lemma finishBuild_configured:
  assumes "applies_ok (b_sys b)" and "config_for addrs routes (buildConfig C opts (b_index b) addrs routes srs)"
  shows "configured (finishBuild H C opts addrs dnsIP routes srs b)"
  using assms unfolding finishBuild_def Let_def configured_def config_stored_def closeServer_state
  by (auto simp: serverClosed_effect split: option.split)

lemma runBuild_configured:
  assumes "applies_ok (b_sys b)" and "positive_index H"
    and "\<And>index. 0 < index \<Longrightarrow> config_for addrs routes (buildConfig C opts index addrs routes srs)"
  shows "configured (snd (runBuild H C opts addrs dnsIP routes srs b))"
proof -
  obtain e b' where s: "steps (buildSteps H C opts addrs dnsIP routes srs) b = (e, b')" by (metis surj_pair)
  have "ValidateConfig (buildConfig C opts index addrs routes srs) = None" if "0 < index" for index using assms(3) [OF that] by (simp add: config_for_def)
  from buildSteps_keeps [OF assms(2) this, of dnsIP] have "applies_ok (b_sys b')" "e = None \<longrightarrow> indexed b'" using assms(1) s by (auto simp: keeps_def)
  then show ?thesis using s buildFail_configured finishBuild_configured assms(3)
    by (cases e) (auto simp: runBuild_def indexed_def)
qed

lemma parseAll_assigned: "parseAll ss = Inr ps \<Longrightarrow> assignedAddrs ss = Inr (pfxAddr ` set ps)"
  by (induction ss arbitrary: ps) (auto split: sum.splits)

lemma normalized_assigned:
  assumes "normalizeTunAddrs addrs cidr dns = Inr (out, ip)"
  obtains as where "assignedAddrs out = Inr as"
proof -
  obtain fb ps where f: "fallbackOf cidr = Inr fb" "parseAll addrs = Inr ps" using assms by (auto simp: normalizeTunAddrs_iff Let_def split: sum.splits)
  let ?w = "withFallback fb (dedup_by (\<lambda>q. q) (ordinary ps))"
  have out: "out = map prefixString ?w" using assms f by (auto simp: normalizeTunAddrs_iff Let_def)
  have "\<forall>p \<in> set ?w. prefixIsValid p \<and> addrZone (pfxAddr p) = ''''"
    using parseAll_valid [OF f(2)] fallbackOf_zone [OF f(1)] by (auto simp: withFallback_def ordinary_def)
  then have "parseAll out = Inr ?w" unfolding out by (rule parseAll_texts)
  from that [OF parseAll_assigned [OF this]] show ?thesis .
qed

definition marks_valid :: "sysConfig \<Rightarrow> bool" where
  "marks_valid C \<longleftrightarrow> ValidateConfig (markConfig (sc_appBypassMark C) (sc_appBypassMask C) (sc_userMark C) (sc_userMarkMask C)) = None"

lemma NewSystem_marks: "NewSystem config cidr = Inr C \<Longrightarrow> marks_valid C"
  by (auto simp: NewSystem_def Let_def marks_valid_def split: option.splits)

lemma beginBuild_configured:
  assumes "configured s" and "beginBuild H C mtu s = (r, s')"
  shows "case r of Inl err \<Rightarrow> configured s' | Inr b \<Rightarrow> applies_ok (b_sys b)"
proof -
  have prep: "configured (snd (prepareDefaultTunLink H C st mtu s))" for st
    using assms(1) by (auto simp: prepareDefaultTunLink_def linkAlive_def validateDefaultTunReplacement_def attempt_quiet call_quiet Let_def split: option.splits if_splits)
  show ?thesis
  proof (cases "sy_defaultTun s")
    case None
    then show ?thesis using assms by (auto simp: beginBuild_def attempt_quiet Let_def startBuild_def configured_def split: option.splits)
  next
    case (Some st)
    then show ?thesis using assms prep [of st]
      by (auto simp: beginBuild_def startBuild_def configured_def split: prod.splits sum.splits)
  qed
qed

lemma BuildDefaultTun_configured:
  assumes "configured s" and "marks_valid C" and "positive_index H"
  shows "configured (snd (BuildDefaultTun H A C F opts s))"
proof -
  obtain report s1 where c: "CheckDefaultTunOpts H A C F opts s = (report, s1)" by (metis surj_pair)
  have s1: "configured s1" using c assms(1)
    by (auto simp: CheckDefaultTunOpts_def Let_def TunNameVerify_def interfaceExists_def activeDefaultTunName_def attempt_quiet call_quiet
        split: if_splits prod.splits option.splits)
  have run: "configured (snd (runBuild H C opts addrs dnsIP routes srs b))" if "normalizeTunAddrs as cidr dns = Inr (addrs, ip)"
    "normalizeTunSourceRoutes addrs rs = Inr srs" "applies_ok (b_sys b)" for addrs as cidr dns ip srs rs b dnsIP routes
  proof (rule runBuild_configured [OF that(3) assms(3)])
    fix index :: int assume "0 < index"
    note sources = that(2)
    from that(1) obtain ads where "assignedAddrs addrs = Inr ads" by (rule normalized_assigned)
    from defaultTunConfig_for [OF assms(2) [unfolded marks_valid_def] \<open>0 < index\<close> this sources]
    show "config_for addrs routes (buildConfig C opts index addrs routes srs)" by (simp add: buildConfig_def)
  qed
  obtain r s2 where b: "beginBuild H C (NormalizeMTU (to_MTU opts)) s1 = (r, s2)" by (metis surj_pair)
  show ?thesis using c s1 run beginBuild_configured [OF s1 b] b
    by (auto simp: BuildDefaultTun_def split: option.split sum.split)
qed

section \<open>Updates\<close>

lemma clone_id [simp]: "cloneDefaultTunRoutingConfig rc = rc"
  by (simp add: cloneDefaultTunRoutingConfig_def)

lemma restore_configured:
  "configured s \<Longrightarrow> configured (snd (restoreDefaultTunLinkLocked H t addrs routes s))"
  "configured s \<Longrightarrow> ValidateConfig rc = None \<Longrightarrow> configured (snd (restoreDefaultTunRoutingLocked H rc rc' s))"
  by (simp_all add: restoreDefaultTunLinkLocked_def restoreDefaultTunRoutingLocked_def attempt_quiet)

lemma stored_update:
  assumes "configured s" and "sy_defaultTun s = Some st" and "config_for (dt_addrs (f st)) (dt_routes (f st)) rc" and "dt_routingConfig (f st) = Some rc"
  shows "configured (updState f s)"
  using assms by (simp add: configured_def config_stored_def)

lemma updateAddrs_configured:
  assumes "configured s" and "sy_defaultTun s = Some st"
  shows "configured (snd (updateDefaultTunAddrsLocked H A t addrs added st s))"
proof (cases "dt_routingConfig st")
  case (Some rc)
  show ?thesis
  proof (cases "validateDefaultTunSourceAddrs addrs (cfg_SourceRoutes rc)")
    case None
    have old: "ValidateConfig rc = None" using assms Some by (auto simp: configured_def config_stored_def config_for_def)
    let ?new = "setDefaultTunRoutingFamilies rc addrs (dt_routes st)"
    have new: "config_for addrs (dt_routes st) ?new" by (rule setFamilies_for [OF old None])
    then have v: "ValidateConfig ?new = None" by (simp add: config_for_def)
    show ?thesis unfolding updateDefaultTunAddrsLocked_def Some None option.case Let_def clone_id
      using assms v old
      by (intro readThen_state [where P = configured] tryElse_state [where P = configured])
        (auto simp: restore_configured intro!: stored_update [where st = st] new)
  qed (use assms Some in \<open>simp add: updateDefaultTunAddrsLocked_def\<close>)
qed (use assms in \<open>simp add: updateDefaultTunAddrsLocked_def\<close>)

lemma setRoutes_configured:
  assumes "configured s" and "sy_defaultTun s = Some st"
  shows "configured (snd (setDefaultTunRoutesLocked H A t routes st s))"
proof (cases "dt_routingConfig st")
  case (Some rc)
  have "config_for (dt_addrs st) (dt_routes st) rc" using assms Some by (auto simp: configured_def config_stored_def)
  then have old: "ValidateConfig rc = None" "validateDefaultTunSourceAddrs (dt_addrs st) (cfg_SourceRoutes rc) = None" by (simp_all add: config_for_def)
  let ?new = "setDefaultTunRoutingFamilies rc (dt_addrs st) routes"
  have new: "config_for (dt_addrs st) routes ?new" by (rule setFamilies_for [OF old])
  then have v: "ValidateConfig ?new = None" by (simp add: config_for_def)
  show ?thesis unfolding setDefaultTunRoutesLocked_def Some option.case Let_def clone_id
    using assms v old(1)
    by (intro readThen_state [where P = configured] tryElse_state [where P = configured])
      (auto simp: restore_configured attempt_quiet intro!: stored_update [where st = st] new)
qed (use assms in \<open>simp add: setDefaultTunRoutesLocked_def\<close>)

lemma updates_configured:
  assumes "configured s" and "sy_defaultTun s = Some st"
  shows "configured (snd (setDefaultTunAddrsLocked H A C n addrs st s))" and "configured (snd (addDefaultTunAddrLocked H A C n addr st s))"
    and "configured (snd (setDefaultTunRoutesLocked H A n routes st s))"
  using assms updateAddrs_configured [OF assms] setRoutes_configured [OF assms]
  by (auto simp: setDefaultTunAddrsLocked_def addDefaultTunAddrLocked_def split: sum.split)

lemma setters_configured:
  assumes "configured s"
  shows "configured (snd (System_SetTunMTU H A C F t mtu s))" "configured (snd (System_SetTunAddrs H A C F t addrs s))"
    "configured (snd (System_AddTunAddr H A C F t addr s))" "configured (snd (System_SetTunRoutes H A C F t routes s))"
    "configured (snd (System_AddTunRoute H A C F t route s))" "configured (snd (System_SetTunName H A C F t name s))"
    "configured (snd (System_GetTunAddrs H A C F t s))" "configured (snd (System_GetTunRoutes H A C F t s))"
proof -
  show "configured (snd (System_SetTunMTU H A C F t mtu s))" unfolding System_SetTunMTU_def using assms
    by (intro withTun_state [where P = configured] allowed_state [where P = configured]) (auto simp: attempt_quiet call_quiet split: option.split)
  show "configured (snd (System_SetTunAddrs H A C F t addrs s))" unfolding System_SetTunAddrs_def using assms
    by (intro withTun_state [where P = configured]) (auto simp: attempt_quiet updates_configured intro!: allowed_state [where P = configured] split: sum.split)
  show "configured (snd (System_AddTunAddr H A C F t addr s))" unfolding System_AddTunAddr_def using assms
    by (intro withTun_state [where P = configured]) (auto simp: attempt_quiet updates_configured intro!: allowed_state [where P = configured] split: sum.split list.split)
  show "configured (snd (System_SetTunRoutes H A C F t routes s))" unfolding System_SetTunRoutes_def using assms
    by (intro withTun_state [where P = configured]) (auto simp: attempt_quiet updates_configured intro!: allowed_state [where P = configured] split: sum.split)
  show "configured (snd (System_AddTunRoute H A C F t route s))" unfolding System_AddTunRoute_def using assms
    by (intro withTun_state [where P = configured]) (auto simp: attempt_quiet updates_configured intro!: allowed_state [where P = configured] split: sum.split list.split)
  show "configured (snd (System_SetTunName H A C F t name s))" unfolding System_SetTunName_def using assms
    by (intro withTun_state [where P = configured] allowed_state [where P = configured])
      (auto simp: attempt_quiet call_quiet TunNameVerify_def interfaceExists_def split: prod.split)
  show "configured (snd (System_GetTunAddrs H A C F t s))" "configured (snd (System_GetTunRoutes H A C F t s))" using assms
    by (auto simp: System_GetTunAddrs_def System_GetTunRoutes_def call_quiet split: sum.split option.split)
qed

lemma steps_state: "(\<And>f s. f \<in> set fs \<Longrightarrow> P s \<Longrightarrow> P (snd (f s))) \<Longrightarrow> P s \<Longrightarrow> P (snd (steps fs s))"
proof (induction fs arbitrary: s)
  case (Cons f fs)
  obtain e s1 where f: "f s = (e, s1)" by (cases "f s")
  then have "P s1" using Cons.prems(1) [of f s] Cons.prems(2) by simp
  then show ?case using Cons f by (cases e) simp_all
qed simp

lemma BuildTun_configured: "configured s \<Longrightarrow> configured (snd (BuildTun H A C F opts s))"
proof -
  assume "configured s"
  obtain report s1 where c: "CheckTunOpts H A C F opts s = (report, s1)" by (metis surj_pair)
  have s1: "configured s1" using c \<open>configured s\<close>
    by (auto simp: CheckTunOpts_def Let_def TunNameVerify_def interfaceExists_def attempt_quiet split: if_splits prod.splits)
  let ?t = "length (sy_log s1)" and ?s2 = "quiet_call H (CallCreateTUN (defaultTunBaseName_of C) (NormalizeMTU (to_MTU opts))) s1"
  have "configured (snd (steps (setupTun H ?t opts addrs routes) ?s2))" for addrs routes
    by (rule steps_state [where P = configured]) (use s1 in \<open>auto simp: setupTun_def attempt_quiet split: if_splits\<close>)
  then have "configured (snd (case normalizeTunAddrs (to_TunAddrs opts) '''' '''' of Inl err \<Rightarrow> (Some err, ?s2)
      | Inr (addrs, _) \<Rightarrow> (case normalizeTunRoutes (to_TunRoutes opts) of Inl err \<Rightarrow> (Some err, ?s2)
        | Inr routes \<Rightarrow> steps (setupTun H ?t opts addrs routes) ?s2)))" (is "configured (snd ?body)")
    using s1 by (auto split: sum.split)
  moreover obtain e s3 where b: "?body = (e, s3)" by (metis surj_pair)
  moreover have "configured (s3\<lparr>sy_tuns := ts\<rparr>) = configured s3" for ts by (simp add: configured_def)
  ultimately show ?thesis using c s1 b unfolding BuildTun_def
    by (cases e) (auto simp: attempt_quiet Let_def split: option.split)
qed

lemma perform_configured:
  assumes "configured s" and "marks_valid C" and "positive_index H"
  shows "configured (perform H A C F s op)"
  using BuildDefaultTun_configured [OF assms] assms(1) setters_configured BuildTun_configured SetDNS_configured Close_configured regularClose_configured
    System_Close_configured
  by (cases op) (simp_all add: perform_def)

lemma run_configured:
  assumes "marks_valid C" and "positive_index H"
  shows "configured (run H A C F ops)"
proof -
  have "configured s \<Longrightarrow> configured (foldl (perform H A C F) s ops)" for s
    using perform_configured [OF _ assms] by (induction ops arbitrary: s) simp_all
  moreover have "configured freshSystem" by (simp add: configured_def applies_ok_def config_stored_def freshSystem_def)
  ultimately show ?thesis by (simp add: run_def)
qed

section \<open>The facade never misconfigures routing\<close>

text \<open>
  C14: In every run of a system that \<open>NewSystem\<close> accepted, whatever fails, each configuration that the facade gives to the routing manager passes
  \<open>ValidateConfig\<close>, provided that interface indices are positive: building, updates of addresses and
  routes, and restoring an old configuration never fail because of the configuration. The stored configuration has the families of the stored
  addresses and routes, and each of its source addresses is an address of the TUN.
\<close>

theorem facade_configs_valid:
  assumes "NewSystem config cidr = Inr C" and "positive_index H"
  shows "(\<forall>(c, a) \<in> set (sy_log (run H A C F ops)). \<forall>rc. c = CallApply rc \<longrightarrow> ValidateConfig rc = None) \<and>
    (\<forall>st rc. sy_defaultTun (run H A C F ops) = Some st \<and> dt_routingConfig st = Some rc \<longrightarrow>
      ValidateConfig rc = None \<and> cfg_TunnelFamilies rc = routeFamilies (dt_addrs st) (dt_routes st) \<and>
      validateDefaultTunSourceAddrs (dt_addrs st) (cfg_SourceRoutes rc) = None)"
  using run_configured [OF NewSystem_marks [OF assms(1)] assms(2), of A F ops]
  by (auto simp: configured_def applies_ok_def config_stored_def config_for_def)

definition sampleSys' :: sysConfig where
  "sampleSys' = sampleSys\<lparr>sc_connmarkRequired := True\<rparr>"

lemma sample_new: "NewSystem sampleSys ''10.9.0.1/24'' = Inr sampleSys'"
proof -
  have "ValidateConfig (markConfig DefaultAppBypassMark DefaultMarkMask 0x4d000001 DefaultMarkMask) = None" by code_simp
  moreover have "DefaultAppBypassMark \<noteq> 0" "DefaultMarkMask \<noteq> 0" by (simp_all add: DefaultAppBypassMark_def DefaultMarkMask_def)
  ultimately show ?thesis by (simp add: NewSystem_def sampleSys'_def sampleSys_def Let_def)
qed

lemma sample_index: "positive_index quietHost"
  by (simp add: positive_index_def quietHost_def)

theorem facade_configs_valid_witness:
  "list_all (\<lambda>(c, a). case c of CallApply rc \<Rightarrow> ValidateConfig rc = None | _ \<Rightarrow> True) (sy_log (run quietHost plainAPI sampleSys' noFailures sampleRun))"
  using facade_configs_valid [OF sample_new sample_index, of plainAPI noFailures sampleRun] by (auto simp: list_all_iff split: hostCall.split)

end
