(* ===== verification/Spec2Isabelle.thy ===== *)
theory Spec2Isabelle
  imports Routing_Properties Routing_Policy Killswitch Subnet Connmark Resolvconffile Tun_Properties Tun_Create Matcher
    Dns_Safety Dns_Network Dns_Mode Dns_Resolved_Safety Resolver Sys_Routing
begin

text \<open>
  A verification development for sysnet-linux, the Linux implementation of system networking for VPN
  clients: TUN devices, policy routing with marks, DNS takeover, rules that select processes, and a
  client of the killswitch daemon. Paths below are relative to \<open>src/\<close>.

  \<^bold>\<open>The program.\<close> The facade \<open>System\<close> (\<open>sysnet.go\<close>, \<open>default_tun.go\<close>, \<open>capabilities.go\<close>) owns at most one
  default TUN and any number of regular TUNs. To build the default TUN it registers process rules (\<open>rules.go\<close>),
  creates a device (\<open>tun/\<close>), sets its addresses, installs the managed DNS server (\<open>dns/\<close>), the mirror of packet
  marks (\<open>connmark/\<close>) and the policy routing (\<open>routing/\<close>), and announces to the killswitch (\<open>killswitch/\<close>)
  which traffic may pass. The routing manager compiles a configuration to Linux policy rules and route tables,
  reconciles the kernel with them under a guard rule, and follows changes of the main table in a goroutine.
  A DNS provider finds the upstream servers of the host, routes requests to them and points the
  host to the managed server. The matcher (\<open>matcher.go\<close>) decides for a socket whether a rule selects its owner; the resolver
  (\<open>resolver.go\<close>) answers from the hosts file first; \<open>subnet/\<close> keeps allocated networks apart from those in use.

  \<^bold>\<open>Conventions.\<close> Structs are records, enumerations and tagged unions datatypes, errors the values of \<open>Prelude\<close>,
  with wrapping and joining as Go does it. Go's \<open>int\<close> is an integer with its 64-bit wrap-around where arithmetic
  can leave the range; marks and 32-bit fields are words. A method that holds its mutex throughout is one function from the
  state before to the state after; goroutines (the route monitor, the connection of the killswitch client,
  the follower of systemd-resolved) are step functions with an event for each case of their select, and other
  methods may run between two steps. Code outside the repository, including the kernel, is a
  parameter: a record of the calls made, on an arbitrary type of worlds, and a locale with what the code relies on. Every
  locale is interpreted on an executable world, on which the theorems are evaluated. Waiting, time
  and log lines are left out.

  \<^bold>\<open>Foundations.\<close>
  \<^item> \<open>Prelude\<close>: errors, integers, fallible loops, loops that drop repeated keys, sorting; \<open>Go_Strings\<close>, \<open>Strconv\<close>: the
    parts of \<open>strings\<close>, \<open>strconv\<close> and \<open>fmt\<close> that the sources call.
  \<^item> \<open>Netip\<close>, \<open>Netip_Text\<close>, \<open>Net_IP\<close>: addresses and prefixes of \<open>net/netip\<close> and \<open>net\<close>, with parsing as the inverse of
    printing.

  \<^bold>\<open>Routing.\<close>
  \<^item> \<open>Routing_Config\<close> (\<open>model.go\<close>, \<open>config.go\<close>): configurations and their validation, which accepts exactly the
    configurations its specification describes.
  \<^item> \<open>Routing_Safe\<close> (\<open>safe.go\<close>), \<open>Routing_Compiler\<close> (\<open>compiler.go\<close>) and \<open>Routing_Policy\<close>: the compiled rules against the
    documented evaluation of policy rules; in the strict modes no packet leaves but through the VPN, the guard drops, and
    the safe table holds no default route and no route through the TUN.
  \<^item> \<open>Routing_Manager\<close>, \<open>Routing_Reconcile\<close>, \<open>Routing_Apply\<close>, \<open>Routing_Methods\<close> (\<open>manager.go\<close>): the manager over the contract
    \<open>netlink_adapter\<close>. A successful \<open>Apply\<close> leaves exactly the compiled rules and tables; a failed one leaves the guards;
    between two calls of the adapter the guards are installed; nothing outside the owned priorities and tables changes.
  \<^item> \<open>Routing_Adapter\<close> (\<open>adapter.go\<close>): the conversions are inverse on what the compiler produces, and the real adapter on any
    handle with the contract \<open>netlink_handle\<close> is a \<open>netlink_adapter\<close> (a sublocale). \<open>Routing_Kernel\<close> and \<open>Routing_Samples\<close> hold
    the interpretation and the sample host, \<open>Routing_Properties\<close> the theorems for the whole stack.
  \<^item> \<open>Routing_Monitor\<close> (\<open>monitor.go\<close>): a change of the main table that was announced is always followed by a refresh or has
    a timer armed for it.

  \<^bold>\<open>Killswitch, connection marks, subnets.\<close>
  \<^item> \<open>Killswitch\<close> (\<open>killswitch/client.go\<close>): rulesets and their union, the client's operations, and the goroutine of the
    connection; what was sent last is the current ruleset unless a wake-up is pending, and an accepting daemon is brought up to
    date. The locale \<open>announcing\<close> is the contract that every operation of the client and every message handler keeps.
  \<^item> \<open>Connmark\<close> (\<open>connmark/connmark.go\<close>): the contract \<open>nft_conn\<close> of a transactional connection; \<open>Apply\<close> installs exactly one
    table with the generated rules or changes nothing, and the rules carry the mark of a packet to the replies of its connection.
  \<^item> \<open>Subnet\<close> (\<open>subnet/\<close>): a candidate passes exactly if the user's filter passes it and no local network overlaps it.

  \<^bold>\<open>TUN devices.\<close>
  \<^item> \<open>Tun_Prefix\<close>, \<open>Tun_Config\<close> (\<open>tun/config.go\<close>), \<open>Tun_Addr\<close>, \<open>Tun_Reconcile\<close> (\<open>tun/address_linux.go\<close>): over the contracts
    \<open>tun_handle\<close>, \<open>tun_addr_netlink\<close> and \<open>responsive_netlink\<close>; success means that the interface has exactly the wanted addresses, in
    a usable state, and a responsive kernel gives success. \<open>Tun_Properties\<close> holds the theorems and their simulated interface.
  \<^item> \<open>Tun_Create\<close> (\<open>tun/tun.go\<close>): generated names and the retry loop over the contract \<open>random_source\<close>.

  \<^bold>\<open>Rules, matcher, resolver.\<close>
  \<^item> \<open>Rules\<close> (\<open>rules.go\<close>): the table of rules, compilation, parsers, and completion, which stays within its limits and ends on every
    directory with the contract \<open>directory\<close>.
  \<^item> \<open>Matcher\<close> (\<open>matcher.go\<close>): the verdict on every path, errors included, and registration and release over the contract
    \<open>rule_tracker\<close>.
  \<^item> \<open>Resolver\<close> (\<open>resolver.go\<close>): the hosts file answers first, and DNS is asked only when it has no answer.

  \<^bold>\<open>DNS.\<close>
  \<^item> \<open>Dnsname\<close>, \<open>Resolvconffile\<close>: names and resolv.conf files, with writing and parsing inverse to each other.
  \<^item> \<open>Dns_Servers\<close>, \<open>Dns_Network\<close>, \<open>Dns_Mode\<close>: server addresses, the dial of upstream servers, and the choice of the provider as
    a decision table.
  \<^item> \<open>Dns_Provider\<close> and \<open>Dns_Safety\<close> (\<open>direct.go\<close>, \<open>debian_resolvconf.go\<close>, \<open>openresolv.go\<close>): over the contracts \<open>dns_router\<close> and
    \<open>dns_world\<close>, requests are never forwarded to the managed server, and closing restores the file.
  \<^item> \<open>Dns_Routes\<close>, \<open>Dns_Resolved\<close>, \<open>Dns_Resolved_Safety\<close> (\<open>resolved.go\<close>): over the contract \<open>resolved_world\<close>, which extends
    \<open>dns_router\<close>; the longest matching domain decides, requests do not loop, and the managed link is kept configured.

  \<^bold>\<open>Facade.\<close>
  \<^item> \<open>Sys_Options\<close>, \<open>Sys_Capabilities\<close>: normalisation of options; the capability report and the checks of options against it, over the
    contract \<open>capability_lookups\<close> of the reporting package: options are accepted exactly if every feature they need is available.
  \<^item> \<open>Sys_State\<close>, \<open>Sys_Tun\<close>: the calls of the facade as a log of events, answered by an arbitrary host; building, updating with
    rollback, rebuilding after a failure and closing of TUNs.
  \<^item> \<open>Sys_Resources\<close>: what the facade holds, computed from the log, is what its state records, for every list of operations and every
    host; the step proofs compose like Hoare triples. The two cases in which the code does leak are stated as lemmas.
  \<^item> \<open>Sys_Routing\<close>: every configuration that the facade hands to the routing manager passes the manager's validation.

  \<^bold>\<open>Bounds and termination.\<close> No function needs fuel beyond what the source fixes: the retry loop has the source's 10000
  attempts, completion its limits of 512 names scanned in portions of 32 and 10 results, a scanner line 65536 bytes, a byte of a mask 8 bits. Versions of killswitch
  rulesets are 64-bit and are assumed not to wrap, which the statements say. Recursion that is not structural has a measure.

  \<^bold>\<open>Not modelled.\<close> The bodies of D-Bus, ioctl, netlink and socket calls and the production defaults of \<open>dns/env.go\<close>, which are parameters;
  \<open>auto.go\<close>, which probes the host and hands what it found to \<open>NewSystem\<close>; the marked networks, the user's callbacks
  and the pass-through methods of a TUN object, which forward to the device; \<open>cmd/debug\<close> and the end-to-end tests.
\<close>

end
